(* ===== verification/Prelude.thy ===== *)
theory Prelude
  imports Main "HOL-Library.Multiset" "HOL-Library.Char_ord" "HOL-Library.List_Lexorder"
begin

text \<open>
  The generic layer of the development: models of the parts of the JavaScript standard library
  that the source uses everywhere (an insertion-ordered \<^verbatim>\<open>Map\<close> and \<^verbatim>\<open>Set\<close>,
  \<^verbatim>\<open>Array.prototype.sort\<close>, \<^verbatim>\<open>findIndex\<close>, \<^verbatim>\<open>String.prototype.trim\<close>) with their
  laws, and the two interfaces (locales) that the components share: a keyed collection and a
  system of operations that keep an invariant.

  Strings are lists of code units. HOL's \<open>char\<close> covers the code units 0 to 255; each stands
  for itself, except that \<open>CHR 0x85\<close> stands for the ellipsis U+2026 and
  \<open>CHR 0x97\<close> for the em dash U+2014 (\<open>em_dash\<close>), as in the Windows-1252 table; they are the
  only code units above 255 that the source writes itself. White space is what \<^verbatim>\<open>trim\<close> and \<^verbatim>\<open>\s\<close> accept
  in that range: 9 to 13, 32 and 160.
\<close>

named_theorems id_simps
  \<comment> \<open>which keys (job ids, card ids, column ids) an operation leaves alone\<close>

section \<open>Strings\<close>

definition is_ws :: "char \<Rightarrow> bool" where
  "is_ws c \<longleftrightarrow> (let n = of_char c :: nat in (9 \<le> n \<and> n \<le> 13) \<or> n = 32 \<or> n = 160)"

definition em_dash :: string where
  "em_dash = [CHR 0x97]"

definition apostrophe :: string where
  "apostrophe = [CHR 0x27]"

definition trim_start :: "string \<Rightarrow> string" where
  "trim_start s = dropWhile is_ws s"

definition trim_end :: "string \<Rightarrow> string" where
  "trim_end s = rev (dropWhile is_ws (rev s))"

definition trim :: "string \<Rightarrow> string" where
  "trim s = trim_end (trim_start s)"

lemma dropWhile_idem [simp]: "dropWhile P (dropWhile P xs) = dropWhile P xs"
  by (induction xs) auto

lemma trim_Nil [simp]: "trim [] = []"
  by (simp add: trim_def trim_start_def trim_end_def)

lemma dropWhile_hd: "xs \<noteq> [] \<Longrightarrow> \<not> P (hd xs) \<Longrightarrow> dropWhile P xs = xs"
  by (cases xs) auto

lemma hd_trim_end:
  assumes "trim_end s \<noteq> []"
  shows "hd (trim_end s) = hd s"
proof -
  have "rev s = takeWhile is_ws (rev s) @ dropWhile is_ws (rev s)" by simp
  then have "s = rev (dropWhile is_ws (rev s)) @ rev (takeWhile is_ws (rev s))"
    by (metis rev_append rev_rev_ident)
  with assms show ?thesis
    by (metis hd_append2 trim_end_def)
qed

lemma trim_idem [simp]: "trim (trim s) = trim s"
proof (cases "trim s = []")
  case True
  then show ?thesis by simp
next
  case False
  then have ne: "trim_end (trim_start s) \<noteq> []" by (simp add: trim_def)
  then have "trim_start s \<noteq> []"
    by (auto simp: trim_end_def)
  then have "\<not> is_ws (hd (trim_start s))"
    unfolding trim_start_def by (metis hd_dropWhile)
  then have "\<not> is_ws (hd (trim s))"
    using hd_trim_end[OF ne] by (simp add: trim_def)
  with False have "trim_start (trim s) = trim s"
    unfolding trim_start_def by (rule dropWhile_hd)
  moreover have "trim_end (trim s) = trim s"
    by (simp add: trim_def trim_end_def)
  ultimately show ?thesis
    by (metis trim_def)
qed

section \<open>Insertion-ordered maps and sets\<close>

text \<open>
  A JavaScript \<^verbatim>\<open>Map\<close> iterates its entries in the order their keys were first inserted;
  setting a present key replaces the value in place. Lookup is \<open>map_of\<close>.
\<close>

type_synonym ('k, 'v) omap = "('k \<times> 'v) list"

fun omap_set :: "'k \<Rightarrow> 'v \<Rightarrow> ('k, 'v) omap \<Rightarrow> ('k, 'v) omap" where
  "omap_set k v [] = [(k, v)]"
| "omap_set k v ((a, b) # m) = (if a = k then (k, v) # m else (a, b) # omap_set k v m)"

definition omap_of :: "('k \<times> 'v) list \<Rightarrow> ('k, 'v) omap" where
  "omap_of es = fold (\<lambda>(k, v) m. omap_set k v m) es []"

definition oset_add :: "'a \<Rightarrow> 'a list \<Rightarrow> 'a list" where
  "oset_add x s = (if x \<in> set s then s else s @ [x])"

definition oset_of :: "'a list \<Rightarrow> 'a list" where
  "oset_of xs = fold oset_add xs []"

lemma map_of_omap_set [simp]: "map_of (omap_set k v m) = (map_of m)(k \<mapsto> v)"
  by (induction m) (auto simp: fun_eq_iff)

lemma keys_omap_set: "map fst (omap_set k v m) = (if k \<in> fst ` set m then map fst m else map fst m @ [k])"
  by (induction k v m rule: omap_set.induct) auto

lemma set_omap_set: "set (omap_set k v m) \<subseteq> insert (k, v) (set m)"
  by (induction k v m rule: omap_set.induct) auto

lemma set_keys_omap_set [simp]: "fst ` set (omap_set k v m) = insert k (fst ` set m)"
proof -
  have "fst ` set (omap_set k v m) = set (map fst (omap_set k v m))" by simp
  then show ?thesis unfolding keys_omap_set by (auto simp: insert_absorb)
qed

lemma distinct_omap_set: "distinct (map fst m) \<Longrightarrow> distinct (map fst (omap_set k v m))"
  by (auto simp: keys_omap_set)

lemma omap_set_new: "k \<notin> fst ` set m \<Longrightarrow> omap_set k v m = m @ [(k, v)]"
  by (induction k v m rule: omap_set.induct) auto

lemma distinct_omap_fold:
  "distinct (map fst m) \<Longrightarrow> distinct (map fst (fold (\<lambda>(k, v) m. omap_set k v m) es m))"
  by (induction es arbitrary: m) (auto simp: distinct_omap_set)

lemma distinct_omap_of [simp]: "distinct (map fst (omap_of es))"
  by (simp add: omap_of_def distinct_omap_fold)

lemma map_of_omap_fold:
  "map_of (fold (\<lambda>(k, v) m. omap_set k v m) es m) = map_of m ++ map_of (rev es)"
  by (induction es arbitrary: m) (auto simp: map_add_def fun_eq_iff split: option.splits)

text \<open>\<^verbatim>\<open>new Map(entries)\<close> keeps the last value of a repeated key.\<close>

lemma map_of_omap_of: "map_of (omap_of es) = map_of (rev es)"
  by (simp add: omap_of_def map_of_omap_fold)

lemma omap_fold_distinct:
  "distinct (map fst (m @ es)) \<Longrightarrow> fold (\<lambda>(k, v) m. omap_set k v m) es m = m @ es"
proof (induction es arbitrary: m)
  case Nil
  then show ?case by simp
next
  case (Cons e es)
  obtain k v where e: "e = (k, v)" by (cases e)
  with Cons.prems have "omap_set k v m = m @ [(k, v)]"
    by (intro omap_set_new) force
  with e Cons show ?case by simp
qed

lemma omap_of_distinct [simp]: "distinct (map fst es) \<Longrightarrow> omap_of es = es"
  by (simp add: omap_of_def omap_fold_distinct)

lemma map_of_rev_distinct: "distinct (map fst es) \<Longrightarrow> map_of (rev es) = map_of es"
  by (metis distinct_rev map_of_eqI map_of_omap_of omap_of_distinct)

text \<open>Deleting a key keeps the order of the others.\<close>

definition omap_delete :: "'k \<Rightarrow> ('k, 'v) omap \<Rightarrow> ('k, 'v) omap" where
  "omap_delete k m = filter (\<lambda>e. fst e \<noteq> k) m"

lemma map_of_omap_delete [simp]: "map_of (omap_delete k m) = (map_of m)(k := None)"
  by (induction m) (auto simp: omap_delete_def fun_eq_iff)

lemma omap_delete_empty: "omap_delete k m = [] \<Longrightarrow> k' \<noteq> k \<Longrightarrow> map_of m k' = None"
  by (metis fun_upd_other map_of_omap_delete map_of.simps(1))

lemma omap_delete_simps [simp]:
  "omap_delete k [] = []" "omap_delete k ((a, b) # m) = (if a = k then omap_delete k m else (a, b) # omap_delete k m)"
  by (simp_all add: omap_delete_def)

lemma omap_delete_absent: "k \<notin> fst ` set m \<Longrightarrow> omap_delete k m = m"
  by (force simp: omap_delete_def filter_id_conv)

lemma set_omap_delete: "set (omap_delete k m) = {e \<in> set m. fst e \<noteq> k}"
  by (simp add: omap_delete_def)

lemma map_of_filter_key: "P k \<Longrightarrow> map_of (filter (\<lambda>e. P (fst e)) m) k = map_of m k"
  by (induction m) auto

lemma keys_omap_delete: "map fst (omap_delete k m) = filter (\<lambda>a. a \<noteq> k) (map fst m)"
  by (induction m) (simp_all add: omap_delete_def)

lemma distinct_omap_delete: "distinct (map fst m) \<Longrightarrow> distinct (map fst (omap_delete k m))"
  by (simp add: keys_omap_delete)

lemma set_oset_fold: "set (fold oset_add xs s) = set s \<union> set xs"
  by (induction xs arbitrary: s) (auto simp: oset_add_def)

lemma set_oset_of [simp]: "set (oset_of xs) = set xs"
  by (simp add: oset_of_def set_oset_fold)

lemma distinct_oset_fold: "distinct s \<Longrightarrow> distinct (fold oset_add xs s)"
  by (induction xs arbitrary: s) (auto simp: oset_add_def)

lemma distinct_oset_of [simp]: "distinct (oset_of xs)"
  by (simp add: oset_of_def distinct_oset_fold)

section \<open>Stable sorting\<close>

text \<open>
  \<^verbatim>\<open>Array.prototype.sort\<close> is stable. For a comparator that is a total preorder the stable
  result is unique, so it is modelled by insertion from the right: an element is put before the
  first element it is not greater than.
\<close>

fun sort_insert :: "('a \<Rightarrow> 'a \<Rightarrow> bool) \<Rightarrow> 'a \<Rightarrow> 'a list \<Rightarrow> 'a list" where
  "sort_insert le x [] = [x]"
| "sort_insert le x (y # ys) = (if le x y then x # y # ys else y # sort_insert le x ys)"

definition js_sort :: "('a \<Rightarrow> 'a \<Rightarrow> bool) \<Rightarrow> 'a list \<Rightarrow> 'a list" where
  "js_sort le xs = foldr (sort_insert le) xs []"

lemma js_sort_Nil [simp]: "js_sort le [] = []"
  by (simp add: js_sort_def)

lemma js_sort_Cons [simp]: "js_sort le (x # xs) = sort_insert le x (js_sort le xs)"
  by (simp add: js_sort_def)

lemma mset_sort_insert [simp]: "mset (sort_insert le x xs) = add_mset x (mset xs)"
  by (induction xs) auto

lemma mset_js_sort [simp]: "mset (js_sort le xs) = mset xs"
  by (induction xs) auto

lemma set_js_sort [simp]: "set (js_sort le xs) = set xs"
  by (metis mset_js_sort set_mset_mset)

lemma length_js_sort [simp]: "length (js_sort le xs) = length xs"
  by (metis mset_js_sort size_mset)

lemma length_filter_js_sort: "length (filter P (js_sort le xs)) = length (filter P xs)"
  by (metis mset_filter mset_js_sort size_mset)

lemma distinct_js_sort [simp]: "distinct (js_sort le xs) = distinct xs"
  by (metis mset_js_sort mset_eq_imp_distinct_iff)

lemma distinct_map_js_sort [simp]: "distinct (map f (js_sort le xs)) = distinct (map f xs)"
  by (metis mset_js_sort mset_map mset_eq_imp_distinct_iff)

lemma set_sort_insert [simp]: "set (sort_insert le x xs) = insert x (set xs)"
  by (metis mset_sort_insert set_mset_add_mset_insert set_mset_mset)

lemma sorted_wrt_sort_insert:
  assumes total: "\<And>a b. le a b \<or> le b a" and trans: "\<And>a b c. le a b \<Longrightarrow> le b c \<Longrightarrow> le a c"
  shows "sorted_wrt le xs \<Longrightarrow> sorted_wrt le (sort_insert le x xs)"
proof (induction xs)
  case Nil
  then show ?case by simp
next
  case (Cons y ys)
  show ?case
  proof (cases "le x y")
    case True
    with Cons.prems show ?thesis by (auto intro: trans)
  next
    case False
    with total have "le y x" by blast
    with False Cons show ?thesis by auto
  qed
qed

lemma sorted_wrt_js_sort:
  assumes "\<And>a b. le a b \<or> le b a" and "\<And>a b c. le a b \<Longrightarrow> le b c \<Longrightarrow> le a c"
  shows "sorted_wrt le (js_sort le xs)"
proof (induction xs)
  case Nil
  then show ?case by simp
next
  case (Cons x xs)
  then show ?case using sorted_wrt_sort_insert[of le "js_sort le xs" x] assms by simp
qed

lemma js_sort_sorted: "sorted_wrt le xs \<Longrightarrow> js_sort le xs = xs"
proof (induction xs)
  case (Cons x xs)
  then show ?case by (cases xs) simp_all
qed simp

section \<open>Searching lists\<close>

fun find_index :: "('a \<Rightarrow> bool) \<Rightarrow> 'a list \<Rightarrow> nat option" where
  "find_index P [] = None"
| "find_index P (x # xs) = (if P x then Some 0 else map_option Suc (find_index P xs))"

lemma find_index_None [simp]: "find_index P xs = None \<longleftrightarrow> (\<forall>x \<in> set xs. \<not> P x)"
  by (induction xs) auto

lemma find_index_Some:
  "find_index P xs = Some i \<Longrightarrow> i < length xs \<and> P (xs ! i) \<and> (\<forall>j < i. \<not> P (xs ! j))"
proof (induction xs arbitrary: i)
  case Nil
  then show ?case by simp
next
  case (Cons x xs)
  show ?case
  proof (cases "P x")
    case True
    with Cons.prems show ?thesis by simp
  next
    case False
    with Cons.prems obtain k where k: "find_index P xs = Some k" and i: "i = Suc k" by auto
    have "\<not> P ((x # xs) ! j)" if "j < i" for j
      using that False Cons.IH[OF k] i by (cases j) auto
    then show ?thesis using Cons.IH[OF k] i by simp
  qed
qed

lemma find_hit: "find P xs = Some x \<Longrightarrow> x \<in> set xs \<and> P x"
  by (induction xs) (auto split: if_splits)

text \<open>Deleting one position, as \<^verbatim>\<open>splice(i, 1)\<close> does.\<close>

definition remove_at :: "nat \<Rightarrow> 'a list \<Rightarrow> 'a list" where
  "remove_at i xs = take i xs @ drop (Suc i) xs"

lemma mset_remove_at: "i < length xs \<Longrightarrow> add_mset (xs ! i) (mset (remove_at i xs)) = mset xs"
  unfolding remove_at_def
  by (metis id_take_nth_drop mset.simps(2) mset_append union_mset_add_mset_right)

lemma set_remove_at_subset: "set (remove_at i xs) \<subseteq> set xs"
  by (auto simp: remove_at_def dest: in_set_takeD in_set_dropD)

lemma count_filter_length: "length (filter P xs) + length (filter (\<lambda>x. \<not> P x) xs) = length xs"
  by (induction xs) auto

section \<open>The shared interfaces\<close>

text \<open>
  A keyed collection: what a component that stores entries under keys relies on. The provider
  says what a lookup returns after an insertion; the clients' lemmas follow from the laws.
\<close>

locale keyed_store =
  fixes put :: "'k \<Rightarrow> 'v \<Rightarrow> 's \<Rightarrow> 's"
    and get :: "'s \<Rightarrow> 'k \<Rightarrow> 'v option"
    and empty :: 's
  assumes get_empty: "get empty k = None"
    and get_put_same: "get (put k v s) k = Some v"
    and get_put_other: "k \<noteq> k' \<Longrightarrow> get (put k v s) k' = get s k'"
begin

lemma get_put: "get (put k v s) k' = (if k' = k then Some v else get s k')"
  by (auto simp: get_put_same get_put_other)

lemma put_put: "get (put k w (put k v s)) = get (put k w s)"
  by (auto simp: fun_eq_iff get_put)

lemma put_commute: "k \<noteq> k' \<Longrightarrow> get (put k v (put k' w s)) = get (put k' w (put k v s))"
  by (auto simp: fun_eq_iff get_put)

lemma get_fold_put_notin: "k \<notin> fst ` set es \<Longrightarrow> get (fold (\<lambda>(a, b). put a b) es s) k = get s k"
  by (induction es arbitrary: s) (auto simp: get_put)

lemma get_fold_put_in: "distinct (map fst es) \<Longrightarrow> (k, v) \<in> set es
    \<Longrightarrow> get (fold (\<lambda>(a, b). put a b) es s) k = Some v"
proof (induction es arbitrary: s)
  case Nil
  then show ?case by simp
next
  case (Cons e es)
  show ?case
  proof (cases "e = (k, v)")
    case True
    with Cons.prems show ?thesis by (simp add: get_fold_put_notin get_put)
  next
    case False
    with Cons show ?thesis by auto
  qed
qed

end

interpretation omap: keyed_store omap_set map_of "[] :: ('k, 'v) omap"
  by unfold_locales auto

text \<open>
  A system of operations over one state: every operation keeps the invariant, so every run does.
  A run is a list of operations, applied from the left.
\<close>

locale invariant_system =
  fixes step :: "'op \<Rightarrow> 's \<Rightarrow> 's"
    and ok :: "'op \<Rightarrow> 's \<Rightarrow> bool"
    and inv :: "'s \<Rightarrow> bool"
  assumes step_inv: "inv s \<Longrightarrow> ok e s \<Longrightarrow> inv (step e s)"
begin

inductive run_to :: "'s \<Rightarrow> 'op list \<Rightarrow> 's \<Rightarrow> bool" for s :: 's where
  run_start: "run_to s [] s"
| run_step: "run_to s es t \<Longrightarrow> ok e t \<Longrightarrow> run_to s (es @ [e]) (step e t)"

lemma run_inv: "run_to s es t \<Longrightarrow> inv s \<Longrightarrow> inv t"
  by (induction rule: run_to.induct) (auto intro: step_inv)

lemma fold_inv: "(\<And>e s. e \<in> set es \<Longrightarrow> ok e s) \<Longrightarrow> inv s \<Longrightarrow> inv (fold step es s)"
  by (induction es arbitrary: s) (auto intro: step_inv)

lemma run_fold: "run_to s es t \<Longrightarrow> t = fold step es s"
  by (induction rule: run_to.induct) auto

end

end
