(* ===== verification/JsNumber.thy ===== *)
theory JsNumber
  imports Complex_Main
begin

text \<open>
  JavaScript numbers. A finite number is a rational: the clocks, durations, counters and caps
  of the source are integers below \<open>2 ^ 53\<close>, on which the double arithmetic used here
  (addition, subtraction, comparison, \<^verbatim>\<open>Math.trunc\<close>, \<^verbatim>\<open>Math.floor\<close>) is exact, so the
  rounding of doubles is not modelled, and neither is the sign of zero. The three values that the
  guards of the source are about, \<^verbatim>\<open>NaN\<close> and the two infinities, are modelled with their
  IEEE behaviour: every comparison with \<^verbatim>\<open>NaN\<close> is false.
\<close>

datatype jsnum = Fin rat | PosInf | NegInf | NaN

fun js_isFinite :: "jsnum \<Rightarrow> bool" where
  "js_isFinite (Fin q) = True"
| "js_isFinite _ = False"

fun js_lt :: "jsnum \<Rightarrow> jsnum \<Rightarrow> bool" where
  "js_lt NaN _ = False"
| "js_lt _ NaN = False"
| "js_lt (Fin a) (Fin b) = (a < b)"
| "js_lt NegInf b = (b \<noteq> NegInf)"
| "js_lt a NegInf = False"
| "js_lt PosInf _ = False"
| "js_lt _ PosInf = True"

definition js_gt :: "jsnum \<Rightarrow> jsnum \<Rightarrow> bool" where
  "js_gt a b = js_lt b a"

definition js_eq :: "jsnum \<Rightarrow> jsnum \<Rightarrow> bool" where
  "js_eq a b = (a \<noteq> NaN \<and> a = b)"

definition js_le :: "jsnum \<Rightarrow> jsnum \<Rightarrow> bool" where
  "js_le a b = (js_lt a b \<or> js_eq a b)"

definition js_ge :: "jsnum \<Rightarrow> jsnum \<Rightarrow> bool" where
  "js_ge a b = js_le b a"

fun js_add :: "jsnum \<Rightarrow> jsnum \<Rightarrow> jsnum" where
  "js_add (Fin a) (Fin b) = Fin (a + b)"
| "js_add NaN _ = NaN"
| "js_add _ NaN = NaN"
| "js_add PosInf NegInf = NaN"
| "js_add NegInf PosInf = NaN"
| "js_add PosInf _ = PosInf"
| "js_add _ PosInf = PosInf"
| "js_add NegInf _ = NegInf"
| "js_add _ NegInf = NegInf"

fun js_neg :: "jsnum \<Rightarrow> jsnum" where
  "js_neg (Fin a) = Fin (- a)"
| "js_neg PosInf = NegInf"
| "js_neg NegInf = PosInf"
| "js_neg NaN = NaN"

definition js_sub :: "jsnum \<Rightarrow> jsnum \<Rightarrow> jsnum" where
  "js_sub a b = js_add a (js_neg b)"

text \<open>\<^verbatim>\<open>Math.max\<close> and \<^verbatim>\<open>Math.min\<close> are \<^verbatim>\<open>NaN\<close> as soon as one argument is.\<close>

definition js_max :: "jsnum \<Rightarrow> jsnum \<Rightarrow> jsnum" where
  "js_max a b = (if a = NaN \<or> b = NaN then NaN else if js_lt a b then b else a)"

definition js_min :: "jsnum \<Rightarrow> jsnum \<Rightarrow> jsnum" where
  "js_min a b = (if a = NaN \<or> b = NaN then NaN else if js_lt b a then b else a)"

text \<open>Rounding toward zero, written with \<open>floor\<close> only.\<close>

definition rat_trunc :: "rat \<Rightarrow> int" where
  "rat_trunc q = (if q < 0 then - \<lfloor>- q\<rfloor> else \<lfloor>q\<rfloor>)"

fun js_trunc :: "jsnum \<Rightarrow> jsnum" where
  "js_trunc (Fin q) = Fin (of_int (rat_trunc q))"
| "js_trunc x = x"

fun js_floor :: "jsnum \<Rightarrow> jsnum" where
  "js_floor (Fin q) = Fin (of_int \<lfloor>q\<rfloor>)"
| "js_floor x = x"

fun js_ceil :: "jsnum \<Rightarrow> jsnum" where
  "js_ceil (Fin q) = Fin (of_int \<lceil>q\<rceil>)"
| "js_ceil x = x"

text \<open>A product with an infinity has its sign, and is \<^verbatim>\<open>NaN\<close> with zero.\<close>

definition js_signed_inf :: "bool \<Rightarrow> jsnum" where
  "js_signed_inf pos = (if pos then PosInf else NegInf)"

fun js_mul :: "jsnum \<Rightarrow> jsnum \<Rightarrow> jsnum" where
  "js_mul (Fin a) (Fin b) = Fin (a * b)"
| "js_mul NaN _ = NaN"
| "js_mul _ NaN = NaN"
| "js_mul (Fin a) i = (if a = 0 then NaN else js_signed_inf ((a > 0) = (i = PosInf)))"
| "js_mul i (Fin b) = (if b = 0 then NaN else js_signed_inf ((b > 0) = (i = PosInf)))"
| "js_mul i j = js_signed_inf (i = j)"

abbreviation js_of_nat :: "nat \<Rightarrow> jsnum" where
  "js_of_nat n \<equiv> Fin (of_nat n)"

lemmas js_order_defs = js_gt_def js_eq_def js_le_def js_ge_def

lemma js_finite_cases: "js_isFinite x \<longleftrightarrow> (\<exists>q. x = Fin q)"
  by (cases x) auto

lemma js_cmp_Fin [simp]:
  "js_gt (Fin a) (Fin b) = (b < a)"
  "js_le (Fin a) (Fin b) = (a \<le> b)"
  "js_ge (Fin a) (Fin b) = (b \<le> a)"
  "js_eq (Fin a) (Fin b) = (a = b)"
  by (auto simp: js_order_defs)

lemma js_cmp_NaN [simp]:
  "\<not> js_lt a NaN" "\<not> js_gt a NaN" "\<not> js_gt NaN a" "\<not> js_le a NaN" "\<not> js_le NaN a"
  "\<not> js_ge a NaN" "\<not> js_ge NaN a" "\<not> js_eq a NaN" "\<not> js_eq NaN a"
  by (cases a; auto simp: js_order_defs)+

lemma js_max_Fin [simp]: "js_max (Fin a) (Fin b) = Fin (max a b)"
  by (simp add: js_max_def max_def)

lemma js_min_Fin [simp]: "js_min (Fin a) (Fin b) = Fin (min a b)"
  by (simp add: js_min_def min_def)

lemma js_sub_Fin [simp]: "js_sub (Fin a) (Fin b) = Fin (a - b)"
  by (simp add: js_sub_def)

lemma rat_trunc_of_int [simp]: "rat_trunc (of_int i) = i"
  by (simp add: rat_trunc_def flip: of_int_minus)

lemma rat_trunc_of_nat [simp]: "rat_trunc (of_nat n) = int n"
  by (metis of_int_of_nat_eq rat_trunc_of_int)

lemma rat_trunc_numeral [simp]: "rat_trunc (numeral n) = numeral n"
  by (metis of_int_numeral rat_trunc_of_int)

lemma rat_trunc_0_1 [simp]: "rat_trunc 0 = 0" "rat_trunc 1 = 1"
  by (simp_all add: rat_trunc_def)

lemma js_lt_not_NaN: "js_lt a b \<Longrightarrow> a \<noteq> NaN \<and> b \<noteq> NaN"
  by auto

lemma js_lt_irrefl [simp]: "\<not> js_lt a a"
  by (cases a) auto

lemma js_lt_trans: "js_lt a b \<Longrightarrow> js_lt b c \<Longrightarrow> js_lt a c"
  by (cases a; cases b; cases c) auto

lemma js_le_refl: "a \<noteq> NaN \<Longrightarrow> js_le a a"
  by (simp add: js_order_defs)

lemma js_le_trans: "js_le a b \<Longrightarrow> js_le b c \<Longrightarrow> js_le a c"
  by (auto simp: js_order_defs intro: js_lt_trans)

lemma js_total: "a \<noteq> NaN \<Longrightarrow> b \<noteq> NaN \<Longrightarrow> js_lt a b \<or> a = b \<or> js_lt b a"
  by (cases a; cases b) auto

lemma js_max_ge: "a \<noteq> NaN \<Longrightarrow> b \<noteq> NaN \<Longrightarrow> js_le a (js_max a b) \<and> js_le b (js_max a b)"
  using js_total[of a b] by (auto simp: js_max_def js_order_defs)

end
