(* ===== verification/DurableJobs.thy ===== *)
theory DurableJobs
  imports Prelude JsNumber
begin

text \<open>
  The durable scheduler's job graph (\<^verbatim>\<open>src/core/durable-scheduler.ts\<close>): the job and action
  types, the transitions that apply an action or record a worker's report, and the boot replay.
  A job's \<^verbatim>\<open>null\<close> and absent fields are both \<open>None\<close>. The deciding half of the
  file is in the theory DurableScheduler.
\<close>

section \<open>Jobs and actions\<close>

datatype job_state = Blocked | Ready | Leased | Succeeded | Failed

record job_lease =
  workerId :: string
  expiresAt :: jsnum

datatype fail_reason = MaxAttempts | DependencyFailed

datatype failed_reason = Because fail_reason | AttemptsExhausted

record job =
  jobId :: string
  jstate :: job_state
  dependsOn :: "string list"
  lease :: "job_lease option"
  attempts :: nat
  nextEligibleAt :: jsnum
  failedReason :: "failed_reason option"

datatype sched_action =
    Reclaim string
  | Fail string fail_reason
  | Resurrect string
  | Unblock string
  | Lease string string jsnum

fun action_job :: "sched_action \<Rightarrow> string" where
  "action_job (Reclaim i) = i"
| "action_job (Fail i r) = i"
| "action_job (Resurrect i) = i"
| "action_job (Unblock i) = i"
| "action_job (Lease i w e) = i"

fun is_lease :: "sched_action \<Rightarrow> bool" where
  "is_lease (Lease i w e) = True"
| "is_lease _ = False"

fun is_fail :: "sched_action \<Rightarrow> bool" where
  "is_fail (Fail i r) = True"
| "is_fail _ = False"

fun is_reclaim :: "sched_action \<Rightarrow> bool" where
  "is_reclaim (Reclaim i) = True"
| "is_reclaim _ = False"

fun is_unblock :: "sched_action \<Rightarrow> bool" where
  "is_unblock (Unblock i) = True"
| "is_unblock _ = False"

text \<open>\<^verbatim>\<open>new Map(jobs.map((job) => [job.jobId, job]))\<close>\<close>

definition jobs_map :: "job list \<Rightarrow> (string, job) omap" where
  "jobs_map jobs = omap_of (map (\<lambda>j. (jobId j, j)) jobs)"

definition job_of :: "job list \<Rightarrow> string \<Rightarrow> job option" where
  "job_of jobs = map_of (jobs_map jobs)"

definition job_in :: "job_state \<Rightarrow> job option \<Rightarrow> bool" where
  "job_in st oj = (case oj of None \<Rightarrow> False | Some j \<Rightarrow> jstate j = st)"

definition dependenciesSucceeded :: "job \<Rightarrow> (string \<Rightarrow> job option) \<Rightarrow> bool" where
  "dependenciesSucceeded j byId = list_all (\<lambda>d. job_in Succeeded (byId d)) (dependsOn j)"

definition anyDependencyFailed :: "job \<Rightarrow> (string \<Rightarrow> job option) \<Rightarrow> bool" where
  "anyDependencyFailed j byId = list_ex (\<lambda>d. job_in Failed (byId d)) (dependsOn j)"

section \<open>Applying actions\<close>

definition backoff_ms :: "jsnum \<Rightarrow> jsnum" where
  "backoff_ms b = js_max (Fin 0) (js_trunc b)"

fun apply_to_job :: "jsnum \<Rightarrow> jsnum \<Rightarrow> sched_action \<Rightarrow> job \<Rightarrow> job" where
  "apply_to_job now backoff (Reclaim _) j =
     j\<lparr>jstate := Ready, lease := None, nextEligibleAt := js_add now (backoff_ms backoff)\<rparr>"
| "apply_to_job now backoff (Fail _ r) j =
     j\<lparr>jstate := Failed, lease := None, failedReason := Some (Because r)\<rparr>"
| "apply_to_job now backoff (Resurrect _) j =
     j\<lparr>jstate := Ready, lease := None, failedReason := None, nextEligibleAt := Fin 0\<rparr>"
| "apply_to_job now backoff (Unblock _) j = j\<lparr>jstate := Ready\<rparr>"
| "apply_to_job now backoff (Lease _ w e) j =
     j\<lparr>jstate := Leased, lease := Some \<lparr>workerId = w, expiresAt = e\<rparr>, attempts := Suc (attempts j)\<rparr>"

definition apply_to_map ::
  "jsnum \<Rightarrow> jsnum \<Rightarrow> sched_action \<Rightarrow> (string, job) omap \<Rightarrow> (string, job) omap" where
  "apply_to_map now backoff a m =
     (case map_of m (action_job a) of
        None \<Rightarrow> m
      | Some j \<Rightarrow> omap_set (action_job a) (apply_to_job now backoff a j) m)"

definition applyDurableSchedulerActions ::
  "job list \<Rightarrow> sched_action list \<Rightarrow> jsnum \<Rightarrow> jsnum \<Rightarrow> job list" where
  "applyDurableSchedulerActions jobs actions now backoff =
     map snd (fold (apply_to_map now backoff) actions (jobs_map jobs))"

section \<open>Worker reports and heartbeats\<close>

datatype outcome = OutSucceeded | OutFailed | OutTransientRetry

text \<open>\<^verbatim>\<open>Number.isFinite(m) ? Math.max(1, Math.trunc(m)) : 1\<close>\<close>

definition attempt_budget :: "jsnum \<Rightarrow> int" where
  "attempt_budget m = (case m of Fin q \<Rightarrow> max 1 (rat_trunc q) | _ \<Rightarrow> 1)"

definition mark_job :: "outcome \<Rightarrow> jsnum \<Rightarrow> job \<Rightarrow> job" where
  "mark_job out maxAtt j =
     (if jstate j = Succeeded then j
      else if jstate j = Failed then
        (case out of
           OutSucceeded \<Rightarrow> j\<lparr>jstate := Succeeded, lease := None, failedReason := None\<rparr>
         | OutTransientRetry \<Rightarrow>
             (if attempt_budget maxAtt \<le> int (Suc (attempts j)) then j
              else j\<lparr>jstate := Ready, lease := None, attempts := Suc (attempts j),
                     nextEligibleAt := Fin 0, failedReason := None\<rparr>)
         | OutFailed \<Rightarrow> j)
      else
        (case out of
           OutTransientRetry \<Rightarrow>
             (if attempt_budget maxAtt \<le> int (Suc (attempts j))
              then j\<lparr>jstate := Failed, lease := None, failedReason := Some AttemptsExhausted\<rparr>
              else j\<lparr>jstate := Ready, lease := None, attempts := Suc (attempts j),
                     nextEligibleAt := Fin 0\<rparr>)
         | OutSucceeded \<Rightarrow> j\<lparr>jstate := Succeeded, lease := None\<rparr>
         | OutFailed \<Rightarrow> j\<lparr>jstate := Failed, lease := None\<rparr>))"

definition markDurableJob :: "job list \<Rightarrow> string \<Rightarrow> outcome \<Rightarrow> jsnum \<Rightarrow> job list" where
  "markDurableJob jobs i out maxAtt =
     map (\<lambda>j. if jobId j \<noteq> i then j else mark_job out maxAtt j) jobs"

definition renewDurableLease :: "job list \<Rightarrow> string \<Rightarrow> jsnum \<Rightarrow> job list" where
  "renewDurableLease jobs i newExpiresAt =
     map (\<lambda>j. case lease j of
          None \<Rightarrow> j
        | Some l \<Rightarrow>
            (if jobId j \<noteq> i \<or> jstate j \<noteq> Leased then j
             else j\<lparr>lease := Some (l\<lparr>expiresAt :=
                     (if js_isFinite newExpiresAt then js_max (expiresAt l) newExpiresAt
                      else expiresAt l)\<rparr>)\<rparr>)) jobs"

definition isDurableRunComplete :: "job list \<Rightarrow> bool" where
  "isDurableRunComplete jobs = list_all (\<lambda>j. jstate j = Succeeded \<or> jstate j = Failed) jobs"

section \<open>The log and its replay\<close>

datatype log_entry =
    Scheduled jsnum sched_action "string option"
  | Completed string outcome

definition replay_entry :: "jsnum \<Rightarrow> jsnum \<Rightarrow> log_entry \<Rightarrow> job list \<Rightarrow> job list" where
  "replay_entry backoff maxAtt e jobs =
     (case e of
        Scheduled now a _ \<Rightarrow> applyDurableSchedulerActions jobs [a] now backoff
      | Completed i out \<Rightarrow> markDurableJob jobs i out maxAtt)"

definition replayDurableJobs :: "job list \<Rightarrow> log_entry list \<Rightarrow> jsnum \<Rightarrow> jsnum \<Rightarrow> job list" where
  "replayDurableJobs jobs entries backoff maxAtt = fold (replay_entry backoff maxAtt) entries jobs"

section \<open>Updating one job\<close>

text \<open>On distinct ids an action changes the job it names in place.\<close>

abbreviation distinct_jobs :: "job list \<Rightarrow> bool" where
  "distinct_jobs jobs \<equiv> distinct (map jobId jobs)"

definition update_job :: "string \<Rightarrow> (job \<Rightarrow> job) \<Rightarrow> job list \<Rightarrow> job list" where
  "update_job i f jobs = map (\<lambda>j. if jobId j = i then f j else j) jobs"

lemma apply_to_job_id [simp, id_simps]: "jobId (apply_to_job now backoff a j) = jobId j"
  by (cases a) auto

lemma apply_to_job_deps [simp]: "dependsOn (apply_to_job now backoff a j) = dependsOn j"
  by (cases a) auto

lemma mark_job_id [simp, id_simps]: "jobId (mark_job out m j) = jobId j"
  by (simp add: mark_job_def split: outcome.splits)

lemma mark_job_deps [simp]: "dependsOn (mark_job out m j) = dependsOn j"
  by (simp add: mark_job_def split: outcome.splits)

lemma jobs_map_distinct: "distinct_jobs jobs \<Longrightarrow> jobs_map jobs = map (\<lambda>j. (jobId j, j)) jobs"
  unfolding jobs_map_def by (rule omap_of_distinct) (simp add: comp_def)

lemma job_of_Some_iff: "distinct_jobs jobs \<Longrightarrow> job_of jobs i = Some j \<longleftrightarrow> j \<in> set jobs \<and> jobId j = i"
  unfolding job_of_def by (auto simp: jobs_map_distinct comp_def image_iff)

lemma job_of_None_iff: "distinct_jobs jobs \<Longrightarrow> job_of jobs i = None \<longleftrightarrow> i \<notin> jobId ` set jobs"
  unfolding job_of_def by (auto simp: jobs_map_distinct comp_def map_of_eq_None_iff image_iff)

lemma job_of_jobId [simp]: "distinct_jobs jobs \<Longrightarrow> j \<in> set jobs \<Longrightarrow> job_of jobs (jobId j) = Some j"
  by (simp add: job_of_Some_iff)

lemma update_job_absent: "i \<notin> jobId ` set jobs \<Longrightarrow> update_job i f jobs = jobs"
  by (force simp: update_job_def intro: map_idI)

lemma update_job_ids [id_simps]:
  "(\<And>j. jobId (f j) = jobId j) \<Longrightarrow> map jobId (update_job i f jobs) = map jobId jobs"
  by (simp add: update_job_def)

lemma job_of_update_job:
  assumes "distinct_jobs jobs" and f: "\<And>j. jobId (f j) = jobId j"
  shows "job_of (update_job i f jobs) k = (if k = i then map_option f (job_of jobs k) else job_of jobs k)"
proof -
  have ids: "map jobId (update_job i f jobs) = map jobId jobs"
    using f by (rule update_job_ids)
  then have d: "distinct_jobs (update_job i f jobs)" and s: "jobId ` set (update_job i f jobs) = jobId ` set jobs"
    using assms(1) by (auto simp flip: set_map)
  show ?thesis
  proof (cases "job_of jobs k")
    case None
    then have "job_of (update_job i f jobs) k = None" using assms(1) d s by (simp add: job_of_None_iff)
    with None show ?thesis by auto
  next
    case (Some j)
    then have "j \<in> set jobs" "jobId j = k" using assms by (auto simp: job_of_Some_iff)
    then have "job_of (update_job i f jobs) k = Some (if jobId j = i then f j else j)"
      using d by (force simp: job_of_Some_iff update_job_def f)
    then show ?thesis using Some \<open>jobId j = k\<close> by auto
  qed
qed

lemma omap_set_jobs:
  "distinct_jobs jobs \<Longrightarrow> map_of (map (\<lambda>j. (jobId j, j)) jobs) i = Some j \<Longrightarrow> jobId (f j) = jobId j \<Longrightarrow>
   omap_set i (f j) (map (\<lambda>j. (jobId j, j)) jobs)
     = map (\<lambda>j. (jobId j, j)) (update_job i f jobs)"
proof (induction jobs)
  case Nil
  then show ?case by simp
next
  case (Cons h jobs)
  show ?case
  proof (cases "jobId h = i")
    case True
    with Cons.prems have "h = j" by simp
    moreover have "update_job i f jobs = jobs"
      using True Cons.prems(1) by (intro update_job_absent) auto
    ultimately show ?thesis using True Cons.prems by (simp add: update_job_def)
  next
    case False
    with Cons show ?thesis by (simp add: update_job_def)
  qed
qed

lemma apply_to_map_jobs:
  assumes "distinct_jobs jobs"
  shows "apply_to_map now backoff a (map (\<lambda>j. (jobId j, j)) jobs)
    = map (\<lambda>j. (jobId j, j)) (update_job (action_job a) (apply_to_job now backoff a) jobs)"
proof (cases "map_of (map (\<lambda>j. (jobId j, j)) jobs) (action_job a)")
  case None
  then have "action_job a \<notin> jobId ` set jobs" by (auto simp: map_of_eq_None_iff image_iff)
  then have "update_job (action_job a) (apply_to_job now backoff a) jobs = jobs"
    by (rule update_job_absent)
  with None show ?thesis by (simp add: apply_to_map_def)
next
  case (Some j)
  then show ?thesis using assms by (simp add: apply_to_map_def omap_set_jobs)
qed

lemma fold_apply_to_map_jobs:
  "distinct_jobs jobs \<Longrightarrow> map snd (fold (apply_to_map now backoff) as (map (\<lambda>j. (jobId j, j)) jobs))
    = fold (\<lambda>a. update_job (action_job a) (apply_to_job now backoff a)) as jobs"
  by (induction as arbitrary: jobs) (simp_all add: apply_to_map_jobs update_job_ids comp_def)

text \<open>The functional description of the application: the actions act one after another.\<close>

lemma apply_actions_fold:
  assumes "distinct_jobs jobs"
  shows "applyDurableSchedulerActions jobs as now backoff
    = fold (\<lambda>a. update_job (action_job a) (apply_to_job now backoff a)) as jobs"
  using assms by (simp add: applyDurableSchedulerActions_def jobs_map_distinct fold_apply_to_map_jobs)

lemma fold_update_ids [id_simps]:
  "map jobId (fold (\<lambda>a. update_job (action_job a) (apply_to_job now backoff a)) as jobs) = map jobId jobs"
  by (induction as arbitrary: jobs) (simp_all add: update_job_ids)

lemma apply_actions_ids [id_simps]:
  "distinct_jobs jobs \<Longrightarrow> map jobId (applyDurableSchedulerActions jobs as now backoff) = map jobId jobs"
  by (simp add: apply_actions_fold fold_update_ids)

lemma apply_actions_append:
  "distinct_jobs jobs \<Longrightarrow> applyDurableSchedulerActions jobs (as @ bs) now backoff
    = applyDurableSchedulerActions (applyDurableSchedulerActions jobs as now backoff) bs now backoff"
  by (simp add: apply_actions_fold apply_actions_ids fold_update_ids)

lemma mark_is_update: "markDurableJob jobs i out m = update_job i (mark_job out m) jobs"
  by (auto simp: markDurableJob_def update_job_def)

lemma mark_ids [simp, id_simps]: "map jobId (markDurableJob jobs i out m) = map jobId jobs"
  by (simp add: mark_is_update update_job_ids)

definition renew_job :: "jsnum \<Rightarrow> job \<Rightarrow> job" where
  "renew_job e j = (case lease j of None \<Rightarrow> j
     | Some l \<Rightarrow> if jstate j = Leased then j\<lparr>lease := Some (l\<lparr>expiresAt :=
         (if js_isFinite e then js_max (expiresAt l) e else expiresAt l)\<rparr>)\<rparr> else j)"

lemma renew_is_update: "renewDurableLease jobs i e = update_job i (renew_job e) jobs"
  by (auto simp: renewDurableLease_def update_job_def renew_job_def split: option.splits)

lemma renew_job_simps [simp]:
  "jobId (renew_job e j) = jobId j" "jstate (renew_job e j) = jstate j"
  "dependsOn (renew_job e j) = dependsOn j" "attempts (renew_job e j) = attempts j"
  "failedReason (renew_job e j) = failedReason j" "nextEligibleAt (renew_job e j) = nextEligibleAt j"
  "lease (renew_job e j) = None \<longleftrightarrow> lease j = None"
  by (auto simp: renew_job_def split: option.splits)

lemma renew_ids [simp, id_simps]: "map jobId (renewDurableLease jobs i e) = map jobId jobs"
  by (simp add: renew_is_update update_job_ids)

lemma attempt_budget_pos: "1 \<le> attempt_budget m"
  by (simp add: attempt_budget_def split: jsnum.splits)

end
