(* ===== verification/DurableScheduler.thy ===== *)
theory DurableScheduler
  imports DurableJobs
begin

text \<open>
  The deciding half of \<^verbatim>\<open>src/core/durable-scheduler.ts\<close>: one tick's actions against a snapshot
  of the jobs, and the abstract lease protocol that the decided actions follow. The port
  \<^verbatim>\<open>mintWorkerId\<close> is called once per lease in decision order; it is the argument
  \<open>mint\<close>, a supply of which the \<open>n\<close>-th call returns \<open>mint n\<close>.
\<close>

section \<open>One tick's decisions\<close>

record sched_input =
  in_jobs :: "job list"
  in_now :: jsnum
  maxConcurrentLeases :: jsnum
  leaseDurationMs :: jsnum
  maxAttempts :: jsnum
  reclaimBackoffMs :: jsnum
  readyOrder :: "string list option"
  excludedJobIds :: "string list"

text \<open>\<^verbatim>\<open>rank\<close>: the index of a job's first mention in the ready order.\<close>

definition order_rank :: "string list \<Rightarrow> string \<Rightarrow> nat option" where
  "order_rank order i = find_index (\<lambda>k. k = i) order"

definition candidate_le :: "string list \<Rightarrow> (job \<times> nat) \<Rightarrow> (job \<times> nat) \<Rightarrow> bool" where
  "candidate_le order a b =
     (case (order_rank order (jobId (fst a)), order_rank order (jobId (fst b))) of
        (Some r, Some s) \<Rightarrow> r < s \<or> (r = s \<and> snd a \<le> snd b)
      | (Some r, None) \<Rightarrow> True
      | (None, Some s) \<Rightarrow> False
      | (None, None) \<Rightarrow> snd a \<le> snd b)"

definition orderLeaseCandidates :: "job list \<Rightarrow> string list \<Rightarrow> job list" where
  "orderLeaseCandidates jobs order =
     map fst (js_sort (candidate_le order) (zip jobs [0..<length jobs]))"

text \<open>Step 1: an expired lease is reclaimed, or its job failed when the budget is spent.\<close>

definition reclaim_action :: "jsnum \<Rightarrow> int \<Rightarrow> job \<Rightarrow> sched_action option" where
  "reclaim_action now budget j =
     (case lease j of
        None \<Rightarrow> None
      | Some l \<Rightarrow>
          (if jstate j \<noteq> Leased \<or> \<not> js_isFinite now \<or> js_gt (expiresAt l) now then None
           else if budget \<le> int (attempts j) then Some (Fail (jobId j) MaxAttempts)
           else Some (Reclaim (jobId j))))"

definition reclaim_actions :: "jsnum \<Rightarrow> int \<Rightarrow> job list \<Rightarrow> sched_action list" where
  "reclaim_actions now budget jobs = List.map_filter (reclaim_action now budget) jobs"

text \<open>Step 1.5: a cancelled job whose dependencies all succeeded after all comes back.\<close>

definition resurrect_actions :: "(string \<Rightarrow> job option) \<Rightarrow> job list \<Rightarrow> sched_action list" where
  "resurrect_actions byId jobs =
     [Resurrect (jobId j). j \<leftarrow> jobs,
        jstate j = Failed \<and> failedReason j = Some (Because DependencyFailed) \<and> dependenciesSucceeded j byId]"

text \<open>Step 2: a job behind a failed dependency can never run.\<close>

definition fail_actions :: "(string \<Rightarrow> job option) \<Rightarrow> job list \<Rightarrow> sched_action list" where
  "fail_actions byId jobs =
     [Fail (jobId j) DependencyFailed. j \<leftarrow> jobs,
        (jstate j = Blocked \<or> jstate j = Ready) \<and> anyDependencyFailed j byId]"

text \<open>Step 3: a blocked job whose dependencies all succeeded becomes ready.\<close>

definition unblock_actions :: "(string \<Rightarrow> job option) \<Rightarrow> job list \<Rightarrow> sched_action list" where
  "unblock_actions byId jobs =
     [Unblock (jobId j). j \<leftarrow> jobs,
        jstate j = Blocked \<and> \<not> anyDependencyFailed j byId \<and> dependenciesSucceeded j byId]"

text \<open>
  Step 4: leasing. \<open>lease_gate\<close> is the body of the loop, the conjunction of its guards in their
  order; the loop stops at the first candidate that finds no free slot.
\<close>

definition lease_gate ::
  "sched_input \<Rightarrow> (string \<Rightarrow> job option) \<Rightarrow> string set \<Rightarrow> string set \<Rightarrow> string set \<Rightarrow> job \<Rightarrow> bool" where
  "lease_gate inp byId failed reclaimed unblocked j \<longleftrightarrow>
     \<not> (jobId j \<in> failed \<or> jobId j \<in> set (excludedJobIds inp)) \<and>
     (jstate j = Ready \<or> jobId j \<in> reclaimed \<or> jobId j \<in> unblocked) \<and>
     (let eligibleAt = (if jobId j \<in> reclaimed
                        then js_add (in_now inp) (backoff_ms (reclaimBackoffMs inp))
                        else nextEligibleAt j)
      in js_isFinite (in_now inp) \<and> \<not> js_gt eligibleAt (in_now inp)) \<and>
     dependenciesSucceeded j byId"

fun lease_loop ::
  "(job \<Rightarrow> bool) \<Rightarrow> jsnum \<Rightarrow> (nat \<Rightarrow> string) \<Rightarrow> jsnum \<Rightarrow> nat \<Rightarrow> nat \<Rightarrow> job list \<Rightarrow> sched_action list" where
  "lease_loop gate cap mint expiry n active [] = []"
| "lease_loop gate cap mint expiry n active (j # js) =
     (if js_ge (js_of_nat active) cap then []
      else if gate j
      then Lease (jobId j) (mint n) expiry # lease_loop gate cap mint expiry (Suc n) (Suc active) js
      else lease_loop gate cap mint expiry n active js)"

definition lease_cap :: "sched_input \<Rightarrow> jsnum" where
  "lease_cap inp = js_max (Fin 1) (js_trunc (maxConcurrentLeases inp))"

definition lease_expiry :: "sched_input \<Rightarrow> jsnum" where
  "lease_expiry inp = js_add (in_now inp) (js_max (Fin 1) (js_trunc (leaseDurationMs inp)))"

definition leased_count :: "job list \<Rightarrow> nat" where
  "leased_count jobs = length (filter (\<lambda>j. jstate j = Leased) jobs)"

text \<open>Steps 1 to 3, and the slots they leave occupied.\<close>

definition settle_actions :: "sched_input \<Rightarrow> sched_action list" where
  "settle_actions inp =
     (let jobs = in_jobs inp; byId = job_of jobs in
      reclaim_actions (in_now inp) (attempt_budget (maxAttempts inp)) jobs
      @ resurrect_actions byId jobs @ fail_actions byId jobs @ unblock_actions byId jobs)"

definition active_leases :: "sched_input \<Rightarrow> nat" where
  "active_leases inp = leased_count (in_jobs inp)
     - length (reclaim_actions (in_now inp) (attempt_budget (maxAttempts inp)) (in_jobs inp))"

definition tick_gate :: "sched_input \<Rightarrow> job \<Rightarrow> bool" where
  "tick_gate inp = lease_gate inp (job_of (in_jobs inp))
     (action_job ` {a \<in> set (settle_actions inp). is_fail a})
     (action_job ` {a \<in> set (settle_actions inp). is_reclaim a})
     (action_job ` {a \<in> set (settle_actions inp). is_unblock a})"

definition lease_candidates :: "sched_input \<Rightarrow> job list" where
  "lease_candidates inp = (case readyOrder inp of
      None \<Rightarrow> in_jobs inp | Some order \<Rightarrow> orderLeaseCandidates (in_jobs inp) order)"

definition lease_actions :: "sched_input \<Rightarrow> (nat \<Rightarrow> string) \<Rightarrow> sched_action list" where
  "lease_actions inp mint =
     lease_loop (tick_gate inp) (lease_cap inp) mint (lease_expiry inp) 0 (active_leases inp)
       (lease_candidates inp)"

definition decideDurableSchedulerActions ::
  "sched_input \<Rightarrow> (nat \<Rightarrow> string) \<Rightarrow> sched_action list" where
  "decideDurableSchedulerActions inp mint = settle_actions inp @ lease_actions inp mint"

section \<open>The abstract lease protocol\<close>

text \<open>
  What a scheduler may do with a job, independent of clocks and caps: the legal actions in a
  state of the job graph. The decided actions are shown to be a run of legal ones.
\<close>

inductive legal :: "int \<Rightarrow> job list \<Rightarrow> sched_action \<Rightarrow> bool" for b :: int and jobs :: "job list" where
  legal_reclaim: "job_of jobs i = Some j \<Longrightarrow> jstate j = Leased \<Longrightarrow> int (attempts j) < b
    \<Longrightarrow> legal b jobs (Reclaim i)"
| legal_exhaust: "job_of jobs i = Some j \<Longrightarrow> jstate j = Leased \<Longrightarrow> b \<le> int (attempts j)
    \<Longrightarrow> legal b jobs (Fail i MaxAttempts)"
| legal_cancel: "job_of jobs i = Some j \<Longrightarrow> jstate j = Blocked \<or> jstate j = Ready
    \<Longrightarrow> legal b jobs (Fail i DependencyFailed)"
| legal_resurrect: "job_of jobs i = Some j \<Longrightarrow> jstate j = Failed
    \<Longrightarrow> failedReason j = Some (Because DependencyFailed) \<Longrightarrow> dependenciesSucceeded j (job_of jobs)
    \<Longrightarrow> legal b jobs (Resurrect i)"
| legal_unblock: "job_of jobs i = Some j \<Longrightarrow> jstate j = Blocked \<Longrightarrow> dependenciesSucceeded j (job_of jobs)
    \<Longrightarrow> legal b jobs (Unblock i)"
| legal_lease: "job_of jobs i = Some j \<Longrightarrow> jstate j = Ready \<Longrightarrow> dependenciesSucceeded j (job_of jobs)
    \<Longrightarrow> legal b jobs (Lease i w e)"

inductive_simps legal_simps:
  "legal b jobs (Reclaim i)" "legal b jobs (Fail i MaxAttempts)" "legal b jobs (Fail i DependencyFailed)"
  "legal b jobs (Resurrect i)" "legal b jobs (Unblock i)" "legal b jobs (Lease i w e)"

inductive_cases legal_cases: "legal b jobs a"

definition act :: "jsnum \<Rightarrow> jsnum \<Rightarrow> sched_action \<Rightarrow> job list \<Rightarrow> job list" where
  "act now backoff a jobs = update_job (action_job a) (apply_to_job now backoff a) jobs"

lemma act_ids [simp, id_simps]: "map jobId (act now backoff a jobs) = map jobId jobs"
  by (simp add: act_def update_job_ids)

lemma apply_is_fold_act:
  "distinct_jobs jobs \<Longrightarrow> applyDurableSchedulerActions jobs as now backoff = fold (act now backoff) as jobs"
  by (simp add: apply_actions_fold act_def[abs_def])

lemma job_of_act: "distinct_jobs jobs \<Longrightarrow> job_of (act now backoff a jobs) k =
    (if k = action_job a then map_option (apply_to_job now backoff a) (job_of jobs k) else job_of jobs k)"
  by (simp add: act_def job_of_update_job)

inductive legal_run :: "int \<Rightarrow> jsnum \<Rightarrow> jsnum \<Rightarrow> job list \<Rightarrow> sched_action list \<Rightarrow> job list \<Rightarrow> bool"
  for b :: int and now :: jsnum and backoff :: jsnum where
  lr_nil: "legal_run b now backoff jobs [] jobs"
| lr_cons: "legal b jobs a \<Longrightarrow> legal_run b now backoff (act now backoff a jobs) as jobs'
    \<Longrightarrow> legal_run b now backoff jobs (a # as) jobs'"

inductive_simps legal_run_simps [simp]:
  "legal_run b now backoff jobs [] jobs'" "legal_run b now backoff jobs (a # as) jobs'"

lemma legal_run_append:
  "legal_run b now backoff jobs as jobs1 \<Longrightarrow> legal_run b now backoff jobs1 bs jobs2
    \<Longrightarrow> legal_run b now backoff jobs (as @ bs) jobs2"
  by (induction rule: legal_run.induct) auto

lemma legal_run_fold: "legal_run b now backoff jobs as jobs' \<Longrightarrow> jobs' = fold (act now backoff) as jobs"
  by (induction rule: legal_run.induct) auto

text \<open>A legal action on one job leaves the actions legal that are legal for other jobs.\<close>

lemma legal_job: "legal b jobs a \<Longrightarrow> \<exists>j. job_of jobs (action_job a) = Some j \<and> jstate j \<noteq> Succeeded"
  by (erule legal.cases) auto

lemma legal_not_succeeded: "legal b jobs a \<Longrightarrow> job_in Succeeded (job_of jobs d) \<Longrightarrow> d \<noteq> action_job a"
  using legal_job by (fastforce simp: job_in_def split: option.splits)

lemma deps_succeeded_act:
  "distinct_jobs jobs \<Longrightarrow> legal b jobs a \<Longrightarrow> dependenciesSucceeded j (job_of jobs)
    \<Longrightarrow> dependenciesSucceeded j (job_of (act now backoff a jobs))"
  using legal_not_succeeded unfolding dependenciesSucceeded_def
  by (auto simp: list_all_iff job_of_act)


lemma legal_act_other:
  assumes "distinct_jobs jobs" "legal b jobs c" "legal b jobs a" "action_job a \<noteq> action_job c"
  shows "legal b (act now backoff c jobs) a"
  using assms(3)
  by cases (use assms in \<open>auto simp: job_of_act legal_simps deps_succeeded_act\<close>)

lemma legal_run_distinct:
  "distinct_jobs jobs \<Longrightarrow> distinct (map action_job as) \<Longrightarrow> \<forall>a \<in> set as. legal b jobs a
    \<Longrightarrow> legal_run b now backoff jobs as (fold (act now backoff) as jobs)"
proof (induction as arbitrary: jobs)
  case Nil
  then show ?case by simp
next
  case (Cons a as)
  have "\<forall>c \<in> set as. legal b (act now backoff a jobs) c"
  proof
    fix c assume c: "c \<in> set as"
    moreover have "action_job a \<notin> action_job ` set as" using Cons.prems(2) by auto
    ultimately have "action_job c \<noteq> action_job a" by (metis imageI)
    then show "legal b (act now backoff a jobs) c"
      using Cons.prems c by (intro legal_act_other) auto
  qed
  with Cons show ?case by simp
qed

lemma job_of_fold_untouched:
  "distinct_jobs jobs \<Longrightarrow> k \<notin> action_job ` set as \<Longrightarrow> job_of (fold (act now backoff) as jobs) k = job_of jobs k"
  by (induction as arbitrary: jobs) (auto simp: job_of_act)

lemma job_of_fold_touched:
  "distinct_jobs jobs \<Longrightarrow> distinct (map action_job as) \<Longrightarrow> a \<in> set as
    \<Longrightarrow> job_of (fold (act now backoff) as jobs) (action_job a)
      = map_option (apply_to_job now backoff a) (job_of jobs (action_job a))"
proof (induction as arbitrary: jobs)
  case Nil
  then show ?case by simp
next
  case (Cons c as)
  show ?case
  proof (cases "a = c")
    case True
    then have "action_job a \<notin> action_job ` set as" using Cons.prems by auto
    then show ?thesis using Cons.prems True by (simp add: job_of_fold_untouched job_of_act)
  next
    case False
    then have "a \<in> set as" using Cons.prems(3) by simp
    moreover have "action_job c \<notin> action_job ` set as" using Cons.prems(2) by auto
    ultimately have "action_job a \<noteq> action_job c" "a \<in> set as" by (metis imageI)+
    then show ?thesis using Cons by (simp add: job_of_act)
  qed
qed

lemma fold_act_ids [simp, id_simps]: "map jobId (fold (act now backoff) as jobs) = map jobId jobs"
  by (induction as arbitrary: jobs) auto

lemma deps_succeeded_run:
  "legal_run b now backoff jobs as jobs' \<Longrightarrow> distinct_jobs jobs
    \<Longrightarrow> dependenciesSucceeded j (job_of jobs) \<Longrightarrow> dependenciesSucceeded j (job_of jobs')"
  by (induction rule: legal_run.induct) (auto simp: deps_succeeded_act)

section \<open>The decided actions are a legal run\<close>

lemma distinct_filter_ids: "distinct_jobs jobs \<Longrightarrow> distinct (map jobId (filter P jobs))"
  by (rule distinct_map_filter)

lemma disjoint_filter_ids:
  assumes "distinct_jobs jobs" and "\<And>j. P j \<Longrightarrow> \<not> Q j"
  shows "jobId ` {j \<in> set jobs. P j} \<inter> jobId ` {j \<in> set jobs. Q j} = {}"
proof -
  have "inj_on jobId (set jobs)" using assms(1) by (simp add: distinct_map)
  then show ?thesis using assms(2) by (auto simp: inj_on_def)
qed

definition expired :: "jsnum \<Rightarrow> job \<Rightarrow> bool" where
  "expired now j \<longleftrightarrow> jstate j = Leased \<and> js_isFinite now
     \<and> (case lease j of None \<Rightarrow> False | Some l \<Rightarrow> \<not> js_gt (expiresAt l) now)"

lemma reclaim_actions_map:
  "reclaim_actions now b jobs = map (\<lambda>j. if b \<le> int (attempts j) then Fail (jobId j) MaxAttempts
     else Reclaim (jobId j)) (filter (expired now) jobs)"
  by (induction jobs)
    (auto simp: reclaim_actions_def map_filter_simps reclaim_action_def expired_def split: option.splits)

lemma resurrect_actions_map: "resurrect_actions byId jobs = map (\<lambda>j. Resurrect (jobId j))
    (filter (\<lambda>j. jstate j = Failed \<and> failedReason j = Some (Because DependencyFailed)
       \<and> dependenciesSucceeded j byId) jobs)"
  by (induction jobs) (auto simp: resurrect_actions_def)

lemma fail_actions_map: "fail_actions byId jobs = map (\<lambda>j. Fail (jobId j) DependencyFailed)
    (filter (\<lambda>j. (jstate j = Blocked \<or> jstate j = Ready) \<and> anyDependencyFailed j byId) jobs)"
  by (induction jobs) (auto simp: fail_actions_def)

lemma unblock_actions_map: "unblock_actions byId jobs = map (\<lambda>j. Unblock (jobId j))
    (filter (\<lambda>j. jstate j = Blocked \<and> \<not> anyDependencyFailed j byId \<and> dependenciesSucceeded j byId) jobs)"
  by (induction jobs) (auto simp: unblock_actions_def)

lemmas settle_maps = reclaim_actions_map resurrect_actions_map fail_actions_map unblock_actions_map

lemma settle_distinct:
  assumes "distinct_jobs (in_jobs inp)"
  shows "distinct (map action_job (settle_actions inp))"
proof -
  have comp: "map action_job (reclaim_actions now b jobs) = map jobId (filter (expired now) jobs)" for now b jobs
    by (auto simp: settle_maps)
  have ex: "expired now j \<Longrightarrow> jstate j = Leased" for now j by (simp add: expired_def)
  show ?thesis
    using assms ex
    by (auto simp: settle_actions_def Let_def comp settle_maps(2-4) comp_def distinct_filter_ids
        inj_on_eq_iff[OF conjunct2[OF distinct_map[THEN iffD1, OF assms]]] dest!: ex)
qed

lemma settle_legal:
  assumes "distinct_jobs (in_jobs inp)" "a \<in> set (settle_actions inp)"
  shows "legal (attempt_budget (maxAttempts inp)) (in_jobs inp) a"
  using assms by (auto simp: settle_actions_def Let_def settle_maps legal_simps expired_def)


lemma settle_run:
  assumes "distinct_jobs (in_jobs inp)"
  shows "legal_run (attempt_budget (maxAttempts inp)) now backoff (in_jobs inp) (settle_actions inp)
    (fold (act now backoff) (settle_actions inp) (in_jobs inp))"
  using assms settle_distinct settle_legal by (intro legal_run_distinct) blast+

lemma lease_loop_ids:
  "distinct_jobs cands \<Longrightarrow> distinct (map action_job (lease_loop gate cap mint expiry n active cands))
    \<and> (\<forall>a \<in> set (lease_loop gate cap mint expiry n active cands).
        \<exists>j \<in> set cands. \<exists>w. gate j \<and> a = Lease (jobId j) w expiry)"
proof (induction cands arbitrary: n active)
  case Nil
  then show ?case by simp
next
  case (Cons j js)
  have d: "distinct_jobs js" and notin: "jobId j \<notin> jobId ` set js" using Cons.prems by auto
  note ih = Cons.IH[OF d]
  have "jobId j \<notin> action_job ` set (lease_loop gate cap mint expiry (Suc n) (Suc active) js)"
    using conjunct2[OF ih[of "Suc n" "Suc active"]] notin by force
  then show ?case using ih by auto
qed

lemma lease_candidates_mset: "mset (lease_candidates inp) = mset (in_jobs inp)"
proof -
  have "mset (map fst (zip jobs [0..<length jobs])) = mset jobs" for jobs :: "job list" by simp
  moreover have "mset (map fst (js_sort le xs)) = mset (map fst xs)" for le and xs :: "(job \<times> nat) list"
    by (metis mset_js_sort mset_map)
  ultimately show ?thesis
    by (simp add: lease_candidates_def orderLeaseCandidates_def split: option.splits del: mset_map)
qed

lemma lease_candidates_set: "set (lease_candidates inp) = set (in_jobs inp)"
  by (metis lease_candidates_mset set_mset_mset)

lemma lease_candidates_distinct: "distinct_jobs (lease_candidates inp) = distinct_jobs (in_jobs inp)"
  by (metis lease_candidates_mset mset_map mset_eq_imp_distinct_iff)

text \<open>A candidate that passes the gate is ready once steps 1 to 3 are applied.\<close>

lemma gate_ready:
  assumes d: "distinct_jobs (in_jobs inp)" and j: "j \<in> set (in_jobs inp)" and g: "tick_gate inp j"
  shows "\<exists>j'. job_of (fold (act now backoff) (settle_actions inp) (in_jobs inp)) (jobId j) = Some j'
    \<and> jstate j' = Ready \<and> dependsOn j' = dependsOn j"
proof -
  let ?as = "settle_actions inp"
  have jj: "job_of (in_jobs inp) (jobId j) = Some j" using d j by simp
  note touched = job_of_fold_touched[OF d settle_distinct[OF d], of _ now backoff]
  have nf: "jobId j \<notin> action_job ` {a \<in> set ?as. is_fail a}"
    using g by (auto simp: tick_gate_def lease_gate_def)
  show ?thesis
  proof (cases "jobId j \<in> action_job ` set ?as")
    case True
    then obtain a where a: "a \<in> set ?as" "action_job a = jobId j" by auto
    have "legal (attempt_budget (maxAttempts inp)) (in_jobs inp) a" using d a(1) by (rule settle_legal)
    moreover have "\<not> is_fail a" using nf a by force
    ultimately have "jstate (apply_to_job now backoff a j) = Ready"
    proof (cases rule: legal.cases)
      case (legal_lease i j' w e)
      with a(1) show ?thesis by (auto simp: settle_actions_def Let_def settle_maps split: if_splits)
    qed auto
    then show ?thesis using touched[OF a(1)] a(2) jj by auto
  next
    case False
    then have "jstate j = Ready" using g by (auto simp: tick_gate_def lease_gate_def)
    then show ?thesis using job_of_fold_untouched[OF d False] jj by auto
  qed
qed

lemma lease_run:
  assumes d: "distinct_jobs (in_jobs inp)"
  shows "legal_run (attempt_budget (maxAttempts inp)) now backoff
     (fold (act now backoff) (settle_actions inp) (in_jobs inp)) (lease_actions inp mint)
     (fold (act now backoff) (decideDurableSchedulerActions inp mint) (in_jobs inp))"
proof -
  let ?mid = "fold (act now backoff) (settle_actions inp) (in_jobs inp)"
  have dm: "distinct_jobs ?mid" using d by simp
  have ids: "distinct (map action_job (lease_actions inp mint))"
    and shape: "\<And>a. a \<in> set (lease_actions inp mint)
      \<Longrightarrow> \<exists>j \<in> set (in_jobs inp). \<exists>w. tick_gate inp j \<and> a = Lease (jobId j) w (lease_expiry inp)"
    using lease_loop_ids[of "lease_candidates inp"] d
    by (auto simp: lease_actions_def lease_candidates_distinct lease_candidates_set)
  have "legal (attempt_budget (maxAttempts inp)) ?mid a" if a: "a \<in> set (lease_actions inp mint)" for a
  proof -
    obtain j w where j: "j \<in> set (in_jobs inp)" "tick_gate inp j" "a = Lease (jobId j) w (lease_expiry inp)"
      using shape[OF a] by blast
    obtain j' where j': "job_of ?mid (jobId j) = Some j'" "jstate j' = Ready" "dependsOn j' = dependsOn j"
      using gate_ready[OF d j(1,2), of now backoff] by blast
    have "dependenciesSucceeded j (job_of (in_jobs inp))"
      using j(2) by (simp add: tick_gate_def lease_gate_def)
    then have "dependenciesSucceeded j (job_of ?mid)"
      using deps_succeeded_run[OF settle_run[OF d] d] by blast
    then have "dependenciesSucceeded j' (job_of ?mid)" using j'(3) by (simp add: dependenciesSucceeded_def)
    then show ?thesis using j' j(3) by (auto simp: legal_simps)
  qed
  then show ?thesis using legal_run_distinct[OF dm ids] by (simp add: decideDurableSchedulerActions_def)
qed

lemma decide_run:
  assumes "distinct_jobs (in_jobs inp)"
  shows "legal_run (attempt_budget (maxAttempts inp)) now backoff (in_jobs inp)
     (decideDurableSchedulerActions inp mint)
     (applyDurableSchedulerActions (in_jobs inp) (decideDurableSchedulerActions inp mint) now backoff)"
  using legal_run_append[OF settle_run[OF assms] lease_run[OF assms, of now backoff mint]] assms
  by (simp add: apply_is_fold_act decideDurableSchedulerActions_def)

end
