(* ===== verification/DurableInvariants.thy ===== *)
theory DurableInvariants
  imports DurableScheduler
begin

text \<open>
  What every transition of the durable job graph keeps: the well-formedness invariant
  \<open>jobs_inv\<close> (leases sit exactly on leased jobs, the attempt budget is never exceeded, only
  cancelled jobs carry the resurrection reason, and a leased job's prerequisites have all
  succeeded), and the lease count that bounds the run's concurrency.
\<close>

section \<open>The invariant\<close>

definition job_wf :: "int \<Rightarrow> job \<Rightarrow> bool" where
  "job_wf b j \<longleftrightarrow>
     (lease j \<noteq> None \<longleftrightarrow> jstate j = Leased) \<and>
     int (attempts j) \<le> b \<and>
     (jstate j = Ready \<or> jstate j = Blocked \<longrightarrow> int (attempts j) < b) \<and>
     (failedReason j = Some (Because DependencyFailed) \<longrightarrow> jstate j = Failed \<and> int (attempts j) < b)"

text \<open>Distinct ids, a property of every job, and the prerequisites of the leased ones.\<close>

definition jobs_good :: "(job \<Rightarrow> bool) \<Rightarrow> job list \<Rightarrow> bool" where
  "jobs_good P jobs \<longleftrightarrow> distinct_jobs jobs \<and> list_all P jobs \<and>
     list_all (\<lambda>j. jstate j = Leased \<longrightarrow> dependenciesSucceeded j (job_of jobs)) jobs"

definition jobs_inv :: "int \<Rightarrow> job list \<Rightarrow> bool" where
  "jobs_inv b jobs \<longleftrightarrow> distinct_jobs jobs \<and> list_all (job_wf b) jobs \<and>
     list_all (\<lambda>j. jstate j = Leased \<longrightarrow> dependenciesSucceeded j (job_of jobs)) jobs"

text \<open>The part of it that holds for jobs replayed from any log.\<close>

definition jobs_safe :: "job list \<Rightarrow> bool" where
  "jobs_safe = jobs_good (\<lambda>_. True)"

lemma jobs_inv_good: "jobs_inv b = jobs_good (job_wf b)"
  by (simp add: fun_eq_iff jobs_inv_def jobs_good_def)

lemma jobs_good_distinct: "jobs_good P jobs \<Longrightarrow> distinct_jobs jobs"
  by (simp add: jobs_good_def)

lemma jobs_inv_distinct: "jobs_inv b jobs \<Longrightarrow> distinct_jobs jobs"
  by (simp add: jobs_inv_def)

lemma jobs_good_iff: "jobs_good P jobs \<longleftrightarrow> distinct_jobs jobs \<and>
    (\<forall>i j. job_of jobs i = Some j \<longrightarrow> P j \<and>
       (jstate j = Leased \<longrightarrow> dependenciesSucceeded j (job_of jobs)))"
  unfolding jobs_good_def list_all_iff by (metis job_of_Some_iff)

lemmas jobs_inv_iff = jobs_good_iff[where P = "job_wf b" for b, folded jobs_inv_good]

text \<open>
  Changing one job keeps this when the job keeps its property, a succeeded job stays
  succeeded, and a newly leased job's prerequisites have succeeded.
\<close>

lemma jobs_good_update:
  assumes inv: "jobs_good P jobs" and f: "\<And>j. jobId (f j) = jobId j" "\<And>j. dependsOn (f j) = dependsOn j"
    and wf: "\<And>j. job_of jobs i = Some j \<Longrightarrow> P j \<Longrightarrow> P (f j)"
    and succ: "\<And>j. job_of jobs i = Some j \<Longrightarrow> jstate j = Succeeded \<Longrightarrow> jstate (f j) = Succeeded"
    and lea: "\<And>j. job_of jobs i = Some j \<Longrightarrow> jstate (f j) = Leased \<Longrightarrow> jstate j = Leased
      \<or> dependenciesSucceeded j (job_of jobs)"
  shows "jobs_good P (update_job i f jobs)"
proof -
  have d: "distinct_jobs jobs" using inv by (rule jobs_good_distinct)
  note look = job_of_update_job[OF d f(1), of i]
  have deps: "dependenciesSucceeded j (job_of (update_job i f jobs))"
    if "dependenciesSucceeded j (job_of jobs)" for j
    using that succ unfolding dependenciesSucceeded_def list_all_iff job_in_def
    by (auto simp: look split: option.splits)
  have depsf: "dependenciesSucceeded (f j) = dependenciesSucceeded j" for j
    by (simp add: dependenciesSucceeded_def[abs_def] f(2))
  show ?thesis
    unfolding jobs_good_iff
  proof (intro conjI allI impI)
    show "distinct_jobs (update_job i f jobs)" using d f(1) by (simp add: update_job_ids)
  next
    fix k j assume j: "job_of (update_job i f jobs) k = Some j"
    show "P j" using j inv wf by (auto simp: look jobs_good_iff split: if_splits)
    assume l: "jstate j = Leased"
    show "dependenciesSucceeded j (job_of (update_job i f jobs))"
    proof (cases "k = i")
      case True
      with j obtain j0 where j0: "job_of jobs i = Some j0" "j = f j0" by (auto simp: look)
      then have "dependenciesSucceeded j0 (job_of jobs)"
        using lea l inv by (auto simp: jobs_good_iff)
      then show ?thesis using deps j0(2) depsf by simp
    next
      case False
      then show ?thesis using j l inv deps by (auto simp: look jobs_good_iff)
    qed
  qed
qed

lemma jobs_good_act:
  assumes inv: "jobs_good P jobs" and legal: "legal b jobs a"
    and wf: "\<And>j. job_of jobs (action_job a) = Some j \<Longrightarrow> P j \<Longrightarrow> P (apply_to_job now backoff a j)"
  shows "jobs_good P (act now backoff a jobs)"
  unfolding act_def
proof (rule jobs_good_update[OF inv _ _ wf])
  fix j assume j: "job_of jobs (action_job a) = Some j"
  show "jstate (apply_to_job now backoff a j) = Succeeded" if "jstate j = Succeeded"
    using legal by cases (use j that in auto)
  show "jstate j = Leased \<or> dependenciesSucceeded j (job_of jobs)"
    if "jstate (apply_to_job now backoff a j) = Leased"
    using legal by cases (use j that in auto)
qed simp_all

lemma job_wf_act: "legal b jobs a \<Longrightarrow> job_of jobs (action_job a) = Some j \<Longrightarrow> job_wf b j
    \<Longrightarrow> job_wf b (apply_to_job now backoff a j)"
  by (erule legal.cases) (auto simp: job_wf_def)

lemma job_wf_mark: "job_wf (attempt_budget m) j \<Longrightarrow> job_wf (attempt_budget m) (mark_job out m j)"
  by (cases "jstate j") (auto simp: job_wf_def mark_job_def split: outcome.splits)

lemma jobs_inv_act: "jobs_inv b jobs \<Longrightarrow> legal b jobs a \<Longrightarrow> jobs_inv b (act now backoff a jobs)"
  unfolding jobs_inv_good by (rule jobs_good_act) (auto intro: job_wf_act)

lemma jobs_safe_legal_run: "legal_run b now backoff jobs as jobs' \<Longrightarrow> jobs_safe jobs \<Longrightarrow> jobs_safe jobs'"
  unfolding jobs_safe_def by (induction rule: legal_run.induct) (auto intro: jobs_good_act)

lemma jobs_inv_legal_run:
  "legal_run b now backoff jobs as jobs' \<Longrightarrow> jobs_inv b jobs \<Longrightarrow> jobs_inv b jobs'"
  by (induction rule: legal_run.induct) (auto simp: jobs_inv_act)

lemma jobs_good_mark:
  assumes inv: "jobs_good P jobs" and wf: "\<And>j. P j \<Longrightarrow> P (mark_job out m j)"
  shows "jobs_good P (markDurableJob jobs i out m)"
  unfolding mark_is_update
proof (rule jobs_good_update[OF inv _ _ wf])
  fix j
  show "jstate (mark_job out m j) = Succeeded" if "jstate j = Succeeded"
    using that by (simp add: mark_job_def)
  show "jstate j = Leased \<or> dependenciesSucceeded j (job_of jobs)" if "jstate (mark_job out m j) = Leased"
    using that by (auto simp: mark_job_def split: outcome.splits if_splits)
qed simp_all

lemma jobs_inv_mark:
  "jobs_inv (attempt_budget m) jobs \<Longrightarrow> jobs_inv (attempt_budget m) (markDurableJob jobs i out m)"
  unfolding jobs_inv_good by (rule jobs_good_mark) (auto intro: job_wf_mark)

lemma jobs_good_renew:
  assumes inv: "jobs_good P jobs" and wf: "\<And>j. P j \<Longrightarrow> P (renew_job e j)"
  shows "jobs_good P (renewDurableLease jobs i e)"
  unfolding renew_is_update by (rule jobs_good_update[OF inv _ _ wf]) simp_all

lemma job_wf_renew: "job_wf b (renew_job e j) = job_wf b j"
  by (simp add: job_wf_def)

lemma jobs_inv_renew: "jobs_inv b jobs \<Longrightarrow> jobs_inv b (renewDurableLease jobs i e)"
  unfolding jobs_inv_good by (rule jobs_good_renew) (auto simp: job_wf_renew)

lemma jobs_safe_mark: "jobs_safe jobs \<Longrightarrow> jobs_safe (markDurableJob jobs i out m)"
  unfolding jobs_safe_def by (rule jobs_good_mark) simp_all

lemma jobs_safe_renew: "jobs_safe jobs \<Longrightarrow> jobs_safe (renewDurableLease jobs i e)"
  unfolding jobs_safe_def by (rule jobs_good_renew) simp_all

lemma jobs_inv_decide:
  assumes "jobs_inv (attempt_budget (maxAttempts inp)) (in_jobs inp)"
  shows "jobs_inv (attempt_budget (maxAttempts inp))
    (applyDurableSchedulerActions (in_jobs inp) (decideDurableSchedulerActions inp mint) now backoff)"
  using decide_run[OF jobs_inv_distinct[OF assms]] assms by (rule jobs_inv_legal_run)

section \<open>Counting leases\<close>

lemma leased_count_update:
  assumes d: "distinct_jobs jobs" and j: "job_of jobs i = Some j"
  shows "leased_count (update_job i f jobs) + (if jstate j = Leased then 1 else 0)
    = leased_count jobs + (if jstate (f j) = Leased then 1 else 0)"
proof -
  have "j \<in> set jobs" and i: "jobId j = i" using assms by (auto simp: job_of_Some_iff)
  then obtain xs ys where jobs: "jobs = xs @ j # ys" by (meson split_list)
  with d i have "i \<notin> jobId ` set xs" "i \<notin> jobId ` set ys" by auto
  then have "update_job i f jobs = xs @ f j # ys"
    using jobs i update_job_absent[of i xs f] update_job_absent[of i ys f] by (simp add: update_job_def)
  then show ?thesis using jobs by (simp add: leased_count_def)
qed

fun frees_slot :: "sched_action \<Rightarrow> bool" where
  "frees_slot (Reclaim i) = True"
| "frees_slot (Fail i MaxAttempts) = True"
| "frees_slot _ = False"

lemma leased_count_act:
  assumes d: "distinct_jobs jobs" and legal: "legal b jobs a"
  shows "leased_count (act now backoff a jobs) + (if frees_slot a then 1 else 0)
    = leased_count jobs + (if is_lease a then 1 else 0)"
proof -
  obtain j where j: "job_of jobs (action_job a) = Some j" using legal_job[OF legal] by auto
  note count = leased_count_update[OF d j, of "apply_to_job now backoff a"]
  show ?thesis using legal by cases (use j count in \<open>auto simp: act_def\<close>)
qed

lemma leased_count_run:
  "legal_run b now backoff jobs as jobs' \<Longrightarrow> distinct_jobs jobs
    \<Longrightarrow> leased_count jobs' + length (filter frees_slot as) = leased_count jobs + length (filter is_lease as)"
proof (induction rule: legal_run.induct)
  case (lr_nil jobs)
  then show ?case by simp
next
  case (lr_cons jobs a as jobs')
  then show ?case using leased_count_act[of jobs b a now backoff] by (auto split: if_splits)
qed

lemma settle_frees: "length (filter frees_slot (settle_actions inp))
    = length (reclaim_actions (in_now inp) (attempt_budget (maxAttempts inp)) (in_jobs inp))"
  and settle_no_lease: "filter is_lease (settle_actions inp) = []"
  by (auto simp: settle_actions_def Let_def settle_maps filter_map comp_def filter_empty_conv
      intro!: arg_cong[of _ _ length] filter_True split: if_splits)

lemma lease_loop_all_leases: "filter is_lease (lease_loop gate cap mint e n active js) = lease_loop gate cap mint e n active js"
  and lease_loop_no_free: "filter frees_slot (lease_loop gate cap mint e n active js) = []"
  by (induction js arbitrary: n active) auto

lemma lease_loop_cap:
  "int (active + length (lease_loop gate (Fin (of_int c)) mint e n active js)) \<le> max (int active) c"
proof (induction js arbitrary: n active)
  case Nil
  then show ?case by simp
next
  case (Cons j js)
  have "js_ge (js_of_nat active) (Fin (of_int c)) \<longleftrightarrow> c \<le> int active"
    unfolding js_cmp_Fin by (metis of_int_le_iff of_int_of_nat_eq)
  then show ?case using Cons.IH[of "Suc active" "Suc n"] Cons.IH[of active n] by auto
qed

definition cap_of :: "rat \<Rightarrow> int" where
  "cap_of q = max 1 (rat_trunc q)"

lemma lease_cap_Fin: "maxConcurrentLeases inp = Fin q \<Longrightarrow> lease_cap inp = Fin (of_int (cap_of q))"
  by (simp add: lease_cap_def cap_of_def max_def)

lemma tick_lease_count:
  assumes d: "distinct_jobs (in_jobs inp)" and cap: "maxConcurrentLeases inp = Fin q"
  shows "int (leased_count (applyDurableSchedulerActions (in_jobs inp)
      (decideDurableSchedulerActions inp mint) now backoff)) \<le> max (int (leased_count (in_jobs inp))) (cap_of q)"
proof -
  let ?mid = "fold (act now backoff) (settle_actions inp) (in_jobs inp)"
  have mid: "leased_count ?mid = active_leases inp"
    using leased_count_run[OF settle_run[OF d, of now backoff] d] settle_frees[of inp] settle_no_lease[of inp]
    by (simp add: active_leases_def)
  have "leased_count (applyDurableSchedulerActions (in_jobs inp) (decideDurableSchedulerActions inp mint) now backoff)
      = active_leases inp + length (lease_actions inp mint)"
    using leased_count_run[OF lease_run[OF d, of now backoff mint]] mid d
    by (simp add: apply_is_fold_act lease_actions_def lease_loop_all_leases lease_loop_no_free)
  moreover have "int (active_leases inp + length (lease_actions inp mint)) \<le> max (int (active_leases inp)) (cap_of q)"
    using lease_loop_cap by (simp only: lease_actions_def lease_cap_Fin[OF cap])
  moreover have "active_leases inp \<le> leased_count (in_jobs inp)" by (simp add: active_leases_def)
  ultimately show ?thesis by linarith
qed

end
