(* ===== verification/DurableGraph.thy ===== *)
theory DurableGraph
  imports DurableInvariants
begin

text \<open>
  From a board to a job graph and back to the operator (\<^verbatim>\<open>buildDurableJobGraph\<close>,
  \<^verbatim>\<open>reconcileDurableJobsWithBoard\<close> and \<^verbatim>\<open>summarizeDurableRun\<close> of
  \<^verbatim>\<open>src/core/durable-scheduler.ts\<close>): the initial graph satisfies the invariant, reconciling
  a live run with the board keeps it and is idempotent.
\<close>

section \<open>Building the graph\<close>

record dep_edge =
  edgeFrom :: string
  edgeTo :: string

definition graph_dependsOn :: "string list \<Rightarrow> dep_edge list \<Rightarrow> string \<Rightarrow> string list" where
  "graph_dependsOn taskIds edges i = oset_of
     [edgeTo e. e \<leftarrow> edges,
        \<not> (edgeFrom e = edgeTo e \<or> edgeFrom e \<notin> set taskIds \<or> edgeTo e \<notin> set taskIds) \<and> edgeFrom e = i]"

definition graph_job :: "string list \<Rightarrow> dep_edge list \<Rightarrow> string list \<Rightarrow> string \<Rightarrow> job" where
  "graph_job taskIds edges succeeded i =
     (let deps = graph_dependsOn taskIds edges i in
      \<lparr>jobId = i,
       jstate = (if i \<in> set succeeded then Succeeded
                 else if list_all (\<lambda>d. d \<in> set succeeded) deps then Ready else Blocked),
       dependsOn = deps, lease = None, attempts = 0, nextEligibleAt = Fin 0, failedReason = None\<rparr>)"

definition buildDurableJobGraph :: "string list \<Rightarrow> dep_edge list \<Rightarrow> string list \<Rightarrow> job list" where
  "buildDurableJobGraph taskIds edges succeeded = map (graph_job taskIds edges succeeded) taskIds"

lemma graph_job_simps [simp]:
  "jobId (graph_job ts es su i) = i" "lease (graph_job ts es su i) = None"
  "attempts (graph_job ts es su i) = 0" "failedReason (graph_job ts es su i) = None"
  "jstate (graph_job ts es su i) \<noteq> Leased" "jstate (graph_job ts es su i) \<noteq> Failed"
  by (simp_all add: graph_job_def Let_def)

lemma build_ids [simp]: "map jobId (buildDurableJobGraph ts es su) = ts"
  by (simp add: buildDurableJobGraph_def comp_def)

lemma build_inv: "distinct ts \<Longrightarrow> 1 \<le> b \<Longrightarrow> jobs_inv b (buildDurableJobGraph ts es su)"
  by (auto simp: jobs_inv_def list_all_iff job_wf_def) (auto simp: buildDurableJobGraph_def)

lemma build_not_failed: "j \<in> set (buildDurableJobGraph ts es su) \<Longrightarrow> jstate j \<noteq> Failed \<and> jstate j \<noteq> Leased"
  by (auto simp: buildDurableJobGraph_def)

section \<open>Reconciling a live run with the board\<close>

definition should_reopen :: "(string \<Rightarrow> job option) \<Rightarrow> string set \<Rightarrow> job \<Rightarrow> bool" where
  "should_reopen boardById waiting j \<longleftrightarrow> jstate j = Failed \<and> jobId j \<in> waiting
     \<and> (case boardById (jobId j) of None \<Rightarrow> False | Some bj \<Rightarrow> jstate bj \<noteq> Succeeded)"

definition reopen_job :: "(string \<Rightarrow> job option) \<Rightarrow> job \<Rightarrow> job" where
  "reopen_job boardById j = (case boardById (jobId j) of None \<Rightarrow> j
     | Some bj \<Rightarrow> j\<lparr>jstate := jstate bj, dependsOn := dependsOn bj, lease := None,
                    attempts := 0, nextEligibleAt := Fin 0, failedReason := None\<rparr>)"

record reconcile_result =
  rec_jobs :: "job list"
  absorbedJobIds :: "string list"
  reopenedJobIds :: "string list"

definition reconcileDurableJobsWithBoard ::
  "job list \<Rightarrow> job list \<Rightarrow> string set \<Rightarrow> reconcile_result" where
  "reconcileDurableJobsWithBoard jobs board waiting =
     (let existing = job_of jobs; boardById = job_of board;
          absorbed = filter (\<lambda>bj. existing (jobId bj) = None) board
      in \<lparr>rec_jobs = map (\<lambda>j. if should_reopen boardById waiting j then reopen_job boardById j else j) jobs
            @ absorbed,
          absorbedJobIds = map jobId absorbed,
          reopenedJobIds = map jobId (filter (should_reopen boardById waiting) jobs)\<rparr>)"

lemma reopen_job_id [simp, id_simps]: "jobId (reopen_job f j) = jobId j"
  by (simp add: reopen_job_def split: option.splits)

lemma reconcile_ids:
  "map jobId (rec_jobs (reconcileDurableJobsWithBoard jobs board w))
    = map jobId jobs @ absorbedJobIds (reconcileDurableJobsWithBoard jobs board w)"
  by (simp add: reconcileDurableJobsWithBoard_def Let_def comp_def)

lemma absorbed_new: "distinct_jobs jobs
    \<Longrightarrow> set (absorbedJobIds (reconcileDurableJobsWithBoard jobs board w)) = jobId ` set board - jobId ` set jobs"
  by (auto simp: reconcileDurableJobsWithBoard_def Let_def job_of_None_iff)

lemma reconcile_distinct:
  assumes "distinct_jobs jobs" "distinct_jobs board"
  shows "distinct_jobs (rec_jobs (reconcileDurableJobsWithBoard jobs board w))"
proof -
  have "distinct (absorbedJobIds (reconcileDurableJobsWithBoard jobs board w))"
    using assms(2) by (simp add: reconcileDurableJobsWithBoard_def Let_def distinct_filter_ids)
  then show ?thesis using absorbed_new[OF assms(1), of board w] assms(1)
    unfolding reconcile_ids by auto
qed

lemma reconcile_mem:
  assumes "j \<in> set (rec_jobs (reconcileDurableJobsWithBoard jobs board w))"
  obtains j0 where "j0 \<in> set jobs" "\<not> should_reopen (job_of board) w j0" "j = j0"
  | j0 where "j0 \<in> set jobs" "should_reopen (job_of board) w j0" "j = reopen_job (job_of board) j0"
  | "j \<in> set board" "job_of jobs (jobId j) = None"
  using assms by (auto simp: reconcileDurableJobsWithBoard_def Let_def split: if_splits)

lemma should_reopenE:
  assumes "should_reopen (job_of board) w j0" "distinct_jobs board"
  obtains bj where "bj \<in> set board" "reopen_job (job_of board) j0 = j0\<lparr>jstate := jstate bj,
    dependsOn := dependsOn bj, lease := None, attempts := 0, nextEligibleAt := Fin 0, failedReason := None\<rparr>"
proof -
  obtain bj where bj: "job_of board (jobId j0) = Some bj"
    using assms(1) by (auto simp: should_reopen_def split: option.splits)
  then have "bj \<in> set board" using assms(2) by (simp add: job_of_Some_iff)
  then show thesis using bj that by (simp add: reopen_job_def)
qed

lemma reconcile_succeeded_kept:
  assumes d: "distinct_jobs jobs" "distinct_jobs board" and s: "job_in Succeeded (job_of jobs i)"
  shows "job_in Succeeded (job_of (rec_jobs (reconcileDurableJobsWithBoard jobs board w)) i)"
proof -
  obtain j where j: "j \<in> set jobs" "jobId j = i" "jstate j = Succeeded"
    using s d(1) by (auto simp: job_in_def job_of_Some_iff split: option.splits)
  then have "\<not> should_reopen (job_of board) w j" by (simp add: should_reopen_def)
  then have "j \<in> set (rec_jobs (reconcileDurableJobsWithBoard jobs board w))"
    using j(1) by (force simp: reconcileDurableJobsWithBoard_def Let_def)
  then show ?thesis using reconcile_distinct[OF d, of w] j(2,3) by (auto simp: job_in_def)
qed

text \<open>A fresh board graph is one that no run has touched: what \<open>buildDurableJobGraph\<close> returns.\<close>

definition fresh_graph :: "job list \<Rightarrow> bool" where
  "fresh_graph board \<longleftrightarrow> distinct_jobs board \<and>
     list_all (\<lambda>j. jstate j \<noteq> Failed \<and> jstate j \<noteq> Leased \<and> lease j = None \<and> attempts j = 0
       \<and> failedReason j = None) board"

lemma build_fresh: "distinct ts \<Longrightarrow> fresh_graph (buildDurableJobGraph ts es su)"
  by (auto simp: fresh_graph_def list_all_iff) (auto simp: buildDurableJobGraph_def)

lemma reconcile_good:
  assumes inv: "jobs_good P jobs" and fresh: "fresh_graph board"
    and born: "\<And>bj. bj \<in> set board \<Longrightarrow> P bj"
    and reopened: "\<And>j bj. bj \<in> set board \<Longrightarrow> P (j\<lparr>jstate := jstate bj, dependsOn := dependsOn bj, lease := None,
      attempts := 0, nextEligibleAt := Fin 0, failedReason := None\<rparr>)"
  shows "jobs_good P (rec_jobs (reconcileDurableJobsWithBoard jobs board w))"
proof -
  let ?new = "rec_jobs (reconcileDurableJobsWithBoard jobs board w)"
  have d: "distinct_jobs jobs" "distinct_jobs board"
    using inv fresh by (auto simp: fresh_graph_def jobs_good_def)
  have bd: "\<And>bj. bj \<in> set board \<Longrightarrow> jstate bj \<noteq> Leased"
    using fresh by (auto simp: fresh_graph_def list_all_iff)
  have deps: "dependenciesSucceeded j (job_of ?new)" if "dependenciesSucceeded j (job_of jobs)" for j
    using that reconcile_succeeded_kept[OF d] by (simp add: dependenciesSucceeded_def list_all_iff)
  have "P j \<and> (jstate j = Leased \<longrightarrow> dependenciesSucceeded j (job_of ?new))" if "j \<in> set ?new" for j
    using that
  proof (cases rule: reconcile_mem)
    case (1 j0)
    then show ?thesis using inv deps by (auto simp: jobs_good_def list_all_iff)
  next
    case (2 j0)
    then obtain bj where "bj \<in> set board" "j = j0\<lparr>jstate := jstate bj, dependsOn := dependsOn bj, lease := None,
        attempts := 0, nextEligibleAt := Fin 0, failedReason := None\<rparr>"
      using d(2) by (elim should_reopenE) auto
    then show ?thesis using bd reopened[of bj j0] by auto
  next
    case 3
    then show ?thesis using bd born by auto
  qed
  then show ?thesis using reconcile_distinct[OF d] by (auto simp: jobs_good_def list_all_iff)
qed

lemma reconcile_inv:
  "jobs_inv b jobs \<Longrightarrow> fresh_graph board \<Longrightarrow> 1 \<le> b
    \<Longrightarrow> jobs_inv b (rec_jobs (reconcileDurableJobsWithBoard jobs board w))"
  unfolding jobs_inv_good by (rule reconcile_good) (auto simp: fresh_graph_def list_all_iff job_wf_def)

lemma reconcile_safe:
  "jobs_safe jobs \<Longrightarrow> fresh_graph board \<Longrightarrow> jobs_safe (rec_jobs (reconcileDurableJobsWithBoard jobs board w))"
  unfolding jobs_safe_def by (rule reconcile_good) auto

lemma reconcile_idempotent:
  assumes d: "distinct_jobs jobs" and fresh: "fresh_graph board"
  shows "reconcileDurableJobsWithBoard (rec_jobs (reconcileDurableJobsWithBoard jobs board w)) board w
    = \<lparr>rec_jobs = rec_jobs (reconcileDurableJobsWithBoard jobs board w), absorbedJobIds = [], reopenedJobIds = []\<rparr>"
proof -
  let ?r = "reconcileDurableJobsWithBoard jobs board w"
  have db: "distinct_jobs board" and nf: "\<And>j. j \<in> set board \<Longrightarrow> jstate j \<noteq> Failed"
    using fresh by (auto simp: fresh_graph_def list_all_iff)
  have dr: "distinct_jobs (rec_jobs ?r)" using d db by (rule reconcile_distinct)
  have "job_of (rec_jobs ?r) (jobId bj) \<noteq> None" if "bj \<in> set board" for bj
  proof -
    have "jobId bj \<in> set (map jobId (rec_jobs ?r))"
      using that absorbed_new[OF d, of board w] unfolding reconcile_ids by auto
    then show ?thesis using dr by (auto simp: job_of_None_iff)
  qed
  then have absorbed: "filter (\<lambda>bj. job_of (rec_jobs ?r) (jobId bj) = None) board = []"
    by (auto simp: filter_empty_conv)
  have no: "\<not> should_reopen (job_of board) w j" if "j \<in> set (rec_jobs ?r)" for j
    using that
  proof (cases rule: reconcile_mem)
    case (2 j0)
    then obtain bj where "bj \<in> set board" "jstate j = jstate bj"
      using db by (elim should_reopenE) auto
    then show ?thesis using nf by (auto simp: should_reopen_def)
  qed (use nf in \<open>auto simp: should_reopen_def\<close>)
  then have "map (\<lambda>j. if should_reopen (job_of board) w j then reopen_job (job_of board) j else j) (rec_jobs ?r)
      = rec_jobs ?r" "filter (should_reopen (job_of board) w) (rec_jobs ?r) = []"
    by (auto intro!: map_idI simp: filter_empty_conv)
  then show ?thesis using absorbed
    by (simp add: reconcileDurableJobsWithBoard_def[of "rec_jobs ?r"])
qed

section \<open>The operator's summary\<close>

record lease_row =
  rowJobId :: string
  rowWorkerId :: string
  rowExpiresAt :: jsnum

record run_summary =
  sum_total :: nat
  byState :: "job_state \<Rightarrow> nat"
  sum_leased :: "lease_row list"
  sum_failed :: "string list"
  progress :: rat
  sum_complete :: bool

definition count_state :: "job list \<Rightarrow> job_state \<Rightarrow> nat" where
  "count_state jobs st = length (filter (\<lambda>j. jstate j = st) jobs)"

definition summary_row :: "job \<Rightarrow> lease_row option" where
  "summary_row j = (case lease j of None \<Rightarrow> None
     | Some l \<Rightarrow> if jstate j = Leased
         then Some \<lparr>rowJobId = jobId j, rowWorkerId = workerId l, rowExpiresAt = expiresAt l\<rparr> else None)"

definition summarizeDurableRun :: "job list \<Rightarrow> run_summary" where
  "summarizeDurableRun jobs =
     \<lparr>sum_total = length jobs, byState = count_state jobs,
      sum_leased = List.map_filter summary_row jobs,
      sum_failed = map jobId (filter (\<lambda>j. jstate j = Failed) jobs),
      progress = (if length jobs = 0 then 0
                  else of_nat (count_state jobs Succeeded) / of_nat (length jobs)),
      sum_complete = isDurableRunComplete jobs\<rparr>"

lemma count_state_total: "count_state jobs Blocked + count_state jobs Ready + count_state jobs Leased
    + count_state jobs Succeeded + count_state jobs Failed = length jobs"
proof (induction jobs)
  case Nil
  then show ?case by (simp add: count_state_def)
next
  case (Cons j jobs)
  then show ?case by (cases "jstate j") (simp_all add: count_state_def)
qed

end
