(* ===== verification/Text.thy ===== *)
theory Text
  imports Prelude JsNumber
begin

text \<open>
  Text the source writes and reads back: decimal integers (\<^verbatim>\<open>String(n)\<close>, \<^verbatim>\<open>Number(s)\<close>)
  and JSON string literals (\<^verbatim>\<open>JSON.stringify\<close> of a string). Both are shown to be
  injective, the decimal text with a parser that inverts it. A number that is not an integer is
  outside the bound of the model (every number the source prints and reads back is a clock in
  whole milliseconds or a counter) and is printed as a quotient.
\<close>

section \<open>Decimal integers\<close>

definition digit_char :: "nat \<Rightarrow> char" where
  "digit_char n = char_of (48 + n)"

definition is_digit :: "char \<Rightarrow> bool" where
  "is_digit c \<longleftrightarrow> 48 \<le> (of_char c :: nat) \<and> (of_char c :: nat) \<le> 57"

definition digit_val :: "char \<Rightarrow> nat" where
  "digit_val c = of_char c - 48"

fun nat_str :: "nat \<Rightarrow> string" where
  "nat_str n = (if n < 10 then [digit_char n] else nat_str (n div 10) @ [digit_char (n mod 10)])"

declare nat_str.simps [simp del]

definition digits_val :: "string \<Rightarrow> nat" where
  "digits_val s = foldl (\<lambda>v c. 10 * v + digit_val c) 0 s"

definition int_str :: "int \<Rightarrow> string" where
  "int_str i = (if i < 0 then ''-'' @ nat_str (nat (- i)) else nat_str (nat i))"

definition parse_int :: "string \<Rightarrow> int option" where
  "parse_int s = (case s of
     [] \<Rightarrow> None
   | c # cs \<Rightarrow>
       (if c = CHR ''-'' then (if cs \<noteq> [] \<and> list_all is_digit cs then Some (- int (digits_val cs)) else None)
        else if list_all is_digit s then Some (int (digits_val s)) else None))"

lemma of_char_digit: "n < 10 \<Longrightarrow> of_char (digit_char n) = 48 + n"
  by (simp add: digit_char_def)

lemma digit_ok: "n < 10 \<Longrightarrow> is_digit (digit_char n) \<and> digit_val (digit_char n) = n"
  by (simp add: is_digit_def digit_val_def of_char_digit)

lemma nat_str_digits: "nat_str n \<noteq> [] \<and> list_all is_digit (nat_str n)"
proof (induction n rule: nat_str.induct)
  case (1 n)
  then show ?case using digit_ok by (simp add: nat_str.simps[of n])
qed

lemma digits_val_nat_str [simp]: "digits_val (nat_str n) = n"
proof (induction n rule: nat_str.induct)
  case (1 n)
  then show ?case
    by (subst nat_str.simps) (auto simp: digits_val_def digit_ok)
qed

lemma nat_str_inj: "nat_str m = nat_str n \<Longrightarrow> m = n"
  by (metis digits_val_nat_str)

lemma minus_not_digit: "\<not> is_digit (CHR ''-'')"
  by (simp add: is_digit_def)

lemma parse_nat_str: "parse_int (nat_str n) = Some (int n)"
proof -
  obtain c cs where s: "nat_str n = c # cs" using nat_str_digits by (cases "nat_str n") auto
  then have "c \<noteq> CHR ''-''" using nat_str_digits[of n] minus_not_digit by auto
  then show ?thesis using nat_str_digits[of n] digits_val_nat_str[of n] s by (simp add: parse_int_def)
qed

lemma parse_int_str [simp]: "parse_int (int_str i) = Some i"
proof (cases "i < 0")
  case True
  then show ?thesis using nat_str_digits[of "nat (- i)"] by (simp add: int_str_def parse_int_def)
next
  case False
  then show ?thesis by (simp add: int_str_def parse_nat_str)
qed

text \<open>\<^verbatim>\<open>String(x)\<close> and \<^verbatim>\<open>Number(s)\<close>; blank text reads as 0, other text as \<^verbatim>\<open>NaN\<close>.\<close>

fun num_str :: "jsnum \<Rightarrow> string" where
  "num_str (Fin q) = (if of_int \<lfloor>q\<rfloor> = q then int_str \<lfloor>q\<rfloor>
     else (case quotient_of q of (a, b) \<Rightarrow> int_str a @ ''/'' @ int_str b))"
| "num_str PosInf = ''Infinity''"
| "num_str NegInf = ''-Infinity''"
| "num_str NaN = ''NaN''"

definition num_of :: "string \<Rightarrow> jsnum" where
  "num_of s = (let t = trim s in
     if t = [] then Fin 0
     else if t = ''Infinity'' then PosInf
     else if t = ''-Infinity'' then NegInf
     else (case parse_int t of Some i \<Rightarrow> Fin (of_int i) | None \<Rightarrow> NaN))"

lemma digit_not_ws: "is_digit c \<Longrightarrow> \<not> is_ws c"
  by (auto simp: is_digit_def is_ws_def Let_def)

lemma trim_id:
  assumes "s \<noteq> []" "\<not> is_ws (hd s)" "\<not> is_ws (last s)"
  shows "trim s = s"
proof -
  have "trim_start s = s" unfolding trim_start_def using assms(1,2) by (rule dropWhile_hd)
  moreover have "dropWhile is_ws (rev s) = rev s"
    using assms by (intro dropWhile_hd) (auto simp: hd_rev)
  ultimately show ?thesis by (simp add: trim_def trim_end_def)
qed

lemma int_str_ends: "int_str i \<noteq> [] \<and> (hd (int_str i) = CHR ''-'' \<or> is_digit (hd (int_str i)))
    \<and> is_digit (last (int_str i))"
proof -
  have "\<And>n. is_digit (hd (nat_str n)) \<and> is_digit (last (nat_str n))"
    using nat_str_digits by (metis hd_in_set last_in_set list_all_iff)
  then show ?thesis using nat_str_digits by (simp add: int_str_def)
qed

lemma num_of_int_str: "num_of (int_str i) = Fin (of_int i)"
proof -
  have "\<not> is_ws (CHR ''-'')" by (simp add: is_ws_def)
  then have "trim (int_str i) = int_str i"
    using int_str_ends[of i] digit_not_ws by (intro trim_id) auto
  moreover have "int_str i \<noteq> ''Infinity''" "int_str i \<noteq> ''-Infinity''"
    using int_str_ends[of i] by (auto simp: is_digit_def)
  ultimately show ?thesis using int_str_ends[of i] by (simp add: num_of_def)
qed

lemma num_of_num_str: "num_of (num_str (Fin (of_int i))) = Fin (of_int i)"
  by (simp add: num_of_int_str)

section \<open>JSON string literals\<close>

definition hex_char :: "nat \<Rightarrow> char" where
  "hex_char n = (if n < 10 then char_of (48 + n) else char_of (87 + n))"

definition json_escape :: "char \<Rightarrow> string" where
  "json_escape c = (let n = of_char c :: nat in
     if n = 34 then [CHR 0x5C, CHR 0x22]
     else if n = 92 then [CHR 0x5C, CHR 0x5C]
     else if n = 8 then [CHR 0x5C, CHR ''b'']
     else if n = 9 then [CHR 0x5C, CHR ''t'']
     else if n = 10 then [CHR 0x5C, CHR ''n'']
     else if n = 12 then [CHR 0x5C, CHR ''f'']
     else if n = 13 then [CHR 0x5C, CHR ''r'']
     else if n < 32 then [CHR 0x5C, CHR ''u'', CHR ''0'', CHR ''0'', hex_char (n div 16), hex_char (n mod 16)]
     else [c])"

definition json_string :: "string \<Rightarrow> string" where
  "json_string s = [CHR 0x22] @ concat (map json_escape s) @ [CHR 0x22]"

definition hex_val :: "char \<Rightarrow> nat" where
  "hex_val c = (let n = of_char c :: nat in if n < 87 then n - 48 else n - 87)"

definition json_unescape1 :: "string \<Rightarrow> (nat \<times> string) option" where
  "json_unescape1 s = (case s of
     [] \<Rightarrow> None
   | c # cs \<Rightarrow>
      (if c \<noteq> CHR 0x5C then Some (of_char c, cs)
       else (case cs of
          [] \<Rightarrow> None
        | d # ds \<Rightarrow>
           (if d = CHR ''u'' then
              (case ds of z0 # z1 # h # l # rest \<Rightarrow> Some (16 * hex_val h + hex_val l, rest) | _ \<Rightarrow> None)
            else Some (if d = CHR ''b'' then 8 else if d = CHR ''t'' then 9 else if d = CHR ''n'' then 10
                       else if d = CHR ''f'' then 12 else if d = CHR ''r'' then 13 else of_char d, ds)))))"

lemma hex_val_char: "n < 16 \<Longrightarrow> hex_val (hex_char n) = n"
  by (simp add: hex_val_def hex_char_def)

lemma json_unescape_escape: "json_unescape1 (json_escape c @ u) = Some (of_char c, u)"
proof -
  let ?n = "of_char c :: nat"
  have plain: "c \<noteq> CHR 0x5C" if "?n \<noteq> 92" using that by auto
  have hex: "16 * hex_val (hex_char (?n div 16)) + hex_val (hex_char (?n mod 16)) = ?n" if "?n < 32"
    using that by (simp add: hex_val_char)
  consider "?n = 34" | "?n = 92" | "?n = 8" | "?n = 9" | "?n = 10" | "?n = 12" | "?n = 13"
    | "?n \<notin> {34, 92, 8, 9, 10, 12, 13}" "?n < 32" | "?n \<notin> {34, 92}" "\<not> ?n < 32" by auto
  then show ?thesis
  proof cases
    case 8
    then show ?thesis using hex by (simp add: json_escape_def json_unescape1_def Let_def)
  next
    case 9
    then have "json_escape c = [c]" by (simp add: json_escape_def Let_def)
    then show ?thesis using 9 plain by (simp add: json_unescape1_def)
  qed (simp_all add: json_escape_def json_unescape1_def)
qed

lemma json_escape_hd: "\<exists>c' cs. json_escape c = c' # cs \<and> c' \<noteq> CHR 0x22"
proof (cases "(of_char c :: nat) = 34")
  case False
  then have "c \<noteq> CHR 0x22" by auto
  then show ?thesis by (simp add: json_escape_def Let_def)
qed (simp add: json_escape_def)

lemma json_escape_prefix_free:
  assumes "json_escape c @ u = json_escape d @ v"
  shows "c = d \<and> u = v"
proof -
  have "Some (of_char c :: nat, u) = Some (of_char d, v)"
    by (metis assms json_unescape_escape)
  then show ?thesis by simp
qed

lemma json_body_decodable:
  "concat (map json_escape s) @ CHR 0x22 # u = concat (map json_escape t) @ CHR 0x22 # v \<Longrightarrow> s = t \<and> u = v"
proof (induction s arbitrary: t)
  case Nil
  then show ?case
  proof (cases t)
    case (Cons d ds)
    then show ?thesis using Nil json_escape_hd[of d] by auto
  qed auto
next
  case (Cons c cs)
  show ?case
  proof (cases t)
    case Nil
    then show ?thesis using Cons.prems json_escape_hd[of c] by auto
  next
    case (Cons d ds)
    then have "json_escape c @ (concat (map json_escape cs) @ CHR 0x22 # u)
        = json_escape d @ (concat (map json_escape ds) @ CHR 0x22 # v)"
      using Cons.prems by simp
    then show ?thesis using Cons.IH Cons json_escape_prefix_free by blast
  qed
qed

text \<open>A JSON string literal followed by anything reads back in one way only.\<close>

lemma json_string_decodable: "json_string s @ u = json_string t @ v \<Longrightarrow> s = t \<and> u = v"
  using json_body_decodable[of s u t v] by (simp add: json_string_def)

end
