(* ===== verification/AttemptKey.thy ===== *)
theory AttemptKey
  imports DurableScheduler Text
begin

text \<open>
  At-most-once keys of leases (\<^verbatim>\<open>src/core/attempt-idempotency-key.ts\<close> and
  \<^verbatim>\<open>src/core/durable-lease-idempotency.ts\<close>). The hash \<^verbatim>\<open>createHash("sha256")\<close> is Node's:
  it is the parameter \<open>sha\<close>, from the canonical text to the hex digest.
\<close>

record attempt_identity =
  workflowId :: string
  taskId :: string
  workspacePathHash :: string
  attempt :: jsnum
  modelId :: "string option"
  endpoint :: "string option"
  variant :: "string option"

definition normalizeField :: "string option \<Rightarrow> string" where
  "normalizeField v = (case v of None \<Rightarrow> [] | Some s \<Rightarrow> trim s)"

definition normalizeAttempt :: "jsnum \<Rightarrow> nat" where
  "normalizeAttempt a = (case a of Fin q \<Rightarrow> nat (max 0 (rat_trunc q)) | _ \<Rightarrow> 0)"

text \<open>The keys of the record, sorted, with their values as JSON strings.\<close>

definition json_field :: "string \<Rightarrow> string \<Rightarrow> string" where
  "json_field k v = json_string k @ '':'' @ json_string v"

fun intercalate :: "'a list \<Rightarrow> 'a list list \<Rightarrow> 'a list" where
  "intercalate sep [] = []"
| "intercalate sep [x] = x"
| "intercalate sep (x # y # zs) = x @ sep @ intercalate sep (y # zs)"

definition stableSerializeIdentity :: "(string \<times> string) list \<Rightarrow> string" where
  "stableSerializeIdentity kvs =
     ''{'' @ intercalate '','' (map (\<lambda>(k, v). json_field k v) (sort_key fst kvs)) @ ''}''"

definition canonical_identity :: "attempt_identity \<Rightarrow> string" where
  "canonical_identity i = stableSerializeIdentity
     [(''workflowId'', normalizeField (Some (workflowId i))),
      (''taskId'', normalizeField (Some (taskId i))),
      (''workspacePathHash'', normalizeField (Some (workspacePathHash i))),
      (''attempt'', nat_str (normalizeAttempt (attempt i))),
      (''modelId'', normalizeField (modelId i)),
      (''endpoint'', normalizeField (endpoint i)),
      (''variant'', normalizeField (variant i))]"

definition deriveAttemptIdempotencyKey :: "(string \<Rightarrow> string) \<Rightarrow> attempt_identity \<Rightarrow> string" where
  "deriveAttemptIdempotencyKey sha i =
     normalizeField (Some (workflowId i)) @ '':'' @ normalizeField (Some (taskId i)) @ '':''
     @ take 32 (sha (canonical_identity i))"

text \<open>What two attempts must share to count as one.\<close>

definition same_attempt :: "attempt_identity \<Rightarrow> attempt_identity \<Rightarrow> bool" where
  "same_attempt a b \<longleftrightarrow>
     normalizeField (Some (workflowId a)) = normalizeField (Some (workflowId b)) \<and>
     normalizeField (Some (taskId a)) = normalizeField (Some (taskId b)) \<and>
     normalizeField (Some (workspacePathHash a)) = normalizeField (Some (workspacePathHash b)) \<and>
     normalizeAttempt (attempt a) = normalizeAttempt (attempt b) \<and>
     normalizeField (modelId a) = normalizeField (modelId b) \<and>
     normalizeField (endpoint a) = normalizeField (endpoint b) \<and>
     normalizeField (variant a) = normalizeField (variant b)"

lemma sorted_identity_fields:
  "sort_key fst [(''workflowId'', a), (''taskId'', b), (''workspacePathHash'', c), (''attempt'', d),
      (''modelId'', e), (''endpoint'', f), (''variant'', g)]
   = [(''attempt'', d), (''endpoint'', f), (''modelId'', e), (''taskId'', b), (''variant'', g),
      (''workflowId'', a), (''workspacePathHash'', c :: string)]"
  by (simp add: less_char_def)

lemma json_field_decodable: "json_field k v @ x = json_field k w @ y \<Longrightarrow> v = w \<and> x = y"
  unfolding json_field_def by (auto dest: json_string_decodable)

lemma json_field_inj: "json_field k v = json_field k w \<longleftrightarrow> v = w"
  using json_field_decodable[of k v "[]" w "[]"] by auto

lemma canonical_identity_eq:
  "canonical_identity a = canonical_identity b \<longleftrightarrow> same_attempt a b"
proof
  assume "canonical_identity a = canonical_identity b"
  then show "same_attempt a b"
    unfolding canonical_identity_def stableSerializeIdentity_def sorted_identity_fields same_attempt_def
    by (auto simp: json_field_inj dest!: json_field_decodable nat_str_inj)
next
  assume "same_attempt a b"
  then show "canonical_identity a = canonical_identity b"
    by (simp add: canonical_identity_def same_attempt_def)
qed

section \<open>Dropping duplicates on replay\<close>

text \<open>Events are seen through their id and their key, as the source's view type does.\<close>

fun dedupe_loop :: "('e \<Rightarrow> string option) \<Rightarrow> string set \<Rightarrow> 'e list \<Rightarrow> 'e list \<times> 'e list" where
  "dedupe_loop key seen [] = ([], [])"
| "dedupe_loop key seen (e # es) =
     (case key e of
        None \<Rightarrow> (case dedupe_loop key seen es of (kept, dropped) \<Rightarrow> (e # kept, dropped))
      | Some k \<Rightarrow>
          (if k \<in> seen then (case dedupe_loop key seen es of (kept, dropped) \<Rightarrow> (kept, e # dropped))
           else (case dedupe_loop key (insert k seen) es of (kept, dropped) \<Rightarrow> (e # kept, dropped))))"

definition dedupeSchedulerEventsByIdempotencyKey ::
  "('e \<Rightarrow> string option) \<Rightarrow> 'e list \<Rightarrow> 'e list \<times> 'e list" where
  "dedupeSchedulerEventsByIdempotencyKey key es = dedupe_loop key {} es"

lemma dedupe_loop_kept:
  "distinct (List.map_filter key (fst (dedupe_loop key seen es)))
   \<and> set (List.map_filter key (fst (dedupe_loop key seen es))) \<inter> seen = {}
   \<and> set (List.map_filter key (fst (dedupe_loop key seen es))) \<union> seen
     = set (List.map_filter key es) \<union> seen"
proof (induction key seen es rule: dedupe_loop.induct)
  case (1 key seen)
  then show ?case by (simp add: map_filter_simps)
next
  case (2 key seen e es)
  then show ?case
    by (auto simp: map_filter_simps split: option.splits prod.splits)
qed

lemma dedupe_loop_parts:
  "mset (fst (dedupe_loop key seen es)) + mset (snd (dedupe_loop key seen es)) = mset es"
  by (induction key seen es rule: dedupe_loop.induct) (auto split: option.splits prod.splits)

lemma dedupe_loop_dropped:
  "e \<in> set (snd (dedupe_loop key seen es)) \<Longrightarrow>
    \<exists>k. key e = Some k \<and> k \<in> seen \<union> set (List.map_filter key (fst (dedupe_loop key seen es)))"
  by (induction key seen es rule: dedupe_loop.induct)
    (auto simp: map_filter_simps split: option.splits prod.splits if_splits)

section \<open>Keys of lease actions\<close>

record lease_identity =
  li_workflowId :: string
  li_workspacePathHash :: string
  modelIdForJob :: "string \<Rightarrow> string option"
  endpointForJob :: "string \<Rightarrow> string option"
  variantForJob :: "string \<Rightarrow> string option"

text \<open>\<^verbatim>\<open>attemptsByJob.get(action.jobId) ?? 0\<close>, over the pre-lease snapshot.\<close>

definition attempts_by_job :: "job list \<Rightarrow> string \<Rightarrow> nat" where
  "attempts_by_job jobs i = (case map_of (omap_of (map (\<lambda>j. (jobId j, attempts j)) jobs)) i of
      None \<Rightarrow> 0 | Some n \<Rightarrow> n)"

definition lease_identity_of :: "lease_identity \<Rightarrow> job list \<Rightarrow> string \<Rightarrow> attempt_identity" where
  "lease_identity_of ident jobs i =
     \<lparr>workflowId = li_workflowId ident, taskId = i, workspacePathHash = li_workspacePathHash ident,
      attempt = js_of_nat (attempts_by_job jobs i), modelId = modelIdForJob ident i,
      endpoint = endpointForJob ident i, variant = variantForJob ident i\<rparr>"

definition keyDurableLeaseActions ::
  "(string \<Rightarrow> string) \<Rightarrow> sched_action list \<Rightarrow> job list \<Rightarrow> lease_identity \<Rightarrow> (sched_action \<times> string) list" where
  "keyDurableLeaseActions sha actions jobs ident =
     [(a, deriveAttemptIdempotencyKey sha (lease_identity_of ident jobs (action_job a))). a \<leftarrow> actions, is_lease a]"

lemma normalizeAttempt_nat [simp]: "normalizeAttempt (js_of_nat n) = n"
  by (simp add: normalizeAttempt_def)

lemma map_of_attempts:
  "map_of (map (\<lambda>j. (jobId j, attempts j)) js) i = map_option attempts (map_of (map (\<lambda>j. (jobId j, j)) js) i)"
  by (induction js) auto

lemma attempts_by_job_distinct:
  assumes "distinct_jobs jobs"
  shows "attempts_by_job jobs i = (case job_of jobs i of None \<Rightarrow> 0 | Some j \<Rightarrow> attempts j)"
proof -
  have "omap_of (map (\<lambda>j. (jobId j, attempts j)) jobs) = map (\<lambda>j. (jobId j, attempts j)) jobs"
    using assms by (intro omap_of_distinct) (simp add: comp_def)
  then have "attempts_by_job jobs i = (case map_option attempts (job_of jobs i) of None \<Rightarrow> 0 | Some n \<Rightarrow> n)"
    unfolding attempts_by_job_def job_of_def jobs_map_distinct[OF assms] by (simp only: map_of_attempts)
  then show ?thesis by (cases "job_of jobs i") simp_all
qed

end
