(* ===== verification/ReadyOrder.thy ===== *)
theory ReadyOrder
  imports DurableJobs "HOL-Library.Product_Lexorder"
begin

text \<open>
  The ready-job priority (\<^verbatim>\<open>src/core/durable-scheduler-ready-order.ts\<close>): each ready job's
  score, and the order the scheduler considers them in. \<^verbatim>\<open>localeCompare\<close> depends on the
  host's locale; it is the parameter \<open>lc\<close>, and what the order needs of it is
  \<open>collation lc\<close>. The human-readable one-liners are not modelled.
\<close>

record ready_meta =
  priority :: "jsnum option"
  meta_readySince :: "jsnum option"

record ready_weights =
  w_fanOut :: "jsnum option"
  w_fanOutCap :: "jsnum option"
  w_explicitPriority :: "jsnum option"
  w_attempt :: "jsnum option"
  w_attemptCap :: "jsnum option"
  w_agedBoost :: "jsnum option"
  w_ageBoostAfterMs :: "jsnum option"

text \<open>The weights once defaulted: finite numbers.\<close>

record full_weights =
  fanOutW :: rat
  fanOutCap :: int
  explicitPriorityW :: rat
  attemptW :: rat
  attemptCap :: int
  agedBoost :: rat
  ageBoostAfterMs :: rat

record ordered_job =
  o_jobId :: string
  score :: rat
  remainingDeps :: nat
  o_readySince :: "rat option"
  s_fanOut :: int
  s_prioritized :: bool
  s_attempts :: int
  s_aged :: bool

definition finiteOr :: "jsnum option \<Rightarrow> rat \<Rightarrow> rat" where
  "finiteOr v fallback = (case v of Some (Fin q) \<Rightarrow> q | _ \<Rightarrow> fallback)"

definition optionalBound :: "jsnum option \<Rightarrow> nat option" where
  "optionalBound v = (case v of Some (Fin q) \<Rightarrow> if q < 0 then None else Some (nat \<lfloor>q\<rfloor>) | _ \<Rightarrow> None)"

definition resolve_weights :: "ready_weights \<Rightarrow> full_weights" where
  "resolve_weights w =
     \<lparr>fanOutW = finiteOr (w_fanOut w) 40,
      fanOutCap = max 0 \<lfloor>finiteOr (w_fanOutCap w) 8\<rfloor>,
      explicitPriorityW = finiteOr (w_explicitPriority w) 25,
      attemptW = finiteOr (w_attempt w) 15,
      attemptCap = max 0 \<lfloor>finiteOr (w_attemptCap w) 4\<rfloor>,
      agedBoost = finiteOr (w_agedBoost w) 30,
      ageBoostAfterMs = max 0 (finiteOr (w_ageBoostAfterMs w) 60000)\<rparr>"

definition no_weights :: ready_weights where
  "no_weights = \<lparr>w_fanOut = None, w_fanOutCap = None, w_explicitPriority = None, w_attempt = None,
     w_attemptCap = None, w_agedBoost = None, w_ageBoostAfterMs = None\<rparr>"

text \<open>How many not-yet-succeeded jobs list this id, counting repeated listings.\<close>

definition dependent_count :: "job list \<Rightarrow> string \<Rightarrow> nat" where
  "dependent_count jobs i = sum_list
     (map (\<lambda>j. if jstate j = Succeeded then 0 else length (filter (\<lambda>d. d = i) (dependsOn j))) jobs)"

definition succeeded_ids :: "job list \<Rightarrow> string set" where
  "succeeded_ids jobs = jobId ` {j \<in> set jobs. jstate j = Succeeded}"

definition remaining_deps :: "job list \<Rightarrow> job \<Rightarrow> nat" where
  "remaining_deps jobs j = length (filter (\<lambda>d. d \<notin> succeeded_ids jobs) (dependsOn j))"

definition score_job ::
  "job list \<Rightarrow> jsnum \<Rightarrow> (string \<Rightarrow> ready_meta option) \<Rightarrow> full_weights \<Rightarrow> job \<Rightarrow> ordered_job" where
  "score_job jobs now meta w j =
     (let m = meta (jobId j);
          fanOut = min (int (dependent_count jobs (jobId j))) (fanOutCap w);
          prio = finiteOr (Option.bind m priority) 0;
          att = min (int (attempts j)) (attemptCap w);
          since = (case Option.bind m meta_readySince of Some (Fin q) \<Rightarrow> Some q | _ \<Rightarrow> None);
          aged = (case (since, now) of (Some s, Fin n) \<Rightarrow> ageBoostAfterMs w \<le> n - s | _ \<Rightarrow> False)
      in \<lparr>o_jobId = jobId j,
          score = of_int fanOut * fanOutW w + prio * explicitPriorityW w + of_int att * attemptW w
                  + (if aged then agedBoost w else 0),
          remainingDeps = remaining_deps jobs j,
          o_readySince = since, s_fanOut = fanOut, s_prioritized = (0 < prio), s_attempts = att, s_aged = aged\<rparr>)"

text \<open>\<^verbatim>\<open>compareByReadyPriority(left, right) <= 0\<close>; an unknown \<^verbatim>\<open>readySince\<close> is \<^verbatim>\<open>+Infinity\<close>.\<close>

definition ready_le :: "(string \<Rightarrow> string \<Rightarrow> int) \<Rightarrow> ordered_job \<Rightarrow> ordered_job \<Rightarrow> bool" where
  "ready_le lc a b =
     (if score a \<noteq> score b then score b < score a
      else if remainingDeps a \<noteq> remainingDeps b then remainingDeps a < remainingDeps b
      else if o_readySince a \<noteq> o_readySince b then
        (case (o_readySince a, o_readySince b) of
           (Some x, Some y) \<Rightarrow> x < y
         | (Some x, None) \<Rightarrow> True
         | (None, _) \<Rightarrow> False)
      else lc (o_jobId a) (o_jobId b) \<le> 0)"

definition ready_by_id :: "job list \<Rightarrow> job list" where
  "ready_by_id jobs = map snd (omap_of (map (\<lambda>j. (jobId j, j)) (filter (\<lambda>j. jstate j = Ready) jobs)))"

record ready_result =
  ordered :: "ordered_job list"
  selected :: "ordered_job list"

definition orderReadyJobs ::
  "(string \<Rightarrow> string \<Rightarrow> int) \<Rightarrow> job list \<Rightarrow> jsnum \<Rightarrow> (string \<Rightarrow> ready_meta option) \<Rightarrow> ready_weights
    \<Rightarrow> jsnum option \<Rightarrow> ready_result" where
  "orderReadyJobs lc jobs now meta weights limit =
     (let ord = js_sort (ready_le lc) (map (score_job jobs now meta (resolve_weights weights)) (ready_by_id jobs))
      in \<lparr>ordered = ord,
          selected = (case optionalBound limit of None \<Rightarrow> ord | Some n \<Rightarrow> take n ord)\<rparr>)"

section \<open>The order is total and independent of the input order\<close>

text \<open>The sign of \<^verbatim>\<open>localeCompare\<close> is a total order on the ids.\<close>

definition collation :: "(string \<Rightarrow> string \<Rightarrow> int) \<Rightarrow> bool" where
  "collation lc \<longleftrightarrow> (\<forall>a b. lc a b \<le> 0 \<or> lc b a \<le> 0) \<and> (\<forall>a b. lc a b \<le> 0 \<and> lc b a \<le> 0 \<longrightarrow> a = b)
     \<and> (\<forall>a b c. lc a b \<le> 0 \<and> lc b c \<le> 0 \<longrightarrow> lc a c \<le> 0)"

definition code_unit_compare :: "string \<Rightarrow> string \<Rightarrow> int" where
  "code_unit_compare a b = (if a < b then -1 else if a = b then 0 else 1)"

lemma collation_code_unit: "collation code_unit_compare"
  by (auto simp: collation_def code_unit_compare_def)

text \<open>The comparator is lexicographic: the numeric keys first, then the collation of the ids.\<close>

definition ready_key :: "ordered_job \<Rightarrow> rat \<times> nat \<times> bool \<times> rat" where
  "ready_key a = (- score a, remainingDeps a,
     case o_readySince a of None \<Rightarrow> (True, 0) | Some x \<Rightarrow> (False, x))"

lemma ready_le_iff: "ready_le lc a b \<longleftrightarrow>
    ready_key a < ready_key b \<or> (ready_key a = ready_key b \<and> lc (o_jobId a) (o_jobId b) \<le> 0)"
  unfolding ready_le_def ready_key_def
  by (cases "o_readySince a"; cases "o_readySince b") auto

lemma ready_le_total: "collation lc \<Longrightarrow> ready_le lc a b \<or> ready_le lc b a"
  unfolding ready_le_iff collation_def by (metis linorder_less_linear)

lemma ready_le_trans: "collation lc \<Longrightarrow> ready_le lc a b \<Longrightarrow> ready_le lc b c \<Longrightarrow> ready_le lc a c"
  unfolding ready_le_iff collation_def by (metis order.strict_trans)

lemma ready_le_antisym: "collation lc \<Longrightarrow> ready_le lc a b \<Longrightarrow> ready_le lc b a \<Longrightarrow> o_jobId a = o_jobId b"
  unfolding ready_le_iff collation_def by (metis order.strict_trans order.irrefl)

lemma ready_by_id_distinct: "distinct_jobs jobs \<Longrightarrow> ready_by_id jobs = filter (\<lambda>j. jstate j = Ready) jobs"
  by (simp add: ready_by_id_def comp_def distinct_map_filter)

lemma score_job_id [simp, id_simps]: "o_jobId (score_job jobs now meta w j) = jobId j"
  by (simp add: score_job_def Let_def)

lemma ordered_mset: "mset (ordered (orderReadyJobs lc jobs now meta w limit))
    = mset (map (score_job jobs now meta (resolve_weights w)) (ready_by_id jobs))"
  by (simp add: orderReadyJobs_def Let_def del: mset_map)

lemma ordered_sorted: "collation lc \<Longrightarrow> sorted_wrt (ready_le lc) (ordered (orderReadyJobs lc jobs now meta w limit))"
  unfolding orderReadyJobs_def Let_def
  using ready_le_total ready_le_trans by (auto intro!: sorted_wrt_js_sort)

lemma score_job_perm:
  assumes "mset jobs = mset jobs'"
  shows "score_job jobs now meta w j = score_job jobs' now meta w j"
proof -
  have "set jobs = set jobs'" using assms by (metis set_mset_mset)
  then have "remaining_deps jobs j = remaining_deps jobs' j"
    by (simp add: succeeded_ids_def remaining_deps_def)
  moreover have "dependent_count jobs i = dependent_count jobs' i" for i
    unfolding dependent_count_def sum_mset_sum_list[symmetric] mset_map assms by (rule refl)
  ultimately show ?thesis by (simp only: score_job_def)
qed

text \<open>Two sorted lists with the same elements and no two equivalent ones are equal.\<close>

lemma sorted_wrt_unique:
  assumes anti: "\<And>x y. x \<in> set xs \<Longrightarrow> y \<in> set xs \<Longrightarrow> le x y \<Longrightarrow> le y x \<Longrightarrow> x = y"
    and "sorted_wrt le xs" "sorted_wrt le ys" "mset xs = mset ys"
  shows "xs = ys"
  using assms
proof (induction xs arbitrary: ys)
  case Nil
  then show ?case by simp
next
  case (Cons x xs)
  have s: "set (x # xs) = set ys" using Cons.prems(4) by (metis set_mset_mset)
  then obtain y ys' where ys: "ys = y # ys'" by (cases ys) auto
  have "x = y"
  proof (rule ccontr)
    assume "x \<noteq> y"
    then have "x \<in> set ys'" "y \<in> set xs" using s ys by auto
    then have "le y x" "le x y" using Cons.prems(2,3) ys by auto
    then show False using Cons.prems(1)[of x y] \<open>y \<in> set xs\<close> \<open>x \<noteq> y\<close> by simp
  qed
  moreover have "xs = ys'"
    using Cons.prems ys \<open>x = y\<close> by (intro Cons.IH) auto
  ultimately show ?case using ys by simp
qed

end
