(* ===== verification/RuntimeText.thy ===== *)
theory RuntimeText
  imports Text
begin

text \<open>
  Small text classifiers of the runtime: the environment flags (\<^verbatim>\<open>src/core/env-flag.ts\<close>), the
  transient-error classification and the bounded retry loop (\<^verbatim>\<open>src/core/transient-error.ts\<close>).
  A string is a list of code units below 256, so \<^verbatim>\<open>toLowerCase\<close> is the Latin-1 folding.
\<close>

section \<open>Strings\<close>

text \<open>\<^verbatim>\<open>toLowerCase\<close> on the code units below 256.\<close>

definition lower_char :: "char \<Rightarrow> char" where
  "lower_char c = (let n = of_char c :: nat in
     if (65 \<le> n \<and> n \<le> 90) \<or> (192 \<le> n \<and> n \<le> 222 \<and> n \<noteq> 215) then char_of (n + 32) else c)"

definition to_lower :: "string \<Rightarrow> string" where
  "to_lower = map lower_char"

text \<open>\<^verbatim>\<open>s.includes(p)\<close>\<close>

fun str_includes :: "string \<Rightarrow> string \<Rightarrow> bool" where
  "str_includes p [] = (p = [])"
| "str_includes p (c # s) = (take (length p) (c # s) = p \<or> str_includes p s)"

lemma includes_iff: "str_includes p s \<longleftrightarrow> (\<exists>a b. s = a @ p @ b)"
proof (induction s)
  case Nil
  then show ?case by auto
next
  case (Cons c s)
  show ?case
  proof
    assume "str_includes p (c # s)"
    then consider "take (length p) (c # s) = p" | "str_includes p s" by auto
    then show "\<exists>a b. c # s = a @ p @ b"
    proof cases
      case 1
      then have "c # s = [] @ p @ drop (length p) (c # s)" by (metis append_Nil append_take_drop_id)
      then show ?thesis by blast
    next
      case 2
      then obtain a b where "s = a @ p @ b" using Cons.IH by auto
      then have "c # s = (c # a) @ p @ b" by simp
      then show ?thesis by blast
    qed
  next
    assume "\<exists>a b. c # s = a @ p @ b"
    then obtain a b where ab: "c # s = a @ p @ b" by auto
    show "str_includes p (c # s)"
    proof (cases a)
      case Nil
      then have "take (length p) (c # s) = p" using ab by (metis append_Nil append_eq_conv_conj)
      then show ?thesis by simp
    next
      case (Cons x a')
      then have "str_includes p s" using ab \<open>str_includes p s = _\<close> by auto
      then show ?thesis by simp
    qed
  qed
qed

section \<open>Environment flags\<close>

definition isTruthyEnv :: "string option \<Rightarrow> bool" where
  "isTruthyEnv v = (case v of None \<Rightarrow> False
     | Some s \<Rightarrow> (if s = [] then False
                 else to_lower (trim s) \<in> {''1'', ''true'', ''yes'', ''on''}))"

definition isEnabledByDefaultEnv :: "string option \<Rightarrow> bool" where
  "isEnabledByDefaultEnv v = (case v of None \<Rightarrow> True
     | Some s \<Rightarrow> (let n = to_lower (trim s) in
         if n = [] then True else \<not> (n \<in> {''0'', ''false'', ''no'', ''off''})))"

definition resolveDefaultOnFlag :: "bool \<Rightarrow> string option \<Rightarrow> bool" where
  "resolveDefaultOnFlag configEnabled v = (case v of None \<Rightarrow> configEnabled
     | Some s \<Rightarrow> (if trim s = [] then configEnabled else isEnabledByDefaultEnv v))"

text \<open>No value of a variable is read as on by the one parser and as off by the other.\<close>

lemma truthy_enabled: "isTruthyEnv v \<Longrightarrow> isEnabledByDefaultEnv v"
  by (auto simp: isTruthyEnv_def isEnabledByDefaultEnv_def split: option.splits if_splits)

section \<open>Transient errors\<close>

text \<open>
  An error value as the classifier reads it: a string, an \<^verbatim>\<open>Error\<close> with its name, message and the
  text of its cause, an object with a message, an error of the typed model abort, or anything else.
\<close>

datatype js_error =
    ErrString string
  | ErrObject string string string
  | ErrModelAbort string string string
  | ErrMessage string
  | ErrOther

definition transient_patterns :: "string list" where
  "transient_patterns =
    [''body timeout'', ''headers timeout'', ''headerstimeouterror'', ''bodytimeouterror'',
     ''und_err_body_timeout'', ''und_err_headers_timeout'', ''und_err_connect_timeout'',
     ''etimedout'', ''request timed out'', ''timeout error'',
     ''econnreset'', ''econnrefused'', ''socket hang up'', ''fetch failed'', ''premature close'',
     ''connection reset'', ''connection refused'', ''network error'', ''und_err_socket'',
     ''502'', ''503'', ''bad gateway'', ''service unavailable'', ''temporarily unavailable'',
     ''overloaded'']"

fun errorMessage :: "js_error \<Rightarrow> string" where
  "errorMessage (ErrString s) = to_lower s"
| "errorMessage (ErrObject name msg cause) = to_lower (msg @ '' '' @ cause)"
| "errorMessage (ErrModelAbort name msg cause) = to_lower (msg @ '' '' @ cause)"
| "errorMessage (ErrMessage m) = to_lower m"
| "errorMessage ErrOther = []"

definition isTransientNetworkError :: "js_error \<Rightarrow> bool" where
  "isTransientNetworkError e = (let m = errorMessage e in
     if m = [] then False else list_ex (\<lambda>p. str_includes p m) transient_patterns)"

lemma transient_iff: "isTransientNetworkError e \<longleftrightarrow>
    (\<exists>p \<in> set transient_patterns. \<exists>a b. errorMessage e = a @ p @ b)"
  by (auto simp: isTransientNetworkError_def Let_def list_ex_iff includes_iff transient_patterns_def)

definition isAbortLikeError :: "js_error \<Rightarrow> bool" where
  "isAbortLikeError e =
     (let name = (case e of ErrObject n m c \<Rightarrow> to_lower n | ErrModelAbort n m c \<Rightarrow> to_lower n | _ \<Rightarrow> []) in
      if name = ''aborterror'' \<or> name = ''agentruntimeaborterror'' then True
      else list_ex (\<lambda>p. str_includes p (errorMessage e))
        [''aborterror'', ''the operation was aborted'', ''request aborted'', ''runtime aborted'',
         ''agent runtime aborted''])"

text \<open>The caller's signal: absent, or present and aborted or not.\<close>

definition isRetryableModelCallError :: "js_error \<Rightarrow> bool option \<Rightarrow> bool \<Rightarrow> bool" where
  "isRetryableModelCallError e callerSignal visibleOutput =
     (if callerSignal = Some True \<or> visibleOutput then False
      else if (case e of ErrModelAbort _ _ _ \<Rightarrow> True | _ \<Rightarrow> False) \<or> isTransientNetworkError e then True
      else callerSignal \<noteq> None \<and> isAbortLikeError e)"

lemma retryable_guards:
  "isRetryableModelCallError e sig vis \<Longrightarrow> sig \<noteq> Some True \<and> \<not> vis"
  by (auto simp: isRetryableModelCallError_def split: if_splits)

section \<open>The bounded retry\<close>

text \<open>
  The effect \<^verbatim>\<open>fn\<close> is the list of its outcomes, \<open>fn k\<close> the one of its \<open>k\<close>-th call: an error
  thrown or a value. The result carries how often \<^verbatim>\<open>fn\<close> was called. The loop's bound may be any
  number, \<^verbatim>\<open>Infinity\<close> too, so not returning is the value \<open>None\<close>. The waits are not modelled.
\<close>

partial_function (option) retry_loop ::
  "(nat \<Rightarrow> js_error + 'a) \<Rightarrow> (js_error \<Rightarrow> bool) \<Rightarrow> jsnum \<Rightarrow> nat \<Rightarrow> js_error \<Rightarrow> ((js_error + 'a) \<times> nat) option" where
  "retry_loop fn isT maxR a lastError =
     (if \<not> js_le (js_of_nat a) maxR then Some (Inl lastError, a)
      else (case fn a of
          Inr v \<Rightarrow> Some (Inr v, Suc a)
        | Inl e \<Rightarrow>
            (if js_ge (js_of_nat a) maxR \<or> \<not> isT e then Some (Inl e, Suc a)
             else retry_loop fn isT maxR (Suc a) e)))"

definition withTransientRetry ::
  "(nat \<Rightarrow> js_error + 'a) \<Rightarrow> (js_error \<Rightarrow> bool) option \<Rightarrow> jsnum option \<Rightarrow> ((js_error + 'a) \<times> nat) option" where
  "withTransientRetry fn isT maxRetries =
     retry_loop fn (case isT of None \<Rightarrow> isTransientNetworkError | Some p \<Rightarrow> p)
       (js_max (Fin 0) (case maxRetries of None \<Rightarrow> Fin 3 | Some m \<Rightarrow> m)) 0 ErrOther"

text \<open>The call the loop stops at: the first success or permanent error, or the last allowed one.\<close>

definition stops_at :: "(nat \<Rightarrow> js_error + 'a) \<Rightarrow> (js_error \<Rightarrow> bool) \<Rightarrow> nat \<Rightarrow> nat \<Rightarrow> bool" where
  "stops_at fn isT n k \<longleftrightarrow> k \<le> n
     \<and> (\<forall>i<k. case fn i of Inl e \<Rightarrow> isT e | Inr v \<Rightarrow> False)
     \<and> (k = n \<or> (case fn k of Inl e \<Rightarrow> \<not> isT e | Inr v \<Rightarrow> True))"

lemma retry_loop_stops:
  assumes "a \<le> n" "\<forall>i<a. case fn i of Inl e \<Rightarrow> isT e | Inr v \<Rightarrow> False"
  shows "\<exists>k. stops_at fn isT n k \<and> retry_loop fn isT (js_of_nat n) a prev = Some (fn k, Suc k)"
  using assms
proof (induction "n - a" arbitrary: a prev)
  case 0
  then have "a = n" by simp
  then have "stops_at fn isT n n" using 0 by (simp add: stops_at_def)
  moreover have "retry_loop fn isT (js_of_nat n) n prev = Some (fn n, Suc n)"
    by (subst retry_loop.simps) (simp split: sum.split)
  ultimately show ?case using \<open>a = n\<close> by blast
next
  case (Suc d)
  then have lt: "a < n" by simp
  show ?case
  proof (cases "case fn a of Inl e \<Rightarrow> isT e | Inr v \<Rightarrow> False")
    case True
    then obtain e where e: "fn a = Inl e" "isT e" by (cases "fn a") auto
    then have "\<exists>k. stops_at fn isT n k \<and> retry_loop fn isT (js_of_nat n) (Suc a) e = Some (fn k, Suc k)"
      using Suc lt by (intro Suc.hyps) (auto simp: less_Suc_eq)
    moreover have "retry_loop fn isT (js_of_nat n) a prev = retry_loop fn isT (js_of_nat n) (Suc a) e"
      using e lt by (subst retry_loop.simps) simp
    ultimately show ?thesis by simp
  next
    case False
    then have "stops_at fn isT n a" using Suc.prems by (auto simp: stops_at_def split: sum.splits)
    moreover have "retry_loop fn isT (js_of_nat n) a prev = Some (fn a, Suc a)"
      using False lt by (subst retry_loop.simps) (auto split: sum.splits)
    ultimately show ?thesis by blast
  qed
qed

lemma withTransientRetry_stops:
  "\<exists>k. stops_at fn (case isT of None \<Rightarrow> isTransientNetworkError | Some p \<Rightarrow> p) n k
     \<and> withTransientRetry fn isT (Some (js_of_nat n)) = Some (fn k, Suc k)"
  unfolding withTransientRetry_def using retry_loop_stops[of 0 n] by simp

end
