(* ===== verification/DurableController.thy ===== *)
theory DurableController
  imports DurableGraph AttemptKey ReadyOrder RuntimeText
begin

text \<open>
  The durable run controller (\<^verbatim>\<open>src/core/durable-run-controller.ts\<close>): the class whose state is
  the in-memory mirror of the job graph, and whose effects go through injected ports. The state
  carries, beside the jobs, the trace of the effects in their order (a persisted log entry or a
  dispatch), how many worker ids were minted and how many appends were tried. The ports are
  arguments: the supply of worker ids, which of the appends are rejected, the admission plan, and
  the clock reading an operation takes. An append that is rejected makes the operation throw:
  its result is then \<open>None\<close>.
\<close>

section \<open>State and ports\<close>

record run_config =
  cfg_maxConcurrentLeases :: jsnum
  cfg_leaseDurationMs :: jsnum
  cfg_maxAttempts :: jsnum
  cfg_reclaimBackoffMs :: jsnum

record admission_plan =
  plan_readyOrder :: "string list option"
  plan_excluded :: "string list option"

record run_ports =
  mintWorkerId :: "nat \<Rightarrow> string"
  append_ok :: "nat \<Rightarrow> bool"
  planAdmission :: "(job list \<Rightarrow> jsnum \<Rightarrow> admission_plan) option"
  lease_ident :: "lease_identity option"
  sha256 :: "string \<Rightarrow> string"
  depthPriorityFlag :: "string option"
  localeCompare :: "string \<Rightarrow> string \<Rightarrow> int"

datatype run_effect =
    Append log_entry
  | Dispatch string string jsnum

record controller =
  c_jobs :: "job list"
  trace :: "run_effect list"
  minted :: nat
  appends :: nat

definition new_controller :: "job list \<Rightarrow> controller" where
  "new_controller initialJobs = \<lparr>c_jobs = initialJobs, trace = [], minted = 0, appends = 0\<rparr>"

section \<open>Persisting, applying, dispatching\<close>

text \<open>\<^verbatim>\<open>await this.ports.appendLog(entry)\<close> for each entry, until one is rejected.\<close>

fun append_log :: "run_ports \<Rightarrow> log_entry list \<Rightarrow> controller \<Rightarrow> bool \<times> controller" where
  "append_log p [] c = (True, c)"
| "append_log p (e # es) c =
     (if append_ok p (appends c)
      then append_log p es (c\<lparr>appends := Suc (appends c), trace := trace c @ [Append e]\<rparr>)
      else (False, c\<lparr>appends := Suc (appends c)\<rparr>))"

text \<open>The key of an action: that of the lease it is, over the jobs before the commit.\<close>

definition action_key :: "run_ports \<Rightarrow> job list \<Rightarrow> sched_action list \<Rightarrow> sched_action \<Rightarrow> string option" where
  "action_key p jobs actions a = (case lease_ident p of
      None \<Rightarrow> None
    | Some ident \<Rightarrow> map_of (keyDurableLeaseActions (sha256 p) actions jobs ident) a)"

definition scheduled_entries :: "run_ports \<Rightarrow> jsnum \<Rightarrow> job list \<Rightarrow> sched_action list \<Rightarrow> log_entry list" where
  "scheduled_entries p now jobs actions = map (\<lambda>a. Scheduled now a (action_key p jobs actions a)) actions"

fun dispatch_of :: "sched_action \<Rightarrow> run_effect list" where
  "dispatch_of (Lease i w e) = [Dispatch i w e]"
| "dispatch_of _ = []"

definition commit :: "run_config \<Rightarrow> run_ports \<Rightarrow> jsnum \<Rightarrow> sched_action list \<Rightarrow> controller \<Rightarrow> unit option \<times> controller" where
  "commit cfg p now actions c =
     (case append_log p (scheduled_entries p now (c_jobs c) actions) c of
        (False, c1) \<Rightarrow> (None, c1)
      | (True, c1) \<Rightarrow>
          (Some (), c1\<lparr>c_jobs := applyDurableSchedulerActions (c_jobs c1) actions now (cfg_reclaimBackoffMs cfg),
                       trace := trace c1 @ concat (map dispatch_of actions)\<rparr>))"

section \<open>The operations\<close>

text \<open>\<^verbatim>\<open>reclaimOrphanedLeases()\<close>\<close>

definition orphan_actions :: "run_config \<Rightarrow> job list \<Rightarrow> sched_action list" where
  "orphan_actions cfg jobs =
     map (\<lambda>j. if attempt_budget (cfg_maxAttempts cfg) \<le> int (attempts j)
              then Fail (jobId j) MaxAttempts else Reclaim (jobId j))
       (filter (\<lambda>j. jstate j = Leased) jobs)"

definition reclaimOrphanedLeases :: "run_config \<Rightarrow> run_ports \<Rightarrow> jsnum \<Rightarrow> controller \<Rightarrow> unit option \<times> controller" where
  "reclaimOrphanedLeases cfg p now c = commit cfg p now (orphan_actions cfg (c_jobs c)) c"

text \<open>\<^verbatim>\<open>DurableRunController.resume(initialJobs, log, ...)\<close>\<close>

definition resume :: "run_config \<Rightarrow> run_ports \<Rightarrow> jsnum \<Rightarrow> job list \<Rightarrow> log_entry list \<Rightarrow> unit option \<times> controller" where
  "resume cfg p now initialJobs entries =
     reclaimOrphanedLeases cfg p now
       (new_controller (replayDurableJobs initialJobs entries (cfg_reclaimBackoffMs cfg) (cfg_maxAttempts cfg)))"

text \<open>\<^verbatim>\<open>tick()\<close>: the order of the candidates, the input of the decision, the commit.\<close>

definition depth_order :: "run_ports \<Rightarrow> jsnum \<Rightarrow> job list \<Rightarrow> string list option" where
  "depth_order p now jobs =
     (if isEnabledByDefaultEnv (depthPriorityFlag p)
      then Some (map o_jobId (ordered (orderReadyJobs (localeCompare p) jobs now (\<lambda>_. None) no_weights None)))
      else None)"

definition tick_input :: "run_config \<Rightarrow> run_ports \<Rightarrow> jsnum \<Rightarrow> job list \<Rightarrow> sched_input" where
  "tick_input cfg p now jobs =
     (let admission = map_option (\<lambda>plan. plan jobs now) (planAdmission p) in
      \<lparr>in_jobs = jobs, in_now = now,
       maxConcurrentLeases = cfg_maxConcurrentLeases cfg,
       leaseDurationMs = cfg_leaseDurationMs cfg,
       maxAttempts = cfg_maxAttempts cfg,
       reclaimBackoffMs = cfg_reclaimBackoffMs cfg,
       readyOrder = (case Option.bind admission plan_readyOrder of
           None \<Rightarrow> depth_order p now jobs | Some order \<Rightarrow> Some order),
       excludedJobIds = (case Option.bind admission plan_excluded of None \<Rightarrow> [] | Some ex \<Rightarrow> ex)\<rparr>)"

definition tick_actions :: "run_config \<Rightarrow> run_ports \<Rightarrow> jsnum \<Rightarrow> controller \<Rightarrow> sched_action list" where
  "tick_actions cfg p now c =
     decideDurableSchedulerActions (tick_input cfg p now (c_jobs c)) (\<lambda>n. mintWorkerId p (minted c + n))"

definition tick :: "run_config \<Rightarrow> run_ports \<Rightarrow> jsnum \<Rightarrow> controller \<Rightarrow> sched_action list option \<times> controller" where
  "tick cfg p now c =
     (let actions = tick_actions cfg p now c;
          c0 = c\<lparr>minted := minted c + length (filter is_lease actions)\<rparr>
      in (case commit cfg p now actions c0 of
            (None, c1) \<Rightarrow> (None, c1)
          | (Some _, c1) \<Rightarrow> (Some actions, c1)))"

text \<open>\<^verbatim>\<open>reportCompletion(jobId, outcome, error)\<close>; the reported outcome is not a transient retry.\<close>

datatype report = RepSucceeded | RepFailed

definition accepts_report :: "job option \<Rightarrow> report \<Rightarrow> bool" where
  "accepts_report j out \<longleftrightarrow>
     job_in Leased j \<or> (out = RepSucceeded \<and> (job_in Failed j \<or> job_in Ready j))"

definition effective_outcome :: "report \<Rightarrow> js_error \<Rightarrow> outcome" where
  "effective_outcome out err =
     (if out = RepFailed \<and> isTransientNetworkError err then OutTransientRetry
      else (case out of RepSucceeded \<Rightarrow> OutSucceeded | RepFailed \<Rightarrow> OutFailed))"

definition find_job :: "job list \<Rightarrow> string \<Rightarrow> job option" where
  "find_job jobs i = find (\<lambda>j. jobId j = i) jobs"

definition log_and_mark :: "run_config \<Rightarrow> run_ports \<Rightarrow> string \<Rightarrow> outcome \<Rightarrow> controller \<Rightarrow> unit option \<times> controller" where
  "log_and_mark cfg p i out c =
     (case append_log p [Completed i out] c of
        (False, c1) \<Rightarrow> (None, c1)
      | (True, c1) \<Rightarrow> (Some (), c1\<lparr>c_jobs := markDurableJob (c_jobs c1) i out (cfg_maxAttempts cfg)\<rparr>))"

definition reportCompletion ::
  "run_config \<Rightarrow> run_ports \<Rightarrow> string \<Rightarrow> report \<Rightarrow> js_error \<Rightarrow> controller \<Rightarrow> unit option \<times> controller" where
  "reportCompletion cfg p i out err c =
     (if \<not> accepts_report (find_job (c_jobs c) i) out then (Some (), c)
      else log_and_mark cfg p i (effective_outcome out err) c)"

definition reopenForRedispatch ::
  "run_config \<Rightarrow> run_ports \<Rightarrow> string \<Rightarrow> controller \<Rightarrow> bool option \<times> controller" where
  "reopenForRedispatch cfg p i c =
     (if \<not> job_in Failed (find_job (c_jobs c) i) then (Some False, c)
      else (case log_and_mark cfg p i OutTransientRetry c of
              (None, c1) \<Rightarrow> (None, c1)
            | (Some _, c1) \<Rightarrow> (Some (job_in Ready (find_job (c_jobs c1) i)), c1)))"

definition reconcileWithBoardGraph ::
  "job list \<Rightarrow> string set \<Rightarrow> controller \<Rightarrow> (string list \<times> string list) \<times> controller" where
  "reconcileWithBoardGraph board waiting c =
     (let r = reconcileDurableJobsWithBoard (c_jobs c) board waiting
      in ((absorbedJobIds r, reopenedJobIds r), c\<lparr>c_jobs := rec_jobs r\<rparr>))"

definition heartbeat :: "run_config \<Rightarrow> jsnum \<Rightarrow> string \<Rightarrow> controller \<Rightarrow> controller" where
  "heartbeat cfg now i c =
     c\<lparr>c_jobs := renewDurableLease (c_jobs c) i (js_add now (cfg_leaseDurationMs cfg))\<rparr>"

definition jobsSnapshot :: "controller \<Rightarrow> job list" where
  "jobsSnapshot c = c_jobs c"

definition isComplete :: "controller \<Rightarrow> bool" where
  "isComplete c = isDurableRunComplete (c_jobs c)"

end
