(* ===== verification/DurableRuns.thy ===== *)
theory DurableRuns
  imports DurableController DurableInvariants
begin

text \<open>
  Runs of the durable controller: sequences of its operations, each atomic (the wiring serialises
  them per workspace), ended by the first one whose append is rejected. What every run keeps, and
  what a fresh process finds when it replays the log that any prefix of a run left behind.
\<close>

section \<open>Operations as data\<close>

datatype ctl_op =
    OpTick jsnum
  | OpReport string report js_error
  | OpReopen string
  | OpReconcile "job list" "string set"
  | OpHeartbeat jsnum string
  | OpReclaimOrphans jsnum

definition apply_op :: "run_config \<Rightarrow> run_ports \<Rightarrow> ctl_op \<Rightarrow> controller \<Rightarrow> bool \<times> controller" where
  "apply_op cfg p x c = (case x of
       OpTick now \<Rightarrow> (case tick cfg p now c of (r, c1) \<Rightarrow> (r \<noteq> None, c1))
     | OpReport i out err \<Rightarrow> (case reportCompletion cfg p i out err c of (r, c1) \<Rightarrow> (r \<noteq> None, c1))
     | OpReopen i \<Rightarrow> (case reopenForRedispatch cfg p i c of (r, c1) \<Rightarrow> (r \<noteq> None, c1))
     | OpReconcile board waiting \<Rightarrow> (True, snd (reconcileWithBoardGraph board waiting c))
     | OpHeartbeat now i \<Rightarrow> (True, heartbeat cfg now i c)
     | OpReclaimOrphans now \<Rightarrow> (case reclaimOrphanedLeases cfg p now c of (r, c1) \<Rightarrow> (r \<noteq> None, c1)))"

text \<open>A controller whose append was rejected is discarded: it takes no further operation.\<close>

definition live_step :: "run_config \<Rightarrow> run_ports \<Rightarrow> ctl_op \<Rightarrow> bool \<times> controller \<Rightarrow> bool \<times> controller" where
  "live_step cfg p x s = (if fst s then apply_op cfg p x (snd s) else s)"

fun board_ok :: "ctl_op \<Rightarrow> bool" where
  "board_ok (OpReconcile board w) = fresh_graph board"
| "board_ok _ = True"

fun logged_op :: "ctl_op \<Rightarrow> bool" where
  "logged_op (OpReconcile board w) = False"
| "logged_op _ = True"

abbreviation run_budget :: "run_config \<Rightarrow> int" where
  "run_budget cfg \<equiv> attempt_budget (cfg_maxAttempts cfg)"

fun logged_entries :: "run_effect list \<Rightarrow> log_entry list" where
  "logged_entries [] = []"
| "logged_entries (Append e # t) = e # logged_entries t"
| "logged_entries (Dispatch i w x # t) = logged_entries t"

lemma logged_entries_append [simp]: "logged_entries (s @ t) = logged_entries s @ logged_entries t"
  by (induction s rule: logged_entries.induct) auto

lemma logged_entries_map [simp]: "logged_entries (map Append es) = es"
  by (induction es) auto

lemma logged_entries_dispatch [simp]: "logged_entries (concat (map dispatch_of as)) = []"
proof (induction as)
  case (Cons a as)
  then show ?case by (cases a) auto
qed simp

lemma find_is_job_of:
  assumes "distinct_jobs jobs"
  shows "find_job jobs i = job_of jobs i"
proof (cases "find_job jobs i")
  case None
  then have "i \<notin> jobId ` set jobs" by (auto simp: find_job_def find_None_iff)
  then have "job_of jobs i = None" using assms by (simp add: job_of_None_iff)
  then show ?thesis using None by simp
next
  case (Some k)
  then have "k \<in> set jobs" "jobId k = i" by (auto simp: find_job_def find_Some_iff)
  then show ?thesis using Some assms by auto
qed

section \<open>Persist before dispatch\<close>

text \<open>In a good trace each dispatch comes after the log entry of its lease.\<close>

fun dispatch_logged :: "sched_action set \<Rightarrow> run_effect list \<Rightarrow> bool" where
  "dispatch_logged S [] = True"
| "dispatch_logged S (Append (Scheduled now a k) # t) = dispatch_logged (insert a S) t"
| "dispatch_logged S (Append (Completed i out) # t) = dispatch_logged S t"
| "dispatch_logged S (Dispatch i w e # t) = (Lease i w e \<in> S \<and> dispatch_logged S t)"

definition logged_actions :: "run_effect list \<Rightarrow> sched_action set" where
  "logged_actions t = {a. \<exists>now k. Append (Scheduled now a k) \<in> set t}"

lemma logged_actions_simps [simp]:
  "logged_actions [] = {}"
  "logged_actions (Append (Scheduled now a k) # t) = insert a (logged_actions t)"
  "logged_actions (Append (Completed i out) # t) = logged_actions t"
  "logged_actions (Dispatch i w e # t) = logged_actions t"
  by (auto simp: logged_actions_def)

lemma dispatch_logged_append: "dispatch_logged S (s @ t) \<longleftrightarrow>
    dispatch_logged S s \<and> dispatch_logged (S \<union> logged_actions s) t"
  by (induction S s rule: dispatch_logged.induct) auto

lemma dispatch_logged_appends [simp]: "dispatch_logged S (map Append es)"
proof (induction es arbitrary: S)
  case (Cons e es)
  then show ?case by (cases e) auto
qed simp

lemma dispatch_logged_dispatches: "set as \<subseteq> S \<Longrightarrow> dispatch_logged S (concat (map dispatch_of as))"
proof (induction as)
  case (Cons a as)
  then show ?case by (cases a) auto
qed simp

lemma dispatch_logged_pre:
  "dispatch_logged S (pre @ Dispatch i w e # post) \<Longrightarrow> Lease i w e \<in> S \<union> logged_actions pre"
  by (auto simp: dispatch_logged_append)

section \<open>What a commit does\<close>

lemma append_log_result:
  "append_log p es c = (ok, c1) \<Longrightarrow> \<exists>n \<le> length es. (ok \<longleftrightarrow> n = length es) \<and>
     c_jobs c1 = c_jobs c \<and> trace c1 = trace c @ map Append (take n es)"
proof (induction es arbitrary: c)
  case Nil
  then show ?case by simp
next
  case (Cons e es)
  show ?case
  proof (cases "append_ok p (appends c)")
    case True
    then have "append_log p es (c\<lparr>appends := Suc (appends c), trace := trace c @ [Append e]\<rparr>) = (ok, c1)"
      using Cons.prems by simp
    from Cons.IH[OF this] obtain n where "n \<le> length es" "ok \<longleftrightarrow> n = length es" "c_jobs c1 = c_jobs c"
      "trace c1 = trace c @ Append e # map Append (take n es)" by auto
    then show ?thesis by (intro exI[of _ "Suc n"]) simp
  next
    case False
    then have "ok = False" "c_jobs c1 = c_jobs c" "trace c1 = trace c" using Cons.prems by auto
    then show ?thesis by (intro exI[of _ 0]) simp
  qed
qed

lemma commit_done:
  assumes "commit cfg p now as c = (Some u, c1)"
  shows "c_jobs c1 = applyDurableSchedulerActions (c_jobs c) as now (cfg_reclaimBackoffMs cfg)"
    and "trace c1 = trace c @ map Append (scheduled_entries p now (c_jobs c) as) @ concat (map dispatch_of as)"
  using assms append_log_result[of p "scheduled_entries p now (c_jobs c) as" c]
  by (auto simp: commit_def split: prod.splits bool.splits)

lemma commit_threw:
  assumes "commit cfg p now as c = (None, c1)"
  shows "\<exists>n < length as. c_jobs c1 = c_jobs c
    \<and> trace c1 = trace c @ map Append (take n (scheduled_entries p now (c_jobs c) as))"
proof -
  obtain ok c2 where c2: "append_log p (scheduled_entries p now (c_jobs c) as) c = (ok, c2)"
    by (cases "append_log p (scheduled_entries p now (c_jobs c) as) c")
  then have "ok = False" "c1 = c2" using assms by (auto simp: commit_def split: bool.splits)
  then show ?thesis using append_log_result[OF c2] by (auto simp: scheduled_entries_def le_less)
qed

lemma logged_actions_scheduled:
  "logged_actions (map Append (scheduled_entries p now jobs as)) = set as"
  by (auto simp: logged_actions_def scheduled_entries_def image_iff)

lemma commit_dispatch_logged:
  assumes "dispatch_logged {} (trace c)" "commit cfg p now as c = (r, c1)"
  shows "dispatch_logged {} (trace c1)"
proof (cases r)
  case None
  then show ?thesis using commit_threw[of cfg p now as c c1] assms by (auto simp: dispatch_logged_append)
next
  case (Some u)
  then have "trace c1 = trace c @ map Append (scheduled_entries p now (c_jobs c) as) @ concat (map dispatch_of as)"
    using assms(2) by (intro commit_done(2)) simp
  moreover have "dispatch_logged ({} \<union> logged_actions (trace c) \<union> set as) (concat (map dispatch_of as))"
    by (rule dispatch_logged_dispatches) auto
  ultimately show ?thesis using assms(1) by (simp add: dispatch_logged_append logged_actions_scheduled)
qed

lemma log_and_mark_done:
  assumes "log_and_mark cfg p i out c = (Some u, c1)"
  shows "c_jobs c1 = markDurableJob (c_jobs c) i out (cfg_maxAttempts cfg)"
    and "trace c1 = trace c @ [Append (Completed i out)]"
  using assms by (auto simp: log_and_mark_def split: prod.splits bool.splits if_splits)

lemma log_and_mark_threw:
  assumes "log_and_mark cfg p i out c = (None, c1)"
  shows "c_jobs c1 = c_jobs c" "trace c1 = trace c"
  using assms by (auto simp: log_and_mark_def split: prod.splits bool.splits if_splits)

section \<open>The operations as transitions\<close>

lemma orphan_run:
  assumes "distinct_jobs jobs"
  shows "legal_run (run_budget cfg) now backoff jobs (orphan_actions cfg jobs)
    (applyDurableSchedulerActions jobs (orphan_actions cfg jobs) now backoff)"
proof -
  have "map action_job (orphan_actions cfg jobs) = map jobId (filter (\<lambda>j. jstate j = Leased) jobs)"
    by (simp add: orphan_actions_def)
  then have "distinct (map action_job (orphan_actions cfg jobs))"
    using assms by (simp add: distinct_filter_ids)
  moreover have "\<forall>a \<in> set (orphan_actions cfg jobs). legal (run_budget cfg) jobs a"
    using assms by (auto simp: orphan_actions_def legal_simps)
  ultimately show ?thesis using assms by (simp add: apply_is_fold_act legal_run_distinct)
qed

lemma tick_input_simps [simp]:
  "in_jobs (tick_input cfg p now jobs) = jobs" "in_now (tick_input cfg p now jobs) = now"
  "maxAttempts (tick_input cfg p now jobs) = cfg_maxAttempts cfg"
  "maxConcurrentLeases (tick_input cfg p now jobs) = cfg_maxConcurrentLeases cfg"
  "leaseDurationMs (tick_input cfg p now jobs) = cfg_leaseDurationMs cfg"
  "reclaimBackoffMs (tick_input cfg p now jobs) = cfg_reclaimBackoffMs cfg"
  by (simp_all add: tick_input_def Let_def)

lemma tick_run:
  "distinct_jobs (c_jobs c) \<Longrightarrow> legal_run (run_budget cfg) now backoff (c_jobs c) (tick_actions cfg p now c)
    (applyDurableSchedulerActions (c_jobs c) (tick_actions cfg p now c) now backoff)"
  unfolding tick_actions_def using decide_run[of "tick_input cfg p now (c_jobs c)" now backoff] by simp

text \<open>
  What one operation does to the jobs and the trace: nothing, a prefix of a legal batch persisted
  before a rejected append, a legal batch, one report, one renewal, or a reconciliation. A report is
  on a job of the run, and unless it is a success the job is leased or failed.
\<close>

definition reported :: "job list \<Rightarrow> string \<Rightarrow> outcome \<Rightarrow> bool" where
  "reported jobs i out \<longleftrightarrow> (\<exists>j. job_of jobs i = Some j \<and> (out = OutSucceeded \<or> jstate j \<in> {Leased, Failed}))"

inductive transition :: "run_config \<Rightarrow> run_ports \<Rightarrow> ctl_op \<Rightarrow> controller \<Rightarrow> bool \<Rightarrow> controller \<Rightarrow> bool"
  for cfg :: run_config and p :: run_ports where
  tr_idle: "c_jobs c1 = c_jobs c \<Longrightarrow> trace c1 = trace c \<Longrightarrow> transition cfg p x c ok c1"
| tr_threw: "c_jobs c1 = c_jobs c
    \<Longrightarrow> trace c1 = trace c @ map Append (take n (scheduled_entries p now (c_jobs c) as))
    \<Longrightarrow> legal_run (run_budget cfg) now (cfg_reclaimBackoffMs cfg) (c_jobs c) as jobs'
    \<Longrightarrow> transition cfg p x c False c1"
| tr_commit: "legal_run (run_budget cfg) now (cfg_reclaimBackoffMs cfg) (c_jobs c) as (c_jobs c1)
    \<Longrightarrow> trace c1 = trace c @ map Append (scheduled_entries p now (c_jobs c) as) @ concat (map dispatch_of as)
    \<Longrightarrow> transition cfg p x c True c1"
| tr_mark: "c_jobs c1 = markDurableJob (c_jobs c) i out (cfg_maxAttempts cfg)
    \<Longrightarrow> trace c1 = trace c @ [Append (Completed i out)] \<Longrightarrow> reported (c_jobs c) i out \<Longrightarrow> transition cfg p x c True c1"
| tr_renew: "c_jobs c1 = renewDurableLease (c_jobs c) i e \<Longrightarrow> trace c1 = trace c
    \<Longrightarrow> transition cfg p x c True c1"
| tr_reconcile: "x = OpReconcile board w \<Longrightarrow> c_jobs c1 = rec_jobs (reconcileDurableJobsWithBoard (c_jobs c) board w)
    \<Longrightarrow> trace c1 = trace c \<Longrightarrow> transition cfg p x c True c1"

inductive_cases transition_cases: "transition cfg p x c ok c1"

lemma commit_transition:
  assumes "commit cfg p now as c = (r, c1)"
    and "legal_run (run_budget cfg) now (cfg_reclaimBackoffMs cfg) (c_jobs c) as
      (applyDurableSchedulerActions (c_jobs c) as now (cfg_reclaimBackoffMs cfg))"
  shows "transition cfg p x c (r \<noteq> None) c1"
proof (cases r)
  case None
  then show ?thesis using commit_threw[of cfg p now as c c1] assms by (auto intro: tr_threw)
next
  case (Some u)
  then show ?thesis using commit_done[of cfg p now as c u c1] assms tr_commit by fastforce
qed

lemma mark_transition:
  assumes "log_and_mark cfg p i out c = (r, c1)" "reported (c_jobs c) i out"
  shows "transition cfg p x c (r \<noteq> None) c1"
proof (cases r)
  case None
  show ?thesis using log_and_mark_threw[OF assms(1)[unfolded None]] by (auto intro: tr_idle)
next
  case (Some u)
  show ?thesis using Some log_and_mark_done[OF assms(1)[unfolded Some]] assms(2) by (auto intro: tr_mark)
qed

lemma tick_transition:
  assumes "tick cfg p now c = (r, c1)" "distinct_jobs (c_jobs c)"
  shows "transition cfg p x c (r \<noteq> None) c1"
proof -
  let ?c0 = "c\<lparr>minted := minted c + length (filter is_lease (tick_actions cfg p now c))\<rparr>"
  obtain r0 where r0: "commit cfg p now (tick_actions cfg p now c) ?c0 = (r0, c1)" "r = None \<longleftrightarrow> r0 = None"
    using assms(1) by (auto simp: tick_def Let_def split: prod.splits option.splits)
  have "transition cfg p x ?c0 (r0 \<noteq> None) c1"
    using r0(1) tick_run[OF assms(2)] by (intro commit_transition) auto
  then show ?thesis using r0(2) by (auto elim!: transition_cases intro: transition.intros)
qed

lemma apply_op_transition:
  assumes "apply_op cfg p x c = (ok, c1)" "distinct_jobs (c_jobs c)"
  shows "transition cfg p x c ok c1"
proof (cases x)
  case (OpTick now)
  then obtain r where r: "tick cfg p now c = (r, c1)" "ok = (r \<noteq> None)"
    using assms(1) by (auto simp: apply_op_def split: prod.splits)
  show ?thesis unfolding r(2) using r(1) assms(2) by (rule tick_transition)
next
  case (OpReport i out err)
  show ?thesis
  proof (cases "accepts_report (find_job (c_jobs c) i) out")
    case True
    then obtain r where r: "log_and_mark cfg p i (effective_outcome out err) c = (r, c1)" "ok = (r \<noteq> None)"
      using assms(1) OpReport by (auto simp: apply_op_def reportCompletion_def split: prod.splits)
    have "reported (c_jobs c) i (effective_outcome out err)"
      using True assms(2) by (auto simp: reported_def accepts_report_def effective_outcome_def job_in_def find_is_job_of
          split: option.splits)
    then show ?thesis unfolding r(2) using r(1) by (intro mark_transition)
  next
    case False
    then show ?thesis using assms(1) OpReport by (auto simp: apply_op_def reportCompletion_def intro: tr_idle)
  qed
next
  case (OpReopen i)
  show ?thesis
  proof (cases "job_in Failed (find_job (c_jobs c) i)")
    case True
    then obtain r where r: "log_and_mark cfg p i OutTransientRetry c = (r, c1)" "ok = (r \<noteq> None)"
      using assms(1) OpReopen
      by (auto simp: apply_op_def reopenForRedispatch_def split: prod.splits option.splits)
    have "reported (c_jobs c) i OutTransientRetry"
      using True assms(2) by (auto simp: reported_def job_in_def find_is_job_of split: option.splits)
    then show ?thesis unfolding r(2) using r(1) by (intro mark_transition)
  next
    case False
    then show ?thesis using assms(1) OpReopen by (auto simp: apply_op_def reopenForRedispatch_def intro: tr_idle)
  qed
next
  case (OpReconcile board w)
  then have "ok = True" "c1 = snd (reconcileWithBoardGraph board w c)" using assms(1) by (auto simp: apply_op_def)
  then show ?thesis using OpReconcile
    by (simp only:) (rule tr_reconcile; simp add: reconcileWithBoardGraph_def Let_def)
next
  case (OpHeartbeat now i)
  then have "ok = True" "c1 = heartbeat cfg now i c" using assms(1) by (auto simp: apply_op_def)
  then show ?thesis by (simp only:) (rule tr_renew; simp add: heartbeat_def)
next
  case (OpReclaimOrphans now)
  then obtain r where r: "commit cfg p now (orphan_actions cfg (c_jobs c)) c = (r, c1)" "ok = (r \<noteq> None)"
    using assms(1) by (auto simp: apply_op_def reclaimOrphanedLeases_def split: prod.splits)
  show ?thesis unfolding r(2) using r(1) orphan_run[OF assms(2)] by (rule commit_transition)
qed

section \<open>The invariant of every run\<close>

definition ctl_inv :: "run_config \<Rightarrow> controller \<Rightarrow> bool" where
  "ctl_inv cfg c \<longleftrightarrow> jobs_inv (run_budget cfg) (c_jobs c) \<and> dispatch_logged {} (trace c)"

text \<open>The part of it that needs nothing of the jobs a run starts from but distinct ids and no lease.\<close>

definition ctl_safe :: "controller \<Rightarrow> bool" where
  "ctl_safe c \<longleftrightarrow> jobs_safe (c_jobs c) \<and> dispatch_logged {} (trace c)"

lemma ctl_safe_iff: "ctl_safe c \<longleftrightarrow> distinct_jobs (c_jobs c) \<and> dispatch_logged {} (trace c)
    \<and> (\<forall>j \<in> set (c_jobs c). jstate j = Leased \<longrightarrow> dependenciesSucceeded j (job_of (c_jobs c)))"
  by (auto simp: ctl_safe_def jobs_safe_def jobs_good_def list_all_iff)

lemma transition_dispatch:
  assumes "transition cfg p x c ok c1" "dispatch_logged {} (trace c)"
  shows "dispatch_logged {} (trace c1)"
  using assms(1)
proof cases
  case (tr_commit now as)
  have "dispatch_logged (logged_actions (trace c) \<union> set as) (concat (map dispatch_of as))"
    by (rule dispatch_logged_dispatches) auto
  then show ?thesis using assms(2) tr_commit by (auto simp: dispatch_logged_append logged_actions_scheduled)
qed (use assms(2) in \<open>auto simp: dispatch_logged_append\<close>)

lemma transition_inv:
  assumes "transition cfg p x c ok c1" "ctl_inv cfg c" "board_ok x"
  shows "ctl_inv cfg c1"
proof -
  have inv: "jobs_inv (run_budget cfg) (c_jobs c)" using assms(2) by (simp add: ctl_inv_def)
  have "jobs_inv (run_budget cfg) (c_jobs c1)"
    using assms(1)
    by cases (use inv assms(3) attempt_budget_pos jobs_inv_legal_run in \<open>auto simp: jobs_inv_mark jobs_inv_renew reconcile_inv\<close>)
  then show ?thesis using transition_dispatch assms(1,2) by (auto simp: ctl_inv_def)
qed

lemma transition_safe:
  assumes "transition cfg p x c ok c1" "ctl_safe c" "board_ok x"
  shows "ctl_safe c1"
proof -
  have inv: "jobs_safe (c_jobs c)" using assms(2) by (simp add: ctl_safe_def)
  have "jobs_safe (c_jobs c1)"
    using assms(1)
    by cases (use inv assms(3) jobs_safe_legal_run in \<open>auto simp: reconcile_safe jobs_safe_mark jobs_safe_renew\<close>)
  then show ?thesis using transition_dispatch assms(1,2) by (auto simp: ctl_safe_def)
qed

lemma ctl_safe_distinct: "ctl_safe c \<Longrightarrow> distinct_jobs (c_jobs c)"
  by (simp add: ctl_safe_iff)

lemma ctl_inv_safe: "ctl_inv cfg c \<Longrightarrow> ctl_safe c"
  by (auto simp: ctl_inv_def ctl_safe_iff jobs_inv_def list_all_iff)

lemma ctl_inv_distinct: "ctl_inv cfg c \<Longrightarrow> distinct_jobs (c_jobs c)"
  unfolding ctl_inv_def by (blast intro: jobs_inv_distinct)

lemma live_step_inv:
  assumes "ctl_inv cfg (snd s)" "board_ok x"
  shows "ctl_inv cfg (snd (live_step cfg p x s))"
proof (cases "fst s")
  case True
  obtain ok c1 where a: "apply_op cfg p x (snd s) = (ok, c1)" by fastforce
  then have "ctl_inv cfg c1"
    using apply_op_transition assms ctl_inv_distinct transition_inv by blast
  then show ?thesis using True a by (simp add: live_step_def)
next
  case False
  then show ?thesis using assms by (simp add: live_step_def)
qed

interpretation ctl: invariant_system "live_step cfg p" "\<lambda>x s. board_ok x" "\<lambda>s. ctl_inv cfg (snd s)" for cfg p
  by unfold_locales (rule live_step_inv)

lemma apply_op_inv: "apply_op cfg p x c = (ok, c1) \<Longrightarrow> ctl_inv cfg c \<Longrightarrow> board_ok x \<Longrightarrow> ctl_inv cfg c1"
  using apply_op_transition transition_inv ctl_inv_distinct by blast

lemma apply_op_safe: "apply_op cfg p x c = (ok, c1) \<Longrightarrow> ctl_safe c \<Longrightarrow> board_ok x \<Longrightarrow> ctl_safe c1"
  using apply_op_transition transition_safe ctl_safe_distinct by blast

lemma new_controller_inv: "jobs_inv (run_budget cfg) jobs \<Longrightarrow> ctl_inv cfg (new_controller jobs)"
  by (simp add: ctl_inv_def new_controller_def)

end
