(* ===== verification/DurableReplay.thy ===== *)
theory DurableReplay
  imports DurableRuns
begin

text \<open>
  Restart survivability: the log a run persisted, replayed over the run's initial graph, gives the
  run's jobs again, up to the lease deadlines that heartbeats moved (they are not logged), and
  every prefix of the log gives a well-formed graph, so a crash between any two appends does too.
  A fresh process that resumes from it holds no lease.
\<close>

section \<open>Jobs up to their lease deadlines\<close>

definition forget_expiry :: "job \<Rightarrow> job" where
  "forget_expiry j = j\<lparr>lease := map_option (\<lambda>l. l\<lparr>expiresAt := Fin 0\<rparr>) (lease j)\<rparr>"

lemma forget_expiry_simps [simp]:
  "jobId (forget_expiry j) = jobId j" "jstate (forget_expiry j) = jstate j"
  "dependsOn (forget_expiry j) = dependsOn j" "attempts (forget_expiry j) = attempts j"
  "failedReason (forget_expiry j) = failedReason j" "nextEligibleAt (forget_expiry j) = nextEligibleAt j"
  "lease (forget_expiry j) = None \<longleftrightarrow> lease j = None"
  by (simp_all add: forget_expiry_def)

lemma forget_expiry_idem [simp]: "forget_expiry (forget_expiry j) = forget_expiry j"
  by (cases "lease j") (simp_all add: forget_expiry_def)

lemma forget_apply: "forget_expiry (apply_to_job now b a (forget_expiry j)) = forget_expiry (apply_to_job now b a j)"
  by (cases a; cases "lease j") (simp_all add: forget_expiry_def)

lemma forget_mark: "forget_expiry (mark_job out m (forget_expiry j)) = forget_expiry (mark_job out m j)"
  by (cases out; cases "lease j") (simp_all add: forget_expiry_def mark_job_def)

lemma forget_renew: "forget_expiry (renew_job e j) = forget_expiry j"
  by (cases "lease j") (simp_all add: forget_expiry_def renew_job_def)

definition same_jobs :: "job list \<Rightarrow> job list \<Rightarrow> bool" where
  "same_jobs js ks \<longleftrightarrow> map forget_expiry js = map forget_expiry ks"

lemma same_jobs_refl [simp]: "same_jobs js js"
  by (simp add: same_jobs_def)

lemma same_jobs_sym: "same_jobs js ks \<Longrightarrow> same_jobs ks js"
  by (simp add: same_jobs_def)

lemma same_jobs_trans: "same_jobs js ks \<Longrightarrow> same_jobs ks ls \<Longrightarrow> same_jobs js ls"
  by (simp add: same_jobs_def)

lemma same_jobs_ids: "same_jobs js ks \<Longrightarrow> map jobId js = map jobId ks"
proof -
  have "map jobId (map forget_expiry xs) = map jobId xs" for xs by simp
  then show "same_jobs js ks \<Longrightarrow> map jobId js = map jobId ks" unfolding same_jobs_def by metis
qed

lemma same_jobs_update:
  assumes "same_jobs js ks" "\<And>j. forget_expiry (f (forget_expiry j)) = forget_expiry (f j)"
  shows "same_jobs (update_job i f js) (update_job i f ks)"
proof -
  have "map forget_expiry (update_job i f xs)
      = map (\<lambda>j. if jobId j = i then forget_expiry (f j) else j) (map forget_expiry xs)" for xs
    by (simp add: update_job_def assms(2))
  then show ?thesis using assms(1) unfolding same_jobs_def by (simp only:)
qed

lemma same_jobs_renew: "same_jobs js ks \<Longrightarrow> same_jobs js (renewDurableLease ks i e)"
proof -
  have "map forget_expiry (renewDurableLease ks i e) = map forget_expiry ks"
    by (simp add: renew_is_update update_job_def forget_renew)
  then show "same_jobs js ks \<Longrightarrow> same_jobs js (renewDurableLease ks i e)" by (simp add: same_jobs_def)
qed

lemma job_of_forget: "distinct_jobs js \<Longrightarrow> job_of (map forget_expiry js) i = map_option forget_expiry (job_of js i)"
proof -
  assume d: "distinct_jobs js"
  then have d': "distinct_jobs (map forget_expiry js)" by (simp add: comp_def)
  show ?thesis
  proof (cases "job_of js i")
    case None
    then have "i \<notin> jobId ` set (map forget_expiry js)" using d by (force simp: job_of_None_iff)
    then show ?thesis using d' None by (simp add: job_of_None_iff)
  next
    case (Some j)
    then have "forget_expiry j \<in> set (map forget_expiry js)" "jobId j = i" using d by (auto simp: job_of_Some_iff)
    then show ?thesis using d' Some by (simp add: job_of_Some_iff)
  qed
qed

lemma job_in_forget: "distinct_jobs js \<Longrightarrow> job_in st (job_of (map forget_expiry js) d) = job_in st (job_of js d)"
  by (simp add: job_of_forget job_in_def split: option.split)

lemma deps_forget: "distinct_jobs js \<Longrightarrow>
    dependenciesSucceeded j (job_of (map forget_expiry js)) = dependenciesSucceeded j (job_of js)"
  by (simp add: dependenciesSucceeded_def job_in_forget)

lemma deps_forget_job [simp]: "dependenciesSucceeded (forget_expiry j) = dependenciesSucceeded j"
  by (simp add: dependenciesSucceeded_def[abs_def])

lemma legal_forget: "distinct_jobs js \<Longrightarrow> legal b js a \<Longrightarrow> legal b (map forget_expiry js) a"
  by (erule legal.cases) (auto simp: legal_simps job_of_forget deps_forget)

lemma legal_unforget: "distinct_jobs js \<Longrightarrow> legal b (map forget_expiry js) a \<Longrightarrow> legal b js a"
  by (erule legal.cases) (auto simp: legal_simps job_of_forget deps_forget)

lemma legal_same:
  assumes "same_jobs js ks" "distinct_jobs js" "legal b js a"
  shows "legal b ks a"
proof -
  have "distinct_jobs ks" using assms(1,2) same_jobs_ids by simp
  moreover have "legal b (map forget_expiry ks) a"
    using legal_forget[OF assms(2,3)] assms(1) by (simp add: same_jobs_def)
  ultimately show ?thesis by (rule legal_unforget)
qed

lemma legal_run_same:
  "legal_run b now backoff js as js' \<Longrightarrow> distinct_jobs js \<Longrightarrow> same_jobs js ks \<Longrightarrow>
    \<exists>ks'. legal_run b now backoff ks as ks' \<and> same_jobs js' ks'"
proof (induction arbitrary: ks rule: legal_run.induct)
  case (lr_nil jobs)
  then show ?case by auto
next
  case (lr_cons jobs a as jobs')
  have "same_jobs (act now backoff a jobs) (act now backoff a ks)"
    unfolding act_def using lr_cons.prems(2) forget_apply by (rule same_jobs_update)
  moreover have "distinct_jobs (act now backoff a jobs)" using lr_cons.prems(1) by simp
  ultimately obtain ks' where "legal_run b now backoff (act now backoff a ks) as ks'" "same_jobs jobs' ks'"
    using lr_cons.IH by blast
  then show ?case using legal_same[OF lr_cons.prems(2,1) lr_cons.hyps(1)] by auto
qed

lemma jobs_inv_forget: "jobs_inv b (map forget_expiry js) = jobs_inv b js"
proof (cases "distinct_jobs js")
  case True
  have "job_wf b (forget_expiry j) = job_wf b j" for j
    unfolding job_wf_def by (simp only: forget_expiry_simps)
  then show ?thesis using True by (simp add: jobs_inv_def list_all_iff comp_def deps_forget)
next
  case False
  then show ?thesis by (auto simp: jobs_inv_def comp_def)
qed

lemma jobs_inv_same: "same_jobs js ks \<Longrightarrow> jobs_inv b js = jobs_inv b ks"
  unfolding same_jobs_def by (metis jobs_inv_forget)

section \<open>Replaying a log\<close>

text \<open>Every prefix of the log folds to a well-formed graph.\<close>

definition log_sound :: "run_config \<Rightarrow> job list \<Rightarrow> log_entry list \<Rightarrow> bool" where
  "log_sound cfg jobs0 es \<longleftrightarrow> (\<forall>n. jobs_inv (run_budget cfg)
     (replayDurableJobs jobs0 (take n es) (cfg_reclaimBackoffMs cfg) (cfg_maxAttempts cfg)))"

lemma replay_append: "replayDurableJobs js (es @ fs) b m = replayDurableJobs (replayDurableJobs js es b m) fs b m"
  by (simp add: replayDurableJobs_def)

lemma replay_Nil [simp]: "replayDurableJobs js [] b m = js"
  by (simp add: replayDurableJobs_def)

lemma replay_ids [id_simps]: "distinct_jobs js \<Longrightarrow> map jobId (replayDurableJobs js es b m) = map jobId js"
proof (induction es arbitrary: js)
  case (Cons e es)
  have "map jobId (replay_entry b m e js) = map jobId js"
    using Cons.prems by (cases e) (simp_all add: replay_entry_def apply_actions_ids)
  then show ?case using Cons by (simp add: replayDurableJobs_def)
qed simp

lemma log_sound_inv: "log_sound cfg jobs0 es \<Longrightarrow>
    jobs_inv (run_budget cfg) (replayDurableJobs jobs0 es (cfg_reclaimBackoffMs cfg) (cfg_maxAttempts cfg))"
  unfolding log_sound_def by (metis order_refl take_all)

lemma log_sound_append:
  assumes "log_sound cfg jobs0 es"
    and "log_sound cfg (replayDurableJobs jobs0 es (cfg_reclaimBackoffMs cfg) (cfg_maxAttempts cfg)) fs"
  shows "log_sound cfg jobs0 (es @ fs)"
  using assms by (auto simp: log_sound_def take_append replay_append)
    (metis diff_is_0_eq' nle_le replay_Nil take0 take_all)

lemma log_sound_take: "log_sound cfg jobs0 es \<Longrightarrow> log_sound cfg jobs0 (take n es)"
  by (simp add: log_sound_def take_take)

lemma replay_scheduled:
  assumes "legal_run b now backoff js as js'" "distinct_jobs js" "jobs_inv b js"
  shows "replayDurableJobs js (map (\<lambda>a. Scheduled now a (k a)) as) backoff m = js' \<and>
    (\<forall>n. jobs_inv b (replayDurableJobs js (take n (map (\<lambda>a. Scheduled now a (k a)) as)) backoff m))"
  using assms
proof (induction rule: legal_run.induct)
  case (lr_nil jobs)
  then show ?case by simp
next
  case (lr_cons jobs a as jobs')
  have step: "replayDurableJobs jobs (Scheduled now a (k a) # es) backoff m
      = replayDurableJobs (act now backoff a jobs) es backoff m" for es
    using lr_cons.prems(1) by (simp add: replayDurableJobs_def replay_entry_def apply_is_fold_act)
  have "jobs_inv b (replayDurableJobs jobs (take n (map (\<lambda>a. Scheduled now a (k a)) (a # as))) backoff m)" for n
    using lr_cons by (cases n) (auto simp: step jobs_inv_act)
  then show ?case using lr_cons by (simp add: step jobs_inv_act)
qed

lemma log_sound_completed:
  assumes "jobs_inv (run_budget cfg) js"
  shows "log_sound cfg js [Completed i out]"
  unfolding log_sound_def
proof
  fix n
  show "jobs_inv (run_budget cfg)
     (replayDurableJobs js (take n [Completed i out]) (cfg_reclaimBackoffMs cfg) (cfg_maxAttempts cfg))"
    using assms by (cases n) (simp_all add: replayDurableJobs_def replay_entry_def jobs_inv_mark)
qed

section \<open>The log of a run replays to its state\<close>

definition replay_of :: "run_config \<Rightarrow> job list \<Rightarrow> controller \<Rightarrow> job list" where
  "replay_of cfg jobs0 c =
     replayDurableJobs jobs0 (logged_entries (trace c)) (cfg_reclaimBackoffMs cfg) (cfg_maxAttempts cfg)"

definition log_inv :: "run_config \<Rightarrow> job list \<Rightarrow> bool \<times> controller \<Rightarrow> bool" where
  "log_inv cfg jobs0 s \<longleftrightarrow> log_sound cfg jobs0 (logged_entries (trace (snd s)))
     \<and> (fst s \<longrightarrow> same_jobs (replay_of cfg jobs0 (snd s)) (c_jobs (snd s)))"

lemma log_inv_extend:
  assumes inv: "log_inv cfg jobs0 (True, c)"
    and run: "legal_run (run_budget cfg) now (cfg_reclaimBackoffMs cfg) (c_jobs c) as jobs'"
  shows "\<exists>ks. same_jobs ks jobs'
      \<and> replayDurableJobs (replay_of cfg jobs0 c) (scheduled_entries p now (c_jobs c) as)
          (cfg_reclaimBackoffMs cfg) (cfg_maxAttempts cfg) = ks
      \<and> log_sound cfg (replay_of cfg jobs0 c) (scheduled_entries p now (c_jobs c) as)"
proof -
  have same: "same_jobs (replay_of cfg jobs0 c) (c_jobs c)"
    and ri: "jobs_inv (run_budget cfg) (replay_of cfg jobs0 c)"
    using inv log_sound_inv by (auto simp: log_inv_def replay_of_def)
  then have d: "distinct_jobs (c_jobs c)" "distinct_jobs (replay_of cfg jobs0 c)"
    using jobs_inv_distinct same_jobs_ids by metis+
  obtain ks where ks: "legal_run (run_budget cfg) now (cfg_reclaimBackoffMs cfg) (replay_of cfg jobs0 c) as ks"
    "same_jobs jobs' ks"
    using legal_run_same[OF run d(1) same_jobs_sym[OF same]] by blast
  show ?thesis
    using replay_scheduled[OF ks(1) d(2) ri, of "action_key p (c_jobs c) as" "cfg_maxAttempts cfg"]
      same_jobs_sym[OF ks(2)]
    unfolding scheduled_entries_def log_sound_def by blast
qed

lemma transition_log_inv:
  assumes "transition cfg p x c ok c1" "log_inv cfg jobs0 (True, c)" "logged_op x"
  shows "log_inv cfg jobs0 (ok, c1)"
  using assms(1)
proof cases
  case tr_idle
  then show ?thesis using assms(2) by (simp add: log_inv_def replay_of_def)
next
  case (tr_threw n now as jobs')
  then show ?thesis using assms(2) log_inv_extend[OF assms(2), of now as jobs' p]
    by (auto simp: log_inv_def replay_of_def intro!: log_sound_append log_sound_take)
next
  case (tr_commit now as)
  then show ?thesis using assms(2) log_inv_extend[OF assms(2), of now as "c_jobs c1" p]
    by (auto simp: log_inv_def replay_of_def replay_append intro!: log_sound_append)
next
  case (tr_mark i out)
  have "same_jobs (replay_of cfg jobs0 c) (c_jobs c)" "jobs_inv (run_budget cfg) (replay_of cfg jobs0 c)"
    using assms(2) log_sound_inv by (auto simp: log_inv_def replay_of_def)
  then have "log_sound cfg (replay_of cfg jobs0 c) [Completed i out]"
    "same_jobs (markDurableJob (replay_of cfg jobs0 c) i out (cfg_maxAttempts cfg)) (c_jobs c1)"
    unfolding tr_mark mark_is_update using forget_mark by (auto intro: log_sound_completed same_jobs_update)
  then show ?thesis using assms(2) tr_mark
    by (auto simp: log_inv_def replay_of_def replay_append replayDurableJobs_def[of _ "[_]"] replay_entry_def
        intro!: log_sound_append)
next
  case (tr_renew i e)
  then show ?thesis using assms(2) by (auto simp: log_inv_def replay_of_def same_jobs_renew)
next
  case (tr_reconcile board w)
  then show ?thesis using assms(3) by simp
qed

lemma live_step_log_inv:
  assumes "log_inv cfg jobs0 s" "logged_op x"
  shows "log_inv cfg jobs0 (live_step cfg p x s)"
proof (cases "fst s")
  case True
  then obtain c where s: "s = (True, c)" by (cases s) auto
  obtain ok c1 where a: "apply_op cfg p x c = (ok, c1)" by fastforce
  have "same_jobs (replay_of cfg jobs0 c) (c_jobs c)" "jobs_inv (run_budget cfg) (replay_of cfg jobs0 c)"
    using assms(1) s log_sound_inv by (auto simp: log_inv_def replay_of_def)
  then have "distinct_jobs (c_jobs c)" using jobs_inv_distinct same_jobs_ids by metis
  then have "log_inv cfg jobs0 (ok, c1)"
    using apply_op_transition[OF a] transition_log_inv assms s by blast
  then show ?thesis using s a by (simp add: live_step_def)
next
  case False
  then show ?thesis using assms(1) by (simp add: live_step_def)
qed

interpretation logged: invariant_system "live_step cfg p" "\<lambda>x s. logged_op x" "log_inv cfg jobs0" for cfg p jobs0
  by unfold_locales (rule live_step_log_inv)

lemma new_controller_log_inv:
  assumes "jobs_inv (run_budget cfg) jobs"
  shows "log_inv cfg jobs (True, new_controller jobs)"
  using assms by (simp add: log_inv_def log_sound_def new_controller_def replay_of_def)

end
