(* ===== verification/DurableRegistry.thy ===== *)
theory DurableRegistry
  imports DurableReplay
begin

text \<open>
  The layer above the controller: the session-state groups
  (\<^verbatim>\<open>src/core/session-state-predicates.ts\<close>), the reaction to a session's state
  (\<^verbatim>\<open>src/core/durable-run-reaction.ts\<close>), the leases to heartbeat
  (\<^verbatim>\<open>src/core/durable-lease-heartbeat.ts\<close>) and the registry of the active runs
  (\<^verbatim>\<open>src/core/durable-run-registry.ts\<close>). A run is its configuration, its ports and its controller;
  an operation reads the clock as an argument, and says whether it returned or threw.
\<close>

section \<open>Session states\<close>

datatype session_state = Idle | SQueued | Running | Paused | AwaitingReview | SFailed | Interrupted

definition isBusySessionState :: "session_state option \<Rightarrow> bool" where
  "isBusySessionState s \<longleftrightarrow> s = Some Running \<or> s = Some SQueued"

definition isActiveWorkSessionState :: "session_state option \<Rightarrow> bool" where
  "isActiveWorkSessionState s \<longleftrightarrow> isBusySessionState s \<or> s = Some Paused"

definition hasLiveTaskSession :: "session_state option \<Rightarrow> bool" where
  "hasLiveTaskSession s \<longleftrightarrow> isActiveWorkSessionState s \<or> s = Some AwaitingReview"

definition isTerminalFailureSessionState :: "session_state option \<Rightarrow> bool" where
  "isTerminalFailureSessionState s \<longleftrightarrow> s = Some SFailed \<or> s = Some Interrupted"

text \<open>\<^verbatim>\<open>[...live]\<close>, the set's elements in the order they were added.\<close>

definition resolveDurableHeartbeatTaskIds :: "(string \<times> session_state) list \<Rightarrow> string list \<Rightarrow> string list" where
  "resolveDurableHeartbeatTaskIds sessions queued =
     fold oset_add queued
       (fold (\<lambda>(i, s). if hasLiveTaskSession (Some s) then oset_add i else id) sessions [])"

section \<open>The reaction to a session's state\<close>

datatype reaction = Report report js_error | Heartbeat | NoReaction

fun mapTaskSessionStateToDurableRunReaction :: "session_state \<Rightarrow> string option \<Rightarrow> reaction" where
  "mapTaskSessionStateToDurableRunReaction AwaitingReview err = Heartbeat"
| "mapTaskSessionStateToDurableRunReaction SFailed err =
     Report RepFailed (case err of None \<Rightarrow> ErrOther | Some t \<Rightarrow> ErrString t)"
| "mapTaskSessionStateToDurableRunReaction Interrupted err =
     Report RepFailed (case err of None \<Rightarrow> ErrOther | Some t \<Rightarrow> ErrString t)"
| "mapTaskSessionStateToDurableRunReaction Running err = Heartbeat"
| "mapTaskSessionStateToDurableRunReaction _ err = NoReaction"

section \<open>The registry\<close>

record durable_run =
  dr_cfg :: run_config
  dr_ports :: run_ports
  dr_ctl :: controller

type_synonym registry = "(string, durable_run) omap"

definition reg_register :: "string \<Rightarrow> durable_run \<Rightarrow> registry \<Rightarrow> registry" where
  "reg_register w r reg = omap_set w r reg"

definition reg_get :: "registry \<Rightarrow> string \<Rightarrow> durable_run option" where
  "reg_get reg w = map_of reg w"

definition reg_has :: "registry \<Rightarrow> string \<Rightarrow> bool" where
  "reg_has reg w = (reg_get reg w \<noteq> None)"

definition reg_dispose :: "string \<Rightarrow> registry \<Rightarrow> registry" where
  "reg_dispose w reg = filter (\<lambda>e. fst e \<noteq> w) reg"

definition activeWorkspaceIds :: "registry \<Rightarrow> string list" where
  "activeWorkspaceIds reg = map fst reg"

text \<open>An operation on a run: the controller's, its result kept as whether it returned.\<close>

definition on_ctl :: "ctl_op \<Rightarrow> durable_run \<Rightarrow> bool \<times> durable_run" where
  "on_ctl x r = (case apply_op (dr_cfg r) (dr_ports r) x (dr_ctl r) of (ok, c) \<Rightarrow> (ok, r\<lparr>dr_ctl := c\<rparr>))"

text \<open>\<^verbatim>\<open>await reportCompletion(...); await tick();\<close> the second only when the first returned.\<close>

definition report_and_tick :: "string \<Rightarrow> report \<Rightarrow> js_error \<Rightarrow> jsnum \<Rightarrow> durable_run \<Rightarrow> bool \<times> durable_run" where
  "report_and_tick i out err now r =
     (case on_ctl (OpReport i out err) r of
        (False, r1) \<Rightarrow> (False, r1)
      | (True, r1) \<Rightarrow> on_ctl (OpTick now) r1)"

text \<open>The run updated in place, and dropped when the operation returned with the run complete.\<close>

definition settle_run_in :: "bool \<Rightarrow> string \<Rightarrow> bool \<times> durable_run \<Rightarrow> registry \<Rightarrow> bool \<times> registry" where
  "settle_run_in dropComplete w res reg =
     (case res of (ok, r) \<Rightarrow>
        (ok, if dropComplete \<and> ok \<and> isComplete (dr_ctl r) then reg_dispose w reg else reg_register w r reg))"

definition reactToTaskSummary ::
  "string \<Rightarrow> string \<Rightarrow> session_state \<Rightarrow> string option \<Rightarrow> jsnum \<Rightarrow> registry \<Rightarrow> bool \<times> registry" where
  "reactToTaskSummary w i st err now reg = (case reg_get reg w of
       None \<Rightarrow> (True, reg)
     | Some r \<Rightarrow>
         (case mapTaskSessionStateToDurableRunReaction st err of
            Report out e \<Rightarrow> settle_run_in True w (report_and_tick i out e now r) reg
          | Heartbeat \<Rightarrow> settle_run_in False w (on_ctl (OpHeartbeat now i) r) reg
          | NoReaction \<Rightarrow> (True, reg)))"

definition reportDelivered :: "string \<Rightarrow> string \<Rightarrow> jsnum \<Rightarrow> registry \<Rightarrow> bool \<times> registry" where
  "reportDelivered w i now reg = (case reg_get reg w of
       None \<Rightarrow> (True, reg)
     | Some r \<Rightarrow> settle_run_in True w (report_and_tick i RepSucceeded ErrOther now r) reg)"

definition reportParked :: "string \<Rightarrow> string \<Rightarrow> string option \<Rightarrow> jsnum \<Rightarrow> registry \<Rightarrow> bool \<times> registry" where
  "reportParked w i reason now reg = (case reg_get reg w of
       None \<Rightarrow> (True, reg)
     | Some r \<Rightarrow> settle_run_in False w
         (report_and_tick i RepFailed (case reason of None \<Rightarrow> ErrOther | Some t \<Rightarrow> ErrString t) now r) reg)"

text \<open>\<^verbatim>\<open>redispatchCandidates\<close>: revive each, then one tick when any revived.\<close>

fun reopen_all :: "string list \<Rightarrow> durable_run \<Rightarrow> string list option \<times> durable_run" where
  "reopen_all [] r = (Some [], r)"
| "reopen_all (i # is) r =
     (case reopenForRedispatch (dr_cfg r) (dr_ports r) i (dr_ctl r) of
        (None, c) \<Rightarrow> (None, r\<lparr>dr_ctl := c\<rparr>)
      | (Some revived, c) \<Rightarrow>
          (case reopen_all is (r\<lparr>dr_ctl := c\<rparr>) of
             (None, r') \<Rightarrow> (None, r')
           | (Some ids, r') \<Rightarrow> (Some (if revived then i # ids else ids), r')))"

definition redispatchCandidates :: "string \<Rightarrow> string list \<Rightarrow> jsnum \<Rightarrow> registry \<Rightarrow> string list option \<times> registry" where
  "redispatchCandidates w is now reg = (case reg_get reg w of
       None \<Rightarrow> (Some [], reg)
     | Some r \<Rightarrow>
         (case reopen_all is r of
            (None, r1) \<Rightarrow> (None, reg_register w r1 reg)
          | (Some ids, r1) \<Rightarrow>
              (if ids = [] then (Some ids, reg_register w r1 reg)
               else (case on_ctl (OpTick now) r1 of
                       (ok, r2) \<Rightarrow> (if ok then Some ids else None, reg_register w r2 reg)))))"

section \<open>What the registry keeps\<close>

definition reg_keeps :: "(string \<Rightarrow> durable_run \<Rightarrow> bool) \<Rightarrow> registry \<Rightarrow> bool" where
  "reg_keeps keeps reg \<longleftrightarrow> distinct (map fst reg) \<and> list_all (\<lambda>(w, r). keeps w r) reg"

lemma reg_get_register: "reg_get (reg_register w r reg) v = (if v = w then Some r else reg_get reg v)"
  by (simp add: reg_get_def reg_register_def omap.get_put)

lemma reg_get_dispose: "reg_get (reg_dispose w reg) v = (if v = w then None else reg_get reg v)"
  by (induction reg) (auto simp: reg_get_def reg_dispose_def)

text \<open>A property of the runs that every operation of a controller keeps is kept by the registry.\<close>

locale kept_runs =
  fixes keeps :: "string \<Rightarrow> durable_run \<Rightarrow> bool"
  assumes keeps_op: "keeps w r \<Longrightarrow> board_ok x \<Longrightarrow> keeps w (snd (on_ctl x r))"
begin

abbreviation reg_ok :: "registry \<Rightarrow> bool" where
  "reg_ok \<equiv> reg_keeps keeps"

lemma reg_ok_get: "reg_ok reg \<Longrightarrow> reg_get reg w = Some r \<Longrightarrow> keeps w r"
  by (auto simp: reg_keeps_def reg_get_def list_all_iff dest: map_of_SomeD)

lemma reg_ok_register: "reg_ok reg \<Longrightarrow> keeps w r \<Longrightarrow> reg_ok (reg_register w r reg)"
  using set_omap_set[of w r reg] by (auto simp: reg_keeps_def reg_register_def list_all_iff distinct_omap_set)

lemma reg_ok_dispose: "reg_ok reg \<Longrightarrow> reg_ok (reg_dispose w reg)"
  by (auto simp: reg_keeps_def reg_dispose_def list_all_iff distinct_map_filter)

lemma report_and_tick_ok: "keeps w r \<Longrightarrow> keeps w (snd (report_and_tick i out err now r))"
  using keeps_op[of w r "OpReport i out err"] keeps_op[of w _ "OpTick now"]
  by (auto simp: report_and_tick_def split: prod.splits bool.splits)

lemma settle_run_ok: "reg_ok reg \<Longrightarrow> keeps w (snd res) \<Longrightarrow> reg_ok (snd (settle_run_in d w res reg))"
  by (cases res) (simp add: settle_run_in_def reg_ok_register reg_ok_dispose)

lemma reopen_all_ok: "keeps w r \<Longrightarrow> keeps w (snd (reopen_all is r))"
proof (induction "is" arbitrary: r)
  case Nil
  then show ?case by simp
next
  case (Cons i "is")
  obtain v c where vc: "reopenForRedispatch (dr_cfg r) (dr_ports r) i (dr_ctl r) = (v, c)" by fastforce
  then have "keeps w (r\<lparr>dr_ctl := c\<rparr>)"
    using keeps_op[OF Cons.prems, of "OpReopen i"] by (simp add: on_ctl_def apply_op_def)
  from Cons.IH[OF this] show ?case using \<open>keeps w (r\<lparr>dr_ctl := c\<rparr>)\<close> vc
    by (auto split: option.splits prod.splits)
qed

lemma reactToTaskSummary_ok: "reg_ok reg \<Longrightarrow> reg_ok (snd (reactToTaskSummary w i st err now reg))"
  by (auto simp: reactToTaskSummary_def reg_ok_get
      intro!: settle_run_ok report_and_tick_ok keeps_op split: option.split reaction.split)

lemma reportDelivered_ok: "reg_ok reg \<Longrightarrow> reg_ok (snd (reportDelivered w i now reg))"
  by (auto simp: reportDelivered_def reg_ok_get intro!: settle_run_ok report_and_tick_ok split: option.split)

lemma reportParked_ok: "reg_ok reg \<Longrightarrow> reg_ok (snd (reportParked w i reason now reg))"
  by (auto simp: reportParked_def reg_ok_get intro!: settle_run_ok report_and_tick_ok split: option.split)

lemma redispatchCandidates_ok:
  assumes "reg_ok reg"
  shows "reg_ok (snd (redispatchCandidates w is now reg))"
proof (cases "reg_get reg w")
  case None
  then show ?thesis using assms by (simp add: redispatchCandidates_def)
next
  case (Some r)
  obtain ids r1 where r1: "reopen_all is r = (ids, r1)" by fastforce
  then have k1: "keeps w r1" using reopen_all_ok[OF reg_ok_get[OF assms Some], of "is"] by simp
  obtain ok r2 where r2: "on_ctl (OpTick now) r1 = (ok, r2)" by fastforce
  then have "keeps w r2" using keeps_op[OF k1, of "OpTick now"] by simp
  then show ?thesis using assms Some r1 r2 k1
    by (simp add: redispatchCandidates_def reg_ok_register split: option.split)
qed

end

text \<open>Safety is kept of every run, the full invariant of each run that began with it.\<close>

definition run_safe :: "durable_run \<Rightarrow> bool" where
  "run_safe r = ctl_safe (dr_ctl r)"

definition run_inv :: "durable_run \<Rightarrow> bool" where
  "run_inv r = ctl_inv (dr_cfg r) (dr_ctl r)"

definition safe_and_inv :: "string set \<Rightarrow> string \<Rightarrow> durable_run \<Rightarrow> bool" where
  "safe_and_inv F w r \<longleftrightarrow> run_safe r \<and> (w \<in> F \<longrightarrow> run_inv r)"

lemma on_ctl_keeps:
  assumes "board_ok x"
  shows "run_safe r \<Longrightarrow> run_safe (snd (on_ctl x r))" "run_inv r \<Longrightarrow> run_inv (snd (on_ctl x r))"
proof -
  obtain ok c where a: "apply_op (dr_cfg r) (dr_ports r) x (dr_ctl r) = (ok, c)" by fastforce
  show "run_safe r \<Longrightarrow> run_safe (snd (on_ctl x r))"
    using apply_op_safe[OF a _ assms] a by (simp add: run_safe_def on_ctl_def)
  show "run_inv r \<Longrightarrow> run_inv (snd (on_ctl x r))"
    using apply_op_inv[OF a _ assms] a by (simp add: run_inv_def on_ctl_def)
qed

interpretation runs: kept_runs "safe_and_inv F" for F
  by unfold_locales (auto simp: safe_and_inv_def intro: on_ctl_keeps)

section \<open>Reactions and liveness\<close>

text \<open>A state that beats the heart of a lease is a live one; a live session is never reported failed.\<close>

lemma reaction_live:
  "(mapTaskSessionStateToDurableRunReaction st err = Heartbeat \<longrightarrow> hasLiveTaskSession (Some st))
   \<and> ((\<exists>out e. mapTaskSessionStateToDurableRunReaction st err = Report out e)
        \<longleftrightarrow> isTerminalFailureSessionState (Some st))"
  by (cases st) (simp_all add: hasLiveTaskSession_def isActiveWorkSessionState_def isBusySessionState_def
      isTerminalFailureSessionState_def)

lemma heartbeat_ids: "set (resolveDurableHeartbeatTaskIds sessions queued)
    = {i. \<exists>s. (i, s) \<in> set sessions \<and> hasLiveTaskSession (Some s)} \<union> set queued
   \<and> distinct (resolveDurableHeartbeatTaskIds sessions queued)"
proof -
  let ?f = "\<lambda>(i, s). if hasLiveTaskSession (Some s) then oset_add i else id"
  have "set (fold ?f ss acc) = {i. \<exists>s. (i, s) \<in> set ss \<and> hasLiveTaskSession (Some s)} \<union> set acc
      \<and> (distinct acc \<longrightarrow> distinct (fold ?f ss acc))" for ss acc
    by (induction ss arbitrary: acc) (auto simp: oset_add_def split: if_splits)
  from this[of sessions "[]"] show ?thesis
    by (simp add: resolveDurableHeartbeatTaskIds_def set_oset_fold distinct_oset_fold)
qed

end
