(* ===== verification/DurableRestart.thy ===== *)
theory DurableRestart
  imports DurableReplay
begin

text \<open>
  Restarts of a run: what a resume does to the orphaned leases; the log of a run against its jobs, card by
  card, also when the board is reconciled (which is not logged); and the ledger that several lives of a run
  leave behind, each cut at any append and followed by a resume over the board of its time.
\<close>

section \<open>Orphaned leases\<close>

lemma orphans_gone:
  assumes d: "distinct_jobs jobs"
    and j: "j \<in> set (applyDurableSchedulerActions jobs (orphan_actions cfg jobs) now backoff)"
  shows "jstate j \<noteq> Leased"
proof -
  let ?as = "orphan_actions cfg jobs"
  let ?new = "fold (act now backoff) ?as jobs"
  have ids: "map action_job ?as = map jobId (filter (\<lambda>j. jstate j = Leased) jobs)"
    by (simp add: orphan_actions_def)
  have j': "job_of ?new (jobId j) = Some j"
    using j d by (simp add: apply_is_fold_act job_of_Some_iff)
  show ?thesis
  proof (cases "jobId j \<in> action_job ` set ?as")
    case True
    then obtain a where a: "a \<in> set ?as" "action_job a = jobId j" by auto
    have "distinct (map action_job ?as)" unfolding ids using d by (rule distinct_filter_ids)
    then obtain j0 where "j = apply_to_job now backoff a j0"
      using job_of_fold_touched[OF d _ a(1)] j' a(2) by auto
    then show ?thesis using a(1) by (auto simp: orphan_actions_def)
  next
    case False
    then have "job_of jobs (jobId j) = Some j" using job_of_fold_untouched[OF d] j' by simp
    then have "j \<in> set jobs" using d by (simp add: job_of_Some_iff)
    moreover have "action_job ` set ?as = jobId ` {j \<in> set jobs. jstate j = Leased}"
      using arg_cong[OF ids, of set] by simp
    ultimately show ?thesis using False by blast
  qed
qed

lemma orphans_keep_succeeded:
  assumes d: "distinct_jobs jobs" and s: "job_in Succeeded (job_of jobs i)"
  shows "job_in Succeeded (job_of (applyDurableSchedulerActions jobs (orphan_actions cfg jobs) now backoff) i)"
proof -
  have "jobId ` {j \<in> set jobs. jstate j = Succeeded} \<inter> jobId ` {j \<in> set jobs. jstate j = Leased} = {}"
    using d by (rule disjoint_filter_ids) simp
  moreover have "i \<in> jobId ` {j \<in> set jobs. jstate j = Succeeded}"
    using s d by (auto simp: job_in_def job_of_Some_iff split: option.splits)
  ultimately have "i \<notin> action_job ` set (orphan_actions cfg jobs)"
    by (auto simp: orphan_actions_def image_image)
  then show ?thesis using s d by (simp add: apply_is_fold_act job_of_fold_untouched)
qed

lemma reclaimed_jobs:
  assumes "reclaimOrphanedLeases cfg p now (new_controller js) = (Some u, c)"
  shows "c_jobs c = applyDurableSchedulerActions js (orphan_actions cfg js) now (cfg_reclaimBackoffMs cfg)"
  using assms commit_done(1)[of cfg p now "orphan_actions cfg js" "new_controller js"]
  by (simp add: reclaimOrphanedLeases_def new_controller_def)

lemma reclaimed_safe:
  assumes "distinct_jobs js" "reclaimOrphanedLeases cfg p now (new_controller js) = (Some u, c)"
  shows "ctl_safe c"
proof -
  have "dispatch_logged {} (trace c)"
    using assms(2) commit_dispatch_logged[of "new_controller js" cfg p now "orphan_actions cfg js"]
    by (auto simp: reclaimOrphanedLeases_def new_controller_def)
  moreover have "distinct_jobs (c_jobs c)"
    using assms(1) unfolding reclaimed_jobs[OF assms(2)] by (simp add: apply_actions_ids)
  moreover have "\<forall>j \<in> set (c_jobs c). jstate j \<noteq> Leased"
    using orphans_gone[OF assms(1)] unfolding reclaimed_jobs[OF assms(2)] by blast
  ultimately show ?thesis by (simp add: ctl_safe_iff)
qed

section \<open>Replay, card by card\<close>

fun about :: "log_entry \<Rightarrow> string" where
  "about (Scheduled now a k) = action_job a"
| "about (Completed i out) = i"

definition known :: "log_entry list \<Rightarrow> string \<Rightarrow> bool" where
  "known es i \<longleftrightarrow> i \<in> about ` set es"

fun job_entry :: "run_config \<Rightarrow> log_entry \<Rightarrow> job \<Rightarrow> job" where
  "job_entry cfg (Scheduled now a k) j =
     (if jobId j = action_job a then apply_to_job now (cfg_reclaimBackoffMs cfg) a j else j)"
| "job_entry cfg (Completed i out) j = (if jobId j = i then mark_job out (cfg_maxAttempts cfg) j else j)"

definition job_replay :: "run_config \<Rightarrow> log_entry list \<Rightarrow> job \<Rightarrow> job" where
  "job_replay cfg es j = fold (job_entry cfg) es j"

lemma job_replay_simps [simp]:
  "job_replay cfg [] j = j" "job_replay cfg (e # es) j = job_replay cfg es (job_entry cfg e j)"
  "job_replay cfg (es @ fs) j = job_replay cfg fs (job_replay cfg es j)"
  by (simp_all add: job_replay_def)

lemma job_replay_none [simp]: "job_replay cfg [] = (\<lambda>j. j)"
  by (rule ext) simp

lemma job_replay_one [simp]: "job_replay cfg [e] = job_entry cfg e"
  by (rule ext) simp

lemma job_entry_id [simp]: "jobId (job_entry cfg e j) = jobId j"
  by (cases e) simp_all

lemma job_replay_id [simp]: "jobId (job_replay cfg es j) = jobId j"
  by (induction es arbitrary: j) simp_all

lemma job_entry_other: "about e \<noteq> jobId j \<Longrightarrow> job_entry cfg e j = j"
  by (cases e) auto

lemma job_replay_unknown: "\<not> known es (jobId j) \<Longrightarrow> job_replay cfg es j = j"
  by (induction es) (auto simp: known_def job_entry_other)

lemma known_append [simp]: "known (es @ fs) i \<longleftrightarrow> known es i \<or> known fs i"
  by (auto simp: known_def)

lemma replay_is_map:
  "distinct_jobs js \<Longrightarrow> replayDurableJobs js es (cfg_reclaimBackoffMs cfg) (cfg_maxAttempts cfg) = map (job_replay cfg es) js"
proof (induction es arbitrary: js)
  case (Cons e es)
  have "replay_entry (cfg_reclaimBackoffMs cfg) (cfg_maxAttempts cfg) e js = map (job_entry cfg e) js"
    using Cons.prems
    by (cases e) (auto simp: replay_entry_def apply_is_fold_act act_def update_job_def markDurableJob_def)
  then have "replayDurableJobs js (e # es) (cfg_reclaimBackoffMs cfg) (cfg_maxAttempts cfg)
      = replayDurableJobs (map (job_entry cfg e) js) es (cfg_reclaimBackoffMs cfg) (cfg_maxAttempts cfg)"
    by (simp add: replayDurableJobs_def)
  then show ?case using Cons.IH[of "map (job_entry cfg e) js"] Cons.prems by (simp add: comp_def)
qed simp

lemma act_is_map: "act now (cfg_reclaimBackoffMs cfg) a js = map (job_entry cfg (Scheduled now a k)) js"
  by (simp add: act_def update_job_def)

lemma replay_scheduled_apply:
  assumes "distinct_jobs js"
  shows "applyDurableSchedulerActions js as now (cfg_reclaimBackoffMs cfg) = map (job_replay cfg (scheduled_entries p now js0 as)) js"
proof -
  have "fold (act now (cfg_reclaimBackoffMs cfg)) as js = map (job_replay cfg (map (\<lambda>a. Scheduled now a (k a)) as)) js" for k
    using assms
  proof (induction as arbitrary: js)
    case (Cons a as)
    then show ?case using Cons.IH[of "map (job_entry cfg (Scheduled now a (k a))) js"] act_is_map[of now cfg a js "k a"]
      by (simp add: comp_def del: job_entry.simps)
  qed simp
  then show ?thesis using assms by (simp add: apply_is_fold_act scheduled_entries_def)
qed

lemma mark_apply: "markDurableJob js i out (cfg_maxAttempts cfg) = map (job_replay cfg [Completed i out]) js"
  by (simp add: markDurableJob_def)

lemma forget_job_entry: "forget_expiry (job_entry cfg e (forget_expiry j)) = forget_expiry (job_entry cfg e j)"
  using forget_apply forget_mark by (cases e) simp_all

lemma forget_job_replay: "forget_expiry j = forget_expiry k \<Longrightarrow> forget_expiry (job_replay cfg es j) = forget_expiry (job_replay cfg es k)"
proof (induction es arbitrary: j k)
  case (Cons e es)
  have "forget_expiry (job_entry cfg e j) = forget_expiry (job_entry cfg e (forget_expiry j))"
    by (rule forget_job_entry[symmetric])
  also have "... = forget_expiry (job_entry cfg e (forget_expiry k))"
    by (rule arg_cong[OF Cons.prems, of "\<lambda>x. forget_expiry (job_entry cfg e x)"])
  also have "... = forget_expiry (job_entry cfg e k)" by (rule forget_job_entry)
  finally have "forget_expiry (job_entry cfg e j) = forget_expiry (job_entry cfg e k)" .
  from Cons.IH[OF this] show ?case by (simp only: job_replay_simps)
qed simp

section \<open>A life of a run\<close>

text \<open>A life: the operations on a controller, with the cards that joined it (those it starts from and those
  absorbed from the board, as they were then), and the cards a reconciliation gave a fresh start: failed ones that
  were reopened, and absorbed ones that the ledger already knew.\<close>

record life =
  lf_ctl :: "bool \<times> controller"
  lf_born :: "job list"
  lf_reopened :: "string set"
  lf_readded :: "string set"

definition absorbed_by :: "ctl_op \<Rightarrow> controller \<Rightarrow> job list" where
  "absorbed_by x c = (case x of
       OpReconcile board w \<Rightarrow> filter (\<lambda>bj. job_of (c_jobs c) (jobId bj) = None) board | _ \<Rightarrow> [])"

definition reopened_by :: "ctl_op \<Rightarrow> controller \<Rightarrow> string set" where
  "reopened_by x c = (case x of
       OpReconcile board w \<Rightarrow> set (reopenedJobIds (reconcileDurableJobsWithBoard (c_jobs c) board w)) | _ \<Rightarrow> {})"

definition life_log :: "log_entry list \<Rightarrow> controller \<Rightarrow> log_entry list" where
  "life_log L c = L @ logged_entries (trace c)"

definition life_step :: "run_config \<Rightarrow> run_ports \<Rightarrow> log_entry list \<Rightarrow> ctl_op \<Rightarrow> life \<Rightarrow> life" where
  "life_step cfg p L x l =
     (if fst (lf_ctl l)
      then (let c = snd (lf_ctl l); new = absorbed_by x c in
            \<lparr>lf_ctl = apply_op cfg p x c, lf_born = lf_born l @ new, lf_reopened = lf_reopened l \<union> reopened_by x c,
             lf_readded = lf_readded l \<union> {i \<in> jobId ` set new. known (life_log L c) i}\<rparr>)
      else l)"

definition life_of :: "run_config \<Rightarrow> run_ports \<Rightarrow> log_entry list \<Rightarrow> job list \<Rightarrow> ctl_op list \<Rightarrow> life" where
  "life_of cfg p L jobs xs = fold (life_step cfg p L) xs
     \<lparr>lf_ctl = (True, new_controller jobs), lf_born = jobs, lf_reopened = {}, lf_readded = {}\<rparr>"

lemma life_ctl: "lf_ctl (life_of cfg p L jobs xs) = fold (live_step cfg p) xs (True, new_controller jobs)"
proof -
  have "lf_ctl (life_step cfg p L x l) = live_step cfg p x (lf_ctl l)" for x l
    by (simp add: life_step_def live_step_def Let_def)
  then have "lf_ctl (fold (life_step cfg p L) xs l) = fold (live_step cfg p) xs (lf_ctl l)" for l
    by (induction xs arbitrary: l) simp_all
  then show ?thesis by (simp add: life_of_def)
qed

lemma not_reconcile [simp]:
  "\<not> (\<exists>board w. x = OpReconcile board w) \<Longrightarrow> absorbed_by x c = []"
  "\<not> (\<exists>board w. x = OpReconcile board w) \<Longrightarrow> reopened_by x c = {}"
  by (cases x; simp add: absorbed_by_def reopened_by_def)+

section \<open>The log against the jobs\<close>

definition agrees :: "string set \<Rightarrow> job \<Rightarrow> job \<Rightarrow> bool" where
  "agrees R k j \<longleftrightarrow> jobId k = jobId j \<and> (jobId j \<notin> R \<longrightarrow> forget_expiry k = forget_expiry j)"

definition life_exact :: "run_config \<Rightarrow> life \<Rightarrow> bool" where
  "life_exact cfg l \<longleftrightarrow>
     (let c = snd (lf_ctl l); es = logged_entries (trace c) in
      fst (lf_ctl l) \<longrightarrow> distinct_jobs (c_jobs c) \<and> (\<forall>i. known es i \<longrightarrow> i \<in> jobId ` set (c_jobs c))
        \<and> list_all2 (agrees (lf_reopened l)) (map (job_replay cfg es) (lf_born l)) (c_jobs c))"

lemma agrees_replay: "agrees R k j \<Longrightarrow> agrees R (job_replay cfg E k) (job_replay cfg E j)"
  by (auto simp: agrees_def intro: forget_job_replay)

lemma agrees_more: "agrees R k j \<Longrightarrow> R \<subseteq> R' \<Longrightarrow> agrees R' k j"
  by (auto simp: agrees_def)

lemma exact_logged:
  assumes "list_all2 (agrees R) (map (job_replay cfg es) born) js"
  shows "list_all2 (agrees R) (map (job_replay cfg (es @ E)) born) (map (job_replay cfg E) js)"
  using assms unfolding list_all2_map1 list_all2_map2
  by (rule list_all2_mono) (simp only: job_replay_simps agrees_replay)

lemma agrees_same: "agrees R k j \<Longrightarrow> forget_expiry j = forget_expiry j' \<Longrightarrow> agrees R k j'"
proof -
  assume a: "agrees R k j" and f: "forget_expiry j = forget_expiry j'"
  from f have "jobId j = jobId j'" by (metis forget_expiry_simps(1))
  with a f show "agrees R k j'" by (simp add: agrees_def)
qed

lemma exact_same: "list_all2 (agrees R) ks js \<Longrightarrow> same_jobs js js' \<Longrightarrow> list_all2 (agrees R) ks js'"
  unfolding same_jobs_def list_all2_conv_all_nth
  by (metis agrees_same length_map nth_map)

lemma legal_run_known:
  assumes "legal_run b now backoff js as js'" "distinct_jobs js" "a \<in> set as"
  shows "action_job a \<in> jobId ` set js"
  using assms
proof (induction rule: legal_run.induct)
  case (lr_cons jobs a' as jobs')
  have d: "distinct_jobs (act now backoff a' jobs)" using lr_cons.prems(1) by simp
  have ids: "jobId ` set (act now backoff a' jobs) = jobId ` set jobs" by (metis act_ids list.set_map)
  show ?case
  proof (cases "a = a'")
    case True
    obtain j where "job_of jobs (action_job a') = Some j" using legal_job[OF lr_cons.hyps(1)] by blast
    then have "j \<in> set jobs" "jobId j = action_job a'" using lr_cons.prems(1) by (simp_all add: job_of_Some_iff)
    then show ?thesis using True by (metis imageI)
  next
    case False
    then show ?thesis using lr_cons.IH[OF d] lr_cons.prems(2) ids by simp
  qed
qed simp

lemma transition_known:
  assumes "transition cfg p x c ok c1" "distinct_jobs (c_jobs c)" "\<not> (\<exists>board w. x = OpReconcile board w)" "ok"
  shows "\<exists>E. logged_entries (trace c1) = logged_entries (trace c) @ E \<and> (\<forall>i. known E i \<longrightarrow> i \<in> jobId ` set (c_jobs c))
    \<and> same_jobs (map (job_replay cfg E) (c_jobs c)) (c_jobs c1)"
  using assms(1)
proof cases
  case tr_idle
  then show ?thesis by (intro exI[of _ "[]"]) (simp add: known_def)
next
  case (tr_commit now as)
  let ?E = "scheduled_entries p now (c_jobs c) as"
  have "c_jobs c1 = map (job_replay cfg ?E) (c_jobs c)"
    using legal_run_fold[OF tr_commit(2)] replay_scheduled_apply[OF assms(2), of as now cfg p "c_jobs c"] assms(2)
    by (simp add: apply_is_fold_act)
  moreover have "known ?E i \<longrightarrow> i \<in> jobId ` set (c_jobs c)" for i
    using legal_run_known[OF tr_commit(2) assms(2)] by (auto simp: known_def scheduled_entries_def)
  ultimately show ?thesis using tr_commit by (intro exI[of _ ?E]) simp
next
  case (tr_mark i out)
  then show ?thesis using assms(2) mark_apply[of "c_jobs c" i out cfg]
    by (intro exI[of _ "[Completed i out]"]) (auto simp: known_def reported_def job_of_Some_iff)
next
  case (tr_renew i e)
  then show ?thesis using same_jobs_renew[OF same_jobs_refl, of "c_jobs c" i e]
    by (intro exI[of _ "[]"]) (simp add: known_def)
qed (use assms in auto)

lemma reconcile_exact:
  assumes "list_all2 (agrees R) (map (job_replay cfg es) born) js" "distinct_jobs js"
    and "\<forall>i. known es i \<longrightarrow> i \<in> jobId ` set js"
  shows "list_all2 (agrees (R \<union> set (reopenedJobIds (reconcileDurableJobsWithBoard js board w))))
     (map (job_replay cfg es) (born @ filter (\<lambda>bj. job_of js (jobId bj) = None) board))
     (rec_jobs (reconcileDurableJobsWithBoard js board w))"
proof -
  let ?re = "should_reopen (job_of board) w"
  let ?R = "R \<union> jobId ` set (filter ?re js)"
  have old: "list_all2 (agrees ?R) (map (job_replay cfg es) born)
      (map (\<lambda>j. if ?re j then reopen_job (job_of board) j else j) js)"
    using assms(1) unfolding list_all2_map2
  proof (rule list.rel_mono_strong)
    fix k j assume "j \<in> set js" "agrees R k j"
    then show "agrees ?R k (if ?re j then reopen_job (job_of board) j else j)" by (auto simp: agrees_def)
  qed
  have new: "map (job_replay cfg es) xs = xs" if "set xs \<subseteq> {bj \<in> set board. job_of js (jobId bj) = None}" for xs
  proof (rule map_idI)
    fix k assume "k \<in> set xs"
    then have "jobId k \<notin> jobId ` set js" using that assms(2) by (auto simp: job_of_None_iff)
    then show "job_replay cfg es k = k" using assms(3) job_replay_unknown by blast
  qed
  have "list_all2 (agrees ?R) xs xs" for xs by (rule list_all2_refl) (simp add: agrees_def)
  then show ?thesis using old by (auto simp: reconcileDurableJobsWithBoard_def Let_def new intro: list_all2_appendI)
qed

lemma life_exact_step:
  assumes "life_exact cfg l" "board_ok x"
  shows "life_exact cfg (life_step cfg p L x l)"
proof (cases "fst (lf_ctl l)")
  case True
  then obtain c where c: "lf_ctl l = (True, c)" by (cases "lf_ctl l") auto
  let ?es = "logged_entries (trace c)"
  have d: "distinct_jobs (c_jobs c)" and kn: "\<forall>i. known ?es i \<longrightarrow> i \<in> jobId ` set (c_jobs c)"
    and ex: "list_all2 (agrees (lf_reopened l)) (map (job_replay cfg ?es) (lf_born l)) (c_jobs c)"
    using assms(1) c by (simp_all add: life_exact_def Let_def)
  obtain ok c1 where a: "apply_op cfg p x c = (ok, c1)" by fastforce
  note t = apply_op_transition[OF a d]
  have l': "lf_ctl (life_step cfg p L x l) = (ok, c1)"
    "lf_born (life_step cfg p L x l) = lf_born l @ absorbed_by x c"
    "lf_reopened (life_step cfg p L x l) = lf_reopened l \<union> reopened_by x c"
    using c a by (simp_all add: life_step_def Let_def)
  show ?thesis
  proof (cases "\<exists>board w. x = OpReconcile board w")
    case True
    then obtain board w where x: "x = OpReconcile board w" by blast
    then have c1: "ok" "c_jobs c1 = rec_jobs (reconcileDurableJobsWithBoard (c_jobs c) board w)" "trace c1 = trace c"
      using a by (auto simp: apply_op_def reconcileWithBoardGraph_def Let_def)
    have db: "distinct_jobs board" using assms(2) x by (simp add: fresh_graph_def)
    have "jobId ` set (c_jobs c) \<subseteq> jobId ` set (c_jobs c1)"
      using arg_cong[OF reconcile_ids, of set "c_jobs c" board w] c1(2) by auto
    then show ?thesis using reconcile_exact[OF ex d kn, of board w] reconcile_distinct[OF d db, of w] kn c1
      unfolding life_exact_def l' by (auto simp: x absorbed_by_def reopened_by_def Let_def)
  next
    case False
    show ?thesis
    proof (cases ok)
      case True
      then obtain E where E: "logged_entries (trace c1) = ?es @ E" "\<forall>i. known E i \<longrightarrow> i \<in> jobId ` set (c_jobs c)"
        "same_jobs (map (job_replay cfg E) (c_jobs c)) (c_jobs c1)"
        using transition_known[OF t d False] by blast
      have "map jobId (c_jobs c1) = map jobId (c_jobs c)" using same_jobs_ids[OF E(3)] by (simp add: comp_def)
      then have "distinct_jobs (c_jobs c1)" "jobId ` set (c_jobs c1) = jobId ` set (c_jobs c)"
        using d by (simp, metis list.set_map)
      then show ?thesis using exact_same[OF exact_logged[OF ex] E(3)] E(1,2) kn False True
        unfolding life_exact_def l' by simp
    next
      case False
      then show ?thesis unfolding life_exact_def l' by simp
    qed
  qed
next
  case False
  then show ?thesis using assms(1) by (simp add: life_step_def)
qed

interpretation lives: invariant_system "life_step cfg p L" "\<lambda>x l. board_ok x" "life_exact cfg" for cfg p L
  by unfold_locales (rule life_exact_step)

lemma life_of_exact:
  "distinct_jobs jobs \<Longrightarrow> list_all board_ok xs \<Longrightarrow> life_exact cfg (life_of cfg p L jobs xs)"
  unfolding life_of_def
  by (rule lives.fold_inv) (auto simp: list_all_iff life_exact_def known_def new_controller_def agrees_def intro: list_all2_refl)

lemma life_logged:
  assumes "list_all logged_op xs"
  shows "lf_born (life_of cfg p L jobs xs) = jobs" "lf_reopened (life_of cfg p L jobs xs) = {}"
    "lf_readded (life_of cfg p L jobs xs) = {}"
proof -
  have step: "lf_born (life_step cfg p L x l) = lf_born l \<and> lf_reopened (life_step cfg p L x l) = lf_reopened l
      \<and> lf_readded (life_step cfg p L x l) = lf_readded l" if "logged_op x" for x l
  proof -
    have "\<not> (\<exists>board w. x = OpReconcile board w)" using that by auto
    then show ?thesis by (simp add: life_step_def Let_def)
  qed
  have "lf_born (fold (life_step cfg p L) xs l) = lf_born l \<and> lf_reopened (fold (life_step cfg p L) xs l) = lf_reopened l
      \<and> lf_readded (fold (life_step cfg p L) xs l) = lf_readded l" for l
    using assms by (induction xs arbitrary: l) (simp_all add: step)
  then show "lf_born (life_of cfg p L jobs xs) = jobs" "lf_reopened (life_of cfg p L jobs xs) = {}"
    "lf_readded (life_of cfg p L jobs xs) = {}" by (simp_all add: life_of_def)
qed

lemma agrees_all: "list_all2 (agrees {}) ks js \<Longrightarrow> map forget_expiry ks = map forget_expiry js"
  by (induction rule: list_all2_induct) (simp_all add: agrees_def)

lemma agrees_ids: "list_all2 (agrees R) ks js \<Longrightarrow> map jobId ks = map jobId js"
  by (induction rule: list_all2_induct) (simp_all add: agrees_def)

lemma life_replays:
  assumes "distinct_jobs jobs" "list_all board_ok xs" "life_of cfg p L jobs xs = l" "lf_ctl l = (True, c)"
  shows "list_all2 (agrees (lf_reopened l))
    (replayDurableJobs (lf_born l) (logged_entries (trace c)) (cfg_reclaimBackoffMs cfg) (cfg_maxAttempts cfg)) (c_jobs c)"
proof -
  have ex: "distinct_jobs (c_jobs c)"
    "list_all2 (agrees (lf_reopened l)) (map (job_replay cfg (logged_entries (trace c))) (lf_born l)) (c_jobs c)"
    using life_of_exact[OF assms(1,2), of cfg p L] assms(3,4) by (simp_all add: life_exact_def Let_def)
  then have "distinct_jobs (lf_born l)" using agrees_ids[OF ex(2)] by (simp add: comp_def)
  then show ?thesis using ex(2) by (simp add: replay_is_map)
qed

end
