(* ===== verification/DurableLives.thy ===== *)
theory DurableLives
  imports DurableRestart
begin

text \<open>
  The ledger that several lives of a run leave behind. Each life starts from a fresh board graph with the ledger
  so far folded over it, applies operations (board reconciliations among them), and may stop at any append. Card by
  card, what the ledger says stays true of every later board, except for the cards that a reconciliation, which is
  not logged, gave a fresh start.
\<close>

section \<open>Jobs up to what a log decides\<close>

definition core :: "job \<Rightarrow> job_state \<times> bool \<times> nat \<times> failed_reason option" where
  "core j = (jstate j, lease j = None, attempts j, failedReason j)"

definition fresh_job :: "job \<Rightarrow> bool" where
  "fresh_job j \<longleftrightarrow> jstate j \<noteq> Failed \<and> jstate j \<noteq> Leased \<and> lease j = None \<and> attempts j = 0 \<and> failedReason j = None"

lemma fresh_graph_jobs: "fresh_graph board \<longleftrightarrow> distinct_jobs board \<and> (\<forall>k \<in> set board. fresh_job k)"
  by (simp add: fresh_graph_def fresh_job_def list_all_iff)

lemma core_entry:
  assumes "core j = core k" "jobId j = jobId k"
  shows "core (job_entry cfg e j) = core (job_entry cfg e k)"
proof (cases e)
  case (Scheduled now a key)
  then show ?thesis using assms by (cases a) (auto simp: core_def)
next
  case (Completed i out)
  then show ?thesis using assms by (auto simp: core_def mark_job_def split: outcome.splits)
qed

lemma core_renew: "core (renew_job e j) = core j"
  by (simp add: core_def)

lemma core_wf: "core j = core k \<Longrightarrow> job_wf b j = job_wf b k"
  by (simp add: core_def job_wf_def)

lemma core_fresh: "core j = core k \<Longrightarrow> fresh_job j = fresh_job k"
  by (auto simp: core_def fresh_job_def)

lemma fresh_wf: "fresh_job j \<Longrightarrow> 1 \<le> b \<Longrightarrow> job_wf b j"
  by (auto simp: fresh_job_def job_wf_def)

text \<open>The entries a controller logs about a job fit it.\<close>

fun fits :: "run_config \<Rightarrow> log_entry \<Rightarrow> job \<Rightarrow> bool" where
  "fits cfg (Scheduled now a k) j = (\<exists>jobs. legal (run_budget cfg) jobs a \<and> job_of jobs (action_job a) = Some j)"
| "fits cfg (Completed i out) j = (out = OutSucceeded \<or> jstate j \<in> {Leased, Failed})"

lemma fits_wf: "fits cfg e j \<Longrightarrow> job_wf (run_budget cfg) j \<Longrightarrow> job_wf (run_budget cfg) (job_entry cfg e j)"
  by (cases e) (auto intro: job_wf_act job_wf_mark)

lemma fits_succeeded: "fits cfg e j \<Longrightarrow> jstate j = Succeeded \<Longrightarrow> e = Completed (about e) OutSucceeded"
  using legal_job by (cases e) fastforce+

lemma fits_fresh:
  assumes "fits cfg e j" "fresh_job j" "fresh_job k" "jobId j = about e" "jobId k = about e"
  shows "core (job_entry cfg e j) = core (job_entry cfg e k)"
proof (cases e)
  case (Scheduled now a key)
  then obtain jobs where "legal (run_budget cfg) jobs a" "job_of jobs (action_job a) = Some j"
    using assms(1) by auto
  then show ?thesis using assms(2-5) unfolding Scheduled by cases (auto simp: core_def fresh_job_def)
next
  case (Completed i out)
  then show ?thesis using assms by (auto simp: core_def fresh_job_def mark_job_def)
qed

inductive fitting :: "run_config \<Rightarrow> job list \<Rightarrow> log_entry list \<Rightarrow> job list \<Rightarrow> bool" for cfg where
  ft_nil: "fitting cfg js [] js"
| ft_cons: "job_of js (about e) = Some j \<Longrightarrow> fits cfg e j \<Longrightarrow> fitting cfg (map (job_entry cfg e) js) E js'
    \<Longrightarrow> fitting cfg js (e # E) js'"

lemma fitting_take: "fitting cfg js E js' \<Longrightarrow> \<exists>ks. fitting cfg js (take n E) ks"
proof (induction arbitrary: n rule: fitting.induct)
  case (ft_cons js e j E js')
  show ?case
  proof (cases n)
    case (Suc m)
    obtain ks where "fitting cfg (map (job_entry cfg e) js) (take m E) ks" using ft_cons.IH by blast
    then show ?thesis using Suc ft_cons.hyps(1,2) by (auto intro: fitting.ft_cons)
  qed (auto intro: fitting.intros)
qed (auto intro: fitting.intros)

lemma legal_run_fitting:
  "legal_run (run_budget cfg) now (cfg_reclaimBackoffMs cfg) js as js' \<Longrightarrow> distinct_jobs js
    \<Longrightarrow> fitting cfg js (map (\<lambda>a. Scheduled now a (k a)) as) js'"
proof (induction rule: legal_run.induct)
  case (lr_cons jobs a as jobs')
  obtain j where "job_of jobs (action_job a) = Some j" using legal_job[OF lr_cons.hyps(1)] by blast
  moreover have "fitting cfg (map (job_entry cfg (Scheduled now a (k a))) jobs) (map (\<lambda>a. Scheduled now a (k a)) as) jobs'"
    using lr_cons.IH lr_cons.prems by (simp only: act_is_map[symmetric] act_ids)
  ultimately show ?case using lr_cons.hyps(1)
    by (auto intro!: ft_cons[of jobs "Scheduled now a (k a)" j] simp del: job_entry.simps)
qed (auto intro: fitting.intros)

section \<open>A ledger and the jobs it speaks of\<close>

text \<open>What the ledger says of one card does not depend on the board it is replayed over, and is well formed.\<close>

definition steady :: "run_config \<Rightarrow> log_entry list \<Rightarrow> string \<Rightarrow> bool" where
  "steady cfg es i \<longleftrightarrow> (\<forall>k. fresh_job k \<and> jobId k = i \<longrightarrow> job_wf (run_budget cfg) (job_replay cfg es k)
     \<and> (known es i \<longrightarrow> (\<forall>k'. fresh_job k' \<and> jobId k' = i \<longrightarrow> core (job_replay cfg es k') = core (job_replay cfg es k))))"

definition settled :: "string set \<Rightarrow> log_entry list \<Rightarrow> bool" where
  "settled A es \<longleftrightarrow> (\<forall>pre i post. es = pre @ Completed i OutSucceeded # post \<and> i \<notin> A
     \<longrightarrow> (\<forall>e \<in> set post. about e = i \<longrightarrow> e = Completed i OutSucceeded))"

definition ledger_ok :: "run_config \<Rightarrow> string set \<Rightarrow> string set \<Rightarrow> log_entry list \<Rightarrow> bool" where
  "ledger_ok cfg A R es \<longleftrightarrow> settled A es \<and> (\<forall>i n. i \<notin> A \<union> R \<longrightarrow> steady cfg (take n es) i)"

definition job_tracked :: "run_config \<Rightarrow> string set \<Rightarrow> string set \<Rightarrow> log_entry list \<Rightarrow> job \<Rightarrow> bool" where
  "job_tracked cfg A R es j \<longleftrightarrow>
     (jobId j \<notin> A \<and> Completed (jobId j) OutSucceeded \<in> set es \<longrightarrow> jstate j = Succeeded) \<and>
     (jobId j \<notin> A \<union> R \<longrightarrow> (if known es (jobId j)
        then \<forall>k. fresh_job k \<and> jobId k = jobId j \<longrightarrow> core (job_replay cfg es k) = core j else fresh_job j))"

definition tracked :: "run_config \<Rightarrow> string set \<Rightarrow> string set \<Rightarrow> log_entry list \<Rightarrow> job list \<Rightarrow> bool" where
  "tracked cfg A R es js \<longleftrightarrow> distinct_jobs js \<and> ledger_ok cfg A R es \<and> (\<forall>j \<in> set js. job_tracked cfg A R es j)"

lemma ledger_ok_more: "ledger_ok cfg A R es \<Longrightarrow> A \<subseteq> A' \<Longrightarrow> R \<subseteq> R' \<Longrightarrow> ledger_ok cfg A' R' es"
  unfolding ledger_ok_def settled_def by blast

lemma settled_take: "settled A es \<Longrightarrow> settled A (take n es)"
proof -
  assume "settled A es"
  moreover have "es = take n es @ drop n es" by simp
  ultimately show ?thesis unfolding settled_def by (metis UnCI append.assoc append_Cons set_append)
qed

lemma ledger_ok_take: "ledger_ok cfg A R es \<Longrightarrow> ledger_ok cfg A R (take n es)"
  by (simp add: ledger_ok_def settled_take)

lemma fresh_exists: "\<exists>k. fresh_job k \<and> jobId k = i"
  by (intro exI[of _ "\<lparr>jobId = i, jstate = Ready, dependsOn = [], lease = None, attempts = 0,
      nextEligibleAt = Fin 0, failedReason = None\<rparr>"]) (simp add: fresh_job_def)

lemma steady_all: "ledger_ok cfg A R es \<Longrightarrow> i \<notin> A \<union> R \<Longrightarrow> steady cfg es i"
  unfolding ledger_ok_def by (metis order_refl take_all)

lemma tracked_wf:
  assumes "ledger_ok cfg A R es" "job_tracked cfg A R es j" "jobId j \<notin> A \<union> R"
  shows "job_wf (run_budget cfg) j"
proof (cases "known es (jobId j)")
  case True
  obtain k where k: "fresh_job k" "jobId k = jobId j" using fresh_exists by blast
  then have "core (job_replay cfg es k) = core j" using assms(2,3) True by (simp add: job_tracked_def)
  moreover have "job_wf (run_budget cfg) (job_replay cfg es k)"
    using steady_all[OF assms(1,3)] k by (simp add: steady_def)
  ultimately show ?thesis using core_wf by blast
next
  case False
  then show ?thesis using assms(2,3) fresh_wf attempt_budget_pos by (auto simp: job_tracked_def)
qed

text \<open>One more entry that fits keeps all of this.\<close>

lemma settled_snoc:
  assumes "settled A es" "Completed (about e) OutSucceeded \<in> set es \<Longrightarrow> about e \<notin> A \<Longrightarrow> e = Completed (about e) OutSucceeded"
  shows "settled A (es @ [e])"
  unfolding settled_def
proof (intro allI impI ballI)
  fix pre i post x
  assume h: "es @ [e] = pre @ Completed i OutSucceeded # post \<and> i \<notin> A" "x \<in> set post" "about x = i"
  then obtain post' where p: "post = post' @ [e]" "es = pre @ Completed i OutSucceeded # post'"
    by (cases post rule: rev_cases) auto
  show "x = Completed i OutSucceeded"
  proof (cases "x = e")
    case True
    then show ?thesis using assms(2) h p(2) by auto
  next
    case False
    then have "x \<in> set post'" using h(2) p(1) by simp
    then show ?thesis using assms(1) h(1,3) p(2) unfolding settled_def by blast
  qed
qed

lemma replay_snoc_other: "about e \<noteq> i \<Longrightarrow> jobId k = i \<Longrightarrow> job_replay cfg (es @ [e]) k = job_replay cfg es k"
  by (simp add: job_entry_other)

lemma known_snoc [simp]: "known [e] i \<longleftrightarrow> about e = i"
  by (auto simp: known_def)

lemma replay_snoc_core:
  assumes "job_tracked cfg A R es j" "fits cfg e j" "about e = jobId j" "jobId j \<notin> A \<union> R" "fresh_job k" "jobId k = jobId j"
  shows "core (job_replay cfg (es @ [e]) k) = core (job_entry cfg e j)"
proof (cases "known es (jobId j)")
  case True
  then have "core (job_replay cfg es k) = core j" using assms by (simp add: job_tracked_def)
  then show ?thesis using core_entry[of "job_replay cfg es k" j cfg e] assms(6) by simp
next
  case False
  then have "fresh_job j" "job_replay cfg es k = k" using assms job_replay_unknown by (auto simp: job_tracked_def)
  then show ?thesis using fits_fresh[OF assms(2) _ assms(5)] assms(3,6) by simp
qed

lemma steady_snoc:
  assumes "ledger_ok cfg A R es" "job_tracked cfg A R es j" "fits cfg e j" "about e = jobId j" "i \<notin> A \<union> R"
  shows "steady cfg (es @ [e]) i"
proof (cases "i = jobId j")
  case True
  have nin: "jobId j \<notin> A \<union> R" using assms(5) True by simp
  have wf: "job_wf (run_budget cfg) (job_entry cfg e j)"
    by (rule fits_wf[OF assms(3) tracked_wf[OF assms(1,2) nin]])
  have eq: "core (job_replay cfg (es @ [e]) k) = core (job_entry cfg e j)" if "fresh_job k" "jobId k = i" for k
    by (rule replay_snoc_core[OF assms(2-4) nin that(1) trans[OF that(2) True]])
  show ?thesis unfolding steady_def
  proof (intro allI impI conjI)
    fix k assume k: "fresh_job k \<and> jobId k = i"
    show "job_wf (run_budget cfg) (job_replay cfg (es @ [e]) k)"
      using core_wf[OF eq] wf k by blast
    fix k' assume "fresh_job k' \<and> jobId k' = i"
    then show "core (job_replay cfg (es @ [e]) k') = core (job_replay cfg (es @ [e]) k)"
      using eq k by (simp only:)
  qed
next
  case False
  then have ne: "about e \<noteq> i" using assms(4) by simp
  then have eq: "job_replay cfg (es @ [e]) k = job_replay cfg es k" if "jobId k = i" for k
    using that by (rule replay_snoc_other)
  have "known (es @ [e]) i = known es i" using ne by simp
  then show ?thesis using steady_all[OF assms(1,5)] eq unfolding steady_def by (metis (no_types))
qed

lemma ledger_ok_snoc:
  assumes "ledger_ok cfg A R es" "job_tracked cfg A R es j" "fits cfg e j" "about e = jobId j"
  shows "ledger_ok cfg A R (es @ [e])"
proof -
  have "settled A (es @ [e])"
    using assms fits_succeeded[OF assms(3)] by (intro settled_snoc) (auto simp: ledger_ok_def job_tracked_def)
  moreover have "steady cfg (take n (es @ [e])) i" if "i \<notin> A \<union> R" for i n
  proof (cases "n \<le> length es")
    case True
    then show ?thesis using assms(1) that by (simp add: ledger_ok_def)
  next
    case False
    then have "take n (es @ [e]) = es @ [e]" by simp
    then show ?thesis using steady_snoc[OF assms that] by simp
  qed
  ultimately show ?thesis by (simp add: ledger_ok_def)
qed

lemma tracked_snoc_same:
  assumes "job_tracked cfg A R es j" "fits cfg e j" "about e = jobId j"
  shows "job_tracked cfg A R (es @ [e]) (job_entry cfg e j)"
proof -
  have "jstate (job_entry cfg e j) = Succeeded"
    if "jobId j \<notin> A" "Completed (jobId j) OutSucceeded \<in> set (es @ [e])"
  proof (cases "e = Completed (jobId j) OutSucceeded")
    case True
    then show ?thesis by (simp add: mark_job_def)
  next
    case False
    then have "jstate j = Succeeded" using that assms(1) by (simp add: job_tracked_def)
    then show ?thesis using fits_succeeded[OF assms(2)] assms(3) False by simp
  qed
  then show ?thesis using replay_snoc_core[OF assms] assms(3)
    by (auto simp: job_tracked_def simp del: job_replay_simps)
qed

lemma tracked_snoc_other:
  assumes "job_tracked cfg A R es j" "about e \<noteq> jobId j"
  shows "job_tracked cfg A R (es @ [e]) j"
  using assms replay_snoc_other[OF assms(2)] by (auto simp: job_tracked_def simp del: job_replay_simps)

lemma tracked_entry:
  assumes "tracked cfg A R es js" "job_of js (about e) = Some j" "fits cfg e j"
  shows "tracked cfg A R (es @ [e]) (map (job_entry cfg e) js)"
proof -
  have d: "distinct_jobs js" and j: "j \<in> set js" "jobId j = about e"
    using assms(1,2) by (auto simp: tracked_def job_of_Some_iff)
  have "job_tracked cfg A R (es @ [e]) (job_entry cfg e x)" if x: "x \<in> set js" for x
  proof (cases "jobId x = about e")
    case True
    then have "x = j" using d j x by (metis job_of_Some_iff option.inject)
    then show ?thesis using tracked_snoc_same[OF _ assms(3)] assms(1) x j(2) by (simp add: tracked_def)
  next
    case False
    then show ?thesis using tracked_snoc_other[of cfg A R es x e] job_entry_other[of e x cfg] assms(1) x by (simp add: tracked_def)
  qed
  moreover have "ledger_ok cfg A R (es @ [e])"
    using assms(1,3) j by (intro ledger_ok_snoc[of _ _ _ _ j]) (auto simp: tracked_def)
  ultimately show ?thesis using d by (simp add: tracked_def comp_def)
qed

lemma tracked_fitting: "fitting cfg js E js' \<Longrightarrow> tracked cfg A R es js \<Longrightarrow> tracked cfg A R (es @ E) js'"
proof (induction arbitrary: es rule: fitting.induct)
  case (ft_cons js e j E js')
  have "tracked cfg A R ((es @ [e]) @ E) js'"
    by (rule ft_cons.IH, rule tracked_entry[OF ft_cons.prems ft_cons.hyps(1,2)])
  then show ?case by simp
qed simp

lemma tracked_ledger: "tracked cfg A R es js \<Longrightarrow> ledger_ok cfg A R es"
  by (simp add: tracked_def)

section \<open>One life\<close>

definition life_tracked :: "run_config \<Rightarrow> string set \<Rightarrow> string set \<Rightarrow> log_entry list \<Rightarrow> life \<Rightarrow> bool" where
  "life_tracked cfg A R L l \<longleftrightarrow>
     (let c = snd (lf_ctl l); A' = A \<union> lf_readded l; R' = R \<union> lf_reopened l in
      if fst (lf_ctl l) then tracked cfg A' R' (life_log L c) (c_jobs c) else ledger_ok cfg A' R' (life_log L c))"

lemma life_tracked_ledger: "life_tracked cfg A R L l \<Longrightarrow> ledger_ok cfg (A \<union> lf_readded l) (R \<union> lf_reopened l) (life_log L (snd (lf_ctl l)))"
  by (auto simp: life_tracked_def Let_def tracked_ledger split: if_splits)

lemma job_tracked_core:
  "job_tracked cfg A R es j \<Longrightarrow> jobId j = jobId j' \<Longrightarrow> core j = core j' \<Longrightarrow> job_tracked cfg A R es j'"
  unfolding job_tracked_def using core_fresh[of j j'] by (simp add: core_def split: if_splits)

lemma job_tracked_more:
  "job_tracked cfg A R es j \<Longrightarrow> A \<subseteq> A' \<Longrightarrow> R \<subseteq> R' \<Longrightarrow> job_tracked cfg A' R' es j"
  unfolding job_tracked_def by blast

lemma tracked_renew: "tracked cfg A R es js \<Longrightarrow> tracked cfg A R es (renewDurableLease js i e)"
  by (auto simp: tracked_def renew_is_update update_job_ids) 
    (auto simp: update_job_def intro: job_tracked_core simp: core_renew)

lemma job_tracked_excused: "jobId j \<in> R \<Longrightarrow> Completed (jobId j) OutSucceeded \<notin> set es \<or> jobId j \<in> A \<Longrightarrow> job_tracked cfg A R es j"
  unfolding job_tracked_def by blast

lemma job_tracked_born:
  assumes "fresh_job j" "known es (jobId j) \<longrightarrow> jobId j \<in> A"
  shows "job_tracked cfg A R es j"
proof -
  have "Completed (jobId j) OutSucceeded \<in> set es \<longrightarrow> known es (jobId j)" by (force simp: known_def)
  then show ?thesis using assms unfolding job_tracked_def by auto
qed

text \<open>Only a reconciliation changes what the ledger does not say, and only for the cards it names.\<close>

lemma tracked_reconcile:
  assumes t: "tracked cfg A R es js" and fresh: "fresh_graph board"
    and A': "A \<union> {i \<in> jobId ` set (filter (\<lambda>bj. job_of js (jobId bj) = None) board). known es i} \<subseteq> A'"
    and R': "R \<union> set (reopenedJobIds (reconcileDurableJobsWithBoard js board w)) \<subseteq> R'"
  shows "tracked cfg A' R' es (rec_jobs (reconcileDurableJobsWithBoard js board w))"
proof -
  have d: "distinct_jobs js" "distinct_jobs board" using t fresh by (auto simp: tracked_def fresh_graph_def)
  have old: "job_tracked cfg A' R' es j" if "j \<in> set js" for j
  proof -
    have "job_tracked cfg A R es j" using that t by (simp add: tracked_def)
    then show ?thesis by (rule job_tracked_more) (use A' R' in blast)+
  qed
  have "job_tracked cfg A' R' es j" if "j \<in> set (rec_jobs (reconcileDurableJobsWithBoard js board w))" for j
    using that
  proof (cases rule: reconcile_mem)
    case (1 j0)
    then show ?thesis using old by simp
  next
    case (2 j0)
    then have "jobId j0 \<in> R'" using R' by (auto simp: reconcileDurableJobsWithBoard_def Let_def)
    moreover have "jstate j0 = Failed" using 2(2) by (simp add: should_reopen_def)
    then have "Completed (jobId j0) OutSucceeded \<notin> set es \<or> jobId j0 \<in> A'"
      using old[OF 2(1)] unfolding job_tracked_def by auto
    ultimately show ?thesis unfolding 2(3) by (intro job_tracked_excused) simp_all
  next
    case 3
    then have "known es (jobId j) \<longrightarrow> jobId j \<in> A'" using A' by auto
    moreover have "fresh_job j" using 3(1) fresh by (simp add: fresh_graph_jobs)
    ultimately show ?thesis by (intro job_tracked_born)
  qed
  then show ?thesis using reconcile_distinct[OF d] ledger_ok_more[of cfg A R es A' R'] t A' R' by (simp add: tracked_def)
qed

lemma transition_tracked:
  assumes "transition cfg p x c ok c1" "tracked cfg A R (life_log L c) (c_jobs c)"
    and "\<not> (\<exists>board w. x = OpReconcile board w)"
  shows "if ok then tracked cfg A R (life_log L c1) (c_jobs c1) else ledger_ok cfg A R (life_log L c1)"
  using assms(1)
proof cases
  case tr_idle
  then show ?thesis using assms(2) tracked_ledger by (auto simp: life_log_def)
next
  case (tr_threw n now as jobs')
  have d: "distinct_jobs (c_jobs c)" using assms(2) by (simp add: tracked_def)
  obtain ks where "fitting cfg (c_jobs c) (take n (scheduled_entries p now (c_jobs c) as)) ks"
    using fitting_take[OF legal_run_fitting[OF tr_threw(4) d]] unfolding scheduled_entries_def by blast
  from tracked_ledger[OF tracked_fitting[OF this assms(2)]] show ?thesis using tr_threw(1-3) by (simp add: life_log_def)
next
  case (tr_commit now as)
  have d: "distinct_jobs (c_jobs c)" using assms(2) by (simp add: tracked_def)
  have "fitting cfg (c_jobs c) (scheduled_entries p now (c_jobs c) as) (c_jobs c1)"
    using legal_run_fitting[OF tr_commit(2) d] unfolding scheduled_entries_def by blast
  from tracked_fitting[OF this assms(2)] show ?thesis using tr_commit by (simp add: life_log_def)
next
  case (tr_mark i out)
  then obtain j where j: "job_of (c_jobs c) i = Some j" "out = OutSucceeded \<or> jstate j \<in> {Leased, Failed}"
    by (auto simp: reported_def)
  have "tracked cfg A R (life_log L c @ [Completed i out]) (map (job_entry cfg (Completed i out)) (c_jobs c))"
    using j by (intro tracked_entry[OF assms(2), of _ j]) simp_all
  then show ?thesis using tr_mark by (simp add: life_log_def mark_apply del: job_entry.simps)
next
  case (tr_renew i e)
  then show ?thesis using tracked_renew[OF assms(2)] by (simp add: life_log_def)
qed (use assms(3) in auto)

lemma life_tracked_step:
  assumes "life_tracked cfg A R L l" "board_ok x"
  shows "life_tracked cfg A R L (life_step cfg p L x l)"
proof (cases "fst (lf_ctl l)")
  case True
  then obtain c where c: "lf_ctl l = (True, c)" by (cases "lf_ctl l") auto
  let ?A = "A \<union> lf_readded l" and ?R = "R \<union> lf_reopened l"
  have t: "tracked cfg ?A ?R (life_log L c) (c_jobs c)" using assms(1) c by (simp add: life_tracked_def Let_def)
  then have d: "distinct_jobs (c_jobs c)" by (simp add: tracked_def)
  obtain ok c1 where a: "apply_op cfg p x c = (ok, c1)" by fastforce
  have l': "lf_ctl (life_step cfg p L x l) = (ok, c1)"
    "lf_readded (life_step cfg p L x l) = lf_readded l \<union> {i \<in> jobId ` set (absorbed_by x c). known (life_log L c) i}"
    "lf_reopened (life_step cfg p L x l) = lf_reopened l \<union> reopened_by x c"
    using c a by (simp_all add: life_step_def Let_def)
  show ?thesis
  proof (cases "\<exists>board w. x = OpReconcile board w")
    case True
    then obtain board w where x: "x = OpReconcile board w" by blast
    then have c1: "ok" "c_jobs c1 = rec_jobs (reconcileDurableJobsWithBoard (c_jobs c) board w)" "trace c1 = trace c"
      using a by (auto simp: apply_op_def reconcileWithBoardGraph_def Let_def)
    have "fresh_graph board" using assms(2) x by simp
    from tracked_reconcile[OF t this, where w = w and R' = "R \<union> lf_reopened (life_step cfg p L x l)"
        and A' = "A \<union> lf_readded (life_step cfg p L x l)"]
    have "tracked cfg (A \<union> lf_readded (life_step cfg p L x l)) (R \<union> lf_reopened (life_step cfg p L x l))
        (life_log L c) (c_jobs c1)"
      unfolding l' c1(2) by (auto simp: x absorbed_by_def reopened_by_def)
    then show ?thesis using c1 unfolding life_tracked_def l'(1) by (simp add: Let_def life_log_def)
  next
    case False
    then show ?thesis using transition_tracked[OF apply_op_transition[OF a d] t False]
      unfolding life_tracked_def l' by (simp add: Let_def)
  qed
next
  case False
  then show ?thesis using assms(1) by (simp add: life_step_def)
qed

interpretation ledgers: invariant_system "life_step cfg p L" "\<lambda>x l. board_ok x" "life_tracked cfg A R L" for cfg p L A R
  by unfold_locales (rule life_tracked_step)

lemma replayed_tracked:
  assumes "ledger_ok cfg A R L" "fresh_graph board"
  shows "tracked cfg A R L (replayDurableJobs board L (cfg_reclaimBackoffMs cfg) (cfg_maxAttempts cfg))"
proof -
  have d: "distinct_jobs board" and f: "\<forall>k \<in> set board. fresh_job k" using assms(2) by (auto simp: fresh_graph_jobs)
  have "job_tracked cfg A R L (job_replay cfg L k)" if k: "k \<in> set board" for k
  proof -
    have "jstate (job_replay cfg L k) = Succeeded" if s: "jobId k \<notin> A" "Completed (jobId k) OutSucceeded \<in> set L"
    proof -
      obtain pre post where L: "L = pre @ Completed (jobId k) OutSucceeded # post" using s(2) by (meson split_list)
      then have post: "\<forall>e \<in> set post. about e = jobId k \<longrightarrow> e = Completed (jobId k) OutSucceeded"
        using assms(1) s(1) unfolding ledger_ok_def settled_def by blast
      have "jstate (job_replay cfg post x) = Succeeded" if "jstate x = Succeeded" "jobId x = jobId k" for x
        using that post
      proof (induction post arbitrary: x)
        case (Cons e post)
        have "jstate (job_entry cfg e x) = Succeeded"
          using Cons.prems job_entry_other[of e x cfg] by (cases "about e = jobId k") (auto simp: mark_job_def)
        then show ?case using Cons.IH[of "job_entry cfg e x"] Cons.prems by simp
      qed simp
      from this[of "job_entry cfg (Completed (jobId k) OutSucceeded) (job_replay cfg pre k)"]
      show ?thesis unfolding L by (simp add: mark_job_def)
    qed
    moreover have "\<forall>k'. fresh_job k' \<and> jobId k' = jobId k \<longrightarrow> core (job_replay cfg L k') = core (job_replay cfg L k)"
      if "jobId k \<notin> A \<union> R" "known L (jobId k)"
      using steady_all[OF assms(1) that(1)] that(2) f k unfolding steady_def by blast
    moreover have "fresh_job (job_replay cfg L k)" if "\<not> known L (jobId k)"
      using that f k by (simp add: job_replay_unknown)
    ultimately show ?thesis by (simp add: job_tracked_def)
  qed
  then show ?thesis using assms(1) d by (simp add: tracked_def replay_is_map comp_def)
qed

lemma life_of_tracked:
  assumes "ledger_ok cfg A R L" "fresh_graph board" "list_all board_ok xs"
  shows "life_tracked cfg A R L (life_of cfg p L
    (replayDurableJobs board L (cfg_reclaimBackoffMs cfg) (cfg_maxAttempts cfg)) xs)"
  unfolding life_of_def using replayed_tracked[OF assms(1,2)] assms(3)
  by (intro ledgers.fold_inv) (auto simp: list_all_iff life_tracked_def new_controller_def life_log_def)

section \<open>Any number of lives\<close>

text \<open>The bound on concurrent leases may differ from life to life; nothing a log says depends on it.\<close>

lemma cap_free [simp]:
  "job_entry (cfg\<lparr>cfg_maxConcurrentLeases := m\<rparr>) = job_entry cfg"
  "job_replay (cfg\<lparr>cfg_maxConcurrentLeases := m\<rparr>) = job_replay cfg"
proof -
  have "job_entry (cfg\<lparr>cfg_maxConcurrentLeases := m\<rparr>) e j = job_entry cfg e j" for e j by (cases e) auto
  then show *: "job_entry (cfg\<lparr>cfg_maxConcurrentLeases := m\<rparr>) = job_entry cfg" by blast
  show "job_replay (cfg\<lparr>cfg_maxConcurrentLeases := m\<rparr>) = job_replay cfg" by (rule ext)+ (simp add: job_replay_def *)
qed

lemma ledger_cap_free [simp]: "ledger_ok (cfg\<lparr>cfg_maxConcurrentLeases := m\<rparr>) = ledger_ok cfg"
  by (rule ext)+ (simp add: ledger_ok_def steady_def)

text \<open>The ledgers that lives can leave, with the cards that were absorbed again although the ledger knew them, and
  those that were reopened.\<close>

inductive survives :: "run_config \<Rightarrow> log_entry list \<Rightarrow> string set \<Rightarrow> string set \<Rightarrow> bool" for cfg where
  sv_start: "survives cfg [] {} {}"
| sv_life: "survives cfg L A R \<Longrightarrow> fresh_graph board \<Longrightarrow> list_all board_ok xs
    \<Longrightarrow> l = life_of (cfg\<lparr>cfg_maxConcurrentLeases := m\<rparr>) p L
          (replayDurableJobs board L (cfg_reclaimBackoffMs cfg) (cfg_maxAttempts cfg)) xs
    \<Longrightarrow> survives cfg (L @ take n (logged_entries (trace (snd (lf_ctl l))))) (A \<union> lf_readded l) (R \<union> lf_reopened l)"

lemma survives_ledger: "survives cfg L A R \<Longrightarrow> ledger_ok cfg A R L"
proof (induction rule: survives.induct)
  case sv_start
  then show ?case by (auto simp: ledger_ok_def settled_def steady_def known_def attempt_budget_pos fresh_wf)
next
  case (sv_life L A R board xs l m p n)
  have "life_tracked (cfg\<lparr>cfg_maxConcurrentLeases := m\<rparr>) A R L l"
    using life_of_tracked[of "cfg\<lparr>cfg_maxConcurrentLeases := m\<rparr>" A R L board xs p] sv_life by simp
  from ledger_ok_take[OF life_tracked_ledger[OF this], of "length L + n"]
  show ?case by (simp add: life_log_def)
qed

lemma survives_tracked:
  "survives cfg L A R \<Longrightarrow> fresh_graph board
    \<Longrightarrow> tracked cfg A R L (replayDurableJobs board L (cfg_reclaimBackoffMs cfg) (cfg_maxAttempts cfg))"
  using replayed_tracked survives_ledger by blast

text \<open>Reclaiming the orphans keeps what the ledger says, and leaves no lease.\<close>

lemma resumed_ledger:
  assumes "survives cfg L A R" "fresh_graph board"
    and "resume (cfg\<lparr>cfg_maxConcurrentLeases := m\<rparr>) p now board L = (Some u, c)"
  shows "map jobId (c_jobs c) = map jobId board
    \<and> (\<forall>j \<in> set (c_jobs c). jstate j \<noteq> Leased
        \<and> (Completed (jobId j) OutSucceeded \<in> set L \<and> jobId j \<notin> A \<longrightarrow> jstate j = Succeeded)
        \<and> (jobId j \<notin> A \<union> R \<longrightarrow> job_wf (run_budget cfg) j))"
proof -
  let ?cfg = "cfg\<lparr>cfg_maxConcurrentLeases := m\<rparr>"
  let ?js = "replayDurableJobs board L (cfg_reclaimBackoffMs cfg) (cfg_maxAttempts cfg)"
  have t: "tracked cfg A R L ?js" using assms(1,2) by (rule survives_tracked)
  then have d: "distinct_jobs ?js" by (simp add: tracked_def)
  have c: "c_jobs c = applyDurableSchedulerActions ?js (orphan_actions ?cfg ?js) now (cfg_reclaimBackoffMs cfg)"
    using reclaimed_jobs[of ?cfg p now ?js u c] assms(3) by (simp add: resume_def)
  have "orphan_actions ?cfg ?js = orphan_actions cfg ?js" by (simp add: orphan_actions_def)
  then have gone: "\<forall>j \<in> set (c_jobs c). jstate j \<noteq> Leased" using orphans_gone[OF d, of _ cfg] c by auto
  have "fitting cfg ?js (map (\<lambda>a. Scheduled now a None) (orphan_actions ?cfg ?js)) (c_jobs c)"
    using legal_run_fitting[of cfg now ?js "orphan_actions ?cfg ?js" "c_jobs c" "\<lambda>a. None"]
      orphan_run[OF d, of ?cfg now "cfg_reclaimBackoffMs cfg"] c d by simp
  from tracked_fitting[OF this t] have t': "tracked cfg A R (L @ map (\<lambda>a. Scheduled now a None) (orphan_actions ?cfg ?js)) (c_jobs c)" .
  have "map jobId (c_jobs c) = map jobId board"
    using d assms(2) unfolding c by (simp add: apply_actions_ids replay_ids fresh_graph_def)
  moreover have "jstate j = Succeeded" if "j \<in> set (c_jobs c)" "Completed (jobId j) OutSucceeded \<in> set L" "jobId j \<notin> A" for j
    using t' that unfolding tracked_def job_tracked_def by auto
  moreover have "job_wf (run_budget cfg) j" if "j \<in> set (c_jobs c)" "jobId j \<notin> A \<union> R" for j
    using t' that tracked_wf unfolding tracked_def by blast
  ultimately show ?thesis using gone by blast
qed

end
