(* ===== verification/DurableLedger.thy ===== *)
theory DurableLedger
  imports DurableReplay
begin

text \<open>
  The bridge between the scheduler's log and the attempt ledger
  (\<^verbatim>\<open>src/core/durable-scheduler-ledger.ts\<close>, with the \<^verbatim>\<open>scheduler\<close> event and its builder
  from \<^verbatim>\<open>src/core/agent-attempt-ledger.ts\<close>): an entry becomes an event, the events of one run
  are read back in the order of their clocks, duplicates of a lease dropped. The wall clock and the
  fresh uuid of an event are arguments; the other families of events are opaque.
\<close>

section \<open>Events\<close>

datatype scheduler_event_name =
    Queued | Dequeued | LeaseAcquired | HeartbeatEv | LeaseExpired | Reclaimed | RetryBackoff
  | DependencyUnblocked | Resurrected | CompletedEv | Cancelled

record scheduler_event =
  eventId :: string
  recordedAt :: jsnum
  ev_workflowId :: string
  ev_taskId :: string
  ev_workspacePathHash :: string
  ev_role :: "string option"
  event :: scheduler_event_name
  leaseId :: "string option"
  ev_workerId :: "string option"
  idempotencyKey :: "string option"
  detail :: "string option"

datatype 'x ledger_event = SchedulerEvent scheduler_event | OtherEvent 'x

record ledger_envelope =
  env_workflowId :: string
  env_workspacePathHash :: string
  env_role :: "string option"
  env_recordedAt :: "jsnum option"
  env_eventId :: "string option"

section \<open>Writing\<close>

fun entryTaskId :: "log_entry \<Rightarrow> string" where
  "entryTaskId (Completed i out) = i"
| "entryTaskId (Scheduled now a k) = action_job a"

fun fail_reason_str :: "fail_reason \<Rightarrow> string" where
  "fail_reason_str MaxAttempts = ''max_attempts''"
| "fail_reason_str DependencyFailed = ''dependency_failed''"

fun outcome_str :: "outcome \<Rightarrow> string" where
  "outcome_str OutSucceeded = ''succeeded''"
| "outcome_str OutFailed = ''failed''"
| "outcome_str OutTransientRetry = ''transient_retry''"

text \<open>The event name, worker id, lease id and detail of an action.\<close>

fun actionToSchedulerFields ::
  "sched_action \<Rightarrow> scheduler_event_name \<times> string option \<times> string option \<times> string option" where
  "actionToSchedulerFields (Lease i w e) = (LeaseAcquired, Some w, Some w, Some (num_str e))"
| "actionToSchedulerFields (Reclaim i) = (Reclaimed, None, None, Some ''lease_expired'')"
| "actionToSchedulerFields (Unblock i) = (DependencyUnblocked, None, None, None)"
| "actionToSchedulerFields (Fail i r) = (Cancelled, None, None, Some (fail_reason_str r))"
| "actionToSchedulerFields (Resurrect i) = (Resurrected, None, None, Some ''dependency_recovered'')"

definition buildSchedulerEvent ::
  "ledger_envelope \<Rightarrow> string \<Rightarrow> string \<Rightarrow> jsnum \<Rightarrow> scheduler_event_name \<Rightarrow> string option \<Rightarrow> string option
    \<Rightarrow> string option \<Rightarrow> string option \<Rightarrow> scheduler_event" where
  "buildSchedulerEvent env uuid task clock name lid wid key det =
     \<lparr>eventId = (case env_eventId env of None \<Rightarrow> uuid | Some i \<Rightarrow> i), recordedAt = clock,
      ev_workflowId = env_workflowId env, ev_taskId = task,
      ev_workspacePathHash = env_workspacePathHash env, ev_role = env_role env,
      event = name, leaseId = lid, ev_workerId = wid, idempotencyKey = key, detail = det\<rparr>"

definition durableLogEntryToSchedulerEvent ::
  "ledger_envelope \<Rightarrow> jsnum \<Rightarrow> string \<Rightarrow> log_entry \<Rightarrow> scheduler_event" where
  "durableLogEntryToSchedulerEvent env dateNow uuid e =
     (case e of
        Completed i out \<Rightarrow>
          buildSchedulerEvent env uuid i (case env_recordedAt env of None \<Rightarrow> dateNow | Some r \<Rightarrow> r)
            CompletedEv None None None (Some (outcome_str out))
      | Scheduled now a key \<Rightarrow>
          (case actionToSchedulerFields a of (name, wid, lid, det) \<Rightarrow>
             buildSchedulerEvent env uuid (action_job a)
               (case env_recordedAt env of None \<Rightarrow> now | Some r \<Rightarrow> r) name lid wid key det))"

section \<open>Reading\<close>

definition schedulerEventToDurableLogEntry :: "scheduler_event \<Rightarrow> log_entry option" where
  "schedulerEventToDurableLogEntry ev =
     (let i = ev_taskId ev; t = recordedAt ev in
      case event ev of
        LeaseAcquired \<Rightarrow>
          (let expiresAt = (case detail ev of None \<Rightarrow> Fin 0 | Some s \<Rightarrow> num_of s) in
           if \<not> js_isFinite expiresAt then None
           else (case ev_workerId ev of None \<Rightarrow> None
                 | Some w \<Rightarrow> Some (Scheduled t (Lease i w expiresAt) None)))
      | Reclaimed \<Rightarrow> Some (Scheduled t (Reclaim i) None)
      | DependencyUnblocked \<Rightarrow> Some (Scheduled t (Unblock i) None)
      | Cancelled \<Rightarrow>
          Some (Scheduled t (Fail i (if detail ev = Some ''dependency_failed'' then DependencyFailed
                                      else MaxAttempts)) None)
      | Resurrected \<Rightarrow> Some (Scheduled t (Resurrect i) None)
      | CompletedEv \<Rightarrow>
          Some (Completed i
            (if detail ev = Some ''succeeded'' then OutSucceeded
             else if detail ev = Some ''failed'' then OutFailed
             else if detail ev = Some ''transient_retry'' then OutTransientRetry
             else OutFailed))
      | _ \<Rightarrow> None)"

definition recorded_le :: "scheduler_event \<times> nat \<Rightarrow> scheduler_event \<times> nat \<Rightarrow> bool" where
  "recorded_le a b =
     (let d = js_sub (recordedAt (fst a)) (recordedAt (fst b)) in
      if d = NaN \<or> d = Fin 0 then snd a \<le> snd b else js_lt d (Fin 0))"

fun scheduler_only :: "'x ledger_event list \<Rightarrow> scheduler_event list" where
  "scheduler_only [] = []"
| "scheduler_only (SchedulerEvent e # es) = e # scheduler_only es"
| "scheduler_only (OtherEvent x # es) = scheduler_only es"

definition run_events :: "'x ledger_event list \<Rightarrow> string option \<Rightarrow> scheduler_event list" where
  "run_events events run = filter (\<lambda>e. run = None \<or> run = Some (ev_workflowId e)) (scheduler_only events)"

definition order_events :: "scheduler_event list \<Rightarrow> scheduler_event list" where
  "order_events es = map fst (js_sort recorded_le (zip es [0..<length es]))"

definition readDurableSchedulerLog :: "'x ledger_event list \<Rightarrow> string option \<Rightarrow> log_entry list" where
  "readDurableSchedulerLog events run =
     List.map_filter schedulerEventToDurableLogEntry
       (fst (dedupeSchedulerEventsByIdempotencyKey idempotencyKey (order_events (run_events events run))))"

section \<open>Round trips\<close>

text \<open>What survives the ledger: the key serves the reader's deduplication only.\<close>

fun drop_key :: "log_entry \<Rightarrow> log_entry" where
  "drop_key (Scheduled now a k) = Scheduled now a None"
| "drop_key (Completed i out) = Completed i out"

fun entry_key :: "log_entry \<Rightarrow> string option" where
  "entry_key (Scheduled now a k) = k"
| "entry_key (Completed i out) = None"

text \<open>The deadlines the scheduler computes are whole milliseconds.\<close>

fun whole_deadline :: "log_entry \<Rightarrow> bool" where
  "whole_deadline (Scheduled now (Lease i w e) k) = (case e of Fin q \<Rightarrow> of_int \<lfloor>q\<rfloor> = q | _ \<Rightarrow> False)"
| "whole_deadline _ = True"

lemma entry_roundtrip:
  assumes "whole_deadline e" "env_recordedAt env = None"
  shows "schedulerEventToDurableLogEntry (durableLogEntryToSchedulerEvent env clock uuid e) = Some (drop_key e)"
proof (cases e)
  case (Completed i out)
  then show ?thesis using assms
    by (cases out) (simp_all add: schedulerEventToDurableLogEntry_def durableLogEntryToSchedulerEvent_def
        buildSchedulerEvent_def)
next
  case (Scheduled now a k)
  show ?thesis
  proof (cases a)
    case (Lease i w x)
    then obtain q where q: "x = Fin (of_int q)" using assms(1) Scheduled
      by (auto split: jsnum.splits)
    then have "num_of (num_str x) = x" using num_of_num_str by simp
    then show ?thesis using assms Scheduled Lease q
      by (simp add: schedulerEventToDurableLogEntry_def durableLogEntryToSchedulerEvent_def buildSchedulerEvent_def
          Let_def del: num_str.simps)
  next
    case (Fail i r)
    then show ?thesis using assms Scheduled
      by (cases r) (simp_all add: schedulerEventToDurableLogEntry_def durableLogEntryToSchedulerEvent_def
          buildSchedulerEvent_def)
  qed (use assms Scheduled in \<open>simp_all add: schedulerEventToDurableLogEntry_def
      durableLogEntryToSchedulerEvent_def buildSchedulerEvent_def\<close>)
qed

lemma event_key [simp]: "idempotencyKey (durableLogEntryToSchedulerEvent env clock uuid e) = entry_key e"
  by (cases e; cases "log_entry.case_log_entry (\<lambda>n a k. actionToSchedulerFields a) (\<lambda>i out. undefined) e")
    (simp_all add: durableLogEntryToSchedulerEvent_def buildSchedulerEvent_def)

lemma event_workflow [simp]:
  "ev_workflowId (durableLogEntryToSchedulerEvent env clock uuid e) = env_workflowId env"
  by (cases e; cases "log_entry.case_log_entry (\<lambda>n a k. actionToSchedulerFields a) (\<lambda>i out. undefined) e")
    (simp_all add: durableLogEntryToSchedulerEvent_def buildSchedulerEvent_def)

fun entry_clock :: "jsnum \<Rightarrow> log_entry \<Rightarrow> jsnum" where
  "entry_clock dateNow (Scheduled now a k) = now"
| "entry_clock dateNow (Completed i out) = dateNow"

lemma event_clock:
  "env_recordedAt env = None \<Longrightarrow> recordedAt (durableLogEntryToSchedulerEvent env clock uuid e) = entry_clock clock e"
  by (cases e; cases "log_entry.case_log_entry (\<lambda>n a k. actionToSchedulerFields a) (\<lambda>i out. undefined) e")
    (simp_all add: durableLogEntryToSchedulerEvent_def buildSchedulerEvent_def)

text \<open>A log written one event after another, each with its clock reading and uuid.\<close>

definition write_log :: "ledger_envelope \<Rightarrow> (log_entry \<times> jsnum \<times> string) list \<Rightarrow> scheduler_event list" where
  "write_log env ws = map (\<lambda>(e, clock, uuid). durableLogEntryToSchedulerEvent env clock uuid e) ws"

text \<open>Sorting a list that is in order already changes nothing.\<close>

lemma sort_insert_first: "\<forall>y \<in> set ys. le x y \<Longrightarrow> sort_insert le x ys = x # ys"
  by (cases ys) auto

definition clocks_in_order :: "scheduler_event list \<Rightarrow> bool" where
  "clocks_in_order es \<longleftrightarrow> sorted_wrt (\<lambda>a b. \<exists>s t. recordedAt a = Fin s \<and> recordedAt b = Fin t \<and> s \<le> t) es"

lemma order_events_id: "clocks_in_order es \<Longrightarrow> order_events es = es"
proof -
  assume "clocks_in_order es"
  then have "sorted_wrt recorded_le (zip es [0..<length es])"
    unfolding sorted_wrt_iff_nth_less clocks_in_order_def
    by (fastforce simp: recorded_le_def Let_def)
  then show ?thesis by (simp add: order_events_def js_sort_sorted)
qed

lemma dedupe_loop_id:
  "distinct (List.map_filter key es) \<Longrightarrow> set (List.map_filter key es) \<inter> seen = {}
    \<Longrightarrow> dedupe_loop key seen es = (es, [])"
  by (induction key seen es rule: dedupe_loop.induct)
    (auto simp: map_filter_simps split: option.splits prod.splits)

lemma scheduler_only_map [simp]: "scheduler_only (map SchedulerEvent es) = es"
  by (induction es) auto

lemma read_write_log:
  assumes whole: "list_all (\<lambda>(e, c, u). whole_deadline e) ws" and env: "env_recordedAt env = None"
    and keys: "distinct (List.map_filter (entry_key \<circ> fst) ws)"
    and order: "clocks_in_order (write_log env ws)"
    and run: "run = None \<or> run = Some (env_workflowId env)"
  shows "readDurableSchedulerLog (map SchedulerEvent (write_log env ws) :: 'x ledger_event list) run = map (drop_key \<circ> fst) ws"
proof -
  have mf: "List.map_filter idempotencyKey (write_log env ws) = List.map_filter (entry_key \<circ> fst) ws"
    by (induction ws) (auto simp: write_log_def map_filter_simps split: option.splits)
  have "\<forall>ev \<in> set (write_log env ws). ev_workflowId ev = env_workflowId env"
    by (auto simp: write_log_def)
  then have "run_events (map SchedulerEvent (write_log env ws) :: 'x ledger_event list) run = write_log env ws"
    using run by (auto simp: run_events_def intro!: filter_True)
  moreover have "dedupe_loop idempotencyKey {} (write_log env ws) = (write_log env ws, [])"
    using keys by (intro dedupe_loop_id) (simp_all add: mf)
  moreover have "List.map_filter schedulerEventToDurableLogEntry (write_log env ws) = map (drop_key \<circ> fst) ws"
    using whole env by (induction ws) (auto simp: write_log_def map_filter_simps entry_roundtrip)
  ultimately show ?thesis
    using order_events_id[OF order]
    by (simp add: readDurableSchedulerLog_def dedupeSchedulerEventsByIdempotencyKey_def)
qed

lemma replay_drop_key: "replayDurableJobs jobs (map drop_key es) b m = replayDurableJobs jobs es b m"
proof (induction es arbitrary: jobs)
  case (Cons e es)
  then show ?case by (cases e) (simp_all add: replayDurableJobs_def replay_entry_def)
qed simp

end
