(* ===== verification/Admission.thy ===== *)
theory Admission
  imports Prelude JsNumber
begin

text \<open>
  Saturation-aware admission (\<^verbatim>\<open>src/core/durable-admission.ts\<close>): which ready jobs a scheduling
  wake considers and in which order, given the free slots of the pools, and the wake coordinator
  that debounces the events asking for a tick. Slots are whole numbers.
\<close>

section \<open>Planning one wake\<close>

record admission_pool =
  poolKey :: string
  capacity :: int
  inUse :: int

record admission_candidate =
  cand_jobId :: string
  cand_pool :: "string option"
  readySinceMs :: jsnum

record durable_admission_plan =
  adm_readyOrder :: "string list"
  adm_excluded :: "string list"
  adm_starving :: "string list"

definition free_by_pool :: "admission_pool list \<Rightarrow> (string, int) omap" where
  "free_by_pool pools = omap_of (map (\<lambda>q. (poolKey q, max 0 (capacity q - inUse q))) pools)"

definition is_starving :: "jsnum \<Rightarrow> jsnum \<Rightarrow> admission_candidate \<Rightarrow> bool" where
  "is_starving now bound c = js_ge (js_sub now (readySinceMs c)) bound"

text \<open>A pool's free slots as the screening sees them: \<open>None\<close> is \<^verbatim>\<open>+Infinity\<close>.\<close>

definition free_slots :: "(string, int) omap \<Rightarrow> admission_candidate \<Rightarrow> int option" where
  "free_slots free c = (case cand_pool c of None \<Rightarrow> None | Some k \<Rightarrow> map_of free k)"

definition saturated :: "(string, int) omap \<Rightarrow> admission_candidate \<Rightarrow> bool" where
  "saturated free c = (case free_slots free c of None \<Rightarrow> False | Some n \<Rightarrow> n \<le> 0)"

definition pool_slot :: "admission_candidate \<Rightarrow> string" where
  "pool_slot c = (case cand_pool c of None \<Rightarrow> [] | Some k \<Rightarrow> k)"

text \<open>The admissible, not starving candidates, grouped by pool in the order of first appearance.\<close>

definition group_candidate ::
  "admission_candidate \<Rightarrow> (string, admission_candidate list) omap \<Rightarrow> (string, admission_candidate list) omap" where
  "group_candidate c m =
     omap_set (pool_slot c) ((case map_of m (pool_slot c) of None \<Rightarrow> [] | Some l \<Rightarrow> l) @ [c]) m"

definition waiting_le :: "admission_candidate \<Rightarrow> admission_candidate \<Rightarrow> bool" where
  "waiting_le a b = (\<not> js_gt (js_sub (readySinceMs a) (readySinceMs b)) (Fin 0))"

text \<open>The round robin over the pools: the \<open>i\<close>-th candidate of each list, for \<open>i = 0, 1, ...\<close>\<close>

function interleave :: "'a list list \<Rightarrow> nat \<Rightarrow> 'a list" where
  "interleave ls i =
     (if list_ex (\<lambda>l. i < length l) ls
      then map (\<lambda>l. l ! i) (filter (\<lambda>l. i < length l) ls) @ interleave ls (Suc i)
      else [])"
  by auto
termination
proof (relation "measure (\<lambda>(ls, i). sum_list (map length ls) - i)")
  fix ls :: "'a list list" and i
  assume "list_ex (\<lambda>l. i < length l) ls"
  then obtain l where "l \<in> set ls" "i < length l" by (auto simp: list_ex_iff)
  moreover have "length l \<le> sum_list (map length ls)"
    using \<open>l \<in> set ls\<close> by (simp add: member_le_sum_list)
  ultimately show "((ls, Suc i), (ls, i)) \<in> measure (\<lambda>(ls, i). sum_list (map length ls) - i)"
    by simp
qed simp

declare interleave.simps [simp del]

text \<open>Each admitted candidate takes one of its pool's slots.\<close>

fun ration :: "(string, int) omap \<Rightarrow> admission_candidate list \<Rightarrow> string list \<times> string list" where
  "ration free [] = ([], [])"
| "ration free (c # cs) =
     (case free_slots free c of
        None \<Rightarrow> (case ration free cs of (ready, excl) \<Rightarrow> (cand_jobId c # ready, excl))
      | Some n \<Rightarrow>
          (if n \<le> 0 then (case ration free cs of (ready, excl) \<Rightarrow> (ready, cand_jobId c # excl))
           else (case ration (omap_set (pool_slot c) (n - 1) free) cs of
                   (ready, excl) \<Rightarrow> (cand_jobId c # ready, excl))))"

definition admitted_order :: "(string, int) omap \<Rightarrow> jsnum \<Rightarrow> jsnum \<Rightarrow> admission_candidate list \<Rightarrow> admission_candidate list" where
  "admitted_order free now bound cands =
     (let adm = filter (\<lambda>c. \<not> saturated free c) cands;
          starving = js_sort waiting_le (filter (is_starving now bound) adm);
          groups = fold group_candidate (filter (\<lambda>c. \<not> is_starving now bound c) adm) []
      in starving @ interleave (map (js_sort waiting_le \<circ> snd) groups) 0)"

definition planDurableAdmission ::
  "admission_candidate list \<Rightarrow> admission_pool list \<Rightarrow> jsnum \<Rightarrow> jsnum option \<Rightarrow> durable_admission_plan" where
  "planDurableAdmission cands pools now starvationBoundMs =
     (let bound = (case starvationBoundMs of None \<Rightarrow> Fin 600000 | Some b \<Rightarrow> b);
          free = free_by_pool pools
      in (case ration free (admitted_order free now bound cands) of
            (ready, excl) \<Rightarrow>
              \<lparr>adm_readyOrder = ready,
               adm_excluded = map cand_jobId (filter (saturated free) cands) @ excl,
               adm_starving = map cand_jobId (filter (is_starving now bound) cands)\<rparr>))"

section \<open>No candidate is lost\<close>

lemma mset_interleave: "mset (interleave ls i) = mset (concat (map (drop i) ls))"
proof (induction ls i rule: interleave.induct)
  case (1 ls i)
  have split: "mset (concat (map (drop i) ls))
      = mset (map (\<lambda>l. l ! i) (filter (\<lambda>l. i < length l) ls)) + mset (concat (map (drop (Suc i)) ls))"
    for ls :: "'a list list"
    by (induction ls) (auto simp flip: Cons_nth_drop_Suc)
  show ?case
  proof (cases "list_ex (\<lambda>l. i < length l) ls")
    case True
    then show ?thesis using 1 split by (subst interleave.simps) simp
  next
    case False
    then have "concat (map (drop i) ls) = []" by (auto simp: list_ex_iff)
    then show ?thesis using False by (subst interleave.simps) simp
  qed
qed

lemma mset_groups_step:
  "mset (concat (map snd (omap_set k ((case map_of m k of None \<Rightarrow> [] | Some l \<Rightarrow> l) @ [c]) m)))
    = add_mset c (mset (concat (map snd m)))"
  if "distinct (map fst m)" for m :: "('k, 'c list) omap"
  using that
proof (induction m)
  case Nil
  then show ?case by simp
next
  case (Cons e m)
  then show ?case by (cases e; cases "fst e = k") auto
qed

lemma mset_groups: "mset (concat (map snd (fold group_candidate cs m))) = mset (concat (map snd m)) + mset cs"
  if "distinct (map fst m)"
  using that
proof (induction cs arbitrary: m)
  case Nil
  then show ?case by simp
next
  case (Cons c cs)
  then show ?case by (simp add: group_candidate_def mset_groups_step distinct_omap_set del: mset_concat)
qed

lemma mset_concat_sorted: "mset (concat (map (js_sort le \<circ> snd) m)) = mset (concat (map snd m))"
  by (induction m) auto

lemma admitted_order_mset: "mset (admitted_order free now bound cands) = mset (filter (\<lambda>c. \<not> saturated free c) cands)"
  using mset_groups[of "[]" "filter (\<lambda>c. \<not> is_starving now bound c) (filter (\<lambda>c. \<not> saturated free c) cands)"]
  by (simp add: admitted_order_def Let_def mset_interleave mset_concat_sorted del: mset_concat filter_filter)

lemma ration_mset: "mset (fst (ration free cs)) + mset (snd (ration free cs)) = mset (map cand_jobId cs)"
  by (induction free cs rule: ration.induct) (auto split: option.splits prod.splits)

section \<open>No pool is overfilled, and no free slot is wasted\<close>

text \<open>The candidates the rationing admits.\<close>

fun rationed :: "(string, int) omap \<Rightarrow> admission_candidate list \<Rightarrow> admission_candidate list" where
  "rationed free [] = []"
| "rationed free (c # cs) =
     (case free_slots free c of
        None \<Rightarrow> c # rationed free cs
      | Some n \<Rightarrow> (if n \<le> 0 then rationed free cs
                    else c # rationed (omap_set (pool_slot c) (n - 1) free) cs))"

definition in_pool :: "string \<Rightarrow> admission_candidate list \<Rightarrow> nat" where
  "in_pool k cs = length (filter (\<lambda>c. cand_pool c = Some k) cs)"

lemma ration_rationed: "fst (ration free cs) = map cand_jobId (rationed free cs)"
  by (induction free cs rule: ration.induct) (auto split: option.splits prod.splits)

lemma rationed_pool_count:
  "map_of free k = Some n \<Longrightarrow> 0 \<le> n \<Longrightarrow> int (in_pool k (rationed free cs)) = min n (int (in_pool k cs))"
proof (induction free cs arbitrary: n rule: rationed.induct)
  case (1 free)
  then show ?case by (simp add: in_pool_def)
next
  case (2 free c cs)
  show ?case
  proof (cases "free_slots free c")
    case None
    then have "cand_pool c \<noteq> Some k" using "2.prems" by (auto simp: free_slots_def split: option.splits)
    then show ?thesis using "2.IH"(1)[OF None "2.prems"] None by (simp add: in_pool_def)
  next
    case (Some m)
    then obtain k' where k': "cand_pool c = Some k'" "map_of free k' = Some m"
      by (auto simp: free_slots_def split: option.splits)
    show ?thesis
    proof (cases "m \<le> 0")
      case True
      then show ?thesis using "2.IH"(2)[OF Some True "2.prems"] Some k' "2.prems" by (auto simp: in_pool_def)
    next
      case False
      have "int (in_pool k (rationed (omap_set (pool_slot c) (m - 1) free) cs))
          = min (if k' = k then n - 1 else n) (int (in_pool k cs))"
        using False Some k' "2.prems" by (intro "2.IH"(3)) (auto simp: pool_slot_def)
      then show ?thesis using Some False k' "2.prems" by (auto simp: in_pool_def)
    qed
  qed
qed

lemma rationed_unpooled: "map_of free k = None \<Longrightarrow> in_pool k (rationed free cs) = in_pool k cs"
proof (induction free cs rule: rationed.induct)
  case (1 free)
  then show ?case by simp
next
  case (2 free c cs)
  then show ?case
    by (auto simp: in_pool_def free_slots_def pool_slot_def split: option.splits if_splits)
qed

lemma free_by_pool_nonneg: "map_of (free_by_pool pools) k = Some n \<Longrightarrow> 0 \<le> n"
  by (auto simp: free_by_pool_def map_of_omap_of dest!: map_of_SomeD)

lemma ration_subset: "set (rationed free cs) \<subseteq> set cs"
  by (induction free cs rule: rationed.induct) (auto split: option.splits if_splits)

lemma in_pool_mset: "mset xs = mset ys \<Longrightarrow> in_pool k xs = in_pool k ys"
  unfolding in_pool_def by (metis mset_filter size_mset)

lemma planDurableAdmission_partition:
  "mset (adm_readyOrder (planDurableAdmission cands pools now b)) + mset (adm_excluded (planDurableAdmission cands pools now b))
    = mset (map cand_jobId cands)"
proof -
  let ?free = "free_by_pool pools"
  define order where "order = admitted_order ?free now (case b of None \<Rightarrow> Fin 600000 | Some b \<Rightarrow> b) cands"
  have m: "mset order = mset (filter (\<lambda>c. \<not> saturated ?free c) cands)"
    by (simp add: order_def admitted_order_mset)
  obtain ready excl where r: "ration ?free order = (ready, excl)" by fastforce
  have "mset ready + mset excl = image_mset cand_jobId (mset order)" using ration_mset[of ?free order] r by simp
  moreover have "image_mset cand_jobId (mset (filter (saturated ?free) cands))
      + image_mset cand_jobId (mset order) = mset (map cand_jobId cands)"
    unfolding m by (simp flip: image_mset_union multiset_partition)
  moreover have "adm_readyOrder (planDurableAdmission cands pools now b) = ready"
    "mset (adm_excluded (planDurableAdmission cands pools now b))
      = image_mset cand_jobId (mset (filter (saturated ?free) cands)) + mset excl"
    using r by (simp_all add: planDurableAdmission_def Let_def order_def)
  ultimately show ?thesis by (metis add.assoc add.commute)
qed

lemma planDurableAdmission_admits:
  "\<exists>adm. adm_readyOrder (planDurableAdmission cands pools now b) = map cand_jobId adm \<and> set adm \<subseteq> set cands
     \<and> (\<forall>k. int (in_pool k adm) = (case map_of (free_by_pool pools) k of
           None \<Rightarrow> int (in_pool k cands) | Some n \<Rightarrow> min n (int (in_pool k cands))))"
proof -
  let ?free = "free_by_pool pools"
  define order where "order = admitted_order ?free now (case b of None \<Rightarrow> Fin 600000 | Some b \<Rightarrow> b) cands"
  have m: "mset order = mset (filter (\<lambda>c. \<not> saturated ?free c) cands)"
    by (simp add: order_def admitted_order_mset)
  have "adm_readyOrder (planDurableAdmission cands pools now b) = map cand_jobId (rationed ?free order)"
    using ration_rationed[of ?free order]
    by (cases "ration ?free order") (simp add: planDurableAdmission_def Let_def order_def)
  moreover have "set (rationed ?free order) \<subseteq> set cands"
    using ration_subset[of ?free order] mset_eq_setD[OF m] by auto
  moreover have "int (in_pool k (rationed ?free order)) = (case map_of ?free k of
           None \<Rightarrow> int (in_pool k cands) | Some n \<Rightarrow> min n (int (in_pool k cands)))" for k
  proof (cases "map_of ?free k")
    case None
    have "in_pool k order = in_pool k cands"
      using in_pool_mset[OF m] None
      by (simp add: in_pool_def saturated_def free_slots_def)
        (metis (mono_tags, lifting) option.case_eq_if option.discI option.sel)
    then show ?thesis using rationed_unpooled[OF None] None by simp
  next
    case (Some n)
    have "0 < n \<Longrightarrow> in_pool k order = in_pool k cands"
      using in_pool_mset[OF m] Some
      by (simp add: in_pool_def saturated_def free_slots_def) (rule arg_cong[where f = length], rule filter_cong, auto)
    then show ?thesis using rationed_pool_count[OF Some free_by_pool_nonneg[OF Some], of order]
        free_by_pool_nonneg[OF Some] Some by (cases "n = 0") auto
  qed
  ultimately show ?thesis by blast
qed

section \<open>The wake coordinator\<close>

text \<open>
  One timer coalesces a burst of events. The host fires a timer only while it is set and not
  cleared, so \<open>TimerFires\<close> needs a pending one.
\<close>

record wake_state =
  pending :: bool
  disposed :: bool
  ticks_requested :: nat
  timers_set :: nat
  timers_cleared :: nat

datatype wake_event = CapacityFreed | JobBecameReady | TimerFires | DisposeWake

definition new_coordinator :: wake_state where
  "new_coordinator = \<lparr>pending = False, disposed = False, ticks_requested = 0, timers_set = 0, timers_cleared = 0\<rparr>"

definition wake :: "wake_state \<Rightarrow> wake_state" where
  "wake s = (if disposed s \<or> pending s then s else s\<lparr>pending := True, timers_set := Suc (timers_set s)\<rparr>)"

fun wake_step :: "wake_event \<Rightarrow> wake_state \<Rightarrow> wake_state" where
  "wake_step CapacityFreed s = wake s"
| "wake_step JobBecameReady s = wake s"
| "wake_step TimerFires s = (let s1 = s\<lparr>pending := False\<rparr> in
     if disposed s then s1 else s1\<lparr>ticks_requested := Suc (ticks_requested s)\<rparr>)"
| "wake_step DisposeWake s = (let s1 = s\<lparr>disposed := True\<rparr> in
     if pending s then s1\<lparr>pending := False, timers_cleared := Suc (timers_cleared s)\<rparr> else s1)"

fun wake_ok :: "wake_event \<Rightarrow> wake_state \<Rightarrow> bool" where
  "wake_ok TimerFires s = pending s"
| "wake_ok _ s = True"

text \<open>Every timer set is pending, has requested one tick, or was cleared by the disposal.\<close>

definition wake_inv :: "wake_state \<Rightarrow> bool" where
  "wake_inv s \<longleftrightarrow> timers_set s = ticks_requested s + timers_cleared s + (if pending s then 1 else 0)
     \<and> (disposed s \<longrightarrow> \<not> pending s)"

interpretation wakes: invariant_system wake_step wake_ok wake_inv
proof
  fix s e assume "wake_inv s" "wake_ok e s"
  then show "wake_inv (wake_step e s)"
    by (cases e) (auto simp: wake_inv_def wake_def Let_def)
qed

lemma burst_one_timer:
  assumes "\<not> disposed s" "list_all (\<lambda>e. e = CapacityFreed \<or> e = JobBecameReady) es" "es \<noteq> []"
  shows "fold wake_step es s = (if pending s then s else s\<lparr>pending := True, timers_set := Suc (timers_set s)\<rparr>)"
  using assms
proof (induction es arbitrary: s)
  case Nil
  then show ?case by simp
next
  case (Cons e es)
  then have e: "wake_step e s = wake s" by auto
  show ?case
  proof (cases "es = []")
    case True
    then show ?thesis using e Cons.prems(1) by (simp add: wake_def)
  next
    case False
    have "\<not> disposed (wake s)" using Cons.prems(1) by (simp add: wake_def)
    then show ?thesis using Cons.IH[of "wake s"] Cons.prems e False by (simp add: wake_def)
  qed
qed

end
