(* ===== verification/DurableWiring.thy ===== *)
theory DurableWiring
  imports DurableRegistry DurableLives DurableLedger Admission
begin

text \<open>
  The live wiring of the durable runs (\<^verbatim>\<open>src/server/durable-run-wiring.ts\<close>): the projection of
  a board, the admission port with the ages of the ready jobs, and the entry points that build,
  resume, drive and dispose the runs of the workspaces, with the exclusive claims on their ledgers.
  The operations of one workspace are serialised by the source, so each is atomic here. What a read of
  the ledger returns is an argument of the operation that reads it, the claim and the ports are those of
  the wiring; the dispatch reservations and the warnings are not modelled.
\<close>

section \<open>Projections of a board\<close>

record board_column_view =
  col_id :: string
  col_cards :: "string list"

record board_view =
  bv_columns :: "board_column_view list"
  bv_deps :: "dep_edge list"

definition run_columns :: "board_view \<Rightarrow> board_column_view list" where
  "run_columns b = filter (\<lambda>c. col_id c \<noteq> ''trash'') (bv_columns b)"

definition graph_task_ids :: "board_view \<Rightarrow> string list" where
  "graph_task_ids b = concat (map col_cards (run_columns b))"

definition graph_succeeded_ids :: "board_view \<Rightarrow> string list" where
  "graph_succeeded_ids b = concat (map col_cards (filter (\<lambda>c. col_id c = ''completed'') (run_columns b)))"

definition board_graph :: "board_view \<Rightarrow> job list" where
  "board_graph b = buildDurableJobGraph (graph_task_ids b) (bv_deps b) (graph_succeeded_ids b)"

definition waitingTaskIdsFromBoard :: "board_view \<Rightarrow> string set" where
  "waitingTaskIdsFromBoard b =
     set (concat (map col_cards
       (filter (\<lambda>c. col_id c \<in> {''backlog'', ''planning'', ''ready''}) (bv_columns b))))"

section \<open>The admission port\<close>

text \<open>When each ready job entered its current ready spell; the others are forgotten.\<close>

definition track_ready :: "job list \<Rightarrow> jsnum \<Rightarrow> (string, jsnum) omap \<Rightarrow> (string, jsnum) omap" where
  "track_ready jobs now since =
     (let ready = filter (\<lambda>j. jstate j = Ready) jobs;
          added = fold (\<lambda>j m. if map_of m (jobId j) = None then omap_set (jobId j) now m else m) ready since
      in filter (\<lambda>e. fst e \<in> jobId ` set ready) added)"

definition wiring_plan ::
  "admission_pool list \<Rightarrow> (string \<Rightarrow> string option) \<Rightarrow> job list \<Rightarrow> jsnum \<Rightarrow> (string, jsnum) omap
    \<Rightarrow> admission_plan \<times> (string, jsnum) omap" where
  "wiring_plan pools poolKeyForTask jobs now since =
     (let since' = track_ready jobs now since;
          plan = planDurableAdmission
            (map (\<lambda>j. \<lparr>cand_jobId = jobId j, cand_pool = poolKeyForTask (jobId j),
                      readySinceMs = (case map_of since' (jobId j) of None \<Rightarrow> now | Some t \<Rightarrow> t)\<rparr>)
               (filter (\<lambda>j. jstate j = Ready) jobs))
            pools now None
      in (\<lparr>plan_readyOrder = Some (adm_readyOrder plan), plan_excluded = Some (adm_excluded plan)\<rparr>, since'))"

section \<open>The entry points\<close>

record wiring_deps =
  wd_enabled :: bool
  wd_config :: run_config
  wd_ports :: "string \<Rightarrow> string \<Rightarrow> run_ports"
  workflowIdFor :: "string \<Rightarrow> string"
  hashWorkspacePath :: "string \<Rightarrow> string"
  claimLedger :: "(string \<Rightarrow> string \<Rightarrow> bool) option"

record wiring =
  w_reg :: registry
  w_claims :: "string list"

definition releaseClaim :: "string \<Rightarrow> wiring \<Rightarrow> wiring" where
  "releaseClaim w s = s\<lparr>w_claims := filter (\<lambda>v. v \<noteq> w) (w_claims s)\<rparr>"

definition disposeIfComplete :: "string \<Rightarrow> wiring \<Rightarrow> wiring" where
  "disposeIfComplete w s = (case reg_get (w_reg s) w of
       None \<Rightarrow> s
     | Some r \<Rightarrow> (if isComplete (dr_ctl r) then releaseClaim w (s\<lparr>w_reg := reg_dispose w (w_reg s)\<rparr>) else s))"

definition dispose :: "string \<Rightarrow> wiring \<Rightarrow> wiring" where
  "dispose w s = releaseClaim w (s\<lparr>w_reg := reg_dispose w (w_reg s)\<rparr>)"

definition hasRun :: "wiring_deps \<Rightarrow> string \<Rightarrow> wiring \<Rightarrow> bool" where
  "hasRun d w s = (wd_enabled d \<and> reg_has (w_reg s) w)"

text \<open>\<^verbatim>\<open>await deps.readLedger(workspaceId)\<close>: what it returns now, when the wiring has a reader.\<close>

definition prior_log :: "wiring_deps \<Rightarrow> string \<Rightarrow> 'x ledger_event list option \<Rightarrow> log_entry list" where
  "prior_log d w ledger = (case ledger of
      None \<Rightarrow> [] | Some events \<Rightarrow> readDurableSchedulerLog events (Some (workflowIdFor d w)))"

definition config_for :: "wiring_deps \<Rightarrow> jsnum option \<Rightarrow> run_config" where
  "config_for d maxLeases = (case maxLeases of
       Some (Fin q) \<Rightarrow> (wd_config d)\<lparr>cfg_maxConcurrentLeases := js_max (Fin 1) (js_trunc (Fin q))\<rparr>
     | _ \<Rightarrow> wd_config d)"

definition run_identity :: "wiring_deps \<Rightarrow> string \<Rightarrow> string \<Rightarrow> lease_identity" where
  "run_identity d w path =
     \<lparr>li_workflowId = workflowIdFor d w, li_workspacePathHash = hashWorkspacePath d path,
      modelIdForJob = (\<lambda>_. None), endpointForJob = (\<lambda>_. None), variantForJob = (\<lambda>_. None)\<rparr>"

text \<open>Taking the claim: granted already, not configured, granted now, or refused.\<close>

definition take_claim :: "wiring_deps \<Rightarrow> string \<Rightarrow> string \<Rightarrow> wiring \<Rightarrow> wiring option" where
  "take_claim d w path s = (case claimLedger d of
       None \<Rightarrow> Some s
     | Some claim \<Rightarrow>
         (if w \<in> set (w_claims s) then Some s
          else if claim w (hashWorkspacePath d path) then Some (s\<lparr>w_claims := w_claims s @ [w]\<rparr>) else None))"

text \<open>The controller of a new run: fresh, or resumed and reconciled; \<open>None\<close> when the resume threw.\<close>

definition open_controller ::
  "run_config \<Rightarrow> run_ports \<Rightarrow> jsnum \<Rightarrow> board_view \<Rightarrow> log_entry list \<Rightarrow> controller option" where
  "open_controller cfg p now b entries =
     (if entries = [] then Some (new_controller (board_graph b))
      else (case resume cfg p now (board_graph b) entries of
              (None, c) \<Rightarrow> None
            | (Some _, c) \<Rightarrow>
                Some (snd (reconcileWithBoardGraph (board_graph b) (waitingTaskIdsFromBoard b) c))))"

definition ensureRun ::
  "wiring_deps \<Rightarrow> string \<Rightarrow> string \<Rightarrow> board_view \<Rightarrow> bool \<Rightarrow> jsnum option \<Rightarrow> 'x ledger_event list option \<Rightarrow> jsnum
    \<Rightarrow> wiring \<Rightarrow> bool option \<times> wiring" where
  "ensureRun d w path b resumeOnly maxLeases ledger now s =
     (if \<not> wd_enabled d \<or> reg_has (w_reg s) w \<or> graph_task_ids b = [] then (Some False, s)
      else if resumeOnly \<and> prior_log d w ledger = [] then (Some False, s)
      else (case take_claim d w path s of
          None \<Rightarrow> (Some False, s)
        | Some s1 \<Rightarrow>
            (let cfg = config_for d maxLeases;
                 p = (wd_ports d w path)\<lparr>lease_ident := Some (run_identity d w path)\<rparr>
             in (case open_controller cfg p now b (prior_log d w ledger) of
                   None \<Rightarrow> (None, s1)
                 | Some c \<Rightarrow>
                     (case on_ctl (OpTick now) \<lparr>dr_cfg = cfg, dr_ports = p, dr_ctl = c\<rparr> of
                        (ok, r) \<Rightarrow>
                          (let s2 = s1\<lparr>w_reg := reg_register w r (w_reg s1)\<rparr>
                           in if ok then (Some True, disposeIfComplete w s2) else (None, s2)))))))"

definition on_registry :: "wiring_deps \<Rightarrow> (registry \<Rightarrow> bool \<times> registry) \<Rightarrow> wiring \<Rightarrow> bool \<times> wiring" where
  "on_registry d f s = (if \<not> wd_enabled d then (True, s)
     else (case f (w_reg s) of (ok, reg) \<Rightarrow> (ok, s\<lparr>w_reg := reg\<rparr>)))"

definition observeSummary ::
  "wiring_deps \<Rightarrow> string \<Rightarrow> string \<Rightarrow> session_state \<Rightarrow> string option \<Rightarrow> jsnum \<Rightarrow> wiring \<Rightarrow> bool \<times> wiring" where
  "observeSummary d w i st err now = on_registry d (reactToTaskSummary w i st err now)"

definition observeDelivered :: "wiring_deps \<Rightarrow> string \<Rightarrow> string \<Rightarrow> jsnum \<Rightarrow> wiring \<Rightarrow> bool \<times> wiring" where
  "observeDelivered d w i now = on_registry d (reportDelivered w i now)"

definition observeParked ::
  "wiring_deps \<Rightarrow> string \<Rightarrow> string \<Rightarrow> string option \<Rightarrow> jsnum \<Rightarrow> wiring \<Rightarrow> bool \<times> wiring" where
  "observeParked d w i reason now = on_registry d (reportParked w i reason now)"

definition wiring_redispatch ::
  "wiring_deps \<Rightarrow> string \<Rightarrow> string list \<Rightarrow> jsnum \<Rightarrow> wiring \<Rightarrow> string list option \<times> wiring" where
  "wiring_redispatch d w is now s =
     (if \<not> wd_enabled d \<or> is = [] then (Some [], s)
      else (case redispatchCandidates w is now (w_reg s) of (res, reg) \<Rightarrow> (res, s\<lparr>w_reg := reg\<rparr>)))"

text \<open>\<^verbatim>\<open>absorbBoardCards\<close>: the result is \<open>None\<close> when there is no run.\<close>

definition absorbBoardCards ::
  "wiring_deps \<Rightarrow> string \<Rightarrow> board_view \<Rightarrow> jsnum \<Rightarrow> wiring \<Rightarrow> (bool \<times> (string list \<times> string list) option) \<times> wiring" where
  "absorbBoardCards d w b now s = (if \<not> wd_enabled d then ((True, None), s)
     else (case reg_get (w_reg s) w of
       None \<Rightarrow> ((True, None), s)
     | Some r \<Rightarrow>
         (case reconcileWithBoardGraph (board_graph b) (waitingTaskIdsFromBoard b) (dr_ctl r) of
            ((absorbed, reopened), c) \<Rightarrow>
              (if absorbed = [] \<and> reopened = []
               then ((True, Some (absorbed, reopened)), s\<lparr>w_reg := reg_register w (r\<lparr>dr_ctl := c\<rparr>) (w_reg s)\<rparr>)
               else (case on_ctl (OpTick now) (r\<lparr>dr_ctl := c\<rparr>) of
                       (ok, r1) \<Rightarrow>
                         (let s1 = s\<lparr>w_reg := reg_register w r1 (w_reg s)\<rparr>
                          in ((ok, Some (absorbed, reopened)), if ok then disposeIfComplete w s1 else s1)))))))"

text \<open>One workspace's share of \<^verbatim>\<open>tickAll\<close>: the live leases beat, then the run ticks.\<close>

definition tick_workspace :: "string list \<Rightarrow> jsnum \<Rightarrow> string \<Rightarrow> wiring \<Rightarrow> bool \<times> wiring" where
  "tick_workspace live now w s = (case reg_get (w_reg s) w of
       None \<Rightarrow> (True, s)
     | Some r \<Rightarrow>
         (case on_ctl (OpTick now) (fold (\<lambda>i r. snd (on_ctl (OpHeartbeat now i) r)) live r) of
            (ok, r1) \<Rightarrow>
              (let s1 = s\<lparr>w_reg := reg_register w r1 (w_reg s)\<rparr>
               in (ok, if ok then disposeIfComplete w s1 else s1))))"

definition tickAll :: "wiring_deps \<Rightarrow> (string \<Rightarrow> string list) \<Rightarrow> jsnum \<Rightarrow> wiring \<Rightarrow> wiring" where
  "tickAll d liveTaskIdsFor now s =
     (if \<not> wd_enabled d then s
      else fold (\<lambda>w s. snd (tick_workspace (liveTaskIdsFor w) now w s)) (activeWorkspaceIds (w_reg s)) s)"

section \<open>What the wiring keeps\<close>

text \<open>A run opened on any log at all is safe: after a resume no job holds a lease. It has the whole invariant
  when the log is one that lives without reopened or newly absorbed cards left, such as the empty log of a fresh run.\<close>

lemma open_controller_safe:
  assumes c: "open_controller cfg p now b es = Some c" and d: "distinct (graph_task_ids b)"
  shows "ctl_safe c"
proof (cases "es = []")
  case True
  then show ?thesis using c ctl_inv_safe[OF new_controller_inv[OF build_inv[OF d]]] attempt_budget_pos
    by (auto simp: open_controller_def board_graph_def)
next
  case False
  let ?js = "replayDurableJobs (board_graph b) es (cfg_reclaimBackoffMs cfg) (cfg_maxAttempts cfg)"
  obtain u c1 where c1: "reclaimOrphanedLeases cfg p now (new_controller ?js) = (Some u, c1)"
    "c = snd (reconcileWithBoardGraph (board_graph b) (waitingTaskIdsFromBoard b) c1)"
    using c False by (auto simp: open_controller_def resume_def split: prod.splits option.splits)
  have "distinct_jobs (board_graph b)" using d by (simp add: board_graph_def)
  then have "distinct_jobs ?js" by (simp add: replay_ids)
  then have "ctl_safe c1" using reclaimed_safe c1(1) by blast
  moreover have "apply_op cfg p (OpReconcile (board_graph b) (waitingTaskIdsFromBoard b)) c1 = (True, c)"
    using c1(2) by (simp add: apply_op_def)
  moreover have "board_ok (OpReconcile (board_graph b) (waitingTaskIdsFromBoard b))"
    using d by (simp add: board_graph_def build_fresh)
  ultimately show ?thesis using apply_op_safe by blast
qed

lemma open_controller_fresh:
  "open_controller cfg p now b [] = Some c \<Longrightarrow> distinct (graph_task_ids b) \<Longrightarrow> ctl_inv cfg c"
  by (auto simp: open_controller_def board_graph_def intro!: new_controller_inv build_inv attempt_budget_pos)

lemma open_controller_clean:
  assumes L: "survives cfg L {} {}" and d: "distinct (graph_task_ids b)"
    and c: "open_controller (cfg\<lparr>cfg_maxConcurrentLeases := m\<rparr>) p now b (map drop_key L) = Some c"
  shows "ctl_inv (cfg\<lparr>cfg_maxConcurrentLeases := m\<rparr>) c"
proof (cases "L = []")
  case True
  then show ?thesis using c d open_controller_fresh by simp
next
  case False
  let ?cfg = "cfg\<lparr>cfg_maxConcurrentLeases := m\<rparr>"
  have fresh: "fresh_graph (board_graph b)" using d by (simp add: board_graph_def build_fresh)
  have "resume ?cfg p now (board_graph b) (map drop_key L) = resume ?cfg p now (board_graph b) L"
    by (simp add: resume_def replay_drop_key)
  then obtain u c1 where c1: "resume ?cfg p now (board_graph b) L = (Some u, c1)"
    "c = snd (reconcileWithBoardGraph (board_graph b) (waitingTaskIdsFromBoard b) c1)"
    using c False by (auto simp: open_controller_def split: prod.splits option.splits)
  have "jobs_inv (run_budget cfg) (c_jobs c1)"
    using resumed_ledger[OF L fresh c1(1)] fresh by (auto simp: jobs_inv_def list_all_iff fresh_graph_def)
  moreover have "distinct_jobs (replayDurableJobs (board_graph b) L (cfg_reclaimBackoffMs cfg) (cfg_maxAttempts cfg))"
    using fresh by (simp add: fresh_graph_def replay_ids)
  then have "ctl_safe c1" using reclaimed_safe[of _ ?cfg p now u c1] c1(1) by (simp add: resume_def)
  ultimately have "ctl_inv ?cfg c1" by (simp add: ctl_inv_def ctl_safe_def)
  moreover have "apply_op ?cfg p (OpReconcile (board_graph b) (waitingTaskIdsFromBoard b)) c1 = (True, c)"
    using c1(2) by (simp add: apply_op_def)
  ultimately show ?thesis using apply_op_inv fresh by fastforce
qed

lemma config_for_cap: "\<exists>m. config_for d ml = (wd_config d)\<lparr>cfg_maxConcurrentLeases := m\<rparr>"
proof -
  have "\<exists>m. wd_config d = (wd_config d)\<lparr>cfg_maxConcurrentLeases := m\<rparr>"
    by (rule exI[of _ "cfg_maxConcurrentLeases (wd_config d)"]) simp
  then show ?thesis by (auto simp: config_for_def split: option.split jsnum.split)
qed

lemma take_claim_reg: "take_claim d w path s = Some s1 \<Longrightarrow> w_reg s1 = w_reg s"
  by (auto simp: take_claim_def split: option.splits if_splits)

context kept_runs begin

lemma disposeIfComplete_ok: "reg_ok (w_reg s) \<Longrightarrow> reg_ok (w_reg (disposeIfComplete w s))"
  by (simp add: disposeIfComplete_def releaseClaim_def reg_ok_dispose split: option.split)

lemma ensureRun_ok:
  assumes ok: "reg_ok (w_reg s)"
    and opened: "\<And>p c. open_controller (config_for d maxLeases) p now b (prior_log d w ledger) = Some c
      \<Longrightarrow> keeps w \<lparr>dr_cfg = config_for d maxLeases, dr_ports = p, dr_ctl = c\<rparr>"
  shows "reg_ok (w_reg (snd (ensureRun d w path b resumeOnly maxLeases ledger now s)))"
proof -
  let ?p = "(wd_ports d w path)\<lparr>lease_ident := Some (run_identity d w path)\<rparr>"
  have reg: "reg_ok (reg_register w r (w_reg s))"
    if "open_controller (config_for d maxLeases) ?p now b (prior_log d w ledger) = Some c"
      "on_ctl (OpTick now) \<lparr>dr_cfg = config_for d maxLeases, dr_ports = ?p, dr_ctl = c\<rparr> = (k, r)" for c k r
    using keeps_op[OF opened[OF that(1)], of "OpTick now"] that(2) ok by (simp add: reg_ok_register)
  show ?thesis
  proof (cases "take_claim d w path s")
    case None
    then show ?thesis using ok by (simp add: ensureRun_def)
  next
    case (Some s1)
    then have "w_reg s1 = w_reg s" by (rule take_claim_reg)
    then show ?thesis using Some ok reg
      by (auto simp: ensureRun_def Let_def intro!: disposeIfComplete_ok split: option.split prod.split)
  qed
qed

lemma on_registry_ok: "(\<And>reg. reg_ok reg \<Longrightarrow> reg_ok (snd (f reg))) \<Longrightarrow> reg_ok (w_reg s)
    \<Longrightarrow> reg_ok (w_reg (snd (on_registry d f s)))"
  using prod.collapse[of "f (w_reg s)"] by (auto simp: on_registry_def split: prod.split) (metis snd_conv)

lemma heartbeats_ok: "keeps w r \<Longrightarrow> keeps w (fold (\<lambda>i r. snd (on_ctl (OpHeartbeat now i) r)) live r)"
  by (induction live arbitrary: r) (simp_all add: keeps_op)

lemma tick_workspace_ok:
  assumes "reg_ok (w_reg s)"
  shows "reg_ok (w_reg (snd (tick_workspace live now w s)))"
proof (cases "reg_get (w_reg s) w")
  case None
  then show ?thesis using assms by (simp add: tick_workspace_def)
next
  case (Some r)
  then have "keeps w (snd (on_ctl (OpTick now) (fold (\<lambda>i r. snd (on_ctl (OpHeartbeat now i) r)) live r)))"
    using reg_ok_get[OF assms] by (intro keeps_op heartbeats_ok) auto
  then show ?thesis using assms Some
    by (auto simp: tick_workspace_def Let_def reg_ok_register intro!: disposeIfComplete_ok split: prod.split)
qed

lemma tickAll_ok: "reg_ok (w_reg s) \<Longrightarrow> reg_ok (w_reg (tickAll d live now s))"
proof -
  have "reg_ok (w_reg s) \<Longrightarrow> reg_ok (w_reg (fold (\<lambda>w s. snd (tick_workspace (live w) now w s)) ws s))" for ws
    by (induction ws arbitrary: s) (simp_all add: tick_workspace_ok)
  then show "reg_ok (w_reg s) \<Longrightarrow> reg_ok (w_reg (tickAll d live now s))" by (simp add: tickAll_def)
qed

lemma absorbBoardCards_ok:
  assumes ok: "reg_ok (w_reg s)" and d: "distinct (graph_task_ids b)"
  shows "reg_ok (w_reg (snd (absorbBoardCards d w b now s)))"
proof (cases "reg_get (w_reg s) w")
  case None
  then show ?thesis using ok by (simp add: absorbBoardCards_def)
next
  case (Some r)
  obtain ab re c where rec: "reconcileWithBoardGraph (board_graph b) (waitingTaskIdsFromBoard b) (dr_ctl r) = ((ab, re), c)"
    by (metis prod.exhaust)
  have "keeps w (snd (on_ctl (OpReconcile (board_graph b) (waitingTaskIdsFromBoard b)) r))"
    using reg_ok_get[OF ok Some] \<open>distinct _\<close> by (intro keeps_op) (simp_all add: board_graph_def build_fresh)
  then have r1: "keeps w (r\<lparr>dr_ctl := c\<rparr>)" using rec by (simp add: on_ctl_def apply_op_def)
  then have "keeps w (snd (on_ctl (OpTick now) (r\<lparr>dr_ctl := c\<rparr>)))" by (intro keeps_op) simp_all
  then show ?thesis using ok Some rec r1
    by (auto simp: absorbBoardCards_def Let_def reg_ok_register intro!: disposeIfComplete_ok split: prod.split)
qed

lemma wiring_redispatch_ok: "reg_ok (w_reg s) \<Longrightarrow> reg_ok (w_reg (snd (wiring_redispatch d w is now s)))"
  using redispatchCandidates_ok[of "w_reg s" w "is" now]
  by (cases "redispatchCandidates w is now (w_reg s)") (simp add: wiring_redispatch_def)

end

section \<open>Claims\<close>

text \<open>The rule the source states: a claim is held only while its run is registered.\<close>

definition claims_held :: "wiring \<Rightarrow> bool" where
  "claims_held s \<longleftrightarrow> (\<forall>w \<in> set (w_claims s). reg_has (w_reg s) w)"

lemma claims_dispose: "claims_held s \<Longrightarrow> claims_held (dispose w s)"
  by (auto simp: claims_held_def dispose_def releaseClaim_def reg_has_def reg_get_dispose)

lemma claims_disposeIfComplete: "claims_held s \<Longrightarrow> claims_held (disposeIfComplete w s)"
  using claims_dispose[of s w] by (auto simp: disposeIfComplete_def dispose_def split: option.split)

lemma claims_register: "claims_held s \<Longrightarrow> claims_held (s\<lparr>w_reg := reg_register w r (w_reg s)\<rparr>)"
  by (auto simp: claims_held_def reg_has_def reg_get_register)

lemma claims_tick_workspace: "claims_held s \<Longrightarrow> claims_held (snd (tick_workspace live now w s))"
  by (auto simp: tick_workspace_def Let_def claims_register
      intro!: claims_disposeIfComplete split: option.split prod.split)

lemma on_registry_claims: "w_claims (snd (on_registry d f s)) = w_claims s"
  by (simp add: on_registry_def split: prod.split)

section \<open>Sequences of entry points\<close>

datatype 'x wiring_op =
    WEnsure string string board_view bool "jsnum option" "'x ledger_event list option" jsnum
  | WAbsorb string board_view jsnum
  | WSummary string string session_state "string option" jsnum
  | WDelivered string string jsnum
  | WParked string string "string option" jsnum
  | WRedispatch string "string list" jsnum
  | WTickAll "string \<Rightarrow> string list" jsnum
  | WDispose string

definition wiring_step :: "wiring_deps \<Rightarrow> 'x wiring_op \<Rightarrow> wiring \<Rightarrow> wiring" where
  "wiring_step d x s = (case x of
       WEnsure w path b ro ml ledger now \<Rightarrow> snd (ensureRun d w path b ro ml ledger now s)
     | WAbsorb w b now \<Rightarrow> snd (absorbBoardCards d w b now s)
     | WSummary w i st err now \<Rightarrow> snd (observeSummary d w i st err now s)
     | WDelivered w i now \<Rightarrow> snd (observeDelivered d w i now s)
     | WParked w i reason now \<Rightarrow> snd (observeParked d w i reason now s)
     | WRedispatch w is now \<Rightarrow> snd (wiring_redispatch d w is now s)
     | WTickAll live now \<Rightarrow> tickAll d live now s
     | WDispose w \<Rightarrow> dispose w s)"

text \<open>Boards have distinct cards. A clean workspace is one whose ledger, when a run is opened on it, is what
  lives without reopened or newly absorbed cards left; the ledger does not give back the keys.\<close>

fun wiring_ok :: "'x wiring_op \<Rightarrow> bool" where
  "wiring_ok (WEnsure w path b ro ml ledger now) \<longleftrightarrow> distinct (graph_task_ids b)"
| "wiring_ok (WAbsorb w b now) \<longleftrightarrow> distinct (graph_task_ids b)"
| "wiring_ok _ \<longleftrightarrow> True"

fun clean_for :: "wiring_deps \<Rightarrow> string \<Rightarrow> 'x wiring_op \<Rightarrow> bool" where
  "clean_for d w (WEnsure v path b ro ml ledger now) \<longleftrightarrow>
     (v = w \<longrightarrow> (\<exists>L. survives (wd_config d) L {} {} \<and> prior_log d w ledger = map drop_key L))"
| "clean_for d w _ \<longleftrightarrow> True"

lemma ensured_keeps:
  assumes "wiring_ok (WEnsure w path b ro ml ledger now)" "\<forall>v \<in> F. clean_for d v (WEnsure w path b ro ml ledger now)"
    and "open_controller (config_for d ml) p now b (prior_log d w ledger) = Some c"
  shows "safe_and_inv F w \<lparr>dr_cfg = config_for d ml, dr_ports = p, dr_ctl = c\<rparr>"
proof -
  have "ctl_inv (config_for d ml) c" if F: "w \<in> F"
  proof -
    obtain L where L: "survives (wd_config d) L {} {}" "prior_log d w ledger = map drop_key L"
      using assms(2) F by auto
    obtain m where "config_for d ml = (wd_config d)\<lparr>cfg_maxConcurrentLeases := m\<rparr>" using config_for_cap by blast
    then show ?thesis using open_controller_clean[OF L(1)] assms(1,3) L(2) by simp
  qed
  then show ?thesis using assms(1) open_controller_safe[OF assms(3)]
    by (auto simp: safe_and_inv_def run_safe_def run_inv_def)
qed

interpretation wirings: invariant_system "wiring_step d" "\<lambda>x s. wiring_ok x \<and> (\<forall>w \<in> F. clean_for d w x)"
  "\<lambda>s. reg_keeps (safe_and_inv F) (w_reg s)" for d :: wiring_deps and F
proof
  fix s :: wiring and x :: "'x wiring_op"
  assume "reg_keeps (safe_and_inv F) (w_reg s)" "wiring_ok x \<and> (\<forall>w \<in> F. clean_for d w x)"
  then show "reg_keeps (safe_and_inv F) (w_reg (wiring_step d x s))"
    by (cases x) (auto simp: wiring_step_def runs.absorbBoardCards_ok observeSummary_def
        observeDelivered_def observeParked_def runs.on_registry_ok runs.reactToTaskSummary_ok runs.reportDelivered_ok
        runs.reportParked_ok runs.wiring_redispatch_ok runs.tickAll_ok dispose_def releaseClaim_def runs.reg_ok_dispose
        intro!: runs.ensureRun_ok ensured_keeps)
qed

end
