(* ===== verification/DurableProgress.thy ===== *)
theory DurableProgress
  imports DurableRuns
begin

text \<open>
  Progress of the durable scheduler: a run over an acyclic, closed dependency graph that is not
  complete and holds no lease never stalls; its next tick decides at least one action. A tick
  with an unusable clock takes no time-based decision, and a tick without a usable cap never
  stops at it.
\<close>

section \<open>No stall\<close>

definition closed_deps :: "job list \<Rightarrow> bool" where
  "closed_deps jobs \<longleftrightarrow> list_all (\<lambda>j. set (dependsOn j) \<subseteq> jobId ` set jobs) jobs"

definition ranked_deps :: "(string \<Rightarrow> nat) \<Rightarrow> job list \<Rightarrow> bool" where
  "ranked_deps rank jobs \<longleftrightarrow> list_all (\<lambda>j. list_all (\<lambda>d. rank d < rank (jobId j)) (dependsOn j)) jobs"

abbreviation terminal :: "job \<Rightarrow> bool" where
  "terminal j \<equiv> jstate j = Succeeded \<or> jstate j = Failed"

lemma minimal_open_job:
  assumes "\<not> isDurableRunComplete jobs" "closed_deps jobs" "ranked_deps rank jobs" "distinct_jobs jobs"
  obtains j where "j \<in> set jobs" "\<not> terminal j"
    "\<forall>d \<in> set (dependsOn j). job_in Succeeded (job_of jobs d) \<or> job_in Failed (job_of jobs d)"
proof -
  obtain j0 where "j0 \<in> set jobs \<and> \<not> terminal j0"
    using assms(1) by (auto simp: isDurableRunComplete_def list_all_iff)
  from ex_has_least_nat[of "\<lambda>j. j \<in> set jobs \<and> \<not> terminal j" j0 "\<lambda>j. rank (jobId j)", OF this]
  obtain j where j: "j \<in> set jobs" "\<not> terminal j"
    "\<And>k. k \<in> set jobs \<Longrightarrow> \<not> terminal k \<Longrightarrow> rank (jobId j) \<le> rank (jobId k)" by auto
  have "job_in Succeeded (job_of jobs d) \<or> job_in Failed (job_of jobs d)" if "d \<in> set (dependsOn j)" for d
  proof -
    have "d \<in> jobId ` set jobs" "rank d < rank (jobId j)"
      using that j(1) assms(2,3) by (auto simp: closed_deps_def ranked_deps_def list_all_iff)
    then obtain k where k: "k \<in> set jobs" "jobId k = d" by auto
    then have "terminal k" using j(3)[of k] \<open>rank d < _\<close> by auto
    then show ?thesis using k assms(4) by (auto simp: job_in_def)
  qed
  then show thesis using that j by blast
qed

lemma lease_loop_fires:
  assumes "j \<in> set cands" "gate j" "js_lt (js_of_nat active) cap"
  shows "lease_loop gate cap mint expiry n active cands \<noteq> []"
  using assms(1)
proof (induction cands)
  case Nil
  then show ?case by simp
next
  case (Cons h t)
  have "\<not> js_ge (js_of_nat active) cap" using assms(3) by (cases cap) (auto simp: js_order_defs)
  then show ?case using Cons assms(2) by (cases "h = j") auto
qed

lemma finite_cap_pos: "maxConcurrentLeases inp = Fin q \<Longrightarrow> js_lt (js_of_nat 0) (lease_cap inp)"
  by (simp add: lease_cap_Fin cap_of_def)

lemma decide_progress:
  assumes d: "distinct_jobs (in_jobs inp)" and open_: "\<not> isDurableRunComplete (in_jobs inp)"
    and deps: "closed_deps (in_jobs inp)" "ranked_deps rank (in_jobs inp)"
    and no_lease: "leased_count (in_jobs inp) = 0"
    and due: "in_now inp = Fin t" "\<And>j. j \<in> set (in_jobs inp) \<Longrightarrow> \<not> js_gt (nextEligibleAt j) (in_now inp)"
    and cap: "maxConcurrentLeases inp = Fin q" and ex: "excludedJobIds inp = []"
  shows "decideDurableSchedulerActions inp mint \<noteq> []"
proof (rule ccontr)
  assume "\<not> decideDurableSchedulerActions inp mint \<noteq> []"
  then have none: "settle_actions inp = []" "lease_actions inp mint = []"
    by (simp_all add: decideDurableSchedulerActions_def)
  obtain j where j: "j \<in> set (in_jobs inp)" "\<not> terminal j"
    "\<forall>d \<in> set (dependsOn j). job_in Succeeded (job_of (in_jobs inp) d) \<or> job_in Failed (job_of (in_jobs inp) d)"
    using minimal_open_job[OF open_ deps d] .
  have "jstate j \<noteq> Leased" using no_lease j(1) by (auto simp: leased_count_def filter_empty_conv)
  then have st: "jstate j = Blocked \<or> jstate j = Ready" using j(2) by (cases "jstate j") auto
  have "\<not> anyDependencyFailed j (job_of (in_jobs inp))"
    using none(1) j(1) st by (auto simp: settle_actions_def Let_def fail_actions_map filter_empty_conv)
  then have succ: "dependenciesSucceeded j (job_of (in_jobs inp))"
    using j(3) by (auto simp: anyDependencyFailed_def dependenciesSucceeded_def list_all_iff list_ex_iff)
  have "jstate j = Ready"
    using none(1) j(1) st succ \<open>\<not> anyDependencyFailed j _\<close>
    by (auto simp: settle_actions_def Let_def unblock_actions_map filter_empty_conv)
  then have "tick_gate inp j"
    using none(1) succ due j(1) ex by (simp add: tick_gate_def lease_gate_def)
  moreover have "active_leases inp = 0" using no_lease by (simp add: active_leases_def)
  ultimately have "lease_actions inp mint \<noteq> []"
    unfolding lease_actions_def using j(1) finite_cap_pos[OF cap]
    by (intro lease_loop_fires[of j]) (auto simp: lease_candidates_set)
  then show False using none(2) by simp
qed

section \<open>Unusable numbers\<close>

lemma no_clock_no_lease:
  assumes "\<not> js_isFinite (in_now inp)"
  shows "lease_actions inp mint = []"
proof -
  have "\<not> tick_gate inp j" for j using assms by (simp add: tick_gate_def lease_gate_def)
  then have "lease_loop (tick_gate inp) cap mint e n active cands = []" for cap e n active cands
    by (induction cands) auto
  then show ?thesis by (simp add: lease_actions_def)
qed

lemma no_clock_no_reclaim: "\<not> js_isFinite now \<Longrightarrow> reclaim_actions now b jobs = []"
  by (simp add: reclaim_actions_map expired_def)

lemma no_cap_loop:
  "lease_loop gate NaN mint expiry n active cands
    = map (\<lambda>(j, k). Lease (jobId j) (mint (n + k)) expiry) (zip (filter gate cands) [0..<length (filter gate cands)])"
proof (induction cands arbitrary: n active)
  case (Cons h t)
  have "map (\<lambda>(j, k). Lease (jobId j) (mint (n + k)) expiry) (zip (filter gate t) (map Suc [0..<m]))
    = map (\<lambda>(j, k). Lease (jobId j) (mint (Suc n + k)) expiry) (zip (filter gate t) [0..<m])" for m
    by (simp add: zip_map2 split: prod.split)
  then show ?case using Cons by (simp add: upt_conv_Cons map_Suc_upt del: upt_Suc)
qed simp

end
