(* ===== verification/DurableProperties.thy ===== *)
theory DurableProperties
  imports DurableWiring DurableProgress DurableLives
begin

text \<open>
  The properties of the durable scheduler, each over the operations of the code, with the sample
  configuration and graphs on which their hypotheses are shown to hold.
\<close>

section \<open>Samples\<close>

definition sample_cfg :: run_config where
  "sample_cfg = \<lparr>cfg_maxConcurrentLeases = Fin 1, cfg_leaseDurationMs = Fin 300,
     cfg_maxAttempts = Fin 3, cfg_reclaimBackoffMs = Fin 30\<rparr>"

definition sample_ports :: run_ports where
  "sample_ports = \<lparr>mintWorkerId = (\<lambda>n. ''w'' @ nat_str n), append_ok = (\<lambda>n. n \<noteq> 5), planAdmission = None,
     lease_ident = None, sha256 = id, depthPriorityFlag = None, localeCompare = code_unit_compare\<rparr>"

text \<open>Two cards, the second behind the first.\<close>

definition sample_graph :: "job list" where
  "sample_graph = buildDurableJobGraph [''a'', ''b''] [\<lparr>edgeFrom = ''b'', edgeTo = ''a''\<rparr>] []"

definition sample_run :: "ctl_op list" where
  "sample_run = [OpTick (Fin 5), OpHeartbeat (Fin 6) ''a'', OpReport ''a'' RepSucceeded ErrOther, OpTick (Fin 7)]"

definition sample_end :: "bool \<times> controller" where
  "sample_end = fold (live_step sample_cfg sample_ports) sample_run (True, new_controller sample_graph)"

lemma sample_graph_inv: "jobs_inv (run_budget sample_cfg) sample_graph"
  unfolding sample_graph_def by (rule build_inv) (simp_all add: attempt_budget_pos)

lemma sample_end_value:
  "fst sample_end"
  "map jstate (c_jobs (snd sample_end)) = [Succeeded, Leased]"
  "length (trace (snd sample_end)) = 6"
  "trace (snd sample_end) ! 1 = Dispatch ''a'' ''w0'' (Fin 305)"
  by code_simp+

section \<open>Shared steps\<close>

text \<open>Every run keeps the invariant; every logged run keeps its log sound.\<close>

lemma run_ctl_inv:
  assumes "jobs_inv (run_budget cfg) jobs" "list_all board_ok xs"
  shows "ctl_inv cfg (snd (fold (live_step cfg p) xs (True, new_controller jobs)))"
  using assms by (intro ctl.fold_inv) (auto simp: list_all_iff new_controller_inv)

lemma run_log_inv:
  assumes "jobs_inv (run_budget cfg) jobs" "list_all logged_op xs"
  shows "log_inv cfg jobs (fold (live_step cfg p) xs (True, new_controller jobs))"
  using assms by (intro logged.fold_inv) (auto simp: list_all_iff new_controller_log_inv)

section \<open>Safety of the runs\<close>

text \<open>
  C1. In every state that any sequence of the controller's operations reaches from a graph that
  satisfies the invariant (ticks, reports, reopenings, reconciliations with a freshly built board
  graph, heartbeats, orphan reclaims; stopped by a rejected append), a job that holds a lease has
  only succeeded prerequisites: no card ever runs before what it depends on is delivered.
\<close>

theorem run_leased_prerequisites:
  assumes "jobs_inv (run_budget cfg) jobs" "list_all board_ok xs"
    and "j \<in> set (c_jobs (snd (fold (live_step cfg p) xs (True, new_controller jobs))))" "jstate j = Leased"
  shows "\<forall>d \<in> set (dependsOn j).
    job_in Succeeded (job_of (c_jobs (snd (fold (live_step cfg p) xs (True, new_controller jobs)))) d)"
  using run_ctl_inv[OF assms(1,2), of p] assms(3,4)
  by (simp add: ctl_inv_def jobs_inv_def list_all_iff dependenciesSucceeded_def)

lemma sample_second_leased: "list_all board_ok sample_run" "c_jobs (snd sample_end) ! 1 \<in> set (c_jobs (snd sample_end))"
  "jstate (c_jobs (snd sample_end) ! 1) = Leased" "dependsOn (c_jobs (snd sample_end) ! 1) = [''a'']"
  by code_simp+

theorem run_leased_prerequisites_witness:
  "job_in Succeeded (job_of (c_jobs (snd sample_end)) ''a'')"
  using run_leased_prerequisites[OF sample_graph_inv sample_second_leased(1),
      of "c_jobs (snd sample_end) ! 1" sample_ports] sample_second_leased(2-4)
  by (simp add: sample_end_def)

text \<open>
  C2. In every reachable state leases sit exactly on the leased jobs, no job has been leased or
  charged more often than the attempt budget allows, and a job that waits or is ready still has
  budget left.
\<close>

theorem run_attempts_bounded:
  assumes "jobs_inv (run_budget cfg) jobs" "list_all board_ok xs"
    and "j \<in> set (c_jobs (snd (fold (live_step cfg p) xs (True, new_controller jobs))))"
  shows "(lease j \<noteq> None \<longleftrightarrow> jstate j = Leased) \<and> int (attempts j) \<le> run_budget cfg
    \<and> (int (attempts j) = run_budget cfg \<longrightarrow> jstate j \<in> {Leased, Succeeded, Failed})"
  using run_ctl_inv[OF assms(1,2), of p] assms(3)
  by (cases "jstate j") (auto simp: ctl_inv_def jobs_inv_def list_all_iff job_wf_def)

theorem run_attempts_bounded_witness:
  "int (attempts (c_jobs (snd sample_end) ! 1)) \<le> run_budget sample_cfg"
  using run_attempts_bounded[OF sample_graph_inv sample_second_leased(1),
      of "c_jobs (snd sample_end) ! 1" sample_ports] sample_second_leased(2)
  by (simp add: sample_end_def)

text \<open>
  C3. Persist before dispatch: at whatever point the effects of a run are cut, each dispatch that
  has happened is preceded by the log entry of exactly its lease.
\<close>

theorem run_dispatch_after_log:
  assumes "jobs_inv (run_budget cfg) jobs" "list_all board_ok xs"
    and "trace (snd (fold (live_step cfg p) xs (True, new_controller jobs))) = pre @ Dispatch i w e # post"
  shows "\<exists>now k. Append (Scheduled now (Lease i w e) k) \<in> set pre"
  using run_ctl_inv[OF assms(1,2), of p] assms(3) dispatch_logged_pre[of "{}"]
  by (auto simp: ctl_inv_def logged_actions_def)

lemma sample_trace_split:
  "trace (snd sample_end) = take 1 (trace (snd sample_end)) @ Dispatch ''a'' ''w0'' (Fin 305) # drop 2 (trace (snd sample_end))"
  using sample_end_value(3,4) id_take_nth_drop[of 1 "trace (snd sample_end)"] by (simp add: numeral_2_eq_2)

theorem run_dispatch_after_log_witness:
  "\<exists>now k. Append (Scheduled now (Lease ''a'' ''w0'' (Fin 305)) k) \<in> set (take 1 (trace (snd sample_end)))"
  using run_dispatch_after_log[OF sample_graph_inv sample_second_leased(1), of sample_ports] sample_trace_split
  unfolding sample_end_def by blast

section \<open>Restart\<close>

text \<open>
  C4. Boot replay is exact, card by card. Let a run start from a graph and take any operations, board
  reconciliations among them, and collect the cards as they joined it: the initial ones, and those
  absorbed from the board, as the board had them. Folding the log the run appended over these cards
  gives the run's jobs again, in their order and up to the deadlines that heartbeats moved, for every
  card that no reconciliation reopened (reopening is deliberately not logged). A run without a
  reconciliation has its initial graph and its log, and nothing reopened: there the replay is the
  whole state.
\<close>

theorem run_log_replays:
  assumes "distinct_jobs jobs" "list_all board_ok xs" "life_of cfg p L jobs xs = l" "lf_ctl l = (True, c)"
  shows "fold (live_step cfg p) xs (True, new_controller jobs) = (True, c)
    \<and> list_all2 (agrees (lf_reopened l))
        (replayDurableJobs (lf_born l) (logged_entries (trace c)) (cfg_reclaimBackoffMs cfg) (cfg_maxAttempts cfg)) (c_jobs c)
    \<and> (lf_reopened l = {} \<longrightarrow> map forget_expiry (replayDurableJobs (lf_born l) (logged_entries (trace c))
         (cfg_reclaimBackoffMs cfg) (cfg_maxAttempts cfg)) = map forget_expiry (c_jobs c))
    \<and> (list_all logged_op xs \<longrightarrow> lf_born l = jobs \<and> lf_reopened l = {})"
  using life_replays[OF assms] agrees_all life_ctl[of cfg p L jobs xs] life_logged[of xs cfg p L jobs] assms(3,4)
  by auto

text \<open>A run whose first card fails; the board reconciliation absorbs a third card and reopens the failed one.\<close>

definition grown_graph :: "job list" where
  "grown_graph = buildDurableJobGraph [''a'', ''b'', ''c''] [\<lparr>edgeFrom = ''b'', edgeTo = ''a''\<rparr>] []"

definition sample_reconciled :: "ctl_op list" where
  "sample_reconciled = [OpTick (Fin 5), OpReport ''a'' RepFailed ErrOther, OpReconcile grown_graph {''a''},
     OpReport ''c'' RepSucceeded ErrOther, OpTick (Fin 7)]"

definition sample_life :: life where
  "sample_life = life_of sample_cfg sample_ports [] sample_graph sample_reconciled"

lemma sample_fresh: "fresh_graph grown_graph" "fresh_graph sample_graph"
  by (simp_all add: grown_graph_def sample_graph_def build_fresh)

lemma sample_reconciled_ok: "distinct_jobs sample_graph" "list_all board_ok sample_reconciled"
  using sample_fresh by (simp_all add: fresh_graph_def sample_reconciled_def)

lemma sample_life_value:
  "fst (lf_ctl sample_life)" "lf_reopened sample_life = {''a''}" "lf_readded sample_life = {}"
  "map jobId (lf_born sample_life) = [''a'', ''b'', ''c'']"
  "map jstate (c_jobs (snd (lf_ctl sample_life))) = [Leased, Blocked, Succeeded]"
  by code_simp+

lemma sample_cfg_fields: "cfg_reclaimBackoffMs sample_cfg = Fin 30" "cfg_maxAttempts sample_cfg = Fin 3"
  by (simp_all add: sample_cfg_def)

theorem run_log_replays_witness:
  "list_all2 (agrees {''a''})
    (replayDurableJobs (lf_born sample_life) (logged_entries (trace (snd (lf_ctl sample_life)))) (Fin 30) (Fin 3))
    (c_jobs (snd (lf_ctl sample_life)))"
  using run_log_replays[OF sample_reconciled_ok, of sample_cfg sample_ports "[]" sample_life "snd (lf_ctl sample_life)"]
    sample_life_value(1,2) sample_cfg_fields
  by (simp add: sample_life_def[symmetric] prod_eq_iff)

text \<open>
  C5. Crash consistency, over any number of restarts. A ledger grows life by life: a process folds it over the
  fresh board graph of its time and applies operations (orphan reclaims, ticks, reports, reopenings, heartbeats,
  board reconciliations), and a crash keeps any prefix of what it appended, also in the middle of a batch. From
  such a ledger a resume over any fresh board has the board's cards, none of them leased; every card the ledger
  records a success of is succeeded, unless a reconciliation had absorbed it anew although the ledger knew it; and
  every card that was neither absorbed anew nor reopened (neither is logged) is well formed, its attempts
  within the budget. When there was no such card, the resumed run satisfies the whole invariant.
\<close>

theorem crash_resume_consistent:
  assumes "survives cfg L A R" "fresh_graph board"
    and "resume (cfg\<lparr>cfg_maxConcurrentLeases := m\<rparr>) p now board L = (Some u, c)"
  shows "map jobId (c_jobs c) = map jobId board
    \<and> (\<forall>j \<in> set (c_jobs c). jstate j \<noteq> Leased
        \<and> (Completed (jobId j) OutSucceeded \<in> set L \<and> jobId j \<notin> A \<longrightarrow> jstate j = Succeeded)
        \<and> (jobId j \<notin> A \<union> R \<longrightarrow> job_wf (run_budget cfg) j))
    \<and> (A \<union> R = {} \<longrightarrow> jobs_inv (run_budget cfg) (c_jobs c))"
  using resumed_ledger[OF assms] assms(2) by (auto simp: jobs_inv_def list_all_iff fresh_graph_def)

definition sample_ledger :: "log_entry list" where
  "sample_ledger = take 3 (logged_entries (trace (snd (lf_ctl sample_life))))"

lemma sample_survives: "survives sample_cfg sample_ledger {} {''a''}"
proof -
  have "sample_cfg = sample_cfg\<lparr>cfg_maxConcurrentLeases := Fin 1\<rparr>" by (simp add: sample_cfg_def)
  then show ?thesis
    using sv_life[OF sv_start sample_fresh(2) sample_reconciled_ok(2), where l = sample_life and cfg = sample_cfg
        and m = "Fin 1" and p = sample_ports and n = 3]
      sample_life_value(2,3)
    by (simp add: sample_life_def sample_ledger_def)
qed

definition sample_resumed :: "unit option \<times> controller" where
  "sample_resumed = resume (sample_cfg\<lparr>cfg_maxConcurrentLeases := Fin 2\<rparr>) sample_ports (Fin 9) grown_graph sample_ledger"

lemma sample_resumed_returns: "fst sample_resumed = Some ()"
  by code_simp

lemma sample_success: "Completed ''c'' OutSucceeded \<in> set sample_ledger"
  by code_simp

theorem crash_resume_consistent_witness:
  "list_all (\<lambda>j. jstate j \<noteq> Leased \<and> (jobId j = ''c'' \<longrightarrow> jstate j = Succeeded)
     \<and> (jobId j \<noteq> ''a'' \<longrightarrow> job_wf (run_budget sample_cfg) j)) (c_jobs (snd sample_resumed))"
  using crash_resume_consistent[OF sample_survives sample_fresh(1), where p = sample_ports and now = "Fin 9" and m = "Fin 2"
      and u = "()" and c = "snd sample_resumed"] sample_resumed_returns sample_success
  by (auto simp: sample_resumed_def prod_eq_iff list_all_iff)

end
