(* ===== verification/DurableProperties2.thy ===== *)
theory DurableProperties2
  imports DurableProperties
begin

text \<open>
  Properties of the scheduler's decisions, its order, its ledger, admission and wiring, with the
  closed runs that show where the code departs from what its comments promise.
\<close>

section \<open>Decisions\<close>

text \<open>
  C6. Refinement: what one tick decides, however the numbers, the order and the exclusions it is
  given look, is a run of the abstract lease protocol (each action legal in the state the earlier
  ones left), and applying the actions takes the jobs along that run.
\<close>

theorem decide_refines_protocol:
  assumes "distinct_jobs (in_jobs inp)"
  shows "legal_run (attempt_budget (maxAttempts inp)) (in_now inp) (reclaimBackoffMs inp) (in_jobs inp)
     (decideDurableSchedulerActions inp mint)
     (applyDurableSchedulerActions (in_jobs inp) (decideDurableSchedulerActions inp mint) (in_now inp) (reclaimBackoffMs inp))"
  using assms by (rule decide_run)

definition sample_input :: sched_input where
  "sample_input = tick_input sample_cfg sample_ports (Fin 5) sample_graph"

lemma sample_input_value:
  "decideDurableSchedulerActions sample_input (\<lambda>n. ''w'') = [Lease ''a'' ''w'' (Fin 305)]"
  "distinct_jobs (in_jobs sample_input)"
  by code_simp+

theorem decide_refines_protocol_witness:
  "\<exists>jobs'. legal_run 3 (Fin 5) (Fin 30) sample_graph [Lease ''a'' ''w'' (Fin 305)] jobs'"
  using decide_refines_protocol[OF sample_input_value(2), of "\<lambda>n. ''w''"] sample_input_value(1)
  by (auto simp: sample_input_def sample_cfg_def attempt_budget_def)

text \<open>
  C7. No stall: when the dependencies are closed and acyclic (a ranking decreases along them), no
  lease is out, the clock is past every backoff, the cap is a number and nothing is excluded, a
  run that is not complete always gets an action from its tick.
\<close>

theorem tick_never_stalls:
  assumes "distinct_jobs (in_jobs inp)" "\<not> isDurableRunComplete (in_jobs inp)"
    and "closed_deps (in_jobs inp)" "ranked_deps rank (in_jobs inp)"
    and "leased_count (in_jobs inp) = 0"
    and "in_now inp = Fin t" "list_all (\<lambda>j. \<not> js_gt (nextEligibleAt j) (in_now inp)) (in_jobs inp)"
    and "maxConcurrentLeases inp = Fin q" "excludedJobIds inp = []"
  shows "decideDurableSchedulerActions inp mint \<noteq> []"
  using decide_progress[OF assms(1-6) _ assms(8,9)] assms(7) by (auto simp: list_all_iff)

theorem tick_never_stalls_witness:
  "decideDurableSchedulerActions sample_input (\<lambda>n. ''w'') \<noteq> []"
proof (rule tick_never_stalls[where t = 5 and q = 1 and rank = "\<lambda>i. if i = ''a'' then 0 else 1"])
  show "distinct_jobs (in_jobs sample_input)" by code_simp
  show "\<not> isDurableRunComplete (in_jobs sample_input)" by code_simp
  show "closed_deps (in_jobs sample_input)" by code_simp
  show "ranked_deps (\<lambda>i. if i = ''a'' then 0 else 1) (in_jobs sample_input)" by code_simp
  show "leased_count (in_jobs sample_input) = 0" by code_simp
  show "in_now sample_input = Fin 5" by code_simp
  show "list_all (\<lambda>j. \<not> js_gt (nextEligibleAt j) (in_now sample_input)) (in_jobs sample_input)" by code_simp
  show "maxConcurrentLeases sample_input = Fin 1" by code_simp
  show "excludedJobIds sample_input = []" by code_simp
qed

text \<open>
  The concurrency cap: after a tick at most \<^verbatim>\<open>max(1, trunc(cap))\<close> jobs are leased, unless
  more were leased before it; then it adds none.
\<close>

theorem tick_respects_cap:
  assumes "distinct_jobs (in_jobs inp)" "maxConcurrentLeases inp = Fin q"
  shows "int (leased_count (applyDurableSchedulerActions (in_jobs inp) (decideDurableSchedulerActions inp mint)
      (in_now inp) (reclaimBackoffMs inp))) \<le> max (int (leased_count (in_jobs inp))) (max 1 (rat_trunc q))"
  using tick_lease_count[OF assms] by (simp add: cap_of_def)

theorem tick_respects_cap_witness:
  "int (leased_count (applyDurableSchedulerActions sample_graph [Lease ''a'' ''w'' (Fin 305)] (Fin 5) (Fin 30))) \<le> 1"
  using tick_respects_cap[OF sample_input_value(2), of 1 "\<lambda>n. ''w''"] sample_input_value(1)
  by (simp add: sample_input_def sample_cfg_def sample_graph_def leased_count_def buildDurableJobGraph_def
      filter_empty_conv)

text \<open>
  Unusable numbers: with a clock that is not finite a tick neither reclaims nor leases; with a
  cap that is \<^verbatim>\<open>NaN\<close> the guard of the lease loop never holds, so it leases every job that
  passes the gates, in order, however many there are.
\<close>

theorem unusable_numbers:
  shows "(if js_isFinite (in_now inp) then True
          else decideDurableSchedulerActions inp mint
            = resurrect_actions (job_of (in_jobs inp)) (in_jobs inp)
              @ fail_actions (job_of (in_jobs inp)) (in_jobs inp)
              @ unblock_actions (job_of (in_jobs inp)) (in_jobs inp))
    \<and> (if maxConcurrentLeases inp = NaN
        then map action_job (lease_actions inp mint) = map jobId (filter (tick_gate inp) (lease_candidates inp))
        else True)"
proof -
  have "map action_job (map (\<lambda>(j, k). Lease (jobId j) (mint (0 + k)) e) (zip js [0..<length js])) = map jobId js" for js e
    by (simp add: comp_def case_prod_beta flip: map_map[of jobId fst, unfolded comp_def])
  then have "maxConcurrentLeases inp = NaN
      \<Longrightarrow> map action_job (lease_actions inp mint) = map jobId (filter (tick_gate inp) (lease_candidates inp))"
    by (simp add: lease_actions_def lease_cap_def js_max_def no_cap_loop)
  then show ?thesis
    using no_clock_no_lease no_clock_no_reclaim
    by (auto simp: decideDurableSchedulerActions_def settle_actions_def Let_def)
qed

text \<open>
  The order in which ready jobs are considered does not depend on the order the jobs are listed
  in: with a collation that is a total order, two listings of the same jobs give the same list; it
  is sorted by the priority and holds exactly the ready jobs.
\<close>

theorem ready_order_canonical:
  assumes "collation lc" "distinct_jobs jobs" "mset jobs = mset jobs'"
  shows "ordered (orderReadyJobs lc jobs now meta w limit) = ordered (orderReadyJobs lc jobs' now meta w limit)
    \<and> sorted_wrt (ready_le lc) (ordered (orderReadyJobs lc jobs now meta w limit))
    \<and> mset (map o_jobId (ordered (orderReadyJobs lc jobs now meta w limit)))
        = mset (map jobId (filter (\<lambda>j. jstate j = Ready) jobs))"
proof -
  let ?sc = "score_job jobs now meta (resolve_weights w)"
  let ?o = "\<lambda>js. ordered (orderReadyJobs lc js now meta w limit)"
  have "mset (map jobId jobs) = mset (map jobId jobs')" by (simp add: assms(3))
  then have d': "distinct_jobs jobs'" using assms(2) mset_eq_imp_distinct_iff by blast
  have sc: "?sc = score_job jobs' now meta (resolve_weights w)"
    using score_job_perm[OF assms(3)] by blast
  have m: "mset (?o jobs) = mset (map ?sc (filter (\<lambda>j. jstate j = Ready) jobs))"
    by (simp only: ordered_mset ready_by_id_distinct[OF assms(2)])
  have m': "mset (?o jobs') = mset (map ?sc (filter (\<lambda>j. jstate j = Ready) jobs'))"
    unfolding sc by (simp only: ordered_mset ready_by_id_distinct[OF d'])
  have inj: "j = k" if "j \<in> set jobs" "k \<in> set jobs" "jobId j = jobId k" for j k
    using that assms(2) by (metis job_of_jobId option.inject)
  have "?o jobs = ?o jobs'"
  proof (rule sorted_wrt_unique[where le = "ready_le lc"])
    fix x y assume xy: "x \<in> set (?o jobs)" "y \<in> set (?o jobs)" "ready_le lc x y" "ready_le lc y x"
    then obtain j k where jk: "j \<in> set jobs" "k \<in> set jobs" "x = ?sc j" "y = ?sc k"
      using mset_eq_setD[OF m] by auto
    have "o_jobId x = o_jobId y" using ready_le_antisym[OF assms(1)] xy by blast
    then have "j = k" using jk(3,4) inj[OF jk(1,2)] by simp
    then show "x = y" using jk by simp
  qed (use m m' assms(3) ordered_sorted[OF assms(1)] in auto)
  moreover have "mset (map o_jobId (?o jobs)) = mset (map jobId (filter (\<lambda>j. jstate j = Ready) jobs))"
    using arg_cong[OF m, of "image_mset o_jobId"] by (simp add: comp_def image_mset.compositionality)
  ultimately show ?thesis using ordered_sorted[OF assms(1)] by blast
qed

theorem ready_order_canonical_witness:
  "ordered (orderReadyJobs code_unit_compare sample_graph (Fin 5) (\<lambda>_. None) no_weights None)
    = ordered (orderReadyJobs code_unit_compare (rev sample_graph) (Fin 5) (\<lambda>_. None) no_weights None)"
  using ready_order_canonical[OF collation_code_unit, of sample_graph "rev sample_graph"] sample_graph_inv
  by (simp add: jobs_inv_distinct)

text \<open>
  A report is accepted only where it cannot be wrong: a failure report for a job that holds no
  lease, and a success report for an unknown, blocked or already succeeded job, leave the
  controller as it was, without a log entry; a late success on a failed or reclaimed job is taken.
\<close>

theorem late_reports:
  assumes "distinct_jobs (c_jobs c)"
  shows "(if job_in Leased (job_of (c_jobs c) i)
            \<or> (out = RepSucceeded \<and> (job_in Failed (job_of (c_jobs c) i) \<or> job_in Ready (job_of (c_jobs c) i)))
          then append_ok p (appends c) \<longrightarrow> fst (reportCompletion cfg p i out err c) = Some ()
             \<and> trace (snd (reportCompletion cfg p i out err c)) = trace c @ [Append (Completed i (effective_outcome out err))]
             \<and> (out = RepSucceeded
                 \<longrightarrow> job_in Succeeded (job_of (c_jobs (snd (reportCompletion cfg p i out err c))) i))
          else reportCompletion cfg p i out err c = (Some (), c))"
proof -
  have mark: "job_in Succeeded (job_of (markDurableJob (c_jobs c) i OutSucceeded m) i)"
    if "job_of (c_jobs c) i = Some j" for j m
    using that assms
    by (simp add: mark_is_update job_of_update_job job_in_def) (simp add: mark_job_def)
  show ?thesis
    using mark by (auto simp: reportCompletion_def accepts_report_def find_is_job_of[OF assms] log_and_mark_def effective_outcome_def
        job_in_def split: option.splits)
qed

theorem late_reports_witness:
  "reportCompletion sample_cfg sample_ports ''a'' RepFailed ErrOther (snd sample_end) = (Some (), snd sample_end)"
proof -
  have "distinct_jobs (c_jobs (snd sample_end))" "\<not> job_in Leased (job_of (c_jobs (snd sample_end)) ''a'')"
    by code_simp+
  then show ?thesis
    using late_reports[of "snd sample_end" "''a''" RepFailed sample_ports sample_cfg ErrOther] by simp
qed

end
