(* ===== verification/DurableProperties3.thy ===== *)
theory DurableProperties3
  imports DurableProperties
begin

text \<open>
  Properties of what surrounds the scheduler: the ledger that persists its log, the keys that
  deduplicate leases, admission against the pools, the wiring's entry points and their claims; and
  closed runs on which the code departs from what its comments promise.
\<close>

section \<open>Ledger and keys\<close>

text \<open>
  C8. The ledger loses nothing: log entries written as scheduler events, in clock order, with whole
  deadlines and no lease key twice, are read back as the same entries (without their keys), so the
  log read from the ledger replays to the same jobs as the log itself.
\<close>

theorem ledger_roundtrip:
  assumes "list_all (\<lambda>(e, clock, uuid). whole_deadline e) ws" "env_recordedAt env = None"
    and "distinct (List.map_filter (entry_key \<circ> fst) ws)"
    and "clocks_in_order (write_log env ws)"
    and "run = None \<or> run = Some (env_workflowId env)"
  shows "readDurableSchedulerLog (map SchedulerEvent (write_log env ws) :: 'x ledger_event list) run
      = map (drop_key \<circ> fst) ws
    \<and> replayDurableJobs jobs (readDurableSchedulerLog (map SchedulerEvent (write_log env ws) :: 'x ledger_event list) run) b m
      = replayDurableJobs jobs (map fst ws) b m"
  using read_write_log[OF assms, where 'x = 'x] replay_drop_key[of jobs "map fst ws" b m] by simp

definition sample_envelope :: ledger_envelope where
  "sample_envelope = \<lparr>env_workflowId = ''run'', env_workspacePathHash = ''h'', env_role = None,
     env_recordedAt = None, env_eventId = None\<rparr>"

definition sample_log :: "(log_entry \<times> jsnum \<times> string) list" where
  "sample_log = [(Scheduled (Fin 5) (Lease ''a'' ''w0'' (Fin 305)) (Some ''k0''), Fin 5, ''u0''),
     (Completed ''a'' OutSucceeded, Fin 6, ''u1''),
     (Scheduled (Fin 7) (Unblock ''b'') None, Fin 7, ''u2'')]"

theorem ledger_roundtrip_witness:
  "readDurableSchedulerLog (map SchedulerEvent (write_log sample_envelope sample_log) :: unit ledger_event list) (Some ''run'')
    = [Scheduled (Fin 5) (Lease ''a'' ''w0'' (Fin 305)) None, Completed ''a'' OutSucceeded,
       Scheduled (Fin 7) (Unblock ''b'') None]"
proof -
  have "clocks_in_order (write_log sample_envelope sample_log)"
    by (simp add: clocks_in_order_def write_log_def sample_log_def event_clock sample_envelope_def)
  then show ?thesis
    using ledger_roundtrip[of sample_log sample_envelope "Some ''run''", where 'x = unit]
    by (simp add: sample_log_def sample_envelope_def map_filter_simps)
qed

text \<open>
  At most once: when the digest is 64 characters, as the hexadecimal SHA-256 is, and its first
  half does not collide on the two identities, two leases get the same key exactly when they are the same logical attempt: run, card, workspace, rung, model,
  endpoint and variant agree after trimming and with absent fields empty.
\<close>

theorem attempt_key_identifies:
  assumes "\<And>t. length (sha t) = 64"
    and "take 32 (sha (canonical_identity a)) = take 32 (sha (canonical_identity b))
    \<Longrightarrow> canonical_identity a = canonical_identity b"
  shows "deriveAttemptIdempotencyKey sha a = deriveAttemptIdempotencyKey sha b \<longleftrightarrow> same_attempt a b"
proof
  assume k: "deriveAttemptIdempotencyKey sha a = deriveAttemptIdempotencyKey sha b"
  show "same_attempt a b"
  proof (rule ccontr)
    assume n: "\<not> same_attempt a b"
    then have "canonical_identity a \<noteq> canonical_identity b" by (simp add: canonical_identity_eq)
    then have "take 32 (sha (canonical_identity a)) \<noteq> take 32 (sha (canonical_identity b))" using assms(2) by blast
    moreover have "take 32 (sha (canonical_identity a)) = take 32 (sha (canonical_identity b))"
      using k assms(1) unfolding deriveAttemptIdempotencyKey_def append_assoc[symmetric]
      by (subst (asm) append_eq_append_conv) simp_all
    ultimately show False by simp
  qed
next
  assume s: "same_attempt a b"
  then have "canonical_identity a = canonical_identity b" by (simp add: canonical_identity_eq)
  then show "deriveAttemptIdempotencyKey sha a = deriveAttemptIdempotencyKey sha b"
    using s by (simp add: deriveAttemptIdempotencyKey_def same_attempt_def)
qed

definition sample_identity :: "jsnum \<Rightarrow> attempt_identity" where
  "sample_identity rung = \<lparr>workflowId = ''run'', taskId = ''a'', workspacePathHash = ''h'', attempt = rung,
     modelId = None, endpoint = None, variant = None\<rparr>"

definition sample_digest :: "string \<Rightarrow> string" where
  "sample_digest t = take 64 (t @ replicate 64 CHR ''0'')"

lemma sample_digest_apart:
  "take 32 (sample_digest (canonical_identity (sample_identity (Fin 0))))
    \<noteq> take 32 (sample_digest (canonical_identity (sample_identity (Fin 1))))"
  "\<not> same_attempt (sample_identity (Fin 0)) (sample_identity (Fin 1))"
  by code_simp+

theorem attempt_key_identifies_witness:
  "deriveAttemptIdempotencyKey sample_digest (sample_identity (Fin 0))
    \<noteq> deriveAttemptIdempotencyKey sample_digest (sample_identity (Fin 1))"
  using attempt_key_identifies[of sample_digest "sample_identity (Fin 0)" "sample_identity (Fin 1)"]
    sample_digest_apart by (simp add: sample_digest_def)

section \<open>Admission\<close>

text \<open>
  The admission plan loses no candidate and wastes no slot: the order and the exclusions
  partition the candidates; the admitted ones are some of the candidates, and of every pool exactly
  as many as it has free slots, or all that ask when there are fewer.
\<close>

theorem admission_plan_exact:
  "mset (adm_readyOrder (planDurableAdmission cands pools now bound))
      + mset (adm_excluded (planDurableAdmission cands pools now bound)) = mset (map cand_jobId cands)
   \<and> (\<exists>adm. adm_readyOrder (planDurableAdmission cands pools now bound) = map cand_jobId adm
        \<and> set adm \<subseteq> set cands
        \<and> (\<forall>k. int (in_pool k adm) = (case map_of (free_by_pool pools) k of
              None \<Rightarrow> int (in_pool k cands) | Some n \<Rightarrow> min n (int (in_pool k cands)))))"
  using planDurableAdmission_partition planDurableAdmission_admits by blast

section \<open>Wiring\<close>

text \<open>
  C9. Through any sequence of the wiring's entry points (runs built, resumed, driven, absorbed into,
  disposed, over any number of workspaces), and whatever the ledgers contain when they are read, every
  registered run is safe: the prerequisites of its leased cards have succeeded, and its dispatches are
  logged. It has the controller's whole invariant, the attempt budgets among it, when each ledger a run of
  its workspace was opened on was clean: empty, or left by any number of crashed or stopped lives in which no
  card was reopened or absorbed anew.
\<close>

theorem wiring_keeps_runs:
  assumes "list_all wiring_ok xs"
    and "reg_get (w_reg (fold (wiring_step d) xs \<lparr>w_reg = [], w_claims = []\<rparr>)) w = Some r"
  shows "ctl_safe (dr_ctl r) \<and> (list_all (clean_for d w) xs \<longrightarrow> ctl_inv (dr_cfg r) (dr_ctl r))"
proof -
  have kept: "safe_and_inv F w r" if "F \<subseteq> {w}" "list_all (clean_for d w) xs \<or> F = {}" for F
  proof -
    have "reg_keeps (safe_and_inv F) (w_reg (fold (wiring_step d) xs \<lparr>w_reg = [], w_claims = []\<rparr>))"
      using assms(1) that by (intro wirings.fold_inv) (auto simp: list_all_iff reg_keeps_def)
    then show ?thesis using runs.reg_ok_get assms(2) by blast
  qed
  show ?thesis using kept[of "{}"] kept[of "{w}"] by (simp add: safe_and_inv_def run_safe_def run_inv_def)
qed

definition sample_deps :: wiring_deps where
  "sample_deps = \<lparr>wd_enabled = True, wd_config = sample_cfg, wd_ports = (\<lambda>_ _. sample_ports),
     workflowIdFor = id, hashWorkspacePath = id, claimLedger = Some (\<lambda>_ _. True)\<rparr>"

definition sample_board :: board_view where
  "sample_board = \<lparr>bv_columns = [\<lparr>col_id = ''ready'', col_cards = [''a'']\<rparr>], bv_deps = []\<rparr>"

definition sample_ensure :: "unit wiring_op" where
  "sample_ensure = WEnsure ''W'' ''p'' sample_board False None None (Fin 5)"

text \<open>A run resumed on the log that a crash left of a first one, which had a lease and a success.\<close>

definition crashed_log :: "log_entry list" where
  "crashed_log = take 3 (logged_entries (trace (snd sample_end)))"

definition crashed_ledger :: "unit ledger_event list" where
  "crashed_ledger = map SchedulerEvent (write_log (sample_envelope\<lparr>env_workflowId := ''W''\<rparr>)
     (map (\<lambda>e. (e, Fin 6, ''u'')) crashed_log))"

definition resumed_board :: board_view where
  "resumed_board = \<lparr>bv_columns = [\<lparr>col_id = ''ready'', col_cards = [''a'', ''b'']\<rparr>],
     bv_deps = [\<lparr>edgeFrom = ''b'', edgeTo = ''a''\<rparr>]\<rparr>"

definition sample_resume :: "unit wiring_op" where
  "sample_resume = WEnsure ''W'' ''p'' resumed_board True None (Some crashed_ledger) (Fin 9)"

lemma crashed_survives: "survives sample_cfg crashed_log {} {}"
proof -
  have "sample_cfg = sample_cfg\<lparr>cfg_maxConcurrentLeases := Fin 1\<rparr>" by (simp add: sample_cfg_def)
  moreover have "lf_ctl (life_of sample_cfg sample_ports [] sample_graph sample_run) = sample_end"
    by (simp add: life_ctl sample_end_def)
  moreover have "list_all logged_op sample_run" by (simp add: sample_run_def)
  ultimately show ?thesis
    using sv_life[OF sv_start sample_fresh(2) sample_second_leased(1), where cfg = sample_cfg
        and l = "life_of sample_cfg sample_ports [] sample_graph sample_run" and m = "Fin 1" and p = sample_ports and n = 3]
      life_logged[of sample_run sample_cfg sample_ports "[]" sample_graph]
    by (simp add: crashed_log_def)
qed

lemma sample_resume_ok: "wiring_ok sample_resume" "clean_for sample_deps ''W'' sample_resume"
proof -
  show "wiring_ok sample_resume" unfolding sample_resume_def by code_simp
  have "prior_log sample_deps ''W'' (Some crashed_ledger) = map drop_key crashed_log" by code_simp
  then show "clean_for sample_deps ''W'' sample_resume"
    using crashed_survives by (auto simp: sample_resume_def sample_deps_def)
qed

theorem wiring_keeps_runs_witness:
  "\<exists>r. reg_get (w_reg (fold (wiring_step sample_deps) [sample_resume] \<lparr>w_reg = [], w_claims = []\<rparr>)) ''W'' = Some r
     \<and> ctl_safe (dr_ctl r) \<and> ctl_inv (dr_cfg r) (dr_ctl r)"
proof -
  have "reg_has (w_reg (fold (wiring_step sample_deps) [sample_resume] \<lparr>w_reg = [], w_claims = []\<rparr>)) ''W''"
    by code_simp
  then obtain r where "reg_get (w_reg (fold (wiring_step sample_deps) [sample_resume] \<lparr>w_reg = [], w_claims = []\<rparr>)) ''W'' = Some r"
    by (auto simp: reg_has_def)
  then show ?thesis using wiring_keeps_runs[of "[sample_resume]" sample_deps "''W''" r] sample_resume_ok by simp
qed

section \<open>Departures from the comments\<close>

text \<open>
  The claims leak: the source states that a workspace's claim on its ledger is released on every
  disposal path, and \<^verbatim>\<open>dispose\<close>, \<^verbatim>\<open>tickAll\<close> and \<^verbatim>\<open>absorbBoardCards\<close> do
  so; but when the last card's delivery completes the run, the registry drops the run itself and
  the claim stays held with no run behind it.
\<close>

theorem delivery_leaks_claim:
  "w_claims (dispose ''W'' (wiring_step sample_deps sample_ensure \<lparr>w_reg = [], w_claims = []\<rparr>)) = []
   \<and> claims_held (wiring_step sample_deps sample_ensure \<lparr>w_reg = [], w_claims = []\<rparr>)
   \<and> w_claims (snd (observeDelivered sample_deps ''W'' ''a'' (Fin 6)
        (wiring_step sample_deps sample_ensure \<lparr>w_reg = [], w_claims = []\<rparr>))) = [''W'']
   \<and> activeWorkspaceIds (w_reg (snd (observeDelivered sample_deps ''W'' ''a'' (Fin 6)
        (wiring_step sample_deps sample_ensure \<lparr>w_reg = [], w_claims = []\<rparr>)))) = []"
proof (intro conjI)
  show "w_claims (dispose ''W'' (wiring_step sample_deps sample_ensure \<lparr>w_reg = [], w_claims = []\<rparr>)) = []"
    by code_simp
  show "claims_held (wiring_step sample_deps sample_ensure \<lparr>w_reg = [], w_claims = []\<rparr>)"
    by code_simp
  show "w_claims (snd (observeDelivered sample_deps ''W'' ''a'' (Fin 6)
        (wiring_step sample_deps sample_ensure \<lparr>w_reg = [], w_claims = []\<rparr>))) = [''W'']"
    by code_simp
  show "activeWorkspaceIds (w_reg (snd (observeDelivered sample_deps ''W'' ''a'' (Fin 6)
        (wiring_step sample_deps sample_ensure \<lparr>w_reg = [], w_claims = []\<rparr>)))) = []"
    by code_simp
qed

definition full_pool_ports :: run_ports where
  "full_pool_ports = sample_ports\<lparr>planAdmission := Some (\<lambda>jobs now.
     fst (wiring_plan [\<lparr>poolKey = ''P'', capacity = 1, inUse = 1\<rparr>] (\<lambda>_. Some ''P'') jobs now []))\<rparr>"

definition unblockable_graph :: "job list" where
  "unblockable_graph = map (\<lambda>j. if jobId j = ''a'' then j\<lparr>jstate := Succeeded\<rparr> else j) sample_graph"

text \<open>
  Admission is bypassed by a card unblocked in the same tick: the plan sees the jobs that are
  ready before the tick only, so with the one pool of the run full, a job that the tick itself
  unblocks is neither ordered nor excluded, and is leased into the full pool at once.
\<close>

theorem unblocked_bypasses_admission:
  "fst (tick sample_cfg full_pool_ports (Fin 5) (new_controller unblockable_graph))
     = Some [Unblock ''b'', Lease ''b'' ''w0'' (Fin 305)]
   \<and> fst (tick sample_cfg full_pool_ports (Fin 5) (new_controller
        (map (\<lambda>j. if jobId j = ''b'' then j\<lparr>jstate := Ready\<rparr> else j) unblockable_graph))) = Some []"
  by code_simp

definition keyed_ports :: run_ports where
  "keyed_ports = sample_ports\<lparr>lease_ident := Some (run_identity sample_deps ''W'' ''p'')\<rparr>"

definition one_graph :: "job list" where
  "one_graph = buildDurableJobGraph [''a''] [] []"

definition reopened_end :: "bool \<times> controller" where
  "reopened_end = fold (live_step sample_cfg keyed_ports)
     [OpTick (Fin 5), OpReport ''a'' RepFailed ErrOther, OpReconcile one_graph {''a''}, OpTick (Fin 7)]
     (True, new_controller one_graph)"

definition reopened_ledger :: "unit ledger_event list" where
  "reopened_ledger = map SchedulerEvent (write_log sample_envelope
     (map (\<lambda>e. (e, Fin 6, ''u'')) (logged_entries (trace (snd reopened_end)))))"

text \<open>
  A reopened card's second life is lost on restart: the board reconciliation resets the attempts
  and is not logged, so the first lease after it carries the key of the card's very first lease;
  the ledger's reader drops it as a duplicate, and replay leaves the job failed although the run
  holds a live lease on it. The digest here is injective.
\<close>

theorem reopened_lease_dropped:
  "map jstate (c_jobs (snd reopened_end)) = [Leased]
   \<and> map jstate (replayDurableJobs one_graph (readDurableSchedulerLog reopened_ledger None) (Fin 30) (Fin 3)) = [Failed]"
  by code_simp

end
