(* ===== verification/BoardData.thy ===== *)
theory BoardData
  imports Text
begin

text \<open>
  The board's data (\<^verbatim>\<open>src/core/board-api-contract.ts\<close>), the normalisers of card fields
  (\<^verbatim>\<open>src/core/task-field-normalization.ts\<close>), titles (\<^verbatim>\<open>src/core/task-title.ts\<close>), ids
  (\<^verbatim>\<open>src/core/task-id.ts\<close>) and the result-branch test
  (\<^verbatim>\<open>src/core/task-result-branch-naming.ts\<close>). Objects that the board carries and never looks
  into are of the type \<open>'x\<close>; the fields of a card that no board mutation reads or writes are its
  list \<open>card_rest\<close> of named values. The ellipsis, one code unit, is written as the unused
  control code 133.
\<close>

section \<open>Cards, columns, boards\<close>

datatype column_id = Backlog | Planning | ReadyLane | InProgress | ReviewLane | CompletedLane | TrashLane

datatype auto_review_mode = CommitMode | PrMode | StageMode

datatype testability = Testable | NotTestable

datatype trusted_origin = OperatorOrigin | PlanOrigin | ExternalOrigin

record 'x nklein_settings =
  providerId :: "string option"
  ns_modelId :: "string option"
  reasoningEffort :: "string option"
  contextScope :: "string option"
  executionMode :: "string option"
  timeoutMode :: "string option"
  requestTimeoutMs :: "jsnum option option"
  streamTimeoutMs :: "jsnum option option"
  toolTimeoutMs :: "jsnum option option"
  agentTimeoutMs :: "jsnum option option"
  conversationTimeoutMs :: "jsnum option option"
  fleetDecomposition :: "'x option"

record 'x board_card =
  card_id :: string
  card_title :: "string option"
  card_prompt :: string
  startInPlanMode :: bool
  autoReviewEnabled :: "bool option"
  externallySupervised :: "bool option"
  autoReviewMode :: "auto_review_mode option"
  testEvidencePolicy :: "string option"
  card_testability :: "testability option"
  testabilityReason :: "string option"
  card_images :: "'x list option"
  agentId :: "string option"
  nkleinSettings :: "'x nklein_settings option"
  filesLikelyTouched :: "string list option"
  writeScope :: "string list option"
  forbiddenPaths :: "string list option"
  generatedFromPlan :: "'x option"
  trustedOrigin :: "trusted_origin option"
  fleetReshardRequest :: "'x option"
  streamId :: "string option"
  redecomposeOf :: "string option"
  decomposeGeneration :: "nat option"
  baseRef :: string
  card_createdAt :: jsnum
  card_updatedAt :: jsnum
  card_rest :: "(string \<times> 'x) list"

record 'x board_column =
  column_id :: column_id
  column_title :: string
  cards :: "'x board_card list"

record dependency =
  dep_id :: string
  fromTaskId :: string
  toTaskId :: string
  dep_createdAt :: jsnum

datatype released_by = ByCompletion | ByTrash | DependentTerminal

record satisfied_dependency =
  sat_id :: string
  sat_from :: string
  sat_to :: string
  sat_createdAt :: jsnum
  releasedAt :: jsnum
  releasedBy :: released_by

record 'x board =
  board_columns :: "'x board_column list"
  dependencies :: "dependency list"
  board_streams :: "'x list option"
  satisfiedDependencies :: "satisfied_dependency list option"

section \<open>Field normalisers\<close>

text \<open>A string that JavaScript counts as absent: \<^verbatim>\<open>value ? ... : ...\<close>\<close>

definition truthy :: "string option \<Rightarrow> string option" where
  "truthy s = (if s = Some [] then None else s)"

definition normalizeTaskAutoReviewMode :: "auto_review_mode option \<Rightarrow> auto_review_mode" where
  "normalizeTaskAutoReviewMode m = (case m of Some PrMode \<Rightarrow> PrMode | Some StageMode \<Rightarrow> StageMode | _ \<Rightarrow> CommitMode)"

definition cloneTaskImages :: "'x list option \<Rightarrow> 'x list option" where
  "cloneTaskImages is = (if is = Some [] then None else is)"

definition cloneTaskNKleinSettings :: "'x nklein_settings option \<Rightarrow> 'x nklein_settings option" where
  "cloneTaskNKleinSettings s = map_option (\<lambda>c.
     \<lparr>providerId = truthy (map_option trim (providerId c)),
      ns_modelId = truthy (map_option trim (ns_modelId c)),
      reasoningEffort = truthy (reasoningEffort c),
      contextScope = truthy (contextScope c),
      executionMode = truthy (executionMode c),
      timeoutMode = truthy (timeoutMode c),
      requestTimeoutMs = requestTimeoutMs c,
      streamTimeoutMs = streamTimeoutMs c,
      toolTimeoutMs = toolTimeoutMs c,
      agentTimeoutMs = agentTimeoutMs c,
      conversationTimeoutMs = conversationTimeoutMs c,
      fleetDecomposition = fleetDecomposition c\<rparr>) s"

text \<open>The two fields of the declaration; the reason goes with \<^verbatim>\<open>not_testable\<close> only.\<close>

definition normalizeTaskTestabilityFields ::
  "testability option \<Rightarrow> string option \<Rightarrow> testability option \<times> string option" where
  "normalizeTaskTestabilityFields t reason = (case t of
       None \<Rightarrow> (None, None)
     | Some Testable \<Rightarrow> (Some Testable, None)
     | Some NotTestable \<Rightarrow> (Some NotTestable, truthy (map_option trim reason)))"

definition normalizeFilesLikelyTouched :: "string list option \<Rightarrow> string list option" where
  "normalizeFilesLikelyTouched files = (case files of
       None \<Rightarrow> None
     | Some fs \<Rightarrow>
         (let n = oset_of (filter (\<lambda>p. p \<noteq> []) (map trim fs)) in if n = [] then None else Some n))"

lemma normalizeFiles_idem: "normalizeFilesLikelyTouched (normalizeFilesLikelyTouched fs) = normalizeFilesLikelyTouched fs"
proof -
  have "oset_of xs = xs" if "distinct xs" for xs :: "string list"
  proof -
    have "distinct (s @ xs) \<Longrightarrow> fold oset_add xs s = s @ xs" for s
      by (induction xs arbitrary: s) (auto simp: oset_add_def)
    from this[of "[]"] show ?thesis using that by (simp add: oset_of_def)
  qed
  moreover have "map trim (oset_of (filter (\<lambda>p. p \<noteq> []) (map trim fs))) = oset_of (filter (\<lambda>p. p \<noteq> []) (map trim fs))"
    for fs by (rule map_idI) auto
  ultimately show ?thesis
    by (auto simp: normalizeFilesLikelyTouched_def Let_def filter_id_conv split: option.split)
qed

section \<open>Ids and branches\<close>

definition createShortTaskId :: "string \<Rightarrow> string" where
  "createShortTaskId uuid = take 5 (filter (\<lambda>c. c \<noteq> CHR ''-'') uuid)"

text \<open>
  Up to 16 uuids from the supply, then the fallback \<^verbatim>\<open>Math.random().toString(36).slice(2, 7)\<close>,
  which is not compared with the existing ids.
\<close>

fun try_task_ids :: "string set \<Rightarrow> (nat \<Rightarrow> string) \<Rightarrow> string \<Rightarrow> nat \<Rightarrow> nat \<Rightarrow> string" where
  "try_task_ids existing uuids fallback k 0 = fallback"
| "try_task_ids existing uuids fallback k (Suc n) =
     (let candidate = createShortTaskId (uuids k)
      in if candidate \<notin> existing then candidate else try_task_ids existing uuids fallback (Suc k) n)"

definition createUniqueTaskId :: "string set \<Rightarrow> (nat \<Rightarrow> string) \<Rightarrow> string \<Rightarrow> string" where
  "createUniqueTaskId existing uuids fallback = try_task_ids existing uuids fallback 0 16"

lemma try_task_ids_fresh:
  "try_task_ids existing uuids fallback k n \<in> existing \<longleftrightarrow>
    fallback \<in> existing \<and> (\<forall>i < n. createShortTaskId (uuids (k + i)) \<in> existing)"
proof (induction n arbitrary: k)
  case 0
  then show ?case by simp
next
  case (Suc n)
  have "(\<forall>i < Suc n. createShortTaskId (uuids (k + i)) \<in> existing) \<longleftrightarrow>
      createShortTaskId (uuids k) \<in> existing \<and> (\<forall>i < n. createShortTaskId (uuids (Suc k + i)) \<in> existing)"
    by (auto simp: All_less_Suc2)
  then show ?case using Suc.IH[of "Suc k"] by (auto simp: Let_def)
qed

text \<open>\<^verbatim>\<open>replace(/^refs\/heads\//u, "")\<close>, then a test on the first path segments.\<close>

definition starts_with :: "string \<Rightarrow> string \<Rightarrow> bool" where
  "starts_with p s = (take (length p) s = p)"

definition isTaskResultBranchRef :: "string option \<Rightarrow> bool" where
  "isTaskResultBranchRef ref = (case ref of None \<Rightarrow> False
     | Some r \<Rightarrow>
         (let t = trim r; n = (if starts_with ''refs/heads/'' t then drop 11 t else t)
          in n \<noteq> [] \<and> starts_with ''nklein/tasks/'' (n @ ''/'')))"

section \<open>Titles\<close>

abbreviation ellipsis :: char where
  "ellipsis \<equiv> CHR 0x85"

function collapse_ws :: "string \<Rightarrow> string" where
  "collapse_ws [] = []"
| "collapse_ws (c # s) = (if is_ws c then CHR '' '' # collapse_ws (dropWhile is_ws s) else c # collapse_ws s)"
  by pat_completeness auto
termination
  by (relation "measure length") (auto simp: le_imp_less_Suc length_dropWhile_le)

definition normalizeTaskTitleWhitespace :: "string \<Rightarrow> string" where
  "normalizeTaskTitleWhitespace v = trim (collapse_ws v)"

definition truncateTaskTitle :: "string \<Rightarrow> int \<Rightarrow> string" where
  "truncateTaskTitle v maxChars =
     (if maxChars \<le> 0 then []
      else if int (length v) \<le> maxChars then v
      else trim_end (take (nat maxChars) v) @ [ellipsis])"

abbreviation not_gt :: "char \<Rightarrow> bool" where
  "not_gt c \<equiv> c \<noteq> CHR ''>''"

text \<open>\<^verbatim>\<open>/^<user_input(?:\s[^>]*)?>/\<close> and \<^verbatim>\<open>/<\/user_input>$/\<close>\<close>

definition strip_user_input_open :: "string \<Rightarrow> string" where
  "strip_user_input_open s =
     (if \<not> starts_with ''<user_input'' s then s
      else (let t = drop 11 s in
        case t of
          [] \<Rightarrow> s
        | c # u \<Rightarrow>
            (if c = CHR ''>'' then u
             else if is_ws c \<and> dropWhile not_gt u \<noteq> [] then tl (dropWhile not_gt u)
             else s)))"

definition strip_user_input_close :: "string \<Rightarrow> string" where
  "strip_user_input_close s =
     (if 13 \<le> length s \<and> drop (length s - 13) s = ''</user_input>'' then take (length s - 13) s else s)"

definition stripOuterUserInputTag :: "string \<Rightarrow> string" where
  "stripOuterUserInputTag v = trim (strip_user_input_close (strip_user_input_open v))"

text \<open>\<^verbatim>\<open>/^<[^>]+>/\<close> and \<^verbatim>\<open>/<\/[^>]+>$/\<close>, the latter searched from the left.\<close>

definition strip_open_tag :: "string \<Rightarrow> string" where
  "strip_open_tag s = (case s of
       [] \<Rightarrow> s
     | c # t \<Rightarrow>
         (if c = CHR ''<'' \<and> takeWhile not_gt t \<noteq> [] \<and> dropWhile not_gt t \<noteq> []
          then tl (dropWhile not_gt t) else s))"

definition closes_line :: "string \<Rightarrow> bool" where
  "closes_line s \<longleftrightarrow> starts_with ''</'' s \<and> takeWhile not_gt (drop 2 s) \<noteq> []
     \<and> dropWhile not_gt (drop 2 s) = ''>''"

fun strip_close_tag :: "string \<Rightarrow> string" where
  "strip_close_tag [] = []"
| "strip_close_tag (c # s) = (if closes_line (c # s) then [] else c # strip_close_tag s)"

text \<open>\<^verbatim>\<open>/^(.+?[.!?])(?:\s|$)/\<close>: the shortest prefix, of at least two characters.\<close>

fun sentence_from :: "string \<Rightarrow> string option" where
  "sentence_from [] = None"
| "sentence_from (c # s) =
     (if c \<in> {CHR ''.'', CHR ''!'', CHR ''?''} \<and> (s = [] \<or> is_ws (hd s)) then Some [c]
      else map_option ((#) c) (sentence_from s))"

definition first_sentence :: "string \<Rightarrow> string option" where
  "first_sentence s = (case s of [] \<Rightarrow> None | c # t \<Rightarrow> map_option ((#) c) (sentence_from t))"

text \<open>\<^verbatim>\<open>split(/\r?\n/u)\<close>\<close>

definition drop_last_cr :: "string \<Rightarrow> string" where
  "drop_last_cr s = (if s \<noteq> [] \<and> last s = CHR 0x0D then butlast s else s)"

fun split_lines :: "string \<Rightarrow> string \<Rightarrow> string list" where
  "split_lines acc [] = [rev acc]"
| "split_lines acc (c # s) =
     (if c = CHR 0x0A then drop_last_cr (rev acc) # split_lines [] s else split_lines (c # acc) s)"

definition deriveTaskTitleFromPrompt :: "string \<Rightarrow> int \<Rightarrow> string" where
  "deriveTaskTitleFromPrompt prompt maxChars =
     (let line = (case find (\<lambda>l. l \<noteq> []) (map trim (split_lines [] prompt)) of None \<Rightarrow> [] | Some l \<Rightarrow> l);
          stripped = trim (strip_close_tag (strip_open_tag line));
          normalized = normalizeTaskTitleWhitespace stripped
      in if normalized = [] then []
         else truncateTaskTitle (case first_sentence normalized of None \<Rightarrow> normalized | Some s \<Rightarrow> s) maxChars)"

definition resolveTaskTitle :: "string option \<Rightarrow> string \<Rightarrow> string" where
  "resolveTaskTitle title prompt =
     (let normalized = normalizeTaskTitleWhitespace (case title of None \<Rightarrow> [] | Some t \<Rightarrow> t)
      in if normalized \<noteq> []
         then (let stripped = stripOuterUserInputTag normalized
               in if stripped \<noteq> [] then truncateTaskTitle stripped 80 else deriveTaskTitleFromPrompt prompt 80)
         else deriveTaskTitleFromPrompt prompt 80)"

lemma length_truncate: "0 < m \<Longrightarrow> length (truncateTaskTitle v m) \<le> Suc (nat m)"
  using length_dropWhile_le[of is_ws "rev (take (nat m) v)"]
  by (auto simp: truncateTaskTitle_def trim_end_def)

lemma length_derive: "length (deriveTaskTitleFromPrompt p 80) \<le> 81"
  using length_truncate[of 80] by (auto simp: deriveTaskTitleFromPrompt_def Let_def)

lemma length_title: "length (resolveTaskTitle t p) \<le> 81"
  using length_truncate[of 80] length_derive by (auto simp: resolveTaskTitle_def Let_def)

end
