(* ===== verification/BoardDeps.thy ===== *)
theory BoardDeps
  imports BoardData
begin

text \<open>
  Looking cards up and the dependency edges of the board
  (\<^verbatim>\<open>src/core/task-board-mutations.ts\<close>): where a card is, which end of a new edge waits, the
  cycle test, adding and removing an edge, reconciling the edges with the cards. The uuid of a new
  edge and the clock are arguments.
\<close>

section \<open>Lookups\<close>

definition column_ids :: "'x board_column \<Rightarrow> string list" where
  "column_ids c = map card_id (cards c)"

definition board_ids :: "'x board \<Rightarrow> string list" where
  "board_ids b = concat (map column_ids (board_columns b))"

definition collectTaskIds :: "'x board \<Rightarrow> string set" where
  "collectTaskIds b = set (board_ids b)"

record 'x task_location =
  loc_column :: nat
  loc_task :: nat
  loc_columnId :: column_id
  loc_card :: "'x board_card"

fun find_in_columns :: "nat \<Rightarrow> 'x board_column list \<Rightarrow> string \<Rightarrow> 'x task_location option" where
  "find_in_columns n [] i = None"
| "find_in_columns n (c # cs) i =
     (case find_index (\<lambda>k. card_id k = i) (cards c) of
        None \<Rightarrow> find_in_columns (Suc n) cs i
      | Some t \<Rightarrow> Some \<lparr>loc_column = n, loc_task = t, loc_columnId = column_id c, loc_card = cards c ! t\<rparr>)"

definition findTaskLocation :: "'x board \<Rightarrow> string \<Rightarrow> 'x task_location option" where
  "findTaskLocation b i = find_in_columns 0 (board_columns b) i"

definition getTaskColumnId :: "'x board \<Rightarrow> string \<Rightarrow> column_id option" where
  "getTaskColumnId b i =
     (if trim i = [] then None else map_option loc_columnId (findTaskLocation b (trim i)))"

definition findBoardCardWithColumn :: "'x board \<Rightarrow> string \<Rightarrow> ('x board_card \<times> column_id) option" where
  "findBoardCardWithColumn b i = map_option (\<lambda>l. (loc_card l, loc_columnId l)) (findTaskLocation b i)"

section \<open>The ends of an edge\<close>

datatype dep_reason = MissingTask | SameTask | DuplicateEdge | TrashTask | NonBacklog | WouldCreateCycle

abbreviation terminal_lane :: "column_id \<Rightarrow> bool" where
  "terminal_lane c \<equiv> c = CompletedLane \<or> c = TrashLane"

abbreviation waiting_lane :: "column_id \<Rightarrow> bool" where
  "waiting_lane c \<equiv> c = Backlog \<or> c = Planning \<or> c = ReadyLane"

text \<open>The waiting task first, the one it depends on second, or the reason there is no edge.\<close>

definition resolveDependencyEndpoints :: "'x board \<Rightarrow> string \<Rightarrow> string \<Rightarrow> dep_reason + string \<times> string" where
  "resolveDependencyEndpoints b first second =
     (case (getTaskColumnId b first, getTaskColumnId b second) of
        (Some c, Some d) \<Rightarrow>
          (if terminal_lane c \<or> terminal_lane d then Inl TrashTask
           else if waiting_lane c \<and> waiting_lane d then Inr (first, second)
           else if \<not> waiting_lane c \<and> \<not> waiting_lane d then Inl NonBacklog
           else if waiting_lane c then Inr (first, second) else Inr (second, first))
      | _ \<Rightarrow> Inl MissingTask)"

definition createDependencyPairKey :: "string \<Rightarrow> string \<Rightarrow> string" where
  "createDependencyPairKey a b = a @ ''::'' @ b"

definition createDependencyId :: "string \<Rightarrow> string" where
  "createDependencyId uuid = take 8 (filter (\<lambda>c. c \<noteq> CHR ''-'') uuid)"

definition hasDependencyPair :: "'x board \<Rightarrow> string \<Rightarrow> string \<Rightarrow> bool" where
  "hasDependencyPair b waiting linked = list_ex (\<lambda>d.
     case resolveDependencyEndpoints b (fromTaskId d) (toTaskId d) of
       Inl _ \<Rightarrow> False
     | Inr (w, l) \<Rightarrow> createDependencyPairKey w l = createDependencyPairKey waiting linked) (dependencies b)"

section \<open>The cycle test\<close>

text \<open>\<^verbatim>\<open>dependsOn.get(node) ?? []\<close>\<close>

definition depends_on :: "dependency list \<Rightarrow> string \<Rightarrow> string list" where
  "depends_on ds n = map toTaskId (filter (\<lambda>d. fromTaskId d = n) ds)"

definition dep_edges :: "dependency list \<Rightarrow> (string \<times> string) set" where
  "dep_edges ds = (\<lambda>d. (fromTaskId d, toTaskId d)) ` set ds"

definition dep_nodes :: "dependency list \<Rightarrow> string set" where
  "dep_nodes ds = fromTaskId ` set ds \<union> toTaskId ` set ds"

text \<open>The stack's top is the head of the list; \<^verbatim>\<open>push\<close> in order leaves the last pushed on top.\<close>

function dfs_reaches :: "dependency list \<Rightarrow> string \<Rightarrow> string list \<Rightarrow> string list \<Rightarrow> bool" where
  "dfs_reaches ds goal visited [] = False"
| "dfs_reaches ds goal visited (n # stack) =
     (if n \<in> set visited then dfs_reaches ds goal visited stack
      else if n = goal then True
      else dfs_reaches ds goal (n # visited) (rev (depends_on ds n) @ stack))"
  by pat_completeness auto
termination
proof (relation "inv_image (less_than <*lex*> less_than)
    (\<lambda>(ds, goal, visited, stack). (card (dep_nodes ds - set visited), length stack))", goal_cases)
  case 1
  show ?case by (intro wf_inv_image wf_lex_prod wf_less_than)
next
  case 2
  then show ?case by simp
next
  case (3 ds goal visited n stack)
  have fin: "finite (dep_nodes ds - set visited)" by (simp add: dep_nodes_def)
  show ?case
  proof (cases "n \<in> dep_nodes ds")
    case True
    then have "dep_nodes ds - set (n # visited) \<subset> dep_nodes ds - set visited" using 3(1) by auto
    then have "card (dep_nodes ds - set (n # visited)) < card (dep_nodes ds - set visited)"
      using fin by (rule psubset_card_mono[rotated])
    then show ?thesis by simp
  next
    case False
    then have "depends_on ds n = []" "dep_nodes ds - set (n # visited) = dep_nodes ds - set visited"
      by (auto simp: depends_on_def dep_nodes_def filter_empty_conv)
    then show ?thesis by simp
  qed
qed

definition wouldCreateDependencyCycle :: "'x board \<Rightarrow> string \<Rightarrow> string \<Rightarrow> bool" where
  "wouldCreateDependencyCycle b f t =
     (if f = t then True
      else dfs_reaches (dependencies b) f [t] (rev (depends_on (dependencies b) t)))"

text \<open>Paths that stay clear of the visited nodes.\<close>

abbreviation clear_of :: "string set \<Rightarrow> (string \<times> string) set \<Rightarrow> (string \<times> string) set" where
  "clear_of V E \<equiv> {(a, b) \<in> E. b \<notin> V}"

lemma clear_path_split:
  assumes "(s, t) \<in> (clear_of V E)\<^sup>*" "s \<notin> V" "t \<noteq> n"
  shows "((s, t) \<in> (clear_of (insert n V) E)\<^sup>* \<and> s \<noteq> n)
    \<or> (\<exists>m. (n, m) \<in> E \<and> m \<notin> insert n V \<and> (m, t) \<in> (clear_of (insert n V) E)\<^sup>*)"
  using assms(1,2)
proof (induction rule: converse_rtrancl_induct)
  case base
  then show ?case using assms(3) by simp
next
  case (step x y)
  then have y: "(x, y) \<in> E" "y \<notin> V" by auto
  from step.IH y(2) consider
      (stay) "(y, t) \<in> (clear_of (insert n V) E)\<^sup>*" "y \<noteq> n"
    | (go) "\<exists>m. (n, m) \<in> E \<and> m \<notin> insert n V \<and> (m, t) \<in> (clear_of (insert n V) E)\<^sup>*" by blast
  then show ?case
  proof cases
    case stay
    then have xt: "(x, t) \<in> (clear_of (insert n V) E)\<^sup>*"
      using y by (intro converse_rtrancl_into_rtrancl[of x y]) auto
    show ?thesis
    proof (cases "x = n")
      case True
      then show ?thesis using y stay by blast
    next
      case False
      then show ?thesis using xt by blast
    qed
  next
    case go
    then show ?thesis by blast
  qed
qed

lemma clear_of_mono: "(s, t) \<in> (clear_of (insert n V) E)\<^sup>* \<Longrightarrow> (s, t) \<in> (clear_of V E)\<^sup>*"
  by (rule rtrancl_mono[THEN subsetD]) auto

lemma dfs_reaches_iff:
  "goal \<notin> set visited \<Longrightarrow> dfs_reaches ds goal visited stack \<longleftrightarrow>
     (\<exists>s \<in> set stack. s \<notin> set visited \<and> (s, goal) \<in> (clear_of (set visited) (dep_edges ds))\<^sup>*)"
proof (induction ds goal visited stack rule: dfs_reaches.induct)
  case (1 ds goal visited)
  then show ?case by simp
next
  case (2 ds goal visited n stack)
  let ?E = "dep_edges ds" and ?V = "set visited"
  have nexts: "set (depends_on ds n) = {m. (n, m) \<in> ?E}"
    by (force simp: depends_on_def dep_edges_def)
  consider (seen) "n \<in> ?V" | (hit) "n \<notin> ?V" "n = goal" | (open_) "n \<notin> ?V" "n \<noteq> goal" by blast
  then show ?case
  proof cases
    case seen
    then show ?thesis using "2.IH"(1)[OF seen "2.prems"] by auto
  next
    case hit
    then show ?thesis by auto
  next
    case open_
    have ih: "dfs_reaches ds goal (n # visited) (rev (depends_on ds n) @ stack) \<longleftrightarrow>
        (\<exists>s \<in> {m. (n, m) \<in> ?E} \<union> set stack. s \<notin> insert n ?V \<and> (s, goal) \<in> (clear_of (insert n ?V) ?E)\<^sup>*)"
      using "2.IH"(2)[OF open_(1) open_(2)] "2.prems" open_ nexts by simp
    have "(\<exists>s \<in> {m. (n, m) \<in> ?E} \<union> set stack. s \<notin> insert n ?V \<and> (s, goal) \<in> (clear_of (insert n ?V) ?E)\<^sup>*)
      \<longleftrightarrow> (\<exists>s \<in> set (n # stack). s \<notin> ?V \<and> (s, goal) \<in> (clear_of ?V ?E)\<^sup>*)" (is "?L \<longleftrightarrow> ?R")
    proof
      assume ?L
      then obtain s where s: "(n, s) \<in> ?E \<or> s \<in> set stack" "s \<notin> insert n ?V"
        "(s, goal) \<in> (clear_of ?V ?E)\<^sup>*" using clear_of_mono by blast
      show ?R
      proof (cases "s \<in> set stack")
        case True
        then show ?thesis using s by auto
      next
        case False
        then have "(n, s) \<in> clear_of ?V ?E" using s by auto
        then have "(n, goal) \<in> (clear_of ?V ?E)\<^sup>*" using s(3) by (rule converse_rtrancl_into_rtrancl)
        then show ?thesis using open_(1) by auto
      qed
    next
      assume ?R
      then obtain s where s: "s = n \<or> s \<in> set stack" "s \<notin> ?V" "(s, goal) \<in> (clear_of ?V ?E)\<^sup>*" by auto
      from clear_path_split[OF s(3,2)] open_(2) have "((s, goal) \<in> (clear_of (insert n ?V) ?E)\<^sup>* \<and> s \<noteq> n)
        \<or> (\<exists>m. (n, m) \<in> ?E \<and> m \<notin> insert n ?V \<and> (m, goal) \<in> (clear_of (insert n ?V) ?E)\<^sup>*)" by auto
      then show ?L using s(1,2) by blast
    qed
    then show ?thesis using open_ ih by simp
  qed
qed

lemma wouldCreateDependencyCycle_iff:
  "wouldCreateDependencyCycle b f t \<longleftrightarrow> (t, f) \<in> (dep_edges (dependencies b))\<^sup>*"
proof (cases "f = t")
  case True
  then show ?thesis by (simp add: wouldCreateDependencyCycle_def)
next
  case False
  let ?E = "dep_edges (dependencies b)"
  have nexts: "set (depends_on (dependencies b) t) = {m. (t, m) \<in> ?E}"
    by (force simp: depends_on_def dep_edges_def)
  have "wouldCreateDependencyCycle b f t \<longleftrightarrow>
      (\<exists>m. (t, m) \<in> ?E \<and> m \<notin> {t} \<and> (m, f) \<in> (clear_of {t} ?E)\<^sup>*)"
    using False nexts by (auto simp: wouldCreateDependencyCycle_def dfs_reaches_iff)
  also have "\<dots> \<longleftrightarrow> (t, f) \<in> ?E\<^sup>*"
  proof
    assume "\<exists>m. (t, m) \<in> ?E \<and> m \<notin> {t} \<and> (m, f) \<in> (clear_of {t} ?E)\<^sup>*"
    then obtain m where "(t, m) \<in> ?E" "(m, f) \<in> (clear_of {t} ?E)\<^sup>*" by blast
    moreover have "(clear_of {t} ?E)\<^sup>* \<subseteq> ?E\<^sup>*" by (rule rtrancl_mono) auto
    ultimately show "(t, f) \<in> ?E\<^sup>*" by (blast intro: converse_rtrancl_into_rtrancl)
  next
    assume "(t, f) \<in> ?E\<^sup>*"
    moreover have "clear_of {} ?E = ?E" by auto
    ultimately show "\<exists>m. (t, m) \<in> ?E \<and> m \<notin> {t} \<and> (m, f) \<in> (clear_of {t} ?E)\<^sup>*"
      using clear_path_split[where s = t and t = f and V = "{}" and E = ?E and n = t] False by auto
  qed
  finally show ?thesis .
qed

end
