(* ===== verification/BoardOps.thy ===== *)
theory BoardOps
  imports BoardDeps
begin

text \<open>
  The mutations of the board (\<^verbatim>\<open>src/core/task-board-mutations.ts\<close>), each from the board it is
  given to the board it returns. Clocks, uuids and the random fallback id are arguments; a thrown
  error is the left side of a sum.
\<close>

section \<open>Edges\<close>

record 'x add_dep_result =
  ad_board :: "'x board"
  added :: bool
  ad_reason :: "dep_reason option"
  ad_dependency :: "dependency option"

definition dep_refused :: "'x board \<Rightarrow> dep_reason \<Rightarrow> 'x add_dep_result" where
  "dep_refused b r = \<lparr>ad_board = b, added = False, ad_reason = Some r, ad_dependency = None\<rparr>"

definition addTaskDependency :: "'x board \<Rightarrow> string \<Rightarrow> string \<Rightarrow> string \<Rightarrow> jsnum \<Rightarrow> 'x add_dep_result" where
  "addTaskDependency b first second uuid now =
     (let f = trim first; s = trim second in
      if f = [] \<or> s = [] then dep_refused b MissingTask
      else if f = s then dep_refused b SameTask
      else (case resolveDependencyEndpoints b f s of
          Inl r \<Rightarrow> dep_refused b r
        | Inr (w, l) \<Rightarrow>
            (if hasDependencyPair b w l then dep_refused b DuplicateEdge
             else if wouldCreateDependencyCycle b w l then dep_refused b WouldCreateCycle
             else (let d = \<lparr>dep_id = createDependencyId uuid, fromTaskId = w, toTaskId = l, dep_createdAt = now\<rparr>
                   in \<lparr>ad_board = b\<lparr>dependencies := dependencies b @ [d]\<rparr>, added = True, ad_reason = None,
                       ad_dependency = Some d\<rparr>))))"

definition canAddTaskDependency :: "'x board \<Rightarrow> string \<Rightarrow> string \<Rightarrow> bool" where
  "canAddTaskDependency b first second =
     (let f = trim first; s = trim second in
      if f = [] \<or> s = [] \<or> f = s then False
      else (case resolveDependencyEndpoints b f s of
          Inl r \<Rightarrow> False
        | Inr (w, l) \<Rightarrow> (if hasDependencyPair b w l then False else \<not> wouldCreateDependencyCycle b w l)))"

definition removeTaskDependency :: "'x board \<Rightarrow> string \<Rightarrow> bool \<times> 'x board" where
  "removeTaskDependency b i =
     (let ds = filter (\<lambda>d. dep_id d \<noteq> i) (dependencies b)
      in if length ds = length (dependencies b) then (False, b) else (True, b\<lparr>dependencies := ds\<rparr>))"

section \<open>Reconciling the edges with the cards\<close>

definition lane_map :: "'x board \<Rightarrow> (string, column_id) omap" where
  "lane_map b = omap_of (concat (map (\<lambda>c. map (\<lambda>k. (card_id k, column_id c)) (cards c)) (board_columns b)))"

definition lane_terminal :: "(string, column_id) omap \<Rightarrow> string \<Rightarrow> bool" where
  "lane_terminal m i = (case map_of m i of None \<Rightarrow> False | Some c \<Rightarrow> terminal_lane c)"

definition retire :: "(string, column_id) omap \<Rightarrow> jsnum \<Rightarrow> dependency \<Rightarrow> string \<Rightarrow> string \<Rightarrow> satisfied_dependency" where
  "retire m now d f t =
     \<lparr>sat_id = dep_id d, sat_from = f, sat_to = t, sat_createdAt = dep_createdAt d, releasedAt = now,
      releasedBy = (if lane_terminal m t
                    then (if map_of m t = Some CompletedLane then ByCompletion else ByTrash)
                    else DependentTerminal)\<rparr>"

text \<open>The loop: the live edges kept and the edges retired, in order.\<close>

fun reconcile_edges ::
  "(string, column_id) omap \<Rightarrow> string set \<Rightarrow> jsnum \<Rightarrow> string set \<Rightarrow> string set \<Rightarrow> dependency list
    \<Rightarrow> dependency list \<times> satisfied_dependency list" where
  "reconcile_edges m ids now retired pairs [] = ([], [])"
| "reconcile_edges m ids now retired pairs (d # ds) =
     (let f = trim (fromTaskId d); t = trim (toTaskId d) in
      if f = [] \<or> t = [] \<or> f = t then reconcile_edges m ids now retired pairs ds
      else if f \<notin> ids \<or> t \<notin> ids then reconcile_edges m ids now retired pairs ds
      else if lane_terminal m t \<or> lane_terminal m f then
        (if dep_id d \<notin> retired
         then (case reconcile_edges m ids now (insert (dep_id d) retired) pairs ds of
                 (live, gone) \<Rightarrow> (live, retire m now d f t # gone))
         else reconcile_edges m ids now retired pairs ds)
      else if createDependencyPairKey f t \<in> pairs then reconcile_edges m ids now retired pairs ds
      else (case reconcile_edges m ids now retired (insert (createDependencyPairKey f t) pairs) ds of
              (live, gone) \<Rightarrow> (d\<lparr>fromTaskId := f, toTaskId := t\<rparr> # live, gone)))"

definition sat_list :: "'x board \<Rightarrow> satisfied_dependency list" where
  "sat_list b = (case satisfiedDependencies b of None \<Rightarrow> [] | Some s \<Rightarrow> s)"

definition reconciled :: "'x board \<Rightarrow> jsnum \<Rightarrow> dependency list \<times> satisfied_dependency list" where
  "reconciled b now = reconcile_edges (lane_map b) (collectTaskIds b) now (sat_id ` set (sat_list b)) {} (dependencies b)"

definition updateTaskDependencies :: "'x board \<Rightarrow> jsnum \<Rightarrow> 'x board" where
  "updateTaskDependencies b now =
     (if dependencies b = [] then b
      else (case reconciled b now of
          (live, gone) \<Rightarrow>
            (if gone = [] \<and> live = dependencies b then b
             else b\<lparr>dependencies := live,
                    satisfiedDependencies := (if sat_list b @ gone \<noteq> [] then Some (sat_list b @ gone)
                                              else satisfiedDependencies b)\<rparr>)))"

section \<open>Moving, completing, trashing\<close>

record 'x move_result =
  moved :: bool
  mv_board :: "'x board"
  mv_task :: "'x board_card option"
  mv_from :: "column_id option"

definition moveTaskToColumn :: "'x board \<Rightarrow> string \<Rightarrow> column_id \<Rightarrow> jsnum \<Rightarrow> 'x move_result" where
  "moveTaskToColumn b taskId target now =
     (let i = trim taskId;
          stay = (\<lambda>t f. \<lparr>moved = False, mv_board = b, mv_task = t, mv_from = f\<rparr>) in
      if i = [] then stay None None
      else (case findTaskLocation b i of
          None \<Rightarrow> stay None None
        | Some l \<Rightarrow>
            (if loc_columnId l = target then stay (Some (loc_card l)) (Some (loc_columnId l))
             else (case find_index (\<lambda>c. column_id c = target) (board_columns b) of
                 None \<Rightarrow> stay (Some (loc_card l)) (Some (loc_columnId l))
               | Some ti \<Rightarrow>
                   (let src = board_columns b ! loc_column l; tgt = board_columns b ! ti;
                        task = (loc_card l)\<lparr>card_updatedAt := now\<rparr>;
                        tgtCards = (if terminal_lane target then task # cards tgt else cards tgt @ [task]);
                        cols = (board_columns b)[ti := tgt\<lparr>cards := tgtCards\<rparr>,
                                 loc_column l := src\<lparr>cards := remove_at (loc_task l) (cards src)\<rparr>]
                    in \<lparr>moved = True,
                        mv_board = updateTaskDependencies (b\<lparr>board_columns := cols\<rparr>) now,
                        mv_task = Some task, mv_from = Some (loc_columnId l)\<rparr>)))))"

text \<open>The dependents released by a task that leaves review for a terminal lane.\<close>

definition ready_after_trashed :: "'x board \<Rightarrow> string \<Rightarrow> column_id option \<Rightarrow> string list" where
  "ready_after_trashed b i from =
     (if i = [] \<or> dependencies b = [] \<or> from \<noteq> Some ReviewLane then []
      else oset_of [fromTaskId d. d \<leftarrow> dependencies b,
             toTaskId d = i
             \<and> (case getTaskColumnId b (fromTaskId d) of None \<Rightarrow> False | Some c \<Rightarrow> waiting_lane c)
             \<and> \<not> list_ex (\<lambda>e. fromTaskId e = fromTaskId d \<and> toTaskId e \<noteq> i) (dependencies b)])"

definition getReadyLinkedTaskIdsForTaskInTrash :: "'x board \<Rightarrow> string \<Rightarrow> string list" where
  "getReadyLinkedTaskIdsForTaskInTrash b i = ready_after_trashed b i (getTaskColumnId b i)"

definition finish_task :: "column_id \<Rightarrow> 'x board \<Rightarrow> string \<Rightarrow> jsnum \<Rightarrow> 'x move_result \<times> string list" where
  "finish_task target b i now =
     (let ready = ready_after_trashed b i (getTaskColumnId b i);
          mv = moveTaskToColumn b i target now
      in (mv, if moved mv then ready else []))"

definition completeTaskAndGetReadyLinkedTaskIds :: "'x board \<Rightarrow> string \<Rightarrow> jsnum \<Rightarrow> 'x move_result \<times> string list" where
  "completeTaskAndGetReadyLinkedTaskIds = finish_task CompletedLane"

definition trashTaskAndGetReadyLinkedTaskIds :: "'x board \<Rightarrow> string \<Rightarrow> jsnum \<Rightarrow> 'x move_result \<times> string list" where
  "trashTaskAndGetReadyLinkedTaskIds = finish_task TrashLane"

section \<open>Deleting\<close>

definition deleted_ids :: "'x board \<Rightarrow> string list \<Rightarrow> string list" where
  "deleted_ids b taskIds = filter (\<lambda>i. i \<in> set (filter (\<lambda>i. i \<noteq> []) (map trim taskIds))) (board_ids b)"

definition deleteTasksFromBoard :: "'x board \<Rightarrow> string list \<Rightarrow> ('x board \<times> bool) \<times> string list" where
  "deleteTasksFromBoard b taskIds =
     (let wanted = filter (\<lambda>i. i \<noteq> []) (map trim taskIds); gone = deleted_ids b taskIds in
      if wanted = [] \<or> gone = [] then ((b, False), [])
      else ((b\<lparr>board_columns := map (\<lambda>c. c\<lparr>cards := filter (\<lambda>k. card_id k \<notin> set wanted) (cards c)\<rparr>) (board_columns b),
              dependencies := filter (\<lambda>d. fromTaskId d \<notin> set gone \<and> toTaskId d \<notin> set gone) (dependencies b)\<rparr>,
             True), gone))"

section \<open>Creating\<close>

record 'x create_input =
  ci_taskId :: "string option"
  ci_title :: "string option"
  ci_prompt :: string
  ci_startInPlanMode :: "bool option"
  ci_autoReviewEnabled :: "bool option"
  ci_externallySupervised :: "bool option"
  ci_autoReviewMode :: "auto_review_mode option"
  ci_testEvidencePolicy :: "string option"
  ci_testability :: "testability option"
  ci_testabilityReason :: "string option"
  ci_images :: "'x list option"
  ci_agentId :: "string option"
  ci_nkleinSettings :: "'x nklein_settings option"
  ci_filesLikelyTouched :: "string list option"
  ci_writeScope :: "string list option"
  ci_forbiddenPaths :: "string list option"
  ci_generatedFromPlan :: "'x option"
  ci_trustedOrigin :: "trusted_origin option"
  ci_fleetReshardRequest :: "'x option"
  ci_streamId :: "string option"
  ci_redecomposeOf :: "string option"
  ci_decomposeGeneration :: "nat option"
  ci_baseRef :: string

datatype board_error =
    PromptRequired | BaseRefRequired | BaseRefIsResultBranch string | TaskExists string | ColumnNotFound column_id

text \<open>\<^verbatim>\<open>Boolean(value)\<close> of an optional flag.\<close>

abbreviation js_true :: "bool option \<Rightarrow> bool" where
  "js_true v \<equiv> v = Some True"

definition new_card :: "'x create_input \<Rightarrow> string \<Rightarrow> string \<Rightarrow> string \<Rightarrow> jsnum \<Rightarrow> 'x board_card" where
  "new_card inp i prompt base now =
     (let test = normalizeTaskTestabilityFields (ci_testability inp) (ci_testabilityReason inp) in
      \<lparr>card_id = i,
       card_title = Some (resolveTaskTitle (ci_title inp) prompt),
       card_prompt = prompt,
       startInPlanMode = js_true (ci_startInPlanMode inp),
       autoReviewEnabled = Some (js_true (ci_autoReviewEnabled inp)),
       externallySupervised = (if js_true (ci_externallySupervised inp) then Some True else None),
       autoReviewMode = Some (normalizeTaskAutoReviewMode (ci_autoReviewMode inp)),
       testEvidencePolicy = truthy (ci_testEvidencePolicy inp),
       card_testability = fst test,
       testabilityReason = snd test,
       card_images = cloneTaskImages (ci_images inp),
       agentId = truthy (ci_agentId inp),
       nkleinSettings = cloneTaskNKleinSettings (ci_nkleinSettings inp),
       filesLikelyTouched = normalizeFilesLikelyTouched (ci_filesLikelyTouched inp),
       writeScope = normalizeFilesLikelyTouched (ci_writeScope inp),
       forbiddenPaths = normalizeFilesLikelyTouched (ci_forbiddenPaths inp),
       generatedFromPlan = ci_generatedFromPlan inp,
       trustedOrigin = (case ci_trustedOrigin inp of
           Some tr \<Rightarrow> Some tr
         | None \<Rightarrow> (if ci_generatedFromPlan inp \<noteq> None then Some PlanOrigin else None)),
       fleetReshardRequest = ci_fleetReshardRequest inp,
       streamId = truthy (ci_streamId inp),
       redecomposeOf = truthy (ci_redecomposeOf inp),
       decomposeGeneration = ci_decomposeGeneration inp,
       baseRef = base,
       card_createdAt = now,
       card_updatedAt = now,
       card_rest = []\<rparr>)"

definition new_task_id :: "'x board \<Rightarrow> 'x create_input \<Rightarrow> (nat \<Rightarrow> string) \<Rightarrow> string \<Rightarrow> string" where
  "new_task_id b inp uuids fallback = (case truthy (map_option trim (ci_taskId inp)) of
      Some i \<Rightarrow> i | None \<Rightarrow> createUniqueTaskId (collectTaskIds b) uuids fallback)"

definition addTaskToColumn ::
  "'x board \<Rightarrow> column_id \<Rightarrow> 'x create_input \<Rightarrow> (nat \<Rightarrow> string) \<Rightarrow> string \<Rightarrow> jsnum
    \<Rightarrow> board_error + 'x board \<times> 'x board_card" where
  "addTaskToColumn b col inp uuids fallback now =
     (let prompt = trim (ci_prompt inp); base = trim (ci_baseRef inp);
          explicit = truthy (map_option trim (ci_taskId inp)) in
      if prompt = [] then Inl PromptRequired
      else if base = [] then Inl BaseRefRequired
      else if isTaskResultBranchRef (Some base) then Inl (BaseRefIsResultBranch base)
      else (let err = (case explicit of
          Some i \<Rightarrow> if i \<in> collectTaskIds b then Some (TaskExists i) else None
        | None \<Rightarrow> None) in case err of
          Some e \<Rightarrow> Inl e
        | None \<Rightarrow>
            (let task = new_card inp (new_task_id b inp uuids fallback) prompt base now in
             case find_index (\<lambda>c. column_id c = col) (board_columns b) of
               None \<Rightarrow> Inl (ColumnNotFound col)
             | Some t \<Rightarrow>
                 Inr (b\<lparr>board_columns := (board_columns b)[t := (board_columns b ! t)
                          \<lparr>cards := task # cards (board_columns b ! t)\<rparr>]\<rparr>, task))))"

section \<open>Updating\<close>

record 'x update_input =
  ui_title :: "string option"
  ui_prompt :: string
  ui_startInPlanMode :: "bool option"
  ui_autoReviewEnabled :: "bool option"
  ui_autoReviewMode :: "auto_review_mode option"
  ui_images :: "'x list option"
  ui_agentId :: "string option option"
  ui_nkleinSettings :: "'x nklein_settings option option"
  ui_testability :: "testability option option"
  ui_testabilityReason :: "string option"
  ui_baseRef :: string

definition updated_card :: "'x update_input \<Rightarrow> string \<Rightarrow> string \<Rightarrow> jsnum \<Rightarrow> 'x board_card \<Rightarrow> 'x board_card" where
  "updated_card inp prompt base now c =
     (let test = (case ui_testability inp of
            None \<Rightarrow> (card_testability c, testabilityReason c)
          | Some None \<Rightarrow> (None, None)
          | Some (Some t) \<Rightarrow> normalizeTaskTestabilityFields (Some t) (ui_testabilityReason inp)) in
      c\<lparr>card_title := Some (resolveTaskTitle (ui_title inp) prompt),
        card_prompt := prompt,
        startInPlanMode := js_true (ui_startInPlanMode inp),
        autoReviewEnabled := Some (js_true (ui_autoReviewEnabled inp)),
        autoReviewMode := Some (normalizeTaskAutoReviewMode (ui_autoReviewMode inp)),
        card_images := (case ui_images inp of None \<Rightarrow> card_images c | Some is \<Rightarrow> cloneTaskImages (Some is)),
        agentId := (case ui_agentId inp of None \<Rightarrow> agentId c | Some a \<Rightarrow> a),
        nkleinSettings := (case ui_nkleinSettings inp of
            None \<Rightarrow> cloneTaskNKleinSettings (nkleinSettings c) | Some s \<Rightarrow> cloneTaskNKleinSettings s),
        card_testability := fst test,
        testabilityReason := snd test,
        baseRef := base,
        card_updatedAt := now\<rparr>)"

text \<open>Changing the cards with one id; the last one changed is returned.\<close>

definition map_card :: "string \<Rightarrow> ('x board_card \<Rightarrow> 'x board_card) \<Rightarrow> 'x board \<Rightarrow> 'x board" where
  "map_card i f b = b\<lparr>board_columns := map (\<lambda>c. c\<lparr>cards := map (\<lambda>k. if card_id k = i then f k else k) (cards c)\<rparr>) (board_columns b)\<rparr>"

definition all_cards :: "'x board \<Rightarrow> 'x board_card list" where
  "all_cards b = concat (map cards (board_columns b))"

definition change_card ::
  "string \<Rightarrow> ('x board_card \<Rightarrow> 'x board_card) \<Rightarrow> 'x board \<Rightarrow> ('x board \<times> 'x board_card option) \<times> bool" where
  "change_card i f b =
     (let hits = filter (\<lambda>k. card_id k = i) (all_cards b)
      in if hits = [] then ((b, None), False) else ((map_card i f b, Some (f (last hits))), True))"

definition updateTask :: "'x board \<Rightarrow> string \<Rightarrow> 'x update_input \<Rightarrow> jsnum \<Rightarrow> ('x board \<times> 'x board_card option) \<times> bool" where
  "updateTask b taskId inp now =
     (let i = trim taskId; prompt = trim (ui_prompt inp); base = trim (ui_baseRef inp) in
      if i = [] \<or> prompt = [] \<or> base = [] then ((b, None), False)
      else change_card i (updated_card inp prompt base now) b)"

definition setCardStream :: "'x board \<Rightarrow> string \<Rightarrow> string option \<Rightarrow> jsnum \<Rightarrow> ('x board \<times> 'x board_card option) \<times> bool" where
  "setCardStream b taskId stream now =
     (let i = trim taskId in
      if i = [] then ((b, None), False)
      else change_card i (\<lambda>c. c\<lparr>streamId := truthy stream, card_updatedAt := now\<rparr>) b)"

end
