(* ===== verification/BoardInvariants.thy ===== *)
theory BoardInvariants
  imports BoardOps
begin

text \<open>
  What every mutation of the board keeps: each card has its own, trimmed id, each lane its own
  column, every edge joins two different cards of the board that are not finished, and the edges
  have no cycle.
\<close>

section \<open>Lookups\<close>

abbreviation unique_ids :: "'x board \<Rightarrow> bool" where
  "unique_ids b \<equiv> distinct (board_ids b)"

lemma find_in_columns_Some:
  "find_in_columns n cs i = Some l \<Longrightarrow> n \<le> loc_column l \<and> loc_column l < n + length cs
    \<and> loc_task l < length (cards (cs ! (loc_column l - n)))
    \<and> loc_card l = cards (cs ! (loc_column l - n)) ! loc_task l
    \<and> loc_columnId l = column_id (cs ! (loc_column l - n)) \<and> card_id (loc_card l) = i"
proof (induction n cs i rule: find_in_columns.induct)
  case (1 n i)
  then show ?case by simp
next
  case (2 n c cs i)
  show ?case
  proof (cases "find_index (\<lambda>k. card_id k = i) (cards c)")
    case None
    then have "find_in_columns (Suc n) cs i = Some l" using "2.prems" by (simp del: find_index_None)
    from "2.IH"[OF None this] show ?thesis by (auto simp: nth_Cons')
  next
    case (Some t)
    then show ?thesis using "2.prems" find_index_Some[OF Some] by auto
  qed
qed

lemma find_in_columns_None: "find_in_columns n cs i = None \<longleftrightarrow> i \<notin> set (concat (map column_ids cs))"
proof (induction n cs i rule: find_in_columns.induct)
  case (1 n i)
  then show ?case by simp
next
  case (2 n c cs i)
  show ?case
  proof (cases "find_index (\<lambda>k. card_id k = i) (cards c)")
    case None
    then have "i \<notin> set (column_ids c)" by (auto simp: column_ids_def)
    then show ?thesis using "2.IH"[OF None] None by (simp del: find_index_None)
  next
    case (Some t)
    then have "i \<in> set (column_ids c)" using find_index_Some[OF Some] by (auto simp: column_ids_def)
    then show ?thesis using Some by simp
  qed
qed

lemma findTaskLocation_Some:
  assumes "findTaskLocation b i = Some l"
  shows "loc_column l < length (board_columns b)" "loc_task l < length (cards (board_columns b ! loc_column l))"
    "loc_card l = cards (board_columns b ! loc_column l) ! loc_task l"
    "loc_columnId l = column_id (board_columns b ! loc_column l)" "card_id (loc_card l) = i"
  using find_in_columns_Some[of 0 "board_columns b" i l] assms by (auto simp: findTaskLocation_def)

lemma findTaskLocation_None: "findTaskLocation b i = None \<longleftrightarrow> i \<notin> collectTaskIds b"
  by (simp add: findTaskLocation_def find_in_columns_None collectTaskIds_def board_ids_def)

text \<open>The lane of a card, as the reconciliation's map and as the lookup see it.\<close>

definition lane_pairs :: "'x board \<Rightarrow> (string \<times> column_id) list" where
  "lane_pairs b = concat (map (\<lambda>c. map (\<lambda>k. (card_id k, column_id c)) (cards c)) (board_columns b))"

lemma lane_pairs_ids: "map fst (lane_pairs b) = board_ids b"
  by (simp add: lane_pairs_def board_ids_def column_ids_def[abs_def] map_concat comp_def)

lemma lane_map_of: "unique_ids b \<Longrightarrow> lane_map b = lane_pairs b"
  using lane_pairs_ids[of b] unfolding lane_map_def lane_pairs_def by (intro omap_of_distinct) simp

definition lane_of :: "'x board \<Rightarrow> string \<Rightarrow> column_id option" where
  "lane_of b = map_of (lane_pairs b)"

lemma lane_of_None: "lane_of b i = None \<longleftrightarrow> i \<notin> collectTaskIds b"
  using lane_pairs_ids[of b] by (metis collectTaskIds_def lane_of_def list.set_map map_of_eq_None_iff)

lemma lane_of_mem: "unique_ids b \<Longrightarrow> lane_of b i = Some c \<longleftrightarrow>
    (\<exists>col \<in> set (board_columns b). column_id col = c \<and> i \<in> set (column_ids col))"
  unfolding lane_of_def using lane_pairs_ids[of b]
  by (subst map_of_eq_Some_iff) (auto simp: lane_pairs_def column_ids_def)

lemma getTaskColumnId_lane:
  assumes "unique_ids b"
  shows "getTaskColumnId b i = (if trim i = [] then None else lane_of b (trim i))"
proof (cases "findTaskLocation b (trim i)")
  case None
  then have "lane_of b (trim i) = None" using lane_of_None findTaskLocation_None by metis
  then show ?thesis using None by (simp add: getTaskColumnId_def)
next
  case (Some l)
  note l = findTaskLocation_Some[OF Some]
  have "trim i \<in> set (column_ids (board_columns b ! loc_column l))"
    using l by (metis column_ids_def imageI list.set_map nth_mem)
  then have "lane_of b (trim i) = Some (loc_columnId l)"
    using l(1,4) by (auto simp: lane_of_mem[OF assms])
  then show ?thesis using Some by (simp add: getTaskColumnId_def)
qed

section \<open>The invariant\<close>

definition tidy_ids :: "'x board \<Rightarrow> bool" where
  "tidy_ids b \<longleftrightarrow> list_all (\<lambda>i. trim i = i \<and> i \<noteq> []) (board_ids b)"

definition open_card :: "'x board \<Rightarrow> string \<Rightarrow> bool" where
  "open_card b i = (case lane_of b i of None \<Rightarrow> False | Some c \<Rightarrow> \<not> terminal_lane c)"

definition live_edges :: "'x board \<Rightarrow> bool" where
  "live_edges b \<longleftrightarrow> list_all (\<lambda>d. open_card b (fromTaskId d) \<and> open_card b (toTaskId d)) (dependencies b)"

definition board_inv :: "'x board \<Rightarrow> bool" where
  "board_inv b \<longleftrightarrow> unique_ids b \<and> tidy_ids b \<and> distinct (map column_id (board_columns b))
     \<and> live_edges b \<and> acyclic (dep_edges (dependencies b))"

lemma open_card_on_board: "open_card b i \<Longrightarrow> i \<in> collectTaskIds b"
  using lane_of_None[of b i] by (auto simp: open_card_def split: option.splits)

lemma tidy_trim: "tidy_ids b \<Longrightarrow> i \<in> collectTaskIds b \<Longrightarrow> trim i = i \<and> i \<noteq> []"
  by (auto simp: tidy_ids_def list_all_iff collectTaskIds_def)

section \<open>Adding an edge\<close>

lemma resolve_open:
  assumes "unique_ids b" "resolveDependencyEndpoints b f s = Inr (w, l)"
  shows "{w, l} = {f, s}" "open_card b (trim w)" "open_card b (trim l)"
    "case lane_of b (trim w) of None \<Rightarrow> False | Some c \<Rightarrow> waiting_lane c"
  using assms
  by (auto simp: resolveDependencyEndpoints_def getTaskColumnId_lane open_card_def
      split: option.splits if_splits)

lemma addTaskDependency_cases:
  obtains (refused) r where "addTaskDependency b f s uuid now = dep_refused b r"
  | (accepted) w l d where "resolveDependencyEndpoints b (trim f) (trim s) = Inr (w, l)"
      "\<not> wouldCreateDependencyCycle b w l" "\<not> hasDependencyPair b w l"
      "d = \<lparr>dep_id = createDependencyId uuid, fromTaskId = w, toTaskId = l, dep_createdAt = now\<rparr>"
      "addTaskDependency b f s uuid now
        = \<lparr>ad_board = b\<lparr>dependencies := dependencies b @ [d]\<rparr>, added = True, ad_reason = None, ad_dependency = Some d\<rparr>"
proof -
  consider (early) "trim f = [] \<or> trim s = [] \<or> trim f = trim s"
    | (bad) r where "resolveDependencyEndpoints b (trim f) (trim s) = Inl r"
    | (good) w l where "resolveDependencyEndpoints b (trim f) (trim s) = Inr (w, l)"
    by (cases "resolveDependencyEndpoints b (trim f) (trim s)") auto
  then show thesis
  proof cases
    case early
    then have "\<exists>r. addTaskDependency b f s uuid now = dep_refused b r"
      by (auto simp: addTaskDependency_def Let_def)
    then show thesis using refused by blast
  next
    case (bad r)
    then have "\<exists>r. addTaskDependency b f s uuid now = dep_refused b r"
      by (auto simp: addTaskDependency_def Let_def)
    then show thesis using refused by blast
  next
    case (good w l)
    show thesis
    proof (cases "trim f = [] \<or> trim s = [] \<or> trim f = trim s \<or> hasDependencyPair b w l \<or> wouldCreateDependencyCycle b w l")
      case True
      then have "\<exists>r. addTaskDependency b f s uuid now = dep_refused b r"
        using good by (auto simp: addTaskDependency_def Let_def)
      then show thesis using refused by blast
    next
      case False
      then show thesis using good by (intro accepted[OF good]) (auto simp: addTaskDependency_def Let_def)
    qed
  qed
qed

lemma lane_of_columns: "board_columns b' = board_columns b \<Longrightarrow> lane_of b' = lane_of b"
  by (simp add: lane_of_def lane_pairs_def)

lemma open_card_columns: "board_columns b' = board_columns b \<Longrightarrow> open_card b' = open_card b"
  by (simp add: open_card_def[abs_def] lane_of_columns[of b' b])

lemma addTaskDependency_inv:
  assumes "board_inv b"
  shows "board_inv (ad_board (addTaskDependency b f s uuid now))"
proof (cases rule: addTaskDependency_cases[of b f s uuid now])
  case (refused r)
  then show ?thesis using assms by (simp add: dep_refused_def)
next
  case (accepted w l d)
  let ?b' = "b\<lparr>dependencies := dependencies b @ [d]\<rparr>"
  have u: "unique_ids b" using assms by (simp add: board_inv_def)
  have "trim w = w \<and> trim l = l" using resolve_open(1)[OF u accepted(1)] by (auto simp: doubleton_eq_iff)
  then have o: "open_card b w" "open_card b l" using resolve_open(2,3)[OF u accepted(1)] by auto
  have "dep_edges (dependencies ?b') = insert (w, l) (dep_edges (dependencies b))"
    using accepted(4) by (auto simp: dep_edges_def)
  moreover have "(l, w) \<notin> (dep_edges (dependencies b))\<^sup>*"
    using accepted(2) by (simp add: wouldCreateDependencyCycle_iff)
  ultimately have "acyclic (dep_edges (dependencies ?b'))" using assms by (simp add: board_inv_def acyclic_insert)
  then show ?thesis
    using assms accepted(4,5) o open_card_columns[of ?b' b]
    by (simp add: board_inv_def live_edges_def tidy_ids_def board_ids_def)
qed

lemma removeTaskDependency_inv: "board_inv b \<Longrightarrow> board_inv (snd (removeTaskDependency b i))"
proof -
  let ?ds = "filter (\<lambda>d. dep_id d \<noteq> i) (dependencies b)"
  assume b: "board_inv b"
  have "dep_edges ?ds \<subseteq> dep_edges (dependencies b)" by (auto simp: dep_edges_def)
  then have "acyclic (dep_edges ?ds)" using b acyclic_subset by (auto simp: board_inv_def)
  then show ?thesis using b open_card_columns[of "b\<lparr>dependencies := ?ds\<rparr>" b]
    by (auto simp: removeTaskDependency_def Let_def board_inv_def live_edges_def tidy_ids_def board_ids_def list_all_iff)
qed

section \<open>Reconciling the edges\<close>

lemma reconcile_edges_live:
  "d' \<in> set (fst (reconcile_edges m ids now ret pairs ds)) \<Longrightarrow>
    \<exists>d \<in> set ds. d' = d\<lparr>fromTaskId := trim (fromTaskId d), toTaskId := trim (toTaskId d)\<rparr>
      \<and> trim (fromTaskId d) \<in> ids \<and> trim (toTaskId d) \<in> ids
      \<and> \<not> lane_terminal m (trim (fromTaskId d)) \<and> \<not> lane_terminal m (trim (toTaskId d))"
proof (induction m ids now ret pairs ds rule: reconcile_edges.induct)
  case (1 m ids now ret pairs)
  then show ?case by simp
next
  case (2 m ids now ret pairs d ds)
  show ?case
    using "2.prems" "2.IH"
    by (simp add: Let_def split: if_splits prod.splits) blast+
qed

lemma lane_terminal_of: "unique_ids b \<Longrightarrow> lane_terminal (lane_map b) i \<longleftrightarrow> i \<in> collectTaskIds b \<and> \<not> open_card b i"
  using lane_of_None[of b i]
  by (auto simp: lane_terminal_def lane_map_of open_card_def lane_of_def split: option.splits)

lemma updateTaskDependencies_columns [simp]: "board_columns (updateTaskDependencies b now) = board_columns b"
  by (simp add: updateTaskDependencies_def split: prod.split)

lemma updateTaskDependencies_live: "dependencies (updateTaskDependencies b now) = fst (reconciled b now)"
  by (auto simp: updateTaskDependencies_def reconciled_def split: prod.split)

lemma updateTaskDependencies_edges:
  assumes "d' \<in> set (dependencies (updateTaskDependencies b now))" "unique_ids b"
  shows "\<exists>d \<in> set (dependencies b). d' = d\<lparr>fromTaskId := trim (fromTaskId d), toTaskId := trim (toTaskId d)\<rparr>"
    "open_card b (fromTaskId d')" "open_card b (toTaskId d')"
  using reconcile_edges_live[of d' "lane_map b"] assms
  by (force simp: updateTaskDependencies_live reconciled_def lane_terminal_of)+

text \<open>
  The edges before need not be live; it is enough that their ends are tidy cards of the board.
\<close>

lemma updateTaskDependencies_inv:
  assumes "unique_ids b" "tidy_ids b" "distinct (map column_id (board_columns b))"
    and on: "\<And>d. d \<in> set (dependencies b) \<Longrightarrow> fromTaskId d \<in> collectTaskIds b \<and> toTaskId d \<in> collectTaskIds b"
    and ac: "acyclic (dep_edges (dependencies b))"
  shows "board_inv (updateTaskDependencies b now)"
proof -
  let ?b' = "updateTaskDependencies b now"
  have "dep_edges (dependencies ?b') \<subseteq> dep_edges (dependencies b)"
  proof
    fix e assume "e \<in> dep_edges (dependencies ?b')"
    then obtain d' where d': "d' \<in> set (dependencies ?b')" "e = (fromTaskId d', toTaskId d')"
      by (auto simp: dep_edges_def)
    then obtain d where "d \<in> set (dependencies b)"
      "d' = d\<lparr>fromTaskId := trim (fromTaskId d), toTaskId := trim (toTaskId d)\<rparr>"
      using updateTaskDependencies_edges(1)[OF _ assms(1)] by blast
    then show "e \<in> dep_edges (dependencies b)" using d' on tidy_trim[OF assms(2)] by (force simp: dep_edges_def)
  qed
  then have "acyclic (dep_edges (dependencies ?b'))" using ac acyclic_subset by blast
  then show ?thesis
    using assms(1-3) updateTaskDependencies_edges(2,3)[OF _ assms(1)] open_card_columns[of ?b' b]
    by (simp add: board_inv_def live_edges_def tidy_ids_def board_ids_def list_all_iff)
qed

section \<open>Moving a card\<close>

lemma mset_concat_update:
  "i < length xs \<Longrightarrow> mset (concat (map f (xs[i := y]))) + mset (f (xs ! i)) = mset (concat (map f xs)) + mset (f y)"
proof (induction xs arbitrary: i)
  case Nil
  then show ?case by simp
next
  case (Cons x xs)
  then show ?case by (cases i) (auto simp: ac_simps)
qed

definition moved_columns :: "'x board \<Rightarrow> 'x task_location \<Rightarrow> nat \<Rightarrow> column_id \<Rightarrow> jsnum \<Rightarrow> 'x board_column list" where
  "moved_columns b l ti target now =
     (let src = board_columns b ! loc_column l; tgt = board_columns b ! ti;
          task = (loc_card l)\<lparr>card_updatedAt := now\<rparr>;
          tgtCards = (if terminal_lane target then task # cards tgt else cards tgt @ [task])
      in (board_columns b)[ti := tgt\<lparr>cards := tgtCards\<rparr>,
            loc_column l := src\<lparr>cards := remove_at (loc_task l) (cards src)\<rparr>])"

lemma moveTaskToColumn_cases:
  obtains (stay) t f where "moveTaskToColumn b i target now = \<lparr>moved = False, mv_board = b, mv_task = t, mv_from = f\<rparr>"
  | (move) l ti where "findTaskLocation b (trim i) = Some l" "loc_columnId l \<noteq> target"
      "find_index (\<lambda>c. column_id c = target) (board_columns b) = Some ti"
      "moveTaskToColumn b i target now = \<lparr>moved = True,
         mv_board = updateTaskDependencies (b\<lparr>board_columns := moved_columns b l ti target now\<rparr>) now,
         mv_task = Some ((loc_card l)\<lparr>card_updatedAt := now\<rparr>), mv_from = Some (loc_columnId l)\<rparr>"
proof (cases "trim i = []")
  case True
  then show thesis by (auto simp: moveTaskToColumn_def Let_def intro: stay)
next
  case ne: False
  show thesis
  proof (cases "findTaskLocation b (trim i)")
    case None
    then show thesis using ne by (auto simp: moveTaskToColumn_def Let_def intro: stay)
  next
    case (Some l)
    show thesis
    proof (cases "loc_columnId l = target \<or> find_index (\<lambda>c. column_id c = target) (board_columns b) = None")
      case True
      then have "\<exists>t f. moveTaskToColumn b i target now = \<lparr>moved = False, mv_board = b, mv_task = t, mv_from = f\<rparr>"
        using Some ne by (auto simp: moveTaskToColumn_def Let_def simp del: find_index_None)
      then show thesis using stay by blast
    next
      case False
      then obtain ti where "find_index (\<lambda>c. column_id c = target) (board_columns b) = Some ti"
        by (cases "find_index (\<lambda>c. column_id c = target) (board_columns b)") (auto simp del: find_index_None)
      then show thesis using Some ne False
        by (intro move[of l ti]) (simp_all add: moveTaskToColumn_def Let_def moved_columns_def)
    qed
  qed
qed

lemma moved_columns_ids:
  assumes l: "findTaskLocation b i = Some l" and ne: "loc_columnId l \<noteq> target"
    and ti: "find_index (\<lambda>c. column_id c = target) (board_columns b) = Some ti"
  shows "mset (concat (map column_ids (moved_columns b l ti target now))) = mset (board_ids b)"
    and "map column_id (moved_columns b l ti target now) = map column_id (board_columns b)"
    and "ti < length (board_columns b)" "column_id (board_columns b ! ti) = target" "ti \<noteq> loc_column l"
proof -
  let ?cs = "board_columns b"
  let ?src = "?cs ! loc_column l" and ?tgt = "?cs ! ti"
  note loc = findTaskLocation_Some[OF l]
  show t: "ti < length ?cs" "column_id ?tgt = target" using find_index_Some[OF ti] by auto
  show d: "ti \<noteq> loc_column l" using t loc(4) ne by auto
  define T where "T = ?tgt\<lparr>cards := (if terminal_lane target then (loc_card l)\<lparr>card_updatedAt := now\<rparr> # cards ?tgt
      else cards ?tgt @ [(loc_card l)\<lparr>card_updatedAt := now\<rparr>])\<rparr>"
  define S where "S = ?src\<lparr>cards := remove_at (loc_task l) (cards ?src)\<rparr>"
  have mv: "moved_columns b l ti target now = ?cs[ti := T, loc_column l := S]"
    by (simp add: moved_columns_def Let_def T_def S_def)
  show "map column_id (moved_columns b l ti target now) = map column_id ?cs"
    unfolding mv by (simp add: map_update T_def S_def) (metis list_update_id map_update)
  have mT: "mset (column_ids T) = add_mset i (mset (column_ids ?tgt))"
    using loc(5) by (simp add: column_ids_def T_def)
  have "add_mset (loc_card l) (mset (cards S)) = mset (cards ?src)"
    using mset_remove_at[OF loc(2)] loc(3) by (simp add: S_def)
  then have mS: "add_mset i (mset (column_ids S)) = mset (column_ids ?src)"
    using loc(5) by (metis column_ids_def image_mset_add_mset mset_map)
  have "mset (concat (map column_ids (?cs[ti := T]))) + mset (column_ids ?tgt)
      = mset (concat (map column_ids ?cs)) + mset (column_ids T)"
    by (rule mset_concat_update[OF t(1)])
  moreover have "mset (concat (map column_ids (?cs[ti := T, loc_column l := S]))) + mset (column_ids ?src)
      = mset (concat (map column_ids (?cs[ti := T]))) + mset (column_ids S)"
    using mset_concat_update[of "loc_column l" "?cs[ti := T]" column_ids S] loc(1) d by simp
  ultimately show "mset (concat (map column_ids (moved_columns b l ti target now))) = mset (board_ids b)"
    unfolding mv board_ids_def using mT mS[symmetric] by (simp add: ac_simps)
qed

lemma unique_tidy_mset:
  assumes "mset (board_ids b') = mset (board_ids b)"
  shows "unique_ids b' = unique_ids b" "tidy_ids b' = tidy_ids b" "collectTaskIds b' = collectTaskIds b"
  using assms mset_eq_imp_distinct_iff mset_eq_setD[OF assms]
  by (auto simp: tidy_ids_def list_all_iff collectTaskIds_def)

lemma moveTaskToColumn_inv:
  assumes "board_inv b"
  shows "board_inv (mv_board (moveTaskToColumn b i target now))"
proof (cases rule: moveTaskToColumn_cases[of b i target now])
  case (stay t f)
  then show ?thesis using assms by simp
next
  case (move l ti)
  let ?b1 = "b\<lparr>board_columns := moved_columns b l ti target now\<rparr>"
  note mc = moved_columns_ids[OF move(1-3)]
  have m: "mset (board_ids ?b1) = mset (board_ids b)" using mc(1) by (simp add: board_ids_def)
  have on: "fromTaskId d \<in> collectTaskIds b \<and> toTaskId d \<in> collectTaskIds b" if "d \<in> set (dependencies b)" for d
    using that assms open_card_on_board by (auto simp: board_inv_def live_edges_def list_all_iff)
  have "board_inv (updateTaskDependencies ?b1 now)"
    using assms mc(2) on unique_tidy_mset[OF m]
    by (intro updateTaskDependencies_inv) (auto simp: board_inv_def)
  then show ?thesis using move(4) by simp
qed

section \<open>Deleting cards\<close>

lemma open_card_mem: "unique_ids b \<Longrightarrow> open_card b i \<longleftrightarrow>
    (\<exists>col \<in> set (board_columns b). \<not> terminal_lane (column_id col) \<and> i \<in> set (column_ids col))"
  (is "_ \<Longrightarrow> _ \<longleftrightarrow> ?R")
proof -
  assume u: "unique_ids b"
  have "open_card b i \<longleftrightarrow> (\<exists>c. lane_of b i = Some c \<and> \<not> terminal_lane c)"
    by (auto simp: open_card_def split: option.split)
  also have "\<dots> \<longleftrightarrow> ?R" unfolding lane_of_mem[OF u] by auto
  finally show ?thesis .
qed

lemma concat_map_filter: "concat (map (\<lambda>c. filter P (f c)) xs) = filter P (concat (map f xs))"
  by (induction xs) auto

lemma deleteTasks_cases:
  obtains (none) "deleteTasksFromBoard b is = ((b, False), [])"
  | (some) W where "W = set (filter (\<lambda>i. i \<noteq> []) (map trim is))" "deleted_ids b is = filter (\<lambda>i. i \<in> W) (board_ids b)"
      "deleteTasksFromBoard b is = ((b\<lparr>
         board_columns := map (\<lambda>c. c\<lparr>cards := filter (\<lambda>k. card_id k \<notin> W) (cards c)\<rparr>) (board_columns b),
         dependencies := filter (\<lambda>d. fromTaskId d \<notin> set (deleted_ids b is) \<and> toTaskId d \<notin> set (deleted_ids b is))
           (dependencies b)\<rparr>, True), deleted_ids b is)"
proof (cases "filter (\<lambda>i. i \<noteq> []) (map trim is) = [] \<or> deleted_ids b is = []")
  case True
  then show thesis by (intro none) (auto simp: deleteTasksFromBoard_def Let_def)
next
  case False
  then show thesis by (intro some[OF refl]) (auto simp: deleteTasksFromBoard_def deleted_ids_def Let_def)
qed

lemma kept_ids:
  "board_columns b' = map (\<lambda>c. c\<lparr>cards := filter (\<lambda>k. card_id k \<notin> W) (cards c)\<rparr>) (board_columns b)
    \<Longrightarrow> board_ids b' = filter (\<lambda>i. i \<notin> W) (board_ids b)"
  using concat_map_filter[of "\<lambda>i. i \<notin> W" column_ids "board_columns b"]
  by (simp add: board_ids_def column_ids_def[abs_def] comp_def filter_map)

lemma deleteTasksFromBoard_inv:
  assumes "board_inv b"
  shows "board_inv (fst (fst (deleteTasksFromBoard b is)))"
proof (cases rule: deleteTasks_cases[of b "is"])
  case none
  then show ?thesis using assms by simp
next
  case (some W)
  define b' where "b' = fst (fst (deleteTasksFromBoard b is))"
  have c': "board_columns b' = map (\<lambda>c. c\<lparr>cards := filter (\<lambda>k. card_id k \<notin> W) (cards c)\<rparr>) (board_columns b)"
    and d': "dependencies b' = filter (\<lambda>d. fromTaskId d \<notin> set (deleted_ids b is) \<and> toTaskId d \<notin> set (deleted_ids b is))
           (dependencies b)" using some(3) by (simp_all add: b'_def)
  have ids: "board_ids b' = filter (\<lambda>i. i \<notin> W) (board_ids b)" by (rule kept_ids[OF c'])
  have u: "unique_ids b" "unique_ids b'" using assms ids by (auto simp: board_inv_def)
  have keep: "open_card b' i" if "open_card b i" "i \<notin> set (deleted_ids b is)" for i
  proof -
    have "i \<notin> W" using that some(2) open_card_on_board[of b i] by (auto simp: collectTaskIds_def)
    then show ?thesis using that(1) u c'
      by (auto simp: open_card_mem column_ids_def)
  qed
  have "dep_edges (dependencies b') \<subseteq> dep_edges (dependencies b)" using d' by (auto simp: dep_edges_def)
  then have "acyclic (dep_edges (dependencies b'))" using assms acyclic_subset by (auto simp: board_inv_def)
  then show ?thesis using assms u ids keep d' c' unfolding b'_def[symmetric]
    by (auto simp: board_inv_def tidy_ids_def live_edges_def list_all_iff comp_def)
qed

section \<open>Adding and changing cards\<close>

definition fresh_id :: "'x board \<Rightarrow> string \<Rightarrow> bool" where
  "fresh_id b i \<longleftrightarrow> i \<notin> collectTaskIds b \<and> trim i = i \<and> i \<noteq> []"

lemma addTask_Inr:
  assumes "addTaskToColumn b col inp uuids fallback now = Inr (b', task)"
  obtains t where "find_index (\<lambda>c. column_id c = col) (board_columns b) = Some t"
    "task = new_card inp (new_task_id b inp uuids fallback) (trim (ci_prompt inp)) (trim (ci_baseRef inp)) now"
    "b' = b\<lparr>board_columns := (board_columns b)[t := (board_columns b ! t)\<lparr>cards := task # cards (board_columns b ! t)\<rparr>]\<rparr>"
    "\<And>i. truthy (map_option trim (ci_taskId inp)) = Some i \<Longrightarrow> fresh_id b i"
proof -
  let ?e = "truthy (map_option trim (ci_taskId inp))"
  have fresh: "fresh_id b i" if "?e = Some i" for i
  proof -
    have "i \<notin> collectTaskIds b" using assms that
      by (auto simp: addTaskToColumn_def Let_def split: if_splits option.splits)
    then show ?thesis using that by (auto simp: fresh_id_def truthy_def split: if_splits)
  qed
  obtain t where t: "find_index (\<lambda>c. column_id c = col) (board_columns b) = Some t"
    using assms by (cases "find_index (\<lambda>c. column_id c = col) (board_columns b)")
      (auto simp: addTaskToColumn_def Let_def simp del: find_index_None split: if_splits option.splits)
  have ne: "\<not> (\<exists>i. ?e = Some i \<and> i \<in> collectTaskIds b)" using fresh by (auto simp: fresh_id_def)
  then have "(case ?e of Some i \<Rightarrow> if i \<in> collectTaskIds b then Some (TaskExists i) else None | None \<Rightarrow> None) = None"
    by (auto split: option.split)
  then show thesis using assms t fresh
    by (intro that[OF t]) (auto simp: addTaskToColumn_def Let_def split: if_splits)
qed

lemma new_task_id_explicit: "truthy (map_option trim (ci_taskId inp)) = Some i \<Longrightarrow> new_task_id b inp uuids fallback = i"
  by (simp add: new_task_id_def)

lemma addTaskToColumn_inv:
  assumes b: "board_inv b" and add: "addTaskToColumn b col inp uuids fallback now = Inr (b', task)"
    and fresh: "truthy (map_option trim (ci_taskId inp)) = None \<Longrightarrow> fresh_id b (new_task_id b inp uuids fallback)"
  shows "board_inv b'"
proof -
  obtain t where t: "find_index (\<lambda>c. column_id c = col) (board_columns b) = Some t"
    and task: "task = new_card inp (new_task_id b inp uuids fallback) (trim (ci_prompt inp)) (trim (ci_baseRef inp)) now"
    and b': "b' = b\<lparr>board_columns := (board_columns b)[t := (board_columns b ! t)\<lparr>cards := task # cards (board_columns b ! t)\<rparr>]\<rparr>"
    and ex: "\<And>i. truthy (map_option trim (ci_taskId inp)) = Some i \<Longrightarrow> fresh_id b i"
    by (rule addTask_Inr[OF add]) blast
  let ?i = "new_task_id b inp uuids fallback" and ?cs = "board_columns b"
  let ?T = "(?cs ! t)\<lparr>cards := task # cards (?cs ! t)\<rparr>"
  have fr: "fresh_id b ?i"
  proof (cases "truthy (map_option trim (ci_taskId inp))")
    case None
    then show ?thesis by (rule fresh)
  next
    case (Some i)
    then show ?thesis using ex[OF Some] new_task_id_explicit[OF Some] by simp
  qed
  have tl: "t < length ?cs" using find_index_Some[OF t] by simp
  have ci: "card_id task = ?i" by (simp add: task new_card_def Let_def)
  have "mset (concat (map column_ids (?cs[t := ?T]))) + mset (column_ids (?cs ! t)) = mset (board_ids b) + mset (column_ids ?T)"
    using mset_concat_update[OF tl, of column_ids ?T] by (simp add: board_ids_def)
  then have ids: "mset (board_ids b') = add_mset ?i (mset (board_ids b))"
    using ci by (simp add: board_ids_def b' column_ids_def)
  have u: "unique_ids b" "unique_ids b'"
    using b fr ids by (auto simp: board_inv_def fresh_id_def collectTaskIds_def)
      (metis distinct.simps(2) mset.simps(2) mset_eq_imp_distinct_iff)
  have set': "set (board_ids b') = insert ?i (set (board_ids b))" using ids by (metis set_mset_add_mset_insert set_mset_mset)
  have open': "open_card b' i" if i: "open_card b i" for i
  proof -
    obtain n where n: "n < length ?cs" "\<not> terminal_lane (column_id (?cs ! n))" "i \<in> set (column_ids (?cs ! n))"
      using i unfolding open_card_mem[OF u(1)] by (metis in_set_conv_nth)
    let ?C = "(?cs[t := ?T]) ! n"
    have "\<not> terminal_lane (column_id ?C)" "i \<in> set (column_ids ?C)"
      using n by (cases "t = n"; simp add: column_ids_def)+
    moreover have "?C \<in> set (board_columns b')" using n(1) by (simp add: b')
    ultimately show ?thesis using u(2) by (auto simp: open_card_mem)
  qed
  have "map column_id (board_columns b') = map column_id ?cs"
    by (simp add: b' map_update) (metis list_update_id map_update)
  then show ?thesis using b u(2) fr set' open'
    by (auto simp: board_inv_def tidy_ids_def live_edges_def list_all_iff fresh_id_def b')
qed

lemma board_inv_same_shape:
  assumes "map (\<lambda>c. (column_id c, column_ids c)) (board_columns b') = map (\<lambda>c. (column_id c, column_ids c)) (board_columns b)"
    and "dependencies b' = dependencies b"
  shows "board_inv b' = board_inv b"
proof -
  have lp: "lane_pairs c = concat (map (\<lambda>(l, is). map (\<lambda>i. (i, l)) is) (map (\<lambda>c. (column_id c, column_ids c)) (board_columns c)))"
    for c :: "'x board" by (simp add: lane_pairs_def column_ids_def comp_def)
  have "lane_pairs b' = lane_pairs b" unfolding lp assms(1) ..
  moreover from this have "board_ids b' = board_ids b" by (metis lane_pairs_ids)
  moreover have "map column_id (board_columns b') = map column_id (board_columns b)"
    using arg_cong[OF assms(1), of "map fst"] by (simp add: comp_def)
  ultimately show ?thesis using assms(2)
    by (simp add: board_inv_def tidy_ids_def live_edges_def open_card_def lane_of_def)
qed

lemma change_card_inv:
  assumes "\<And>k. card_id (f k) = card_id k" "board_inv b"
  shows "board_inv (fst (fst (change_card i f b)))"
proof -
  have "column_ids (c\<lparr>cards := map (\<lambda>k. if card_id k = i then f k else k) (cards c)\<rparr>) = column_ids c" for c :: "'a board_column"
    using assms(1) by (simp add: column_ids_def comp_def if_distrib cong: if_cong)
  then have "board_inv (map_card i f b) = board_inv b"
    by (intro board_inv_same_shape) (simp_all add: map_card_def comp_def)
  then show ?thesis using assms(2) by (simp add: change_card_def Let_def)
qed

lemma updateTask_inv: "board_inv b \<Longrightarrow> board_inv (fst (fst (updateTask b i inp now)))"
  using change_card_inv[of "updated_card inp (trim (ui_prompt inp)) (trim (ui_baseRef inp)) now" b "trim i"]
  by (simp add: updateTask_def Let_def updated_card_def)

lemma setCardStream_inv: "board_inv b \<Longrightarrow> board_inv (fst (fst (setCardStream b i s now)))"
  using change_card_inv[of "\<lambda>c. c\<lparr>streamId := truthy s, card_updatedAt := now\<rparr>" b "trim i"]
  by (simp add: setCardStream_def Let_def)

section \<open>Every mutation\<close>

datatype 'x board_op =
    AddEdge string string string jsnum
  | RemoveEdge string
  | ReconcileEdges jsnum
  | MoveCard string column_id jsnum
  | CompleteCard string jsnum
  | TrashCard string jsnum
  | DeleteCards "string list"
  | AddCard column_id "'x create_input" "nat \<Rightarrow> string" string jsnum
  | UpdateCard string "'x update_input" jsnum
  | StreamCard string "string option" jsnum

text \<open>A mutation that throws leaves the caller with the board it had.\<close>

definition board_step :: "'x board_op \<Rightarrow> 'x board \<Rightarrow> 'x board" where
  "board_step e b = (case e of
     AddEdge f s uuid now \<Rightarrow> ad_board (addTaskDependency b f s uuid now)
   | RemoveEdge i \<Rightarrow> snd (removeTaskDependency b i)
   | ReconcileEdges now \<Rightarrow> updateTaskDependencies b now
   | MoveCard i target now \<Rightarrow> mv_board (moveTaskToColumn b i target now)
   | CompleteCard i now \<Rightarrow> mv_board (fst (completeTaskAndGetReadyLinkedTaskIds b i now))
   | TrashCard i now \<Rightarrow> mv_board (fst (trashTaskAndGetReadyLinkedTaskIds b i now))
   | DeleteCards is \<Rightarrow> fst (fst (deleteTasksFromBoard b is))
   | AddCard col inp uuids fallback now \<Rightarrow>
       (case addTaskToColumn b col inp uuids fallback now of Inl _ \<Rightarrow> b | Inr (b', _) \<Rightarrow> b')
   | UpdateCard i inp now \<Rightarrow> fst (fst (updateTask b i inp now))
   | StreamCard i s now \<Rightarrow> fst (fst (setCardStream b i s now)))"

text \<open>A new card whose id the input does not name must be given a fresh one by the uuid supply.\<close>

definition op_ok :: "'x board_op \<Rightarrow> 'x board \<Rightarrow> bool" where
  "op_ok e b = (case e of
     AddCard col inp uuids fallback now \<Rightarrow>
       truthy (map_option trim (ci_taskId inp)) \<noteq> None \<or> fresh_id b (new_task_id b inp uuids fallback)
   | _ \<Rightarrow> True)"

lemma board_step_inv:
  assumes "board_inv b" "op_ok e b"
  shows "board_inv (board_step e b)"
proof (cases e)
  case (AddCard col inp uuids fallback now)
  then show ?thesis using assms addTaskToColumn_inv[OF assms(1)]
    by (fastforce simp: board_step_def op_ok_def split: sum.split)
next
  case (ReconcileEdges now)
  have "board_inv (updateTaskDependencies b now)"
    using assms(1) open_card_on_board[of b]
    by (intro updateTaskDependencies_inv) (auto simp: board_inv_def live_edges_def list_all_iff)
  then show ?thesis using ReconcileEdges by (simp add: board_step_def)
qed (use assms(1) in \<open>auto simp: board_step_def addTaskDependency_inv removeTaskDependency_inv moveTaskToColumn_inv
       completeTaskAndGetReadyLinkedTaskIds_def trashTaskAndGetReadyLinkedTaskIds_def finish_task_def Let_def
       deleteTasksFromBoard_inv updateTask_inv setCardStream_inv\<close>)

interpretation boards: invariant_system board_step op_ok board_inv
  by unfold_locales (rule board_step_inv)

end
