(* ===== verification/BoardRelease.thy ===== *)
theory BoardRelease
  imports BoardInvariants
begin

text \<open>
  What reconciling, moving and finishing do to a board that satisfies the invariant: no edge is
  lost, a second reconciliation changes nothing, a move changes two lanes, and a finished task
  releases exactly the waiting dependents it was the last prerequisite of.
\<close>

section \<open>Reconciling\<close>

lemma reconcile_keeps_pair:
  assumes "d \<in> set ds" "trim (fromTaskId d) = f" "trim (toTaskId d) = t" "f \<noteq> []" "t \<noteq> []" "f \<noteq> t"
    "f \<in> ids" "t \<in> ids" "\<not> lane_terminal m f" "\<not> lane_terminal m t"
  shows "createDependencyPairKey f t \<in> pairs
    \<or> (\<exists>d' \<in> set (fst (reconcile_edges m ids now ret pairs ds)).
         createDependencyPairKey (fromTaskId d') (toTaskId d') = createDependencyPairKey f t)"
  using assms
proof (induction ds arbitrary: ret pairs)
  case Nil
  then show ?case by simp
next
  case (Cons e ds)
  show ?case
  proof (cases "d = e")
    case True
    then show ?thesis using Cons.prems by (auto simp: Let_def split: prod.split)
  next
    case False
    then have d: "d \<in> set ds" using Cons.prems by simp
    show ?thesis using Cons.IH[OF d] Cons.prems(2-)
      by (simp add: Let_def case_prod_beta) (metis insertE)
  qed
qed

lemma reconcile_retires:
  assumes "d \<in> set ds" "trim (fromTaskId d) = f" "trim (toTaskId d) = t" "f \<noteq> []" "t \<noteq> []" "f \<noteq> t"
    "f \<in> ids" "t \<in> ids" "lane_terminal m t \<or> lane_terminal m f" "distinct (map dep_id ds)" "dep_id d \<notin> ret"
  shows "retire m now d f t \<in> set (snd (reconcile_edges m ids now ret pairs ds))"
  using assms
proof (induction ds arbitrary: ret pairs)
  case Nil
  then show ?case by simp
next
  case (Cons e ds)
  show ?case
  proof (cases "d = e")
    case True
    then show ?thesis using Cons.prems by (auto simp: Let_def split: prod.split)
  next
    case False
    then have d: "d \<in> set ds" "dep_id d \<noteq> dep_id e" "distinct (map dep_id ds)"
      using Cons.prems(1,10) by (auto, metis image_eqI)
    show ?thesis using Cons.IH[OF d(1)] d(2,3) Cons.prems(2-9) Cons.prems(11)
      by (simp add: Let_def case_prod_beta)
  qed
qed

definition settled_edge :: "(string, column_id) omap \<Rightarrow> string set \<Rightarrow> dependency \<Rightarrow> bool" where
  "settled_edge m ids d \<longleftrightarrow> trim (fromTaskId d) = fromTaskId d \<and> trim (toTaskId d) = toTaskId d
     \<and> fromTaskId d \<noteq> [] \<and> toTaskId d \<noteq> [] \<and> fromTaskId d \<noteq> toTaskId d
     \<and> fromTaskId d \<in> ids \<and> toTaskId d \<in> ids
     \<and> \<not> lane_terminal m (fromTaskId d) \<and> \<not> lane_terminal m (toTaskId d)"

abbreviation pair_key :: "dependency \<Rightarrow> string" where
  "pair_key d \<equiv> createDependencyPairKey (fromTaskId d) (toTaskId d)"

lemma reconcile_settled:
  "list_all (settled_edge m ids) ds \<Longrightarrow> distinct (map pair_key ds) \<Longrightarrow> set (map pair_key ds) \<inter> pairs = {}
    \<Longrightarrow> reconcile_edges m ids now ret pairs ds = (ds, [])"
proof (induction ds arbitrary: ret pairs)
  case Nil
  then show ?case by simp
next
  case (Cons e ds)
  have e: "settled_edge m ids e" "createDependencyPairKey (fromTaskId e) (toTaskId e) \<notin> pairs" using Cons.prems by auto
  have "reconcile_edges m ids now ret (insert (pair_key e) pairs) ds = (ds, [])"
    using Cons.prems by (intro Cons.IH) auto
  then show ?case using e by (simp add: settled_edge_def Let_def)
qed

lemma reconcile_gives_settled:
  "list_all (settled_edge m ids) (fst (reconcile_edges m ids now ret pairs ds))
    \<and> distinct (map pair_key (fst (reconcile_edges m ids now ret pairs ds)))
    \<and> set (map pair_key (fst (reconcile_edges m ids now ret pairs ds))) \<inter> pairs = {}"
proof (induction ds arbitrary: ret pairs)
  case Nil
  then show ?case by simp
next
  case (Cons e ds)
  show ?case
    using Cons.IH[of ret pairs] Cons.IH[of "insert (dep_id e) ret" pairs]
      Cons.IH[of ret "insert (createDependencyPairKey (trim (fromTaskId e)) (trim (toTaskId e))) pairs"]
    by (simp add: Let_def settled_edge_def case_prod_beta)
qed

lemma sat_list_update: "sat_list (updateTaskDependencies b now) = sat_list b @ snd (reconciled b now)"
proof (cases "dependencies b = []")
  case True
  then show ?thesis by (simp add: updateTaskDependencies_def reconciled_def)
next
  case False
  then show ?thesis
    by (auto simp: updateTaskDependencies_def sat_list_def split: prod.split option.split)
qed

lemma update_idem: "updateTaskDependencies (updateTaskDependencies b now) now' = updateTaskDependencies b now"
proof -
  let ?b' = "updateTaskDependencies b now"
  have same: "lane_map ?b' = lane_map b" "collectTaskIds ?b' = collectTaskIds b"
    by (simp_all add: lane_map_def collectTaskIds_def board_ids_def)
  have "reconciled ?b' now' = (dependencies ?b', [])"
    unfolding reconciled_def[of ?b'] same using reconcile_gives_settled[of "lane_map b" "collectTaskIds b"]
    by (intro reconcile_settled) (auto simp: updateTaskDependencies_live reconciled_def)
  then show ?thesis by (simp add: updateTaskDependencies_def[of ?b'])
qed

section \<open>Moving\<close>

definition lane_cards :: "'x board \<Rightarrow> column_id \<Rightarrow> 'x board_card list" where
  "lane_cards b c = (case find (\<lambda>col. column_id col = c) (board_columns b) of None \<Rightarrow> [] | Some col \<Rightarrow> cards col)"

lemma find_distinct_key:
  "distinct (map f xs) \<Longrightarrow> n < length xs \<Longrightarrow> find (\<lambda>x. f x = f (xs ! n)) xs = Some (xs ! n)"
proof (induction xs arbitrary: n)
  case Nil
  then show ?case by simp
next
  case (Cons x xs)
  show ?case
  proof (cases n)
    case 0
    then show ?thesis by simp
  next
    case (Suc k)
    then have "f (xs ! k) \<in> f ` set xs" using Cons.prems by simp
    then have "f x \<noteq> f (xs ! k)" using Cons.prems by auto
    then show ?thesis using Suc Cons by simp
  qed
qed

lemma lane_cards_nth:
  "distinct (map column_id (board_columns b)) \<Longrightarrow> n < length (board_columns b)
    \<Longrightarrow> lane_cards b (column_id (board_columns b ! n)) = cards (board_columns b ! n)"
  by (simp add: lane_cards_def find_distinct_key)

lemma lane_cards_none: "c \<notin> column_id ` set (board_columns b) \<Longrightarrow> lane_cards b c = []"
proof -
  assume "c \<notin> column_id ` set (board_columns b)"
  then have "find (\<lambda>col. column_id col = c) (board_columns b) = None" by (auto simp: find_None_iff)
  then show ?thesis by (simp add: lane_cards_def)
qed

lemma lane_of_cards:
  assumes "unique_ids b" "distinct (map column_id (board_columns b))"
  shows "lane_of b i = Some c \<longleftrightarrow> i \<in> card_id ` set (lane_cards b c)"
proof
  assume "lane_of b i = Some c"
  then obtain n where "n < length (board_columns b)" "column_id (board_columns b ! n) = c"
    "i \<in> set (column_ids (board_columns b ! n))" unfolding lane_of_mem[OF assms(1)] by (metis in_set_conv_nth)
  then show "i \<in> card_id ` set (lane_cards b c)" using lane_cards_nth[OF assms(2)] by (auto simp: column_ids_def)
next
  assume i: "i \<in> card_id ` set (lane_cards b c)"
  then have "c \<in> column_id ` set (board_columns b)" using lane_cards_none by fastforce
  then obtain n where n: "n < length (board_columns b)" "column_id (board_columns b ! n) = c" by (metis imageE in_set_conv_nth)
  then have "i \<in> set (column_ids (board_columns b ! n))" using i lane_cards_nth[OF assms(2) n(1)] by (simp add: column_ids_def)
  then show "lane_of b i = Some c" using n unfolding lane_of_mem[OF assms(1)] by (metis nth_mem)
qed

lemma remove_at_filter:
  "distinct (map f xs) \<Longrightarrow> n < length xs \<Longrightarrow> f (xs ! n) = i \<Longrightarrow> remove_at n xs = filter (\<lambda>x. f x \<noteq> i) xs"
proof (induction xs arbitrary: n)
  case Nil
  then show ?case by simp
next
  case (Cons x xs)
  show ?case
  proof (cases n)
    case 0
    then have "i = f x" "f x \<notin> f ` set xs" using Cons.prems by auto
    then have "\<forall>y \<in> set xs. f y \<noteq> i" by (metis image_eqI)
    then show ?thesis using 0 Cons.prems by (auto simp: remove_at_def filter_id_conv)
  next
    case (Suc k)
    then have "f x \<noteq> i" using Cons.prems by auto
    then show ?thesis using Suc Cons by (simp add: remove_at_def)
  qed
qed

lemma distinct_column_ids:
  assumes "unique_ids b" "n < length (board_columns b)"
  shows "distinct (map card_id (cards (board_columns b ! n)))"
proof -
  have "column_ids (board_columns b ! n) \<in> set (map column_ids (board_columns b))" using assms(2) by simp
  then show ?thesis using assms(1) unfolding board_ids_def column_ids_def by (metis distinct_concat_iff)
qed

text \<open>A move that happens, lane by lane.\<close>

lemma move_lanes:
  assumes inv: "unique_ids b" "distinct (map column_id (board_columns b))"
    and i: "trim i = i" "i \<noteq> []" "lane_of b i = Some src" and ne: "src \<noteq> target"
    and tgt: "target \<in> column_id ` set (board_columns b)"
  obtains t b1 where "moveTaskToColumn b i target now = \<lparr>moved = True, mv_board = updateTaskDependencies b1 now,
        mv_task = Some (t\<lparr>card_updatedAt := now\<rparr>), mv_from = Some src\<rparr>"
    "t \<in> set (lane_cards b src)" "card_id t = i" "dependencies b1 = dependencies b" "sat_list b1 = sat_list b"
    "unique_ids b1" "distinct (map column_id (board_columns b1))" "collectTaskIds b1 = collectTaskIds b"
    "lane_cards b1 = (lane_cards b)(
       src := filter (\<lambda>k. card_id k \<noteq> i) (lane_cards b src),
       target := (if terminal_lane target then t\<lparr>card_updatedAt := now\<rparr> # lane_cards b target
                  else lane_cards b target @ [t\<lparr>card_updatedAt := now\<rparr>]))"
proof -
  let ?cs = "board_columns b"
  have "getTaskColumnId b i = Some src" using i by (simp add: getTaskColumnId_lane[OF inv(1)])
  then obtain l where l: "findTaskLocation b i = Some l" "loc_columnId l = src"
    using i by (auto simp: getTaskColumnId_def)
  note loc = findTaskLocation_Some[OF l(1)]
  obtain ti where ti: "find_index (\<lambda>c. column_id c = target) ?cs = Some ti"
    using tgt by (cases "find_index (\<lambda>c. column_id c = target) ?cs") auto
  define b1 where "b1 = b\<lparr>board_columns := moved_columns b l ti target now\<rparr>"
  have ne': "loc_columnId l \<noteq> target" using l ne by simp
  note mc = moved_columns_ids[OF l(1) ne' ti]
  have m: "mset (board_ids b1) = mset (board_ids b)" using mc(1) by (simp add: b1_def board_ids_def)
  have mv: "moveTaskToColumn b i target now = \<lparr>moved = True, mv_board = updateTaskDependencies b1 now,
        mv_task = Some ((loc_card l)\<lparr>card_updatedAt := now\<rparr>), mv_from = Some src\<rparr>"
    using i l ne ti by (simp add: moveTaskToColumn_def Let_def b1_def moved_columns_def)
  have dc: "distinct (map column_id (board_columns b1))" using mc(2) inv(2) by (simp add: b1_def)
  have len: "length (board_columns b1) = length ?cs" by (simp add: b1_def moved_columns_def Let_def)
  have id1: "column_id (board_columns b1 ! n) = column_id (?cs ! n)" if "n < length ?cs" for n
    using mc(2) that len by (metis b1_def board.select_convs(1) board.surjective board.update_convs(1) nth_map)
  have c1: "board_columns b1 ! n = (if n = loc_column l then (?cs ! n)\<lparr>cards := remove_at (loc_task l) (cards (?cs ! n))\<rparr>
      else if n = ti then (?cs ! n)\<lparr>cards := (if terminal_lane target then (loc_card l)\<lparr>card_updatedAt := now\<rparr> # cards (?cs ! n)
        else cards (?cs ! n) @ [(loc_card l)\<lparr>card_updatedAt := now\<rparr>])\<rparr> else ?cs ! n)" if "n < length ?cs" for n
    using that mc(3,5) loc(1) by (simp add: b1_def moved_columns_def Let_def nth_list_update)
  have lanes: "lane_cards b1 c = ((lane_cards b)(
       src := filter (\<lambda>k. card_id k \<noteq> i) (lane_cards b src),
       target := (if terminal_lane target then (loc_card l)\<lparr>card_updatedAt := now\<rparr> # lane_cards b target
                  else lane_cards b target @ [(loc_card l)\<lparr>card_updatedAt := now\<rparr>]))) c" for c
  proof (cases "c \<in> column_id ` set ?cs")
    case False
    then have "c \<notin> column_id ` set (board_columns b1)" "c \<noteq> target" "c \<noteq> src"
      using mc(2) tgt l(2) loc(1,4) by (auto simp: b1_def) (metis image_set image_eqI)+
    then show ?thesis using False lane_cards_none[of c b] lane_cards_none[of c b1] by simp
  next
    case True
    then obtain n where n: "n < length ?cs" "column_id (?cs ! n) = c" by (metis imageE in_set_conv_nth)
    have lc: "lane_cards b1 c = cards (board_columns b1 ! n)" "lane_cards b c = cards (?cs ! n)"
      using lane_cards_nth[OF dc, of n] lane_cards_nth[OF inv(2) n(1)] len n id1 by auto
    have at_n: "c = src \<longleftrightarrow> n = loc_column l" "c = target \<longleftrightarrow> n = ti"
      using n inv(2) l(2) loc(1,4) mc(3,4) by (auto simp: distinct_conv_nth)
    show ?thesis
      using lc at_n c1[OF n(1)] remove_at_filter[OF distinct_column_ids[OF inv(1) n(1)], of "loc_task l" i] loc mc(5) ne
      by (cases "n = loc_column l"; cases "n = ti") auto
  qed
  have "loc_card l \<in> set (lane_cards b src)"
    using lane_cards_nth[OF inv(2) loc(1)] loc l(2) by auto
  then show thesis using mv loc(5) m inv dc lanes unique_tidy_mset[OF m]
    by (intro that[of b1 "loc_card l"]) (auto simp: b1_def sat_list_def)
qed

section \<open>Releasing dependents\<close>

definition colon_free :: "'x board \<Rightarrow> bool" where
  "colon_free b \<longleftrightarrow> list_all (\<lambda>i. CHR '':'' \<notin> set i) (board_ids b)"

lemma pair_key_from:
  assumes "createDependencyPairKey w l = createDependencyPairKey w' l'" "CHR '':'' \<notin> set w" "CHR '':'' \<notin> set w'"
  shows "w = w'"
proof -
  have "takeWhile (\<lambda>c. c \<noteq> CHR '':'') (createDependencyPairKey v k) = v" if "CHR '':'' \<notin> set v" for v k
    using that by (induction v) (auto simp: createDependencyPairKey_def)
  then show ?thesis using assms by metis
qed

lemma live_ends:
  assumes "board_inv b" "d \<in> set (dependencies b)"
  shows "open_card b (fromTaskId d)" "open_card b (toTaskId d)" "fromTaskId d \<noteq> toTaskId d"
    "trim (fromTaskId d) = fromTaskId d" "trim (toTaskId d) = toTaskId d" "fromTaskId d \<noteq> []" "toTaskId d \<noteq> []"
    "fromTaskId d \<in> collectTaskIds b" "toTaskId d \<in> collectTaskIds b"
proof -
  show o: "open_card b (fromTaskId d)" "open_card b (toTaskId d)"
    using assms by (auto simp: board_inv_def live_edges_def list_all_iff)
  then show on: "fromTaskId d \<in> collectTaskIds b" "toTaskId d \<in> collectTaskIds b" by (auto simp: open_card_on_board)
  then show "trim (fromTaskId d) = fromTaskId d" "trim (toTaskId d) = toTaskId d" "fromTaskId d \<noteq> []" "toTaskId d \<noteq> []"
    using tidy_trim[of b] assms(1) by (auto simp: board_inv_def)
  have e: "(fromTaskId d, toTaskId d) \<in> dep_edges (dependencies b)" using assms(2) by (auto simp: dep_edges_def)
  show "fromTaskId d \<noteq> toTaskId d"
  proof
    assume "fromTaskId d = toTaskId d"
    then have "(fromTaskId d, fromTaskId d) \<in> (dep_edges (dependencies b))\<^sup>+" using e by auto
    then show False using assms(1) by (auto simp: board_inv_def acyclic_def)
  qed
qed

text \<open>Which edges a finished task leaves on the board.\<close>

lemma edges_after_finish:
  assumes inv: "board_inv b" "colon_free b"
    and u: "unique_ids b1" "collectTaskIds b1 = collectTaskIds b" "dependencies b1 = dependencies b"
    and opens: "\<And>j. open_card b1 j \<longleftrightarrow> open_card b j \<and> j \<noteq> i"
    and w: "w \<noteq> i"
  shows "(\<exists>t. (w, t) \<in> dep_edges (dependencies (updateTaskDependencies b1 now)))
    \<longleftrightarrow> (\<exists>e \<in> set (dependencies b). fromTaskId e = w \<and> toTaskId e \<noteq> i)" (is "?L \<longleftrightarrow> ?R")
proof
  assume ?L
  then obtain d' where d': "d' \<in> set (dependencies (updateTaskDependencies b1 now))" "fromTaskId d' = w"
    by (auto simp: dep_edges_def)
  obtain d where d: "d \<in> set (dependencies b)" "d' = d\<lparr>fromTaskId := trim (fromTaskId d), toTaskId := trim (toTaskId d)\<rparr>"
    using updateTaskDependencies_edges(1)[OF d'(1) u(1)] u(3) by auto
  have "toTaskId d' \<noteq> i" using updateTaskDependencies_edges(3)[OF d'(1) u(1)] opens by auto
  then show ?R using d d'(2) live_ends(4,5)[OF inv(1) d(1)] by force
next
  assume ?R
  then obtain e where e: "e \<in> set (dependencies b)" "fromTaskId e = w" "toTaskId e \<noteq> i" by auto
  note le = live_ends[OF inv(1) e(1)]
  have o: "open_card b1 w" "open_card b1 (toTaskId e)" using le(1,2) e w opens by auto
  let ?R = "reconcile_edges (lane_map b1) (collectTaskIds b1) now (sat_id ` set (sat_list b1)) {} (dependencies b1)"
  obtain d' where d': "d' \<in> set (fst ?R)" "pair_key d' = createDependencyPairKey w (toTaskId e)"
    using reconcile_keeps_pair[of e "dependencies b1" w "toTaskId e" "collectTaskIds b1" "lane_map b1" "{}" now] e le o u
    by (auto simp: lane_terminal_of)
  then have mem: "d' \<in> set (dependencies (updateTaskDependencies b1 now))"
    by (simp add: updateTaskDependencies_live reconciled_def)
  have "fromTaskId d' \<in> collectTaskIds b" using updateTaskDependencies_edges(2)[OF mem u(1)] opens open_card_on_board by auto
  then have "fromTaskId d' = w" using pair_key_from[OF d'(2)] le(8) e(2) inv(2)
    by (auto simp: colon_free_def list_all_iff collectTaskIds_def)
  then show ?L using mem by (auto simp: dep_edges_def)
qed

lemma ready_after_trashed_set:
  assumes "board_inv b" "i \<noteq> []"
  shows "set (ready_after_trashed b i (Some ReviewLane)) = {w. (w, i) \<in> dep_edges (dependencies b)
      \<and> (\<exists>c. lane_of b w = Some c \<and> waiting_lane c)
      \<and> \<not> (\<exists>e \<in> set (dependencies b). fromTaskId e = w \<and> toTaskId e \<noteq> i)}"
proof -
  have g: "getTaskColumnId b (fromTaskId d) = lane_of b (fromTaskId d)" if "d \<in> set (dependencies b)" for d
    using live_ends(4,6)[OF assms(1) that] assms(1) by (simp add: getTaskColumnId_lane board_inv_def)
  have rel: "(case getTaskColumnId b (fromTaskId d) of None \<Rightarrow> False | Some c \<Rightarrow> waiting_lane c)
      \<longleftrightarrow> (\<exists>c. lane_of b (fromTaskId d) = Some c \<and> waiting_lane c)" if "d \<in> set (dependencies b)" for d
    unfolding g[OF that] by (simp split: option.split)
  define other where "other w \<longleftrightarrow> (\<exists>e \<in> set (dependencies b). fromTaskId e = w \<and> toTaskId e \<noteq> i)" for w
  define wait where "wait w \<longleftrightarrow> (\<exists>c. lane_of b w = Some c \<and> waiting_lane c)" for w
  have "set (ready_after_trashed b i (Some ReviewLane)) = {fromTaskId d | d. d \<in> set (dependencies b) \<and> toTaskId d = i
      \<and> (case getTaskColumnId b (fromTaskId d) of None \<Rightarrow> False | Some c \<Rightarrow> waiting_lane c)
      \<and> \<not> list_ex (\<lambda>e. fromTaskId e = fromTaskId d \<and> toTaskId e \<noteq> i) (dependencies b)}"
    using assms(2) by (auto simp: ready_after_trashed_def)
  also have "\<dots> = {fromTaskId d | d. d \<in> set (dependencies b) \<and> toTaskId d = i
      \<and> wait (fromTaskId d) \<and> \<not> other (fromTaskId d)}"
    using rel unfolding wait_def[symmetric] other_def list_ex_iff by blast
  also have "\<dots> = {w. (w, i) \<in> dep_edges (dependencies b) \<and> wait w \<and> \<not> other w}"
    by (auto simp: dep_edges_def)
  finally show ?thesis by (simp add: wait_def other_def)
qed

lemma lanes_after_move:
  assumes b: "unique_ids b" "distinct (map column_id (board_columns b))"
    and b1: "unique_ids b1" "distinct (map column_id (board_columns b1))"
    and t: "card_id t = i" and src: "lane_of b i = Some src" "src \<noteq> target"
    and lanes: "lane_cards b1 = (lane_cards b)(
       src := filter (\<lambda>k. card_id k \<noteq> i) (lane_cards b src),
       target := (if terminal_lane target then t # lane_cards b target else lane_cards b target @ [t]))"
  shows "lane_of b1 = (lane_of b)(i \<mapsto> target)"
proof
  fix j
  have iff: "lane_of b1 j = Some c \<longleftrightarrow> ((lane_of b)(i \<mapsto> target)) j = Some c" for c
  proof (cases "j = i")
    case True
    have "c = src" if "lane_of b i = Some c" using that src by simp
    then have "i \<in> card_id ` set (lane_cards b1 c) \<longleftrightarrow> c = target"
      using lanes t src lane_of_cards[OF b, of i c] by auto
    then show ?thesis using True lane_of_cards[OF b1, of j c] by auto
  next
    case False
    then have "j \<in> card_id ` set (lane_cards b1 c) \<longleftrightarrow> j \<in> card_id ` set (lane_cards b c)"
      using lanes t src by auto
    then show ?thesis using False lane_of_cards[OF b1, of j c] lane_of_cards[OF b, of j c] by simp
  qed
  show "lane_of b1 j = ((lane_of b)(i \<mapsto> target)) j"
    using iff by (cases "lane_of b1 j") (metis option.exhaust)+
qed

lemma finish_releases:
  fixes now :: jsnum
  assumes inv: "board_inv b" "colon_free b" and i: "lane_of b i = Some ReviewLane"
    and tgt: "terminal_lane target" "target \<in> column_id ` set (board_columns b)"
  defines "b' \<equiv> mv_board (fst (finish_task target b i now))"
  shows "moved (fst (finish_task target b i now))"
    and "set (snd (finish_task target b i now)) = {w. (w, i) \<in> dep_edges (dependencies b)
      \<and> (\<exists>c. lane_of b' w = Some c \<and> waiting_lane c) \<and> \<not> (\<exists>t. (w, t) \<in> dep_edges (dependencies b'))}"
    and "lane_of b' = (lane_of b)(i \<mapsto> target)"
proof -
  have u: "unique_ids b" "distinct (map column_id (board_columns b))" "tidy_ids b" using inv by (auto simp: board_inv_def)
  have on: "i \<in> collectTaskIds b" using i lane_of_None[of b i] by auto
  then have ti: "trim i = i" "i \<noteq> []" using tidy_trim[OF u(3)] by auto
  have ne: "ReviewLane \<noteq> target" using tgt by auto
  obtain t b1 where mv: "moveTaskToColumn b i target now = \<lparr>moved = True, mv_board = updateTaskDependencies b1 now,
        mv_task = Some (t\<lparr>card_updatedAt := now\<rparr>), mv_from = Some ReviewLane\<rparr>"
    and t: "card_id t = i" "dependencies b1 = dependencies b"
    and u1: "unique_ids b1" "distinct (map column_id (board_columns b1))" "collectTaskIds b1 = collectTaskIds b"
    and lanes: "lane_cards b1 = (lane_cards b)(
       ReviewLane := filter (\<lambda>k. card_id k \<noteq> i) (lane_cards b ReviewLane),
       target := (if terminal_lane target then t\<lparr>card_updatedAt := now\<rparr> # lane_cards b target
                  else lane_cards b target @ [t\<lparr>card_updatedAt := now\<rparr>]))"
    by (rule move_lanes[OF u(1,2) ti i ne tgt(2), of now]) blast
  have lo: "lane_of b1 = (lane_of b)(i \<mapsto> target)"
    by (rule lanes_after_move[OF u(1,2) u1(1,2) _ i ne lanes]) (simp add: t)
  have b': "b' = updateTaskDependencies b1 now" by (simp add: b'_def finish_task_def Let_def mv)
  show m: "moved (fst (finish_task target b i now))" by (simp add: finish_task_def Let_def mv)
  have lo': "lane_of b' = lane_of b1" by (rule lane_of_columns) (simp add: b')
  show "lane_of b' = (lane_of b)(i \<mapsto> target)" using lo lo' by simp
  have opens: "open_card b1 j \<longleftrightarrow> open_card b j \<and> j \<noteq> i" for j
    using tgt(1) by (auto simp: open_card_def lo split: option.splits)
  have "snd (finish_task target b i now) = ready_after_trashed b i (Some ReviewLane)"
    using m ti i by (simp add: finish_task_def Let_def getTaskColumnId_lane[OF u(1)])
  then have "set (snd (finish_task target b i now)) = {w. (w, i) \<in> dep_edges (dependencies b)
      \<and> (\<exists>c. lane_of b w = Some c \<and> waiting_lane c)
      \<and> \<not> (\<exists>e \<in> set (dependencies b). fromTaskId e = w \<and> toTaskId e \<noteq> i)}"
    using ready_after_trashed_set[OF inv(1) ti(2)] by simp
  also have "\<dots> = {w. (w, i) \<in> dep_edges (dependencies b)
      \<and> (\<exists>c. lane_of b' w = Some c \<and> waiting_lane c) \<and> \<not> (\<exists>t. (w, t) \<in> dep_edges (dependencies b'))}"
  proof (intro Collect_cong conj_cong refl)
    fix w assume "(w, i) \<in> dep_edges (dependencies b)"
    then have w: "w \<noteq> i" using live_ends(3)[OF inv(1)] by (auto simp: dep_edges_def)
    show "(\<exists>c. lane_of b w = Some c \<and> waiting_lane c) = (\<exists>c. lane_of b' w = Some c \<and> waiting_lane c)"
      using w lo lo' by simp
    show "(\<not> (\<exists>e \<in> set (dependencies b). fromTaskId e = w \<and> toTaskId e \<noteq> i)) = (\<not> (\<exists>t. (w, t) \<in> dep_edges (dependencies b')))"
      using edges_after_finish[OF inv u1(1,3) t(2) opens w, of now] b' by simp
  qed
  finally show "set (snd (finish_task target b i now)) = \<dots>" .
qed

end
