(* ===== verification/BoardProperties.thy ===== *)
theory BoardProperties
  imports BoardRelease
begin

text \<open>
  The properties of the board's mutations, over a sample board that the mutations themselves build
  from a board with empty lanes.
\<close>

section \<open>A sample board\<close>

fun ops_ok :: "'x board_op list \<Rightarrow> 'x board \<Rightarrow> bool" where
  "ops_ok [] b = True"
| "ops_ok (e # es) b = (op_ok e b \<and> ops_ok es (board_step e b))"

lemma ops_ok_inv: "ops_ok es b \<Longrightarrow> board_inv b \<Longrightarrow> board_inv (fold board_step es b)"
  by (induction es arbitrary: b) (auto intro: boards.step_inv)

definition empty_board :: "unit board" where
  "empty_board = \<lparr>board_columns = map (\<lambda>c. \<lparr>column_id = c, column_title = [], cards = []\<rparr>)
       [Backlog, Planning, ReadyLane, InProgress, ReviewLane, CompletedLane, TrashLane],
     dependencies = [], board_streams = None, satisfiedDependencies = None\<rparr>"

lemma empty_board_inv: "board_inv empty_board"
  by (simp add: board_inv_def empty_board_def tidy_ids_def live_edges_def board_ids_def column_ids_def
      dep_edges_def acyclic_def)

definition built_input :: "string option \<Rightarrow> unit create_input" where
  "built_input i = \<lparr>ci_taskId = i, ci_title = None, ci_prompt = '' x'', ci_startInPlanMode = None,
     ci_autoReviewEnabled = None, ci_externallySupervised = None, ci_autoReviewMode = None,
     ci_testEvidencePolicy = None, ci_testability = Some NotTestable, ci_testabilityReason = Some '' docs '',
     ci_images = None, ci_agentId = None, ci_nkleinSettings = None, ci_filesLikelyTouched = None,
     ci_writeScope = None, ci_forbiddenPaths = None, ci_generatedFromPlan = Some (), ci_trustedOrigin = None,
     ci_fleetReshardRequest = None, ci_streamId = None, ci_redecomposeOf = None, ci_decomposeGeneration = None,
     ci_baseRef = ''m''\<rparr>"

definition built_uuid :: "nat \<Rightarrow> string" where
  "built_uuid n = ''12-34-5678''"

text \<open>\<^verbatim>\<open>w\<close> waits for \<^verbatim>\<open>p\<close>, \<^verbatim>\<open>j\<close> for \<^verbatim>\<open>p\<close> and \<^verbatim>\<open>q\<close>; \<^verbatim>\<open>p\<close> is in review.\<close>

definition built_ops :: "unit board_op list" where
  "built_ops =
     [AddCard Backlog (built_input (Some i)) built_uuid ''zzzzz'' (Fin 1). i \<leftarrow> [''p'', ''q'', ''w'', ''j'']] @
     [AddCard Backlog (built_input None) built_uuid ''zzzzz'' (Fin 1),
      AddEdge ''w'' ''p'' ''aaaaaaaaa'' (Fin 2), AddEdge ''j'' ''p'' ''bbbbbbbbb'' (Fin 2),
      AddEdge ''j'' '' q'' ''ccccccccc'' (Fin 2), AddEdge ''q'' ''j'' ''ddddddddd'' (Fin 2),
      MoveCard ''p '' ReviewLane (Fin 3)]"

definition built_board :: "unit board" where
  "built_board = fold board_step built_ops empty_board"

definition built_card :: "string \<Rightarrow> jsnum \<Rightarrow> unit board_card" where
  "built_card i t = \<lparr>card_id = i, card_title = Some ''x'', card_prompt = ''x'', startInPlanMode = False,
     autoReviewEnabled = Some False, externallySupervised = None, autoReviewMode = Some CommitMode,
     testEvidencePolicy = None, card_testability = Some NotTestable, testabilityReason = Some ''docs'',
     card_images = None, agentId = None, nkleinSettings = None, filesLikelyTouched = None, writeScope = None,
     forbiddenPaths = None, generatedFromPlan = Some (), trustedOrigin = Some PlanOrigin, fleetReshardRequest = None,
     streamId = None, redecomposeOf = None, decomposeGeneration = None, baseRef = ''m'', card_createdAt = Fin 1,
     card_updatedAt = t, card_rest = []\<rparr>"

text \<open>What the mutations built, for the evaluations that follow.\<close>

lemma built_board_value [code]:
  "built_board = \<lparr>board_columns =
      [\<lparr>column_id = Backlog, column_title = [],
         cards = [built_card ''12345'' (Fin 1), built_card ''j'' (Fin 1), built_card ''w'' (Fin 1), built_card ''q'' (Fin 1)]\<rparr>,
       \<lparr>column_id = Planning, column_title = [], cards = []\<rparr>,
       \<lparr>column_id = ReadyLane, column_title = [], cards = []\<rparr>,
       \<lparr>column_id = InProgress, column_title = [], cards = []\<rparr>,
       \<lparr>column_id = ReviewLane, column_title = [], cards = [built_card ''p'' (Fin 3)]\<rparr>,
       \<lparr>column_id = CompletedLane, column_title = [], cards = []\<rparr>,
       \<lparr>column_id = TrashLane, column_title = [], cards = []\<rparr>],
     dependencies =
      [\<lparr>dep_id = ''aaaaaaaa'', fromTaskId = ''w'', toTaskId = ''p'', dep_createdAt = Fin 2\<rparr>,
       \<lparr>dep_id = ''bbbbbbbb'', fromTaskId = ''j'', toTaskId = ''p'', dep_createdAt = Fin 2\<rparr>,
       \<lparr>dep_id = ''cccccccc'', fromTaskId = ''j'', toTaskId = ''q'', dep_createdAt = Fin 2\<rparr>],
     board_streams = None, satisfiedDependencies = None\<rparr>"
  by code_simp

lemma built_ops_ok: "ops_ok built_ops empty_board"
  by code_simp

lemma built_board_inv: "board_inv built_board"
  unfolding built_board_def by (rule ops_ok_inv[OF built_ops_ok empty_board_inv])

lemma built_unique: "unique_ids built_board"
  using built_board_inv by (simp add: board_inv_def)

section \<open>The invariant\<close>

text \<open>
  C10. Board invariant: whatever sequence of mutations is applied, with the fresh ids it needs for
  new cards, every card keeps its own trimmed id, every edge joins two different cards of the board
  that are not finished, and the edges have no cycle.
\<close>

theorem board_run_keeps_invariant:
  assumes "board_inv b" "ops_ok es b"
  shows "board_inv (fold board_step es b)"
  using ops_ok_inv[OF assms(2,1)] .

theorem board_run_keeps_invariant_witness:
  "board_inv (fold board_step built_ops empty_board)
   \<and> board_ids (fold board_step built_ops empty_board) = [''12345'', ''j'', ''w'', ''q'', ''p'']
   \<and> length (dependencies (fold board_step built_ops empty_board)) = 3"
proof (intro conjI)
  show "board_inv (fold board_step built_ops empty_board)"
    by (rule board_run_keeps_invariant[OF empty_board_inv built_ops_ok])
qed (simp_all add: built_board_def[symmetric] built_board_value board_ids_def column_ids_def built_card_def)

section \<open>Edges\<close>

text \<open>
  C11. The cycle test is exact: on a board whose edges have no cycle it answers yes for precisely
  the edges that would close one.
\<close>

theorem cycle_test_exact:
  assumes "acyclic (dep_edges (dependencies b))"
  shows "wouldCreateDependencyCycle b f t \<longleftrightarrow> \<not> acyclic (insert (f, t) (dep_edges (dependencies b)))"
  using assms by (simp add: wouldCreateDependencyCycle_iff acyclic_insert)

theorem cycle_test_exact_witness:
  "\<not> acyclic (insert (''q'', ''j'') (dep_edges (dependencies built_board)))
   \<and> acyclic (insert (''q'', ''w'') (dep_edges (dependencies built_board)))"
proof -
  have ac: "acyclic (dep_edges (dependencies built_board))" using built_board_inv by (simp add: board_inv_def)
  have "wouldCreateDependencyCycle built_board ''q'' ''j''" "\<not> wouldCreateDependencyCycle built_board ''q'' ''w''"
    by code_simp+
  then show ?thesis using cycle_test_exact[OF ac] by simp
qed

text \<open>
  Adding an edge: the preview \<^verbatim>\<open>canAddTaskDependency\<close> answers as the addition does; a refused
  edge leaves the board as it was and has a reason; an accepted one is appended, joins the two cards
  named, starts at a waiting card, and its end does not depend on its start.
\<close>

theorem dependency_add_decided:
  assumes "unique_ids b"
  shows "added (addTaskDependency b f s uuid now) = canAddTaskDependency b f s
    \<and> (case ad_dependency (addTaskDependency b f s uuid now) of
         None \<Rightarrow> ad_board (addTaskDependency b f s uuid now) = b \<and> \<not> added (addTaskDependency b f s uuid now)
           \<and> ad_reason (addTaskDependency b f s uuid now) \<noteq> None
       | Some d \<Rightarrow> added (addTaskDependency b f s uuid now)
           \<and> ad_board (addTaskDependency b f s uuid now) = b\<lparr>dependencies := dependencies b @ [d]\<rparr>
           \<and> {fromTaskId d, toTaskId d} = {trim f, trim s}
           \<and> (\<exists>c. lane_of b (fromTaskId d) = Some c \<and> waiting_lane c) \<and> open_card b (toTaskId d)
           \<and> (toTaskId d, fromTaskId d) \<notin> (dep_edges (dependencies b))\<^sup>*)"
proof -
  have "added (addTaskDependency b f s uuid now) = canAddTaskDependency b f s"
    by (cases "resolveDependencyEndpoints b (trim f) (trim s)")
      (auto simp: addTaskDependency_def canAddTaskDependency_def dep_refused_def Let_def)
  then show ?thesis
  proof (cases rule: addTaskDependency_cases[of b f s uuid now])
    case (refused r)
    with \<open>added _ = _\<close> show ?thesis by (simp add: dep_refused_def)
  next
    case (accepted w l d)
    note o = resolve_open[OF assms accepted(1)]
    have tr: "trim w = w" "trim l = l" using o(1) by (auto simp: doubleton_eq_iff)
    have "\<exists>c. lane_of b w = Some c \<and> waiting_lane c" using o(4) tr by (simp split: option.splits)
    then show ?thesis using \<open>added _ = _\<close> accepted(2,4,5) o(1,3) tr
      by (simp add: wouldCreateDependencyCycle_iff)
  qed
qed

theorem dependency_add_decided_witness:
  "ad_dependency (addTaskDependency built_board ''p'' '' 12345'' ''e-eeeeeeeee'' (Fin 9))
     = Some \<lparr>dep_id = ''eeeeeeee'', fromTaskId = ''12345'', toTaskId = ''p'', dep_createdAt = Fin 9\<rparr>
   \<and> canAddTaskDependency built_board ''p'' '' 12345''
   \<and> (''p'', ''12345'') \<notin> (dep_edges (dependencies built_board))\<^sup>*
   \<and> ad_reason (addTaskDependency built_board ''q'' ''j'' [] (Fin 9)) = Some WouldCreateCycle
   \<and> \<not> canAddTaskDependency built_board ''q'' ''j''"
proof -
  have d: "ad_dependency (addTaskDependency built_board ''p'' '' 12345'' ''e-eeeeeeeee'' (Fin 9))
     = Some \<lparr>dep_id = ''eeeeeeee'', fromTaskId = ''12345'', toTaskId = ''p'', dep_createdAt = Fin 9\<rparr>" by code_simp
  have n: "added (addTaskDependency built_board ''q'' ''j'' [] (Fin 9)) = False"
    "ad_reason (addTaskDependency built_board ''q'' ''j'' [] (Fin 9)) = Some WouldCreateCycle" by code_simp+
  show ?thesis
    using dependency_add_decided[OF built_unique, of "''p''" "'' 12345''" "''e-eeeeeeeee''" "Fin 9"]
      dependency_add_decided[OF built_unique, of "''q''" "''j''" "[]" "Fin 9"]
    unfolding d n option.case dependency.select_convs by blast
qed

text \<open>
  C12. Reconciling loses no edge: an edge is dropped only for a blank, equal or missing end; one with a
  finished end is recorded as satisfied, with how it was released; any other pair stays on the board.
\<close>

theorem reconcile_loses_no_edge:
  assumes "unique_ids b" "distinct (map dep_id (dependencies b))"
    and "list_all (\<lambda>s. sat_id s \<notin> dep_id ` set (dependencies b)) (sat_list b)" "d \<in> set (dependencies b)"
    and "trim (fromTaskId d) \<noteq> trim (toTaskId d)" "trim (fromTaskId d) \<noteq> []" "trim (toTaskId d) \<noteq> []"
    and "trim (fromTaskId d) \<in> collectTaskIds b" "trim (toTaskId d) \<in> collectTaskIds b"
  shows "(if open_card b (trim (fromTaskId d)) \<and> open_card b (trim (toTaskId d))
     then (\<exists>d' \<in> set (dependencies (updateTaskDependencies b now)). pair_key d' = createDependencyPairKey (trim (fromTaskId d)) (trim (toTaskId d)))
     else \<lparr>sat_id = dep_id d, sat_from = trim (fromTaskId d), sat_to = trim (toTaskId d), sat_createdAt = dep_createdAt d,
           releasedAt = now, releasedBy = (case lane_of b (trim (toTaskId d)) of
              Some CompletedLane \<Rightarrow> ByCompletion | Some TrashLane \<Rightarrow> ByTrash | _ \<Rightarrow> DependentTerminal)\<rparr>
         \<in> set (sat_list (updateTaskDependencies b now)))"
proof (cases "open_card b (trim (fromTaskId d)) \<and> open_card b (trim (toTaskId d))")
  case True
  then show ?thesis
    using reconcile_keeps_pair[OF assms(4) refl refl assms(6,7,5,8,9), of "lane_map b" "{}" now "sat_id ` set (sat_list b)"]
    by (simp add: lane_terminal_of[OF assms(1)] updateTaskDependencies_live reconciled_def)
next
  case False
  have ret: "dep_id d \<notin> sat_id ` set (sat_list b)" using assms(3,4) by (auto simp: list_all_iff) (metis image_eqI)
  have "retire (lane_map b) now d (trim (fromTaskId d)) (trim (toTaskId d)) \<in> set (sat_list (updateTaskDependencies b now))"
    using reconcile_retires[OF assms(4) refl refl assms(6,7,5,8,9) _ assms(2) ret, of "lane_map b" now "{}"] False assms(8,9)
    by (auto simp: lane_terminal_of[OF assms(1)] sat_list_update reconciled_def)
  moreover have "map_of (lane_map b) (trim (toTaskId d)) = lane_of b (trim (toTaskId d))"
    by (simp add: lane_map_of[OF assms(1)] lane_of_def)
  ultimately show ?thesis using False
    by (auto simp: retire_def lane_terminal_def split: option.splits column_id.splits)
qed

definition stale_board :: "unit board" where
  "stale_board = built_board\<lparr>board_columns := map (\<lambda>c. if column_id c = ReviewLane then c\<lparr>column_id := CompletedLane\<rparr>
      else if column_id c = CompletedLane then c\<lparr>column_id := ReviewLane\<rparr> else c) (board_columns built_board)\<rparr>"

theorem reconcile_loses_no_edge_witness:
  "\<lparr>sat_id = ''aaaaaaaa'', sat_from = ''w'', sat_to = ''p'', sat_createdAt = Fin 2, releasedAt = Fin 4,
      releasedBy = ByCompletion\<rparr> \<in> set (sat_list (updateTaskDependencies stale_board (Fin 4)))"
proof -
  let ?d = "\<lparr>dep_id = ''aaaaaaaa'', fromTaskId = ''w'', toTaskId = ''p'', dep_createdAt = Fin 2\<rparr>"
  have "unique_ids stale_board" "distinct (map dep_id (dependencies stale_board))"
    "list_all (\<lambda>s. sat_id s \<notin> dep_id ` set (dependencies stale_board)) (sat_list stale_board)" "?d \<in> set (dependencies stale_board)"
    "trim (fromTaskId ?d) \<noteq> trim (toTaskId ?d)" "trim (fromTaskId ?d) \<noteq> []" "trim (toTaskId ?d) \<noteq> []"
    "trim (fromTaskId ?d) \<in> collectTaskIds stale_board" "trim (toTaskId ?d) \<in> collectTaskIds stale_board"
    by code_simp+
  note r = reconcile_loses_no_edge[OF this, of "Fin 4"]
  have "\<not> open_card stale_board ''p''" "lane_of stale_board ''p'' = Some CompletedLane" "trim ''p'' = ''p''" "trim ''w'' = ''w''"
    by code_simp+
  then show ?thesis using r by simp
qed

text \<open>Reconciling a reconciled board changes nothing, whatever board it was and whenever it is repeated.\<close>

theorem reconcile_twice:
  "updateTaskDependencies (updateTaskDependencies b now) later = updateTaskDependencies b now"
  by (rule update_idem)

section \<open>Moving and finishing\<close>

text \<open>
  A move changes two lanes: the card leaves its lane, the others there keep their order, and it
  goes to the front of a terminal lane and to the end of any other, with a new time stamp; every
  other lane is as it was.
\<close>

theorem move_changes_two_lanes:
  assumes "board_inv b" "lane_of b (trim i) = Some src" "src \<noteq> target" "target \<in> column_id ` set (board_columns b)"
  shows "\<exists>t. t \<in> set (lane_cards b src) \<and> card_id t = trim i
    \<and> mv_task (moveTaskToColumn b i target now) = Some (t\<lparr>card_updatedAt := now\<rparr>)
    \<and> moved (moveTaskToColumn b i target now) \<and> mv_from (moveTaskToColumn b i target now) = Some src
    \<and> lane_cards (mv_board (moveTaskToColumn b i target now)) = (lane_cards b)(
        src := filter (\<lambda>k. card_id k \<noteq> trim i) (lane_cards b src),
        target := (if target = CompletedLane \<or> target = TrashLane then t\<lparr>card_updatedAt := now\<rparr> # lane_cards b target
                   else lane_cards b target @ [t\<lparr>card_updatedAt := now\<rparr>]))"
proof -
  have u: "unique_ids b" "distinct (map column_id (board_columns b))" "tidy_ids b" using assms(1) by (auto simp: board_inv_def)
  have on: "trim i \<in> collectTaskIds b" using assms(2) lane_of_None[of b "trim i"] by auto
  have same: "moveTaskToColumn b i target now = moveTaskToColumn b (trim i) target now"
    by (simp add: moveTaskToColumn_def)
  have cols: "lane_cards (updateTaskDependencies b1 now) = lane_cards b1" for b1 :: "'a board"
    by (simp add: lane_cards_def[abs_def])
  show ?thesis unfolding same using tidy_trim[OF u(3) on]
    by (rule_tac move_lanes[OF u(1,2) _ _ assms(2,3,4), of now]) (auto simp: cols)
qed

theorem move_changes_two_lanes_witness:
  "map card_id (lane_cards (mv_board (moveTaskToColumn built_board '' w '' Planning (Fin 9))) Planning) = [''w'']
   \<and> map card_id (lane_cards (mv_board (moveTaskToColumn built_board '' w '' Planning (Fin 9))) Backlog) = [''12345'', ''j'', ''q'']"
proof -
  have h: "lane_of built_board (trim '' w '') = Some Backlog" "Planning \<in> column_id ` set (board_columns built_board)"
    "map card_id (lane_cards built_board Backlog) = [''12345'', ''j'', ''w'', ''q'']" "lane_cards built_board Planning = []"
    "trim '' w '' = ''w''"
    "map card_id (filter (\<lambda>k. card_id k \<noteq> ''w'') (lane_cards built_board Backlog)) = [''12345'', ''j'', ''q'']" by code_simp+
  show ?thesis using move_changes_two_lanes[OF built_board_inv h(1) _ h(2), of "Fin 9"] h(3-6) by auto
qed

text \<open>
  Finishing a card that is in review releases exactly the cards that wait for it, are still in a
  waiting lane and have no prerequisite left on the new board: nothing is released early, nothing is
  forgotten. Ids hold no colon, so that the code's pair keys are distinct for distinct pairs.
\<close>

theorem finish_releases_unblocked:
  assumes "board_inv b" "colon_free b" "lane_of b i = Some ReviewLane" "target = CompletedLane \<or> target = TrashLane"
    "target \<in> column_id ` set (board_columns b)"
  shows "moved (fst (finish_task target b i now))
    \<and> set (snd (finish_task target b i now)) = {w. (w, i) \<in> dep_edges (dependencies b)
        \<and> (\<exists>c. lane_of (mv_board (fst (finish_task target b i now))) w = Some c \<and> waiting_lane c)
        \<and> \<not> (\<exists>t. (w, t) \<in> dep_edges (dependencies (mv_board (fst (finish_task target b i now)))))}"
  using finish_releases[OF assms(1-3) _ assms(5)] assms(4) by auto

theorem finish_releases_unblocked_witness:
  "snd (completeTaskAndGetReadyLinkedTaskIds built_board ''p'' (Fin 9)) = [''w'']
   \<and> {w. (w, ''p'') \<in> dep_edges (dependencies built_board)
        \<and> (\<exists>c. lane_of (mv_board (fst (finish_task CompletedLane built_board ''p'' (Fin 9)))) w = Some c \<and> waiting_lane c)
        \<and> \<not> (\<exists>t. (w, t) \<in> dep_edges (dependencies (mv_board (fst (finish_task CompletedLane built_board ''p'' (Fin 9))))))} = {''w''}"
proof -
  have h: "colon_free built_board" "lane_of built_board ''p'' = Some ReviewLane"
    "CompletedLane = CompletedLane \<or> CompletedLane = TrashLane" "CompletedLane \<in> column_id ` set (board_columns built_board)"
    "snd (finish_task CompletedLane built_board ''p'' (Fin 9)) = [''w'']" by code_simp+
  show ?thesis using finish_releases_unblocked[OF built_board_inv h(1-4), of "Fin 9"] h(5)
    by (simp add: completeTaskAndGetReadyLinkedTaskIds_def)
qed

text \<open>
  A padded id finishes the card and releases nobody: the move trims the id it is given, the
  search for dependents compares it untrimmed, so the same call with blanks around the id makes the
  same move and returns no ready card.
\<close>

theorem padded_id_releases_nothing:
  assumes "board_inv b" "trim i \<noteq> i"
  shows "fst (finish_task target b i now) = fst (finish_task target b (trim i) now)
    \<and> snd (finish_task target b i now) = []"
proof -
  have "toTaskId d \<noteq> i" if "d \<in> set (dependencies b)" for d
    using live_ends(5)[OF assms(1) that] assms(2) by auto
  then have "w \<notin> set (ready_after_trashed b i c)" for w c by (auto simp: ready_after_trashed_def)
  then have "ready_after_trashed b i c = []" for c by (metis list.set_intros(1) neq_Nil_conv)
  then show ?thesis by (simp add: finish_task_def Let_def moveTaskToColumn_def)
qed

theorem padded_id_releases_nothing_witness:
  "completeTaskAndGetReadyLinkedTaskIds built_board ''p '' (Fin 9)
     = (fst (completeTaskAndGetReadyLinkedTaskIds built_board ''p'' (Fin 9)), [])
   \<and> snd (completeTaskAndGetReadyLinkedTaskIds built_board ''p'' (Fin 9)) = [''w'']"
proof -
  have h: "trim ''p '' \<noteq> ''p ''" "trim ''p '' = ''p''" "snd (finish_task CompletedLane built_board ''p'' (Fin 9)) = [''w'']"
    by code_simp+
  show ?thesis using padded_id_releases_nothing[OF built_board_inv h(1), of CompletedLane "Fin 9"] h(2,3)
    by (simp add: completeTaskAndGetReadyLinkedTaskIds_def prod_eq_iff)
qed

section \<open>Deleting and creating\<close>

lemma find_map_cards:
  "find (\<lambda>col. column_id col = c) (map (\<lambda>c. c\<lparr>cards := f c\<rparr>) cs)
    = map_option (\<lambda>c. c\<lparr>cards := f c\<rparr>) (find (\<lambda>col. column_id col = c) cs)"
  by (induction cs) auto

text \<open>
  Deleting removes the cards asked for and the edges at them, and nothing else: the ids reported
  are the cards that were there, every lane keeps its other cards in order, and the edges that stay
  are those that touched none of them.
\<close>

theorem delete_exact:
  assumes "board_inv b"
  shows "set (snd (deleteTasksFromBoard b asked)) = collectTaskIds b \<inter> set (map trim asked)
    \<and> lane_cards (fst (fst (deleteTasksFromBoard b asked))) c = filter (\<lambda>k. card_id k \<notin> set (map trim asked)) (lane_cards b c)
    \<and> dependencies (fst (fst (deleteTasksFromBoard b asked)))
        = filter (\<lambda>d. fromTaskId d \<notin> set (map trim asked) \<and> toTaskId d \<notin> set (map trim asked)) (dependencies b)"
proof -
  define W where "W = set (filter (\<lambda>i. i \<noteq> []) (map trim asked))"
  have W: "i \<in> W \<longleftrightarrow> i \<in> set (map trim asked)" if "i \<in> collectTaskIds b" for i
    using tidy_trim[of b i] that assms by (auto simp: W_def board_inv_def)
  have del: "deleted_ids b asked = filter (\<lambda>i. i \<in> W) (board_ids b)" by (simp add: deleted_ids_def W_def)
  have onc: "card_id k \<in> collectTaskIds b" if "k \<in> set (cards col)" "col \<in> set (board_columns b)" for k col
    using that by (auto simp: collectTaskIds_def board_ids_def column_ids_def)
  have lane_on: "card_id k \<in> collectTaskIds b" if "k \<in> set (lane_cards b c)" for k
  proof -
    obtain col where "find (\<lambda>col. column_id col = c) (board_columns b) = Some col" "k \<in> set (cards col)"
      using \<open>k \<in> set (lane_cards b c)\<close> unfolding lane_cards_def
      by (cases "find (\<lambda>col. column_id col = c) (board_columns b)") auto
    then show ?thesis using onc by (auto simp: find_Some_iff)
  qed
  have eds: "filter (\<lambda>d. fromTaskId d \<notin> set (deleted_ids b asked) \<and> toTaskId d \<notin> set (deleted_ids b asked)) (dependencies b)
      = filter (\<lambda>d. fromTaskId d \<notin> set (map trim asked) \<and> toTaskId d \<notin> set (map trim asked)) (dependencies b)"
    using live_ends(8,9)[OF assms] W by (intro filter_cong) (auto simp: del collectTaskIds_def)
  have fl: "filter (\<lambda>k. card_id k \<notin> W) (lane_cards b c) = filter (\<lambda>k. card_id k \<notin> set (map trim asked)) (lane_cards b c)"
    using lane_on W by (intro filter_cong) auto
  have all: "snd (deleteTasksFromBoard b asked) = deleted_ids b asked
      \<and> lane_cards (fst (fst (deleteTasksFromBoard b asked))) c = filter (\<lambda>k. card_id k \<notin> W) (lane_cards b c)
      \<and> dependencies (fst (fst (deleteTasksFromBoard b asked)))
          = filter (\<lambda>d. fromTaskId d \<notin> set (deleted_ids b asked) \<and> toTaskId d \<notin> set (deleted_ids b asked)) (dependencies b)"
  proof (cases "deleted_ids b asked = []")
    case True
    then have "\<forall>k \<in> set (lane_cards b c). card_id k \<notin> W" using lane_on
      by (auto simp: del filter_empty_conv collectTaskIds_def)
    then show ?thesis using True by (simp add: deleteTasksFromBoard_def filter_id_conv)
  next
    case False
    then obtain i where "i \<in> W" by (auto simp: del filter_empty_conv)
    then have "filter (\<lambda>i. i \<noteq> []) (map trim asked) \<noteq> []" unfolding W_def by (cases "filter (\<lambda>i. i \<noteq> []) (map trim asked)") simp_all
    then show ?thesis using False
      by (auto simp: deleteTasksFromBoard_def Let_def W_def lane_cards_def find_map_cards split: option.split)
  qed
  have "set (deleted_ids b asked) = collectTaskIds b \<inter> set (map trim asked)" using W by (auto simp: del collectTaskIds_def)
  then show ?thesis using all fl eds by simp
qed

theorem delete_exact_witness:
  "set (snd (deleteTasksFromBoard built_board ['' j '', ''nobody'', ''''])) = {''j''}
   \<and> map dep_id (dependencies (fst (fst (deleteTasksFromBoard built_board ['' j '', ''nobody'', ''''])))) = [''aaaaaaaa'']"
proof -
  have h: "collectTaskIds built_board \<inter> set (map trim ['' j '', ''nobody'', '''']) = {''j''}"
    "map dep_id (filter (\<lambda>d. fromTaskId d \<notin> set (map trim ['' j '', ''nobody'', '''']) \<and>
       toTaskId d \<notin> set (map trim ['' j '', ''nobody'', ''''])) (dependencies built_board)) = [''aaaaaaaa'']"
    by code_simp+
  show ?thesis using delete_exact[OF built_board_inv, where c = Backlog and asked = "['' j '', ''nobody'', '''']"] h by simp
qed

lemma find_update_other: "\<not> P (xs ! t) \<Longrightarrow> \<not> P y \<Longrightarrow> find P (xs[t := y]) = find P xs"
proof (induction xs arbitrary: t)
  case Nil
  then show ?case by simp
next
  case (Cons x xs)
  then show ?case by (cases t) auto
qed

lemma find_update_hit: "find_index P xs = Some t \<Longrightarrow> P y \<Longrightarrow> find P xs = Some (xs ! t) \<and> find P (xs[t := y]) = Some y"
proof (induction xs arbitrary: t)
  case Nil
  then show ?case by simp
next
  case (Cons x xs)
  then show ?case by (cases "P x") auto
qed

lemma front_of_lane:
  assumes t: "find_index (\<lambda>c. column_id c = col) (board_columns b) = Some t"
    and b': "b' = b\<lparr>board_columns := (board_columns b)[t := (board_columns b ! t)\<lparr>cards := k # cards (board_columns b ! t)\<rparr>]\<rparr>"
  shows "lane_cards b' = (lane_cards b)(col := k # lane_cards b col)"
proof
  fix c
  have col: "column_id (board_columns b ! t) = col" using find_index_Some[OF t] by simp
  show "lane_cards b' c = ((lane_cards b)(col := k # lane_cards b col)) c"
  proof (cases "c = col")
    case True
    then show ?thesis using find_update_hit[OF t, of "(board_columns b ! t)\<lparr>cards := k # cards (board_columns b ! t)\<rparr>"] col
      by (simp add: lane_cards_def b')
  next
    case False
    then show ?thesis using col find_update_other[of "\<lambda>x. column_id x = c" "board_columns b" t]
      by (simp add: lane_cards_def b')
  qed
qed

text \<open>
  C13. A card that is created stands at the front of its lane and nothing else on the board changes;
  its prompt and base are not blank, its base is never another card's result branch, its title has at
  most 81 characters, an explicit id is the trimmed one and was not taken, and a reason for not being
  testable is kept only with that declaration.
\<close>

theorem new_card_contract:
  assumes "addTaskToColumn b col inp uuids fallback now = Inr (b', t)"
  shows "lane_cards b' = (lane_cards b)(col := t # lane_cards b col) \<and> dependencies b' = dependencies b
    \<and> card_prompt t \<noteq> [] \<and> baseRef t \<noteq> [] \<and> \<not> isTaskResultBranchRef (Some (baseRef t))
    \<and> (case card_title t of None \<Rightarrow> False | Some s \<Rightarrow> length s \<le> 81)
    \<and> (case truthy (map_option trim (ci_taskId inp)) of
         None \<Rightarrow> card_id t = createUniqueTaskId (collectTaskIds b) uuids fallback
       | Some i \<Rightarrow> card_id t = i \<and> fresh_id b i)
    \<and> (case testabilityReason t of None \<Rightarrow> True | Some r \<Rightarrow> card_testability t = Some NotTestable \<and> r \<noteq> [])"
proof -
  obtain n where n: "find_index (\<lambda>c. column_id c = col) (board_columns b) = Some n"
    and t: "t = new_card inp (new_task_id b inp uuids fallback) (trim (ci_prompt inp)) (trim (ci_baseRef inp)) now"
    and b': "b' = b\<lparr>board_columns := (board_columns b)[n := (board_columns b ! n)\<lparr>cards := t # cards (board_columns b ! n)\<rparr>]\<rparr>"
    and fr: "\<And>i. truthy (map_option trim (ci_taskId inp)) = Some i \<Longrightarrow> fresh_id b i"
    by (rule addTask_Inr[OF assms]) blast
  have g: "trim (ci_prompt inp) \<noteq> []" "trim (ci_baseRef inp) \<noteq> []" "\<not> isTaskResultBranchRef (Some (trim (ci_baseRef inp)))"
    using assms by (auto simp: addTaskToColumn_def Let_def split: if_splits)
  show ?thesis using front_of_lane[OF n b'] g fr length_title
    by (auto simp: t b' new_card_def Let_def new_task_id_def normalizeTaskTestabilityFields_def truthy_def
        split: option.split testability.split)
qed

theorem new_card_contract_witness:
  "map card_id (lane_cards (board_step (AddCard Planning (built_input (Some '' n '')) built_uuid [] (Fin 9)) built_board) Planning) = [''n'']
   \<and> addTaskToColumn built_board Planning (built_input (Some '' j '')) built_uuid [] (Fin 9) = Inl (TaskExists ''j'')
   \<and> addTaskToColumn built_board Planning (built_input None\<lparr>ci_baseRef := ''refs/heads/nklein/tasks/j''\<rparr>) built_uuid [] (Fin 9)
       = Inl (BaseRefIsResultBranch ''refs/heads/nklein/tasks/j'')"
proof -
  let ?r = "addTaskToColumn built_board Planning (built_input (Some '' n '')) built_uuid [] (Fin 9)"
  have "\<exists>b' t. ?r = Inr (b', t)" using sum.exhaust_disc[of ?r]
  proof -
    have "\<not> isl ?r" by code_simp
    then show ?thesis by (cases ?r) auto
  qed
  then obtain b' t where r: "?r = Inr (b', t)" by blast
  have h: "truthy (map_option trim (ci_taskId (built_input (Some '' n '')))) = Some ''n''" "lane_cards built_board Planning = []"
    by code_simp+
  have e: "addTaskToColumn built_board Planning (built_input (Some '' j '')) built_uuid [] (Fin 9) = Inl (TaskExists ''j'')"
    "addTaskToColumn built_board Planning (built_input None\<lparr>ci_baseRef := ''refs/heads/nklein/tasks/j''\<rparr>) built_uuid [] (Fin 9)
       = Inl (BaseRefIsResultBranch ''refs/heads/nklein/tasks/j'')" by code_simp+
  show ?thesis using new_card_contract[OF r] h r e by (simp add: board_step_def)
qed

text \<open>
  A generated id is taken already exactly when sixteen uuids in a row abbreviate to taken ids and
  the random fallback, which the code does not look up, is taken too.
\<close>

theorem generated_id_taken:
  "createUniqueTaskId existing uuids fallback \<in> existing \<longleftrightarrow>
    fallback \<in> existing \<and> list_all (\<lambda>i. createShortTaskId (uuids i) \<in> existing) [0..<16]"
  by (simp add: createUniqueTaskId_def try_task_ids_fresh list_all_iff atLeast0LessThan lessThan_def del: upt_Suc)

end
