(* ===== verification/JsValue.thy ===== *)
theory JsValue
  imports Prelude JsNumber
begin

text \<open>
  JavaScript's plain values, as \<^verbatim>\<open>JSON.parse\<close> and object literals build them, and plain objects
  (\<^verbatim>\<open>Record<string, unknown>\<close>) as insertion-ordered maps. Functions, symbols and class instances
  are outside the model: no modelled operation looks at one.
\<close>

datatype jsval = JUndef | JNull | JBool bool | JNum jsnum | JStr string
  | JArr "jsval list" | JObj "(string \<times> jsval) list"

type_synonym obj = "(string, jsval) omap"

text \<open>Reading a member; a missing one is \<^verbatim>\<open>undefined\<close>.\<close>

definition obj_get :: "obj \<Rightarrow> string \<Rightarrow> jsval" where
  "obj_get c k = (case map_of c k of None \<Rightarrow> JUndef | Some v \<Rightarrow> v)"

end
