(* ===== verification/PortableCrdt.thy ===== *)
theory PortableCrdt
  imports BoardData JsValue
begin

text \<open>
  The replicated board (\<^verbatim>\<open>src/state/portable-board-crdt.ts\<close>): last-writer-wins registers per card
  field, tombstones, presence registers per edge, their merge, the projection to a board and back,
  the schema migration, and the store's export and import around the committed file
  (\<^verbatim>\<open>src/state/portable-board-store.ts\<close>).

  A \<^verbatim>\<open>Record\<close> is an insertion-ordered map (its keys are taken not to be array indices, which
  JavaScript would put first; only the order in which equal time stamps are listed depends on it).
  Replica clocks, \<^verbatim>\<open>localeCompare\<close> and the file read are arguments.
\<close>

section \<open>Plain objects\<close>

lemma size_jsval_list: "x \<in> set xs \<Longrightarrow> size x < Suc (size_list size xs)"
  by (induction xs) auto

lemma size_jsval_member: "e \<in> set es \<Longrightarrow> size (snd e) < Suc (size_list (size_prod (\<lambda>_. 0) size) es)"
proof (induction es)
  case Nil
  then show ?case by simp
next
  case (Cons d es)
  then show ?case by (cases d) auto
qed

text \<open>
  Two values have the same \<^verbatim>\<open>JSON.stringify\<close> when they agree after what it forgets: numbers that
  are not finite become \<^verbatim>\<open>null\<close>, undefined members of objects go, undefined elements become
  \<^verbatim>\<open>null\<close>.
\<close>

function json_norm :: "jsval \<Rightarrow> jsval" where
  "json_norm (JNum n) = (if js_isFinite n then JNum n else JNull)"
| "json_norm (JArr xs) = JArr (map (\<lambda>x. if x = JUndef then JNull else json_norm x) xs)"
| "json_norm (JObj es) = JObj (map (\<lambda>e. (fst e, json_norm (snd e))) (filter (\<lambda>e. snd e \<noteq> JUndef) es))"
| "json_norm JUndef = JUndef"
| "json_norm JNull = JNull"
| "json_norm (JBool b) = JBool b"
| "json_norm (JStr s) = JStr s"
  by pat_completeness auto
termination
  by (relation "measure size") (auto simp: size_jsval_list dest: size_jsval_member)

definition same_json :: "jsval \<Rightarrow> jsval \<Rightarrow> bool" where
  "same_json a b = (json_norm a = json_norm b)"

definition obj_str :: "obj \<Rightarrow> string \<Rightarrow> string" where
  "obj_str c k = (case map_of c k of Some (JStr s) \<Rightarrow> s | _ \<Rightarrow> [])"

text \<open>A number that is missing counts as \<^verbatim>\<open>NaN\<close> in the subtractions of the comparators.\<close>

definition obj_num :: "obj \<Rightarrow> string \<Rightarrow> jsnum" where
  "obj_num c k = (case map_of c k of Some (JNum n) \<Rightarrow> n | _ \<Rightarrow> NaN)"

section \<open>Registers\<close>

record stamp =
  stamp_counter :: jsnum
  replicaId :: string

record 'a register =
  reg_value :: 'a
  reg_stamp :: stamp

record crdt_card =
  cc_id :: string
  cc_fields :: "(string, jsval register) omap"
  cc_deleted :: "bool register"

record crdt_dependency =
  cd_from :: string
  cd_to :: string
  cd_present :: "bool register"
  cd_createdAt :: jsnum

record portable_crdt =
  crdt_cards :: "(string, crdt_card) omap"
  crdt_dependencies :: "(string, crdt_dependency) omap"
  crdt_streams :: "(string, obj register) omap option"
  crdt_satisfied :: "(string, satisfied_dependency register) omap option"

definition compareStamp :: "stamp \<Rightarrow> stamp \<Rightarrow> int" where
  "compareStamp a b =
     (if \<not> js_eq (stamp_counter a) (stamp_counter b)
      then (if js_lt (stamp_counter a) (stamp_counter b) then -1 else 1)
      else if replicaId a = replicaId b then 0
      else if replicaId a < replicaId b then -1 else 1)"

definition pickRegister :: "'a register \<Rightarrow> 'a register \<Rightarrow> 'a register" where
  "pickRegister a b = (if compareStamp (reg_stamp a) (reg_stamp b) \<ge> 0 then a else b)"

definition dependencyKey :: "string \<Rightarrow> string \<Rightarrow> string" where
  "dependencyKey f t = f @ ''->'' @ t"

section \<open>Merging\<close>

text \<open>The loop over the entries of \<^verbatim>\<open>b\<close>, into a copy of \<^verbatim>\<open>a\<close>.\<close>

definition merge_records :: "('v \<Rightarrow> 'v \<Rightarrow> 'v) \<Rightarrow> (string, 'v) omap \<Rightarrow> (string, 'v) omap \<Rightarrow> (string, 'v) omap" where
  "merge_records j a b =
     fold (\<lambda>(k, v) m. omap_set k (case map_of m k of None \<Rightarrow> v | Some x \<Rightarrow> j x v) m) b a"

definition mergeCard :: "crdt_card \<Rightarrow> crdt_card \<Rightarrow> crdt_card" where
  "mergeCard a b = \<lparr>cc_id = cc_id a, cc_fields = merge_records pickRegister (cc_fields a) (cc_fields b),
     cc_deleted = pickRegister (cc_deleted a) (cc_deleted b)\<rparr>"

definition mergeDependency :: "crdt_dependency \<Rightarrow> crdt_dependency \<Rightarrow> crdt_dependency" where
  "mergeDependency a b = \<lparr>cd_from = cd_from a, cd_to = cd_to a,
     cd_present = pickRegister (cd_present a) (cd_present b),
     cd_createdAt = js_min (cd_createdAt a) (cd_createdAt b)\<rparr>"

definition record_or_empty :: "('k, 'v) omap option \<Rightarrow> ('k, 'v) omap" where
  "record_or_empty r = (case r of None \<Rightarrow> [] | Some m \<Rightarrow> m)"

definition record_unless_empty :: "('k, 'v) omap \<Rightarrow> ('k, 'v) omap option" where
  "record_unless_empty m = (if m = [] then None else Some m)"

definition mergePortableBoardCrdt :: "portable_crdt \<Rightarrow> portable_crdt \<Rightarrow> portable_crdt" where
  "mergePortableBoardCrdt a b =
     \<lparr>crdt_cards = merge_records mergeCard (crdt_cards a) (crdt_cards b),
      crdt_dependencies = merge_records mergeDependency (crdt_dependencies a) (crdt_dependencies b),
      crdt_streams = record_unless_empty
        (merge_records pickRegister (record_or_empty (crdt_streams a)) (record_or_empty (crdt_streams b))),
      crdt_satisfied = record_unless_empty
        (merge_records pickRegister (record_or_empty (crdt_satisfied a)) (record_or_empty (crdt_satisfied b)))\<rparr>"

section \<open>Tombstones\<close>

definition card_counters :: "(string, crdt_card) omap \<Rightarrow> jsnum list" where
  "card_counters cs = concat (map (\<lambda>(k, c). stamp_counter (reg_stamp (cc_deleted c))
      # map (\<lambda>(f, r). stamp_counter (reg_stamp r)) (cc_fields c)) cs)"

definition dominating :: "jsnum \<Rightarrow> jsnum \<Rightarrow> jsnum list \<Rightarrow> jsnum" where
  "dominating now own others =
     js_max (if js_isFinite now then now else Fin 0) (js_add (fold (\<lambda>x m. js_max m x) others own) (Fin 1))"

definition markCardDeleted :: "portable_crdt \<Rightarrow> string \<Rightarrow> string \<Rightarrow> jsnum \<Rightarrow> portable_crdt" where
  "markCardDeleted crdt i replica now = (case map_of (crdt_cards crdt) i of
       None \<Rightarrow> crdt
     | Some crd \<Rightarrow>
         (let counter = dominating now (stamp_counter (reg_stamp (cc_deleted crd))) (card_counters (crdt_cards crdt))
          in crdt\<lparr>crdt_cards := omap_set i (crd\<lparr>cc_deleted :=
               \<lparr>reg_value = True, reg_stamp = \<lparr>stamp_counter = counter, replicaId = replica\<rparr>\<rparr>\<rparr>) (crdt_cards crdt)\<rparr>))"

definition markDependencyRemoved :: "portable_crdt \<Rightarrow> string \<Rightarrow> string \<Rightarrow> string \<Rightarrow> jsnum \<Rightarrow> portable_crdt" where
  "markDependencyRemoved crdt f t replica now = (case map_of (crdt_dependencies crdt) (dependencyKey f t) of
       None \<Rightarrow> crdt
     | Some d \<Rightarrow>
         (if \<not> reg_value (cd_present d) then crdt
          else (let counter = dominating now (stamp_counter (reg_stamp (cd_present d)))
                  (map (\<lambda>(k, e). stamp_counter (reg_stamp (cd_present e))) (crdt_dependencies crdt)
                     @ card_counters (crdt_cards crdt))
                in crdt\<lparr>crdt_dependencies := omap_set (dependencyKey f t) (d\<lparr>cd_present :=
                     \<lparr>reg_value = False, reg_stamp = \<lparr>stamp_counter = counter, replicaId = replica\<rparr>\<rparr>\<rparr>)
                     (crdt_dependencies crdt)\<rparr>)))"

section \<open>Boards\<close>

record portable_column =
  pc_id :: column_id
  pc_title :: string
  pc_cards :: "obj list"

record portable_board =
  pb_columns :: "portable_column list"
  pb_dependencies :: "dependency list"
  pb_streams :: "obj list option"
  pb_satisfied :: "satisfied_dependency list option"

definition column_field :: string where
  "column_field = ''__column''"

definition fieldRegisterFor :: "jsval \<Rightarrow> stamp \<Rightarrow> jsval register option \<Rightarrow> jsval register" where
  "fieldRegisterFor v fresh prior = (case prior of
       Some p \<Rightarrow> if same_json (reg_value p) v then p else \<lparr>reg_value = v, reg_stamp = fresh\<rparr>
     | None \<Rightarrow> \<lparr>reg_value = v, reg_stamp = fresh\<rparr>)"

fun column_name :: "column_id \<Rightarrow> string" where
  "column_name Backlog = ''backlog''"
| "column_name Planning = ''planning''"
| "column_name ReadyLane = ''ready''"
| "column_name InProgress = ''in_progress''"
| "column_name ReviewLane = ''review''"
| "column_name CompletedLane = ''completed''"
| "column_name TrashLane = ''trash''"

definition default_column_order :: "column_id list" where
  "default_column_order = [Backlog, Planning, ReadyLane, InProgress, ReviewLane, CompletedLane, TrashLane]"

fun column_titles :: "column_id \<Rightarrow> string" where
  "column_titles Backlog = ''Backlog''"
| "column_titles Planning = ''Planning''"
| "column_titles ReadyLane = ''Ready''"
| "column_titles InProgress = ''In Progress''"
| "column_titles ReviewLane = ''Review''"
| "column_titles CompletedLane = ''Completed''"
| "column_titles TrashLane = ''Trash''"

definition card_register :: "(string, jsval register) omap \<Rightarrow> string \<Rightarrow> column_id \<Rightarrow> obj \<Rightarrow> crdt_card" where
  "card_register prior replica col crd =
     (let stamp = \<lparr>stamp_counter = obj_num crd ''updatedAt'', replicaId = replica\<rparr> in
      \<lparr>cc_id = obj_str crd ''id'',
       cc_fields = fold (\<lambda>(k, v). if k = ''id'' then id else omap_set k (fieldRegisterFor v stamp (map_of prior k)))
         crd [(column_field, fieldRegisterFor (JStr (column_name col)) stamp (map_of prior column_field))],
       cc_deleted = \<lparr>reg_value = False, reg_stamp = stamp\<rparr>\<rparr>)"

definition prior_fields :: "portable_crdt option \<Rightarrow> string \<Rightarrow> (string, jsval register) omap" where
  "prior_fields prior i = (case prior of None \<Rightarrow> []
     | Some p \<Rightarrow> (case map_of (crdt_cards p) i of None \<Rightarrow> [] | Some c \<Rightarrow> cc_fields c))"

definition boardToPortableBoardCrdt :: "portable_board \<Rightarrow> string \<Rightarrow> portable_crdt option \<Rightarrow> portable_crdt" where
  "boardToPortableBoardCrdt b replica prior =
     \<lparr>crdt_cards = omap_of [(obj_str crd ''id'', card_register (prior_fields prior (obj_str crd ''id'')) replica (pc_id col) crd).
        col \<leftarrow> pb_columns b, crd \<leftarrow> pc_cards col],
      crdt_dependencies = omap_of [(dependencyKey (fromTaskId d) (toTaskId d),
        \<lparr>cd_from = fromTaskId d, cd_to = toTaskId d,
         cd_present = \<lparr>reg_value = True, reg_stamp = \<lparr>stamp_counter = dep_createdAt d, replicaId = replica\<rparr>\<rparr>,
         cd_createdAt = dep_createdAt d\<rparr>). d \<leftarrow> pb_dependencies b],
      crdt_streams = record_unless_empty (omap_of [(obj_str s ''id'',
        \<lparr>reg_value = s, reg_stamp = \<lparr>stamp_counter = obj_num s ''updatedAt'', replicaId = replica\<rparr>\<rparr>).
        s \<leftarrow> (case pb_streams b of None \<Rightarrow> [] | Some ss \<Rightarrow> ss)]),
      crdt_satisfied = record_unless_empty (omap_of [(dependencyKey (sat_from s) (sat_to s),
        \<lparr>reg_value = s, reg_stamp = \<lparr>stamp_counter = releasedAt s, replicaId = replica\<rparr>\<rparr>).
        s \<leftarrow> (case pb_satisfied b of None \<Rightarrow> [] | Some ss \<Rightarrow> ss)])\<rparr>"

section \<open>Projecting\<close>

text \<open>The column value as stored, and the card.\<close>

definition projectCard :: "crdt_card \<Rightarrow> (jsval \<times> obj) option" where
  "projectCard c =
     (if reg_value (cc_deleted c) then None
      else (let v = (case map_of (cc_fields c) column_field of None \<Rightarrow> JUndef | Some r \<Rightarrow> reg_value r)
            in Some (if v = JUndef \<or> v = JNull then JStr ''backlog'' else v,
                 fold (\<lambda>(k, r). if k = column_field then id else omap_set k (reg_value r)) (cc_fields c)
                   [(''id'', JStr (cc_id c))])))"

definition bucket_for :: "column_id list \<Rightarrow> jsval \<Rightarrow> column_id option" where
  "bucket_for order v = (case find (\<lambda>c. JStr (column_name c) = v) order of
       Some c \<Rightarrow> Some c
     | None \<Rightarrow> if Backlog \<in> set order then Some Backlog else None)"

text \<open>\<^verbatim>\<open>(a, b) => a - b\<close>, where a difference that is \<^verbatim>\<open>NaN\<close> counts as 0, and its refinement by id.\<close>

definition by_number :: "('a \<Rightarrow> jsnum) \<Rightarrow> 'a \<Rightarrow> 'a \<Rightarrow> bool" where
  "by_number f a b = (\<not> js_gt (js_sub (f a) (f b)) (Fin 0))"

definition by_number_then :: "('a \<Rightarrow> jsnum) \<Rightarrow> ('a \<Rightarrow> string) \<Rightarrow> (string \<Rightarrow> string \<Rightarrow> int) \<Rightarrow> 'a \<Rightarrow> 'a \<Rightarrow> bool" where
  "by_number_then f g lc a b =
     (let d = js_sub (f a) (f b) in if d = NaN \<or> d = Fin 0 then lc (g a) (g b) \<le> 0 else \<not> js_gt d (Fin 0))"

definition portableBoardCrdtToBoard :: "column_id list \<Rightarrow> (string \<Rightarrow> string \<Rightarrow> int) \<Rightarrow> portable_crdt \<Rightarrow> portable_board" where
  "portableBoardCrdtToBoard order lc crdt =
     (let shown = List.map_filter (\<lambda>(k, c). projectCard c) (crdt_cards crdt);
          present = set (map (\<lambda>(k, c). cc_id c) (filter (\<lambda>(k, c). \<not> reg_value (cc_deleted c)) (crdt_cards crdt)))
      in
      \<lparr>pb_columns = map (\<lambda>c. \<lparr>pc_id = c, pc_title = column_titles c,
           pc_cards = js_sort (by_number (\<lambda>o'. obj_num o' ''createdAt''))
             (map snd (filter (\<lambda>(v, o'). bucket_for order v = Some c) shown))\<rparr>) order,
       pb_dependencies = js_sort (by_number dep_createdAt)
         (map (\<lambda>(k, d). \<lparr>dep_id = dependencyKey (cd_from d) (cd_to d), fromTaskId = cd_from d, toTaskId = cd_to d,
             dep_createdAt = cd_createdAt d\<rparr>)
           (filter (\<lambda>(k, d). reg_value (cd_present d) \<and> cd_from d \<in> present \<and> cd_to d \<in> present) (crdt_dependencies crdt))),
       pb_streams = (let ss = js_sort (by_number_then (\<lambda>s. obj_num s ''createdAt'') (\<lambda>s. obj_str s ''id'') lc)
           (map (\<lambda>(k, r). reg_value r) (record_or_empty (crdt_streams crdt))) in if ss = [] then None else Some ss),
       pb_satisfied = (let ss = js_sort (by_number_then releasedAt sat_id lc)
           (map (\<lambda>(k, r). reg_value r) (record_or_empty (crdt_satisfied crdt))) in if ss = [] then None else Some ss)\<rparr>)"

section \<open>Reading a committed file\<close>

text \<open>A parsed value, seen through the tests \<^verbatim>\<open>typeof ... === "number"\<close> and \<^verbatim>\<open>isPlainObject\<close>.\<close>

record raw_crdt =
  raw_version :: "jsnum option"
  raw_cards :: "(string, crdt_card) omap option"
  raw_dependencies :: "(string, crdt_dependency) omap option"
  raw_streams :: "(string, obj register) omap option"
  raw_satisfied :: "(string, satisfied_dependency register) omap option"

type_synonym migrations = "(jsnum \<times> (raw_crdt \<Rightarrow> raw_crdt)) list"

text \<open>Each round uses a migration registered for a later version than the last, so the loop ends.\<close>

function migrate_loop :: "migrations \<Rightarrow> jsnum \<Rightarrow> raw_crdt \<Rightarrow> (jsnum \<times> raw_crdt) option" where
  "migrate_loop migs v cur =
     (if \<not> js_lt v (Fin 1) then Some (v, cur)
      else (case map_of migs v of None \<Rightarrow> None
        | Some g \<Rightarrow>
            (let cur' = g cur; nxt = (case raw_version cur' of Some n \<Rightarrow> n | None \<Rightarrow> js_add v (Fin 1))
             in if js_le nxt v then None else migrate_loop migs nxt cur')))"
  by pat_completeness auto
termination
proof (relation "measure (\<lambda>(migs, v, cur). card {k \<in> fst ` set migs. js_le v k})", goal_cases)
  case 1
  show ?case by simp
next
  case (2 migs v cur g cur' nxt)
  let ?A = "\<lambda>v. {k \<in> fst ` set migs. js_le v k}"
  have v: "v \<noteq> NaN" using 2(1) by (cases v) auto
  have "v \<in> ?A v" using 2(2) js_le_refl[OF v] map_of_SomeD[OF 2(2)] by force
  moreover have "?A nxt \<subseteq> ?A v" "v \<notin> ?A nxt"
  proof -
    have lt: "nxt = NaN \<or> js_lt v nxt" using 2(5) v js_total[of nxt v] by (auto simp: js_order_defs)
    show "v \<notin> ?A nxt" using 2(5) by simp
    show "?A nxt \<subseteq> ?A v"
    proof
      fix k assume k: "k \<in> ?A nxt"
      then have "js_lt v nxt" using lt by auto
      then have "js_le v k" using k js_le_trans[of v nxt k] by (simp add: js_order_defs)
      then show "k \<in> ?A v" using k by simp
    qed
  qed
  ultimately have "?A nxt \<subset> ?A v" by blast
  then show ?case by (simp add: psubset_card_mono)
qed

declare migrate_loop.simps [simp del]

definition migratePortableBoardCrdt :: "raw_crdt option \<Rightarrow> migrations \<Rightarrow> portable_crdt option" where
  "migratePortableBoardCrdt raw migs = (case raw of
       None \<Rightarrow> None
     | Some r \<Rightarrow>
         (let version = (case raw_version r of Some n \<Rightarrow> n | None \<Rightarrow> Fin 0) in
          if js_gt version (Fin 1) then None
          else (case migrate_loop migs version r of
              None \<Rightarrow> None
            | Some (v, cur) \<Rightarrow>
                (case raw_cards cur of
                   None \<Rightarrow> None
                 | Some crds \<Rightarrow>
                     (if v \<noteq> Fin 1 then None
                      else Some \<lparr>crdt_cards = crds, crdt_dependencies = record_or_empty (raw_dependencies cur),
                             crdt_streams = raw_streams cur, crdt_satisfied = raw_satisfied cur\<rparr>)))))"

section \<open>The store\<close>

text \<open>Reading the file: absent, another read error, bytes that do not parse, or a parsed value.\<close>

datatype file_read = Enoent | ReadError | BadJson | Parsed "raw_crdt option"

datatype committed_state = FileAbsent | Usable portable_crdt | Refused

definition readPortableBoardCrdt :: "file_read \<Rightarrow> portable_crdt option" where
  "readPortableBoardCrdt f = (case f of Parsed r \<Rightarrow> migratePortableBoardCrdt r [] | _ \<Rightarrow> None)"

definition readCommittedState :: "file_read \<Rightarrow> committed_state" where
  "readCommittedState f = (case f of
       Enoent \<Rightarrow> FileAbsent
     | ReadError \<Rightarrow> Refused
     | BadJson \<Rightarrow> Refused
     | Parsed r \<Rightarrow> (case migratePortableBoardCrdt r [] of Some c \<Rightarrow> Usable c | None \<Rightarrow> Refused))"

text \<open>The two tombstone loops; \<open>clock n\<close> is the answer of the n-th call of \<^verbatim>\<open>Date.now\<close>.\<close>

fun bury_cards :: "string set \<Rightarrow> string \<Rightarrow> (nat \<Rightarrow> jsnum) \<Rightarrow> nat \<Rightarrow> string list \<Rightarrow> portable_crdt \<Rightarrow> portable_crdt \<times> nat" where
  "bury_cards local replica clock n [] m = (m, n)"
| "bury_cards local replica clock n (i # is) m =
     (if i \<notin> local \<and> \<not> (case map_of (crdt_cards m) i of None \<Rightarrow> False | Some c \<Rightarrow> reg_value (cc_deleted c))
      then bury_cards local replica clock (Suc n) is (markCardDeleted m i replica (clock n))
      else bury_cards local replica clock n is m)"

fun bury_edges :: "string set \<Rightarrow> string \<Rightarrow> (nat \<Rightarrow> jsnum) \<Rightarrow> nat \<Rightarrow> crdt_dependency list \<Rightarrow> portable_crdt \<Rightarrow> portable_crdt" where
  "bury_edges local replica clock n [] m = m"
| "bury_edges local replica clock n (d # ds) m =
     (if dependencyKey (cd_from d) (cd_to d) \<notin> local
         \<and> (case map_of (crdt_dependencies m) (dependencyKey (cd_from d) (cd_to d)) of
              None \<Rightarrow> False | Some e \<Rightarrow> reg_value (cd_present e))
      then bury_edges local replica clock (Suc n) ds (markDependencyRemoved m (cd_from d) (cd_to d) replica (clock n))
      else bury_edges local replica clock n ds m)"

definition fold_in_local :: "portable_crdt \<Rightarrow> portable_crdt \<Rightarrow> string \<Rightarrow> (nat \<Rightarrow> jsnum) \<Rightarrow> portable_crdt" where
  "fold_in_local committed local replica clock =
     (let merged = mergePortableBoardCrdt committed local; ids = set (map fst (crdt_cards local)) in
      if crdt_cards local = [] then merged
      else (case bury_cards ids replica clock 0 (map fst (crdt_cards committed)) merged of
          (m, n) \<Rightarrow> bury_edges (set (map fst (crdt_dependencies local)) \<union> set (map fst (record_or_empty (crdt_satisfied local))))
              replica clock n (map snd (crdt_dependencies committed)) m))"

text \<open>None is the thrown refusal; otherwise what is written and the board that is shown.\<close>

definition exportLocalBoardToPortableCrdt ::
  "file_read \<Rightarrow> portable_board \<Rightarrow> string \<Rightarrow> (nat \<Rightarrow> jsnum) \<Rightarrow> (string \<Rightarrow> string \<Rightarrow> int)
    \<Rightarrow> (portable_crdt \<times> portable_board) option" where
  "exportLocalBoardToPortableCrdt f b replica clock lc = (case readCommittedState f of
       Refused \<Rightarrow> None
     | FileAbsent \<Rightarrow> (let m = boardToPortableBoardCrdt b replica None
                     in Some (m, portableBoardCrdtToBoard default_column_order lc m))
     | Usable c \<Rightarrow> (let m = fold_in_local c (boardToPortableBoardCrdt b replica (Some c)) replica clock
                   in Some (m, portableBoardCrdtToBoard default_column_order lc m)))"

definition prepareImportedBoardForLocalModels :: "portable_board \<Rightarrow> portable_board" where
  "prepareImportedBoardForLocalModels b = b\<lparr>pb_columns := map (\<lambda>c. c\<lparr>pc_cards :=
     map (filter (\<lambda>e. fst e \<noteq> ''nkleinSettings'')) (pc_cards c)\<rparr>) (pb_columns b)\<rparr>"

definition importPortableBoard ::
  "file_read \<Rightarrow> portable_board option \<Rightarrow> string \<Rightarrow> (string \<Rightarrow> string \<Rightarrow> int) \<Rightarrow> (portable_board \<times> portable_crdt) option" where
  "importPortableBoard f localBoard replica lc = (case readPortableBoardCrdt f of
       None \<Rightarrow> None
     | Some c \<Rightarrow>
         (let m = (case localBoard of None \<Rightarrow> c
             | Some b \<Rightarrow> mergePortableBoardCrdt c (boardToPortableBoardCrdt b replica None))
          in Some (prepareImportedBoardForLocalModels (portableBoardCrdtToBoard default_column_order lc m), m)))"

end
