(* ===== verification/PortableConvergence.thy ===== *)
theory PortableConvergence
  imports PortableCrdt
begin

text \<open>
  Why merging converges. A merge operation that is associative, commutative and idempotent on a
  carrier gives the same result for every order and repetition of what is merged
  (locale \<open>join_on\<close>). Picking the later register is such an operation on registers whose stamps
  name their writes, and options, functions and pairs lift it to the whole replicated board.
\<close>

section \<open>Joins\<close>

locale join_on =
  fixes C :: "'a \<Rightarrow> bool" and join :: "'a \<Rightarrow> 'a \<Rightarrow> 'a"
  assumes join_closed: "C x \<Longrightarrow> C y \<Longrightarrow> C (join x y)"
    and join_idem: "C x \<Longrightarrow> join x x = x"
    and join_comm: "C x \<Longrightarrow> C y \<Longrightarrow> join x y = join y x"
    and join_assoc: "C x \<Longrightarrow> C y \<Longrightarrow> C z \<Longrightarrow> join (join x y) z = join x (join y z)"
begin

definition below :: "'a \<Rightarrow> 'a \<Rightarrow> bool" where
  "below x y \<longleftrightarrow> join x y = y"

lemma below_refl: "C x \<Longrightarrow> below x x"
  by (simp add: below_def join_idem)

lemma below_antisym: "C x \<Longrightarrow> C y \<Longrightarrow> below x y \<Longrightarrow> below y x \<Longrightarrow> x = y"
  using join_comm[of x y] by (simp add: below_def)

lemma below_trans: "C x \<Longrightarrow> C y \<Longrightarrow> C z \<Longrightarrow> below x y \<Longrightarrow> below y z \<Longrightarrow> below x z"
  unfolding below_def by (metis join_assoc)

lemma below_join1: "C x \<Longrightarrow> C y \<Longrightarrow> below x (join x y)"
  unfolding below_def by (metis join_assoc join_idem)

lemma below_join2: "C x \<Longrightarrow> C y \<Longrightarrow> below y (join x y)"
  by (metis below_join1 join_comm)

lemma join_least: "C x \<Longrightarrow> C y \<Longrightarrow> C z \<Longrightarrow> below x z \<Longrightarrow> below y z \<Longrightarrow> below (join x y) z"
  unfolding below_def by (simp add: join_assoc)

text \<open>Merging a list into a state, one by one.\<close>

definition join_all :: "'a \<Rightarrow> 'a list \<Rightarrow> 'a" where
  "join_all s xs = fold (\<lambda>x s. join s x) xs s"

lemma join_all_simps [simp]: "join_all s [] = s" "join_all s (x # xs) = join_all (join s x) xs"
  by (simp_all add: join_all_def)

lemma join_all_closed: "C s \<Longrightarrow> list_all C xs \<Longrightarrow> C (join_all s xs)"
  by (induction xs arbitrary: s) (auto simp: join_closed)

lemma join_all_upper: "C s \<Longrightarrow> list_all C xs \<Longrightarrow> below s (join_all s xs) \<and> list_all (\<lambda>x. below x (join_all s xs)) xs"
proof (induction xs arbitrary: s)
  case Nil
  then show ?case by (simp add: below_refl)
next
  case (Cons x xs)
  then have c: "C x" "C (join s x)" "list_all C xs" by (auto simp: join_closed)
  then have ih: "below (join s x) (join_all (join s x) xs)" "list_all (\<lambda>y. below y (join_all (join s x) xs)) xs"
    using Cons.IH[OF c(2,3)] by auto
  have cj: "C (join_all (join s x) xs)" using join_all_closed[OF c(2,3)] .
  show ?case using ih below_trans[OF _ c(2) cj _ ih(1)] below_join1[of s x] below_join2[of s x] Cons.prems c(1) by simp
qed

lemma join_all_least:
  "C s \<Longrightarrow> list_all C xs \<Longrightarrow> C z \<Longrightarrow> below s z \<Longrightarrow> list_all (\<lambda>x. below x z) xs \<Longrightarrow> below (join_all s xs) z"
  by (induction xs arbitrary: s) (auto simp: join_closed join_least)

theorem join_all_set:
  assumes "C s" "list_all C xs" "list_all C ys" "set xs = set ys"
  shows "join_all s xs = join_all s ys"
proof -
  have cx: "C (join_all s xs)" "C (join_all s ys)" using assms join_all_closed by auto
  have "below (join_all s xs) (join_all s ys)" "below (join_all s ys) (join_all s xs)"
    using join_all_least[OF assms(1,2) cx(2)] join_all_upper[OF assms(1,3)]
      join_all_least[OF assms(1,3) cx(1)] join_all_upper[OF assms(1,2)] assms(4)
    by (auto simp: list_all_iff)
  then show ?thesis using below_antisym[OF cx] by simp
qed

end

text \<open>Lifting a join to options, functions and pairs.\<close>

fun ojoin :: "('a \<Rightarrow> 'a \<Rightarrow> 'a) \<Rightarrow> 'a option \<Rightarrow> 'a option \<Rightarrow> 'a option" where
  "ojoin j None y = y"
| "ojoin j x None = x"
| "ojoin j (Some x) (Some y) = Some (j x y)"

lemma ojoin_None2 [simp]: "ojoin j x None = x"
  by (cases x) auto

lemma join_on_option:
  assumes "join_on C j"
  shows "join_on (\<lambda>x. case x of None \<Rightarrow> True | Some v \<Rightarrow> C v) (ojoin j)"
proof (unfold_locales, goal_cases)
  case (1 x y)
  then show ?case by (cases x; cases y) (auto simp: join_on.join_closed[OF assms])
next
  case (2 x)
  then show ?case by (cases x) (auto simp: join_on.join_idem[OF assms])
next
  case (3 x y)
  then show ?case by (cases x; cases y) (auto simp: join_on.join_comm[OF assms])
next
  case (4 x y z)
  then show ?case by (cases x; cases y; cases z) (auto simp: join_on.join_assoc[OF assms])
qed

lemma join_on_fun:
  assumes "\<And>k. join_on (C k) j"
  shows "join_on (\<lambda>f. \<forall>k. C k (f k)) (\<lambda>f g k. j (f k) (g k))"
proof (unfold_locales, goal_cases)
  case (1 x y)
  show ?case using 1 by (auto intro: join_on.join_closed[OF assms])
next
  case (2 x)
  show ?case by (rule ext) (rule join_on.join_idem[OF assms 2[rule_format]])
next
  case (3 x y)
  show ?case by (rule ext) (rule join_on.join_comm[OF assms 3(1)[rule_format] 3(2)[rule_format]])
next
  case (4 x y z)
  show ?case
    by (rule ext) (rule join_on.join_assoc[OF assms 4(1)[rule_format] 4(2)[rule_format] 4(3)[rule_format]])
qed

definition pjoin :: "('a \<Rightarrow> 'a \<Rightarrow> 'a) \<Rightarrow> ('b \<Rightarrow> 'b \<Rightarrow> 'b) \<Rightarrow> 'a \<times> 'b \<Rightarrow> 'a \<times> 'b \<Rightarrow> 'a \<times> 'b" where
  "pjoin j h x y = (j (fst x) (fst y), h (snd x) (snd y))"

lemma join_on_pair:
  assumes "join_on C j" "join_on D h"
  shows "join_on (\<lambda>x. C (fst x) \<and> D (snd x)) (pjoin j h)"
proof -
  note a = join_on.join_closed[OF assms(1)] join_on.join_closed[OF assms(2)]
    join_on.join_idem[OF assms(1)] join_on.join_idem[OF assms(2)]
  note c = join_on.join_comm[OF assms(1)] join_on.join_comm[OF assms(2)]
  note d = join_on.join_assoc[OF assms(1)] join_on.join_assoc[OF assms(2)]
  show ?thesis
  proof (unfold_locales, goal_cases)
    case (3 x y)
    then show ?case using c(1)[of "fst x" "fst y"] c(2)[of "snd x" "snd y"] by (simp add: pjoin_def)
  next
    case (4 x y z)
    then show ?case by (simp add: pjoin_def d)
  qed (auto simp: pjoin_def a)
qed

section \<open>Registers\<close>

text \<open>A usable register: its counter is a number and its stamp names the value that was written.\<close>

definition written :: "(stamp \<Rightarrow> 'a) \<Rightarrow> 'a register \<Rightarrow> bool" where
  "written w r \<longleftrightarrow> stamp_counter (reg_stamp r) \<noteq> NaN \<and> reg_value r = w (reg_stamp r)"

definition stamp_le :: "stamp \<Rightarrow> stamp \<Rightarrow> bool" where
  "stamp_le a b \<longleftrightarrow> js_lt (stamp_counter a) (stamp_counter b)
     \<or> stamp_counter a = stamp_counter b \<and> replicaId a \<le> replicaId b"

lemma compareStamp_ge:
  assumes "stamp_counter a \<noteq> NaN" "stamp_counter b \<noteq> NaN"
  shows "0 \<le> compareStamp a b \<longleftrightarrow> stamp_le b a"
proof (cases "stamp_counter a = stamp_counter b")
  case True
  then show ?thesis using assms by (auto simp: compareStamp_def stamp_le_def js_eq_def)
next
  case False
  then have "js_lt (stamp_counter a) (stamp_counter b) \<longleftrightarrow> \<not> js_lt (stamp_counter b) (stamp_counter a)"
    using js_total[OF assms] js_lt_trans[of "stamp_counter a" "stamp_counter b" "stamp_counter a"] by auto
  then show ?thesis using False by (auto simp: compareStamp_def stamp_le_def js_eq_def)
qed

lemma stamp_le_trans: "stamp_le a b \<Longrightarrow> stamp_le b c \<Longrightarrow> stamp_le a c"
  by (auto simp: stamp_le_def intro: js_lt_trans)

lemma stamp_le_total: "stamp_counter a \<noteq> NaN \<Longrightarrow> stamp_counter b \<noteq> NaN \<Longrightarrow> stamp_le a b \<or> stamp_le b a"
  using js_total[of "stamp_counter a" "stamp_counter b"] by (auto simp: stamp_le_def)

lemma stamp_le_antisym: "stamp_le a b \<Longrightarrow> stamp_le b a \<Longrightarrow> a = b"
  by (auto simp: stamp_le_def dest: js_lt_trans)

lemma pickRegister_written: "written w a \<Longrightarrow> written w b \<Longrightarrow>
    pickRegister a b = (if stamp_le (reg_stamp b) (reg_stamp a) then a else b)"
  by (simp add: pickRegister_def compareStamp_ge written_def)

lemma written_stamp: "written w a \<Longrightarrow> written w b \<Longrightarrow> reg_stamp a = reg_stamp b \<Longrightarrow> a = (b :: 'a register)"
  by (auto simp: written_def)

interpretation regs: join_on "written w" pickRegister for w
proof (unfold_locales, goal_cases)
  case (1 x y)
  then show ?case by (simp add: pickRegister_written)
next
  case (2 x)
  then show ?case by (simp add: pickRegister_def)
next
  case (3 x y)
  then have "stamp_le (reg_stamp x) (reg_stamp y) \<or> stamp_le (reg_stamp y) (reg_stamp x)"
    unfolding written_def using stamp_le_total by blast
  then show ?case using 3 stamp_le_antisym[of "reg_stamp x" "reg_stamp y"] written_stamp[of w x y]
    by (auto simp: pickRegister_written)
next
  case (4 x y z)
  then show ?case
    by (auto simp: pickRegister_written intro: stamp_le_trans
        dest: stamp_le_trans[of "reg_stamp z" "reg_stamp y" "reg_stamp x"])
      (metis stamp_le_total stamp_le_trans written_def)+
qed

interpretation least: join_on "\<lambda>n. n \<noteq> NaN" js_min
proof (unfold_locales, goal_cases)
  case (3 x y)
  then show ?case using js_total[of x y] js_lt_trans[of x y x] by (auto simp: js_min_def)
next
  case (4 x y z)
  then show ?case using js_total[of x y] js_total[of y z] js_total[of x z]
    by (auto simp: js_min_def dest: js_lt_trans)
qed (auto simp: js_min_def)

end
