(* ===== verification/PortableContent.thy ===== *)
theory PortableContent
  imports PortableConvergence
begin

text \<open>
  What a replicated board says, without the order its records were inserted in: the registers by
  key. Merging replicas joins what they say, so the laws of the join carry over to the program's
  merge; and the board that is shown depends on what is said only.
\<close>

section \<open>Looking up a merge\<close>

lemma merge_records_lookup:
  "distinct (map fst b) \<Longrightarrow> map_of (merge_records j a b) k = ojoin j (map_of a k) (map_of b k)"
  unfolding merge_records_def
proof (induction b arbitrary: a)
  case Nil
  then show ?case by simp
next
  case (Cons e b)
  obtain k' v where e: "e = (k', v)" by (cases e)
  have nb: "map_of b k' = None" using Cons.prems e by (auto simp: map_of_eq_None_iff)
  show ?case using Cons nb e by (auto split: option.split)
qed

lemma merge_records_keys: "fst ` set (merge_records j a b) = fst ` set a \<union> fst ` set b"
  unfolding merge_records_def by (induction b arbitrary: a) (auto simp: case_prod_beta)

lemma merge_records_distinct: "distinct (map fst a) \<Longrightarrow> distinct (map fst (merge_records j a b))"
  unfolding merge_records_def by (induction b arbitrary: a) (auto simp: distinct_omap_set case_prod_beta)

lemma record_unless_or [simp]: "record_or_empty (record_unless_empty m) = m"
  by (simp add: record_or_empty_def record_unless_empty_def)

section \<open>What a replica says\<close>

type_synonym card_says = "(string \<Rightarrow> jsval register option) \<times> bool register"
type_synonym edge_says = "(string \<times> string) \<times> bool register \<times> jsnum"
type_synonym says = "(string \<Rightarrow> card_says option) \<times> (string \<Rightarrow> edge_says option)
  \<times> (string \<Rightarrow> obj register option) \<times> (string \<Rightarrow> satisfied_dependency register option)"

definition card_says :: "crdt_card \<Rightarrow> card_says" where
  "card_says c = (map_of (cc_fields c), cc_deleted c)"

definition edge_says :: "crdt_dependency \<Rightarrow> edge_says" where
  "edge_says d = ((cd_from d, cd_to d), cd_present d, cd_createdAt d)"

definition says :: "portable_crdt \<Rightarrow> says" where
  "says c = (\<lambda>k. map_option card_says (map_of (crdt_cards c) k), \<lambda>k. map_option edge_says (map_of (crdt_dependencies c) k),
     map_of (record_or_empty (crdt_streams c)), map_of (record_or_empty (crdt_satisfied c)))"

abbreviation by_key :: "('v \<Rightarrow> 'v \<Rightarrow> 'v) \<Rightarrow> (string \<Rightarrow> 'v option) \<Rightarrow> (string \<Rightarrow> 'v option) \<Rightarrow> string \<Rightarrow> 'v option" where
  "by_key j f g \<equiv> \<lambda>k. ojoin j (f k) (g k)"

definition card_join :: "card_says \<Rightarrow> card_says \<Rightarrow> card_says" where
  "card_join = pjoin (by_key pickRegister) pickRegister"

definition edge_join :: "edge_says \<Rightarrow> edge_says \<Rightarrow> edge_says" where
  "edge_join = pjoin (\<lambda>a b. a) (pjoin pickRegister js_min)"

definition says_join :: "says \<Rightarrow> says \<Rightarrow> says" where
  "says_join = pjoin (by_key card_join) (pjoin (by_key edge_join) (pjoin (by_key pickRegister) (by_key pickRegister)))"

text \<open>Records without repeated keys.\<close>

definition keys_ok :: "portable_crdt \<Rightarrow> bool" where
  "keys_ok c \<longleftrightarrow> distinct (map fst (crdt_cards c)) \<and> distinct (map fst (crdt_dependencies c))
     \<and> distinct (map fst (record_or_empty (crdt_streams c))) \<and> distinct (map fst (record_or_empty (crdt_satisfied c)))
     \<and> list_all (\<lambda>(k, d). distinct (map fst (cc_fields d))) (crdt_cards c)"

lemma map_option_ojoin: "(\<And>x y. X = Some x \<Longrightarrow> Y = Some y \<Longrightarrow> g (f x y) = h (g x) (g y))
    \<Longrightarrow> map_option g (ojoin f X Y) = ojoin h (map_option g X) (map_option g Y)"
  by (cases X; cases Y) auto

lemma says_merge:
  assumes "keys_ok b"
  shows "says (mergePortableBoardCrdt a b) = says_join (says a) (says b)"
proof -
  have fields: "distinct (map fst (cc_fields c))" if "map_of (crdt_cards b) k = Some c" for k c
    using map_of_SomeD[OF that] assms by (auto simp: keys_ok_def list_all_iff)
  have cards: "map_option card_says (ojoin mergeCard (map_of (crdt_cards a) k) (map_of (crdt_cards b) k))
      = ojoin card_join (map_option card_says (map_of (crdt_cards a) k)) (map_option card_says (map_of (crdt_cards b) k))" for k
    by (rule map_option_ojoin) (auto simp: card_says_def mergeCard_def card_join_def pjoin_def merge_records_lookup fields)
  have edges: "map_option edge_says (ojoin mergeDependency X Y) = ojoin edge_join (map_option edge_says X) (map_option edge_says Y)" for X Y
    by (rule map_option_ojoin) (auto simp: edge_says_def mergeDependency_def edge_join_def pjoin_def)
  show ?thesis using assms
    by (simp add: says_def mergePortableBoardCrdt_def says_join_def pjoin_def merge_records_lookup keys_ok_def
        cards edges fun_eq_iff)
qed

section \<open>A history of writes\<close>

text \<open>The value that each stamp wrote at each place, and the ends that go with each edge key.\<close>

record history =
  h_field :: "string \<Rightarrow> string \<Rightarrow> stamp \<Rightarrow> jsval"
  h_deleted :: "string \<Rightarrow> stamp \<Rightarrow> bool"
  h_ends :: "string \<Rightarrow> string \<times> string"
  h_present :: "string \<Rightarrow> stamp \<Rightarrow> bool"
  h_stream :: "string \<Rightarrow> stamp \<Rightarrow> obj"
  h_satisfied :: "string \<Rightarrow> stamp \<Rightarrow> satisfied_dependency"

abbreviation opt_ok :: "('v \<Rightarrow> bool) \<Rightarrow> 'v option \<Rightarrow> bool" where
  "opt_ok P x \<equiv> (case x of None \<Rightarrow> True | Some v \<Rightarrow> P v)"

definition card_ok :: "history \<Rightarrow> string \<Rightarrow> card_says \<Rightarrow> bool" where
  "card_ok h k v \<longleftrightarrow> (\<forall>f. opt_ok (written (h_field h k f)) (fst v f)) \<and> written (h_deleted h k) (snd v)"

definition edge_ok :: "history \<Rightarrow> string \<Rightarrow> edge_says \<Rightarrow> bool" where
  "edge_ok h k v \<longleftrightarrow> fst v = h_ends h k \<and> written (h_present h k) (fst (snd v)) \<and> snd (snd v) \<noteq> NaN"

definition says_ok :: "history \<Rightarrow> says \<Rightarrow> bool" where
  "says_ok h x \<longleftrightarrow> (\<forall>k. opt_ok (card_ok h k) (fst x k)) \<and> (\<forall>k. opt_ok (edge_ok h k) (fst (snd x) k))
     \<and> (\<forall>k. opt_ok (written (h_stream h k)) (fst (snd (snd x)) k)) \<and> (\<forall>k. opt_ok (written (h_satisfied h k)) (snd (snd (snd x)) k))"

lemma join_on_regs: "join_on (written w) pickRegister"
  by (rule regs.join_on_axioms)

lemma join_on_records: "(\<And>k. join_on (C k) j) \<Longrightarrow> join_on (\<lambda>f. \<forall>k. opt_ok (C k) (f k)) (by_key j)"
  by (rule join_on_fun) (rule join_on_option)

lemma join_on_cards: "join_on (card_ok h k) card_join"
proof -
  have "join_on (\<lambda>v. (\<forall>f. opt_ok (written (h_field h k f)) (fst v f)) \<and> written (h_deleted h k) (snd v)) card_join"
    unfolding card_join_def by (intro join_on_pair join_on_records join_on_regs)
  then show ?thesis by (simp add: card_ok_def[abs_def])
qed

lemma join_on_edges: "join_on (edge_ok h k) edge_join"
proof -
  have "join_on (\<lambda>a. a = h_ends h k) (\<lambda>a b. a)" by unfold_locales auto
  then have "join_on (\<lambda>v. fst v = h_ends h k \<and> (written (h_present h k) (fst (snd v)) \<and> snd (snd v) \<noteq> NaN)) edge_join"
    unfolding edge_join_def by (intro join_on_pair join_on_regs least.join_on_axioms)
  then show ?thesis by (simp add: edge_ok_def[abs_def])
qed

lemma join_on_says: "join_on (says_ok h) says_join"
  unfolding says_ok_def[abs_def] says_join_def
  by (intro join_on_pair join_on_records join_on_cards join_on_edges join_on_regs)

interpretation replicas: join_on "says_ok h" says_join for h
  by (rule join_on_says)

text \<open>A replica whose registers the history names, checked record by record.\<close>

definition replica_ok :: "history \<Rightarrow> portable_crdt \<Rightarrow> bool" where
  "replica_ok h c \<longleftrightarrow> keys_ok c
     \<and> list_all (\<lambda>(k, d). cc_id d = k \<and> written (h_deleted h k) (cc_deleted d)
          \<and> list_all (\<lambda>(f, r). written (h_field h k f) r) (cc_fields d)) (crdt_cards c)
     \<and> list_all (\<lambda>(k, d). (cd_from d, cd_to d) = h_ends h k \<and> written (h_present h k) (cd_present d) \<and> cd_createdAt d \<noteq> NaN)
          (crdt_dependencies c)
     \<and> list_all (\<lambda>(k, r). written (h_stream h k) r) (record_or_empty (crdt_streams c))
     \<and> list_all (\<lambda>(k, r). written (h_satisfied h k) r) (record_or_empty (crdt_satisfied c))"

lemma opt_ok_map_of: "list_all (\<lambda>(k, v). P k v) m \<Longrightarrow> opt_ok (P k) (map_of m k)"
  by (auto simp: list_all_iff split: option.split dest!: map_of_SomeD)

lemma opt_ok_map_option: "opt_ok P (map_option f x) = opt_ok (\<lambda>v. P (f v)) x"
  by (cases x) auto

lemma replica_says_ok:
  assumes "replica_ok h c"
  shows "says_ok h (says c)"
proof -
  have c: "opt_ok (\<lambda>d. cc_id d = k \<and> written (h_deleted h k) (cc_deleted d)
          \<and> list_all (\<lambda>(f, r). written (h_field h k f) r) (cc_fields d)) (map_of (crdt_cards c) k)" for k
    using assms by (intro opt_ok_map_of) (simp add: replica_ok_def)
  have e: "opt_ok (\<lambda>d. (cd_from d, cd_to d) = h_ends h k \<and> written (h_present h k) (cd_present d) \<and> cd_createdAt d \<noteq> NaN)
      (map_of (crdt_dependencies c) k)" for k
    using assms by (intro opt_ok_map_of) (simp add: replica_ok_def)
  have "opt_ok (\<lambda>d. card_ok h k (card_says d)) (map_of (crdt_cards c) k)" for k
  proof (cases "map_of (crdt_cards c) k")
    case None
    then show ?thesis by simp
  next
    case (Some d)
    then have "list_all (\<lambda>(f, r). written (h_field h k f) r) (cc_fields d)" "written (h_deleted h k) (cc_deleted d)"
      using c[of k] by auto
    then show ?thesis using Some opt_ok_map_of[of "\<lambda>f. written (h_field h k f)" "cc_fields d"]
      by (simp add: card_ok_def card_says_def)
  qed
  moreover have "opt_ok (\<lambda>d. edge_ok h k (edge_says d)) (map_of (crdt_dependencies c) k)" for k
    using e[of k] by (auto simp: edge_ok_def edge_says_def split: option.splits)
  moreover have "opt_ok (written (h_stream h k)) (map_of (record_or_empty (crdt_streams c)) k)"
    "opt_ok (written (h_satisfied h k)) (map_of (record_or_empty (crdt_satisfied c)) k)" for k
    using assms by (auto intro!: opt_ok_map_of simp: replica_ok_def)
  ultimately show ?thesis unfolding says_ok_def says_def fst_conv snd_conv opt_ok_map_option by blast
qed

definition merge_all :: "portable_crdt \<Rightarrow> portable_crdt list \<Rightarrow> portable_crdt" where
  "merge_all s xs = fold (\<lambda>x s. mergePortableBoardCrdt s x) xs s"

lemma says_merge_all: "list_all keys_ok xs \<Longrightarrow> says (merge_all s xs) = replicas.join_all (says s) (map says xs)"
  unfolding merge_all_def by (induction xs arbitrary: s) (auto simp: says_merge)

lemma merge_all_converges:
  assumes "replica_ok h s" "list_all (replica_ok h) xs" "list_all (replica_ok h) ys" "set xs = set ys"
  shows "says (merge_all s xs) = says (merge_all s ys)"
proof -
  have k: "list_all keys_ok xs" "list_all keys_ok ys"
    using assms(2,3) by (auto simp: list_all_iff replica_ok_def)
  have "list_all (says_ok h) (map says zs)" if "list_all (replica_ok h) zs" for zs
    using that replica_says_ok by (auto simp: list_all_iff)
  then have "replicas.join_all (says s) (map says xs) = replicas.join_all (says s) (map says ys)"
    using assms replica_says_ok by (intro replicas.join_all_set[of h]) auto
  then show ?thesis using says_merge_all k by simp
qed

section \<open>What is shown\<close>

text \<open>
  A shown card as the members of its object; the lanes and the edges of a shown board as sets.
\<close>

definition lane_shows :: "portable_board \<Rightarrow> column_id \<Rightarrow> (string \<Rightarrow> jsval option) set" where
  "lane_shows b c = map_of ` (\<Union>col \<in> {col \<in> set (pb_columns b). pc_id col = c}. set (pc_cards col))"

definition edges_shown :: "portable_board \<Rightarrow> (string \<times> string) set" where
  "edges_shown b = (\<lambda>d. (fromTaskId d, toTaskId d)) ` set (pb_dependencies b)"

text \<open>The object and the lane that a card's registers say.\<close>

definition shown_object :: "string \<Rightarrow> card_says \<Rightarrow> string \<Rightarrow> jsval option" where
  "shown_object i v k = (case (if k = column_field then None else fst v k) of
      Some r \<Rightarrow> Some (reg_value r) | None \<Rightarrow> if k = ''id'' then Some (JStr i) else None)"

definition shown_lane :: "column_id list \<Rightarrow> card_says \<Rightarrow> column_id option" where
  "shown_lane order v = bucket_for order (case fst v column_field of None \<Rightarrow> JStr ''backlog''
     | Some r \<Rightarrow> if reg_value r = JUndef \<or> reg_value r = JNull then JStr ''backlog'' else reg_value r)"

lemma fold_fields_lookup:
  "distinct (map fst fs) \<Longrightarrow> map_of (fold (\<lambda>(k, r). if k = c then id else omap_set k (g k r)) fs m) k
    = (case (if k = c then None else map_of fs k) of Some r \<Rightarrow> Some (g k r) | None \<Rightarrow> map_of m k)"
proof (induction fs arbitrary: m)
  case Nil
  then show ?case by simp
next
  case (Cons e fs)
  obtain k' r where e: "e = (k', r)" by (cases e)
  have "map_of fs k' = None" using Cons.prems e by (auto simp: map_of_eq_None_iff)
  then show ?case using Cons e by (auto split: option.split)
qed

lemma projectCard_shows:
  assumes "distinct (map fst (cc_fields c))"
  shows "map_option (\<lambda>(v, o'). (bucket_for order v, map_of o')) (projectCard c)
    = (if reg_value (cc_deleted c) then None
       else Some (shown_lane order (card_says c), shown_object (cc_id c) (card_says c)))"
proof (cases "reg_value (cc_deleted c)")
  case True
  then show ?thesis by (simp add: projectCard_def)
next
  case False
  let ?o = "fold (\<lambda>(k, r). if k = column_field then id else omap_set k (reg_value r)) (cc_fields c) [(''id'', JStr (cc_id c))]"
  have obj: "map_of ?o = shown_object (cc_id c) (card_says c)"
    unfolding fun_eq_iff fold_fields_lookup[OF assms]
    by (simp add: shown_object_def card_says_def split: option.split)
  have lane: "bucket_for order (let v = (case map_of (cc_fields c) column_field of None \<Rightarrow> JUndef | Some r \<Rightarrow> reg_value r)
      in if v = JUndef \<or> v = JNull then JStr ''backlog'' else v) = shown_lane order (card_says c)"
    by (simp add: shown_lane_def card_says_def Let_def split: option.split)
  show ?thesis using False obj lane by (simp add: projectCard_def Let_def)
qed

lemma set_map_filter: "y \<in> set (List.map_filter f xs) \<longleftrightarrow> (\<exists>x \<in> set xs. f x = Some y)"
  by (induction xs) (auto simp: List.map_filter_def split: option.splits)

text \<open>Records whose keys are the ids of what they hold.\<close>

definition ids_ok :: "portable_crdt \<Rightarrow> bool" where
  "ids_ok c \<longleftrightarrow> keys_ok c \<and> list_all (\<lambda>(k, d). cc_id d = k) (crdt_cards c)"

lemma ids_ok_fields: "ids_ok c \<Longrightarrow> map_of (crdt_cards c) k = Some d \<Longrightarrow> distinct (map fst (cc_fields d)) \<and> cc_id d = k"
  by (auto simp: ids_ok_def keys_ok_def list_all_iff dest!: map_of_SomeD)

lemma ids_ok_entry: "ids_ok c \<Longrightarrow> (k, d) \<in> set (crdt_cards c) \<longleftrightarrow> map_of (crdt_cards c) k = Some d"
  by (simp add: ids_ok_def keys_ok_def)

lemma lane_shows_says:
  assumes ok: "ids_ok crdt" and d: "distinct order"
  shows "lane_shows (portableBoardCrdtToBoard order lc crdt) c =
    {shown_object k v | k v. fst (says crdt) k = Some v \<and> \<not> reg_value (snd v) \<and> shown_lane order v = Some c \<and> c \<in> set order}"
    (is "?L = ?R")
proof -
  let ?shown = "List.map_filter (\<lambda>(k, c). projectCard c) (crdt_cards crdt)"
  have L: "?L = {map_of o' | v o'. (v, o') \<in> set ?shown \<and> bucket_for order v = Some c \<and> c \<in> set order}"
  proof (cases "c \<in> set order")
    case True
    then have "{col \<in> set (pb_columns (portableBoardCrdtToBoard order lc crdt)). pc_id col = c}
        = {\<lparr>pc_id = c, pc_title = column_titles c, pc_cards = js_sort (by_number (\<lambda>o'. obj_num o' ''createdAt''))
             (map snd (filter (\<lambda>(v, o'). bucket_for order v = Some c) ?shown))\<rparr>}"
      by (auto simp: portableBoardCrdtToBoard_def Let_def)
    then have "?L = map_of ` snd ` {p \<in> set ?shown. bucket_for order (fst p) = Some c}"
      unfolding lane_shows_def by (simp add: case_prod_beta)
    moreover have "map_of ` snd ` {p \<in> S. bucket_for order (fst p) = Some c}
        = {map_of o' | v o'. (v, o') \<in> S \<and> bucket_for order v = Some c \<and> c \<in> set order}" for S :: "(jsval \<times> obj) set"
      using True by force
    ultimately show ?thesis by simp
  next
    case False
    then show ?thesis by (auto simp: lane_shows_def portableBoardCrdtToBoard_def Let_def)
  qed
  have pc: "(\<exists>v o'. projectCard d = Some (v, o') \<and> bucket_for order v = b \<and> map_of o' = m)
      \<longleftrightarrow> \<not> reg_value (cc_deleted d) \<and> shown_lane order (card_says d) = b \<and> shown_object (cc_id d) (card_says d) = m"
    if "distinct (map fst (cc_fields d))" for d b m
    using projectCard_shows[OF that, of order] by (auto split: if_splits)
  have "?L = {m. \<exists>k d. map_of (crdt_cards crdt) k = Some d \<and> c \<in> set order
      \<and> (\<exists>v o'. projectCard d = Some (v, o') \<and> bucket_for order v = Some c \<and> map_of o' = m)}"
    unfolding L set_map_filter using ids_ok_entry[OF ok] by (auto simp: Bex_def)+
  also have "\<dots> = {m. \<exists>k d. map_of (crdt_cards crdt) k = Some d \<and> c \<in> set order
      \<and> (\<not> reg_value (cc_deleted d) \<and> shown_lane order (card_says d) = Some c \<and> shown_object k (card_says d) = m)}"
  proof (intro Collect_cong ex_cong1 conj_cong refl)
    fix m k d
    assume "map_of (crdt_cards crdt) k = Some d"
    then have "distinct (map fst (cc_fields d))" "cc_id d = k" using ids_ok_fields[OF ok] by auto
    then show "(\<exists>v o'. projectCard d = Some (v, o') \<and> bucket_for order v = Some c \<and> map_of o' = m)
      \<longleftrightarrow> (\<not> reg_value (cc_deleted d) \<and> shown_lane order (card_says d) = Some c \<and> shown_object k (card_says d) = m)"
      using pc by simp
  qed
  also have "\<dots> = ?R" by (fastforce simp: says_def card_says_def)
  finally show ?thesis .
qed

lemma edges_shown_says:
  assumes ok: "ids_ok crdt"
  shows "edges_shown (portableBoardCrdtToBoard order lc crdt) =
    {fst e | k e. fst (snd (says crdt)) k = Some e \<and> reg_value (fst (snd e))
       \<and> (\<exists>v. fst (says crdt) (fst (fst e)) = Some v \<and> \<not> reg_value (snd v))
       \<and> (\<exists>v. fst (says crdt) (snd (fst e)) = Some v \<and> \<not> reg_value (snd v))}"
proof -
  have pr: "i \<in> set (map (\<lambda>(k, c). cc_id c) (filter (\<lambda>(k, c). \<not> reg_value (cc_deleted c)) (crdt_cards crdt)))
      \<longleftrightarrow> (\<exists>v. fst (says crdt) i = Some v \<and> \<not> reg_value (snd v))" for i
  proof -
    have "i \<in> set (map (\<lambda>(k, c). cc_id c) (filter (\<lambda>(k, c). \<not> reg_value (cc_deleted c)) (crdt_cards crdt)))
        \<longleftrightarrow> (\<exists>k d. map_of (crdt_cards crdt) k = Some d \<and> cc_id d = i \<and> \<not> reg_value (cc_deleted d))"
      using ids_ok_entry[OF ok] by (auto simp: image_iff Bex_def)
    also have "\<dots> \<longleftrightarrow> (\<exists>d. map_of (crdt_cards crdt) i = Some d \<and> \<not> reg_value (cc_deleted d))"
      using ids_ok_fields[OF ok] by blast
    finally show ?thesis by (auto simp: says_def card_says_def)
  qed
  have de: "(k, d) \<in> set (crdt_dependencies crdt) \<longleftrightarrow> map_of (crdt_dependencies crdt) k = Some d" for k d
    using ok by (simp add: ids_ok_def keys_ok_def)
  show ?thesis
    unfolding edges_shown_def portableBoardCrdtToBoard_def Let_def portable_board.select_convs set_js_sort set_map set_filter
      image_image
    unfolding pr[unfolded set_map set_filter]
    using de by (fastforce simp: says_def edge_says_def image_iff Bex_def)
qed

lemma ids_ok_merge:
  assumes "ids_ok a" "ids_ok b"
  shows "ids_ok (mergePortableBoardCrdt a b)"
proof -
  let ?m = "mergePortableBoardCrdt a b"
  have k: "distinct (map fst (crdt_cards ?m))" "distinct (map fst (crdt_dependencies ?m))"
    "distinct (map fst (record_or_empty (crdt_streams ?m)))" "distinct (map fst (record_or_empty (crdt_satisfied ?m)))"
    using assms by (simp_all add: mergePortableBoardCrdt_def merge_records_distinct ids_ok_def keys_ok_def)
  have "distinct (map fst (cc_fields d)) \<and> cc_id d = i" if "(i, d) \<in> set (crdt_cards ?m)" for i d
  proof -
    have "map_of (crdt_cards ?m) i = Some d" using that k(1) by simp
    then have "ojoin mergeCard (map_of (crdt_cards a) i) (map_of (crdt_cards b) i) = Some d"
      using assms(2) by (simp add: mergePortableBoardCrdt_def merge_records_lookup ids_ok_def keys_ok_def)
    then consider (left) "map_of (crdt_cards a) i = Some d" | (right) "map_of (crdt_cards b) i = Some d"
      | (both) x y where "map_of (crdt_cards a) i = Some x" "d = mergeCard x y"
      by (cases "map_of (crdt_cards a) i"; cases "map_of (crdt_cards b) i") auto
    then show ?thesis
    proof cases
      case left
      then show ?thesis by (rule ids_ok_fields[OF assms(1)])
    next
      case right
      then show ?thesis by (rule ids_ok_fields[OF assms(2)])
    next
      case both
      then show ?thesis using ids_ok_fields[OF assms(1) both(1)] by (simp add: mergeCard_def merge_records_distinct)
    qed
  qed
  then show ?thesis using k by (auto simp: ids_ok_def keys_ok_def list_all_iff)
qed

section \<open>From a board\<close>

lemma fold_fields_distinct:
  "distinct (map fst m) \<Longrightarrow> distinct (map fst (fold (\<lambda>(k, r). if k = c then id else omap_set k (g k r)) fs m))"
  by (induction fs arbitrary: m) (auto simp: distinct_omap_set)

lemma board_card:
  assumes "map_of (crdt_cards (boardToPortableBoardCrdt b replica prior)) k = Some d"
  shows "\<exists>c crd. d = card_register (prior_fields prior k) replica c crd \<and> k = obj_str crd ''id''"
  using assms by (auto simp: boardToPortableBoardCrdt_def map_of_omap_of dest!: map_of_SomeD) blast

lemma board_ids_ok: "ids_ok (boardToPortableBoardCrdt b replica prior)"
proof -
  let ?c = "boardToPortableBoardCrdt b replica prior"
  have "distinct (map fst (cc_fields d)) \<and> cc_id d = k" if "(k, d) \<in> set (crdt_cards ?c)" for k d
  proof -
    have "map_of (crdt_cards ?c) k = Some d" using that by (simp add: boardToPortableBoardCrdt_def)
    from board_card[OF this] show ?thesis by (auto simp: card_register_def Let_def fold_fields_distinct)
  qed
  then show ?thesis by (auto simp: ids_ok_def keys_ok_def boardToPortableBoardCrdt_def list_all_iff)
qed

lemma replica_ids_ok: "replica_ok h c \<Longrightarrow> ids_ok c"
  by (auto simp: replica_ok_def ids_ok_def list_all_iff)

lemma ids_ok_merge_all: "ids_ok s \<Longrightarrow> list_all ids_ok xs \<Longrightarrow> ids_ok (merge_all s xs)"
  unfolding merge_all_def by (induction xs arbitrary: s) (auto simp: ids_ok_merge)

end
