(* ===== verification/PortableStore.thy ===== *)
theory PortableStore
  imports PortableContent
begin

text \<open>
  The tombstones and the export: marking a card or an edge outlives every write that was seen, and
  folding the local board into the committed state buries what the local board no longer has.
\<close>

section \<open>Domination\<close>

lemma fold_max_finite:
  "js_isFinite own \<Longrightarrow> list_all js_isFinite xs \<Longrightarrow>
    \<exists>q. fold (\<lambda>x m. js_max m x) xs own = Fin q \<and> js_le own (Fin q) \<and> list_all (\<lambda>x. js_le x (Fin q)) xs"
proof (induction xs arbitrary: own)
  case Nil
  then show ?case by (auto simp: js_finite_cases)
next
  case (Cons x xs)
  then obtain a b where ab: "own = Fin a" "x = Fin b" by (auto simp: js_finite_cases)
  then obtain q where q: "fold (\<lambda>x m. js_max m x) xs (Fin (max a b)) = Fin q" "js_le (Fin (max a b)) (Fin q)"
    "list_all (\<lambda>x. js_le x (Fin q)) xs"
    using Cons.IH[of "Fin (max a b)"] Cons.prems by auto
  then show ?case using ab by auto
qed

lemma dominating_Fin:
  assumes "js_isFinite own" "list_all js_isFinite others"
  obtains q where "dominating now own others = Fin q" "list_all (\<lambda>x. js_lt x (Fin q)) others" "js_lt own (Fin q)"
    "js_isFinite now \<Longrightarrow> js_le now (Fin q)"
proof -
  obtain p where p: "fold (\<lambda>x m. js_max m x) others own = Fin p" "js_le own (Fin p)" "list_all (\<lambda>x. js_le x (Fin p)) others"
    using fold_max_finite[OF assms] by blast
  obtain n where n: "(if js_isFinite now then now else Fin 0) = Fin n"
    by (cases now) auto
  have d: "dominating now own others = Fin (max n (p + 1))" unfolding dominating_def p n by simp
  have lt: "js_lt x (Fin (max n (p + 1)))" if "js_isFinite x" "js_le x (Fin p)" for x
    using that by (auto simp: js_finite_cases less_max_iff_disj)
  show thesis
  proof (rule that[OF d])
    show "list_all (\<lambda>x. js_lt x (Fin (max n (p + 1)))) others" using lt p(3) assms(2) by (auto simp: list_all_iff)
    show "js_lt own (Fin (max n (p + 1)))" using lt p(2) assms(1) by simp
    show "js_le now (Fin (max n (p + 1)))" if "js_isFinite now" using that n by auto
  qed
qed

lemma picks_later:
  assumes "js_lt (stamp_counter (reg_stamp b)) (stamp_counter (reg_stamp a))"
  shows "pickRegister a b = a" "pickRegister b a = a"
proof -
  have "stamp_counter (reg_stamp a) \<noteq> NaN" "stamp_counter (reg_stamp b) \<noteq> NaN" "stamp_counter (reg_stamp a) \<noteq> stamp_counter (reg_stamp b)"
    using assms js_lt_not_NaN by auto
  moreover have "\<not> js_lt (stamp_counter (reg_stamp a)) (stamp_counter (reg_stamp b))"
    using assms js_lt_trans js_lt_irrefl by blast
  ultimately show "pickRegister a b = a" "pickRegister b a = a"
    using assms by (auto simp: pickRegister_def compareStamp_def js_eq_def)
qed

section \<open>Marking\<close>

lemma markCardDeleted_deps [simp]: "crdt_dependencies (markCardDeleted m i r now) = crdt_dependencies m"
  by (simp add: markCardDeleted_def Let_def split: option.split)

lemma markDependencyRemoved_cards [simp]: "crdt_cards (markDependencyRemoved m f t r now) = crdt_cards m"
  by (simp add: markDependencyRemoved_def Let_def split: option.split)

definition tombstone :: "portable_crdt \<Rightarrow> string \<Rightarrow> string \<Rightarrow> jsnum \<Rightarrow> crdt_card \<Rightarrow> crdt_card" where
  "tombstone m i r now d = d\<lparr>cc_deleted := \<lparr>reg_value = True, reg_stamp = \<lparr>stamp_counter =
     dominating now (stamp_counter (reg_stamp (cc_deleted d))) (card_counters (crdt_cards m)), replicaId = r\<rparr>\<rparr>\<rparr>"

lemma markCardDeleted_lookup: "map_of (crdt_cards (markCardDeleted m i r now)) k
    = (if k = i then map_option (tombstone m i r now) (map_of (crdt_cards m) i) else map_of (crdt_cards m) k)"
  by (auto simp: markCardDeleted_def tombstone_def Let_def split: option.split)

lemma markCardDeleted_ids_ok: "ids_ok m \<Longrightarrow> ids_ok (markCardDeleted m i r now)"
proof -
  assume m: "ids_ok m"
  let ?m = "markCardDeleted m i r now"
  have k: "distinct (map fst (crdt_cards ?m))" "keys_ok ?m \<longleftrightarrow> list_all (\<lambda>(k, d). distinct (map fst (cc_fields d))) (crdt_cards ?m)"
    using m by (auto simp: markCardDeleted_def Let_def ids_ok_def keys_ok_def distinct_omap_set split: option.split)
  have "distinct (map fst (cc_fields d)) \<and> cc_id d = k" if "(k, d) \<in> set (crdt_cards ?m)" for k d
  proof -
    have "map_of (crdt_cards ?m) k = Some d" using that \<open>distinct _\<close> by simp
    then show ?thesis using ids_ok_fields[OF m]
      by (auto simp: markCardDeleted_lookup tombstone_def split: if_splits)
  qed
  then show ?thesis using k by (auto simp: ids_ok_def list_all_iff)
qed

section \<open>Burying\<close>

definition dead_card :: "portable_crdt \<Rightarrow> string \<Rightarrow> bool" where
  "dead_card m i = (case map_of (crdt_cards m) i of None \<Rightarrow> True | Some d \<Rightarrow> reg_value (cc_deleted d))"

definition dead_edge :: "portable_crdt \<Rightarrow> string \<Rightarrow> bool" where
  "dead_edge m k = (case map_of (crdt_dependencies m) k of None \<Rightarrow> True | Some d \<Rightarrow> \<not> reg_value (cd_present d))"

lemma bury_cards_facts:
  assumes "ids_ok m"
  shows "ids_ok (fst (bury_cards loc r clock n js m))"
    "crdt_dependencies (fst (bury_cards loc r clock n js m)) = crdt_dependencies m"
    "list_all (\<lambda>i. i \<in> loc \<or> dead_card (fst (bury_cards loc r clock n js m)) i) js"
    "dead_card m i \<Longrightarrow> dead_card (fst (bury_cards loc r clock n js m)) i"
proof -
  have "ids_ok (fst (bury_cards loc r clock n js m))
    \<and> crdt_dependencies (fst (bury_cards loc r clock n js m)) = crdt_dependencies m
    \<and> list_all (\<lambda>i. i \<in> loc \<or> dead_card (fst (bury_cards loc r clock n js m)) i) js
    \<and> (\<forall>i. dead_card m i \<longrightarrow> dead_card (fst (bury_cards loc r clock n js m)) i)"
    using assms
  proof (induction js arbitrary: n m)
    case Nil
    then show ?case by simp
  next
    case (Cons j js)
    show ?case
    proof (cases "j \<notin> loc \<and> \<not> (case map_of (crdt_cards m) j of None \<Rightarrow> False | Some c \<Rightarrow> reg_value (cc_deleted c))")
      case True
      let ?m = "markCardDeleted m j r (clock n)"
      have b: "bury_cards loc r clock n (j # js) m = bury_cards loc r clock (Suc n) js ?m" using True by simp
      have "dead_card ?m j" "\<And>i. dead_card m i \<Longrightarrow> dead_card ?m i"
        by (auto simp: dead_card_def markCardDeleted_lookup tombstone_def split: option.split)
      then show ?thesis unfolding b
        using Cons.IH[OF markCardDeleted_ids_ok[OF Cons.prems], where n = "Suc n"] by simp
    next
      case False
      have b: "bury_cards loc r clock n (j # js) m = bury_cards loc r clock n js m" using False by auto
      have "j \<in> loc \<or> dead_card m j" using False by (auto simp: dead_card_def split: option.splits)
      then show ?thesis unfolding b using Cons.IH[OF Cons.prems, of n] by auto
    qed
  qed
  then show "ids_ok (fst (bury_cards loc r clock n js m))"
    "crdt_dependencies (fst (bury_cards loc r clock n js m)) = crdt_dependencies m"
    "list_all (\<lambda>i. i \<in> loc \<or> dead_card (fst (bury_cards loc r clock n js m)) i) js"
    "dead_card m i \<Longrightarrow> dead_card (fst (bury_cards loc r clock n js m)) i" by auto
qed

lemma markDependencyRemoved_lookup: "map_of (crdt_dependencies (markDependencyRemoved m f t r now)) k
    = (case map_of (crdt_dependencies m) k of None \<Rightarrow> None
       | Some d \<Rightarrow> if k = dependencyKey f t \<and> reg_value (cd_present d)
           then Some (d\<lparr>cd_present := \<lparr>reg_value = False, reg_stamp = \<lparr>stamp_counter =
              dominating now (stamp_counter (reg_stamp (cd_present d)))
                (map (\<lambda>(k, e). stamp_counter (reg_stamp (cd_present e))) (crdt_dependencies m) @ card_counters (crdt_cards m)),
              replicaId = r\<rparr>\<rparr>\<rparr>) else Some d)"
  by (auto simp: markDependencyRemoved_def Let_def split: option.split)

lemma markDependencyRemoved_ids_ok: "ids_ok m \<Longrightarrow> ids_ok (markDependencyRemoved m f t r now)"
  by (auto simp: markDependencyRemoved_def Let_def ids_ok_def keys_ok_def distinct_omap_set split: option.split)

lemma bury_edges_facts:
  assumes "ids_ok m"
  shows "ids_ok (bury_edges loc r clock n ds m)" "crdt_cards (bury_edges loc r clock n ds m) = crdt_cards m"
    "list_all (\<lambda>d. dependencyKey (cd_from d) (cd_to d) \<in> loc
       \<or> dead_edge (bury_edges loc r clock n ds m) (dependencyKey (cd_from d) (cd_to d))) ds"
    "dead_edge m k \<Longrightarrow> dead_edge (bury_edges loc r clock n ds m) k"
    "map_option (\<lambda>d. (cd_from d, cd_to d)) (map_of (crdt_dependencies (bury_edges loc r clock n ds m)) k)
      = map_option (\<lambda>d. (cd_from d, cd_to d)) (map_of (crdt_dependencies m) k)"
proof -
  have "ids_ok (bury_edges loc r clock n ds m) \<and> crdt_cards (bury_edges loc r clock n ds m) = crdt_cards m
    \<and> list_all (\<lambda>d. dependencyKey (cd_from d) (cd_to d) \<in> loc
       \<or> dead_edge (bury_edges loc r clock n ds m) (dependencyKey (cd_from d) (cd_to d))) ds
    \<and> (\<forall>k. dead_edge m k \<longrightarrow> dead_edge (bury_edges loc r clock n ds m) k)
    \<and> (\<forall>k. map_option (\<lambda>d. (cd_from d, cd_to d)) (map_of (crdt_dependencies (bury_edges loc r clock n ds m)) k)
        = map_option (\<lambda>d. (cd_from d, cd_to d)) (map_of (crdt_dependencies m) k))"
    using assms
  proof (induction ds arbitrary: n m)
    case Nil
    then show ?case by simp
  next
    case (Cons d ds)
    let ?key = "dependencyKey (cd_from d) (cd_to d)"
    show ?case
    proof (cases "?key \<notin> loc \<and> (case map_of (crdt_dependencies m) ?key of None \<Rightarrow> False | Some e \<Rightarrow> reg_value (cd_present e))")
      case True
      let ?m = "markDependencyRemoved m (cd_from d) (cd_to d) r (clock n)"
      have b: "bury_edges loc r clock n (d # ds) m = bury_edges loc r clock (Suc n) ds ?m" using True by simp
      have "dead_edge ?m ?key" "\<And>k. dead_edge m k \<Longrightarrow> dead_edge ?m k"
        "\<And>k. map_option (\<lambda>d. (cd_from d, cd_to d)) (map_of (crdt_dependencies ?m) k)
          = map_option (\<lambda>d. (cd_from d, cd_to d)) (map_of (crdt_dependencies m) k)"
        by (auto simp: dead_edge_def markDependencyRemoved_lookup split: option.split)
      then show ?thesis unfolding b
        using Cons.IH[OF markDependencyRemoved_ids_ok[OF Cons.prems], where n = "Suc n"] by simp
    next
      case False
      have b: "bury_edges loc r clock n (d # ds) m = bury_edges loc r clock n ds m" using False by auto
      have "?key \<in> loc \<or> dead_edge m ?key" using False by (auto simp: dead_edge_def split: option.splits)
      then show ?thesis unfolding b using Cons.IH[OF Cons.prems, of n] by auto
    qed
  qed
  then show "ids_ok (bury_edges loc r clock n ds m)" "crdt_cards (bury_edges loc r clock n ds m) = crdt_cards m"
    "list_all (\<lambda>d. dependencyKey (cd_from d) (cd_to d) \<in> loc
       \<or> dead_edge (bury_edges loc r clock n ds m) (dependencyKey (cd_from d) (cd_to d))) ds"
    "dead_edge m k \<Longrightarrow> dead_edge (bury_edges loc r clock n ds m) k"
    "map_option (\<lambda>d. (cd_from d, cd_to d)) (map_of (crdt_dependencies (bury_edges loc r clock n ds m)) k)
      = map_option (\<lambda>d. (cd_from d, cd_to d)) (map_of (crdt_dependencies m) k)" by auto
qed

section \<open>Deletions that last\<close>

definition plain_fields :: "portable_crdt \<Rightarrow> bool" where
  "plain_fields m \<longleftrightarrow> list_all (\<lambda>(k, d). ''id'' \<notin> set (map fst (cc_fields d))) (crdt_cards m)"

definition plain_says :: "says \<Rightarrow> bool" where
  "plain_says x \<longleftrightarrow> (\<forall>k. opt_ok (\<lambda>v. fst v ''id'' = None) (fst x k))"

lemma plain_fields_says: "plain_fields m \<Longrightarrow> plain_says (says m)"
  by (auto simp: plain_fields_def plain_says_def says_def card_says_def list_all_iff map_of_eq_None_iff
      dest!: map_of_SomeD split: option.split)

lemma plain_mark:
  assumes "plain_says (says m)"
  shows "plain_says (says (markCardDeleted m i r now))"
proof -
  have "opt_ok (\<lambda>v. fst v ''id'' = None) (fst (says (markCardDeleted m i r now)) k)" for k
    using assms[unfolded plain_says_def, rule_format, of k]
    by (cases "map_of (crdt_cards m) k") (auto simp: says_def card_says_def markCardDeleted_lookup tombstone_def)
  then show ?thesis by (simp add: plain_says_def)
qed

lemma plain_merge:
  assumes "keys_ok b" "plain_says (says a)" "plain_says (says b)"
  shows "plain_says (says (mergePortableBoardCrdt a b))"
proof -
  have "opt_ok (\<lambda>v. fst v ''id'' = None) (ojoin card_join (fst (says a) k) (fst (says b) k))" for k
    using assms(2,3)[unfolded plain_says_def, rule_format, of k]
    by (cases "fst (says a) k"; cases "fst (says b) k") (auto simp: card_join_def pjoin_def)
  then show ?thesis by (simp add: plain_says_def says_merge[OF assms(1)] says_join_def pjoin_def)
qed

lemma tombstone_wins:
  assumes "ids_ok m" "ids_ok other" "map_of (crdt_cards m) i \<noteq> None"
    and "list_all js_isFinite (card_counters (crdt_cards m))" "js_isFinite now"
    and older: "opt_ok (\<lambda>d. js_lt (stamp_counter (reg_stamp (cc_deleted d))) now
      \<or> list_ex (\<lambda>x. js_le (stamp_counter (reg_stamp (cc_deleted d))) x) (card_counters (crdt_cards m))) (map_of (crdt_cards other) i)"
    and x: "x = mergePortableBoardCrdt (markCardDeleted m i r now) other \<or> x = mergePortableBoardCrdt other (markCardDeleted m i r now)"
    and v: "fst (says x) i = Some v"
  shows "reg_value (snd v)"
proof -
  let ?m = "markCardDeleted m i r now"
  obtain d where d: "map_of (crdt_cards m) i = Some d" using assms(3) by auto
  have own: "stamp_counter (reg_stamp (cc_deleted d)) \<in> set (card_counters (crdt_cards m))"
    using map_of_SomeD[OF d] by (auto simp: card_counters_def)
  then have fin: "js_isFinite (stamp_counter (reg_stamp (cc_deleted d)))" using assms(4) by (auto simp: list_all_iff)
  obtain q where q: "dominating now (stamp_counter (reg_stamp (cc_deleted d))) (card_counters (crdt_cards m)) = Fin q"
    "list_all (\<lambda>x. js_lt x (Fin q)) (card_counters (crdt_cards m))" "js_le now (Fin q)"
    using dominating_Fin[OF fin assms(4), of now] assms(5) by metis
  let ?t = "tombstone m i r now d"
  have t: "reg_value (cc_deleted ?t)" "stamp_counter (reg_stamp (cc_deleted ?t)) = Fin q" by (simp_all add: tombstone_def q(1))
  have td: "fst (says ?m) i = Some (card_says ?t)" by (simp add: says_def markCardDeleted_lookup d)
  have old: "js_lt (stamp_counter (reg_stamp (cc_deleted e))) (Fin q)" if e: "map_of (crdt_cards other) i = Some e" for e
    using older q(2,3) e by (auto simp: list_ex_iff list_all_iff js_le_def js_eq_def intro: js_lt_trans)
  have "keys_ok ?m" "keys_ok other" using markCardDeleted_ids_ok[OF assms(1)] assms(2) by (auto simp: ids_ok_def)
  then have "fst (says x) i = ojoin card_join (Some (card_says ?t)) (map_option card_says (map_of (crdt_cards other) i))
      \<or> fst (says x) i = ojoin card_join (map_option card_says (map_of (crdt_cards other) i)) (Some (card_says ?t))"
    using x td by (auto simp: says_merge says_join_def pjoin_def) (simp_all add: says_def)
  then show ?thesis using v t old picks_later[of _ "cc_deleted ?t"]
    by (cases "map_of (crdt_cards other) i") (auto simp: card_join_def pjoin_def card_says_def)
qed

lemma bury_plain: "plain_says (says m) \<Longrightarrow> plain_says (says (fst (bury_cards loc r clock n js m)))"
  by (induction js arbitrary: n m) (auto simp: plain_mark)

end
