(* ===== verification/PortableProperties.thy ===== *)
theory PortableProperties
  imports PortableStore BoardOps ReadyOrder
begin

text \<open>
  The properties of the replicated board: convergence of merges, tombstones that last, the export
  that is authoritative on removals, the round trip of a board, the files that are refused; and two
  runs in which the merge and the export do less than their comments say.
\<close>

section \<open>Samples\<close>

definition at_time :: "nat \<Rightarrow> string \<Rightarrow> stamp" where
  "at_time n r = \<lparr>stamp_counter = js_of_nat n, replicaId = r\<rparr>"

definition sample_object :: "string \<Rightarrow> string \<Rightarrow> nat \<Rightarrow> obj" where
  "sample_object i t n = [(''id'', JStr i), (''title'', JStr t), (''createdAt'', JNum (Fin 1)), (''updatedAt'', JNum (js_of_nat n))]"

definition sample_lanes :: "obj list \<Rightarrow> obj list \<Rightarrow> dependency list \<Rightarrow> portable_board" where
  "sample_lanes todo finished ds = \<lparr>pb_columns =
      [\<lparr>pc_id = Backlog, pc_title = [], pc_cards = todo\<rparr>, \<lparr>pc_id = CompletedLane, pc_title = [], pc_cards = finished\<rparr>],
     pb_dependencies = ds, pb_streams = None, pb_satisfied = None\<rparr>"

definition sample_edge :: dependency where
  "sample_edge = \<lparr>dep_id = ''e'', fromTaskId = ''b'', toTaskId = ''a'', dep_createdAt = Fin 2\<rparr>"

text \<open>Three replicas: the first board, the same with \<^verbatim>\<open>a\<close> renamed on R, and with \<^verbatim>\<open>a\<close> finished on S.\<close>

definition replica_P :: portable_crdt where
  "replica_P = boardToPortableBoardCrdt
     (sample_lanes [sample_object ''a'' ''A'' 3, sample_object ''b'' ''B'' 3] [] [sample_edge]) ''P'' None"

definition replica_R :: portable_crdt where
  "replica_R = boardToPortableBoardCrdt
     (sample_lanes [sample_object ''a'' ''new'' 5, sample_object ''b'' ''B'' 3] [] []) ''R'' (Some replica_P)"

definition replica_S :: portable_crdt where
  "replica_S = boardToPortableBoardCrdt
     (sample_lanes [sample_object ''b'' ''B'' 3] [sample_object ''a'' ''A'' 4] []) ''S'' (Some replica_P)"

definition sample_history :: history where
  "sample_history = \<lparr>
     h_field = (\<lambda>k f s. if f = ''title'' then JStr (if k = ''b'' then ''B'' else if replicaId s = ''R'' then ''new'' else ''A'')
       else if f = ''createdAt'' then JNum (Fin 1) else if f = ''updatedAt'' then JNum (stamp_counter s)
       else JStr (if replicaId s = ''S'' then ''completed'' else ''backlog'')),
     h_deleted = (\<lambda>k s. False), h_ends = (\<lambda>k. (''b'', ''a'')), h_present = (\<lambda>k s. True),
     h_stream = (\<lambda>k s. []), h_satisfied = (\<lambda>k s. undefined)\<rparr>"

lemma sample_replicas_ok:
  "replica_ok sample_history replica_P" "replica_ok sample_history replica_R" "replica_ok sample_history replica_S"
  unfolding replica_ok_def by code_simp+

section \<open>Merging\<close>

text \<open>
  C14. Convergence: replicas merged into a board in any order, any number of times, show the same
  cards with the same fields in the same lanes and the same edges, provided each stamp names one
  write and no counter is \<^verbatim>\<open>NaN\<close>.
\<close>

theorem merge_converges:
  assumes "replica_ok h s" "list_all (replica_ok h) xs" "list_all (replica_ok h) ys" "set xs = set ys" "distinct order"
  shows "lane_shows (portableBoardCrdtToBoard order lc (merge_all s xs)) c
      = lane_shows (portableBoardCrdtToBoard order lc (merge_all s ys)) c
    \<and> edges_shown (portableBoardCrdtToBoard order lc (merge_all s xs))
      = edges_shown (portableBoardCrdtToBoard order lc (merge_all s ys))"
proof -
  have ok: "ids_ok (merge_all s zs)" if "list_all (replica_ok h) zs" for zs
    using that assms(1) replica_ids_ok by (intro ids_ok_merge_all) (auto simp: list_all_iff)
  show ?thesis
    unfolding lane_shows_says[OF ok[OF assms(2)] assms(5)] lane_shows_says[OF ok[OF assms(3)] assms(5)]
      edges_shown_says[OF ok[OF assms(2)]] edges_shown_says[OF ok[OF assms(3)]]
      merge_all_converges[OF assms(1-4)] by simp
qed

theorem merge_converges_witness:
  "lane_shows (portableBoardCrdtToBoard default_column_order code_unit_compare (merge_all replica_P [replica_R, replica_S])) CompletedLane
     = lane_shows (portableBoardCrdtToBoard default_column_order code_unit_compare (merge_all replica_P [replica_S, replica_R, replica_S])) CompletedLane
   \<and> map (\<lambda>o'. obj_str o' ''title'') (pc_cards (pb_columns
       (portableBoardCrdtToBoard default_column_order code_unit_compare (merge_all replica_P [replica_R, replica_S])) ! 5)) = [''new'']"
proof
  have h: "list_all (replica_ok sample_history) [replica_R, replica_S]" "list_all (replica_ok sample_history) [replica_S, replica_R, replica_S]"
    "set [replica_R, replica_S] = set [replica_S, replica_R, replica_S]" "distinct default_column_order"
    using sample_replicas_ok by (auto simp: default_column_order_def)
  show "lane_shows (portableBoardCrdtToBoard default_column_order code_unit_compare (merge_all replica_P [replica_R, replica_S])) CompletedLane
     = lane_shows (portableBoardCrdtToBoard default_column_order code_unit_compare (merge_all replica_P [replica_S, replica_R, replica_S])) CompletedLane"
    using merge_converges[OF sample_replicas_ok(1) h] by blast
qed code_simp

text \<open>
  Two writes with one stamp do not converge: a replica that changes a field without advancing
  the card's time stamp makes the merge depend on the order of its arguments.
\<close>

theorem equal_stamps_diverge:
  "(let a = boardToPortableBoardCrdt (sample_lanes [sample_object ''a'' ''A'' 3] [] []) ''P'' None;
        b = boardToPortableBoardCrdt (sample_lanes [sample_object ''a'' ''B'' 3] [] []) ''P'' None;
        title = (\<lambda>m. map (\<lambda>o'. obj_str o' ''title'') (pc_cards (pb_columns (portableBoardCrdtToBoard default_column_order code_unit_compare m) ! 0)))
    in title (mergePortableBoardCrdt a b) = [''A''] \<and> title (mergePortableBoardCrdt b a) = [''B''])"
  by code_simp

section \<open>Tombstones\<close>

text \<open>
  C15. A deletion lasts: after a card is marked deleted, merging with a replica whose own deletion
  register for that card is older than the deletion's clock, or than anything the deleting replica had
  seen, shows the card in no lane, in either order of the merge.
\<close>

theorem deleted_card_stays_deleted:
  assumes "ids_ok m" "ids_ok other" "plain_fields m" "plain_fields other" "map_of (crdt_cards m) i \<noteq> None"
    and "list_all js_isFinite (card_counters (crdt_cards m))" "js_isFinite now" "distinct order"
    and "case map_of (crdt_cards other) i of None \<Rightarrow> True
      | Some d \<Rightarrow> js_lt (stamp_counter (reg_stamp (cc_deleted d))) now
          \<or> list_ex (\<lambda>x. js_le (stamp_counter (reg_stamp (cc_deleted d))) x) (card_counters (crdt_cards m))"
  shows "list_all (\<lambda>merged. \<not> (\<exists>o' \<in> lane_shows (portableBoardCrdtToBoard order lc merged) c. o' ''id'' = Some (JStr i)))
    [mergePortableBoardCrdt (markCardDeleted m i r now) other, mergePortableBoardCrdt other (markCardDeleted m i r now)]"
proof -
  let ?m = "markCardDeleted m i r now"
  have older: "opt_ok (\<lambda>d. js_lt (stamp_counter (reg_stamp (cc_deleted d))) now
      \<or> list_ex (\<lambda>x. js_le (stamp_counter (reg_stamp (cc_deleted d))) x) (card_counters (crdt_cards m))) (map_of (crdt_cards other) i)"
    using assms(9) by (simp split: option.splits)
  have ids: "ids_ok ?m" using markCardDeleted_ids_ok[OF assms(1)] .
  have k: "keys_ok ?m" "keys_ok other" using ids assms(2) by (auto simp: ids_ok_def)
  have "\<not> (\<exists>o' \<in> lane_shows (portableBoardCrdtToBoard order lc x) c. o' ''id'' = Some (JStr i))"
    if x: "x = mergePortableBoardCrdt ?m other \<or> x = mergePortableBoardCrdt other ?m" for x
  proof -
    have o: "ids_ok x" using x ids assms(2) by (auto intro: ids_ok_merge)
    have plain: "plain_says (says x)"
      using x k plain_merge plain_mark[OF plain_fields_says[OF assms(3)]] plain_fields_says[OF assms(4)] by auto
    have "shown_object k v ''id'' = Some (JStr k)" if "fst (says x) k = Some v" for k v
      using plain[unfolded plain_says_def, rule_format, of k] that by (simp add: shown_object_def column_field_def)
    then show ?thesis unfolding lane_shows_says[OF o assms(8)]
      using tombstone_wins[OF assms(1,2,5,6,7) older x] by auto
  qed
  from this[OF disjI1[OF refl]] this[OF disjI2[OF refl]] show ?thesis by simp
qed

theorem deleted_card_stays_deleted_witness:
  "list_all (\<lambda>merged. \<not> (\<exists>o' \<in> lane_shows (portableBoardCrdtToBoard default_column_order code_unit_compare merged) Backlog.
       o' ''id'' = Some (JStr ''a'')))
     [mergePortableBoardCrdt (markCardDeleted replica_P ''a'' ''P'' (Fin 9)) replica_R,
      mergePortableBoardCrdt replica_R (markCardDeleted replica_P ''a'' ''P'' (Fin 9))]"
proof -
  have h: "ids_ok replica_P" "ids_ok replica_R" using sample_replicas_ok replica_ids_ok by auto
  have g: "plain_fields replica_P" "plain_fields replica_R" "map_of (crdt_cards replica_P) ''a'' \<noteq> None"
    "list_all js_isFinite (card_counters (crdt_cards replica_P))" "js_isFinite (Fin 9)" "distinct default_column_order"
    "case map_of (crdt_cards replica_R) ''a'' of None \<Rightarrow> True
      | Some d \<Rightarrow> js_lt (stamp_counter (reg_stamp (cc_deleted d))) (Fin 9)
          \<or> list_ex (\<lambda>x. js_le (stamp_counter (reg_stamp (cc_deleted d))) x) (card_counters (crdt_cards replica_P))"
    by code_simp+
  show ?thesis by (rule deleted_card_stays_deleted[OF h g])
qed

section \<open>Export\<close>

definition edge_keys_ok :: "portable_crdt \<Rightarrow> bool" where
  "edge_keys_ok m \<longleftrightarrow> list_all (\<lambda>(k, d). dependencyKey (cd_from d) (cd_to d) = k) (crdt_dependencies m)"

lemma edge_keys_merge:
  assumes "edge_keys_ok a" "edge_keys_ok b" "ids_ok a" "ids_ok b"
  shows "map_of (crdt_dependencies (mergePortableBoardCrdt a b)) k = Some d \<Longrightarrow> dependencyKey (cd_from d) (cd_to d) = k"
  using assms
  by (cases "map_of (crdt_dependencies a) k"; cases "map_of (crdt_dependencies b) k")
    (auto simp: mergePortableBoardCrdt_def merge_records_lookup ids_ok_def keys_ok_def edge_keys_ok_def list_all_iff
      mergeDependency_def dest!: map_of_SomeD)

lemma board_edge_keys: "edge_keys_ok (boardToPortableBoardCrdt b r prior)"
proof -
  let ?c = "boardToPortableBoardCrdt b r prior"
  have "dependencyKey (cd_from d) (cd_to d) = k" if "(k, d) \<in> set (crdt_dependencies ?c)" for k d
  proof -
    have "map_of (crdt_dependencies ?c) k = Some d" using that by (simp add: boardToPortableBoardCrdt_def)
    then show ?thesis by (auto simp: boardToPortableBoardCrdt_def map_of_omap_of dest!: map_of_SomeD)
  qed
  then show ?thesis by (auto simp: edge_keys_ok_def list_all_iff)
qed

text \<open>The cards and edges that folding a local replica into the committed one leaves showing.\<close>

lemma fold_in_local_shows:
  fixes r :: string and clock :: "nat \<Rightarrow> jsnum"
  assumes c: "ids_ok c" "edge_keys_ok c" and l: "ids_ok l" "edge_keys_ok l" "crdt_cards l \<noteq> []"
  defines "m \<equiv> fold_in_local c l r clock"
  shows "ids_ok m" and "plain_fields c \<Longrightarrow> plain_fields l \<Longrightarrow> plain_says (says m)"
    and "fst (says m) i = Some v \<Longrightarrow> \<not> reg_value (snd v) \<Longrightarrow> i \<in> set (map fst (crdt_cards l))"
    and "fst (snd (says m)) k = Some e \<Longrightarrow> reg_value (fst (snd e)) \<Longrightarrow>
      dependencyKey (fst (fst e)) (snd (fst e)) = k
      \<and> k \<in> set (map fst (crdt_dependencies l)) \<union> set (map fst (record_or_empty (crdt_satisfied l)))"
proof -
  let ?ids = "set (map fst (crdt_cards l))" and ?keys = "set (map fst (crdt_dependencies l)) \<union> set (map fst (record_or_empty (crdt_satisfied l)))"
  let ?a = "mergePortableBoardCrdt c l"
  let ?b = "fst (bury_cards ?ids r clock 0 (map fst (crdt_cards c)) ?a)"
  have m: "\<exists>n. m = bury_edges ?keys r clock n (map snd (crdt_dependencies c)) ?b"
    using l(3) unfolding m_def fold_in_local_def Let_def by (auto simp: case_prod_beta)
  then obtain n where n: "m = bury_edges ?keys r clock n (map snd (crdt_dependencies c)) ?b" ..
  have a: "ids_ok ?a" using c l by (intro ids_ok_merge)
  note bc = bury_cards_facts[OF a, where loc = ?ids and r = r and clock = clock and n = 0 and js = "map fst (crdt_cards c)"]
  note be = bury_edges_facts[OF bc(1), where loc = ?keys and r = r and clock = clock and n = n and ds = "map snd (crdt_dependencies c)", folded n]
  show "ids_ok m" by (rule be(1))
  show "plain_says (says m)" if "plain_fields c" "plain_fields l"
  proof -
    have "plain_says (says ?a)" using plain_merge plain_fields_says that l(1) by (simp add: ids_ok_def)
    then have "plain_says (says ?b)" by (rule bury_plain)
    then show ?thesis using be(2) by (simp add: plain_says_def says_def)
  qed
  show "i \<in> ?ids" if v: "fst (says m) i = Some v" "\<not> reg_value (snd v)"
  proof (rule ccontr)
    assume no: "i \<notin> ?ids"
    obtain d where d: "map_of (crdt_cards ?b) i = Some d" "\<not> reg_value (cc_deleted d)"
      using v be(2) by (auto simp: says_def card_says_def)
    then have alive: "\<not> dead_card ?b i" by (simp add: dead_card_def)
    then have "i \<notin> set (map fst (crdt_cards c))" using bc(3) no by (auto simp: list_all_iff)
    then have "map_of (crdt_cards c) i = None" "map_of (crdt_cards l) i = None" using no by (auto simp: map_of_eq_None_iff)
    then have "map_of (crdt_cards ?a) i = None"
      using l(1) by (simp add: mergePortableBoardCrdt_def merge_records_lookup ids_ok_def keys_ok_def)
    then have "dead_card ?a i" by (simp add: dead_card_def)
    then show False using bc(4) alive by blast
  qed
  show "dependencyKey (fst (fst e)) (snd (fst e)) = k \<and> k \<in> ?keys"
    if e: "fst (snd (says m)) k = Some e" "reg_value (fst (snd e))"
  proof -
    obtain d where d: "map_of (crdt_dependencies m) k = Some d" "e = edge_says d" using e(1) by (auto simp: says_def)
    have "map_option (\<lambda>d. (cd_from d, cd_to d)) (map_of (crdt_dependencies ?a) k) = Some (cd_from d, cd_to d)"
      using be(5)[of k] d bc(2) by simp
    then obtain d0 where d0: "map_of (crdt_dependencies ?a) k = Some d0" "cd_from d0 = cd_from d" "cd_to d0 = cd_to d" by auto
    have key: "dependencyKey (cd_from d) (cd_to d) = k" using edge_keys_merge[OF c(2) l(2) c(1) l(1) d0(1)] d0 by simp
    have alive: "\<not> dead_edge m k" using d e(2) by (simp add: dead_edge_def edge_says_def)
    have "k \<in> ?keys"
    proof (rule ccontr)
      assume no: "k \<notin> ?keys"
      have "map_of (crdt_dependencies l) k = None" using no by (auto simp: map_of_eq_None_iff)
      then have "map_of (crdt_dependencies c) k = Some d0"
        using d0(1) l(1) by (simp add: mergePortableBoardCrdt_def merge_records_lookup ids_ok_def keys_ok_def)
      then have "(k, d0) \<in> set (crdt_dependencies c)" by (rule map_of_SomeD)
      then have "d0 \<in> set (map snd (crdt_dependencies c))" by force
      then have "dependencyKey (cd_from d0) (cd_to d0) \<in> ?keys \<or> dead_edge m (dependencyKey (cd_from d0) (cd_to d0))"
        using be(3) unfolding list_all_iff by blast
      then have "dead_edge m k" using no key d0(2,3) by auto
      then show False using alive by simp
    qed
    then show ?thesis using key d(2) by (simp add: edge_says_def)
  qed
qed


lemma board_plain: "plain_fields (boardToPortableBoardCrdt b r prior)"
proof -
  let ?c = "boardToPortableBoardCrdt b r prior"
  have nid: "''id'' \<notin> fst ` set (fold (\<lambda>(k, v). if k = ''id'' then id else omap_set k (g k v)) es m)"
    if "''id'' \<notin> fst ` set m" for g :: "string \<Rightarrow> jsval \<Rightarrow> jsval register" and es m
    using that
  proof (induction es arbitrary: m)
    case Nil
    then show ?case by simp
  next
    case (Cons e es)
    then show ?case by (cases e) auto
  qed
  have "''id'' \<notin> set (map fst (cc_fields d))" if "(k, d) \<in> set (crdt_cards ?c)" for k d
  proof -
    have "map_of (crdt_cards ?c) k = Some d" using that by (simp add: boardToPortableBoardCrdt_def)
    then obtain col crd where d: "d = card_register (prior_fields prior k) r col crd" using board_card by blast
    show ?thesis unfolding d card_register_def Let_def crdt_card.select_convs set_map
      by (rule nid) (simp add: column_field_def)
  qed
  then show ?thesis by (auto simp: plain_fields_def list_all_iff)
qed

text \<open>
  C16. The export is authoritative on removals: folding a board that has cards into the committed
  state shows no card that the local board does not have, and no edge that it neither has nor has
  retired.
\<close>

theorem export_shows_local_only:
  assumes "migratePortableBoardCrdt raw [] = Some c" "ids_ok c" "edge_keys_ok c" "plain_fields c"
    and "crdt_cards (boardToPortableBoardCrdt b r (Some c)) \<noteq> []"
    and "exportLocalBoardToPortableCrdt (Parsed raw) b r clock lc = Some (m, shown)"
  shows "(\<lambda>o'. o' ''id'') ` lane_shows shown lane
      \<subseteq> (\<lambda>i. Some (JStr i)) ` fst ` set (crdt_cards (boardToPortableBoardCrdt b r (Some c)))
    \<and> edges_shown shown \<subseteq> {(f, t). dependencyKey f t \<in> fst ` set (crdt_dependencies (boardToPortableBoardCrdt b r (Some c)))
        \<union> fst ` set (record_or_empty (crdt_satisfied (boardToPortableBoardCrdt b r (Some c))))}"
proof -
  let ?l = "boardToPortableBoardCrdt b r (Some c)"
  have m: "m = fold_in_local c ?l r clock" "shown = portableBoardCrdtToBoard default_column_order lc m"
    using assms(1,6) by (auto simp: exportLocalBoardToPortableCrdt_def readCommittedState_def Let_def)
  note f = fold_in_local_shows[OF assms(2,3) board_ids_ok board_edge_keys assms(5), where r = r and clock = clock, folded m(1)]
  have plain: "plain_says (says m)" by (rule f(2)[OF assms(4) board_plain])
  have "shown_object k v ''id'' = Some (JStr k)" if "fst (says m) k = Some v" for k v
    using plain[unfolded plain_says_def, rule_format, of k] that by (simp add: shown_object_def column_field_def)
  moreover have "distinct default_column_order" by (simp add: default_column_order_def)
  ultimately have "(\<lambda>o'. o' ''id'') ` lane_shows shown lane \<subseteq> (\<lambda>i. Some (JStr i)) ` fst ` set (crdt_cards ?l)"
    unfolding m(2) lane_shows_says[OF f(1) \<open>distinct default_column_order\<close>] using f(3) by fastforce
  moreover have "edges_shown shown \<subseteq> {(f, t). dependencyKey f t \<in> fst ` set (crdt_dependencies ?l)
        \<union> fst ` set (record_or_empty (crdt_satisfied ?l))}"
    unfolding m(2) edges_shown_says[OF f(1)] using f(4) by fastforce
  ultimately show ?thesis ..
qed

definition committed_P :: raw_crdt where
  "committed_P = \<lparr>raw_version = Some (Fin 1), raw_cards = Some (crdt_cards replica_P),
     raw_dependencies = Some (crdt_dependencies replica_P), raw_streams = None, raw_satisfied = None\<rparr>"

definition only_a :: portable_board where
  "only_a = sample_lanes [] [sample_object ''a'' ''A'' 4] []"

text \<open>The committed card \<^verbatim>\<open>b\<close>, which the local board has deleted, is not shown again.\<close>

theorem export_shows_local_only_witness:
  "(case exportLocalBoardToPortableCrdt (Parsed (Some committed_P)) only_a ''S'' (\<lambda>n. Fin 8) code_unit_compare of
      None \<Rightarrow> False
    | Some (m, shown) \<Rightarrow> (\<lambda>o'. o' ''id'') ` lane_shows shown Backlog \<subseteq> {Some (JStr ''a'')} \<and> edges_shown shown = {})"
proof -
  have P: "migratePortableBoardCrdt (Some committed_P) [] = Some replica_P" by code_simp
  have h: "ids_ok replica_P" using sample_replicas_ok replica_ids_ok by auto
  have g: "edge_keys_ok replica_P" "plain_fields replica_P" "crdt_cards (boardToPortableBoardCrdt only_a ''S'' (Some replica_P)) \<noteq> []"
    "map fst (crdt_cards (boardToPortableBoardCrdt only_a ''S'' (Some replica_P))) = [''a'']"
    "crdt_dependencies (boardToPortableBoardCrdt only_a ''S'' (Some replica_P)) = []"
    "crdt_satisfied (boardToPortableBoardCrdt only_a ''S'' (Some replica_P)) = None" by code_simp+
  obtain m shown where e: "exportLocalBoardToPortableCrdt (Parsed (Some committed_P)) only_a ''S'' (\<lambda>n. Fin 8) code_unit_compare = Some (m, shown)"
    using P by (auto simp: exportLocalBoardToPortableCrdt_def readCommittedState_def Let_def)
  have ids: "fst ` set (crdt_cards (boardToPortableBoardCrdt only_a ''S'' (Some replica_P))) = {''a''}"
    using g(4) by (metis list.set_map list.set(1) list.set(2))
  show ?thesis using export_shows_local_only[OF P h g(1,2,3) e, of Backlog] ids g(5,6) e
    by (simp add: record_or_empty_def)
qed

section \<open>Round trip and refusal\<close>

definition board_objects :: "portable_board \<Rightarrow> (column_id \<times> obj) list" where
  "board_objects b = [(pc_id col, o'). col \<leftarrow> pb_columns b, o' \<leftarrow> pc_cards col]"

definition objects_ok :: "portable_board \<Rightarrow> bool" where
  "objects_ok b \<longleftrightarrow> distinct (map (\<lambda>(c, o'). obj_str o' ''id'') (board_objects b))
     \<and> list_all (\<lambda>(c, o'). distinct (map fst o') \<and> map_of o' ''id'' = Some (JStr (obj_str o' ''id''))
          \<and> map_of o' column_field = None) (board_objects b)
     \<and> distinct (map (\<lambda>d. dependencyKey (fromTaskId d) (toTaskId d)) (pb_dependencies b))
     \<and> list_all (\<lambda>d. {fromTaskId d, toTaskId d} \<subseteq> (\<lambda>(c, o'). obj_str o' ''id'') ` set (board_objects b)) (pb_dependencies b)"

lemma card_register_shows:
  assumes "distinct (map fst crd)" "map_of crd ''id'' = Some (JStr i)" "map_of crd column_field = None"
  shows "shown_object i (card_says (card_register [] r col crd)) = map_of crd"
    and "shown_lane default_column_order (card_says (card_register [] r col crd)) = Some col"
    and "reg_value (snd (card_says (card_register [] r col crd))) = False"
proof -
  let ?s = "\<lparr>stamp_counter = obj_num crd ''updatedAt'', replicaId = r\<rparr>"
  have f: "fst (card_says (card_register [] r col crd)) k = (case (if k = ''id'' then None else map_of crd k) of
      Some v \<Rightarrow> Some \<lparr>reg_value = v, reg_stamp = ?s\<rparr>
    | None \<Rightarrow> if k = column_field then Some \<lparr>reg_value = JStr (column_name col), reg_stamp = ?s\<rparr> else None)" for k
    by (simp add: card_says_def card_register_def Let_def fold_fields_lookup[OF assms(1)] fieldRegisterFor_def
        split: option.split)
  show "shown_object i (card_says (card_register [] r col crd)) = map_of crd"
  proof
    fix k
    show "shown_object i (card_says (card_register [] r col crd)) k = map_of crd k"
      using assms(2,3) by (cases "map_of crd k") (auto simp: shown_object_def f column_field_def)
  qed
  show "shown_lane default_column_order (card_says (card_register [] r col crd)) = Some col"
  proof -
    have "fst (card_says (card_register [] r col crd)) column_field = Some \<lparr>reg_value = JStr (column_name col), reg_stamp = ?s\<rparr>"
      unfolding f using assms(3) by simp
    then show ?thesis by (cases col) (simp_all add: shown_lane_def bucket_for_def default_column_order_def)
  qed
  show "reg_value (snd (card_says (card_register [] r col crd))) = False"
    by (simp add: card_says_def card_register_def Let_def)
qed

lemma board_crdt_cards:
  assumes "objects_ok b"
  shows "crdt_cards (boardToPortableBoardCrdt b r None)
    = map (\<lambda>(c, o'). (obj_str o' ''id'', card_register [] r c o')) (board_objects b)"
proof -
  have e: "[(obj_str crd ''id'', card_register (prior_fields None (obj_str crd ''id'')) r (pc_id col) crd). col \<leftarrow> pb_columns b, crd \<leftarrow> pc_cards col]
      = map (\<lambda>(c, o'). (obj_str o' ''id'', card_register [] r c o')) (board_objects b)"
    by (simp add: board_objects_def map_concat comp_def prior_fields_def)
  have "distinct (map fst (map (\<lambda>(c, o'). (obj_str o' ''id'', card_register [] r c o')) (board_objects b)))"
    using assms by (simp add: objects_ok_def comp_def case_prod_beta')
  then show ?thesis unfolding boardToPortableBoardCrdt_def portable_crdt.select_convs e by (rule omap_of_distinct)
qed

lemma lane_shows_objects: "lane_shows b c = {map_of o' | o'. (c, o') \<in> set (board_objects b)}"
  by (force simp: lane_shows_def board_objects_def)

lemma objects_okD:
  assumes "objects_ok b" "(c, o') \<in> set (board_objects b)"
  shows "distinct (map fst o')" "map_of o' ''id'' = Some (JStr (obj_str o' ''id''))" "map_of o' column_field = None"
  using assms by (auto simp: objects_ok_def list_all_iff)

lemma board_says_cards:
  assumes "objects_ok b"
  shows "fst (says (boardToPortableBoardCrdt b r None)) k = Some v
    \<longleftrightarrow> (\<exists>c o'. (c, o') \<in> set (board_objects b) \<and> k = obj_str o' ''id'' \<and> v = card_says (card_register [] r c o'))"
proof -
  let ?m = "boardToPortableBoardCrdt b r None"
  have "distinct (map fst (crdt_cards ?m))" using board_ids_ok[of b r None] by (simp add: ids_ok_def keys_ok_def)
  then have "map_of (crdt_cards ?m) k = Some d \<longleftrightarrow> (k, d) \<in> set (crdt_cards ?m)" for d by simp
  then have "fst (says ?m) k = Some v \<longleftrightarrow> (\<exists>d. (k, d) \<in> set (crdt_cards ?m) \<and> v = card_says d)" by (auto simp: says_def)
  then show ?thesis unfolding board_crdt_cards[OF assms] by force
qed

lemma roundtrip_lanes:
  assumes "objects_ok b"
  shows "lane_shows (portableBoardCrdtToBoard default_column_order lc (boardToPortableBoardCrdt b r None)) c = lane_shows b c"
proof -
  let ?m = "boardToPortableBoardCrdt b r None" and ?id = "\<lambda>o'. obj_str o' ''id''"
  note cards = board_says_cards[OF assms, of r] and obj = objects_okD[OF assms]
  have d: "distinct default_column_order" "c \<in> set default_column_order" by (cases c; simp add: default_column_order_def)+
  show "lane_shows (portableBoardCrdtToBoard default_column_order lc ?m) c = lane_shows b c"
    unfolding lane_shows_says[OF board_ids_ok d(1)] lane_shows_objects[of b]
  proof (rule set_eqI)
    fix x
    have "x \<in> {shown_object k v |k v. fst (says ?m) k = Some v \<and> \<not> reg_value (snd v)
        \<and> shown_lane default_column_order v = Some c \<and> c \<in> set default_column_order}
      \<longleftrightarrow> (\<exists>c' o'. (c', o') \<in> set (board_objects b) \<and> (\<not> reg_value (snd (card_says (card_register [] r c' o')))
        \<and> shown_lane default_column_order (card_says (card_register [] r c' o')) = Some c
        \<and> x = shown_object (?id o') (card_says (card_register [] r c' o'))))"
      unfolding mem_Collect_eq cards using d(2) by blast
    also have "\<dots> \<longleftrightarrow> (\<exists>c' o'. (c', o') \<in> set (board_objects b) \<and> (c' = c \<and> x = map_of o'))"
    proof (rule ex_cong1, rule ex_cong1, rule conj_cong[OF refl])
      fix c' o' assume "(c', o') \<in> set (board_objects b)"
      note crs = card_register_shows[OF obj[OF this], of r c']
      show "(\<not> reg_value (snd (card_says (card_register [] r c' o')))
        \<and> shown_lane default_column_order (card_says (card_register [] r c' o')) = Some c
        \<and> x = shown_object (?id o') (card_says (card_register [] r c' o'))) = (c' = c \<and> x = map_of o')"
        unfolding crs by simp
    qed
    finally show "x \<in> {shown_object k v |k v. fst (says ?m) k = Some v \<and> \<not> reg_value (snd v)
        \<and> shown_lane default_column_order v = Some c \<and> c \<in> set default_column_order}
      \<longleftrightarrow> x \<in> {map_of o' |o'. (c, o') \<in> set (board_objects b)}" by auto
  qed
qed

lemma roundtrip_edges:
  assumes "objects_ok b"
  shows "edges_shown (portableBoardCrdtToBoard default_column_order lc (boardToPortableBoardCrdt b r None)) = edges_shown b"
proof -
  let ?m = "boardToPortableBoardCrdt b r None" and ?id = "\<lambda>o'. obj_str o' ''id''"
  note cards = board_says_cards[OF assms, of r] and obj = objects_okD[OF assms]
  show "edges_shown (portableBoardCrdtToBoard default_column_order lc ?m) = edges_shown b"
  proof -
    have on: "(\<exists>v. fst (says ?m) i = Some v \<and> \<not> reg_value (snd v)) \<longleftrightarrow> i \<in> (\<lambda>(c, o'). ?id o') ` set (board_objects b)" for i
    proof -
      have nd: "\<not> reg_value (snd (card_says (card_register [] r c o')))" if "(c, o') \<in> set (board_objects b)" for c o'
        using card_register_shows(3)[OF obj[OF that]] by simp
      have "(\<exists>v. fst (says ?m) i = Some v \<and> \<not> reg_value (snd v)) \<longleftrightarrow> (\<exists>c o'. (c, o') \<in> set (board_objects b) \<and> i = ?id o')"
        unfolding cards using nd by blast
      then show ?thesis by force
    qed
    have "crdt_dependencies ?m = map (\<lambda>d. (dependencyKey (fromTaskId d) (toTaskId d),
        \<lparr>cd_from = fromTaskId d, cd_to = toTaskId d,
         cd_present = \<lparr>reg_value = True, reg_stamp = \<lparr>stamp_counter = dep_createdAt d, replicaId = r\<rparr>\<rparr>,
         cd_createdAt = dep_createdAt d\<rparr>)) (pb_dependencies b)"
      using assms by (simp add: boardToPortableBoardCrdt_def objects_ok_def comp_def)
    moreover have "distinct (map fst (crdt_dependencies ?m))" using board_ids_ok[of b r None] by (simp add: ids_ok_def keys_ok_def)
    ultimately have deps: "fst (snd (says ?m)) k = Some e \<longleftrightarrow> (\<exists>d \<in> set (pb_dependencies b). k = dependencyKey (fromTaskId d) (toTaskId d)
        \<and> e = ((fromTaskId d, toTaskId d), \<lparr>reg_value = True, reg_stamp = \<lparr>stamp_counter = dep_createdAt d, replicaId = r\<rparr>\<rparr>, dep_createdAt d))" for k e
      by (auto simp: says_def edge_says_def image_iff)
    have ends: "fromTaskId d \<in> (\<lambda>(c, o'). ?id o') ` set (board_objects b)" "toTaskId d \<in> (\<lambda>(c, o'). ?id o') ` set (board_objects b)"
      if "d \<in> set (pb_dependencies b)" for d using that assms by (auto simp: objects_ok_def list_all_iff)
    define I where "I = (\<lambda>(c, o'). ?id o') ` set (board_objects b)"
    have ends': "fromTaskId d \<in> I" "toTaskId d \<in> I" if "d \<in> set (pb_dependencies b)" for d
      using ends[OF that] by (simp_all add: I_def)
    have "x \<in> edges_shown (portableBoardCrdtToBoard default_column_order lc ?m)
      \<longleftrightarrow> (\<exists>d \<in> set (pb_dependencies b). fromTaskId d \<in> I \<and> toTaskId d \<in> I \<and> x = (fromTaskId d, toTaskId d))" for x
      unfolding edges_shown_says[OF board_ids_ok] on deps I_def[symmetric] mem_Collect_eq by fastforce
    moreover have "x \<in> edges_shown b \<longleftrightarrow> (\<exists>d \<in> set (pb_dependencies b). x = (fromTaskId d, toTaskId d))" for x
      by (auto simp: edges_shown_def)
    ultimately show ?thesis using ends' by blast
  qed
qed

text \<open>
  C17. Round trip: a board whose cards are objects with their own ids, projected from the replicated
  form it is written in, shows in every lane the cards it had, with all their members, and the same
  edges.
\<close>

theorem portable_roundtrip:
  assumes "objects_ok b"
  shows "lane_shows (portableBoardCrdtToBoard default_column_order lc (boardToPortableBoardCrdt b r None)) c = lane_shows b c
    \<and> edges_shown (portableBoardCrdtToBoard default_column_order lc (boardToPortableBoardCrdt b r None)) = edges_shown b"
  using roundtrip_lanes[OF assms] roundtrip_edges[OF assms] by simp

definition sample_round :: portable_board where
  "sample_round = sample_lanes [sample_object ''b'' ''B'' 3] [sample_object ''a'' ''A'' 4] [sample_edge]"

theorem portable_roundtrip_witness:
  "edges_shown (portableBoardCrdtToBoard default_column_order code_unit_compare (boardToPortableBoardCrdt sample_round ''P'' None)) = {(''b'', ''a'')}
   \<and> lane_shows (portableBoardCrdtToBoard default_column_order code_unit_compare (boardToPortableBoardCrdt sample_round ''P'' None)) CompletedLane
       = {map_of (sample_object ''a'' ''A'' 4)}"
proof -
  have h: "objects_ok sample_round" by code_simp
  have "edges_shown sample_round = {(''b'', ''a'')}" "lane_shows sample_round CompletedLane = {map_of (sample_object ''a'' ''A'' 4)}"
    by (auto simp: sample_round_def sample_lanes_def edges_shown_def sample_edge_def lane_shows_objects board_objects_def)
  then show ?thesis using portable_roundtrip[OF h, where lc = code_unit_compare and r = "''P''" and c = CompletedLane] by simp
qed

text \<open>
  What the export refuses: it writes exactly when the committed file is missing or is an object
  with cards of this build's schema version; it throws when the file cannot be read, does not parse,
  or is of another version, so such a file is never overwritten.
\<close>

theorem export_refuses_foreign_files:
  "exportLocalBoardToPortableCrdt f b r clock lc \<noteq> None \<longleftrightarrow> (case f of
      Enoent \<Rightarrow> True
    | ReadError \<Rightarrow> False
    | BadJson \<Rightarrow> False
    | Parsed raw \<Rightarrow> (case raw of None \<Rightarrow> False | Some o' \<Rightarrow> raw_version o' = Some (Fin 1) \<and> raw_cards o' \<noteq> None))"
proof (cases f)
  case (Parsed raw)
  have "migratePortableBoardCrdt raw [] \<noteq> None
      \<longleftrightarrow> (case raw of None \<Rightarrow> False | Some o' \<Rightarrow> raw_version o' = Some (Fin 1) \<and> raw_cards o' \<noteq> None)"
  proof (cases raw)
    case None
    then show ?thesis by (simp add: migratePortableBoardCrdt_def)
  next
    case (Some o')
    show ?thesis
    proof (cases "raw_version o'")
      case None
      then show ?thesis using Some by (simp add: migratePortableBoardCrdt_def migrate_loop.simps)
    next
      case (Some v)
      then show ?thesis using \<open>raw = Some o'\<close> js_total[of v "Fin 1"]
        by (auto simp: migratePortableBoardCrdt_def migrate_loop.simps js_gt_def split: option.split if_split_asm)
    qed
  qed
  then show ?thesis using Parsed
    by (auto simp: exportLocalBoardToPortableCrdt_def readCommittedState_def Let_def split: option.splits)
qed (auto simp: exportLocalBoardToPortableCrdt_def readCommittedState_def Let_def)

definition retired_board :: portable_board where
  "retired_board = (sample_lanes [sample_object ''b'' ''B'' 3] [sample_object ''a'' ''A'' 4] [])
     \<lparr>pb_satisfied := Some [\<lparr>sat_id = ''e'', sat_from = ''b'', sat_to = ''a'', sat_createdAt = Fin 2,
        releasedAt = Fin 4, releasedBy = ByCompletion\<rparr>]\<rparr>"

text \<open>
  A retired edge comes back: when the local board has moved an edge to its satisfied list, the
  export leaves the committed edge present, so the exported board has the edge as a live dependency
  again, under another id, beside its record of having been satisfied.
\<close>

theorem retired_edge_comes_back:
  "(case exportLocalBoardToPortableCrdt (Parsed (Some committed_P)) retired_board ''S'' (\<lambda>n. Fin 8) code_unit_compare of
      None \<Rightarrow> False
    | Some (m, shown) \<Rightarrow> pb_dependencies retired_board = []
        \<and> map (\<lambda>d. (dep_id d, fromTaskId d, toTaskId d)) (pb_dependencies shown) = [(''b->a'', ''b'', ''a'')]
        \<and> map_option (map sat_id) (pb_satisfied shown) = Some [''e''])"
  by code_simp

end
