(* ===== verification/ToolManifest.thy ===== *)
theory ToolManifest
  imports Prelude
begin

text \<open>
  What a tool may do and what untrusted content may steer
  (\<^verbatim>\<open>src/core/tool-capability-manifest.ts\<close>, \<^verbatim>\<open>src/core/taint-labels.ts\<close>,
  \<^verbatim>\<open>src/core/manifest-influence-sink.ts\<close>, \<^verbatim>\<open>src/chat/chat-execution-mode.ts\<close>):
  the capability manifest with its defaulting accessors, the two forms of the chat's execution-mode
  gate (by action kind and by manifest), the taint labels and the sinks a manifest reaches. An
  optional field is an \<open>option\<close>. \<^verbatim>\<open>null\<close> results are \<open>None\<close>.
\<close>

section \<open>The manifest\<close>

datatype mutation_level = ReadLevel | SandboxWriteLevel | ControlPlaneLevel | HostWriteLevel

datatype network_level = NetNone | NetEgress | NetEgressRead

datatype fs_scope = WorkspaceFs | HostFs

datatype approval_tier = AutoApproval | ConfirmApproval | RiskAckApproval | TypedHostApproval

datatype taint_source = TaintNone | UntrustedContent

datatype cost_class = TrivialCost | ModerateCost | ExpensiveCost

datatype replay_policy = ReuseReplay | SimulateReplay | SkipReplay | ReconfirmReplay

text \<open>
  The sinks of \<^verbatim>\<open>taint-labels.ts\<close>; \<^verbatim>\<open>style\<close> is the one that is not protected.
\<close>

datatype influence =
    CapabilitiesSink | ApprovalsSink | NetworkSink | SecretsSink | GitDeliverySink | HostAccessSink
  | StyleInfluence

record manifest =
  mutationLevel :: mutation_level
  networkLevel :: network_level
  fsScope :: fs_scope
  approval :: approval_tier
  replayable :: bool
  taintSource :: "taint_source option"
  taintSinks :: "influence list option"
  semanticErrors :: "string list option"
  replayPolicy :: "replay_policy option"
  idempotent :: "bool option"
  cost :: "cost_class option"

definition base_manifest ::
  "mutation_level \<Rightarrow> network_level \<Rightarrow> fs_scope \<Rightarrow> approval_tier \<Rightarrow> bool \<Rightarrow> manifest" where
  "base_manifest m n f a r =
     \<lparr>mutationLevel = m, networkLevel = n, fsScope = f, approval = a, replayable = r, taintSource = None,
      taintSinks = None, semanticErrors = None, replayPolicy = None, idempotent = None, cost = None\<rparr>"

definition manifestTaintSource :: "manifest \<Rightarrow> taint_source" where
  "manifestTaintSource m = (case taintSource m of
       Some t \<Rightarrow> t
     | None \<Rightarrow> (if networkLevel m = NetEgress \<or> networkLevel m = NetEgressRead then UntrustedContent else TaintNone))"

definition manifestReplayPolicy :: "manifest \<Rightarrow> replay_policy" where
  "manifestReplayPolicy m = (case replayPolicy m of
       Some p \<Rightarrow> p | None \<Rightarrow> (if replayable m then ReconfirmReplay else ReuseReplay))"

definition manifestIdempotent :: "manifest \<Rightarrow> bool" where
  "manifestIdempotent m = (case idempotent m of Some b \<Rightarrow> b | None \<Rightarrow> mutationLevel m = ReadLevel)"

definition manifestCost :: "manifest \<Rightarrow> cost_class" where
  "manifestCost m = (case cost m of Some c \<Rightarrow> c | None \<Rightarrow> ModerateCost)"

section \<open>Chat actions\<close>

datatype execution_mode = IsolatedReadonly | SandboxWithHostEscape | HostMode

datatype action_kind =
    SandboxRead | SandboxWrite | ControlPlane | EgressRead | HostRead | HostWrite | HostCommand

datatype gate_decision = Allow | Confirm | Deny

record gate_access =
  gate_decision :: gate_decision
  gate_reason :: string

fun manifestForChatAction :: "action_kind \<Rightarrow> manifest" where
  "manifestForChatAction SandboxRead = base_manifest ReadLevel NetNone WorkspaceFs AutoApproval True"
| "manifestForChatAction SandboxWrite = base_manifest SandboxWriteLevel NetNone WorkspaceFs ConfirmApproval False"
| "manifestForChatAction ControlPlane = base_manifest ControlPlaneLevel NetNone WorkspaceFs AutoApproval False"
| "manifestForChatAction EgressRead =
     (base_manifest ReadLevel NetEgressRead WorkspaceFs ConfirmApproval True)
       \<lparr>taintSource := Some UntrustedContent, cost := Some ExpensiveCost\<rparr>"
| "manifestForChatAction HostRead = base_manifest ReadLevel NetNone HostFs ConfirmApproval True"
| "manifestForChatAction HostWrite = base_manifest HostWriteLevel NetNone HostFs ConfirmApproval False"
| "manifestForChatAction HostCommand = base_manifest HostWriteLevel NetNone HostFs ConfirmApproval False"

text \<open>The wording shared by the two gates.\<close>

definition egress_denied :: gate_access where
  "egress_denied = \<lparr>gate_decision = Deny, gate_reason = ''Isolated read-only mode does not permit network egress.''\<rparr>"

definition egress_confirmed :: gate_access where
  "egress_confirmed = \<lparr>gate_decision = Confirm, gate_reason =
     ''Network egress is never automatic '' @ em_dash @ '' it requires an explicit, logged confirmation.''\<rparr>"

definition sandbox_read_allowed :: gate_access where
  "sandbox_read_allowed = \<lparr>gate_decision = Allow, gate_reason = ''Reads inside the sandbox are always allowed.''\<rparr>"

definition board_denied :: gate_access where
  "board_denied = \<lparr>gate_decision = Deny, gate_reason = ''Isolated read-only mode does not permit board mutations.''\<rparr>"

definition board_allowed :: gate_access where
  "board_allowed = \<lparr>gate_decision = Allow, gate_reason =
     ''Control-plane board mutations are allowed '' @ em_dash @ '' they only touch the !Klein-owned board, never the host.''\<rparr>"

definition isolated_write :: gate_access where
  "isolated_write = \<lparr>gate_decision = Confirm, gate_reason =
     ''Isolated read-only mode: a sandbox write needs confirmation (opt-in, user-mounted folders only).''\<rparr>"

definition host_denied :: gate_access where
  "host_denied = \<lparr>gate_decision = Deny, gate_reason = ''Isolated read-only mode does not permit host access.''\<rparr>"

definition sandbox_write_allowed :: gate_access where
  "sandbox_write_allowed = \<lparr>gate_decision = Allow, gate_reason = ''Sandbox writes are allowed in this mode.''\<rparr>"

definition host_read_allowed :: gate_access where
  "host_read_allowed = \<lparr>gate_decision = Allow, gate_reason = ''Host mode: host reads are allowed for the on-host session.''\<rparr>"

definition host_confirmed :: "bool \<Rightarrow> gate_access" where
  "host_confirmed changes = \<lparr>gate_decision = Confirm, gate_reason =
     (if changes then ''Host changes are never automatic '' @ em_dash @ '' this action requires an explicit, logged confirmation.''
      else ''Host access requires an explicit, logged confirmation.'')\<rparr>"

definition unrecognized :: gate_access where
  "unrecognized = \<lparr>gate_decision = Deny, gate_reason = ''Unrecognized action.''\<rparr>"

text \<open>\<^verbatim>\<open>decideChatActionAccess(mode, action)\<close>, the gate by action kind.\<close>

definition decideChatActionAccess :: "execution_mode \<Rightarrow> action_kind \<Rightarrow> gate_access" where
  "decideChatActionAccess mode action =
     (if action = SandboxRead then sandbox_read_allowed
      else if action = EgressRead then (if mode = IsolatedReadonly then egress_denied else egress_confirmed)
      else if action = ControlPlane then (if mode = IsolatedReadonly then board_denied else board_allowed)
      else if mode = IsolatedReadonly then (if action = SandboxWrite then isolated_write else host_denied)
      else if action = SandboxWrite then sandbox_write_allowed
      else if action \<in> {HostRead, HostWrite, HostCommand} then
        (if mode = HostMode \<and> action = HostRead then host_read_allowed
         else host_confirmed (action = HostWrite \<or> action = HostCommand))
      else unrecognized)"

text \<open>\<^verbatim>\<open>decideManifestChatAccess(manifest, mode)\<close>, the gate by manifest.\<close>

definition decideManifestChatAccess :: "manifest \<Rightarrow> execution_mode \<Rightarrow> gate_access" where
  "decideManifestChatAccess m mode =
     (let isHost = (fsScope m = HostFs) in
      if networkLevel m = NetEgress \<or> networkLevel m = NetEgressRead
      then (if mode = IsolatedReadonly then egress_denied else egress_confirmed)
      else if mutationLevel m = ReadLevel \<and> \<not> isHost then sandbox_read_allowed
      else if mutationLevel m = ControlPlaneLevel
      then (if mode = IsolatedReadonly then board_denied else board_allowed)
      else if mode = IsolatedReadonly
      then (if mutationLevel m = SandboxWriteLevel then isolated_write else host_denied)
      else if mutationLevel m = SandboxWriteLevel then sandbox_write_allowed
      else if isHost then
        (if mode = HostMode \<and> mutationLevel m = ReadLevel then host_read_allowed
         else host_confirmed (mutationLevel m = HostWriteLevel))
      else unrecognized)"


section \<open>The kanban task tools and the delivery action\<close>

definition READ_TOOL_MANIFEST :: manifest where
  "READ_TOOL_MANIFEST = base_manifest ReadLevel NetNone WorkspaceFs AutoApproval True"

definition SANDBOX_WRITE_TOOL_MANIFEST :: manifest where
  "SANDBOX_WRITE_TOOL_MANIFEST = base_manifest SandboxWriteLevel NetNone WorkspaceFs ConfirmApproval False"

definition KANBAN_TOOL_MANIFESTS :: "(string, manifest) omap" where
  "KANBAN_TOOL_MANIFESTS =
    [(''find_files'', READ_TOOL_MANIFEST\<lparr>cost := Some TrivialCost, semanticErrors := Some [''not_found'']\<rparr>),
     (''list_files'', READ_TOOL_MANIFEST\<lparr>cost := Some TrivialCost, semanticErrors := Some [''not_found'']\<rparr>),
     (''get_file_size'', READ_TOOL_MANIFEST\<lparr>cost := Some TrivialCost, semanticErrors := Some [''not_found'']\<rparr>),
     (''read_files'', READ_TOOL_MANIFEST\<lparr>semanticErrors := Some [''not_found'', ''out_of_scope'', ''too_large'']\<rparr>),
     (''read_large_file'', READ_TOOL_MANIFEST\<lparr>cost := Some ExpensiveCost,
        semanticErrors := Some [''not_found'', ''out_of_scope'']\<rparr>),
     (''write_file'', SANDBOX_WRITE_TOOL_MANIFEST\<lparr>idempotent := Some True,
        semanticErrors := Some [''out_of_scope'', ''too_large'', ''secret_detected'']\<rparr>),
     (''write_files'', SANDBOX_WRITE_TOOL_MANIFEST\<lparr>idempotent := Some True,
        semanticErrors := Some [''out_of_scope'', ''too_large'', ''secret_detected'']\<rparr>),
     (''editor'', SANDBOX_WRITE_TOOL_MANIFEST\<lparr>idempotent := Some True,
        semanticErrors := Some [''out_of_scope'', ''too_large'', ''secret_detected'']\<rparr>),
     (''apply_patch'', SANDBOX_WRITE_TOOL_MANIFEST\<lparr>idempotent := Some False,
        semanticErrors := Some [''out_of_scope'', ''patch_context_mismatch'', ''secret_detected'']\<rparr>),
     (''edit_file'', SANDBOX_WRITE_TOOL_MANIFEST\<lparr>idempotent := Some False,
        semanticErrors := Some [''out_of_scope'', ''search_not_found'', ''secret_detected'']\<rparr>)]"

definition DELIVERY_ACTION_MANIFEST :: manifest where
  "DELIVERY_ACTION_MANIFEST = (base_manifest HostWriteLevel NetNone HostFs AutoApproval False)
     \<lparr>taintSinks := Some [GitDeliverySink], idempotent := Some False, cost := Some ModerateCost\<rparr>"

definition manifestForKanbanTool :: "string \<Rightarrow> manifest option" where
  "manifestForKanbanTool name = map_of KANBAN_TOOL_MANIFESTS name"

text \<open>The static policies: the pair is \<^verbatim>\<open>enabled\<close> and \<^verbatim>\<open>autoApprove\<close>.\<close>

definition toolPoliciesFromManifests :: "(string, manifest) omap \<Rightarrow> (string, bool \<times> bool) omap" where
  "toolPoliciesFromManifests ms = fold (\<lambda>k p. omap_set k (True, False) p) (map fst ms) []"

datatype audit_detail = AuditNone | AuditSummary | AuditFull

definition auditDetailForManifest :: "manifest \<Rightarrow> audit_detail" where
  "auditDetailForManifest m =
     (if networkLevel m = NetEgress \<or> networkLevel m = NetEgressRead \<or> fsScope m = HostFs
         \<or> mutationLevel m = HostWriteLevel then AuditFull
      else if mutationLevel m = SandboxWriteLevel \<or> mutationLevel m = ControlPlaneLevel then AuditSummary
      else AuditNone)"

section \<open>Taint labels\<close>

datatype taint_label =
    RepoInstruction | WebTaint | McpTaint | PrivateRepo | SecretLike | UserTrusted | RuntimePolicy

definition TAINT_LABELS :: "taint_label list" where
  "TAINT_LABELS = [RepoInstruction, WebTaint, McpTaint, PrivateRepo, SecretLike, UserTrusted, RuntimePolicy]"

definition isUntrustedTaintLabel :: "taint_label \<Rightarrow> bool" where
  "isUntrustedTaintLabel l \<longleftrightarrow> l \<in> {RepoInstruction, WebTaint, McpTaint, PrivateRepo, SecretLike}"

datatype source_kind = WebSource | RepoSource | PrivateRepoSource | McpSource | UserSource | PolicySource

fun base_label :: "source_kind \<Rightarrow> taint_label" where
  "base_label WebSource = WebTaint"
| "base_label RepoSource = RepoInstruction"
| "base_label PrivateRepoSource = PrivateRepo"
| "base_label McpSource = McpTaint"
| "base_label UserSource = UserTrusted"
| "base_label PolicySource = RuntimePolicy"

definition labelsForSource :: "source_kind \<Rightarrow> bool option \<Rightarrow> taint_label list" where
  "labelsForSource kind looksSecretLike =
     (let b = base_label kind in
      if looksSecretLike = Some True \<and> b \<noteq> SecretLike then [b, SecretLike] else [b])"

definition propagateTaint :: "taint_label list \<Rightarrow> taint_label list \<Rightarrow> taint_label list" where
  "propagateTaint existing incoming = filter (\<lambda>l. l \<in> set existing \<union> set incoming) TAINT_LABELS"

definition isTainted :: "taint_label list \<Rightarrow> bool" where
  "isTainted labels = list_ex isUntrustedTaintLabel labels"

definition isProtectedInfluence :: "influence \<Rightarrow> bool" where
  "isProtectedInfluence k \<longleftrightarrow>
     k \<in> {CapabilitiesSink, ApprovalsSink, NetworkSink, SecretsSink, GitDeliverySink, HostAccessSink}"

definition taintedContentMayInfluence :: "taint_label list \<Rightarrow> influence \<Rightarrow> bool option \<Rightarrow> bool" where
  "taintedContentMayInfluence labels k backed =
     (if \<not> isProtectedInfluence k then True
      else if \<not> isTainted labels then True
      else backed = Some True)"

text \<open>The sinks a manifest reaches: the derived ones, then the declared ones, without repetition.\<close>

definition manifestProtectedInfluenceKinds :: "manifest \<Rightarrow> influence list" where
  "manifestProtectedInfluenceKinds m =
     filter isProtectedInfluence
       (oset_of ((if networkLevel m = NetEgress then [NetworkSink] else [])
         @ (if fsScope m = HostFs \<or> mutationLevel m = HostWriteLevel then [HostAccessSink] else [])
         @ (if approval m = TypedHostApproval \<or> approval m = RiskAckApproval then [ApprovalsSink] else [])
         @ (case taintSinks m of None \<Rightarrow> [] | Some ks \<Rightarrow> ks)))"

section \<open>Facts\<close>

lemmas gate_reasons = egress_denied_def egress_confirmed_def sandbox_read_allowed_def board_denied_def
  board_allowed_def isolated_write_def host_denied_def sandbox_write_allowed_def host_read_allowed_def
  host_confirmed_def unrecognized_def

lemmas gate_defs = decideChatActionAccess_def decideManifestChatAccess_def base_manifest_def

text \<open>The gate by manifest decides as the gate by action kind, in every mode and for every action.\<close>

lemma manifest_gate_agrees:
  "decideManifestChatAccess (manifestForChatAction action) mode = decideChatActionAccess mode action"
  by (cases action; cases mode) (simp_all add: gate_defs Let_def)

lemma set_TAINT_LABELS [simp]: "set TAINT_LABELS = UNIV"
  unfolding TAINT_LABELS_def using taint_label.exhaust by auto

lemma set_propagateTaint [simp]: "set (propagateTaint a b) = set a \<union> set b"
  by (auto simp: propagateTaint_def)

text \<open>Equal sets of labels are equal lists, so propagation is a join on canonical windows.\<close>

lemma propagateTaint_cong: "set a \<union> set b = set c \<union> set d \<Longrightarrow> propagateTaint a b = propagateTaint c d"
  by (simp add: propagateTaint_def)

lemma isTainted_iff: "isTainted labels \<longleftrightarrow> (\<exists>l \<in> set labels. isUntrustedTaintLabel l)"
  by (simp add: isTainted_def list_ex_iff)

lemma isTainted_propagate [simp]: "isTainted (propagateTaint a b) \<longleftrightarrow> isTainted a \<or> isTainted b"
  by (auto simp: isTainted_iff)

lemma protected_iff: "isProtectedInfluence k \<longleftrightarrow> k \<noteq> StyleInfluence"
  by (cases k) (auto simp: isProtectedInfluence_def)

lemma set_protected_kinds:
  "set (manifestProtectedInfluenceKinds m) =
     {k. isProtectedInfluence k \<and>
        (k = NetworkSink \<and> networkLevel m = NetEgress
         \<or> k = HostAccessSink \<and> (fsScope m = HostFs \<or> mutationLevel m = HostWriteLevel)
         \<or> k = ApprovalsSink \<and> (approval m = TypedHostApproval \<or> approval m = RiskAckApproval)
         \<or> (case taintSinks m of None \<Rightarrow> False | Some ks \<Rightarrow> k \<in> set ks))}"
  by (auto simp: manifestProtectedInfluenceKinds_def split: option.splits)

definition host_action :: "action_kind \<Rightarrow> bool" where
  "host_action a \<longleftrightarrow> a \<in> {HostRead, HostWrite, HostCommand}"

lemma chat_action_sinks:
  "manifestProtectedInfluenceKinds (manifestForChatAction a) = (if host_action a then [HostAccessSink] else [])"
  by (cases a) (simp_all add: manifestProtectedInfluenceKinds_def base_manifest_def host_action_def
      isProtectedInfluence_def oset_of_def oset_add_def)

end
