(* ===== verification/TextParts.thy ===== *)
theory TextParts
  imports RuntimeText "HOL-Library.Sublist"
begin

text \<open>
  Splitting and joining text, for the components that read hosts, paths and scopes:
  \<^verbatim>\<open>s.split(c)\<close> and \<^verbatim>\<open>parts.join(sep)\<close>, quoted text in messages, and the laws that
  relate the parts of a text to its suffixes and prefixes.
\<close>

section \<open>Splitting and joining\<close>

text \<open>\<^verbatim>\<open>s.split(c)\<close>\<close>

fun split_on :: "char \<Rightarrow> string \<Rightarrow> string list" where
  "split_on c [] = [[]]"
| "split_on c (x # s) =
     (case split_on c s of
        [] \<Rightarrow> []
      | p # ps \<Rightarrow> (if x = c then [] # p # ps else (x # p) # ps))"

lemma split_on_ne [simp]: "split_on c s \<noteq> []"
  by (induction s) (auto split: list.splits)

lemma split_on_append: "split_on c (a @ c # b) = split_on c a @ split_on c b"
proof (induction a)
  case Nil
  then show ?case by (cases "split_on c b") auto
next
  case (Cons x a)
  then show ?case by (cases "split_on c a") auto
qed

lemma split_on_none: "c \<notin> set s \<Longrightarrow> split_on c s = [s]"
  by (induction s) auto

text \<open>Joining the parts again: a string is determined by its parts.\<close>

fun join_parts :: "char \<Rightarrow> string list \<Rightarrow> string" where
  "join_parts c [] = []"
| "join_parts c [p] = p"
| "join_parts c (p # q # ps) = p @ c # join_parts c (q # ps)"

lemma join_split [simp]: "join_parts c (split_on c s) = s"
proof (induction s)
  case Nil
  then show ?case by simp
next
  case (Cons x s)
  show ?case
  proof (cases "split_on c s")
    case Nil
    then show ?thesis by simp
  next
    case parts: (Cons p ps)
    then show ?thesis using Cons.IH by (cases ps) auto
  qed
qed

lemma join_parts_append: "xs \<noteq> [] \<Longrightarrow> ys \<noteq> [] \<Longrightarrow> join_parts c (xs @ ys) = join_parts c xs @ c # join_parts c ys"
proof (induction c xs rule: join_parts.induct)
  case (2 c p)
  then show ?case by (cases ys) auto
qed auto

text \<open>The parts of a text end with the parts of another exactly when it is that text or ends with the separator and that text.\<close>

lemma parts_suffix_iff: "suffix (split_on c a) (split_on c h) \<longleftrightarrow> h = a \<or> suffix (c # a) h"
proof
  assume "suffix (split_on c a) (split_on c h)"
  then obtain zs where zs: "split_on c h = zs @ split_on c a" by (auto simp: suffix_def)
  show "h = a \<or> suffix (c # a) h"
  proof (cases "zs = []")
    case True
    then have "join_parts c (split_on c h) = join_parts c (split_on c a)" using zs by simp
    then show ?thesis by simp
  next
    case False
    then have "h = join_parts c zs @ c # a"
      using join_parts_append[of zs "split_on c a" c] zs join_split[of c h] by simp
    then show ?thesis by (auto simp: suffix_def)
  qed
next
  assume "h = a \<or> suffix (c # a) h"
  then show "suffix (split_on c a) (split_on c h)"
    by (auto simp: suffix_def split_on_append)
qed

text \<open>\<^verbatim>\<open>parts.join(sep)\<close> with a separator of any length.\<close>

fun join_with :: "string \<Rightarrow> string list \<Rightarrow> string" where
  "join_with sep [] = []"
| "join_with sep [p] = p"
| "join_with sep (p # q # ps) = p @ sep @ join_with sep (q # ps)"

definition quote_str :: "string \<Rightarrow> string" where
  "quote_str s = CHR 0x22 # s @ [CHR 0x22]"

text \<open>Two clauses with an em dash between them, as messages have them.\<close>

definition dashed :: "string \<Rightarrow> string \<Rightarrow> string" where
  "dashed a b = a @ '' '' @ em_dash @ '' '' @ b"

end
