(* ===== verification/EgressPolicy.thy ===== *)
theory EgressPolicy
  imports TextParts
begin

text \<open>
  The egress rule (\<^verbatim>\<open>src/core/egress-policy-decision.ts\<close>): whether an outbound target may be
  reached under a role's network policy and allowlist. The platform's URL parser (\<^verbatim>\<open>new URL\<close>) is the
  argument \<open>parse_url\<close>, which returns the \<^verbatim>\<open>protocol\<close> (with its colon) and the \<^verbatim>\<open>hostname\<close>, or
  nothing when it throws. The allowlist is shown to admit exactly the hosts whose labels end with the
  labels of an entry.
\<close>

section \<open>Addresses and local names\<close>

text \<open>\<^verbatim>\<open>/^\d{1,3}$/\<close>\<close>

definition octet_text :: "string \<Rightarrow> bool" where
  "octet_text p \<longleftrightarrow> 1 \<le> length p \<and> length p \<le> 3 \<and> list_all is_digit p"

definition isIpLiteral :: "string \<Rightarrow> bool" where
  "isIpLiteral host =
     (if prefix ''['' host \<and> suffix '']'' host then True
      else (let octets = split_on (CHR ''.'') host in
            if length octets \<noteq> 4 then False
            else list_all (\<lambda>p. octet_text p \<and> digits_val p \<le> 255) octets))"

text \<open>The test of \<^verbatim>\<open>isPrivateIpv4\<close> on the first two octets.\<close>

definition private_octets :: "nat \<Rightarrow> nat \<Rightarrow> bool" where
  "private_octets a b \<longleftrightarrow>
     a = 127 \<or> a = 10 \<or> a = 0
     \<or> a = 172 \<and> b \<ge> 16 \<and> b \<le> 31
     \<or> a = 192 \<and> b = 168
     \<or> a = 169 \<and> b = 254
     \<or> a = 100 \<and> b \<ge> 64 \<and> b \<le> 127"

definition isPrivateIpv4 :: "string \<Rightarrow> bool" where
  "isPrivateIpv4 host = (case split_on (CHR ''.'') host of
       a # b # _ \<Rightarrow> private_octets (digits_val a) (digits_val b)
     | _ \<Rightarrow> False)"

definition is_hex :: "char \<Rightarrow> bool" where
  "is_hex c \<longleftrightarrow> is_digit c \<or> (97 \<le> (of_char c :: nat) \<and> (of_char c :: nat) \<le> 102)"

definition hex_val :: "string \<Rightarrow> nat" where
  "hex_val s = foldl (\<lambda>v c. 16 * v + (if is_digit c then digit_val c else of_char c - 87)) 0 s"

text \<open>\<^verbatim>\<open>/[0-9a-f]{1,4}/\<close> as a whole part\<close>

definition hextet :: "string \<Rightarrow> bool" where
  "hextet p \<longleftrightarrow> 1 \<le> length p \<and> length p \<le> 4 \<and> list_all is_hex p"

text \<open>
  The two patterns for an embedded IPv4 address, on the parts of the address between its colons,
  last part first: \<^verbatim>\<open>/::ffff:hex:hex$/\<close> and \<^verbatim>\<open>/::ffff:d.d.d.d$/\<close>.
\<close>

definition mapped_private :: "string \<Rightarrow> bool" where
  "mapped_private inner = (case rev (split_on (CHR '':'') inner) of
       lo # hi # f # e # x # _ \<Rightarrow>
         (if hextet lo \<and> hextet hi \<and> f = ''ffff'' \<and> e = []
          then private_octets (hex_val hi div 256) (hex_val hi mod 256) else False)
     | _ \<Rightarrow> False)"

definition mapped_dotted_private :: "string \<Rightarrow> bool" where
  "mapped_dotted_private inner = (case rev (split_on (CHR '':'') inner) of
       d # f # e # x # _ \<Rightarrow>
         f = ''ffff'' \<and> e = [] \<and> length (split_on (CHR ''.'') d) = 4
         \<and> list_all octet_text (split_on (CHR ''.'') d) \<and> isPrivateIpv4 d
     | _ \<Rightarrow> False)"

definition isPrivateIpv6 :: "string \<Rightarrow> bool" where
  "isPrivateIpv6 host =
     (let inner = to_lower (butlast (tl host)) in
      if inner = ''::1'' \<or> inner = ''::'' then True
      else if prefix ''fe80'' inner then True
      else if prefix ''fc'' inner \<or> prefix ''fd'' inner then True
      else if mapped_private inner then True
      else mapped_dotted_private inner)"

definition isPrivateOrLanHost :: "string \<Rightarrow> bool" where
  "isPrivateOrLanHost host =
     (if prefix ''['' host \<and> suffix '']'' host then isPrivateIpv6 host
      else if isIpLiteral host then isPrivateIpv4 host
      else if host = ''localhost'' \<or> suffix ''.localhost'' host then True
      else suffix ''.local'' host \<or> suffix ''.internal'' host \<or> suffix ''.lan'' host \<or> suffix ''.home.arpa'' host)"

section \<open>The target\<close>

datatype egress_code =
    NoEgressPolicy | UnparseableTarget | UnsupportedScheme | IpLiteral | PrivateOrLanHost | NotOnAllowlist

definition is_alpha :: "char \<Rightarrow> bool" where
  "is_alpha c \<longleftrightarrow> (let n = of_char c :: nat in (65 \<le> n \<and> n \<le> 90) \<or> (97 \<le> n \<and> n \<le> 122))"

definition scheme_char :: "char \<Rightarrow> bool" where
  "scheme_char c \<longleftrightarrow> is_alpha c \<or> is_digit c \<or> c = CHR ''+'' \<or> c = CHR ''.'' \<or> c = CHR ''-''"

text \<open>What follows \<^verbatim>\<open>/^[a-z][a-z0-9+.-]*:/i\<close>, if the text starts so.\<close>

definition after_scheme :: "string \<Rightarrow> string option" where
  "after_scheme s =
     (if s \<noteq> [] \<and> is_alpha (hd s)
      then (case dropWhile scheme_char s of
              c # rest \<Rightarrow> (if c = CHR '':'' then Some rest else None)
            | [] \<Rightarrow> None)
      else None)"

definition has_line_break :: "string \<Rightarrow> bool" where
  "has_line_break s = list_ex (\<lambda>c. c = CHR 0x0A \<or> c = CHR 0x0D) s"

text \<open>\<^verbatim>\<open>/^\d+(\/.*)?$/\<close> on a text without line breaks\<close>

definition port_text :: "string \<Rightarrow> bool" where
  "port_text s \<longleftrightarrow> takeWhile is_digit s \<noteq> []
     \<and> (case dropWhile is_digit s of [] \<Rightarrow> True | c # _ \<Rightarrow> c = CHR ''/'')"

text \<open>\<^verbatim>\<open>hasScheme\<close>: the text has a scheme and is not a bare host with its port.\<close>

definition has_scheme :: "string \<Rightarrow> bool" where
  "has_scheme s = (case after_scheme s of
       None \<Rightarrow> False
     | Some rest \<Rightarrow>
         (if prefix ''//'' rest then True
          else (if has_line_break rest then False else \<not> port_text rest)))"

type_synonym url_parser = "string \<Rightarrow> (string \<times> string) option"

definition parseTargetHost :: "url_parser \<Rightarrow> string \<Rightarrow> egress_code + string" where
  "parseTargetHost parse_url target =
     (let trimmed = trim target in
      if trimmed = [] then Inl UnparseableTarget
      else (let candidate =
                  (if has_scheme trimmed then trimmed
                   else ''https://'' @ (if prefix ''//'' trimmed then drop 2 trimmed else trimmed))
            in (case parse_url candidate of
                  None \<Rightarrow> Inl UnparseableTarget
                | Some (protocol, hostname) \<Rightarrow>
                    (if protocol \<noteq> ''http:'' \<and> protocol \<noteq> ''https:'' then Inl UnsupportedScheme
                     else if hostname = [] then Inl UnparseableTarget
                     else Inr (if suffix ''.'' hostname then butlast hostname else hostname)))))"

section \<open>The allowlist\<close>

definition normalizeAllowlistEntry :: "string \<Rightarrow> string" where
  "normalizeAllowlistEntry entry =
     (let t = to_lower (trim entry);
          u = (if prefix ''.'' t then tl t else t)
      in if suffix ''.'' u then butlast u else u)"

definition hostMatchesAllowlist :: "string \<Rightarrow> string list \<Rightarrow> bool" where
  "hostMatchesAllowlist host allowlist =
     list_ex (\<lambda>raw. let apex = normalizeAllowlistEntry raw in
        if apex = [] then False else host = apex \<or> suffix (CHR ''.'' # apex) host) allowlist"

lemma allowlist_iff:
  "hostMatchesAllowlist host allowlist \<longleftrightarrow>
     (\<exists>e \<in> set allowlist. normalizeAllowlistEntry e \<noteq> []
        \<and> suffix (split_on (CHR ''.'') (normalizeAllowlistEntry e)) (split_on (CHR ''.'') host))"
  by (auto simp: hostMatchesAllowlist_def list_ex_iff Let_def parts_suffix_iff)

section \<open>The decision\<close>

datatype network_policy = NoNetwork | AllowlistNetwork | FullNetwork

definition sandboxNetworkHasEgress :: "network_policy \<Rightarrow> bool option \<Rightarrow> bool" where
  "sandboxNetworkHasEgress policy proxyAvailable =
     (if policy = FullNetwork then True
      else if policy = AllowlistNetwork then proxyAvailable = Some True
      else False)"

datatype egress_verdict = EgressAllow | EgressDeny | EgressConfirm

record egress_decision =
  eg_decision :: egress_verdict
  eg_code :: "egress_code option"
  eg_reason :: string
  eg_host :: "string option"

record egress_request =
  er_target :: string
  er_networkPolicy :: network_policy
  er_allowlist :: "string list option"
  er_perAction :: "bool option"

definition egress_refused :: "egress_code \<Rightarrow> string \<Rightarrow> string option \<Rightarrow> egress_decision" where
  "egress_refused c r h = \<lparr>eg_decision = EgressDeny, eg_code = Some c, eg_reason = r, eg_host = h\<rparr>"

definition egress_permitted :: "egress_request \<Rightarrow> string \<Rightarrow> egress_decision" where
  "egress_permitted req host =
     (if er_perAction req = Some True
      then \<lparr>eg_decision = EgressConfirm, eg_code = None, eg_reason =
             ''Egress to this public host is permitted but requires an explicit, logged per-action approval.'',
             eg_host = Some host\<rparr>
      else \<lparr>eg_decision = EgressAllow, eg_code = None, eg_reason =
             (if er_networkPolicy req = AllowlistNetwork then ''The host is on the egress allowlist.''
              else ''Egress to this public host is permitted by the role'' @ apostrophe @ ''s network policy.''),
             eg_host = Some host\<rparr>)"

definition decideEgressPolicy :: "url_parser \<Rightarrow> egress_request \<Rightarrow> egress_decision" where
  "decideEgressPolicy parse_url req =
     (if er_networkPolicy req = NoNetwork
      then egress_refused NoEgressPolicy (''The role'' @ apostrophe @ ''s network policy grants no outbound egress.'') None
      else (case parseTargetHost parse_url (er_target req) of
        Inl code \<Rightarrow>
          egress_refused code
            (if code = UnsupportedScheme then ''Only http/https targets may be reached; this scheme is refused.''
             else ''The target could not be parsed into an http/https host.'') None
      | Inr host \<Rightarrow>
          (if isIpLiteral host then
             (if isPrivateOrLanHost host
              then egress_refused PrivateOrLanHost
                (''Loopback/private/LAN IP literals are never reachable '' @ em_dash @ '' egress must not pivot inward.'')
                (Some host)
              else egress_refused IpLiteral
                ''IP-literal targets bypass DNS and the allowlist and are denied by default; use a named host.''
                (Some host))
           else if isPrivateOrLanHost host
           then egress_refused PrivateOrLanHost
             (''Loopback/private/LAN hosts are never reachable '' @ em_dash @ '' egress must not pivot inward.'')
             (Some host)
           else if er_networkPolicy req = AllowlistNetwork then
             (if \<not> hostMatchesAllowlist host (case er_allowlist req of None \<Rightarrow> [] | Some l \<Rightarrow> l)
              then egress_refused NotOnAllowlist
                ''The host is not on the egress allowlist (allowlist policy is default-deny).'' (Some host)
              else egress_permitted req host)
           else if \<not> sandboxNetworkHasEgress (er_networkPolicy req) None
           then egress_refused NoEgressPolicy
             (''The role'' @ apostrophe @ ''s network policy does not grant outbound egress to public hosts.'') (Some host)
           else egress_permitted req host)))"

section \<open>What is reached\<close>

text \<open>A host the rule may let through: named, not local, and on the allowlist when that is the policy.\<close>

definition reachable_host :: "egress_request \<Rightarrow> string \<Rightarrow> bool" where
  "reachable_host req host \<longleftrightarrow>
     \<not> isIpLiteral host \<and> \<not> isPrivateOrLanHost host
     \<and> (case er_networkPolicy req of
          NoNetwork \<Rightarrow> False
        | FullNetwork \<Rightarrow> True
        | AllowlistNetwork \<Rightarrow> (case er_allowlist req of
             None \<Rightarrow> False
           | Some l \<Rightarrow> \<exists>e \<in> set l. normalizeAllowlistEntry e \<noteq> []
               \<and> suffix (split_on (CHR ''.'') (normalizeAllowlistEntry e)) (split_on (CHR ''.'') host)))"

lemma decide_egress_cases:
  "eg_decision (decideEgressPolicy parse_url req) =
     (case parseTargetHost parse_url (er_target req) of
        Inl c \<Rightarrow> EgressDeny
      | Inr host \<Rightarrow>
          (if reachable_host req host
           then (if er_perAction req = Some True then EgressConfirm else EgressAllow)
           else EgressDeny))"
  by (cases "er_networkPolicy req"; cases "parseTargetHost parse_url (er_target req)"; cases "er_allowlist req")
     (auto simp: decideEgressPolicy_def reachable_host_def egress_refused_def egress_permitted_def
        sandboxNetworkHasEgress_def allowlist_iff)

end
