(* ===== verification/CapabilityBroker.thy ===== *)
theory CapabilityBroker
  imports ToolManifest EgressPolicy
begin

text \<open>
  The capability broker: the escalation pre-check (\<^verbatim>\<open>src/core/capability-escalation.ts\<close>), the
  broker's decision (\<^verbatim>\<open>src/core/capability-broker.ts\<close>), the adapter that builds its input
  (\<^verbatim>\<open>src/core/capability-broker-manifest-input.ts\<close>) and the gate the tool seams share
  (\<^verbatim>\<open>src/core/capability-broker-gate.ts\<close>). The broker is shown to allow an action exactly
  when no axis escalates, no protected sink is moved by tainted content without a plan, and the
  egress, if there is one, flows freely.
\<close>

section \<open>Escalation\<close>

fun mutation_rank :: "mutation_level \<Rightarrow> nat" where
  "mutation_rank ReadLevel = 0"
| "mutation_rank SandboxWriteLevel = 1"
| "mutation_rank ControlPlaneLevel = 2"
| "mutation_rank HostWriteLevel = 3"

fun network_rank :: "network_level \<Rightarrow> nat" where
  "network_rank NetNone = 0"
| "network_rank NetEgressRead = 1"
| "network_rank NetEgress = 2"

fun fs_rank :: "fs_scope \<Rightarrow> nat" where
  "fs_rank WorkspaceFs = 0"
| "fs_rank HostFs = 1"

fun approval_rank :: "approval_tier \<Rightarrow> nat" where
  "approval_rank AutoApproval = 0"
| "approval_rank ConfirmApproval = 1"
| "approval_rank RiskAckApproval = 2"
| "approval_rank TypedHostApproval = 3"

fun mutation_str :: "mutation_level \<Rightarrow> string" where
  "mutation_str ReadLevel = ''read''"
| "mutation_str SandboxWriteLevel = ''sandbox_write''"
| "mutation_str ControlPlaneLevel = ''control_plane''"
| "mutation_str HostWriteLevel = ''host_write''"

fun network_str :: "network_level \<Rightarrow> string" where
  "network_str NetNone = ''none''"
| "network_str NetEgress = ''egress''"
| "network_str NetEgressRead = ''egress_read''"

fun fs_str :: "fs_scope \<Rightarrow> string" where
  "fs_str WorkspaceFs = ''workspace''"
| "fs_str HostFs = ''host''"

fun approval_str :: "approval_tier \<Rightarrow> string" where
  "approval_str AutoApproval = ''auto''"
| "approval_str ConfirmApproval = ''confirm''"
| "approval_str RiskAckApproval = ''risk_ack''"
| "approval_str TypedHostApproval = ''typed_host''"

datatype capability_axis = MutationAxis | NetworkAxis | FsAxis | ApprovalAxis

text \<open>\<^verbatim>\<open>CAPABILITY_AXES\<close>: the axes in their reporting order, with their entries' functions.\<close>

definition CAPABILITY_AXES :: "capability_axis list" where
  "CAPABILITY_AXES = [MutationAxis, NetworkAxis, FsAxis, ApprovalAxis]"

fun axis_label :: "capability_axis \<Rightarrow> string" where
  "axis_label MutationAxis = ''mutation blast-radius''"
| "axis_label NetworkAxis = ''network reach''"
| "axis_label FsAxis = ''filesystem scope''"
| "axis_label ApprovalAxis = ''approval tier''"

fun axis_name :: "capability_axis \<Rightarrow> string" where
  "axis_name MutationAxis = ''mutationLevel''"
| "axis_name NetworkAxis = ''networkLevel''"
| "axis_name FsAxis = ''fsScope''"
| "axis_name ApprovalAxis = ''approval''"

fun axis_rank :: "capability_axis \<Rightarrow> manifest \<Rightarrow> nat" where
  "axis_rank MutationAxis m = mutation_rank (mutationLevel m)"
| "axis_rank NetworkAxis m = network_rank (networkLevel m)"
| "axis_rank FsAxis m = fs_rank (fsScope m)"
| "axis_rank ApprovalAxis m = approval_rank (approval m)"

fun axis_value :: "capability_axis \<Rightarrow> manifest \<Rightarrow> string" where
  "axis_value MutationAxis m = mutation_str (mutationLevel m)"
| "axis_value NetworkAxis m = network_str (networkLevel m)"
| "axis_value FsAxis m = fs_str (fsScope m)"
| "axis_value ApprovalAxis m = approval_str (approval m)"

fun higherIsMorePower :: "capability_axis \<Rightarrow> bool" where
  "higherIsMorePower ApprovalAxis = False"
| "higherIsMorePower _ = True"

record axis_delta =
  delta_axis :: capability_axis
  delta_escalated :: bool
  delta_baseline :: string
  delta_requested :: string
  delta_detail :: string

record escalation_result =
  esc_deny :: bool
  escalations :: "axis_delta list"
  deEscalations :: "axis_delta list"
  esc_reason :: string

text \<open>The body of the loop: nothing when the ranks agree, otherwise the difference with its direction.\<close>

definition axis_compare :: "manifest \<Rightarrow> manifest \<Rightarrow> capability_axis \<Rightarrow> axis_delta option" where
  "axis_compare baseline requested a =
     (let b = axis_rank a baseline; r = axis_rank a requested in
      if r = b then None
      else (let bv = axis_value a baseline; rv = axis_value a requested;
                escalated = (if higherIsMorePower a then r > b else r < b)
            in Some \<lparr>delta_axis = a, delta_escalated = escalated, delta_baseline = bv, delta_requested = rv,
                 delta_detail = axis_label a @ '': requested '' @ quote_str rv
                   @ (if escalated then '' exceeds the granted '' else '' is within the granted '')
                   @ quote_str bv @ ''.''\<rparr>))"

definition detectCapabilityEscalation :: "manifest \<Rightarrow> manifest \<Rightarrow> escalation_result" where
  "detectCapabilityEscalation baseline requested =
     (let deltas = List.map_filter (axis_compare baseline requested) CAPABILITY_AXES;
          up = filter delta_escalated deltas;
          down = filter (\<lambda>d. \<not> delta_escalated d) deltas
      in if up \<noteq> []
         then \<lparr>esc_deny = True, escalations = up, deEscalations = down, esc_reason =
                ''deny: request escalates beyond the tool'' @ apostrophe @ ''s granted manifest on ''
                @ nat_str (length up) @ '' axis(es) ('' @ join_with '', '' (map (axis_name \<circ> delta_axis) up) @ '').''\<rparr>
         else \<lparr>esc_deny = False, escalations = up, deEscalations = down, esc_reason =
                (if down \<noteq> []
                 then ''allow: request stays within the granted manifest ('' @ nat_str (length down)
                      @ '' axis(es) tightened).''
                 else ''allow: request matches the tool'' @ apostrophe @ ''s granted manifest exactly.'')\<rparr>)"

definition isCapabilityEscalation :: "manifest \<Rightarrow> manifest \<Rightarrow> bool" where
  "isCapabilityEscalation baseline requested = esc_deny (detectCapabilityEscalation baseline requested)"

text \<open>What a request may not do: exceed the granted power on an axis, or skip a gate.\<close>

definition within_grant :: "manifest \<Rightarrow> manifest \<Rightarrow> bool" where
  "within_grant baseline requested \<longleftrightarrow>
     mutation_rank (mutationLevel requested) \<le> mutation_rank (mutationLevel baseline)
     \<and> network_rank (networkLevel requested) \<le> network_rank (networkLevel baseline)
     \<and> fs_rank (fsScope requested) \<le> fs_rank (fsScope baseline)
     \<and> approval_rank (approval baseline) \<le> approval_rank (approval requested)"

lemma escalated_axes:
  "map delta_axis (escalations (detectCapabilityEscalation baseline requested)) =
     filter (\<lambda>a. if higherIsMorePower a then axis_rank a requested > axis_rank a baseline
                 else axis_rank a requested < axis_rank a baseline) CAPABILITY_AXES"
proof -
  have "map delta_axis (filter delta_escalated (List.map_filter (axis_compare baseline requested) as)) =
      filter (\<lambda>a. if higherIsMorePower a then axis_rank a requested > axis_rank a baseline
                 else axis_rank a requested < axis_rank a baseline) as" for as
    by (induction as) (auto simp: map_filter_simps axis_compare_def Let_def)
  moreover have "escalations (detectCapabilityEscalation baseline requested) =
      filter delta_escalated (List.map_filter (axis_compare baseline requested) CAPABILITY_AXES)"
    by (simp add: detectCapabilityEscalation_def Let_def)
  ultimately show ?thesis by simp
qed

lemma escalation_iff: "isCapabilityEscalation baseline requested \<longleftrightarrow> \<not> within_grant baseline requested"
proof -
  have "isCapabilityEscalation baseline requested
      \<longleftrightarrow> map delta_axis (escalations (detectCapabilityEscalation baseline requested)) \<noteq> []"
    by (simp add: isCapabilityEscalation_def detectCapabilityEscalation_def Let_def)
  then show ?thesis
    unfolding escalated_axes by (auto simp: CAPABILITY_AXES_def within_grant_def not_le)
qed

lemma no_self_escalation [simp]: "\<not> isCapabilityEscalation m m"
  by (simp add: escalation_iff within_grant_def)

section \<open>The broker\<close>

datatype broker_verdict = BrokerAllow | BrokerDeny | OneTimeConfirm | RequireTrustedPlan

record broker_input =
  bi_baseline :: manifest
  bi_requested :: manifest
  bi_taintLabels :: "taint_label list"
  bi_influence :: "influence option"
  bi_backed :: "bool option"
  bi_egress :: "egress_request option"

record broker_result =
  br_decision :: broker_verdict
  br_reason :: string
  br_axes :: "capability_axis list option"

fun influence_str :: "influence \<Rightarrow> string" where
  "influence_str CapabilitiesSink = ''capabilities''"
| "influence_str ApprovalsSink = ''approvals''"
| "influence_str NetworkSink = ''network''"
| "influence_str SecretsSink = ''secrets''"
| "influence_str GitDeliverySink = ''git_delivery''"
| "influence_str HostAccessSink = ''host_access''"
| "influence_str StyleInfluence = ''style''"

definition broker_says :: "broker_verdict \<Rightarrow> string \<Rightarrow> broker_result" where
  "broker_says d r = \<lparr>br_decision = d, br_reason = r, br_axes = None\<rparr>"

definition broker_allows :: broker_result where
  "broker_allows = broker_says BrokerAllow
     ''allow: request stays within its manifest, influence is permitted, and egress (if any) flows freely.''"

definition decideCapabilityAction :: "url_parser \<Rightarrow> broker_input \<Rightarrow> broker_result" where
  "decideCapabilityAction parse_url inp =
     (if isCapabilityEscalation (bi_baseline inp) (bi_requested inp)
      then (let e = detectCapabilityEscalation (bi_baseline inp) (bi_requested inp)
            in \<lparr>br_decision = BrokerDeny, br_reason = esc_reason e, br_axes = Some (map delta_axis (escalations e))\<rparr>)
      else (let k = (case bi_influence inp of None \<Rightarrow> StyleInfluence | Some k \<Rightarrow> k) in
        if \<not> taintedContentMayInfluence (bi_taintLabels inp) k (Some (bi_backed inp = Some True))
        then broker_says RequireTrustedPlan
          (''require_fresh_trusted_plan: tainted content may not move the protected '' @ quote_str (influence_str k)
           @ '' sink without a fresh trusted plan + confirmation.'')
        else (case bi_egress inp of
            None \<Rightarrow> broker_allows
          | Some req \<Rightarrow>
              (let e = decideEgressPolicy parse_url req in
               if eg_decision e = EgressDeny
               then broker_says BrokerDeny (''deny: egress refused '' @ em_dash @ '' '' @ eg_reason e)
               else if eg_decision e = EgressConfirm
               then broker_says OneTimeConfirm
                 (''one_time_confirm: egress permitted but gated '' @ em_dash @ '' '' @ eg_reason e)
               else broker_allows))))"

definition capabilityBrokerInputFromManifest ::
  "manifest \<Rightarrow> manifest \<Rightarrow> taint_label list \<Rightarrow> influence option \<Rightarrow> bool option \<Rightarrow> egress_request option \<Rightarrow> broker_input" where
  "capabilityBrokerInputFromManifest b r ls k p e =
     \<lparr>bi_baseline = b, bi_requested = r, bi_taintLabels = ls, bi_influence = k, bi_backed = p, bi_egress = e\<rparr>"

definition brokerManifestAction ::
  "url_parser \<Rightarrow> manifest \<Rightarrow> manifest \<Rightarrow> taint_label list \<Rightarrow> influence option \<Rightarrow> bool option \<Rightarrow> egress_request option
    \<Rightarrow> broker_result" where
  "brokerManifestAction parse_url b r ls k p e =
     decideCapabilityAction parse_url (capabilityBrokerInputFromManifest b r ls k p e)"

text \<open>The rule on tainted content, in the words of its contract.\<close>

definition influence_permitted :: "taint_label list \<Rightarrow> influence \<Rightarrow> bool \<Rightarrow> bool" where
  "influence_permitted labels k backed \<longleftrightarrow>
     k = StyleInfluence \<or> (\<forall>l \<in> set labels. \<not> isUntrustedTaintLabel l) \<or> backed"

lemma may_influence_iff:
  "taintedContentMayInfluence labels k (Some backed) \<longleftrightarrow> influence_permitted labels k backed"
  by (auto simp: taintedContentMayInfluence_def influence_permitted_def protected_iff isTainted_iff)

text \<open>The host the egress rule reads out of a target, if any.\<close>

definition egress_flows :: "url_parser \<Rightarrow> egress_request option \<Rightarrow> bool \<Rightarrow> bool" where
  "egress_flows parse_url e gated = (case e of
       None \<Rightarrow> \<not> gated
     | Some req \<Rightarrow> (case parseTargetHost parse_url (er_target req) of
          Inl c \<Rightarrow> False
        | Inr host \<Rightarrow> reachable_host req host \<and> (er_perAction req = Some True) = gated))"

lemma broker_decides:
  "br_decision (decideCapabilityAction parse_url inp) =
     (let k = (case bi_influence inp of None \<Rightarrow> StyleInfluence | Some k \<Rightarrow> k) in
      if \<not> within_grant (bi_baseline inp) (bi_requested inp) then BrokerDeny
      else if \<not> influence_permitted (bi_taintLabels inp) k (bi_backed inp = Some True) then RequireTrustedPlan
      else if egress_flows parse_url (bi_egress inp) True then OneTimeConfirm
      else if egress_flows parse_url (bi_egress inp) False then BrokerAllow
      else BrokerDeny)"
proof (cases "bi_egress inp")
  case None
  then show ?thesis
    by (simp add: decideCapabilityAction_def escalation_iff may_influence_iff broker_says_def broker_allows_def
        egress_flows_def Let_def)
next
  case (Some req)
  then show ?thesis
    by (cases "parseTargetHost parse_url (er_target req)")
       (auto simp: decideCapabilityAction_def escalation_iff may_influence_iff broker_says_def broker_allows_def
        egress_flows_def Let_def decide_egress_cases)
qed

section \<open>The gate\<close>

text \<open>The loop over the sinks: the first that the broker refuses decides.\<close>

fun gate_sinks ::
  "url_parser \<Rightarrow> manifest \<Rightarrow> taint_label list \<Rightarrow> bool \<Rightarrow> influence list \<Rightarrow> bool \<times> string option" where
  "gate_sinks parse_url m labels backed [] = (True, None)"
| "gate_sinks parse_url m labels backed (k # ks) =
     (let v = brokerManifestAction parse_url m m labels (Some k) (Some backed) None in
      if br_decision v \<noteq> BrokerAllow then (False, Some (br_reason v))
      else gate_sinks parse_url m labels backed ks)"

definition decideCapabilityBrokerGate ::
  "url_parser \<Rightarrow> manifest \<Rightarrow> taint_label list \<Rightarrow> bool option \<Rightarrow> bool \<times> string option" where
  "decideCapabilityBrokerGate parse_url m labels backed =
     gate_sinks parse_url m labels (case backed of None \<Rightarrow> False | Some b \<Rightarrow> b) (manifestProtectedInfluenceKinds m)"

lemma gate_sinks_iff:
  "fst (gate_sinks parse_url m labels backed ks) \<longleftrightarrow> (\<forall>k \<in> set ks. influence_permitted labels k backed)"
  by (induction ks)
     (auto simp: Let_def brokerManifestAction_def broker_decides capabilityBrokerInputFromManifest_def
        within_grant_def egress_flows_def)

text \<open>The gate lets a call pass exactly when it reaches no protected sink, nothing untrusted was read, or a plan backs it.\<close>

lemma gate_iff:
  "fst (decideCapabilityBrokerGate parse_url m labels backed) \<longleftrightarrow>
     manifestProtectedInfluenceKinds m = [] \<or> \<not> isTainted labels \<or> backed = Some True"
proof -
  have "k \<noteq> StyleInfluence" if "k \<in> set (manifestProtectedInfluenceKinds m)" for k
    using that by (simp add: set_protected_kinds protected_iff)
  moreover have "fst (decideCapabilityBrokerGate parse_url m labels backed) \<longleftrightarrow>
      (\<forall>k \<in> set (manifestProtectedInfluenceKinds m). influence_permitted labels k (backed = Some True))"
    unfolding decideCapabilityBrokerGate_def gate_sinks_iff by (cases backed) auto
  ultimately show ?thesis
    by (cases "manifestProtectedInfluenceKinds m") (auto simp: influence_permitted_def isTainted_iff)
qed

end
