(* ===== verification/CapabilityGrants.thy ===== *)
theory CapabilityGrants
  imports JsValue ToolManifest
begin

text \<open>
  What a chat session remembers between calls: the grants a confirmation leaves behind
  (\<^verbatim>\<open>src/core/capability-grants.ts\<close>) with the scope key they are stored under, and the taint it has
  read (\<^verbatim>\<open>src/chat/chat-session-taint.ts\<close>). The registries are maps passed along; the clock is an
  argument, as in the source, and \<open>url_host\<close> is the \<^verbatim>\<open>host\<close> of \<^verbatim>\<open>new URL\<close>, or nothing when
  that throws.
\<close>

section \<open>Grants\<close>

record capability_grant =
  grant_key :: string
  grantedAt :: jsnum
  grant_expiresAt :: jsnum

type_synonym grant_store = "(string, (string, capability_grant) omap) omap"

definition DEFAULT_CAPABILITY_GRANT_TTL_MS :: jsnum where
  "DEFAULT_CAPABILITY_GRANT_TTL_MS = Fin 900000"

definition new_grant :: "string \<Rightarrow> jsnum \<Rightarrow> jsnum option \<Rightarrow> capability_grant" where
  "new_grant key now ttl = \<lparr>grant_key = key, grantedAt = now,
     grant_expiresAt = js_add now (js_max (Fin 0)
       (case ttl of None \<Rightarrow> DEFAULT_CAPABILITY_GRANT_TTL_MS | Some t \<Rightarrow> t))\<rparr>"

definition record_grant ::
  "string \<Rightarrow> string \<Rightarrow> jsnum \<Rightarrow> jsnum option \<Rightarrow> grant_store \<Rightarrow> capability_grant \<times> grant_store" where
  "record_grant session key now ttl store =
     (let g = new_grant key now ttl;
          sessionGrants = (case map_of store session of None \<Rightarrow> [] | Some m \<Rightarrow> m)
      in (g, omap_set session (omap_set key g sessionGrants) store))"

definition covers_grant :: "string \<Rightarrow> string \<Rightarrow> jsnum \<Rightarrow> grant_store \<Rightarrow> bool" where
  "covers_grant session key now store = (case map_of store session of
       None \<Rightarrow> False
     | Some m \<Rightarrow> (case map_of m key of None \<Rightarrow> False | Some g \<Rightarrow> js_lt now (grant_expiresAt g)))"

definition granted_le :: "capability_grant \<Rightarrow> capability_grant \<Rightarrow> bool" where
  "granted_le a b \<longleftrightarrow> \<not> js_gt (js_sub (grantedAt a) (grantedAt b)) (Fin 0)"

definition list_grants :: "string \<Rightarrow> jsnum \<Rightarrow> grant_store \<Rightarrow> capability_grant list" where
  "list_grants session now store =
     js_sort granted_le (filter (\<lambda>g. js_lt now (grant_expiresAt g))
       (map snd (case map_of store session of None \<Rightarrow> [] | Some m \<Rightarrow> m)))"

definition revoke_grant :: "string \<Rightarrow> string \<Rightarrow> grant_store \<Rightarrow> bool \<times> grant_store" where
  "revoke_grant session key store = (case map_of store session of
       None \<Rightarrow> (False, store)
     | Some m \<Rightarrow>
         (if map_of m key = None then (False, store)
          else (let m' = omap_delete key m
                in (True, if m' = [] then omap_delete session store else omap_set session m' store))))"

definition clear_grants :: "string \<Rightarrow> grant_store \<Rightarrow> grant_store" where
  "clear_grants session store = omap_delete session store"

section \<open>Scope keys\<close>

text \<open>A member that is a string with something in it, trimmed.\<close>

definition arg_text :: "obj \<Rightarrow> string \<Rightarrow> string option" where
  "arg_text args k = (case obj_get args k of
       JStr s \<Rightarrow> (if trim s \<noteq> [] then Some (trim s) else None)
     | _ \<Rightarrow> None)"

fun kind_str :: "action_kind \<Rightarrow> string" where
  "kind_str SandboxRead = ''sandbox_read''"
| "kind_str SandboxWrite = ''sandbox_write''"
| "kind_str ControlPlane = ''control_plane''"
| "kind_str EgressRead = ''egress_read''"
| "kind_str HostRead = ''host_read''"
| "kind_str HostWrite = ''host_write''"
| "kind_str HostCommand = ''host_command''"

definition scopeKeyForChatCall :: "(string \<Rightarrow> string option) \<Rightarrow> action_kind \<Rightarrow> string \<Rightarrow> obj \<Rightarrow> string" where
  "scopeKeyForChatCall url_host kind name args =
     (if kind = HostCommand
      then ''host_command:'' @ (case arg_text args ''command'' of None \<Rightarrow> name | Some c \<Rightarrow> c)
      else if kind \<in> {HostWrite, HostRead, SandboxWrite}
      then kind_str kind @ '':'' @ (case arg_text args ''path'' of Some p \<Rightarrow> p
         | None \<Rightarrow> (case arg_text args ''file'' of Some p \<Rightarrow> p
         | None \<Rightarrow> (case arg_text args ''target'' of Some p \<Rightarrow> p | None \<Rightarrow> name)))
      else if kind = EgressRead
      then (case arg_text args ''url'' of
          Some u \<Rightarrow> ''egress_read:'' @ (case url_host u of Some h \<Rightarrow> h | None \<Rightarrow> u)
        | None \<Rightarrow> (case arg_text args ''query'' of
              Some q \<Rightarrow> ''egress_read:search:'' @ q
            | None \<Rightarrow> ''egress_read:'' @ name))
      else kind_str kind @ '':'' @ name)"

section \<open>Session taint\<close>

type_synonym taint_registry = "(string, taint_label list) omap"

definition session_taint :: "taint_registry \<Rightarrow> string \<Rightarrow> taint_label list" where
  "session_taint reg session = (case map_of reg session of None \<Rightarrow> [] | Some ls \<Rightarrow> ls)"

definition fold_session_taint ::
  "string \<Rightarrow> taint_label list \<Rightarrow> taint_registry \<Rightarrow> taint_label list \<times> taint_registry" where
  "fold_session_taint session labels reg =
     (if labels = [] then (session_taint reg session, reg)
      else (let folded = propagateTaint (session_taint reg session) labels
            in (folded, omap_set session folded reg)))"

definition clear_session_taint :: "string \<Rightarrow> taint_registry \<Rightarrow> taint_registry" where
  "clear_session_taint session reg = omap_delete session reg"

section \<open>Facts\<close>

text \<open>The store is a keyed collection over pairs of a session and a key.\<close>

definition find_grant :: "grant_store \<Rightarrow> string \<times> string \<Rightarrow> capability_grant option" where
  "find_grant store sk = (case map_of store (fst sk) of None \<Rightarrow> None | Some m \<Rightarrow> map_of m (snd sk))"

definition put_grant :: "string \<times> string \<Rightarrow> capability_grant \<Rightarrow> grant_store \<Rightarrow> grant_store" where
  "put_grant sk g store = omap_set (fst sk)
     (omap_set (snd sk) g (case map_of store (fst sk) of None \<Rightarrow> [] | Some m \<Rightarrow> m)) store"

interpretation grants: keyed_store put_grant find_grant "[] :: grant_store"
  by unfold_locales (auto simp: find_grant_def put_grant_def split: option.splits)

lemma record_is_put: "snd (record_grant session key now ttl store) = put_grant (session, key) (new_grant key now ttl) store"
  by (simp add: record_grant_def put_grant_def Let_def)

lemma covers_iff:
  "covers_grant session key now store \<longleftrightarrow>
     (\<exists>g. find_grant store (session, key) = Some g \<and> js_lt now (grant_expiresAt g))"
  by (auto simp: covers_grant_def find_grant_def split: option.splits)

text \<open>A grant covers its own key, until its time is over, and leaves every other coverage as it was.\<close>

lemma covers_after_record:
  "covers_grant s k t (snd (record_grant session key now ttl store)) \<longleftrightarrow>
     (if s = session \<and> k = key then js_lt t (grant_expiresAt (new_grant key now ttl)) else covers_grant s k t store)"
  by (auto simp: covers_iff record_is_put grants.get_put)

lemma covers_after_revoke:
  "covers_grant s k t (snd (revoke_grant session key store)) \<longleftrightarrow>
     \<not> (s = session \<and> k = key) \<and> covers_grant s k t store"
  by (auto simp: revoke_grant_def covers_grant_def Let_def dest: omap_delete_empty split: option.splits if_splits)

text \<open>Taint only accumulates, whatever is folded in.\<close>

lemma session_taint_grows:
  "set (session_taint (snd (fold_session_taint session labels reg)) s) =
     set (session_taint reg s) \<union> (if s = session then set labels else {})"
  by (auto simp: fold_session_taint_def session_taint_def Let_def)

end
