(* ===== verification/ToolExecutor.thy ===== *)
theory ToolExecutor
  imports CapabilityBroker CapabilityGrants
begin

text \<open>
  The gated tool executor of the chat (\<^verbatim>\<open>src/chat/chat-tool-executor.ts\<close>): one call after the
  other passes the argument check, the capability broker, the execution-mode gate and the
  confirmation, then runs, is audited and taints the window.

  The agent loop awaits each call before it makes the next, so a call is one step. What the
  environment answers comes with the call: the confirmation's answer, the tool's output (nothing
  when the tool throws), the labels of the output (nothing when that hook throws), the clock. The
  argument check (\<^verbatim>\<open>src/core/tool-argument-repair.ts\<close>), the audit text
  (\<^verbatim>\<open>src/chat/chat-audit-detail.ts\<close>) and the URL parser are arbitrary functions of the
  configuration: the theorems hold for all of them. The effects are a trace, in their order.
\<close>

section \<open>Tools, calls, effects\<close>

record chat_tool =
  tool_name :: string
  actionKind :: action_kind
  tool_taint :: "taint_label list option"
  hasTaintHook :: bool

record chat_call =
  call_id :: string
  call_name :: string
  call_args :: obj
  confirm_answer :: bool
  run_output :: "string option"
  hook_labels :: "taint_label list option"
  call_now :: jsnum

datatype argument_check = Dispatchable obj | AskAgain "string list" string

record audit_record =
  au_sessionId :: string
  au_mode :: execution_mode
  au_action :: action_kind
  au_decision :: gate_decision
  au_confirmed :: bool
  au_executed :: bool
  au_detail :: string

datatype egress_target = UrlTarget string | QueryTarget string | UnknownTarget

record egress_audit =
  ea_sessionId :: string
  ea_mode :: execution_mode
  ea_toolName :: string
  ea_decision :: gate_decision
  ea_confirmed :: bool
  ea_executed :: bool
  ea_target :: egress_target
  ea_detail :: string

datatype exec_effect =
    AskedOperator string string obj bool
  | RecordedGrant string string jsnum
  | RanTool string action_kind obj jsnum
  | Audited audit_record
  | AuditedEgress egress_audit
  | PublishedTaint "taint_label list"

record 'd exec_config =
  x_sessionId :: string
  x_mode :: execution_mode
  x_tools :: "chat_tool list"
  x_definitions :: "(string \<times> 'd) list option"
  x_hasConfirm :: bool
  x_brokerEnabled :: bool
  x_hasGrants :: bool
  x_parse_url :: url_parser
  x_url_host :: "string \<Rightarrow> string option"
  x_check :: "'d \<Rightarrow> string \<Rightarrow> obj \<Rightarrow> argument_check"
  x_auditDetail :: "string \<Rightarrow> obj \<Rightarrow> string"

record executor =
  x_taint :: "taint_label list"
  x_grants :: grant_store
  x_trace :: "exec_effect list"

text \<open>
  \<open>AskedOperator\<close> carries the call the operator sees (its id, its tool, its arguments as the model gave
  them) and the answer, \<open>RecordedGrant\<close> the session, the scope key and the time, \<open>RanTool\<close> the
  arguments the tool got and the time of the call. \<^verbatim>\<open>Answer id content\<close> is the
  returned result; \<open>Threw\<close> is the tool's rejection, passed on.
\<close>

datatype exec_result = Answer string string | Threw

section \<open>Auditing\<close>

definition emit :: "exec_effect \<Rightarrow> executor \<Rightarrow> executor" where
  "emit e s = s\<lparr>x_trace := x_trace s @ [e]\<rparr>"

definition egressTargetForTool :: "string \<Rightarrow> obj \<Rightarrow> egress_target" where
  "egressTargetForTool name args =
     (if name = ''browse_url'' then
        (let u = (case obj_get args ''url'' of JStr s \<Rightarrow> trim s | _ \<Rightarrow> []) in
         if u \<noteq> [] then UrlTarget u else UnknownTarget)
      else if name = ''web_search'' then
        (let q = (case obj_get args ''query'' of JStr s \<Rightarrow> trim s | _ \<Rightarrow> []) in
         if q \<noteq> [] then QueryTarget q else UnknownTarget)
      else UnknownTarget)"

definition recordEgressAttempt ::
  "'d exec_config \<Rightarrow> chat_tool \<Rightarrow> obj \<Rightarrow> gate_decision \<Rightarrow> bool \<Rightarrow> bool \<Rightarrow> string \<Rightarrow> executor \<Rightarrow> executor" where
  "recordEgressAttempt cfg tool args d confirmed executed det s =
     (if actionKind tool \<noteq> EgressRead then s
      else emit (AuditedEgress \<lparr>ea_sessionId = x_sessionId cfg, ea_mode = x_mode cfg, ea_toolName = tool_name tool,
             ea_decision = d, ea_confirmed = confirmed, ea_executed = executed,
             ea_target = egressTargetForTool (tool_name tool) args, ea_detail = det\<rparr>) s)"

definition audit_call ::
  "'d exec_config \<Rightarrow> chat_tool \<Rightarrow> obj \<Rightarrow> gate_decision \<Rightarrow> bool \<Rightarrow> bool \<Rightarrow> executor \<Rightarrow> executor" where
  "audit_call cfg tool args d confirmed executed s =
     (let det = x_auditDetail cfg (tool_name tool) args in
      recordEgressAttempt cfg tool args d confirmed executed det
        (emit (Audited \<lparr>au_sessionId = x_sessionId cfg, au_mode = x_mode cfg, au_action = actionKind tool,
            au_decision = d, au_confirmed = confirmed, au_executed = executed, au_detail = det\<rparr>) s))"

section \<open>Tainting\<close>

definition outputTaintForToolResult :: "chat_tool \<Rightarrow> chat_call \<Rightarrow> taint_label list" where
  "outputTaintForToolResult tool c =
     (let static = (case tool_taint tool of None \<Rightarrow> [] | Some ls \<Rightarrow> ls) in
      if \<not> hasTaintHook tool then static
      else (case hook_labels c of None \<Rightarrow> static | Some ls \<Rightarrow> propagateTaint static ls))"

definition fold_output_taint :: "'d exec_config \<Rightarrow> chat_tool \<Rightarrow> chat_call \<Rightarrow> bool \<Rightarrow> executor \<Rightarrow> executor" where
  "fold_output_taint cfg tool c executed s =
     (let out = (if executed then outputTaintForToolResult tool c else []) in
      if x_brokerEnabled cfg \<and> out \<noteq> []
      then (let w = propagateTaint (x_taint s) out in emit (PublishedTaint w) (s\<lparr>x_taint := w\<rparr>))
      else s)"

section \<open>One call\<close>

text \<open>The arguments that are dispatched, or the refusal's text.\<close>

definition checked_arguments :: "'d exec_config \<Rightarrow> chat_call \<Rightarrow> string + obj" where
  "checked_arguments cfg c =
     (case (case x_definitions cfg of None \<Rightarrow> None | Some ds \<Rightarrow> map_of ds (call_name c)) of
        None \<Rightarrow> Inr (call_args c)
      | Some d \<Rightarrow> (case x_check cfg d (call_name c) (call_args c) of
            Dispatchable args \<Rightarrow> Inr args
          | AskAgain asked why \<Rightarrow>
              Inl (''Invalid arguments for '' @ call_name c @ '': ''
                @ (if asked \<noteq> [] then ''re-ask required field(s): '' @ join_with '', '' asked else why))))"

definition finish_call ::
  "'d exec_config \<Rightarrow> chat_tool \<Rightarrow> chat_call \<Rightarrow> obj \<Rightarrow> gate_decision \<Rightarrow> bool \<Rightarrow> bool \<Rightarrow> string \<Rightarrow> executor
    \<Rightarrow> exec_result \<times> executor" where
  "finish_call cfg tool c args d confirmed executed content s =
     (Answer (call_id c) content, fold_output_taint cfg tool c executed (audit_call cfg tool args d confirmed executed s))"

text \<open>Running the tool; when it throws, the rejection leaves the executor at once.\<close>

definition run_and_finish ::
  "'d exec_config \<Rightarrow> chat_tool \<Rightarrow> chat_call \<Rightarrow> obj \<Rightarrow> gate_decision \<Rightarrow> bool \<Rightarrow> executor \<Rightarrow> exec_result \<times> executor" where
  "run_and_finish cfg tool c args d confirmed s =
     (let s1 = emit (RanTool (tool_name tool) (actionKind tool) args (call_now c)) s in
      case run_output c of
        None \<Rightarrow> (Threw, s1)
      | Some content \<Rightarrow> finish_call cfg tool c args d confirmed True content s1)"

text \<open>The confirmation: a covering grant answers it, otherwise the operator, whose consent is recorded.\<close>

definition confirm_call :: "'d exec_config \<Rightarrow> chat_tool \<Rightarrow> chat_call \<Rightarrow> obj \<Rightarrow> executor \<Rightarrow> bool \<times> executor" where
  "confirm_call cfg tool c args s =
     (let key = scopeKeyForChatCall (x_url_host cfg) (actionKind tool) (tool_name tool) args;
          covered = (x_hasGrants cfg \<and> covers_grant (x_sessionId cfg) key (call_now c) (x_grants s))
      in if covered then (True, s)
         else if \<not> x_hasConfirm cfg then (False, s)
         else (let s1 = emit (AskedOperator (call_id c) (call_name c) (call_args c) (confirm_answer c)) s in
           if \<not> confirm_answer c then (False, s1)
           else if \<not> x_hasGrants cfg then (True, s1)
           else (True, emit (RecordedGrant (x_sessionId cfg) key (call_now c))
               (s1\<lparr>x_grants := snd (record_grant (x_sessionId cfg) key (call_now c) None (x_grants s1))\<rparr>))))"

definition gated_call :: "'d exec_config \<Rightarrow> chat_tool \<Rightarrow> chat_call \<Rightarrow> obj \<Rightarrow> executor \<Rightarrow> exec_result \<times> executor" where
  "gated_call cfg tool c args s =
     (let access = decideManifestChatAccess (manifestForChatAction (actionKind tool)) (x_mode cfg) in
      case gate_decision access of
        Deny \<Rightarrow> finish_call cfg tool c args Deny False False (''Denied: '' @ gate_reason access) s
      | Confirm \<Rightarrow>
          (case confirm_call cfg tool c args s of
             (True, s1) \<Rightarrow> run_and_finish cfg tool c args Confirm True s1
           | (False, s1) \<Rightarrow>
               finish_call cfg tool c args Confirm False False
                 (''Not run (awaiting confirmation): '' @ gate_reason access) s1)
      | Allow \<Rightarrow> run_and_finish cfg tool c args Allow False s)"

definition executeTool :: "'d exec_config \<Rightarrow> chat_call \<Rightarrow> executor \<Rightarrow> exec_result \<times> executor" where
  "executeTool cfg c s =
     (case find (\<lambda>t. tool_name t = call_name c) (x_tools cfg) of
        None \<Rightarrow> (Answer (call_id c) (''Unknown tool: '' @ call_name c), s)
      | Some tool \<Rightarrow> (case checked_arguments cfg c of
            Inl refusal \<Rightarrow> (Answer (call_id c) refusal, s)
          | Inr args \<Rightarrow>
              (let gate = (if x_brokerEnabled cfg
                     then decideCapabilityBrokerGate (x_parse_url cfg) (manifestForChatAction (actionKind tool)) (x_taint s) None
                     else (True, None))
               in if \<not> fst gate
                  then (Answer (call_id c) (''Denied by capability broker: '' @ (case snd gate of None \<Rightarrow> ''null'' | Some r \<Rightarrow> r)),
                        audit_call cfg tool args Deny False False s)
                  else gated_call cfg tool c args s)))"

definition execute_all :: "'d exec_config \<Rightarrow> chat_call list \<Rightarrow> executor \<Rightarrow> executor" where
  "execute_all cfg cs s = fold (\<lambda>c s. snd (executeTool cfg c s)) cs s"

section \<open>The run as an invariant system\<close>

text \<open>The shape of a trace around an entry: what was written before it.\<close>

definition always_before :: "('e list \<Rightarrow> 'e \<Rightarrow> bool) \<Rightarrow> 'e list \<Rightarrow> bool" where
  "always_before P t \<longleftrightarrow> (\<forall>i < length t. P (take i t) (t ! i))"

lemma always_before_snoc: "always_before P (t @ [e]) \<longleftrightarrow> always_before P t \<and> P t e"
  by (auto simp: always_before_def nth_append less_Suc_eq)

lemma always_before_Nil [simp]: "always_before P []"
  by (simp add: always_before_def)

lemma always_before_split: "always_before P (a @ e # b) \<Longrightarrow> P a e"
  unfolding always_before_def by (metis append_eq_conv_conj length_append length_Cons less_add_Suc1 nth_append_length add_Suc_right)

lemma trace_emit [simp]: "x_trace (emit e s) = x_trace s @ [e]"
  "x_taint (emit e s) = x_taint s" "x_grants (emit e s) = x_grants s"
  by (simp_all add: emit_def)

end
