(* ===== verification/ExecutorRuns.thy ===== *)
theory ExecutorRuns
  imports ToolExecutor
begin

text \<open>
  Runs of the tool executor. What one call adds to the trace, and what it does to the grants: at most one run of
  the tool, after a gate that let it through, and one audit record. What an invariant of the executor has to show
  is an interface (locale \<open>executor_invariant\<close>): that the bookkeeping keeps it and that a run that the broker
  and the mode let through keeps it; every call then keeps it, whatever its path. The taint window is such an
  invariant. Consent is followed over a history of turns, grants and revocations that all sessions share.
\<close>

section \<open>What a call does\<close>

text \<open>The tool and the arguments of a call, once it is looked up and checked.\<close>

definition called :: "'d exec_config \<Rightarrow> chat_call \<Rightarrow> chat_tool \<Rightarrow> obj \<Rightarrow> bool" where
  "called cfg c tool args \<longleftrightarrow> find (\<lambda>t. tool_name t = call_name c) (x_tools cfg) = Some tool \<and> checked_arguments cfg c = Inr args"

definition broker_allows :: "'d exec_config \<Rightarrow> chat_tool \<Rightarrow> executor \<Rightarrow> bool" where
  "broker_allows cfg tool s \<longleftrightarrow> x_brokerEnabled cfg \<longrightarrow>
     fst (decideCapabilityBrokerGate (x_parse_url cfg) (manifestForChatAction (actionKind tool)) (x_taint s) None)"

abbreviation mode_gate :: "'d exec_config \<Rightarrow> chat_tool \<Rightarrow> gate_decision" where
  "mode_gate cfg tool \<equiv> gate_decision (decideChatActionAccess (x_mode cfg) (actionKind tool))"

definition scope_key :: "'d exec_config \<Rightarrow> chat_call \<Rightarrow> chat_tool \<Rightarrow> obj \<Rightarrow> string" where
  "scope_key cfg c tool args = scopeKeyForChatCall (x_url_host cfg) (actionKind tool) (call_name c) args"

abbreviation agreed_to :: "chat_call \<Rightarrow> exec_effect" where
  "agreed_to c \<equiv> AskedOperator (call_id c) (call_name c) (call_args c) True"

abbreviation run_of :: "chat_call \<Rightarrow> chat_tool \<Rightarrow> obj \<Rightarrow> exec_effect" where
  "run_of c tool args \<equiv> RanTool (call_name c) (actionKind tool) args (call_now c)"

fun runs_tool :: "exec_effect \<Rightarrow> bool" where
  "runs_tool (RanTool n k a now) = True"
| "runs_tool _ = False"

fun audits :: "exec_effect list \<Rightarrow> audit_record list" where
  "audits [] = []"
| "audits (Audited r # t) = r # audits t"
| "audits (_ # t) = audits t"

lemma audits_append [simp]: "audits (a @ b) = audits a @ audits b"
  by (induction a rule: audits.induct) simp_all

lemma called_name: "called cfg c tool args \<Longrightarrow> tool_name tool = call_name c"
  by (auto simp: called_def find_Some_iff)

lemma called_unique: "called cfg c tool args \<Longrightarrow> called cfg c tool' args' \<Longrightarrow> tool' = tool \<and> args' = args"
  by (auto simp: called_def)

text \<open>How a call was confirmed: the effects before the run, and the grants after them.\<close>

inductive confirmed_by :: "'d exec_config \<Rightarrow> chat_call \<Rightarrow> chat_tool \<Rightarrow> obj \<Rightarrow> grant_store \<Rightarrow> exec_effect list \<Rightarrow> grant_store \<Rightarrow> bool"
  for cfg c tool args gs where
  by_grant: "x_hasGrants cfg \<Longrightarrow> covers_grant (x_sessionId cfg) (scope_key cfg c tool args) (call_now c) gs
    \<Longrightarrow> confirmed_by cfg c tool args gs [] gs"
| by_operator: "\<not> x_hasGrants cfg \<Longrightarrow> confirmed_by cfg c tool args gs [agreed_to c] gs"
| by_operator_granting: "x_hasGrants cfg
    \<Longrightarrow> gs' = put_grant (x_sessionId cfg, scope_key cfg c tool args) (new_grant (scope_key cfg c tool args) (call_now c) None) gs
    \<Longrightarrow> confirmed_by cfg c tool args gs
          [agreed_to c, RecordedGrant (x_sessionId cfg) (scope_key cfg c tool args) (call_now c)] gs'"

lemma confirm_call_effects:
  assumes "confirm_call cfg tool c args s = (b, s1)" "tool_name tool = call_name c"
  shows "if b then (\<exists>q. x_trace s1 = x_trace s @ q \<and> confirmed_by cfg c tool args (x_grants s) q (x_grants s1))
    else x_grants s1 = x_grants s \<and> (\<exists>q. x_trace s1 = x_trace s @ q \<and> set q \<subseteq> {AskedOperator (call_id c) (call_name c) (call_args c) False})"
  using assms
  by (auto simp: confirm_call_def Let_def scope_key_def record_is_put confirmed_by.simps split: if_splits)

definition record_of :: "'d exec_config \<Rightarrow> chat_tool \<Rightarrow> obj \<Rightarrow> gate_decision \<Rightarrow> bool \<Rightarrow> bool \<Rightarrow> audit_record" where
  "record_of cfg tool args d confirmed executed = \<lparr>au_sessionId = x_sessionId cfg, au_mode = x_mode cfg,
     au_action = actionKind tool, au_decision = d, au_confirmed = confirmed, au_executed = executed,
     au_detail = x_auditDetail cfg (tool_name tool) args\<rparr>"

text \<open>The epilogue of a call: one record, and nothing that runs a tool or changes a grant.\<close>

fun bookkeeping :: "exec_effect \<Rightarrow> bool" where
  "bookkeeping (Audited r) = True"
| "bookkeeping (AuditedEgress r) = True"
| "bookkeeping (PublishedTaint w) = True"
| "bookkeeping _ = False"

lemma audit_call_effects: "\<exists>t. x_trace (audit_call cfg tool args d cf x s) = x_trace s @ t \<and> audits t = [record_of cfg tool args d cf x]
    \<and> list_all bookkeeping t \<and> x_grants (audit_call cfg tool args d cf x s) = x_grants s"
  by (auto simp: audit_call_def recordEgressAttempt_def record_of_def Let_def)

lemma finish_call_effects: "\<exists>t. x_trace (snd (finish_call cfg tool c args d cf x content s)) = x_trace s @ t
    \<and> audits t = [record_of cfg tool args d cf x] \<and> list_all bookkeeping t
    \<and> x_grants (snd (finish_call cfg tool c args d cf x content s)) = x_grants s"
proof -
  obtain t where "x_trace (audit_call cfg tool args d cf x s) = x_trace s @ t" "audits t = [record_of cfg tool args d cf x]"
    "list_all bookkeeping t" "x_grants (audit_call cfg tool args d cf x s) = x_grants s"
    using audit_call_effects by blast
  then show ?thesis by (auto simp: finish_call_def fold_output_taint_def Let_def)
qed

text \<open>The decision a call gets.\<close>

definition call_decision :: "'d exec_config \<Rightarrow> chat_tool \<Rightarrow> executor \<Rightarrow> gate_decision" where
  "call_decision cfg tool s = (if broker_allows cfg tool s then mode_gate cfg tool else Deny)"

text \<open>A call either runs no tool, or runs its tool once, between its confirmation and its epilogue.\<close>

datatype call_shape =
    Unaudited
  | Refused gate_decision
  | Ran gate_decision "exec_effect list" "exec_effect list" exec_result

fun shape_ok :: "'d exec_config \<Rightarrow> chat_call \<Rightarrow> executor \<Rightarrow> exec_result \<times> executor \<Rightarrow> call_shape \<Rightarrow> bool" where
  "shape_ok cfg c s (r, s') Unaudited \<longleftrightarrow> (\<nexists>tool args. called cfg c tool args) \<and> s' = s \<and> r \<noteq> Threw"
| "shape_ok cfg c s (r, s') (Refused d) \<longleftrightarrow> r \<noteq> Threw \<and> x_grants s' = x_grants s \<and> (\<exists>tool args t. called cfg c tool args \<and> call_decision cfg tool s = d
     \<and> x_trace s' = x_trace s @ t \<and> list_all (\<lambda>e. \<not> runs_tool e) t \<and> audits t = [record_of cfg tool args d False False])"
| "shape_ok cfg c s (r, s') (Ran d q t r') \<longleftrightarrow> r' = r \<and> (\<exists>tool args. called cfg c tool args
     \<and> broker_allows cfg tool s \<and> mode_gate cfg tool = d
     \<and> x_trace s' = x_trace s @ q @ run_of c tool args # t \<and> list_all bookkeeping t
     \<and> (if d = Confirm then confirmed_by cfg c tool args (x_grants s) q (x_grants s')
        else d = Allow \<and> q = [] \<and> x_grants s' = x_grants s)
     \<and> audits t = (if r = Threw then [] else [record_of cfg tool args d (d = Confirm) True]))"

lemma run_shape:
  assumes "called cfg c tool args" "broker_allows cfg tool s" "mode_gate cfg tool = d"
    and "x_trace s1 = x_trace s @ q"
    and "if d = Confirm then confirmed_by cfg c tool args (x_grants s) q (x_grants s1)
        else d = Allow \<and> q = [] \<and> x_grants s1 = x_grants s"
  shows "\<exists>sh. shape_ok cfg c s (run_and_finish cfg tool c args d (d = Confirm) s1) sh"
proof -
  let ?s = "emit (run_of c tool args) s1"
  have n: "tool_name tool = call_name c" using assms(1) by (rule called_name)
  show ?thesis
  proof (cases "run_output c")
    case None
    then have "shape_ok cfg c s (run_and_finish cfg tool c args d (d = Confirm) s1) (Ran d q [] Threw)"
      using assms n by (auto simp: run_and_finish_def Let_def)
    then show ?thesis by blast
  next
    case (Some content)
    obtain t where t: "x_trace (snd (finish_call cfg tool c args d (d = Confirm) True content ?s)) = x_trace ?s @ t"
      "audits t = [record_of cfg tool args d (d = Confirm) True]" "list_all bookkeeping t"
      "x_grants (snd (finish_call cfg tool c args d (d = Confirm) True content ?s)) = x_grants ?s"
      using finish_call_effects by blast
    have f: "finish_call cfg tool c args d (d = Confirm) True content ?s
        = (Answer (call_id c) content, snd (finish_call cfg tool c args d (d = Confirm) True content ?s))"
      by (simp add: finish_call_def)
    have "run_and_finish cfg tool c args d (d = Confirm) s1
        = (Answer (call_id c) content, snd (finish_call cfg tool c args d (d = Confirm) True content ?s))"
      using Some f n by (simp add: run_and_finish_def Let_def)
    then have "shape_ok cfg c s (run_and_finish cfg tool c args d (d = Confirm) s1) (Ran d q t (Answer (call_id c) content))"
      using t assms by auto
    then show ?thesis by blast
  qed
qed

lemma finish_shape:
  assumes "called cfg c tool args" "call_decision cfg tool s = d" "x_trace s1 = x_trace s @ q" "list_all (\<lambda>e. \<not> runs_tool e) q" "audits q = []"
    and "x_grants s1 = x_grants s"
  shows "\<exists>sh. shape_ok cfg c s (finish_call cfg tool c args d False False content s1) sh"
proof -
  obtain t where t: "x_trace (snd (finish_call cfg tool c args d False False content s1)) = x_trace s1 @ t"
    "audits t = [record_of cfg tool args d False False]" "list_all bookkeeping t"
    "x_grants (snd (finish_call cfg tool c args d False False content s1)) = x_grants s1"
    using finish_call_effects by blast
  have "list_all (\<lambda>e. \<not> runs_tool e) t" using t(3) by (auto simp: list_all_iff elim!: bookkeeping.elims)
  then have "shape_ok cfg c s (finish_call cfg tool c args d False False content s1) (Refused d)"
    using t assms by (simp add: finish_call_def) (intro exI[of _ tool] exI[of _ args] exI[of _ "q @ t"], simp)
  then show ?thesis by blast
qed

lemma gated_shape:
  assumes "called cfg c tool args" "broker_allows cfg tool s"
  shows "\<exists>sh. shape_ok cfg c s (gated_call cfg tool c args s) sh"
proof (cases "mode_gate cfg tool")
  case Allow
  then show ?thesis using run_shape[OF assms Allow, of s "[]"]
    by (simp add: gated_call_def manifest_gate_agrees Let_def)
next
  case Deny
  then show ?thesis using finish_shape[OF assms(1), of s Deny s "[]"] assms(2)
    by (simp add: gated_call_def manifest_gate_agrees Let_def call_decision_def)
next
  case Confirm
  obtain b s1 where b: "confirm_call cfg tool c args s = (b, s1)" by fastforce
  note eff = confirm_call_effects[OF b called_name[OF assms(1)]]
  show ?thesis
  proof (cases b)
    case True
    then obtain q where "x_trace s1 = x_trace s @ q" "confirmed_by cfg c tool args (x_grants s) q (x_grants s1)"
      using eff by auto
    then show ?thesis using run_shape[OF assms Confirm, of s1 q] True b Confirm
      by (simp add: gated_call_def manifest_gate_agrees Let_def)
  next
    case False
    then obtain q where q: "x_trace s1 = x_trace s @ q" "x_grants s1 = x_grants s"
      "set q \<subseteq> {AskedOperator (call_id c) (call_name c) (call_args c) False}" using eff by auto
    have "audits q = []" "list_all (\<lambda>e. \<not> runs_tool e) q" using q(3) by (induction q) auto
    then show ?thesis using finish_shape[OF assms(1) _ q(1), of Confirm] q(2) False b Confirm assms(2)
      by (simp add: gated_call_def manifest_gate_agrees Let_def call_decision_def)
  qed
qed

lemma executeTool_shape: "\<exists>sh. shape_ok cfg c s (executeTool cfg c s) sh"
proof (cases "\<exists>tool args. called cfg c tool args")
  case False
  then have "shape_ok cfg c s (executeTool cfg c s) Unaudited"
    by (auto simp: executeTool_def called_def split: option.split sum.split)
  then show ?thesis by blast
next
  case True
  then obtain tool args where c: "called cfg c tool args" by blast
  show ?thesis
  proof (cases "broker_allows cfg tool s")
    case True
    then have "executeTool cfg c s = gated_call cfg tool c args s"
      using c by (cases "x_brokerEnabled cfg") (simp_all add: executeTool_def called_def broker_allows_def Let_def)
    then show ?thesis using gated_shape[OF c True] by simp
  next
    case False
    then obtain why where "executeTool cfg c s = (Answer (call_id c) why, audit_call cfg tool args Deny False False s)"
      using c by (simp add: executeTool_def called_def broker_allows_def Let_def)
    moreover obtain t where t: "x_trace (audit_call cfg tool args Deny False False s) = x_trace s @ t"
      "audits t = [record_of cfg tool args Deny False False]" "list_all bookkeeping t"
      "x_grants (audit_call cfg tool args Deny False False s) = x_grants s" using audit_call_effects by blast
    moreover have "list_all (\<lambda>e. \<not> runs_tool e) t" using t(3) by (auto simp: list_all_iff elim!: bookkeeping.elims)
    ultimately have "shape_ok cfg c s (executeTool cfg c s) (Refused Deny)" using c False by (auto simp: call_decision_def)
    then show ?thesis by blast
  qed
qed

section \<open>An invariant of the executor\<close>

fun quiet_effect :: "exec_effect \<Rightarrow> bool" where
  "quiet_effect (RanTool n k a now) = False"
| "quiet_effect (PublishedTaint w) = False"
| "quiet_effect _ = True"

locale executor_invariant =
  fixes cfg :: "'d exec_config"
    and inv :: "executor \<Rightarrow> bool"
  assumes quiet: "inv s \<Longrightarrow> quiet_effect e \<Longrightarrow> inv (emit e s)"
    and grant: "inv s \<Longrightarrow> inv (s\<lparr>x_grants := gs\<rparr>)"
    and taint: "inv s \<Longrightarrow> w = propagateTaint (x_taint s) out \<Longrightarrow> inv (emit (PublishedTaint w) (s\<lparr>x_taint := w\<rparr>))"
    and run: "inv s \<Longrightarrow> broker_allows cfg tool s \<Longrightarrow> mode_gate cfg tool \<noteq> Deny \<Longrightarrow>
      inv (emit (RanTool (tool_name tool) (actionKind tool) args now) s)"
begin

lemma audit: "inv s \<Longrightarrow> inv (audit_call cfg tool args d c x s)"
  by (simp add: audit_call_def recordEgressAttempt_def Let_def quiet)

lemma finish: "inv s \<Longrightarrow> inv (snd (finish_call cfg tool c args d cf x content s))"
  by (auto simp: finish_call_def fold_output_taint_def Let_def intro!: taint audit)

lemma run_finish:
  "inv s \<Longrightarrow> broker_allows cfg tool s \<Longrightarrow> mode_gate cfg tool \<noteq> Deny \<Longrightarrow> inv (snd (run_and_finish cfg tool c args d cf s))"
  by (auto simp: run_and_finish_def Let_def split: option.splits intro!: finish run)

lemma confirm: "inv s \<Longrightarrow> inv (snd (confirm_call cfg tool c args s))"
  by (simp add: confirm_call_def Let_def quiet grant)

lemma confirm_taint: "x_taint (snd (confirm_call cfg tool c args s)) = x_taint s"
  by (simp add: confirm_call_def Let_def)

lemma gated:
  assumes "inv s" "broker_allows cfg tool s"
  shows "inv (snd (gated_call cfg tool c args s))"
proof -
  obtain b s1 where b: "confirm_call cfg tool c args s = (b, s1)" by fastforce
  then have "inv s1" "broker_allows cfg tool s1"
    using confirm[OF assms(1), of tool c args] confirm_taint[of tool c args s] assms(2) by (simp_all add: broker_allows_def)
  then show ?thesis using assms b
    by (cases "mode_gate cfg tool"; cases b) (simp_all add: gated_call_def manifest_gate_agrees Let_def run_finish finish)
qed

lemma step: "inv s \<Longrightarrow> inv (snd (executeTool cfg c s))"
  by (auto simp: executeTool_def Let_def broker_allows_def intro!: gated audit split: option.split sum.split)

end

section \<open>Tainted content and the host\<close>

text \<open>Before a host tool runs, nothing untrusted has been read: not before the turn, not in it.\<close>

definition clean_before :: "taint_label list \<Rightarrow> exec_effect list \<Rightarrow> bool" where
  "clean_before start t \<longleftrightarrow> \<not> isTainted start \<and> (\<forall>w. PublishedTaint w \<in> set t \<longrightarrow> \<not> isTainted w)"

definition host_runs_clean :: "taint_label list \<Rightarrow> exec_effect list \<Rightarrow> exec_effect \<Rightarrow> bool" where
  "host_runs_clean start t e \<longleftrightarrow>
     (case e of RanTool n k a now \<Rightarrow> host_action k \<longrightarrow> clean_before start t | _ \<Rightarrow> True)"

definition taint_inv :: "'d exec_config \<Rightarrow> taint_label list \<Rightarrow> executor \<Rightarrow> bool" where
  "taint_inv cfg start s \<longleftrightarrow> x_brokerEnabled cfg \<longrightarrow>
     always_before (host_runs_clean start) (x_trace s)
     \<and> (\<not> isTainted (x_taint s) \<longrightarrow> clean_before start (x_trace s))"

lemma clean_before_snoc:
  "clean_before start (t @ [e]) \<longleftrightarrow>
     clean_before start t \<and> (case e of PublishedTaint w \<Rightarrow> \<not> isTainted w | _ \<Rightarrow> True)"
  by (cases e) (auto simp: clean_before_def)

interpretation taint_exec: executor_invariant cfg "taint_inv cfg start" for cfg :: "'d exec_config" and start
proof (unfold_locales, goal_cases)
  case (1 s e)
  then show ?case
    by (cases e) (simp_all add: taint_inv_def always_before_snoc host_runs_clean_def clean_before_snoc)
next
  case (2 s gs)
  then show ?case by (simp add: taint_inv_def)
next
  case (3 s w out)
  then show ?case by (simp add: taint_inv_def always_before_snoc host_runs_clean_def clean_before_snoc)
next
  case (4 s tool args now)
  have "clean_before start (x_trace s)" if "x_brokerEnabled cfg" "host_action (actionKind tool)"
  proof -
    from that 4 have "\<not> isTainted (x_taint s)" by (simp add: broker_allows_def gate_iff chat_action_sinks)
    with that 4 show ?thesis by (simp add: taint_inv_def)
  qed
  with 4 show ?case
    by (simp add: taint_inv_def always_before_snoc host_runs_clean_def clean_before_snoc)
qed

interpretation taint_runs: invariant_system "\<lambda>c s. snd (executeTool cfg c s)" "\<lambda>c s. True" "taint_inv cfg start"
  for cfg :: "'d exec_config" and start
  by unfold_locales (rule taint_exec.step)

section \<open>Consent\<close>

text \<open>A history of the process: turns begin, calls are made under the configuration of their session, and the
  grants of all sessions, which outlive the executors, are revoked or cleared.\<close>

datatype 'd chat_event =
    NewTurn "taint_label list"
  | ToolCall "'d exec_config" chat_call
  | RevokeGrant string string
  | ClearGrants string

fun chat_step :: "'d chat_event \<Rightarrow> executor \<Rightarrow> executor" where
  "chat_step (NewTurn labels) s = s\<lparr>x_taint := labels\<rparr>"
| "chat_step (ToolCall cfg c) s = snd (executeTool cfg c s)"
| "chat_step (RevokeGrant session key) s = s\<lparr>x_grants := snd (revoke_grant session key (x_grants s))\<rparr>"
| "chat_step (ClearGrants session) s = s\<lparr>x_grants := clear_grants session (x_grants s)\<rparr>"

definition after_events :: "'d chat_event list \<Rightarrow> executor" where
  "after_events hs = fold chat_step hs \<lparr>x_taint = [], x_grants = [], x_trace = []\<rparr>"

lemma after_events_snoc [simp]: "after_events (hs @ [h]) = chat_step h (after_events hs)"
  by (simp add: after_events_def)

text \<open>What a call adds to the trace after a history.\<close>

definition call_effects :: "'d exec_config \<Rightarrow> chat_call \<Rightarrow> executor \<Rightarrow> exec_effect list" where
  "call_effects cfg c s = drop (length (x_trace s)) (x_trace (snd (executeTool cfg c s)))"

fun ends_grant :: "string \<Rightarrow> string \<Rightarrow> 'd chat_event \<Rightarrow> bool" where
  "ends_grant session key (RevokeGrant s k) \<longleftrightarrow> s = session \<and> k = key"
| "ends_grant session key (ClearGrants s) \<longleftrightarrow> s = session"
| "ends_grant session key _ \<longleftrightarrow> False"

text \<open>The operator agreed, in this session, to an earlier call with this scope key, and that was not revoked since.\<close>

definition consented_earlier :: "'d chat_event list \<Rightarrow> string \<Rightarrow> string \<Rightarrow> jsnum \<Rightarrow> bool" where
  "consented_earlier hs session key expiry \<longleftrightarrow> (\<exists>pre cfg c post tool args. hs = pre @ ToolCall cfg c # post
     \<and> x_sessionId cfg = session \<and> called cfg c tool args \<and> scope_key cfg c tool args = key
     \<and> agreed_to c \<in> set (call_effects cfg c (after_events pre))
     \<and> expiry = js_add (call_now c) DEFAULT_CAPABILITY_GRANT_TTL_MS
     \<and> list_all (\<lambda>h. \<not> ends_grant session key h) post)"

lemma new_grant_expiry: "grant_expiresAt (new_grant key now None) = js_add now DEFAULT_CAPABILITY_GRANT_TTL_MS"
  by (simp add: new_grant_def DEFAULT_CAPABILITY_GRANT_TTL_MS_def js_max_def)

lemma find_after_revoke: "find_grant (snd (revoke_grant session key store)) sk
    = (if sk = (session, key) then None else find_grant store sk)"
  by (cases sk) (auto simp: revoke_grant_def find_grant_def Let_def dest: omap_delete_empty split: option.splits if_splits)

lemma find_after_clear: "find_grant (clear_grants session store) sk = (if fst sk = session then None else find_grant store sk)"
  by (auto simp: clear_grants_def find_grant_def)

lemma call_effects_trace: "shape_ok cfg c s (executeTool cfg c s) sh \<Longrightarrow> x_trace (snd (executeTool cfg c s)) = x_trace s @ call_effects cfg c s"
  by (cases "executeTool cfg c s"; cases sh) (auto simp: call_effects_def)

text \<open>The one record of a call that reached the gates.\<close>

lemma call_audited:
  assumes "shape_ok cfg c s (executeTool cfg c s) sh" "called cfg c tool args"
  shows "if fst (executeTool cfg c s) = Threw then audits (call_effects cfg c s) = [] \<and> list_ex runs_tool (call_effects cfg c s)
    else audits (call_effects cfg c s) = [record_of cfg tool args (call_decision cfg tool s)
      (call_decision cfg tool s = Confirm \<and> list_ex runs_tool (call_effects cfg c s)) (list_ex runs_tool (call_effects cfg c s))]"
proof -
  obtain r s' where e: "executeTool cfg c s = (r, s')" by fastforce
  note same = called_unique[OF assms(2)]
  show ?thesis
  proof (cases sh)
    case Unaudited
    then show ?thesis using assms e by auto
  next
    case (Refused d)
    then obtain t where "x_trace s' = x_trace s @ t" "\<not> list_ex runs_tool t" "r \<noteq> Threw" "call_decision cfg tool s = d"
      "audits t = [record_of cfg tool args d False False]"
      using assms(1) e same by (auto simp: list_all_iff list_ex_iff)
    then show ?thesis using e by (simp add: call_effects_def)
  next
    case (Ran d q t r')
    then have t: "x_trace s' = x_trace s @ q @ run_of c tool args # t" "call_decision cfg tool s = d"
      "if d = Confirm then confirmed_by cfg c tool args (x_grants s) q (x_grants s') else d = Allow \<and> q = []"
      "audits t = (if r = Threw then [] else [record_of cfg tool args d (d = Confirm) True])"
      using assms(1) e same by (auto simp: call_decision_def)
    have "audits q = []" using t(3) by (auto elim!: confirmed_by.cases split: if_splits)
    then show ?thesis using t e by (simp add: call_effects_def)
  qed
qed

lemma shape_ran:
  assumes "shape_ok cfg c s (executeTool cfg c s) sh"
    and "list_ex runs_tool (call_effects cfg c s) \<or> x_grants (snd (executeTool cfg c s)) \<noteq> x_grants s"
  obtains tool args d q t where "called cfg c tool args" "mode_gate cfg tool = d" "call_effects cfg c s = q @ run_of c tool args # t"
    "list_all bookkeeping t" "if d = Confirm then confirmed_by cfg c tool args (x_grants s) q (x_grants (snd (executeTool cfg c s)))
      else d = Allow \<and> q = [] \<and> x_grants (snd (executeTool cfg c s)) = x_grants s"
proof -
  obtain r s' where e: "executeTool cfg c s = (r, s')" by fastforce
  show thesis
  proof (cases sh)
    case Unaudited
    then show thesis using assms e by (simp add: call_effects_def)
  next
    case (Refused d)
    then show thesis using assms e by (auto simp: call_effects_def list_all_iff list_ex_iff)
  next
    case (Ran d q t r')
    then obtain tool args where "called cfg c tool args" "mode_gate cfg tool = d" "x_trace s' = x_trace s @ q @ run_of c tool args # t"
      "list_all bookkeeping t" "if d = Confirm then confirmed_by cfg c tool args (x_grants s) q (x_grants s')
        else d = Allow \<and> q = [] \<and> x_grants s' = x_grants s"
      using assms(1) e by auto
    then show thesis using e by (intro that[of tool args d q t]) (simp_all add: call_effects_def)
  qed
qed

lemma consented_later:
  "consented_earlier hs session key expiry \<Longrightarrow> \<not> ends_grant session key h \<Longrightarrow> consented_earlier (hs @ [h]) session key expiry"
  unfolding consented_earlier_def by (elim exE, rename_tac pre cfg c post tool args, rule_tac x = pre in exI,
      rule_tac x = cfg in exI, rule_tac x = c in exI, rule_tac x = "post @ [h]" in exI) auto

lemma grants_between_calls:
  assumes "find_grant (x_grants (chat_step h s)) (session, key) = Some g"
  shows "(\<exists>cfg c. h = ToolCall cfg c) \<or> find_grant (x_grants s) (session, key) = Some g \<and> \<not> ends_grant session key h"
  using assms by (cases h) (simp_all add: find_after_revoke find_after_clear split: if_splits, metis)

lemma grants_consented:
  "find_grant (x_grants (after_events hs)) (session, key) = Some g \<Longrightarrow> consented_earlier hs session key (grant_expiresAt g)"
proof (induction hs rule: rev_induct)
  case Nil
  then show ?case by (simp add: after_events_def find_grant_def)
next
  case (snoc h hs)
  let ?s = "after_events hs"
  show ?case
  proof (cases "find_grant (x_grants ?s) (session, key) = Some g \<and> \<not> ends_grant session key h")
    case True
    then show ?thesis using snoc.IH consented_later by blast
  next
    case False
    then obtain cfg c where h: "h = ToolCall cfg c"
      using grants_between_calls snoc.prems by (simp only: after_events_snoc) blast
    then have old: "find_grant (x_grants ?s) (session, key) \<noteq> Some g" using False by simp
    obtain sh where sh: "shape_ok cfg c ?s (executeTool cfg c ?s) sh" using executeTool_shape by blast
    let ?gs = "x_grants (snd (executeTool cfg c ?s))"
    have new: "find_grant ?gs (session, key) = Some g" using snoc.prems h by simp
    have ne: "?gs \<noteq> x_grants ?s" using new old by auto
    obtain tool args d q t where ran: "called cfg c tool args" "mode_gate cfg tool = d"
      "call_effects cfg c ?s = q @ run_of c tool args # t" "list_all bookkeeping t"
      "if d = Confirm then confirmed_by cfg c tool args (x_grants ?s) q ?gs else d = Allow \<and> q = [] \<and> ?gs = x_grants ?s"
      by (rule shape_ran[OF sh disjI2[OF ne]])
    then have "confirmed_by cfg c tool args (x_grants ?s) q ?gs" using ne by (auto split: if_splits)
    then have put: "agreed_to c \<in> set q" "?gs = put_grant (x_sessionId cfg, scope_key cfg c tool args)
        (new_grant (scope_key cfg c tool args) (call_now c) None) (x_grants ?s)"
      using ne by (auto elim!: confirmed_by.cases)
    have "session = x_sessionId cfg \<and> key = scope_key cfg c tool args \<and> g = new_grant key (call_now c) None"
      using new old unfolding put(2) grants.get_put by (auto split: if_splits)
    then show ?thesis using ran(1,3) put(1) unfolding consented_earlier_def h
      by (intro exI[of _ hs] exI[of _ cfg] exI[of _ c] exI[of _ "[]"] exI[of _ tool] exI[of _ args]) (simp add: new_grant_expiry)
  qed
qed

definition host_change :: "action_kind \<Rightarrow> bool" where
  "host_change k \<longleftrightarrow> k = HostWrite \<or> k = HostCommand"

lemma host_change_gate:
  "host_change k \<Longrightarrow> gate_decision (decideChatActionAccess mode k) = (if mode = IsolatedReadonly then Deny else Confirm)"
  by (cases k; cases mode) (simp_all add: host_change_def decideChatActionAccess_def gate_reasons)

text \<open>A run of a tool that changes the host is that of the call itself, and was confirmed.\<close>

lemma host_run_confirmed:
  assumes "call_effects cfg c s = before @ RanTool name kind args now # after" "host_change kind"
  shows "\<exists>tool. called cfg c tool args \<and> kind = actionKind tool \<and> name = call_name c \<and> now = call_now c
    \<and> x_mode cfg \<noteq> IsolatedReadonly \<and> (\<exists>gs'. confirmed_by cfg c tool args (x_grants s) before gs')"
proof -
  obtain sh where sh: "shape_ok cfg c s (executeTool cfg c s) sh" using executeTool_shape by blast
  have ex: "list_ex runs_tool (call_effects cfg c s)" unfolding assms(1) by simp
  obtain tool args' d q t where ran: "called cfg c tool args'" "mode_gate cfg tool = d"
    "call_effects cfg c s = q @ run_of c tool args' # t" "list_all bookkeeping t"
    "if d = Confirm then confirmed_by cfg c tool args' (x_grants s) q (x_grants (snd (executeTool cfg c s)))
     else d = Allow \<and> q = [] \<and> x_grants (snd (executeTool cfg c s)) = x_grants s"
    by (rule shape_ran[OF sh disjI1[OF ex]])
  have "list_all (\<lambda>e. \<not> runs_tool e) q" using ran(5) by (auto elim!: confirmed_by.cases split: if_splits)
  moreover have "list_all (\<lambda>e. \<not> runs_tool e) t" using ran(4) by (auto simp: list_all_iff elim!: bookkeeping.elims)
  ultimately have same: "before = q" "RanTool name kind args now = run_of c tool args'"
    using ran(3) assms(1) by (auto simp: append_eq_append_conv2 append_eq_Cons_conv Cons_eq_append_conv)
  then have k: "kind = actionKind tool" by simp
  then have "d \<noteq> Allow" "x_mode cfg \<noteq> IsolatedReadonly" "d = Confirm"
    using host_change_gate[OF assms(2), of "x_mode cfg"] ran(2,5) by (auto split: if_splits)
  then show ?thesis using ran(1,5) same by auto
qed

end
