(* ===== verification/GateProperties.thy ===== *)
theory GateProperties
  imports ExecutorRuns
begin

text \<open>
  Properties of the tool gates: what the capability broker decides, what a run of the gated executor
  cannot do, and a call it does not record.
\<close>

section \<open>The broker\<close>

text \<open>
  C18. The broker decides by its contract and in its order: power beyond the grant is refused, then
  a protected effect steered by untrusted content without a plan must be planned afresh, then the
  egress is refused, confirmed or let through; nothing else is allowed.
\<close>

theorem broker_contract:
  "br_decision (decideCapabilityAction parse_url inp) =
     (let k = (case bi_influence inp of None \<Rightarrow> StyleInfluence | Some k \<Rightarrow> k) in
      if \<not> within_grant (bi_baseline inp) (bi_requested inp) then BrokerDeny
      else if \<not> influence_permitted (bi_taintLabels inp) k (bi_backed inp = Some True) then RequireTrustedPlan
      else if egress_flows parse_url (bi_egress inp) True then OneTimeConfirm
      else if egress_flows parse_url (bi_egress inp) False then BrokerAllow
      else BrokerDeny)"
  by (rule broker_decides)

section \<open>Runs of the executor\<close>

definition start_executor :: "taint_label list \<Rightarrow> executor" where
  "start_executor labels = \<lparr>x_taint = labels, x_grants = [], x_trace = []\<rparr>"

definition executor_trace :: "'d exec_config \<Rightarrow> chat_call list \<Rightarrow> taint_label list \<Rightarrow> exec_effect list" where
  "executor_trace cfg cs labels = x_trace (execute_all cfg cs (start_executor labels))"

lemma start_taint_inv: "taint_inv cfg labels (start_executor labels)"
  by (simp add: taint_inv_def start_executor_def clean_before_def)

text \<open>A session of the sandbox with one page reader, one file writer and one host command.\<close>

definition sample_config :: "unit exec_config" where
  "sample_config = \<lparr>x_sessionId = ''s'', x_mode = SandboxWithHostEscape,
     x_tools = [\<lparr>tool_name = ''browse_url'', actionKind = EgressRead, tool_taint = Some [WebTaint], hasTaintHook = False\<rparr>,
       \<lparr>tool_name = ''write_file'', actionKind = SandboxWrite, tool_taint = None, hasTaintHook = False\<rparr>,
       \<lparr>tool_name = ''run_command'', actionKind = HostCommand, tool_taint = None, hasTaintHook = False\<rparr>],
     x_definitions = None, x_hasConfirm = True, x_brokerEnabled = True, x_hasGrants = True,
     x_parse_url = (\<lambda>u. None), x_url_host = (\<lambda>u. None),
     x_check = (\<lambda>d n a. Dispatchable a), x_auditDetail = (\<lambda>n a. n)\<rparr>"

definition sample_call :: "string \<Rightarrow> string \<Rightarrow> string \<Rightarrow> string option \<Rightarrow> jsnum \<Rightarrow> chat_call" where
  "sample_call name k v out now = \<lparr>call_id = ''c'', call_name = name, call_args = [(k, JStr v)], confirm_answer = True,
     run_output = out, hook_labels = None, call_now = now\<rparr>"

definition sample_calls :: "chat_call list" where
  "sample_calls =
     [sample_call ''run_command'' ''command'' ''make'' (Some ''ok'') (Fin 5),
      sample_call ''run_command'' ''command'' ''make'' (Some ''ok'') (Fin 6),
      sample_call ''browse_url'' ''url'' ''http://a.b/'' (Some ''page'') (Fin 7),
      sample_call ''run_command'' ''command'' ''make'' (Some ''ok'') (Fin 8)]"

lemmas executor_eval = executor_trace_def execute_all_def start_executor_def executeTool_def gated_call_def
  confirm_call_def run_and_finish_def finish_call_def fold_output_taint_def audit_call_def recordEgressAttempt_def
  emit_def checked_arguments_def outputTaintForToolResult_def

lemma sample_trace:
  "map (\<lambda>e. case e of RanTool n k a now \<Rightarrow> Some (n, now) | _ \<Rightarrow> None) (executor_trace sample_config sample_calls []) =
     [None, None, Some (''run_command'', Fin 5), None, Some (''run_command'', Fin 6), None,
      None, None, Some (''browse_url'', Fin 7), None, None, None, None]"
  by code_simp

text \<open>
  C19. With the broker on, no host tool runs once untrusted content is in the context: before every
  run of a host tool, neither the session's labels nor any label a tool's output added since were
  untrusted, in every sequence of calls and whatever the environment answers.
\<close>

theorem tainted_runs_no_host_tool:
  assumes "x_brokerEnabled cfg"
    and "executor_trace cfg cs labels = before @ RanTool name kind args now # after" "host_action kind"
  shows "\<not> isTainted labels \<and> (\<forall>w. PublishedTaint w \<in> set before \<longrightarrow> \<not> isTainted w)"
proof -
  have "taint_inv cfg labels (execute_all cfg cs (start_executor labels))"
    unfolding execute_all_def by (rule taint_runs.fold_inv) (simp_all add: start_taint_inv)
  then have "always_before (host_runs_clean labels) (executor_trace cfg cs labels)"
    using assms(1) by (simp add: taint_inv_def executor_trace_def)
  then have "host_runs_clean labels before (RanTool name kind args now)"
    unfolding assms(2) by (rule always_before_split)
  then show ?thesis using assms(3) by (simp add: host_runs_clean_def clean_before_def)
qed

lemma sample_split:
  "executor_trace sample_config (take 2 sample_calls) [] =
     [AskedOperator ''c'' ''run_command'' [(''command'', JStr ''make'')] True, RecordedGrant ''s'' ''host_command:make'' (Fin 5)]
     @ RanTool ''run_command'' HostCommand [(''command'', JStr ''make'')] (Fin 5)
     # [Audited \<lparr>au_sessionId = ''s'', au_mode = SandboxWithHostEscape, au_action = HostCommand, au_decision = Confirm,
          au_confirmed = True, au_executed = True, au_detail = ''run_command''\<rparr>,
        RanTool ''run_command'' HostCommand [(''command'', JStr ''make'')] (Fin 6),
        Audited \<lparr>au_sessionId = ''s'', au_mode = SandboxWithHostEscape, au_action = HostCommand, au_decision = Confirm,
          au_confirmed = True, au_executed = True, au_detail = ''run_command''\<rparr>]"
  by code_simp

theorem tainted_runs_no_host_tool_witness: "\<not> isTainted []"
  using tainted_runs_no_host_tool[OF _ sample_split] by (simp add: sample_config_def host_action_def)

text \<open>
  C20. No silent host change, over any history of the process (turns, calls of any sessions under any
  configurations, grants revoked and cleared; grants outlive the executors). A tool that writes to the host or runs
  a host command runs only for the call that names it, with that call's checked arguments, in a mode that reaches
  the host. Before it ran, either the operator was asked about this very call (its id, tool and arguments) and
  agreed, or the session's grants hold one for exactly its scope key whose time is not over: then the
  operator had agreed to an earlier call of this session with the same scope key, and that consent was not
  revoked since.
\<close>

theorem host_changes_are_consented:
  assumes "call_effects cfg c (after_events hs) = before @ RanTool name kind args now # after"
    and "kind = HostWrite \<or> kind = HostCommand"
  shows "name = call_name c \<and> now = call_now c \<and> checked_arguments cfg c = Inr args \<and> x_mode cfg \<noteq> IsolatedReadonly
    \<and> (AskedOperator (call_id c) name (call_args c) True \<in> set before
       \<or> x_hasGrants cfg \<and> (\<exists>expiry. js_lt now expiry
            \<and> consented_earlier hs (x_sessionId cfg) (scopeKeyForChatCall (x_url_host cfg) kind name args) expiry))"
proof -
  obtain tool gs' where run: "called cfg c tool args" "kind = actionKind tool" "name = call_name c" "now = call_now c"
    "x_mode cfg \<noteq> IsolatedReadonly" "confirmed_by cfg c tool args (x_grants (after_events hs)) before gs'"
    using host_run_confirmed[OF assms(1)] assms(2) by (auto simp: host_change_def)
  from run(6) have "agreed_to c \<in> set before \<or> x_hasGrants cfg
      \<and> covers_grant (x_sessionId cfg) (scope_key cfg c tool args) (call_now c) (x_grants (after_events hs))"
    by cases auto
  then show ?thesis using run grants_consented[of hs "x_sessionId cfg" "scope_key cfg c tool args"]
    by (auto simp: covers_iff scope_key_def called_def)
qed

text \<open>The second call, in a later turn, is not asked about: the consent to the first covers it.\<close>

definition sample_history :: "unit chat_event list" where
  "sample_history = [NewTurn [], ToolCall sample_config (hd sample_calls), NewTurn []]"

definition later_call :: chat_call where
  "later_call = (sample_calls ! 1)\<lparr>confirm_answer := False\<rparr>"

lemma later_call_runs:
  "call_effects sample_config later_call (after_events sample_history) =
     [] @ RanTool ''run_command'' HostCommand [(''command'', JStr ''make'')] (Fin 6)
     # [Audited \<lparr>au_sessionId = ''s'', au_mode = SandboxWithHostEscape, au_action = HostCommand, au_decision = Confirm,
          au_confirmed = True, au_executed = True, au_detail = ''run_command''\<rparr>]"
  by code_simp

theorem host_changes_are_consented_witness:
  "\<exists>expiry. js_lt (Fin 6) expiry \<and> consented_earlier sample_history ''s'' ''host_command:make'' expiry"
proof -
  have k: "scopeKeyForChatCall (x_url_host sample_config) HostCommand ''run_command'' [(''command'', JStr ''make'')] = ''host_command:make''"
    "x_sessionId sample_config = ''s''" by code_simp+
  show ?thesis
    using host_changes_are_consented[OF later_call_runs, unfolded k list.set empty_iff] by blast
qed

section \<open>The audit log\<close>


text \<open>The host command that throws: it ran, and the log holds nothing.\<close>

lemma throwing_command_unrecorded:
  "fst (executeTool sample_config (sample_call ''run_command'' ''command'' ''make'' None (Fin 5)) (start_executor [])) = Threw
   \<and> audits (executor_trace sample_config [sample_call ''run_command'' ''command'' ''make'' None (Fin 5)] []) = []
   \<and> RanTool ''run_command'' HostCommand [(''command'', JStr ''make'')] (Fin 5)
       \<in> set (executor_trace sample_config [sample_call ''run_command'' ''command'' ''make'' None (Fin 5)] [])"
  by code_simp

text \<open>Scope keys of different actions collide: a search and a page of a host named like it.\<close>

lemma scope_keys_collide:
  "scopeKeyForChatCall (\<lambda>u. Some ''search:81'') EgressRead ''browse_url'' [(''url'', JStr ''http://search:81/'')]
     = scopeKeyForChatCall (\<lambda>u. Some ''search:81'') EgressRead ''web_search'' [(''query'', JStr ''81'')]"
  by code_simp

end
