(* ===== verification/RunPhases.thy ===== *)
theory RunPhases
  imports CapabilityBroker
begin

text \<open>
  The run controller's phase ladder (\<^verbatim>\<open>src/core/run-state-machine.ts\<close>) and the tools a phase
  offers (\<^verbatim>\<open>src/core/manifest-phase-gate.ts\<close>, \<^verbatim>\<open>src/chat/chat-phase-tool-plan.ts\<close>): the
  next phase is decided from observed evidence, the driver follows the ladder until it is terminal,
  stalls or has used its transitions.

  The evidence source is called with the phase and the transitions made so far. Each call sees one
  transition more, so a function of these arguments covers a source with a state of its own.
\<close>

section \<open>Phases and evidence\<close>

datatype run_phase =
    Intake | PlanPhase | ValidatePlan | Localize | ExecuteStep | Observe | Evaluate | Repair
  | RetryOrSplit | Review | MergeOrEscalate | Done | Park | Escalate

fun phase_str :: "run_phase \<Rightarrow> string" where
  "phase_str Intake = ''intake''"
| "phase_str PlanPhase = ''plan''"
| "phase_str ValidatePlan = ''validate_plan''"
| "phase_str Localize = ''localize''"
| "phase_str ExecuteStep = ''execute_step''"
| "phase_str Observe = ''observe''"
| "phase_str Evaluate = ''evaluate''"
| "phase_str Repair = ''repair''"
| "phase_str RetryOrSplit = ''retry_or_split''"
| "phase_str Review = ''review''"
| "phase_str MergeOrEscalate = ''merge_or_escalate''"
| "phase_str Done = ''done''"
| "phase_str Park = ''park''"
| "phase_str Escalate = ''escalate''"

definition isTerminalRunPhase :: "run_phase \<Rightarrow> bool" where
  "isTerminalRunPhase p \<longleftrightarrow> p = Done \<or> p = Park \<or> p = Escalate"

record run_evidence =
  planValid :: "bool option"
  localized :: "bool option"
  stepSucceeded :: "bool option"
  allStepsComplete :: "bool option"
  repairSucceeded :: "bool option"
  reviewPassed :: "bool option"
  modelSelfReportedComplete :: "bool option"
  budgetExhausted :: "bool option"
  needsSplit :: "bool option"
  rungsExhausted :: "bool option"

text \<open>A missing field is falsy.\<close>

definition holds :: "bool option \<Rightarrow> bool" where
  "holds b \<longleftrightarrow> b = Some True"

record phase_decision =
  next_phase :: run_phase
  phase_reason :: string

definition to_phase :: "run_phase \<Rightarrow> string \<Rightarrow> phase_decision" where
  "to_phase p r = \<lparr>next_phase = p, phase_reason = r\<rparr>"

definition decideNextPhase :: "run_phase \<Rightarrow> run_evidence \<Rightarrow> phase_decision" where
  "decideNextPhase current ev =
     (if \<not> isTerminalRunPhase current \<and> holds (budgetExhausted ev)
      then to_phase Park (dashed (''Phase '' @ quote_str (phase_str current) @ '' budget exhausted'')
             ''parking for review/escalation.'')
      else (case current of
        Intake \<Rightarrow> to_phase PlanPhase (dashed ''Intake complete'' ''proceed to planning.'')
      | PlanPhase \<Rightarrow> to_phase ValidatePlan (dashed ''Plan drafted'' ''validate it before acting.'')
      | ValidatePlan \<Rightarrow>
          (if holds (planValid ev)
           then to_phase Localize (dashed ''Plan is valid'' ''localize the change site before mutating.'')
           else to_phase PlanPhase (dashed ''Plan invalid'' ''replan (no acting on an invalid plan).''))
      | Localize \<Rightarrow>
          (if holds (localized ev)
           then to_phase ExecuteStep (dashed ''Change site localized'' ''safe to execute the step.'')
           else to_phase Localize (dashed ''Not yet localized'' ''repo mutation is forbidden until it is.''))
      | ExecuteStep \<Rightarrow> to_phase Observe (dashed ''Step executed'' ''observe its actual effect.'')
      | Observe \<Rightarrow> to_phase Evaluate (dashed ''Effect observed'' ''evaluate against acceptance evidence.'')
      | Evaluate \<Rightarrow>
          (if holds (allStepsComplete ev)
           then to_phase Review (dashed ''All required steps have acceptance evidence'' ''proceed to review.'')
           else if holds (stepSucceeded ev)
           then to_phase ExecuteStep (dashed ''Step succeeded but the run is incomplete'' ''execute the next step.'')
           else to_phase Repair (dashed ''Step did not produce its intended effect'' ''attempt repair.''))
      | Repair \<Rightarrow>
          (if holds (repairSucceeded ev)
           then to_phase Evaluate (dashed ''Repair restored a workable state'' ''re-evaluate.'')
           else to_phase RetryOrSplit (dashed ''Repair did not fix it'' ''decide retry vs split.''))
      | RetryOrSplit \<Rightarrow>
          (if holds (needsSplit ev)
           then to_phase PlanPhase
             (dashed (''Local repair can'' @ apostrophe @ ''t restore coherence'') ''re-decompose (split) and replan.'')
           else if holds (rungsExhausted ev)
           then to_phase Escalate (dashed ''Every recovery rung tried without success'' ''escalate.'')
           else to_phase ExecuteStep
             (dashed ''Untried recovery rung remains'' ''retry the step with the next strategy.''))
      | Review \<Rightarrow>
          (if holds (reviewPassed ev)
           then to_phase MergeOrEscalate (dashed ''Review passed'' ''proceed to merge/finish.'')
           else to_phase Repair (dashed ''Review failed (e.g. a defect found)'' ''repair before finishing.''))
      | MergeOrEscalate \<Rightarrow> to_phase Done (dashed ''Merged/finished'' ''run complete.'')
      | _ \<Rightarrow> to_phase current (''Phase '' @ quote_str (phase_str current) @ '' is terminal.'')))"

section \<open>The policy of a phase\<close>

record phase_policy =
  maxMutationLevel :: mutation_level
  maxToolCalls :: nat

definition policy :: "mutation_level \<Rightarrow> nat \<Rightarrow> phase_policy" where
  "policy l n = \<lparr>maxMutationLevel = l, maxToolCalls = n\<rparr>"

fun runPhasePolicy :: "run_phase \<Rightarrow> phase_policy" where
  "runPhasePolicy Intake = policy ReadLevel 3"
| "runPhasePolicy PlanPhase = policy ControlPlaneLevel 4"
| "runPhasePolicy ValidatePlan = policy ReadLevel 3"
| "runPhasePolicy Localize = policy ReadLevel 6"
| "runPhasePolicy ExecuteStep = policy SandboxWriteLevel 10"
| "runPhasePolicy Observe = policy ReadLevel 4"
| "runPhasePolicy Evaluate = policy ReadLevel 4"
| "runPhasePolicy Repair = policy SandboxWriteLevel 8"
| "runPhasePolicy RetryOrSplit = policy ReadLevel 2"
| "runPhasePolicy Review = policy ReadLevel 6"
| "runPhasePolicy MergeOrEscalate = policy ControlPlaneLevel 4"
| "runPhasePolicy Done = policy ReadLevel 0"
| "runPhasePolicy Park = policy ReadLevel 0"
| "runPhasePolicy Escalate = policy ReadLevel 0"

definition isToolAllowedInPhase :: "run_phase \<Rightarrow> mutation_level \<Rightarrow> bool" where
  "isToolAllowedInPhase p l \<longleftrightarrow> mutation_rank l \<le> mutation_rank (maxMutationLevel (runPhasePolicy p))"

definition selectPhaseTools :: "run_phase \<Rightarrow> ('t \<Rightarrow> mutation_level) \<Rightarrow> 't list \<Rightarrow> 't list" where
  "selectPhaseTools p level tools = filter (\<lambda>t. isToolAllowedInPhase p (level t)) tools"

definition manifestAllowedInPhase :: "manifest \<Rightarrow> run_phase \<Rightarrow> bool" where
  "manifestAllowedInPhase m p = isToolAllowedInPhase p (mutationLevel m)"

definition selectPhaseManifestTools :: "run_phase \<Rightarrow> ('t \<times> manifest) list \<Rightarrow> ('t \<times> manifest) list" where
  "selectPhaseManifestTools p tools = filter (\<lambda>t. manifestAllowedInPhase (snd t) p) tools"

text \<open>A tool of the plan is its name and its action kind; a definition has a name.\<close>

record 'd phase_tool_plan =
  pt_phase :: run_phase
  pt_tools :: "(string \<times> action_kind) list"
  pt_definitions :: "(string \<times> 'd) list"
  pt_offeredToolNames :: "string list"
  pt_maxIterations :: nat

definition buildChatPhaseToolPlan ::
  "run_phase \<Rightarrow> (string \<times> action_kind) list \<Rightarrow> (string \<times> 'd) list \<Rightarrow> 'd phase_tool_plan" where
  "buildChatPhaseToolPlan p tools defs =
     (let manifested = map (\<lambda>t. (t, manifestForChatAction (snd t))) tools;
          selected = (if maxToolCalls (runPhasePolicy p) > 0
                      then map fst (selectPhaseManifestTools p manifested) else []);
          names = set (map fst selected);
          sdefs = filter (\<lambda>d. fst d \<in> names) defs
      in \<lparr>pt_phase = p, pt_tools = selected, pt_definitions = sdefs, pt_offeredToolNames = map fst sdefs,
          pt_maxIterations = maxToolCalls (runPhasePolicy p)\<rparr>)"

section \<open>The driver\<close>

record run_transition =
  tr_from :: run_phase
  tr_to :: run_phase
  tr_evidence :: run_evidence
  tr_reason :: string
  tr_policy :: phase_policy

datatype stop_reason = StopTerminal | StopStalled | StopMaxTransitions

record flow_result =
  finalPhase :: run_phase
  transitions :: "run_transition list"
  stoppedReason :: stop_reason

definition stop_flow :: "run_phase \<Rightarrow> run_transition list \<Rightarrow> stop_reason \<Rightarrow> flow_result" where
  "stop_flow p ts r = \<lparr>finalPhase = p, transitions = ts, stoppedReason = r\<rparr>"

definition flow_transition :: "run_phase \<Rightarrow> run_evidence \<Rightarrow> run_transition" where
  "flow_transition p ev =
     (let d = decideNextPhase p ev in
      \<lparr>tr_from = p, tr_to = next_phase d, tr_evidence = ev, tr_reason = phase_reason d, tr_policy = runPhasePolicy p\<rparr>)"

text \<open>
  The loop, with the bound it compares the index to; it may not end when the bound is infinite.
\<close>

partial_function (option) flow_loop ::
  "(run_phase \<Rightarrow> run_transition list \<Rightarrow> run_evidence) \<Rightarrow> jsnum \<Rightarrow> nat \<Rightarrow> run_phase \<Rightarrow> run_transition list
    \<Rightarrow> flow_result option" where
  "flow_loop evidence bound i p ts =
     (if \<not> js_lt (Fin (of_nat i)) bound then Some (stop_flow p ts StopMaxTransitions)
      else if isTerminalRunPhase p then Some (stop_flow p ts StopTerminal)
      else (let t = flow_transition p (evidence p ts) in
        if tr_to t = p then Some (stop_flow p (ts @ [t]) StopStalled)
        else flow_loop evidence bound (Suc i) (tr_to t) (ts @ [t])))"

definition flow_bound :: "jsnum option \<Rightarrow> jsnum" where
  "flow_bound maxTransitions =
     js_max (Fin 1) (js_trunc (case maxTransitions of None \<Rightarrow> Fin 32 | Some m \<Rightarrow> m))"

definition driveRunPhaseFlow ::
  "run_phase option \<Rightarrow> jsnum option \<Rightarrow> (run_phase \<Rightarrow> run_transition list \<Rightarrow> run_evidence) \<Rightarrow> flow_result option" where
  "driveRunPhaseFlow initialPhase maxTransitions evidence =
     flow_loop evidence (flow_bound maxTransitions) 0
       (case initialPhase of None \<Rightarrow> Intake | Some p \<Rightarrow> p) []"

end
