(* ===== verification/RunLadder.thy ===== *)
theory RunLadder
  imports RunPhases
begin

text \<open>
  The paths of the run controller: a step relation on the ladder with the transitions as its
  history, the history invariants (mutation after localization, completion after evidence, the
  budget parks), the driver as a bounded walk of the relation, and its termination.
\<close>

section \<open>The step relation\<close>

inductive ladder :: "run_phase \<Rightarrow> run_transition list \<Rightarrow> run_phase \<Rightarrow> bool" for p0 :: run_phase where
  at_start: "ladder p0 [] p0"
| one_step: "ladder p0 ts p \<Longrightarrow> \<not> isTerminalRunPhase p \<Longrightarrow>
    ladder p0 (ts @ [flow_transition p ev]) (next_phase (decideNextPhase p ev))"

inductive_cases ladder_emptyE: "ladder p0 [] p"
inductive_cases ladder_snocE: "ladder p0 (ts @ [t]) p"

lemma transition_fields [simp]:
  "tr_from (flow_transition p ev) = p" "tr_evidence (flow_transition p ev) = ev"
  "tr_to (flow_transition p ev) = next_phase (decideNextPhase p ev)"
  "tr_reason (flow_transition p ev) = phase_reason (decideNextPhase p ev)"
  "tr_policy (flow_transition p ev) = runPhasePolicy p"
  by (simp_all add: flow_transition_def Let_def)

text \<open>Where each phase is entered from, and on what evidence: the table read backwards.\<close>

lemma next_phase_cases:
  "next_phase (decideNextPhase p ev) =
     (if \<not> isTerminalRunPhase p \<and> holds (budgetExhausted ev) then Park
      else case p of Intake \<Rightarrow> PlanPhase | PlanPhase \<Rightarrow> ValidatePlan
      | ValidatePlan \<Rightarrow> if holds (planValid ev) then Localize else PlanPhase
      | Localize \<Rightarrow> if holds (localized ev) then ExecuteStep else Localize
      | ExecuteStep \<Rightarrow> Observe | Observe \<Rightarrow> Evaluate
      | Evaluate \<Rightarrow> if holds (allStepsComplete ev) then Review
                   else if holds (stepSucceeded ev) then ExecuteStep else Repair
      | Repair \<Rightarrow> if holds (repairSucceeded ev) then Evaluate else RetryOrSplit
      | RetryOrSplit \<Rightarrow> if holds (needsSplit ev) then PlanPhase
                       else if holds (rungsExhausted ev) then Escalate else ExecuteStep
      | Review \<Rightarrow> if holds (reviewPassed ev) then MergeOrEscalate else Repair
      | MergeOrEscalate \<Rightarrow> Done | q \<Rightarrow> q)"
  by (cases p) (auto simp: decideNextPhase_def to_phase_def)

lemma enters_done:
  "next_phase (decideNextPhase p ev) = Done \<Longrightarrow> \<not> isTerminalRunPhase p \<Longrightarrow> p = MergeOrEscalate"
  by (cases p) (auto simp: next_phase_cases isTerminalRunPhase_def split: if_splits)

lemma enters_merge:
  "next_phase (decideNextPhase p ev) = MergeOrEscalate \<Longrightarrow> p = Review \<and> holds (reviewPassed ev)"
  by (cases p) (auto simp: next_phase_cases isTerminalRunPhase_def split: if_splits)

lemma enters_review:
  "next_phase (decideNextPhase p ev) = Review \<Longrightarrow> p = Evaluate \<and> holds (allStepsComplete ev)"
  by (cases p) (auto simp: next_phase_cases isTerminalRunPhase_def split: if_splits)

section \<open>Histories\<close>

text \<open>Localized since the plan was last entered; the latest transition comes first.\<close>

fun localized_since :: "run_transition list \<Rightarrow> bool" where
  "localized_since [] = False"
| "localized_since (t # ts) =
     (if tr_to t = PlanPhase then False
      else if tr_from t = Localize \<and> holds (localized (tr_evidence t)) then True
      else localized_since ts)"

definition past_localization :: "run_phase \<Rightarrow> bool" where
  "past_localization p \<longleftrightarrow> p \<in> {ExecuteStep, Observe, Evaluate, Repair, RetryOrSplit, Review, MergeOrEscalate, Done, Escalate}"

lemma past_localization_step:
  assumes "past_localization (next_phase (decideNextPhase p ev))" "\<not> isTerminalRunPhase p"
  shows "past_localization p \<or> p = Localize \<and> holds (localized ev)"
  using assms by (cases p) (auto simp: past_localization_def next_phase_cases split: if_splits)

lemma localized_path: "ladder Intake ts p \<Longrightarrow> past_localization p \<Longrightarrow> localized_since (rev ts)"
proof (induction rule: ladder.induct)
  case at_start
  then show ?case by (simp add: past_localization_def)
next
  case (one_step ts p ev)
  have "next_phase (decideNextPhase p ev) \<noteq> PlanPhase"
    using one_step.prems by (auto simp: past_localization_def)
  then show ?case using past_localization_step[OF one_step.prems one_step.hyps(2)] one_step.IH by auto
qed

lemma ladder_prefix: "ladder p0 ts p \<Longrightarrow> i < length ts \<Longrightarrow> ladder p0 (take (Suc i) ts) (tr_to (ts ! i))"
proof (induction rule: ladder.induct)
  case at_start
  then show ?case by simp
next
  case (one_step ts p ev)
  show ?case
  proof (cases "i = length ts")
    case True
    then show ?thesis using ladder.one_step[OF one_step.hyps, of ev] by simp
  next
    case False
    then show ?thesis using one_step by (simp add: nth_append)
  qed
qed

text \<open>The phases whose policy offers writes to the sandbox: planning is one of them.\<close>

lemma writing_phases: "isToolAllowedInPhase p SandboxWriteLevel \<longleftrightarrow> p \<in> {PlanPhase, ExecuteStep, Repair, MergeOrEscalate}"
  by (cases p; simp add: isToolAllowedInPhase_def policy_def)

lemma mutation_after_localization:
  assumes "ladder Intake ts p" "i < length ts" "isToolAllowedInPhase (tr_to (ts ! i)) SandboxWriteLevel"
  shows "tr_to (ts ! i) = PlanPhase \<or> localized_since (rev (take (Suc i) ts))"
  using localized_path[OF ladder_prefix[OF assms(1,2)]] assms(3) by (auto simp: past_localization_def writing_phases)

lemma ladder_budget: "ladder p0 ts p \<Longrightarrow> t \<in> set ts \<Longrightarrow> holds (budgetExhausted (tr_evidence t)) \<Longrightarrow> tr_to t = Park"
  by (induction rule: ladder.induct) (auto simp: next_phase_cases)

text \<open>The last three transitions of a completed run.\<close>

definition finished_by_evidence :: "run_transition list \<Rightarrow> bool" where
  "finished_by_evidence ts \<longleftrightarrow> (\<exists>rest e r m. ts = rest @ [e, r, m]
     \<and> tr_from e = Evaluate \<and> holds (allStepsComplete (tr_evidence e))
     \<and> tr_from r = Review \<and> holds (reviewPassed (tr_evidence r))
     \<and> tr_from m = MergeOrEscalate)"

lemma last_transition:
  assumes "ladder p0 ts p" "p \<noteq> p0"
  obtains rest q ev where "ts = rest @ [flow_transition q ev]" "ladder p0 rest q" "\<not> isTerminalRunPhase q"
    "p = next_phase (decideNextPhase q ev)"
  using assms by (cases rule: ladder.cases) auto

lemma done_by_evidence:
  assumes "ladder Intake ts Done"
  shows "finished_by_evidence ts"
proof -
  obtain t3 q3 e3 where 3: "ts = t3 @ [flow_transition q3 e3]" "ladder Intake t3 q3" "\<not> isTerminalRunPhase q3"
    "Done = next_phase (decideNextPhase q3 e3)"
    using assms by (rule last_transition) auto
  then have q3: "q3 = MergeOrEscalate" using enters_done by metis
  obtain t2 q2 e2 where 2: "t3 = t2 @ [flow_transition q2 e2]" "ladder Intake t2 q2"
    "q3 = next_phase (decideNextPhase q2 e2)"
    using 3(2) by (rule last_transition) (auto simp: q3)
  then have q2: "q2 = Review" "holds (reviewPassed e2)" using enters_merge q3 by metis+
  obtain t1 q1 e1 where 1: "t2 = t1 @ [flow_transition q1 e1]" "q2 = next_phase (decideNextPhase q1 e1)"
    using 2(2) by (rule last_transition) (auto simp: q2)
  then have q1: "q1 = Evaluate" "holds (allStepsComplete e1)" using enters_review q2 by metis+
  show ?thesis unfolding finished_by_evidence_def
    using 1 2 3 q1 q2 q3 by (intro exI[of _ t1] exI[of _ "flow_transition q1 e1"]
        exI[of _ "flow_transition q2 e2"] exI[of _ "flow_transition q3 e3"]) simp
qed

section \<open>The driver\<close>

declare flow_loop.simps [code]

lemma flow_loop_ladder:
  assumes "flow_loop evidence bound i p ts = Some r" "ladder p0 ts p"
  shows "ladder p0 (transitions r) (finalPhase r)"
proof -
  have "ladder p0 ts p \<longrightarrow> ladder p0 (transitions r) (finalPhase r)"
  proof (rule flow_loop.raw_induct[where P = "\<lambda>ev b i p ts r. ladder p0 ts p \<longrightarrow> ladder p0 (transitions r) (finalPhase r)",
        OF _ assms(1)], rule impI, goal_cases)
    case (1 flow ev b i p ts r)
    show ?case
    proof (cases "\<not> js_lt (Fin (of_nat i)) b \<or> isTerminalRunPhase p")
      case True
      then show ?thesis using 1 by (auto simp: stop_flow_def split: if_splits)
    next
      case False
      let ?t = "flow_transition p (ev p ts)"
      have l: "ladder p0 (ts @ [?t]) (tr_to ?t)"
        using one_step[OF 1(3), of "ev p ts"] False by simp
      show ?thesis
      proof (cases "tr_to ?t = p")
        case True
        then have "r = stop_flow p (ts @ [?t]) StopStalled" using 1(2) False by (simp add: Let_def)
        then show ?thesis using l True by (simp add: stop_flow_def)
      next
        case neq: False
        then have "flow ev b (Suc i) (tr_to ?t) (ts @ [?t]) = Some r" using 1(2) False by (simp add: Let_def)
        then show ?thesis using 1(1) l by blast
      qed
    qed
  qed
  with assms(2) show ?thesis by blast
qed

text \<open>How a walk may stop.\<close>

definition flow_stops_ok :: "jsnum \<Rightarrow> nat \<Rightarrow> flow_result \<Rightarrow> bool" where
  "flow_stops_ok bound n r \<longleftrightarrow> length (transitions r) = n \<and> (case stoppedReason r of
       StopMaxTransitions \<Rightarrow> \<not> js_lt (Fin (of_nat n)) bound
     | StopTerminal \<Rightarrow> isTerminalRunPhase (finalPhase r)
     | StopStalled \<Rightarrow> finalPhase r = Localize \<and> tr_from (last (transitions r)) = Localize
         \<and> \<not> holds (localized (tr_evidence (last (transitions r)))))"

text \<open>With a bound that is a whole number of transitions, or none at all, the walk ends within it.\<close>

lemma stalls_only_localizing:
  "next_phase (decideNextPhase p ev) = p \<Longrightarrow> \<not> isTerminalRunPhase p \<Longrightarrow> p = Localize \<and> \<not> holds (localized ev)"
  by (cases p) (auto simp: next_phase_cases isTerminalRunPhase_def split: if_splits)

lemma flow_loop_ends:
  assumes "\<not> js_lt (Fin (of_nat (i + fuel))) bound" "length ts = i" "bound = NaN \<or> (\<exists>n. bound = Fin (of_nat n))"
  shows "\<exists>r k. flow_loop evidence bound i p ts = Some r \<and> k \<le> i + fuel \<and> flow_stops_ok bound k r"
  using assms(1,2)
proof (induction fuel arbitrary: i p ts)
  case 0
  then show ?case
    by (subst flow_loop.simps) (auto simp: flow_stops_ok_def stop_flow_def)
next
  case (Suc fuel)
  let ?t = "flow_transition p (evidence p ts)"
  consider "\<not> js_lt (Fin (of_nat i)) bound" | "js_lt (Fin (of_nat i)) bound" "isTerminalRunPhase p"
    | "js_lt (Fin (of_nat i)) bound" "\<not> isTerminalRunPhase p" "tr_to ?t = p"
    | "js_lt (Fin (of_nat i)) bound" "\<not> isTerminalRunPhase p" "tr_to ?t \<noteq> p"
    by blast
  then show ?case
  proof cases
    case 1
    then show ?thesis using Suc.prems by (subst flow_loop.simps) (auto simp: flow_stops_ok_def stop_flow_def)
  next
    case 2
    then show ?thesis using Suc.prems by (subst flow_loop.simps) (auto simp: flow_stops_ok_def stop_flow_def)
  next
    case 3
    then have "p = Localize \<and> \<not> holds (localized (evidence p ts))"
      using stalls_only_localizing by simp
    with 3 show ?thesis using Suc.prems
      by (subst flow_loop.simps) (auto simp: flow_stops_ok_def stop_flow_def Let_def)
  next
    case 4
    have "\<exists>r k. flow_loop evidence bound (Suc i) (tr_to ?t) (ts @ [?t]) = Some r \<and> k \<le> Suc i + fuel
        \<and> flow_stops_ok bound k r"
      using Suc.prems by (intro Suc.IH) auto
    with 4 show ?thesis by (subst flow_loop.simps) (simp add: Let_def)
  qed
qed

lemma flow_bound_whole:
  assumes "m \<noteq> Some PosInf"
  shows "flow_bound m = NaN \<or> (\<exists>n\<ge>1. flow_bound m = Fin (of_nat n))"
proof -
  have whole: "\<exists>n\<ge>1. Fin (max 1 (of_int i)) = Fin (of_nat n :: rat)" for i :: int
    by (intro exI[of _ "nat (max 1 i)"]) auto
  show ?thesis
  proof (cases m)
    case None
    then show ?thesis by (auto simp: flow_bound_def intro!: exI[of _ 32])
  next
    case (Some x)
    with assms show ?thesis
    proof (cases x)
      case (Fin q)
      then have "flow_bound m = Fin (max 1 (of_int (rat_trunc q)))" using Some by (simp add: flow_bound_def)
      then show ?thesis using whole by metis
    next
      case NegInf
      then have "flow_bound m = Fin (of_nat 1)" using Some by (simp add: flow_bound_def js_max_def)
      then show ?thesis by blast
    next
      case NaN
      then show ?thesis using Some by (simp add: flow_bound_def js_max_def)
    qed (use assms Some in simp)
  qed
qed

text \<open>With an infinite bound, a plan that never becomes valid and a budget that is never spent, the loop never returns.\<close>

definition replanning :: "run_phase \<Rightarrow> bool" where
  "replanning p \<longleftrightarrow> p = Intake \<or> p = PlanPhase \<or> p = ValidatePlan"

lemma replanning_step:
  assumes "replanning p" "\<not> holds (planValid ev)" "\<not> holds (budgetExhausted ev)"
  shows "replanning (next_phase (decideNextPhase p ev))" "next_phase (decideNextPhase p ev) \<noteq> p" "\<not> isTerminalRunPhase p"
  using assms by (cases p; simp add: replanning_def next_phase_cases isTerminalRunPhase_def)+

lemma replans_for_ever:
  assumes "\<And>p ts. \<not> holds (planValid (evidence p ts)) \<and> \<not> holds (budgetExhausted (evidence p ts))"
    and "flow_loop evidence PosInf i Intake ts = Some r"
  shows False
proof -
  define stuck where "stuck = (\<lambda>(ev :: run_phase \<Rightarrow> run_transition list \<Rightarrow> run_evidence) b p.
    ev = evidence \<and> b = PosInf \<and> replanning p)"
  have "\<not> stuck evidence PosInf Intake"
  proof (rule flow_loop.raw_induct[where P = "\<lambda>ev b i p ts r. \<not> stuck ev b p", OF _ assms(2)], rule notI, goal_cases)
    case (1 flow ev b i p ts r)
    then have ev: "ev = evidence" "b = PosInf" "replanning p" by (simp_all add: stuck_def)
    let ?t = "flow_transition p (evidence p ts)"
    have "replanning (tr_to ?t)" "tr_to ?t \<noteq> p" "\<not> isTerminalRunPhase p"
      using replanning_step[OF ev(3), of "evidence p ts"] assms(1) by simp_all
    with 1(2) ev have "flow evidence PosInf (Suc i) (tr_to ?t) (ts @ [?t]) = Some r" by (simp add: Let_def)
    then have "\<not> stuck evidence PosInf (tr_to ?t)" by (rule 1(1))
    then show False using \<open>replanning (tr_to ?t)\<close> by (simp add: stuck_def)
  qed
  then show False by (simp add: stuck_def replanning_def)
qed

end
