(* ===== verification/WorkflowKernel.thy ===== *)
theory WorkflowKernel
  imports BoardData
begin

text \<open>
  The workflow kernel: the lifecycle of a card as a total reducer on phases and commands
  (\<^verbatim>\<open>src/core/workflow-kernel.ts\<close>), the column a phase belongs to
  (\<^verbatim>\<open>src/core/workflow-board-bridge.ts\<close>) and the shadow check that compares it with the board
  (\<^verbatim>\<open>src/core/phase-lane-divergence.ts\<close>). A board of many cards, with admission to a bounded number of
  worker slots, is a step relation over the reducer.
\<close>

section \<open>Phases, commands, effects\<close>

datatype wf_phase =
    WIdle | WCreated | WQueuedBoard | WQueuedEndpoint | WQueuedSandbox | WPlanning | WImplementing
  | WAwaitingAcceptance | WPaused | WAwaitingReview | WReviewing | WReadyForDelivery | WDelivering
  | WCompleted | WFailed | WCancelled

datatype wf_command =
    StartRequested | BoardCapacityGranted | EndpointGranted | SandboxGranted | BeginImplementation
  | ImplementationFinished | AcceptancePassed | AcceptanceFailed | PauseRequested | ResumeRequested
  | ReviewStarted | ReviewPassed | ReviewChangesRequested | DeliveryRequested | Delivered
  | FailedCommand | CancelRequested | Reopened | DecompositionComplete | CardCreated

datatype wf_resource = BoardCapacity | EndpointCapacity | SandboxCapacity

datatype wf_effect =
    Enqueue wf_resource | StartSession | RunAcceptance | RequestReview | CaptureResultBranch | MarkDone
  | ReleaseResources

fun wf_phase_str :: "wf_phase \<Rightarrow> string" where
  "wf_phase_str WIdle = ''idle''"
| "wf_phase_str WCreated = ''created''"
| "wf_phase_str WQueuedBoard = ''queued_for_board_capacity''"
| "wf_phase_str WQueuedEndpoint = ''queued_for_endpoint''"
| "wf_phase_str WQueuedSandbox = ''queued_for_sandbox''"
| "wf_phase_str WPlanning = ''planning''"
| "wf_phase_str WImplementing = ''implementing''"
| "wf_phase_str WAwaitingAcceptance = ''awaiting_acceptance''"
| "wf_phase_str WPaused = ''paused''"
| "wf_phase_str WAwaitingReview = ''awaiting_review''"
| "wf_phase_str WReviewing = ''reviewing''"
| "wf_phase_str WReadyForDelivery = ''ready_for_delivery''"
| "wf_phase_str WDelivering = ''delivering''"
| "wf_phase_str WCompleted = ''completed''"
| "wf_phase_str WFailed = ''failed''"
| "wf_phase_str WCancelled = ''cancelled''"

fun wf_command_str :: "wf_command \<Rightarrow> string" where
  "wf_command_str StartRequested = ''start_requested''"
| "wf_command_str BoardCapacityGranted = ''board_capacity_granted''"
| "wf_command_str EndpointGranted = ''endpoint_granted''"
| "wf_command_str SandboxGranted = ''sandbox_granted''"
| "wf_command_str BeginImplementation = ''begin_implementation''"
| "wf_command_str ImplementationFinished = ''implementation_finished''"
| "wf_command_str AcceptancePassed = ''acceptance_passed''"
| "wf_command_str AcceptanceFailed = ''acceptance_failed''"
| "wf_command_str PauseRequested = ''pause_requested''"
| "wf_command_str ResumeRequested = ''resume_requested''"
| "wf_command_str ReviewStarted = ''review_started''"
| "wf_command_str ReviewPassed = ''review_passed''"
| "wf_command_str ReviewChangesRequested = ''review_changes_requested''"
| "wf_command_str DeliveryRequested = ''delivery_requested''"
| "wf_command_str Delivered = ''delivered''"
| "wf_command_str FailedCommand = ''failed''"
| "wf_command_str CancelRequested = ''cancel_requested''"
| "wf_command_str Reopened = ''reopened''"
| "wf_command_str DecompositionComplete = ''decomposition_complete''"
| "wf_command_str CardCreated = ''card_created''"

definition isTerminalWorkflowPhase :: "wf_phase \<Rightarrow> bool" where
  "isTerminalWorkflowPhase p \<longleftrightarrow> p \<in> {WCompleted, WFailed, WCancelled}"

datatype wf_class =
    IdleClass | CreatedClass | WaitingCapacity | RunningClass | ReviewingClass | PausedClass
  | AwaitingVerdict | TerminalClass

fun classifyWorkflowPhase :: "wf_phase \<Rightarrow> wf_class" where
  "classifyWorkflowPhase WIdle = IdleClass"
| "classifyWorkflowPhase WCreated = CreatedClass"
| "classifyWorkflowPhase WQueuedBoard = WaitingCapacity"
| "classifyWorkflowPhase WQueuedEndpoint = WaitingCapacity"
| "classifyWorkflowPhase WQueuedSandbox = WaitingCapacity"
| "classifyWorkflowPhase WPaused = PausedClass"
| "classifyWorkflowPhase WAwaitingReview = AwaitingVerdict"
| "classifyWorkflowPhase WReviewing = ReviewingClass"
| "classifyWorkflowPhase WPlanning = RunningClass"
| "classifyWorkflowPhase WImplementing = RunningClass"
| "classifyWorkflowPhase WAwaitingAcceptance = RunningClass"
| "classifyWorkflowPhase WReadyForDelivery = RunningClass"
| "classifyWorkflowPhase WDelivering = RunningClass"
| "classifyWorkflowPhase WCompleted = TerminalClass"
| "classifyWorkflowPhase WFailed = TerminalClass"
| "classifyWorkflowPhase WCancelled = TerminalClass"

definition isLiveWorkflowPhase :: "wf_phase \<Rightarrow> bool" where
  "isLiveWorkflowPhase p \<longleftrightarrow>
     (let c = classifyWorkflowPhase p in
      c = WaitingCapacity \<or> c = RunningClass \<or> c = ReviewingClass \<or> c = PausedClass \<or> c = AwaitingVerdict)"

definition holdsWorkerCapacity :: "wf_phase \<Rightarrow> bool" where
  "holdsWorkerCapacity p \<longleftrightarrow> classifyWorkflowPhase p = RunningClass"

definition holdsEndpointCapacity :: "wf_phase \<Rightarrow> bool" where
  "holdsEndpointCapacity p \<longleftrightarrow> (let c = classifyWorkflowPhase p in c = RunningClass \<or> c = ReviewingClass)"

definition reservesWorkerCapacity :: "wf_phase \<Rightarrow> bool" where
  "reservesWorkerCapacity p \<longleftrightarrow> (let c = classifyWorkflowPhase p in c = WaitingCapacity \<or> c = RunningClass)"

section \<open>The reducer\<close>

type_synonym wf_move = "wf_phase \<times> wf_effect list"

definition applyWorkflowCommand :: "wf_phase \<Rightarrow> wf_command \<Rightarrow> wf_move" where
  "applyWorkflowCommand p c =
     (let hold = (p, []) in
      if c = Reopened then (if p = WCompleted then hold else (WIdle, []))
      else if isTerminalWorkflowPhase p then hold
      else if c = CancelRequested then (WCancelled, [ReleaseResources])
      else if c = FailedCommand then (WFailed, [ReleaseResources])
      else (case p of
        WIdle \<Rightarrow> (if c = CardCreated then (WCreated, [])
                  else if c = StartRequested then (WQueuedBoard, [Enqueue BoardCapacity]) else hold)
      | WCreated \<Rightarrow> (if c = StartRequested then (WQueuedBoard, [Enqueue BoardCapacity]) else hold)
      | WQueuedBoard \<Rightarrow> (if c = BoardCapacityGranted then (WQueuedEndpoint, [Enqueue EndpointCapacity]) else hold)
      | WQueuedEndpoint \<Rightarrow> (if c = EndpointGranted then (WQueuedSandbox, [Enqueue SandboxCapacity]) else hold)
      | WQueuedSandbox \<Rightarrow> (if c = SandboxGranted then (WPlanning, [StartSession]) else hold)
      | WPlanning \<Rightarrow> (if c = DecompositionComplete then (WCompleted, [MarkDone])
                      else if c = BeginImplementation then (WImplementing, []) else hold)
      | WImplementing \<Rightarrow> (if c = PauseRequested then (WPaused, [ReleaseResources])
                          else if c = ImplementationFinished then (WAwaitingAcceptance, [RunAcceptance]) else hold)
      | WPaused \<Rightarrow> (if c = ResumeRequested then (WQueuedEndpoint, [Enqueue EndpointCapacity]) else hold)
      | WAwaitingAcceptance \<Rightarrow> (if c = AcceptancePassed then (WAwaitingReview, [RequestReview])
                                else if c = AcceptanceFailed then (WImplementing, []) else hold)
      | WAwaitingReview \<Rightarrow> (if c = ReviewStarted then (WReviewing, []) else hold)
      | WReviewing \<Rightarrow> (if c = ReviewPassed then (WReadyForDelivery, [CaptureResultBranch])
                       else if c = ReviewChangesRequested then (WImplementing, []) else hold)
      | WReadyForDelivery \<Rightarrow> (if c = DeliveryRequested then (WDelivering, []) else hold)
      | WDelivering \<Rightarrow> (if c = Delivered then (WCompleted, [MarkDone]) else hold)
      | _ \<Rightarrow> hold))"

section \<open>Lanes\<close>

fun workflowPhaseToBoardColumn :: "wf_phase \<Rightarrow> column_id" where
  "workflowPhaseToBoardColumn WIdle = Backlog"
| "workflowPhaseToBoardColumn WCreated = Planning"
| "workflowPhaseToBoardColumn WQueuedBoard = Planning"
| "workflowPhaseToBoardColumn WQueuedSandbox = Planning"
| "workflowPhaseToBoardColumn WPlanning = Planning"
| "workflowPhaseToBoardColumn WQueuedEndpoint = ReadyLane"
| "workflowPhaseToBoardColumn WImplementing = InProgress"
| "workflowPhaseToBoardColumn WAwaitingAcceptance = ReviewLane"
| "workflowPhaseToBoardColumn WPaused = InProgress"
| "workflowPhaseToBoardColumn WAwaitingReview = ReviewLane"
| "workflowPhaseToBoardColumn WReviewing = ReviewLane"
| "workflowPhaseToBoardColumn WReadyForDelivery = ReviewLane"
| "workflowPhaseToBoardColumn WDelivering = ReviewLane"
| "workflowPhaseToBoardColumn WCompleted = CompletedLane"
| "workflowPhaseToBoardColumn WCancelled = TrashLane"
| "workflowPhaseToBoardColumn WFailed = InProgress"

definition laneMoveForAppliedTransition :: "wf_command \<Rightarrow> wf_phase \<Rightarrow> column_id option" where
  "laneMoveForAppliedTransition c p =
     (if c \<in> {ImplementationFinished, BeginImplementation} then Some (workflowPhaseToBoardColumn p) else None)"

datatype divergence_kind = UnknownToKernel | ProjectionMismatch

record divergence =
  dv_kind :: divergence_kind
  dv_taskId :: string
  dv_phase :: wf_phase
  dv_lane :: column_id
  dv_projected :: column_id

definition assessPhaseLaneDivergence :: "string \<Rightarrow> wf_phase \<Rightarrow> column_id \<Rightarrow> bool option \<Rightarrow> divergence option" where
  "assessPhaseLaneDivergence task p lane redrive =
     (if redrive = Some True \<and> p \<in> {WIdle, WQueuedBoard, WQueuedEndpoint, WQueuedSandbox, WPlanning}
         \<and> lane \<in> {ReviewLane, InProgress} then None
      else (let projected = workflowPhaseToBoardColumn p in
        if p = WIdle then
          (if lane \<in> {Backlog, CompletedLane, TrashLane} then None
           else Some \<lparr>dv_kind = UnknownToKernel, dv_taskId = task, dv_phase = p, dv_lane = lane, dv_projected = projected\<rparr>)
        else if lane = projected then None
        else Some \<lparr>dv_kind = ProjectionMismatch, dv_taskId = task, dv_phase = p, dv_lane = lane, dv_projected = projected\<rparr>))"

section \<open>Facts about the reducer\<close>

lemmas reducer_defs = applyWorkflowCommand_def isTerminalWorkflowPhase_def Let_def

text \<open>The transition table: the phase changes, and the effects come only with a change.\<close>

lemma reducer_progress: "snd (applyWorkflowCommand p c) \<noteq> [] \<Longrightarrow> fst (applyWorkflowCommand p c) \<noteq> p"
  by (cases p; cases c) (simp_all add: reducer_defs)

text \<open>Which commands take a worker slot.\<close>

definition takes_slot :: "wf_phase \<Rightarrow> wf_command \<Rightarrow> bool" where
  "takes_slot p c \<longleftrightarrow> \<not> holdsWorkerCapacity p \<and> holdsWorkerCapacity (fst (applyWorkflowCommand p c))"

lemma takes_slot_iff:
  "takes_slot p c \<longleftrightarrow>
     p = WQueuedSandbox \<and> c = SandboxGranted \<or> p = WReviewing \<and> (c = ReviewPassed \<or> c = ReviewChangesRequested)"
  by (cases p; cases c) (simp_all add: takes_slot_def holdsWorkerCapacity_def reducer_defs)

text \<open>Which commands give it back, and which of them say so.\<close>

definition gives_slot :: "wf_phase \<Rightarrow> wf_command \<Rightarrow> bool" where
  "gives_slot p c \<longleftrightarrow> holdsWorkerCapacity p \<and> \<not> holdsWorkerCapacity (fst (applyWorkflowCommand p c))"

lemma gives_slot_effects:
  "gives_slot p c \<Longrightarrow>
     ReleaseResources \<in> set (snd (applyWorkflowCommand p c))
     \<or> c \<in> {AcceptancePassed, Delivered, DecompositionComplete, Reopened}"
  by (cases p; cases c) (simp_all add: gives_slot_def holdsWorkerCapacity_def reducer_defs)

section \<open>A board with a bounded number of worker slots\<close>

type_synonym wf_board = "(string, wf_phase) omap"

definition holders :: "wf_board \<Rightarrow> string list" where
  "holders b = map fst (filter (\<lambda>e. holdsWorkerCapacity (snd e)) b)"

text \<open>
  Steps of the board: any command to any card; a guarded command only while a slot is free. What is
  guarded is the argument \<open>guarded\<close>.
\<close>

inductive board_moves ::
  "(wf_phase \<Rightarrow> wf_command \<Rightarrow> bool) \<Rightarrow> nat \<Rightarrow> wf_board \<Rightarrow> (string \<times> wf_command) list \<Rightarrow> wf_board \<Rightarrow> bool"
  for guarded :: "wf_phase \<Rightarrow> wf_command \<Rightarrow> bool" and cap :: nat and b0 :: wf_board where
  no_moves: "board_moves guarded cap b0 [] b0"
| one_move: "board_moves guarded cap b0 cs b \<Longrightarrow> map_of b i = Some p \<Longrightarrow>
    (guarded p c \<Longrightarrow> length (holders b) < cap) \<Longrightarrow>
    board_moves guarded cap b0 (cs @ [(i, c)]) (omap_set i (fst (applyWorkflowCommand p c)) b)"

lemma holders_set:
  "distinct (map fst b) \<Longrightarrow> map_of b i = Some p \<Longrightarrow>
     length (holders (omap_set i q b)) + (if holdsWorkerCapacity p then 1 else 0)
       = length (holders b) + (if holdsWorkerCapacity q then 1 else 0)"
proof (induction i q b rule: omap_set.induct)
  case (1 k v)
  then show ?case by simp
next
  case (2 k v a b m)
  show ?case
  proof (cases "a = k")
    case True
    then show ?thesis using 2(3) by (simp add: holders_def)
  next
    case False
    with 2 show ?thesis by (simp add: holders_def)
  qed
qed

lemma moves_distinct: "board_moves guarded cap b0 cs b \<Longrightarrow> distinct (map fst b0) \<Longrightarrow> distinct (map fst b)"
  by (induction rule: board_moves.induct) (simp_all add: distinct_omap_set)

text \<open>Guarding every command that takes a slot keeps the holders within the cap.\<close>

lemma moves_within_cap:
  assumes "board_moves guarded cap b0 cs b" "distinct (map fst b0)" "length (holders b0) \<le> cap"
    and "\<And>p c. takes_slot p c \<Longrightarrow> guarded p c"
  shows "length (holders b) \<le> cap"
  using assms(1)
proof (induction rule: board_moves.induct)
  case no_moves
  then show ?case using assms(3) .
next
  case (one_move cs b i p c)
  have "distinct (map fst b)" using moves_distinct[OF one_move.hyps(1) assms(2)] .
  note h = holders_set[OF this one_move.hyps(2), of "fst (applyWorkflowCommand p c)"]
  show ?case
  proof (cases "takes_slot p c")
    case True
    then have "length (holders b) < cap" using one_move.hyps(3) assms(4) by blast
    with True h show ?thesis by (simp add: takes_slot_def)
  next
    case False
    with h one_move.IH show ?thesis by (auto simp: takes_slot_def split: if_splits)
  qed
qed

end
