(* ===== verification/WorkflowQueue.thy ===== *)
theory WorkflowQueue
  imports WorkflowKernel Text
begin

text \<open>
  The workflow command queue (\<^verbatim>\<open>src/core/workflow-command-queue.ts\<close>): dispatch decides by the
  kernel, appends the transition to the ledger, then moves the in-memory mirror and notifies; a fresh
  process folds the ledger back. The transition event is the one of
  \<^verbatim>\<open>src/core/agent-attempt-ledger.ts\<close>; other events are opaque.

  Commands for one task are chained, so each dispatch runs from its read of the mirror to its update
  without another of the same task in between; dispatches of different tasks touch different entries.
  A dispatch is therefore one step. The clock, the fresh event id and the success of the append come
  with it; a replayed phase is text, as it is read from the event.
\<close>

section \<open>Events\<close>

record transition_event =
  te_eventId :: string
  te_recordedAt :: jsnum
  te_workflowId :: string
  te_taskId :: string
  te_workspacePathHash :: string
  te_role :: "string option"
  te_from :: "string option"
  te_to :: string
  te_reason :: "string option"
  te_controllerDecision :: "string option"

datatype 'x queue_event = TransitionEvent transition_event | OtherQueueEvent 'x

definition WORKFLOW_PHASE_PREFIX :: string where
  "WORKFLOW_PHASE_PREFIX = ''wf:''"

definition WORKFLOW_QUEUE_DECISION :: string where
  "WORKFLOW_QUEUE_DECISION = ''workflow_kernel''"

record queue_options =
  qo_workflowId :: string
  qo_workspacePathHash :: string
  qo_hasStore :: bool

record queue_transition =
  qt_taskId :: string
  qt_command :: wf_command
  qt_fromPhase :: wf_phase
  qt_phase :: wf_phase
  qt_effects :: "wf_effect list"
  qt_at :: jsnum

text \<open>\<^verbatim>\<open>buildTransitionEvent\<close> as the queue calls it\<close>

definition buildTransitionEvent :: "queue_options \<Rightarrow> string \<Rightarrow> queue_transition \<Rightarrow> transition_event" where
  "buildTransitionEvent opts uuid t =
     \<lparr>te_eventId = uuid, te_recordedAt = qt_at t, te_workflowId = qo_workflowId opts, te_taskId = qt_taskId t,
      te_workspacePathHash = qo_workspacePathHash opts, te_role = None,
      te_from = Some (WORKFLOW_PHASE_PREFIX @ wf_phase_str (qt_fromPhase t)),
      te_to = WORKFLOW_PHASE_PREFIX @ wf_phase_str (qt_phase t),
      te_reason = Some (wf_command_str (qt_command t)),
      te_controllerDecision = Some WORKFLOW_QUEUE_DECISION\<rparr>"

section \<open>The redrive window\<close>

text \<open>On the texts that the events carry; \<^verbatim>\<open>TERMINAL_PHASES.has\<close> compares texts.\<close>

definition terminal_text :: "string \<Rightarrow> bool" where
  "terminal_text p \<longleftrightarrow> p \<in> {''completed'', ''failed'', ''cancelled''}"

definition nextRedriveInFlight :: "bool \<Rightarrow> string option \<Rightarrow> string \<Rightarrow> string \<Rightarrow> bool" where
  "nextRedriveInFlight current kind fromPhase phase =
     (if kind = Some ''reopened'' \<and> fromPhase \<noteq> ''idle'' then True
      else if kind = Some ''begin_implementation'' \<or> terminal_text phase then False
      else current)"

section \<open>The queue\<close>

datatype not_applied = Held | TerminalPhase | PersistFailed

datatype dispatch_outcome = Applied queue_transition | NotApplied wf_phase not_applied

record wf_queue =
  q_phases :: "(string, wf_phase) omap"
  q_redrives :: "(string, bool) omap"
  q_ledger :: "transition_event list"
  q_notified :: "queue_transition list"

text \<open>\<^verbatim>\<open>createWorkflowCommandQueue\<close> with its seeds, over the ledger found at boot\<close>

definition createWorkflowCommandQueue ::
  "(string, wf_phase) omap option \<Rightarrow> (string, bool) omap option \<Rightarrow> transition_event list \<Rightarrow> wf_queue" where
  "createWorkflowCommandQueue seedPhases seedRedrives ledger =
     \<lparr>q_phases = (case seedPhases of None \<Rightarrow> [] | Some m \<Rightarrow> omap_of m),
      q_redrives = (case seedRedrives of None \<Rightarrow> [] | Some m \<Rightarrow> omap_of m), q_ledger = ledger, q_notified = []\<rparr>"

definition phaseOf :: "wf_queue \<Rightarrow> string \<Rightarrow> wf_phase" where
  "phaseOf q task = (case map_of (q_phases q) task of None \<Rightarrow> WIdle | Some p \<Rightarrow> p)"

definition redriveInFlightOf :: "wf_queue \<Rightarrow> string \<Rightarrow> bool" where
  "redriveInFlightOf q task = (case map_of (q_redrives q) task of None \<Rightarrow> False | Some b \<Rightarrow> b)"

definition mirror_transition :: "queue_transition \<Rightarrow> wf_queue \<Rightarrow> wf_queue" where
  "mirror_transition t q =
     (let task = qt_taskId t in
      q\<lparr>q_phases := omap_set task (qt_phase t) (q_phases q),
        q_redrives := omap_set task
          (nextRedriveInFlight (redriveInFlightOf q task) (Some (wf_command_str (qt_command t)))
             (wf_phase_str (qt_fromPhase t)) (wf_phase_str (qt_phase t))) (q_redrives q),
        q_notified := q_notified q @ [t]\<rparr>)"

definition dispatchSerialized ::
  "queue_options \<Rightarrow> bool \<Rightarrow> jsnum \<Rightarrow> string \<Rightarrow> string \<Rightarrow> wf_command \<Rightarrow> wf_queue \<Rightarrow> dispatch_outcome \<times> wf_queue" where
  "dispatchSerialized opts appended now uuid task c q =
     (let fromPhase = phaseOf q task in
      case applyWorkflowCommand fromPhase c of
        (p, effects) \<Rightarrow>
          (if p = fromPhase \<and> effects = []
           then (NotApplied fromPhase (if isTerminalWorkflowPhase fromPhase then TerminalPhase else Held), q)
           else (let t = \<lparr>qt_taskId = task, qt_command = c, qt_fromPhase = fromPhase, qt_phase = p,
                          qt_effects = effects, qt_at = now\<rparr>
             in if \<not> qo_hasStore opts then (Applied t, mirror_transition t q)
                else if \<not> appended then (NotApplied fromPhase PersistFailed, q)
                else (Applied t, mirror_transition t
                       (q\<lparr>q_ledger := q_ledger q @ [buildTransitionEvent opts uuid t]\<rparr>)))))"

text \<open>A dispatch with what its environment answers.\<close>

record dispatch_request =
  dr_task :: string
  dr_command :: wf_command
  dr_appended :: bool
  dr_now :: jsnum
  dr_uuid :: string

definition dispatch_step :: "queue_options \<Rightarrow> dispatch_request \<Rightarrow> wf_queue \<Rightarrow> wf_queue" where
  "dispatch_step opts r q =
     snd (dispatchSerialized opts (dr_appended r) (dr_now r) (dr_uuid r) (dr_task r) (dr_command r) q)"

section \<open>Replay\<close>

definition queue_recorded_le :: "transition_event \<Rightarrow> transition_event \<Rightarrow> bool" where
  "queue_recorded_le a b \<longleftrightarrow> \<not> js_gt (js_sub (te_recordedAt a) (te_recordedAt b)) (Fin 0)"

fun transition_events :: "'x queue_event list \<Rightarrow> transition_event list" where
  "transition_events [] = []"
| "transition_events (TransitionEvent e # es) = e # transition_events es"
| "transition_events (OtherQueueEvent x # es) = transition_events es"

lemma transition_events_map [simp]: "transition_events (map TransitionEvent es) = es"
  by (induction es) simp_all

definition of_queue :: "string \<Rightarrow> transition_event \<Rightarrow> bool" where
  "of_queue task e \<longleftrightarrow> te_taskId e = task \<and> te_controllerDecision e = Some WORKFLOW_QUEUE_DECISION
     \<and> take (length WORKFLOW_PHASE_PREFIX) (te_to e) = WORKFLOW_PHASE_PREFIX"

definition selectWorkflowQueueTransitions :: "'x queue_event list \<Rightarrow> string \<Rightarrow> transition_event list" where
  "selectWorkflowQueueTransitions events task =
     js_sort queue_recorded_le (filter (of_queue task) (transition_events events))"

definition drop_prefix :: "string \<Rightarrow> string" where
  "drop_prefix s = drop (length WORKFLOW_PHASE_PREFIX) s"

definition replayWorkflowPhaseFromLedger :: "'x queue_event list \<Rightarrow> string \<Rightarrow> string" where
  "replayWorkflowPhaseFromLedger events task =
     fold (\<lambda>e phase. drop_prefix (te_to e)) (selectWorkflowQueueTransitions events task) ''idle''"

definition replay_redrive_event :: "transition_event \<Rightarrow> bool \<Rightarrow> bool" where
  "replay_redrive_event e b =
     nextRedriveInFlight b (te_reason e)
       (drop_prefix (case te_from e of None \<Rightarrow> WORKFLOW_PHASE_PREFIX @ ''idle'' | Some s \<Rightarrow> s))
       (drop_prefix (te_to e))"

definition replayWorkflowRedriveFromLedger :: "'x queue_event list \<Rightarrow> string \<Rightarrow> bool" where
  "replayWorkflowRedriveFromLedger events task =
     fold replay_redrive_event (selectWorkflowQueueTransitions events task) False"

section \<open>Replay gives the mirror\<close>

text \<open>Clocks that never run backwards along the ledger (and are numbers).\<close>

definition clocks_forward :: "transition_event list \<Rightarrow> bool" where
  "clocks_forward es \<longleftrightarrow> sorted_wrt queue_recorded_le es"

lemma select_forward:
  "clocks_forward (transition_events events) \<Longrightarrow>
     selectWorkflowQueueTransitions events task = filter (of_queue task) (transition_events events)"
  unfolding selectWorkflowQueueTransitions_def clocks_forward_def
  by (rule js_sort_sorted) (rule sorted_wrt_filter)

lemma drop_prefix_phase [simp]: "drop_prefix (WORKFLOW_PHASE_PREFIX @ s) = s"
  by (simp add: drop_prefix_def)

text \<open>The mirror agrees with the fold of the ledger, task by task.\<close>

definition mirror_inv :: "wf_queue \<Rightarrow> bool" where
  "mirror_inv q \<longleftrightarrow> (\<forall>task.
     wf_phase_str (phaseOf q task) = fold (\<lambda>e phase. drop_prefix (te_to e)) (filter (of_queue task) (q_ledger q)) ''idle''
     \<and> redriveInFlightOf q task = fold replay_redrive_event (filter (of_queue task) (q_ledger q)) False)"

lemma of_queue_built: "of_queue task (buildTransitionEvent opts uuid t) \<longleftrightarrow> task = qt_taskId t"
  by (auto simp: of_queue_def buildTransitionEvent_def)

lemma mirror_step:
  assumes "mirror_inv q" "qo_hasStore opts"
  shows "mirror_inv (dispatch_step opts r q)"
proof -
  obtain p effects where m: "applyWorkflowCommand (phaseOf q (dr_task r)) (dr_command r) = (p, effects)" by fastforce
  show ?thesis
  proof (cases "p = phaseOf q (dr_task r) \<and> effects = [] \<or> \<not> dr_appended r")
    case True
    then show ?thesis using assms m by (auto simp: dispatch_step_def dispatchSerialized_def Let_def)
  next
    case False
    define t where "t = \<lparr>qt_taskId = dr_task r, qt_command = dr_command r, qt_fromPhase = phaseOf q (dr_task r),
      qt_phase = p, qt_effects = effects, qt_at = dr_now r\<rparr>"
    define e where "e = buildTransitionEvent opts (dr_uuid r) t"
    have s: "dispatch_step opts r q = mirror_transition t (q\<lparr>q_ledger := q_ledger q @ [e]\<rparr>)"
      using False assms(2) m
      by (auto simp: dispatch_step_def dispatchSerialized_def Let_def t_def e_def)
    have phases: "phaseOf (dispatch_step opts r q) task = (if task = dr_task r then p else phaseOf q task)" for task
      by (simp add: s mirror_transition_def phaseOf_def t_def Let_def)
    have redrives: "redriveInFlightOf (dispatch_step opts r q) task = (if task = dr_task r
        then nextRedriveInFlight (redriveInFlightOf q task) (Some (wf_command_str (dr_command r)))
          (wf_phase_str (phaseOf q task)) (wf_phase_str p) else redriveInFlightOf q task)" for task
      by (simp add: s mirror_transition_def redriveInFlightOf_def t_def Let_def)
    have ledger: "filter (of_queue task) (q_ledger (dispatch_step opts r q)) =
        filter (of_queue task) (q_ledger q) @ (if task = dr_task r then [e] else [])" for task
      by (simp add: s mirror_transition_def Let_def e_def of_queue_built t_def)
    have e: "drop_prefix (te_to e) = wf_phase_str p"
      "replay_redrive_event e b = nextRedriveInFlight b (Some (wf_command_str (dr_command r)))
        (wf_phase_str (phaseOf q (dr_task r))) (wf_phase_str p)" for b
      by (simp_all add: e_def t_def buildTransitionEvent_def replay_redrive_event_def)
    show ?thesis using assms(1) unfolding mirror_inv_def phases redrives ledger by (simp add: e)
  qed
qed

interpretation queue_runs: invariant_system "dispatch_step opts" "\<lambda>r q. qo_hasStore opts" mirror_inv for opts
  by unfold_locales (rule mirror_step)

end
