(* ===== verification/ControlProperties.thy ===== *)
theory ControlProperties
  imports RunLadder WorkflowQueue
begin

text \<open>
  Properties of the controllers that decide what happens next: the run controller's phase ladder and
  the workflow kernel with its command queue.
\<close>

section \<open>The run controller\<close>

definition ev0 :: run_evidence where
  "ev0 = \<lparr>planValid = None, localized = None, stepSucceeded = None, allStepsComplete = None, repairSucceeded = None,
     reviewPassed = None, modelSelfReportedComplete = None, budgetExhausted = None, needsSplit = None, rungsExhausted = None\<rparr>"






text \<open>
  C23. The driver returns: unless the bound is infinite it makes at most as many transitions as the
  bound (at least one, 32 when none is given, none when the bound is \<^verbatim>\<open>NaN\<close>), and it stops because
  the phase is terminal, because the change site is not localized, or because the bound is reached.
  With an infinite bound a plan that never becomes valid is replanned for ever.
\<close>

theorem driver_returns:
  "(m = Some PosInf \<or> (\<exists>r n. driveRunPhaseFlow p0 m evidence = Some r \<and> flow_stops_ok (flow_bound m) n r
      \<and> (n = 0 \<or> js_le (Fin (of_nat n)) (flow_bound m))))
   \<and> driveRunPhaseFlow None (Some PosInf) (\<lambda>p ts. ev0) = None"
proof
  show "m = Some PosInf \<or> (\<exists>r n. driveRunPhaseFlow p0 m evidence = Some r \<and> flow_stops_ok (flow_bound m) n r
      \<and> (n = 0 \<or> js_le (Fin (of_nat n)) (flow_bound m)))"
  proof (cases "m = Some PosInf")
    case False
    from flow_bound_whole[OF this] show ?thesis
    proof
      assume b: "flow_bound m = NaN"
      then show ?thesis using flow_loop_ends[of 0 0 "flow_bound m" "[]" evidence] unfolding driveRunPhaseFlow_def
        by fastforce
    next
      assume "\<exists>n\<ge>1. flow_bound m = Fin (of_nat n)"
      then obtain n where n: "flow_bound m = Fin (of_nat n)" by blast
      then have "\<exists>r k. driveRunPhaseFlow p0 m evidence = Some r \<and> k \<le> 0 + n \<and> flow_stops_ok (flow_bound m) k r"
        unfolding driveRunPhaseFlow_def by (intro flow_loop_ends) auto
      with n show ?thesis by auto
    qed
  qed simp
next
  have "flow_loop (\<lambda>p ts. ev0) PosInf 0 Intake [] \<noteq> Some r" for r
    using replans_for_ever[of "\<lambda>p ts. ev0"] by (auto simp: ev0_def holds_def)
  then show "driveRunPhaseFlow None (Some PosInf) (\<lambda>p ts. ev0) = None"
    by (auto simp: driveRunPhaseFlow_def flow_bound_def js_max_def)
qed

text \<open>The phases that offer sandbox writes: planning, before anything is localized, is one of them.\<close>

lemma planning_offers_writes:
  "isToolAllowedInPhase p SandboxWriteLevel \<longleftrightarrow> p \<in> {PlanPhase, ExecuteStep, Repair, MergeOrEscalate}"
  "pt_offeredToolNames (buildChatPhaseToolPlan PlanPhase [(''write_file'', SandboxWrite)] [(''write_file'', ())]) = [''write_file'']"
  by (rule writing_phases) code_simp

section \<open>The workflow queue\<close>

definition queue_after :: "queue_options \<Rightarrow> dispatch_request list \<Rightarrow> wf_queue" where
  "queue_after opts rs = fold (dispatch_step opts) rs (createWorkflowCommandQueue None None [])"

definition sample_options :: queue_options where
  "sample_options = \<lparr>qo_workflowId = ''ws'', qo_workspacePathHash = ''h'', qo_hasStore = True\<rparr>"

definition request :: "wf_command \<Rightarrow> int \<Rightarrow> bool \<Rightarrow> dispatch_request" where
  "request c t appended = \<lparr>dr_task = ''card'', dr_command = c, dr_appended = appended, dr_now = Fin (of_int t), dr_uuid = ''u''\<rparr>"

text \<open>A card is started, one append fails and is repeated, a late command is held, the card is reopened.\<close>

definition sample_requests :: "dispatch_request list" where
  "sample_requests = [request StartRequested 1 True, request BoardCapacityGranted 2 False, request BoardCapacityGranted 3 True,
     request StartRequested 4 True, request EndpointGranted 5 True, request Reopened 6 True]"

lemma sample_queue_value:
  "map te_to (q_ledger (queue_after sample_options sample_requests)) =
     [''wf:queued_for_board_capacity'', ''wf:queued_for_endpoint'', ''wf:queued_for_sandbox'', ''wf:idle'']
   \<and> clocks_forward (q_ledger (queue_after sample_options sample_requests))
   \<and> phaseOf (queue_after sample_options sample_requests) ''card'' = WIdle
   \<and> redriveInFlightOf (queue_after sample_options sample_requests) ''card''"
  by code_simp

text \<open>
  The queue is durable: after any dispatches, with appends that fail, commands that are held and
  other events in between, a fresh process that replays the ledger finds for every task the phase and
  the redrive window that the queue holds in memory, provided the clock never ran backwards.
\<close>

theorem queue_replay_exact:
  assumes "qo_hasStore opts" "transition_events events = q_ledger (queue_after opts rs)"
    and "clocks_forward (q_ledger (queue_after opts rs))"
  shows "replayWorkflowPhaseFromLedger events task = wf_phase_str (phaseOf (queue_after opts rs) task)
    \<and> replayWorkflowRedriveFromLedger events task = redriveInFlightOf (queue_after opts rs) task"
proof -
  have "mirror_inv (createWorkflowCommandQueue None None [])"
    by (simp add: mirror_inv_def createWorkflowCommandQueue_def phaseOf_def redriveInFlightOf_def)
  then have "mirror_inv (queue_after opts rs)"
    unfolding queue_after_def by (intro queue_runs.fold_inv) (simp_all add: assms(1))
  then show ?thesis
    using select_forward[of events task] assms(2,3)
    by (simp add: mirror_inv_def replayWorkflowPhaseFromLedger_def replayWorkflowRedriveFromLedger_def)
qed

theorem queue_replay_exact_witness:
  "replayWorkflowRedriveFromLedger
     (OtherQueueEvent () # map TransitionEvent (q_ledger (queue_after sample_options sample_requests))) ''card''"
proof -
  have "qo_hasStore sample_options" by (simp add: sample_options_def)
  from queue_replay_exact[OF this, of "OtherQueueEvent () # map TransitionEvent (q_ledger (queue_after sample_options sample_requests))"
      sample_requests "''card''"] sample_queue_value
  show ?thesis by simp
qed

text \<open>When the clock steps back between two commands, the replay puts them in the wrong order.\<close>

lemma clock_step_back_misreplays:
  "let q = queue_after sample_options [request StartRequested 9 True, request BoardCapacityGranted 5 True] in
     phaseOf q ''card'' = WQueuedEndpoint
     \<and> replayWorkflowPhaseFromLedger (map TransitionEvent (q_ledger q) :: unit queue_event list) ''card''
         = ''queued_for_board_capacity''"
  by code_simp

text \<open>A malformed phase of the ledger is not skipped: it becomes the phase.\<close>

lemma malformed_phase_replayed:
  "replayWorkflowPhaseFromLedger
     [TransitionEvent \<lparr>te_eventId = ''u'', te_recordedAt = Fin 1, te_workflowId = ''ws'', te_taskId = ''card'',
        te_workspacePathHash = ''h'', te_role = None, te_from = None, te_to = ''wf:bogus'', te_reason = None,
        te_controllerDecision = Some WORKFLOW_QUEUE_DECISION\<rparr> :: unit queue_event] ''card'' = ''bogus''"
  by code_simp

section \<open>Worker slots\<close>

text \<open>
  The three commands that take a worker slot are the sandbox grant and the two verdicts of a
  review; a board on which each of them is applied only while a slot is free never holds more slots
  than the cap, over any interleaving of commands to any cards.
\<close>

theorem slots_within_cap:
  assumes "board_moves guarded cap b0 cs b" "distinct (map fst b0)" "length (holders b0) \<le> cap"
    and "guarded WQueuedSandbox SandboxGranted" "guarded WReviewing ReviewPassed" "guarded WReviewing ReviewChangesRequested"
  shows "length (holders b) \<le> cap"
  using assms(1-3) by (rule moves_within_cap) (use assms(4-6) in \<open>auto simp: takes_slot_iff\<close>)

definition two_cards :: wf_board where
  "two_cards = [(''a'', WReviewing), (''b'', WQueuedSandbox)]"

lemma two_moves:
  assumes "guarded = (\<lambda>p c. c = SandboxGranted)"
  shows "board_moves guarded 1 two_cards [(''b'', SandboxGranted), (''a'', ReviewChangesRequested)]
    [(''a'', WImplementing), (''b'', WPlanning)]"
proof -
  have "board_moves guarded 1 two_cards ([] @ [(''b'', SandboxGranted)])
      (omap_set ''b'' (fst (applyWorkflowCommand WQueuedSandbox SandboxGranted)) two_cards)"
    by (rule one_move[OF no_moves]) (simp_all add: two_cards_def holders_def holdsWorkerCapacity_def)
  then have "board_moves guarded 1 two_cards ([(''b'', SandboxGranted)] @ [(''a'', ReviewChangesRequested)])
      (omap_set ''a'' (fst (applyWorkflowCommand WReviewing ReviewChangesRequested)) [(''a'', WReviewing), (''b'', WPlanning)])"
    using assms by (intro one_move) (simp_all add: two_cards_def reducer_defs)
  then show ?thesis by (simp add: reducer_defs)
qed

text \<open>With the sandbox grant alone guarded, a review that asks for changes exceeds the cap.\<close>

lemma review_takes_unadmitted_slot:
  "\<exists>b. board_moves (\<lambda>p c. c = SandboxGranted) 1 two_cards
      [(''b'', SandboxGranted), (''a'', ReviewChangesRequested)] b \<and> length (holders b) = 2"
  using two_moves[OF refl] by (auto simp: holders_def holdsWorkerCapacity_def)

theorem slots_within_cap_witness: "length (holders [(''a'', WReviewing), (''b'', WPlanning)]) \<le> 1"
proof -
  have "board_moves (\<lambda>p c. True) 1 two_cards ([] @ [(''b'', SandboxGranted)])
      (omap_set ''b'' (fst (applyWorkflowCommand WQueuedSandbox SandboxGranted)) two_cards)"
    by (rule one_move[OF no_moves]) (simp_all add: two_cards_def holders_def holdsWorkerCapacity_def)
  then have "board_moves (\<lambda>p c. True) 1 two_cards ([] @ [(''b'', SandboxGranted)]) [(''a'', WReviewing), (''b'', WPlanning)]"
    by (simp add: two_cards_def reducer_defs)
  then show ?thesis
    by (rule slots_within_cap) (simp_all add: two_cards_def holders_def holdsWorkerCapacity_def)
qed

end
