(* ===== verification/ColouredSearch.thy ===== *)
theory ColouredSearch
  imports Prelude
begin

text \<open>
  The iterative depth-first search with three colours that two validators of the source carry
  (\<^verbatim>\<open>validateWorkPackages\<close> in work-package-dispatch.ts and \<^verbatim>\<open>detectCycles\<close> in
  decomposition-subtask-dag.ts). The two loops differ only in what they do at a back edge, which
  is the parameter \<open>report\<close>; the stack holds a node with the index of its next neighbour, and the
  grey path the second one keeps beside it is the stack's nodes. Shown: the loop ends, every
  report closes a cycle, and a search without a report proves the graph acyclic.
\<close>

datatype dfs_colour = White | Grey | Black

type_synonym adjacency = "(string, string list) omap"

record 'r search =
  colour :: "(string, dfs_colour) omap"
  dstack :: "(string \<times> nat) list"
  found :: 'r

definition neighbours :: "adjacency \<Rightarrow> string \<Rightarrow> string list" where
  "neighbours adj n = (case map_of adj n of None \<Rightarrow> [] | Some ns \<Rightarrow> ns)"

definition colour_of :: "'r search \<Rightarrow> string \<Rightarrow> dfs_colour" where
  "colour_of s n = (case map_of (colour s) n of None \<Rightarrow> White | Some c \<Rightarrow> c)"

definition grey_path :: "'r search \<Rightarrow> string list" where
  "grey_path s = rev (map fst (dstack s))"

definition paint :: "string \<Rightarrow> dfs_colour \<Rightarrow> 'r search \<Rightarrow> 'r search" where
  "paint n c s = s\<lparr>colour := omap_set n c (colour s)\<rparr>"

lemma paint_simps [simp]:
  "colour_of (paint n c s) m = (if m = n then c else colour_of s m)"
  "dstack (paint n c s) = dstack s" "found (paint n c s) = found s" "grey_path (paint n c s) = grey_path s"
  by (simp_all add: paint_def colour_of_def grey_path_def)

lemma colour_of_update [simp]:
  "colour_of (s\<lparr>dstack := st\<rparr>) m = colour_of s m" "colour_of (s\<lparr>found := r\<rparr>) m = colour_of s m"
  by (simp_all add: colour_of_def)

text \<open>One turn of the loop at the stack's top.\<close>

definition search_step :: "adjacency \<Rightarrow> (string list \<Rightarrow> string \<Rightarrow> 'r \<Rightarrow> 'r) \<Rightarrow> 'r search \<Rightarrow> 'r search" where
  "search_step adj report s =
     (case dstack s of
        [] \<Rightarrow> s
      | (n, i) # rest \<Rightarrow>
          (let ns = neighbours adj n in
           if length ns \<le> i then (paint n Black s)\<lparr>dstack := rest\<rparr>
           else (let m = ns ! i; s1 = s\<lparr>dstack := (n, Suc i) # rest\<rparr> in
             if colour_of s m = Grey then s1\<lparr>found := report (grey_path s) m (found s)\<rparr>
             else if colour_of s m = White then (paint m Grey s1)\<lparr>dstack := (m, 0) # (n, Suc i) # rest\<rparr>
             else s1)))"

definition adjacent_nodes :: "adjacency \<Rightarrow> string set" where
  "adjacent_nodes adj = \<Union> (set ` snd ` set adj)"

definition unfinished :: "adjacency \<Rightarrow> string \<times> nat \<Rightarrow> nat" where
  "unfinished adj e = Suc (length (neighbours adj (fst e)) - snd e)"

lemma neighbours_adjacent: "m \<in> set (neighbours adj n) \<Longrightarrow> m \<in> adjacent_nodes adj"
  by (cases "map_of adj n") (auto simp: neighbours_def adjacent_nodes_def dest!: map_of_SomeD intro!: bexI)

lemma finite_adjacent [simp]: "finite (adjacent_nodes adj)"
  by (simp add: adjacent_nodes_def)

definition whites :: "adjacency \<Rightarrow> 'r search \<Rightarrow> string set" where
  "whites adj s = {m \<in> adjacent_nodes adj. colour_of s m = White}"

lemma finite_whites [simp]: "finite (whites adj s)"
  by (simp add: whites_def)

lemma search_step_decreases:
  assumes "dstack s \<noteq> []"
  shows "(search_step adj report s, s)
    \<in> measures [\<lambda>s. card (whites adj s), \<lambda>s. sum_list (map (unfinished adj) (dstack s))]"
proof -
  obtain n i rest where st: "dstack s = (n, i) # rest" using assms by (cases "dstack s") auto
  show ?thesis
  proof (cases "length (neighbours adj n) \<le> i")
    case True
    then have "whites adj (search_step adj report s) \<subseteq> whites adj s"
      using st by (auto simp: search_step_def whites_def split: if_splits)
    then have "card (whites adj (search_step adj report s)) \<le> card (whites adj s)" by (intro card_mono) simp_all
    with True st show ?thesis by (auto simp: search_step_def unfinished_def)
  next
    case False
    define m where "m = neighbours adj n ! i"
    then have m: "m \<in> adjacent_nodes adj" using False neighbours_adjacent[of m adj n] by simp
    show ?thesis
    proof (cases "colour_of s m")
      case White
      then have "whites adj (search_step adj report s) = whites adj s - {m}"
        using st False by (auto simp: search_step_def whites_def Let_def m_def split: if_splits)
      moreover have "m \<in> whites adj s" using White m by (simp add: whites_def)
      ultimately have "card (whites adj (search_step adj report s)) < card (whites adj s)"
        by (metis card_Diff1_less finite_whites)
      then show ?thesis by simp
    qed (use st False in \<open>auto simp: search_step_def Let_def m_def whites_def unfinished_def\<close>)
  qed
qed

function search_loop :: "adjacency \<Rightarrow> (string list \<Rightarrow> string \<Rightarrow> 'r \<Rightarrow> 'r) \<Rightarrow> 'r search \<Rightarrow> 'r search" where
  "search_loop adj report s = (if dstack s = [] then s else search_loop adj report (search_step adj report s))"
  by pat_completeness auto
termination
  by (relation "inv_image (measures [\<lambda>(adj, s). card (whites adj s), \<lambda>(adj, s). sum_list (map (unfinished adj) (dstack s))])
       (\<lambda>(adj, report, s). (adj, s))")
    (use search_step_decreases in \<open>auto simp: in_measures\<close>)

declare search_loop.simps [simp del]

text \<open>The search from one start node, and from all of them in their order.\<close>

definition search_from :: "adjacency \<Rightarrow> (string list \<Rightarrow> string \<Rightarrow> 'r \<Rightarrow> 'r) \<Rightarrow> string \<Rightarrow> 'r search \<Rightarrow> 'r search" where
  "search_from adj report start s =
     (if colour_of s start \<noteq> White then s
      else search_loop adj report ((paint start Grey s)\<lparr>dstack := [(start, 0)]\<rparr>))"

definition search_all :: "adjacency \<Rightarrow> (string list \<Rightarrow> string \<Rightarrow> 'r \<Rightarrow> 'r) \<Rightarrow> string list \<Rightarrow> 'r \<Rightarrow> 'r search" where
  "search_all adj report ids r0 =
     fold (search_from adj report) ids \<lparr>colour = omap_of (map (\<lambda>i. (i, White)) ids), dstack = [], found = r0\<rparr>"


section \<open>What the reports are\<close>

text \<open>The back edges of a search, in their order: the grey path and the neighbour that is on it.\<close>

definition record_edge :: "string list \<Rightarrow> string \<Rightarrow> (string list \<times> string) list \<Rightarrow> (string list \<times> string) list" where
  "record_edge p m e = e @ [(p, m)]"

definition back_edges :: "adjacency \<Rightarrow> string list \<Rightarrow> (string list \<times> string) list" where
  "back_edges adj ids = found (search_all adj record_edge ids [])"

definition same_search :: "(string list \<Rightarrow> string \<Rightarrow> 'r \<Rightarrow> 'r) \<Rightarrow> 'r \<Rightarrow> 'r search \<Rightarrow> (string list \<times> string) list search \<Rightarrow> bool" where
  "same_search report r0 s t \<longleftrightarrow> colour s = colour t \<and> dstack s = dstack t
     \<and> found s = fold (\<lambda>(p, m). report p m) (found t) r0"

lemma same_search_step:
  assumes "same_search report r0 s t"
  shows "same_search report r0 (search_step adj report s) (search_step adj record_edge t)"
proof -
  have c: "colour_of s = colour_of t" "grey_path s = grey_path t"
    using assms by (auto simp: same_search_def colour_of_def grey_path_def)
  show ?thesis
  proof (cases "dstack t")
    case Nil
    with assms show ?thesis by (simp add: same_search_def search_step_def)
  next
    case (Cons e rest)
    obtain n i where e: "e = (n, i)" by (cases e)
    with Cons assms have "dstack s = (n, i) # rest" by (simp add: same_search_def)
    with Cons e assms c show ?thesis
      by (simp add: same_search_def search_step_def Let_def paint_def record_edge_def)
  qed
qed

lemma same_search_loop:
  "same_search report r0 s t \<Longrightarrow> same_search report r0 (search_loop adj report s) (search_loop adj record_edge t)"
proof (induction adj "record_edge" t arbitrary: s rule: search_loop.induct)
  case (1 adj t)
  have "dstack s = dstack t" using 1(2) by (simp add: same_search_def)
  with 1(1) same_search_step[OF 1(2)] 1(2) show ?case
    by (simp add: search_loop.simps[of adj report s] search_loop.simps[of adj record_edge t])
qed

lemma same_search_fold:
  "same_search report r0 s t \<Longrightarrow>
     same_search report r0 (fold (search_from adj report) ids s) (fold (search_from adj record_edge) ids t)"
proof (induction ids arbitrary: s t)
  case (Cons i ids)
  have "same_search report r0 (search_from adj report i s) (search_from adj record_edge i t)"
  proof (cases "colour_of s i = White")
    case True
    then have "colour_of t i = White" using Cons.prems by (simp add: same_search_def colour_of_def)
    with True Cons.prems show ?thesis
      unfolding search_from_def by (auto simp: same_search_def paint_def intro!: same_search_loop[unfolded same_search_def])
  next
    case False
    then have "colour_of t i \<noteq> White" using Cons.prems by (simp add: same_search_def colour_of_def)
    with False Cons.prems show ?thesis by (simp add: search_from_def)
  qed
  then show ?case using Cons.IH by simp
qed simp

text \<open>What a search reports is what its back edges make of the start value.\<close>

lemma found_search_all: "found (search_all adj report ids r0) = fold (\<lambda>(p, m). report p m) (back_edges adj ids) r0"
proof -
  have "same_search report r0 (search_all adj report ids r0) (search_all adj record_edge ids [])"
    unfolding search_all_def by (rule same_search_fold) (simp add: same_search_def)
  then show ?thesis by (simp add: same_search_def back_edges_def)
qed

section \<open>Exactness\<close>

definition edges :: "adjacency \<Rightarrow> (string \<times> string) set" where
  "edges adj = {(a, b). b \<in> set (neighbours adj a)}"

text \<open>
  The stack is a path of the graph: below the top, each entry's last visited neighbour is the
  entry above it. The nodes of the stack are the grey ones.
\<close>

fun stacked :: "adjacency \<Rightarrow> string \<Rightarrow> (string \<times> nat) list \<Rightarrow> bool" where
  "stacked adj m [] \<longleftrightarrow> True"
| "stacked adj m ((n, i) # rest) \<longleftrightarrow>
     (\<exists>j. i = Suc j \<and> j < length (neighbours adj n) \<and> neighbours adj n ! j = m) \<and> stacked adj n rest"

definition stack_path :: "adjacency \<Rightarrow> (string \<times> nat) list \<Rightarrow> bool" where
  "stack_path adj st \<longleftrightarrow> (case st of [] \<Rightarrow> True | (n, i) # rest \<Rightarrow> stacked adj n rest)"

definition closes_cycle :: "adjacency \<Rightarrow> string list \<Rightarrow> string \<Rightarrow> bool" where
  "closes_cycle adj p m \<longleftrightarrow> p \<noteq> [] \<and> distinct p \<and> m \<in> set p \<and> (last p, m) \<in> edges adj
     \<and> (\<forall>k. Suc k < length p \<longrightarrow> (p ! k, p ! Suc k) \<in> edges adj)"

definition shape_inv :: "adjacency \<Rightarrow> (string list \<times> string) list search \<Rightarrow> bool" where
  "shape_inv adj s \<longleftrightarrow> stack_path adj (dstack s) \<and> distinct (map fst (dstack s))
     \<and> (\<forall>n. colour_of s n = Grey \<longleftrightarrow> n \<in> fst ` set (dstack s))
     \<and> (\<forall>(p, m) \<in> set (found s). closes_cycle adj p m)"

lemma stacked_edges:
  "stacked adj m st \<Longrightarrow> successively (\<lambda>a b. (a, b) \<in> edges adj) (rev (m # map fst st))"
proof (induction adj m st rule: stacked.induct)
  case (2 adj m n i rest)
  then have "successively (\<lambda>a b. (a, b) \<in> edges adj) (rev (n # map fst rest))" "(n, m) \<in> edges adj"
    by (auto simp: edges_def)
  then show ?case by (simp add: successively_append_iff)
qed simp

lemma successively_nth:
  "successively P xs \<longleftrightarrow> (\<forall>k. Suc k < length xs \<longrightarrow> P (xs ! k) (xs ! Suc k))"
  by (simp add: successively_conv_nth)

lemma shape_step:
  assumes "shape_inv adj s" "dstack s \<noteq> []"
  shows "shape_inv adj (search_step adj record_edge s)"
proof -
  obtain n i rest where st: "dstack s = (n, i) # rest" using assms(2) by (cases "dstack s") auto
  have path: "stacked adj n rest" and dist: "n \<notin> fst ` set rest" "distinct (map fst rest)"
    and grey: "\<And>m. colour_of s m = Grey \<longleftrightarrow> m = n \<or> m \<in> fst ` set rest"
    and ev: "\<forall>(p, m) \<in> set (found s). closes_cycle adj p m"
    using assms(1) st by (auto simp: shape_inv_def stack_path_def)
  show ?thesis
  proof (cases "length (neighbours adj n) \<le> i")
    case True
    have "stack_path adj rest" using path by (cases rest) (auto simp: stack_path_def)
    with True st dist grey ev show ?thesis by (auto simp: search_step_def shape_inv_def)
  next
    case False
    define m where "m = neighbours adj n ! i"
    have edge: "(n, m) \<in> edges adj" using False by (simp add: edges_def m_def)
    show ?thesis
    proof (cases "colour_of s m")
      case Grey
      have "successively (\<lambda>a b. (a, b) \<in> edges adj) (grey_path s)"
        using stacked_edges[OF path] st by (simp add: grey_path_def)
      then have "closes_cycle adj (grey_path s) m"
        using st dist grey[of m] Grey edge
        by (auto simp: closes_cycle_def grey_path_def successively_nth)
      then show ?thesis using Grey st False path dist grey ev
        by (auto simp: search_step_def shape_inv_def stack_path_def m_def Let_def record_edge_def)
    next
      case White
      then have "m \<noteq> n" "m \<notin> fst ` set rest" using grey[of m] by auto
      moreover have "stacked adj m ((n, Suc i) # rest)" using path False by (simp add: m_def)
      ultimately show ?thesis using White st False dist grey ev
        by (auto simp: search_step_def shape_inv_def stack_path_def m_def Let_def)
    next
      case Black
      then have "search_step adj record_edge s = s\<lparr>dstack := (n, Suc i) # rest\<rparr>"
        using st False by (simp add: search_step_def Let_def m_def)
      then show ?thesis using path dist grey ev by (simp add: shape_inv_def stack_path_def)
    qed
  qed
qed


lemma shape_loop: "shape_inv adj s \<Longrightarrow> shape_inv adj (search_loop adj record_edge s) \<and> dstack (search_loop adj record_edge s) = []"
proof (induction adj "record_edge" s rule: search_loop.induct)
  case (1 adj s)
  then show ?case using shape_step by (cases "dstack s = []") (simp_all add: search_loop.simps[of adj record_edge s])
qed

text \<open>
  Without a report, the black nodes are closed under the edges and have no cycle among them; the
  neighbours already passed are black, but for the one a deeper entry is waiting for.
\<close>

definition blacks :: "'r search \<Rightarrow> string set" where
  "blacks s = {n. colour_of s n = Black}"

fun passed :: "adjacency \<Rightarrow> 'r search \<Rightarrow> bool \<Rightarrow> (string \<times> nat) list \<Rightarrow> bool" where
  "passed adj s isTop [] \<longleftrightarrow> True"
| "passed adj s isTop ((n, i) # rest) \<longleftrightarrow>
     (\<forall>k < (if isTop then i else i - 1). k < length (neighbours adj n) \<longrightarrow> neighbours adj n ! k \<in> blacks s)
     \<and> passed adj s False rest"

definition clean_inv :: "adjacency \<Rightarrow> (string list \<times> string) list search \<Rightarrow> bool" where
  "clean_inv adj s \<longleftrightarrow> (found s = [] \<longrightarrow>
     edges adj `` blacks s \<subseteq> blacks s \<and> acyclic (Restr (edges adj) (blacks s)) \<and> passed adj s True (dstack s))"

lemma passed_mono: "passed adj s isTop st \<Longrightarrow> blacks s \<subseteq> blacks t \<Longrightarrow> passed adj t isTop st"
  by (induction adj s isTop st rule: passed.induct) auto

lemma acyclic_insert_sink:
  assumes ac: "acyclic (Restr E B)" and cl: "E `` B \<subseteq> B" and u: "u \<notin> B" "E `` {u} \<subseteq> B"
  shows "acyclic (Restr E (insert u B))"
proof (rule acyclicI, rule allI, rule notI)
  fix x assume x: "(x, x) \<in> (Restr E (insert u B))\<^sup>+"
  then obtain y where "(y, x) \<in> Restr E (insert u B)" by (meson tranclE)
  then have "x \<in> B" using cl u(2) by auto
  have "(x, z) \<in> (Restr E (insert u B))\<^sup>+ \<Longrightarrow> (x, z) \<in> (Restr E B)\<^sup>+ \<and> z \<in> B" for z
  proof (induction rule: trancl_induct)
    case (base z)
    then show ?case using \<open>x \<in> B\<close> cl by auto
  next
    case (step y z)
    then have "(y, z) \<in> Restr E B" using cl by auto
    with step.IH show ?case by (auto intro: trancl_into_trancl)
  qed
  with x ac show False by (auto simp: acyclic_def)
qed

lemma clean_step:
  assumes "shape_inv adj s" "clean_inv adj s" "dstack s \<noteq> []"
  shows "clean_inv adj (search_step adj record_edge s)"
  unfolding clean_inv_def
proof
  assume none: "found (search_step adj record_edge s) = []"
  obtain n i rest where st: "dstack s = (n, i) # rest" using assms(3) by (cases "dstack s") auto
  define m where "m = neighbours adj n ! i"
  have f: "found s = []" and noback: "i < length (neighbours adj n) \<Longrightarrow> colour_of s m \<noteq> Grey"
    using none st by (auto simp: search_step_def Let_def m_def record_edge_def split: if_splits)
  have cl: "edges adj `` blacks s \<subseteq> blacks s" and ac: "acyclic (Restr (edges adj) (blacks s))"
    and before: "\<forall>k < i. k < length (neighbours adj n) \<longrightarrow> neighbours adj n ! k \<in> blacks s"
    and deep: "passed adj s False rest"
    using assms(2) f st by (auto simp: clean_inv_def)
  have grey: "colour_of s n = Grey" and path: "stacked adj n rest"
    using assms(1) st by (auto simp: shape_inv_def stack_path_def)
  show "edges adj `` blacks (search_step adj record_edge s) \<subseteq> blacks (search_step adj record_edge s)
    \<and> acyclic (Restr (edges adj) (blacks (search_step adj record_edge s)))
    \<and> passed adj (search_step adj record_edge s) True (dstack (search_step adj record_edge s))"
  proof (cases "length (neighbours adj n) \<le> i")
    case True
    let ?s = "(paint n Black s)\<lparr>dstack := rest\<rparr>"
    have b: "blacks ?s = insert n (blacks s)" by (auto simp: blacks_def)
    have out: "edges adj `` {n} \<subseteq> blacks s"
      using True before by (auto simp: edges_def in_set_conv_nth)
    have "n \<notin> blacks s" using grey by (simp add: blacks_def)
    then have "acyclic (Restr (edges adj) (insert n (blacks s)))" using ac cl out by (intro acyclic_insert_sink)
    moreover have "passed adj ?s True rest"
    proof (cases rest)
      case (Cons e rest')
      obtain n' i' where e: "e = (n', i')" by (cases e)
      have "passed adj ?s False rest" using deep b by (auto intro: passed_mono)
      moreover have "n \<in> blacks ?s" using b by simp
      ultimately show ?thesis using path unfolding Cons e by (auto simp: less_Suc_eq)
    qed simp
    ultimately show ?thesis using True st cl out b by (auto simp: search_step_def)
  next
    case False
    with noback consider "colour_of s m = White" | "colour_of s m = Black" by (cases "colour_of s m") auto
    then show ?thesis
    proof cases
      case 1
      let ?s = "(paint m Grey (s\<lparr>dstack := (n, Suc i) # rest\<rparr>))\<lparr>dstack := (m, 0) # (n, Suc i) # rest\<rparr>"
      have b: "blacks ?s = blacks s" using 1 by (auto simp: blacks_def)
      then have "passed adj ?s False rest" using deep by (auto intro: passed_mono)
      then show ?thesis using 1 st False cl ac before b by (simp add: search_step_def Let_def m_def)
    next
      case 2
      let ?s = "s\<lparr>dstack := (n, Suc i) # rest\<rparr>"
      have b: "blacks ?s = blacks s" by (auto simp: blacks_def)
      then have "passed adj ?s False rest" using deep by (auto intro: passed_mono)
      moreover have "m \<in> blacks s" using 2 by (simp add: blacks_def)
      ultimately show ?thesis using 2 st False cl ac before b
        by (auto simp: search_step_def Let_def m_def less_Suc_eq)
    qed
  qed
qed

lemma found_grows: "found s \<noteq> [] \<Longrightarrow> found (search_step adj record_edge s) \<noteq> []"
  by (auto simp: search_step_def Let_def record_edge_def split: list.splits)

lemma clean_loop:
  "shape_inv adj s \<Longrightarrow> clean_inv adj s \<Longrightarrow> clean_inv adj (search_loop adj record_edge s)"
proof (induction adj "record_edge" s rule: search_loop.induct)
  case (1 adj s)
  then show ?case using shape_step clean_step
    by (cases "dstack s = []") (simp_all add: search_loop.simps[of adj record_edge s])
qed


definition search_inv :: "adjacency \<Rightarrow> (string list \<times> string) list search \<Rightarrow> bool" where
  "search_inv adj s \<longleftrightarrow> shape_inv adj s \<and> clean_inv adj s \<and> dstack s = []"

lemma search_from_inv:
  assumes "search_inv adj s"
  shows "search_inv adj (search_from adj record_edge i s)"
proof (cases "colour_of s i = White")
  case True
  let ?s = "(paint i Grey s)\<lparr>dstack := [(i, 0)]\<rparr>"
  have b: "blacks ?s = blacks s" using True by (auto simp: blacks_def)
  have "shape_inv adj ?s" using assms by (auto simp: search_inv_def shape_inv_def stack_path_def)
  moreover have "clean_inv adj ?s" using assms b by (simp add: search_inv_def clean_inv_def)
  ultimately show ?thesis using True shape_loop clean_loop by (simp add: search_from_def search_inv_def)
next
  case False
  with assms show ?thesis by (simp add: search_from_def)
qed

lemma search_fold_inv: "search_inv adj s \<Longrightarrow> search_inv adj (fold (search_from adj record_edge) ids s)"
  by (induction ids arbitrary: s) (auto intro: search_from_inv)

lemma step_visits: "colour_of s i \<noteq> White \<Longrightarrow> colour_of (search_step adj report s) i \<noteq> White"
  by (auto simp: search_step_def Let_def split: list.splits)

lemma loop_visits: "colour_of s i \<noteq> White \<Longrightarrow> colour_of (search_loop adj report s) i \<noteq> White"
proof (induction adj report s rule: search_loop.induct)
  case (1 adj report s)
  then show ?case using step_visits[of s i adj report]
    by (cases "dstack s = []") (simp_all add: search_loop.simps[of adj report s])
qed

lemma from_visits:
  "colour_of s i \<noteq> White \<or> i = j \<Longrightarrow> colour_of (search_from adj report j s) i \<noteq> White"
  by (auto simp: search_from_def loop_visits)

lemma fold_visits:
  "colour_of s i \<noteq> White \<or> i \<in> set ids \<Longrightarrow> colour_of (fold (search_from adj report) ids s) i \<noteq> White"
proof (induction ids arbitrary: s)
  case (Cons j ids)
  then show ?case using from_visits[of s i j adj report] by auto
qed simp

lemma start_inv: "search_inv adj \<lparr>colour = omap_of (map (\<lambda>i. (i, White)) ids), dstack = [], found = []\<rparr>"
  (is "search_inv adj ?s")
proof -
  have c: "map_of (omap_of (map (\<lambda>i. (i, White)) ids)) n \<in> {None, Some White}" for n
    by (cases "map_of (omap_of (map (\<lambda>i. (i, White)) ids)) n")
       (auto simp: map_of_omap_of dest!: map_of_SomeD)
  have w: "colour_of ?s n = White" for n
    using c[of n] by (auto simp: colour_of_def simp del: map_of_eq_Some_iff split: option.splits)
  then have "blacks ?s = {}" by (simp add: blacks_def)
  with w show ?thesis by (simp add: search_inv_def shape_inv_def clean_inv_def stack_path_def acyclic_def)
qed

text \<open>Every report closes a cycle, and without one the graph the search has seen has no cycle.\<close>

lemma back_edges_close: "(p, m) \<in> set (back_edges adj ids) \<Longrightarrow> closes_cycle adj p m"
  using search_fold_inv[OF start_inv[of adj ids], of ids]
  by (auto simp: back_edges_def search_all_def search_inv_def shape_inv_def)

lemma back_edges_complete:
  assumes "back_edges adj ids = []"
  shows "\<exists>B. set ids \<subseteq> B \<and> edges adj `` B \<subseteq> B \<and> acyclic (Restr (edges adj) B)"
proof -
  let ?s = "fold (search_from adj record_edge) ids \<lparr>colour = omap_of (map (\<lambda>i. (i, White)) ids), dstack = [], found = []\<rparr>"
  have inv: "search_inv adj ?s" by (rule search_fold_inv[OF start_inv])
  have "i \<in> blacks ?s" if "i \<in> set ids" for i
    using fold_visits[of _ i ids adj record_edge] that inv
    by (cases "colour_of ?s i") (auto simp: blacks_def search_inv_def shape_inv_def)
  moreover have "found ?s = []" using assms by (simp add: back_edges_def search_all_def)
  ultimately show ?thesis using inv by (auto simp: search_inv_def clean_inv_def)
qed

lemma closes_cycle_path:
  assumes "closes_cycle adj p m"
  shows "(m, m) \<in> (edges adj)\<^sup>+"
proof -
  from assms obtain j where j: "j < length p" "p ! j = m" by (auto simp: closes_cycle_def in_set_conv_nth)
  have "(p ! j, p ! k) \<in> (edges adj)\<^sup>*" if "j \<le> k" "k < length p" for k
    using that
  proof (induction k)
    case (Suc k)
    then show ?case using assms by (cases "j = Suc k") (auto simp: closes_cycle_def intro: rtrancl_into_rtrancl)
  qed simp
  from this[of "length p - 1"] j have "(m, last p) \<in> (edges adj)\<^sup>*"
    by (cases p) (auto simp: last_conv_nth)
  with assms show ?thesis by (meson closes_cycle_def rtrancl_into_trancl1)
qed

lemma edges_source: "(a, b) \<in> edges adj \<Longrightarrow> a \<in> fst ` set adj"
  by (cases "map_of adj a") (auto simp: edges_def neighbours_def dest: map_of_SomeD intro: rev_image_eqI)

theorem back_edges_iff:
  assumes "fst ` set adj \<subseteq> set ids"
  shows "back_edges adj ids = [] \<longleftrightarrow> acyclic (edges adj)"
proof
  assume none: "back_edges adj ids = []"
  from back_edges_complete[OF this] obtain B
    where B: "set ids \<subseteq> B" "acyclic (Restr (edges adj) B)" "edges adj `` B \<subseteq> B"
    by (elim exE conjE)
  have "edges adj \<subseteq> B \<times> B"
  proof (rule subrelI)
    fix a b assume e: "(a, b) \<in> edges adj"
    then have "a \<in> B" using edges_source[OF e] assms B(1) by auto
    with e B(3) show "(a, b) \<in> B \<times> B" by auto
  qed
  then have "Restr (edges adj) B = edges adj" by auto
  with B(2) show "acyclic (edges adj)" by simp
next
  assume ac: "acyclic (edges adj)"
  show "back_edges adj ids = []"
  proof (rule ccontr)
    assume "back_edges adj ids \<noteq> []"
    then obtain p m where "(p, m) \<in> set (back_edges adj ids)" by (metis list.set_sel(1) surj_pair)
    then have "(m, m) \<in> (edges adj)\<^sup>+" by (intro closes_cycle_path back_edges_close)
    with ac show False by (auto simp: acyclic_def)
  qed
qed

end
