(* ===== verification/WorkPackages.thy ===== *)
theory WorkPackages
  imports ColouredSearch TextParts
begin

text \<open>
  Work packages (\<^verbatim>\<open>src/core/work-package-dispatch.ts\<close>): bounded units of work with a write scope, a
  forbidden scope and prerequisites. Modelled: the normalisation of a scope, the pairwise conflict
  class, the validation of a package set with its coloured search, the dependency waves, the split of
  a wave into groups that may run side by side, and the whole dispatch plan.
\<close>

record work_package =
  wp_id :: string
  writeScope :: "string list"
  forbiddenScope :: "string list option"
  wp_dependsOn :: "string list option"

datatype conflict_class = Green | Yellow | Red

record pair_conflict =
  pc_left :: string
  pc_right :: string
  conflictClass :: conflict_class
  sharedSpecificPaths :: "string list"
  sharedCoarsePaths :: "string list"
  forbiddenViolations :: "string list"

datatype wp_error_kind = WpDuplicateId | WpUnknownDependency | WpCycle | WpEscapingScope | WpEmptyScope

record wp_error =
  we_kind :: wp_error_kind
  we_message :: string
  we_package :: string

record dispatch_plan =
  dp_ok :: bool
  dp_errors :: "wp_error list"
  dp_waves :: "string list list list"

definition prereqs :: "work_package \<Rightarrow> string list" where
  "prereqs p = (case wp_dependsOn p of None \<Rightarrow> [] | Some ds \<Rightarrow> ds)"

definition forbidden :: "work_package \<Rightarrow> string list" where
  "forbidden p = (case forbiddenScope p of None \<Rightarrow> [] | Some fs \<Rightarrow> fs)"

section \<open>Scopes\<close>

definition slash :: char where
  "slash = CHR ''/''"

text \<open>\<^verbatim>\<open>replace(/\/+/gu, "/")\<close>\<close>

fun squeeze_slashes :: "string \<Rightarrow> string" where
  "squeeze_slashes [] = []"
| "squeeze_slashes [c] = [c]"
| "squeeze_slashes (c # d # s) = (if c = slash \<and> d = slash then squeeze_slashes (d # s) else c # squeeze_slashes (d # s))"

text \<open>\<^verbatim>\<open>replace(/^\.\/+/u, "")\<close>\<close>

definition strip_dot_slash :: "string \<Rightarrow> string" where
  "strip_dot_slash s = (if prefix ''./'' s then dropWhile (\<lambda>c. c = slash) (tl s) else s)"

definition normalizeScopeGlob :: "string \<Rightarrow> string" where
  "normalizeScopeGlob glob =
     (let a = map (\<lambda>c. if c = CHR 0x5C then slash else c) (trim glob);
          b = dropWhile (\<lambda>c. c = slash) (strip_dot_slash (squeeze_slashes a))
      in to_lower (rev (dropWhile (\<lambda>c. c = slash) (rev b))))"

definition COARSE_SCOPE_BASENAMES :: "string list" where
  "COARSE_SCOPE_BASENAMES =
     [''package.json'', ''package-lock.json'', ''yarn.lock'', ''pnpm-lock.yaml'', ''tsconfig.json'', ''biome.json'',
      ''.gitignore'', ''.npmrc'', ''readme.md'', ''changelog.md'', ''requirements.txt'', ''pyproject.toml'',
      ''poetry.lock'', ''cargo.toml'', ''cargo.lock'', ''go.mod'', ''go.sum'', ''makefile'', ''dockerfile'',
      ''index.ts'', ''index.tsx'', ''index.js'', ''mod.ts'']"

text \<open>\<^verbatim>\<open>/^tsconfig\..+\.json$/u\<close>: the dot of a pattern matches no line break.\<close>

definition tsconfig_variant :: "string \<Rightarrow> bool" where
  "tsconfig_variant s \<longleftrightarrow> prefix ''tsconfig.'' s \<and> suffix ''.json'' s
     \<and> (let m = drop 9 (take (length s - 5) s) in m \<noteq> [] \<and> list_all (\<lambda>c. c \<noteq> CHR 10 \<and> c \<noteq> CHR 13) m)"

text \<open>\<^verbatim>\<open>/^[\w.-]+\.config\.(c|m)?[jt]s$/u\<close>\<close>

definition config_name_char :: "char \<Rightarrow> bool" where
  "config_name_char c \<longleftrightarrow> (let n = of_char c :: nat in
     48 \<le> n \<and> n \<le> 57 \<or> 65 \<le> n \<and> n \<le> 90 \<or> 97 \<le> n \<and> n \<le> 122 \<or> c = CHR ''_'' \<or> c = CHR ''.'' \<or> c = CHR ''-'')"

definition root_config_name :: "string \<Rightarrow> bool" where
  "root_config_name s \<longleftrightarrow> list_ex (\<lambda>e. suffix (''.config.'' @ e) s
       \<and> (let a = take (length s - length (''.config.'' @ e)) s in a \<noteq> [] \<and> list_all config_name_char a))
     [''js'', ''ts'', ''cjs'', ''cts'', ''mjs'', ''mts'']"

definition isCoarseScopePath :: "string \<Rightarrow> bool" where
  "isCoarseScopePath g =
     (let b = last (split_on slash g) in
      if b \<in> set COARSE_SCOPE_BASENAMES \<or> tsconfig_variant b then True
      else slash \<notin> set g \<and> root_config_name b)"

definition scopeEscapesRoot :: "string \<Rightarrow> bool" where
  "scopeEscapesRoot g \<longleftrightarrow> g = ''..'' \<or> prefix ''../'' g \<or> ''..'' \<in> set (split_on slash g)"

definition normalizedScopeSet :: "string list \<Rightarrow> string list" where
  "normalizedScopeSet scope = oset_of (filter (\<lambda>g. g \<noteq> []) (map normalizeScopeGlob scope))"

definition isWithinForbidden :: "string \<Rightarrow> string \<Rightarrow> bool" where
  "isWithinForbidden w f \<longleftrightarrow> w = f \<or> prefix (f @ [slash]) w"

definition sortedIntersection :: "string list \<Rightarrow> string list \<Rightarrow> string list" where
  "sortedIntersection l r = js_sort (\<le>) (filter (\<lambda>v. v \<in> set r) l)"

section \<open>The conflict class of a pair\<close>

text \<open>What one side writes inside the other's forbidden scope, in the order of the two loops.\<close>

definition violations :: "string \<Rightarrow> string list \<Rightarrow> string \<Rightarrow> string list \<Rightarrow> string list" where
  "violations writer ws owner fs =
     concat (map (\<lambda>w. map (\<lambda>f. writer @ '' writes '' @ quote_str w @ '' inside '' @ owner @ apostrophe @ ''s forbidden ''
         @ quote_str f) (filter (isWithinForbidden w) fs)) ws)"

definition classifyPackagePairConflict :: "work_package \<Rightarrow> work_package \<Rightarrow> pair_conflict" where
  "classifyPackagePairConflict left right =
     (let lw = normalizedScopeSet (writeScope left); rw = normalizedScopeSet (writeScope right);
          lf = normalizedScopeSet (forbidden left); rf = normalizedScopeSet (forbidden right);
          shared = sortedIntersection lw rw;
          specific = filter (\<lambda>p. \<not> isCoarseScopePath p) shared;
          coarse = filter isCoarseScopePath shared;
          bad = js_sort (\<le>) (violations (wp_id left) lw (wp_id right) rf @ violations (wp_id right) rw (wp_id left) lf)
      in \<lparr>pc_left = wp_id left, pc_right = wp_id right,
          conflictClass = (if specific \<noteq> [] \<or> bad \<noteq> [] then Red else if coarse \<noteq> [] then Yellow else Green),
          sharedSpecificPaths = specific, sharedCoarsePaths = coarse, forbiddenViolations = bad\<rparr>)"

fun detectWorkPackageConflicts :: "work_package list \<Rightarrow> pair_conflict list" where
  "detectWorkPackageConflicts [] = []"
| "detectWorkPackageConflicts (p # ps) =
     filter (\<lambda>c. conflictClass c \<noteq> Green) (map (classifyPackagePairConflict p) ps) @ detectWorkPackageConflicts ps"

fun worst_of :: "conflict_class \<Rightarrow> pair_conflict list \<Rightarrow> conflict_class" where
  "worst_of w [] = w"
| "worst_of w (c # cs) =
     (if conflictClass c = Red then Red else worst_of (if conflictClass c = Yellow then Yellow else w) cs)"

definition worstConflictClass :: "work_package list \<Rightarrow> conflict_class" where
  "worstConflictClass ps = worst_of Green (detectWorkPackageConflicts ps)"

section \<open>Validation\<close>

definition wp_error :: "wp_error_kind \<Rightarrow> string \<Rightarrow> string \<Rightarrow> wp_error" where
  "wp_error k msg i = \<lparr>we_kind = k, we_message = msg, we_package = i\<rparr>"

fun duplicate_errors :: "string list \<Rightarrow> work_package list \<Rightarrow> wp_error list" where
  "duplicate_errors seen [] = []"
| "duplicate_errors seen (p # ps) =
     (if wp_id p \<in> set seen
      then wp_error WpDuplicateId (''duplicate package id: '' @ quote_str (wp_id p)) (wp_id p) # duplicate_errors seen ps
      else duplicate_errors (seen @ [wp_id p]) ps)"

definition package_errors :: "string list \<Rightarrow> work_package \<Rightarrow> wp_error list" where
  "package_errors ids p =
     (if normalizedScopeSet (writeScope p) = []
      then [wp_error WpEmptyScope (''package '' @ quote_str (wp_id p) @ '' has an empty write scope'') (wp_id p)] else [])
     @ map (\<lambda>g. wp_error WpEscapingScope
           (''package '' @ quote_str (wp_id p) @ '' scope glob '' @ quote_str g @ '' escapes its root'') (wp_id p))
         (filter (\<lambda>g. normalizeScopeGlob g \<noteq> [] \<and> scopeEscapesRoot (normalizeScopeGlob g)) (writeScope p @ forbidden p))
     @ map (\<lambda>d. wp_error WpUnknownDependency
           (''package '' @ quote_str (wp_id p) @ '' dependsOn unknown id: '' @ quote_str d) (wp_id p))
         (filter (\<lambda>d. d \<notin> set ids) (prereqs p))"

definition known_adjacency :: "work_package list \<Rightarrow> adjacency" where
  "known_adjacency ps = omap_of (map (\<lambda>p. (wp_id p, filter (\<lambda>d. d \<in> wp_id ` set ps) (prereqs p))) ps)"

text \<open>
  At a back edge the node that closes the cycle is reported once; the first component is the set of
  the nodes already reported. The arrow of the message is written as two characters.
\<close>

definition report_cycle :: "string list \<Rightarrow> string \<Rightarrow> string list \<times> wp_error list \<Rightarrow> string list \<times> wp_error list" where
  "report_cycle path m r =
     (let n = last path in
      if n \<in> set (fst r) then r
      else (fst r @ [n], snd r @ [wp_error WpCycle
        (''dependency cycle detected: package '' @ quote_str n @ '' -> '' @ quote_str m @ '' forms a cycle'') n]))"

definition validateWorkPackages :: "work_package list \<Rightarrow> wp_error list" where
  "validateWorkPackages ps =
     duplicate_errors [] ps
     @ concat (map (package_errors (map wp_id ps)) ps)
     @ snd (found (search_all (known_adjacency ps) report_cycle (map wp_id ps) ([], [])))"

section \<open>Dependency waves\<close>

text \<open>The ids not yet placed whose prerequisites are all placed, sorted.\<close>

definition ready_ids :: "string list \<Rightarrow> (string \<Rightarrow> string list) \<Rightarrow> string list \<Rightarrow> string list" where
  "ready_ids ids deps placed =
     js_sort (\<le>) (filter (\<lambda>i. i \<notin> set placed \<and> list_all (\<lambda>d. d \<in> set placed) (deps i)) ids)"

lemma sorted_js_sort_le [simp]: "sorted (js_sort (\<le>) (xs :: 'a :: linorder list))"
  by (rule sorted_wrt_js_sort) auto

lemma set_ready_ids [simp]: "set (ready_ids ids deps placed) = {i \<in> set ids. i \<notin> set placed \<and> set (deps i) \<subseteq> set placed}"
  by (auto simp: ready_ids_def list_all_iff)

lemma fewer_unplaced:
  assumes "ready_ids ids deps placed \<noteq> []"
  shows "length (filter (\<lambda>i. i \<notin> set (fold oset_add (ready_ids ids deps placed) placed)) ids)
    < length (filter (\<lambda>i. i \<notin> set placed) ids)"
proof -
  obtain i where i: "i \<in> set (ready_ids ids deps placed)" using assms by (cases "ready_ids ids deps placed") auto
  then have "filter (\<lambda>i. i \<notin> set (fold oset_add (ready_ids ids deps placed) placed)) ids
      = filter (\<lambda>j. j \<notin> set (ready_ids ids deps placed)) (filter (\<lambda>i. i \<notin> set placed) ids)"
    by (auto simp: set_oset_fold intro: filter_cong)
  moreover have "i \<in> set (filter (\<lambda>i. i \<notin> set placed) ids)" using i by auto
  ultimately show ?thesis using i by (metis length_filter_less)
qed

function waves_loop :: "string list \<Rightarrow> (string \<Rightarrow> string list) \<Rightarrow> string list \<Rightarrow> string list list \<Rightarrow> string list list option" where
  "waves_loop ids deps placed waves =
     (if length placed < length ids
      then (let wave = ready_ids ids deps placed in
        if wave = [] then None else waves_loop ids deps (fold oset_add wave placed) (waves @ [wave]))
      else Some waves)"
  by pat_completeness auto
termination
  by (relation "measure (\<lambda>(ids, deps, placed, waves). length (filter (\<lambda>i. i \<notin> set placed) ids))")
    (use fewer_unplaced in auto)

declare waves_loop.simps [simp del]

definition known_prereqs :: "work_package list \<Rightarrow> string \<Rightarrow> string list" where
  "known_prereqs ps i =
     (case map_of (omap_of (map (\<lambda>p. (wp_id p, oset_of (filter (\<lambda>d. d \<noteq> wp_id p) (prereqs p)))) ps)) i of
        None \<Rightarrow> [] | Some ds \<Rightarrow> ds)"

definition resolveDispatchWaves :: "work_package list \<Rightarrow> string list list option" where
  "resolveDispatchWaves ps =
     (let ids = oset_of (map wp_id ps) in
      if length ids \<noteq> length ps then None
      else if list_ex (\<lambda>p. list_ex (\<lambda>d. d \<notin> set ids) (prereqs p)) ps then None
      else waves_loop ids (known_prereqs ps) [] [])"

section \<open>Groups that run side by side\<close>

text \<open>First fit: the package joins the first group with whose members it has no conflict.\<close>

fun first_fit :: "(string \<Rightarrow> bool) \<Rightarrow> string \<Rightarrow> string list list \<Rightarrow> string list list" where
  "first_fit clashes i [] = [[i]]"
| "first_fit clashes i (g # gs) = (if list_ex clashes g then g # first_fit clashes i gs else (g @ [i]) # gs)"

definition clashes_with :: "(string, work_package) omap \<Rightarrow> work_package \<Rightarrow> string \<Rightarrow> bool" where
  "clashes_with byId p m =
     (case map_of byId m of None \<Rightarrow> False | Some q \<Rightarrow> conflictClass (classifyPackagePairConflict p q) \<noteq> Green)"

definition partitionWaveIntoParallelGroups :: "string list \<Rightarrow> (string, work_package) omap \<Rightarrow> string list list" where
  "partitionWaveIntoParallelGroups wave byId =
     fold (\<lambda>i groups. case map_of byId i of None \<Rightarrow> groups | Some p \<Rightarrow> first_fit (clashes_with byId p) i groups) wave []"

definition by_id :: "work_package list \<Rightarrow> (string, work_package) omap" where
  "by_id ps = omap_of (map (\<lambda>p. (wp_id p, p)) ps)"

definition planParallelDispatch :: "work_package list \<Rightarrow> dispatch_plan" where
  "planParallelDispatch ps =
     (let errors = validateWorkPackages ps in
      if errors \<noteq> [] then \<lparr>dp_ok = False, dp_errors = errors, dp_waves = []\<rparr>
      else (case resolveDispatchWaves ps of
          None \<Rightarrow> \<lparr>dp_ok = False,
            dp_errors = [wp_error WpCycle ''dependency graph is not resolvable (cycle)'' []], dp_waves = []\<rparr>
        | Some waves \<Rightarrow> \<lparr>dp_ok = True, dp_errors = [],
            dp_waves = map (\<lambda>w. partitionWaveIntoParallelGroups w (by_id ps)) waves\<rparr>))"

end
