(* ===== verification/WorkPackageFacts.thy ===== *)
theory WorkPackageFacts
  imports WorkPackages
begin

text \<open>
  Facts about the dispatch plan: what validation accepts, that the waves of an accepted set exist
  and respect every prerequisite, and that the groups of a wave partition it without a conflict.
\<close>

section \<open>What validation accepts\<close>

definition scopes_ok :: "work_package \<Rightarrow> bool" where
  "scopes_ok p \<longleftrightarrow> normalizedScopeSet (writeScope p) \<noteq> []
     \<and> (\<forall>g \<in> set (writeScope p @ forbidden p). normalizeScopeGlob g \<noteq> [] \<longrightarrow> \<not> scopeEscapesRoot (normalizeScopeGlob g))"

definition prereq_edges :: "work_package list \<Rightarrow> (string \<times> string) set" where
  "prereq_edges ps = {(wp_id p, d) | p d. p \<in> set ps \<and> d \<in> set (prereqs p)}"

definition well_formed_set :: "work_package list \<Rightarrow> bool" where
  "well_formed_set ps \<longleftrightarrow> distinct (map wp_id ps) \<and> (\<forall>p \<in> set ps. scopes_ok p)
     \<and> (\<forall>p \<in> set ps. set (prereqs p) \<subseteq> wp_id ` set ps) \<and> acyclic (prereq_edges ps)"

lemma duplicate_errors_none:
  "duplicate_errors seen ps = [] \<longleftrightarrow> distinct (map wp_id ps) \<and> wp_id ` set ps \<inter> set seen = {}"
  by (induction seen ps rule: duplicate_errors.induct) auto

lemma package_errors_none: "package_errors ids p = [] \<longleftrightarrow> scopes_ok p \<and> set (prereqs p) \<subseteq> set ids"
  by (auto simp: package_errors_def scopes_ok_def filter_empty_conv)

lemma report_cycle_adds: "snd r \<noteq> [] \<or> fst r = [] \<Longrightarrow> snd (report_cycle p m r) \<noteq> []"
  by (auto simp: report_cycle_def Let_def)

lemma report_cycle_keeps: "snd r \<noteq> [] \<Longrightarrow> snd (fold (\<lambda>(p, m). report_cycle p m) es r) \<noteq> []"
proof (induction es arbitrary: r)
  case (Cons e es)
  then show ?case using report_cycle_adds[of r "fst e" "snd e"] by (simp add: case_prod_beta)
qed simp

lemma cycle_errors_none: "snd (fold (\<lambda>(p, m). report_cycle p m) es ([], [])) = [] \<longleftrightarrow> es = []"
proof (cases es)
  case (Cons e es')
  have "snd (report_cycle (fst e) (snd e) ([], [])) \<noteq> []" by (simp add: report_cycle_adds)
  from report_cycle_keeps[OF this, of es'] show ?thesis by (simp add: Cons case_prod_beta)
qed simp

lemma neighbours_known:
  assumes "distinct (map wp_id ps)" "p \<in> set ps"
  shows "neighbours (known_adjacency ps) (wp_id p) = filter (\<lambda>d. d \<in> wp_id ` set ps) (prereqs p)"
proof -
  have "map_of (map (\<lambda>p. (wp_id p, filter (\<lambda>d. d \<in> wp_id ` set ps) (prereqs p))) ps) (wp_id p)
      = Some (filter (\<lambda>d. d \<in> wp_id ` set ps) (prereqs p))"
    using assms by (intro map_of_is_SomeI) (auto simp: comp_def)
  then show ?thesis using assms(1) by (simp add: neighbours_def known_adjacency_def comp_def)
qed

lemma edges_known:
  assumes "distinct (map wp_id ps)" "\<forall>p \<in> set ps. set (prereqs p) \<subseteq> wp_id ` set ps"
  shows "edges (known_adjacency ps) = prereq_edges ps"
proof (intro set_eqI iffI)
  fix e assume e: "e \<in> edges (known_adjacency ps)"
  have "fst ` set (known_adjacency ps) = wp_id ` set ps"
    using assms(1) by (simp add: known_adjacency_def comp_def image_image)
  with edges_source[of "fst e" "snd e" "known_adjacency ps"] e obtain p where p: "p \<in> set ps" "wp_id p = fst e"
    by auto
  with e neighbours_known[OF assms(1) p(1)] show "e \<in> prereq_edges ps"
    by (cases e) (auto simp: edges_def prereq_edges_def)
next
  fix e assume "e \<in> prereq_edges ps"
  then obtain p where p: "p \<in> set ps" "fst e = wp_id p" "snd e \<in> set (prereqs p)" by (auto simp: prereq_edges_def)
  then show "e \<in> edges (known_adjacency ps)"
    using neighbours_known[OF assms(1) p(1)] assms(2) by (cases e) (auto simp: edges_def)
qed

lemma validate_iff: "validateWorkPackages ps = [] \<longleftrightarrow> well_formed_set ps"
proof (cases "distinct (map wp_id ps) \<and> (\<forall>p \<in> set ps. set (prereqs p) \<subseteq> wp_id ` set ps)")
  case True
  then have keys: "fst ` set (known_adjacency ps) \<subseteq> set (map wp_id ps)"
    by (auto simp: known_adjacency_def comp_def)
  have "back_edges (known_adjacency ps) (map wp_id ps) = [] \<longleftrightarrow> acyclic (prereq_edges ps)"
    using back_edges_iff[OF keys] edges_known True by simp
  with True show ?thesis
    by (auto simp: validateWorkPackages_def well_formed_set_def found_search_all cycle_errors_none
        duplicate_errors_none package_errors_none)
next
  case False
  then show ?thesis
    by (auto simp: validateWorkPackages_def well_formed_set_def duplicate_errors_none package_errors_none)
qed

section \<open>Rounds of ready ids\<close>

text \<open>
  Every wave consists of ids whose prerequisites lie in earlier waves; when every prerequisite is an
  id and the prerequisites have no cycle, the loop places all ids.
\<close>

fun wave_order :: "(string \<Rightarrow> string list) \<Rightarrow> string set \<Rightarrow> string list list \<Rightarrow> bool" where
  "wave_order deps done [] \<longleftrightarrow> True"
| "wave_order deps done (w # ws) \<longleftrightarrow>
     w \<noteq> [] \<and> set w \<inter> done = {} \<and> distinct w \<and> sorted w \<and> (\<forall>i \<in> set w. set (deps i) \<subseteq> done)
     \<and> wave_order deps (done \<union> set w) ws"

lemma wave_order_append:
  "wave_order deps done (ws @ [w]) \<longleftrightarrow> wave_order deps done ws
     \<and> (let d = done \<union> set (concat ws) in w \<noteq> [] \<and> set w \<inter> d = {} \<and> distinct w \<and> sorted w \<and> (\<forall>i \<in> set w. set (deps i) \<subseteq> d))"
  by (induction deps "done" ws rule: wave_order.induct) (auto simp: Let_def Un_assoc)

lemma sorted_ready: "sorted (ready_ids ids deps placed)"
  by (simp add: ready_ids_def)

lemma distinct_ready: "distinct ids \<Longrightarrow> distinct (ready_ids ids deps placed)"
  by (simp add: ready_ids_def)

lemma waves_loop_order:
  assumes "waves_loop ids deps placed waves = Some ws" "distinct ids" "distinct placed"
    and "set placed = set (concat waves)" "set placed \<subseteq> set ids" "wave_order deps {} waves"
  shows "wave_order deps {} ws \<and> set (concat ws) = set ids"
  using assms
proof (induction ids deps placed waves rule: waves_loop.induct)
  case (1 ids deps placed waves)
  let ?wave = "ready_ids ids deps placed"
  show ?case
  proof (cases "length placed < length ids")
    case True
    with "1.prems"(1) have ne: "?wave \<noteq> []"
      and rec: "waves_loop ids deps (fold oset_add ?wave placed) (waves @ [?wave]) = Some ws"
      by (auto simp: waves_loop.simps[of ids deps placed waves] Let_def split: if_splits)
    have "wave_order deps {} (waves @ [?wave])"
      using "1.prems"(2,4,6) ne sorted_ready distinct_ready by (auto simp: wave_order_append Let_def)
    with "1.IH"[OF True refl ne rec] "1.prems" show ?thesis
      by (auto simp: set_oset_fold distinct_oset_fold)
  next
    case False
    then have "ws = waves" using "1.prems"(1) by (simp add: waves_loop.simps[of ids deps placed waves])
    moreover have "set placed = set ids"
      using False "1.prems"(2,3,5) by (metis card_mono card_subset_eq distinct_card finite_set linorder_not_less order_antisym)
    ultimately show ?thesis using "1.prems" by simp
  qed
qed

definition dep_edges :: "string list \<Rightarrow> (string \<Rightarrow> string list) \<Rightarrow> (string \<times> string) set" where
  "dep_edges ids deps = {(i, d). i \<in> set ids \<and> d \<in> set (deps i)}"

lemma finite_dep_edges: "finite (dep_edges ids deps)"
proof -
  have "dep_edges ids deps = (\<Union>i \<in> set ids. Pair i ` set (deps i))" by (auto simp: dep_edges_def)
  then show ?thesis by simp
qed

text \<open>While something is unplaced, an acyclic graph offers an id whose prerequisites are placed.\<close>

lemma acyclic_progress:
  assumes "acyclic (dep_edges ids deps)" "\<forall>i \<in> set ids. set (deps i) \<subseteq> set ids" "set placed \<subset> set ids"
  shows "ready_ids ids deps placed \<noteq> []"
proof -
  have "wf ((dep_edges ids deps)\<inverse>)"
    using assms(1) finite_dep_edges by (simp add: finite_acyclic_wf_converse)
  moreover obtain i0 where "i0 \<in> set ids - set placed" using assms(3) by auto
  ultimately obtain i where i: "i \<in> set ids - set placed"
    and least: "\<And>d. (d, i) \<in> (dep_edges ids deps)\<inverse> \<Longrightarrow> d \<notin> set ids - set placed"
    by (rule wfE_min) blast
  have "set (deps i) \<subseteq> set placed"
    using i least assms(2) by (auto simp: dep_edges_def)
  with i have "i \<in> set (ready_ids ids deps placed)" by simp
  then show ?thesis by force
qed

lemma waves_loop_total:
  assumes "acyclic (dep_edges ids deps)" "\<forall>i \<in> set ids. set (deps i) \<subseteq> set ids" "set placed \<subseteq> set ids"
    and "distinct placed" "distinct ids"
  shows "waves_loop ids deps placed waves \<noteq> None"
  using assms
proof (induction ids deps placed waves rule: waves_loop.induct)
  case (1 ids deps placed waves)
  let ?wave = "ready_ids ids deps placed"
  show ?case
  proof (cases "length placed < length ids")
    case True
    then have "set placed \<noteq> set ids" using "1.prems"(4,5) by (metis distinct_card less_irrefl)
    then have ne: "?wave \<noteq> []" using "1.prems" by (intro acyclic_progress) auto
    have "set (fold oset_add ?wave placed) \<subseteq> set ids" using "1.prems"(3) by (auto simp: set_oset_fold)
    with "1.IH"[OF True refl ne] "1.prems" have
      "waves_loop ids deps (fold oset_add ?wave placed) (waves @ [?wave]) \<noteq> None"
      by (simp add: distinct_oset_fold)
    then show ?thesis using True ne by (simp add: waves_loop.simps[of ids deps placed waves] Let_def)
  qed (simp add: waves_loop.simps[of ids deps placed waves])
qed

section \<open>The waves of a well-formed set\<close>

lemma oset_of_distinct: "distinct xs \<Longrightarrow> oset_of xs = xs"
proof -
  have "distinct (s @ xs) \<Longrightarrow> fold oset_add xs s = s @ xs" for s
    by (induction xs arbitrary: s) (auto simp: oset_add_def)
  from this[of "[]"] show "distinct xs \<Longrightarrow> oset_of xs = xs" by (simp add: oset_of_def)
qed

lemma known_prereqs_of:
  assumes "distinct (map wp_id ps)" "p \<in> set ps"
  shows "set (known_prereqs ps (wp_id p)) = {d \<in> set (prereqs p). d \<noteq> wp_id p}"
proof -
  have "map_of (map (\<lambda>p. (wp_id p, oset_of (filter (\<lambda>d. d \<noteq> wp_id p) (prereqs p)))) ps) (wp_id p)
      = Some (oset_of (filter (\<lambda>d. d \<noteq> wp_id p) (prereqs p)))"
    using assms by (intro map_of_is_SomeI) (auto simp: comp_def)
  then show ?thesis using assms(1) by (auto simp: known_prereqs_def comp_def)
qed

lemma resolve_well_formed:
  assumes "well_formed_set ps"
  shows "\<exists>ws. resolveDispatchWaves ps = Some ws \<and> wave_order (known_prereqs ps) {} ws \<and> set (concat ws) = wp_id ` set ps"
proof -
  have d: "distinct (map wp_id ps)" and k: "\<forall>p \<in> set ps. set (prereqs p) \<subseteq> wp_id ` set ps"
    and a: "acyclic (prereq_edges ps)" using assms by (auto simp: well_formed_set_def)
  let ?ids = "map wp_id ps"
  have r: "resolveDispatchWaves ps = waves_loop ?ids (known_prereqs ps) [] []"
    using d k by (auto simp: resolveDispatchWaves_def oset_of_distinct list_ex_iff Let_def)
  have "dep_edges ?ids (known_prereqs ps) \<subseteq> prereq_edges ps"
    using known_prereqs_of[OF d] by (auto simp: dep_edges_def prereq_edges_def)
  with a have ac: "acyclic (dep_edges ?ids (known_prereqs ps))" by (rule acyclic_subset)
  have "\<forall>i \<in> set ?ids. set (known_prereqs ps i) \<subseteq> set ?ids"
    using known_prereqs_of[OF d] k by auto
  with ac d obtain ws where ws: "waves_loop ?ids (known_prereqs ps) [] [] = Some ws"
    using waves_loop_total[of ?ids "known_prereqs ps" "[]" "[]"] by auto
  with waves_loop_order[OF ws d] r show ?thesis by simp
qed

section \<open>Groups\<close>

lemma conflict_symmetric: "conflictClass (classifyPackagePairConflict p q) = conflictClass (classifyPackagePairConflict q p)"
proof -
  have m: "sortedIntersection (normalizedScopeSet a) (normalizedScopeSet b) = sortedIntersection (normalizedScopeSet b) (normalizedScopeSet a)"
    for a b
  proof -
    have "distinct (sortedIntersection (normalizedScopeSet a) (normalizedScopeSet b))"
      "sorted (sortedIntersection (normalizedScopeSet a) (normalizedScopeSet b))" for a b
      by (simp_all add: sortedIntersection_def normalizedScopeSet_def)
    then show ?thesis by (intro sorted_distinct_set_unique) (auto simp: sortedIntersection_def)
  qed
  have v: "js_sort (\<le>) (a @ b) = [] \<longleftrightarrow> js_sort (\<le>) (b @ a) = []" for a b :: "string list"
    by (metis append_is_Nil_conv length_0_conv length_js_sort)
  show ?thesis
    by (simp only: classifyPackagePairConflict_def Let_def pair_conflict.simps
        m[of "writeScope p" "writeScope q"] v[of "violations (wp_id p) _ _ _"])
qed

text \<open>A list of groups without a conflict inside: each member was checked against the earlier ones.\<close>

definition side_by_side :: "(string, work_package) omap \<Rightarrow> string list \<Rightarrow> bool" where
  "side_by_side byId g \<longleftrightarrow> sorted_wrt (\<lambda>m i. \<forall>p. map_of byId i = Some p \<longrightarrow> \<not> clashes_with byId p m) g"

lemma first_fit_ok:
  assumes "\<forall>g \<in> set gs. side_by_side byId g \<and> g \<noteq> []" "map_of byId i = Some p"
  shows "(\<forall>g \<in> set (first_fit (clashes_with byId p) i gs). side_by_side byId g \<and> g \<noteq> [])
    \<and> mset (concat (first_fit (clashes_with byId p) i gs)) = add_mset i (mset (concat gs))"
  using assms
proof (induction gs)
  case (Cons g gs)
  show ?case
  proof (cases "list_ex (clashes_with byId p) g")
    case True
    with Cons show ?thesis by simp
  next
    case False
    then have "side_by_side byId (g @ [i])"
      using Cons.prems by (simp add: side_by_side_def sorted_wrt_append list_ex_iff)
    with False Cons.prems show ?thesis by simp
  qed
qed (simp add: side_by_side_def)

lemma groups_ok:
  assumes "set wave \<subseteq> fst ` set byId"
  shows "(\<forall>g \<in> set (partitionWaveIntoParallelGroups wave byId). side_by_side byId g \<and> g \<noteq> [])
    \<and> mset (concat (partitionWaveIntoParallelGroups wave byId)) = mset wave"
proof -
  let ?f = "\<lambda>i groups. case map_of byId i of None \<Rightarrow> groups | Some p \<Rightarrow> first_fit (clashes_with byId p) i groups"
  have "\<forall>g \<in> set gs. side_by_side byId g \<and> g \<noteq> [] \<Longrightarrow>
      (\<forall>g \<in> set (fold ?f wave gs). side_by_side byId g \<and> g \<noteq> []) \<and> mset (concat (fold ?f wave gs)) = mset wave + mset (concat gs)"
    for gs using assms
  proof (induction wave arbitrary: gs)
    case (Cons i wave)
    have "map_of byId i \<noteq> None" using Cons.prems(2) by (simp add: map_of_eq_None_iff)
    then obtain p where p: "map_of byId i = Some p" by blast
    note fit = first_fit_ok[OF Cons.prems(1) p]
    have "set wave \<subseteq> fst ` set byId" using Cons.prems(2) by simp
    from Cons.IH[OF conjunct1[OF fit] this] conjunct2[OF fit] p show ?case by simp
  qed simp
  from this[of "[]"] show ?thesis by (simp add: partitionWaveIntoParallelGroups_def)
qed

end
