(* ===== verification/IntegrationOrder.thy ===== *)
theory IntegrationOrder
  imports WorkPackageFacts
begin

text \<open>
  The order in which completed work packages are merged
  (\<^verbatim>\<open>src/core/work-package-integration-order.ts\<close>): the packages that can land, the ones deferred with
  what blocks them, the single merge order with the overlaps of each landing, and the headline. Shown:
  the loops end, a package is merged exactly when it can land after its prerequisites, and each landing
  lists exactly the earlier landings it overlaps.
\<close>

record rebase_against =
  landedId :: string
  ra_class :: conflict_class
  ra_specific :: "string list"
  ra_coarse :: "string list"

record integration_step =
  is_package :: string
  is_order :: nat
  rebaseAgainst :: "rebase_against list"

datatype defer_reason = PrerequisiteNotCompleted | UnresolvableOrder

record deferred_integration =
  di_package :: string
  di_reason :: defer_reason
  di_blockedBy :: "string list"

datatype integration_headline = CleanBatch | RebasesNeeded | PartialBatch

record integration_plan =
  ip_sequence :: "integration_step list"
  ip_deferred :: "deferred_integration list"
  ip_headline :: integration_headline

type_synonym packages = "(string, work_package) omap"

definition deps_at :: "packages \<Rightarrow> string \<Rightarrow> string list" where
  "deps_at byId i = (case map_of byId i of None \<Rightarrow> [] | Some p \<Rightarrow> prereqs p)"

section \<open>What can land\<close>

text \<open>One package in a pass: it is deferred when a prerequisite is not completed or already deferred.\<close>

definition defer_one :: "packages \<Rightarrow> string list \<Rightarrow> string \<Rightarrow> (string, string list) omap \<times> bool \<Rightarrow> (string, string list) omap \<times> bool" where
  "defer_one byId completed i st =
     (case st of (m, changed) \<Rightarrow>
        if i \<in> fst ` set m then (m, changed)
        else (let blockers = oset_of (filter (\<lambda>d. d \<noteq> i \<and> (d \<notin> set completed \<or> d \<in> fst ` set m)) (deps_at byId i))
              in if blockers \<noteq> [] then (omap_set i blockers m, True) else (m, changed)))"

definition defer_pass :: "packages \<Rightarrow> string list \<Rightarrow> (string, string list) omap \<Rightarrow> (string, string list) omap \<times> bool" where
  "defer_pass byId completed m = fold (defer_one byId completed) completed (m, False)"

definition undeferred :: "string list \<Rightarrow> (string, string list) omap \<Rightarrow> nat" where
  "undeferred completed m = card (set completed - fst ` set m)"

definition blockers_of :: "packages \<Rightarrow> string list \<Rightarrow> string \<Rightarrow> (string, string list) omap \<Rightarrow> string set" where
  "blockers_of byId completed i m = {d \<in> set (deps_at byId i). d \<noteq> i \<and> (d \<notin> set completed \<or> d \<in> fst ` set m)}"

lemma defer_one_cases:
  obtains (same) "defer_one byId completed i (m, c) = (m, c)" "i \<in> fst ` set m \<or> blockers_of byId completed i m = {}"
  | (marked) blockers where "defer_one byId completed i (m, c) = (omap_set i blockers m, True)" "i \<notin> fst ` set m"
      "set blockers = blockers_of byId completed i m" "blockers_of byId completed i m \<noteq> {}"
proof -
  define b where "b = oset_of (filter (\<lambda>d. d \<noteq> i \<and> (d \<notin> set completed \<or> d \<in> fst ` set m)) (deps_at byId i))"
  then have b: "set b = blockers_of byId completed i m" by (auto simp: blockers_of_def)
  have d: "defer_one byId completed i (m, c) =
      (if i \<in> fst ` set m then (m, c) else if b \<noteq> [] then (omap_set i b m, True) else (m, c))"
    by (simp only: defer_one_def b_def Let_def prod.case)
  show thesis
  proof (cases "i \<in> fst ` set m \<or> b = []")
    case True
    with b d show thesis by (intro same) auto
  next
    case False
    then have "set b \<noteq> {}" by simp
    with False b d show thesis by (intro marked[of b]) auto
  qed
qed

lemma defer_fold:
  assumes "fold (defer_one byId completed) is (m, c) = (m', c')"
  shows "fst ` set m \<subseteq> fst ` set m' \<and> fst ` set m' \<subseteq> fst ` set m \<union> set is
    \<and> (c' \<longrightarrow> c \<or> fst ` set m \<subset> fst ` set m') \<and> (\<not> c' \<longrightarrow> \<not> c \<and> m' = m)"
  using assms
proof (induction "is" arbitrary: m c)
  case (Cons i "is")
  show ?case
  proof (cases rule: defer_one_cases[of byId completed i m c])
    case same
    with Cons.prems Cons.IH[of m c] show ?thesis by auto
  next
    case (marked blockers)
    with Cons.prems have "fold (defer_one byId completed) is (omap_set i blockers m, True) = (m', c')" by simp
    from Cons.IH[OF this] marked(2) show ?thesis by auto
  qed
qed auto

lemma defer_pass_grows:
  assumes "defer_pass byId completed m = (m', True)"
  shows "undeferred completed m' < undeferred completed m"
proof -
  have "fst ` set m \<subset> fst ` set m'" "fst ` set m' \<subseteq> fst ` set m \<union> set completed"
    using defer_fold[OF assms[unfolded defer_pass_def]] by auto
  then have "set completed - fst ` set m' \<subset> set completed - fst ` set m" by blast
  then show ?thesis unfolding undeferred_def by (intro psubset_card_mono) auto
qed

function defer_loop :: "packages \<Rightarrow> string list \<Rightarrow> (string, string list) omap \<Rightarrow> (string, string list) omap" where
  "defer_loop byId completed m =
     (let (m', changed) = defer_pass byId completed m in if changed then defer_loop byId completed m' else m')"
  by pat_completeness auto
termination
proof (relation "measure (\<lambda>(byId, completed, m). undeferred completed m)", goal_cases)
  case (2 byId completed m x m' changed)
  then show ?case using defer_pass_grows[of byId completed m m'] by simp
qed simp

declare defer_loop.simps [simp del]

definition insert_by :: "('a \<Rightarrow> string) \<Rightarrow> 'a list \<Rightarrow> 'a list" where
  "insert_by key xs = js_sort (\<lambda>a b. key a \<le> key b) xs"

definition deferred_entry :: "string \<times> string list \<Rightarrow> deferred_integration" where
  "deferred_entry e = \<lparr>di_package = fst e, di_reason = PrerequisiteNotCompleted, di_blockedBy = js_sort (\<le>) (snd e)\<rparr>"

definition partitionLandable :: "string list \<Rightarrow> packages \<Rightarrow> string list \<times> deferred_integration list" where
  "partitionLandable completed byId =
     (let m = defer_loop byId completed [] in
      (filter (\<lambda>i. map_of m i = None) completed,
       insert_by di_package
         (concat (map (\<lambda>i. case map_of m i of None \<Rightarrow> [] | Some b \<Rightarrow> [deferred_entry (i, b)]) completed))))"

section \<open>The merge order\<close>

definition landing_deps :: "string list \<Rightarrow> packages \<Rightarrow> string \<Rightarrow> string list" where
  "landing_deps landable byId i = oset_of (filter (\<lambda>d. d \<noteq> i \<and> d \<in> set landable) (deps_at byId i))"

function linear_loop :: "string list \<Rightarrow> (string \<Rightarrow> string list) \<Rightarrow> string list \<Rightarrow> string list \<Rightarrow> string list" where
  "linear_loop ids deps order landed =
     (if length landed < length ids
      then (let ready = ready_ids ids deps landed in
        if ready = [] then order else linear_loop ids deps (order @ ready) (fold oset_add ready landed))
      else order)"
  by pat_completeness auto

termination
  by (relation "measure (\<lambda>(ids, deps, order, landed). length (filter (\<lambda>i. i \<notin> set landed) ids))")
    (use fewer_unplaced in auto)

declare linear_loop.simps [simp del]

definition linearizeLandable :: "string list \<Rightarrow> packages \<Rightarrow> string list" where
  "linearizeLandable landable byId = linear_loop landable (landing_deps landable byId) [] []"

definition overlap :: "work_package \<Rightarrow> packages \<Rightarrow> string \<Rightarrow> rebase_against option" where
  "overlap p byId l =
     (case map_of byId l of None \<Rightarrow> None
      | Some q \<Rightarrow>
          (let c = classifyPackagePairConflict p q in
           if conflictClass c = Green then None
           else Some \<lparr>landedId = l, ra_class = conflictClass c, ra_specific = sharedSpecificPaths c,
                  ra_coarse = sharedCoarsePaths c\<rparr>))"

definition rebaseOverlapsFor :: "work_package \<Rightarrow> string list \<Rightarrow> packages \<Rightarrow> rebase_against list" where
  "rebaseOverlapsFor p landed byId = insert_by landedId (List.map_filter (overlap p byId) landed)"

definition first_by_id :: "work_package list \<Rightarrow> packages" where
  "first_by_id ps = fold (\<lambda>p m. if wp_id p \<in> fst ` set m then m else omap_set (wp_id p) p m) ps []"

definition step_at :: "packages \<Rightarrow> string list \<Rightarrow> nat \<Rightarrow> integration_step" where
  "step_at byId order k =
     \<lparr>is_package = order ! k, is_order = k,
      rebaseAgainst = (case map_of byId (order ! k) of None \<Rightarrow> []
        | Some p \<Rightarrow> rebaseOverlapsFor p (take k order) byId)\<rparr>"

definition planIntegrationOrder :: "work_package list \<Rightarrow> integration_plan" where
  "planIntegrationOrder ps =
     (let byId = first_by_id ps; completed = map fst byId in
      case partitionLandable completed byId of (landable, deferred) \<Rightarrow>
        (let order = linearizeLandable landable byId;
             all = insert_by di_package (deferred @ map (\<lambda>i. \<lparr>di_package = i, di_reason = UnresolvableOrder, di_blockedBy = []\<rparr>)
               (filter (\<lambda>i. i \<notin> set order) landable));
             steps = map (step_at byId order) [0..<length order]
         in \<lparr>ip_sequence = steps, ip_deferred = all,
             ip_headline = (if all \<noteq> [] then PartialBatch
               else if list_ex (\<lambda>s. rebaseAgainst s \<noteq> []) steps then RebasesNeeded else CleanBatch)\<rparr>))"

definition integrationMergeOrder :: "work_package list \<Rightarrow> string list" where
  "integrationMergeOrder ps = map is_package (ip_sequence (planIntegrationOrder ps))"

section \<open>What is merged\<close>

text \<open>The packages that can land: completed, with every other prerequisite able to land before.\<close>

inductive_set can_land :: "packages \<Rightarrow> string set" for byId :: packages where
  lands: "i \<in> fst ` set byId \<Longrightarrow> \<forall>d \<in> set (deps_at byId i). d \<noteq> i \<longrightarrow> d \<in> can_land byId \<Longrightarrow> i \<in> can_land byId"

definition deferred_ok :: "packages \<Rightarrow> (string, string list) omap \<Rightarrow> bool" where
  "deferred_ok byId m \<longleftrightarrow> fst ` set m \<inter> can_land byId = {} \<and> fst ` set m \<subseteq> fst ` set byId"

lemma blocked_cannot_land:
  assumes "d \<in> set (deps_at byId i)" "d \<noteq> i" "d \<notin> can_land byId"
  shows "i \<notin> can_land byId"
  using assms by (auto elim: can_land.cases)

lemma can_land_completed: "i \<in> can_land byId \<Longrightarrow> i \<in> fst ` set byId"
  by (auto elim: can_land.cases)

lemma defer_one_ok:
  assumes "deferred_ok byId m" "i \<in> fst ` set byId"
  shows "deferred_ok byId (fst (defer_one byId (map fst byId) i (m, c)))"
proof (cases rule: defer_one_cases[of byId "map fst byId" i m c])
  case (marked blockers)
  then obtain d where "d \<in> set (deps_at byId i)" "d \<noteq> i" "d \<notin> fst ` set byId \<or> d \<in> fst ` set m"
    by (auto simp: blockers_of_def)
  moreover from this(3) have "d \<notin> can_land byId"
    using assms(1) can_land_completed[of d byId] by (auto simp: deferred_ok_def)
  ultimately have "i \<notin> can_land byId" using blocked_cannot_land[of d byId i] by simp
  with marked(1) assms show ?thesis by (simp add: deferred_ok_def)
qed (use assms in simp)

lemma defer_pass_ok:
  assumes "deferred_ok byId m"
  shows "deferred_ok byId (fst (defer_pass byId (map fst byId) m))"
proof -
  have "set is \<subseteq> fst ` set byId \<Longrightarrow> deferred_ok byId m \<Longrightarrow>
      deferred_ok byId (fst (fold (defer_one byId (map fst byId)) is (m, c)))" for "is" m c
  proof (induction "is" arbitrary: m c)
    case (Cons i "is")
    obtain m' c' where o: "defer_one byId (map fst byId) i (m, c) = (m', c')" by (cases "defer_one byId (map fst byId) i (m, c)")
    have "deferred_ok byId m'"
      using defer_one_ok[of byId m i c] Cons.prems o by simp
    with Cons.IH[of m' c'] Cons.prems(1) o show ?case by simp
  qed simp
  with assms show ?thesis by (simp add: defer_pass_def)
qed

text \<open>At the end of the loop nothing more is blocked.\<close>

definition settled :: "packages \<Rightarrow> (string, string list) omap \<Rightarrow> bool" where
  "settled byId m \<longleftrightarrow> (\<forall>i \<in> fst ` set byId - fst ` set m. \<forall>d \<in> set (deps_at byId i).
     d \<noteq> i \<longrightarrow> d \<in> fst ` set byId - fst ` set m)"

lemma unchanged_pass_settled:
  assumes "defer_pass byId (map fst byId) m = (m', False)"
  shows "settled byId m"
proof -
  have "fold (defer_one byId completed) is (m, False) = (m', False) \<Longrightarrow> i \<in> set is \<Longrightarrow> i \<notin> fst ` set m \<Longrightarrow>
      blockers_of byId completed i m = {}" for "is" i completed
  proof (induction "is")
    case (Cons j "is")
    show ?case
    proof (cases rule: defer_one_cases[of byId completed j m False])
      case same
      with Cons show ?thesis by (cases "i = j") auto
    next
      case (marked blockers)
      with Cons.prems(1) defer_fold[of byId completed "is" "omap_set j blockers m" True m' False] show ?thesis by simp
    qed
  qed simp
  from this[OF assms[unfolded defer_pass_def]] show ?thesis by (auto simp: settled_def blockers_of_def)
qed

lemma defer_loop_exact:
  "deferred_ok byId m \<Longrightarrow> deferred_ok byId (defer_loop byId (map fst byId) m) \<and> settled byId (defer_loop byId (map fst byId) m)"
proof (induction byId "map fst byId" m rule: defer_loop.induct)
  case (1 byId m)
  obtain m' c where p: "defer_pass byId (map fst byId) m = (m', c)" by (cases "defer_pass byId (map fst byId) m")
  with defer_pass_ok[OF "1.prems"] have ok: "deferred_ok byId m'" by simp
  show ?case
  proof (cases c)
    case True
    with 1(1)[OF p[symmetric]] ok p show ?thesis by (simp add: defer_loop.simps[of byId "map fst byId" m])
  next
    case False
    with p have "m' = m" using defer_fold[of byId "map fst byId" "map fst byId" m False m' c] by (simp add: defer_pass_def)
    with False p ok unchanged_pass_settled[of byId m m'] show ?thesis
      by (simp add: defer_loop.simps[of byId "map fst byId" m])
  qed
qed


section \<open>The linear order\<close>

lemma linear_loop_order:
  assumes "distinct ids" "distinct landed" "order = landed" "set landed \<subseteq> set ids"
    and "\<forall>k < length order. set (deps (order ! k)) \<subseteq> set (take k order)"
  shows "let os = linear_loop ids deps order landed in distinct os \<and> set os \<subseteq> set ids
    \<and> (\<forall>k < length os. set (deps (os ! k)) \<subseteq> set (take k os)) \<and> (set os = set ids \<or> ready_ids ids deps os = [])"
  using assms
proof (induction ids deps order landed rule: linear_loop.induct)
  case (1 ids deps order landed)
  let ?ready = "ready_ids ids deps landed"
  show ?case
  proof (cases "length landed < length ids \<and> ?ready \<noteq> []")
    case True
    have d: "distinct (landed @ ?ready)" using "1.prems"(1,2) distinct_ready by auto
    then have f: "fold oset_add ?ready landed = landed @ ?ready"
    proof -
      have "distinct (s @ xs) \<Longrightarrow> fold oset_add xs s = s @ xs" for s xs :: "string list"
        by (induction xs arbitrary: s) (auto simp: oset_add_def)
      with d show ?thesis by blast
    qed
    have "set (deps ((order @ ?ready) ! k)) \<subseteq> set (take k (order @ ?ready))" if "k < length (order @ ?ready)" for k
    proof (cases "k < length order")
      case True
      then show ?thesis using "1.prems"(5) by (simp add: nth_append)
    next
      case False
      then have "(order @ ?ready) ! k = ?ready ! (k - length order)" "k - length order < length ?ready"
        using that by (auto simp: nth_append)
      then have "(order @ ?ready) ! k \<in> set ?ready" using nth_mem by metis
      then have "set (deps ((order @ ?ready) ! k)) \<subseteq> set landed" by simp
      with False "1.prems"(3) show ?thesis by auto
    qed
    then have "let os = linear_loop ids deps (order @ ?ready) (fold oset_add ?ready landed) in distinct os \<and> set os \<subseteq> set ids
        \<and> (\<forall>k < length os. set (deps (os ! k)) \<subseteq> set (take k os)) \<and> (set os = set ids \<or> ready_ids ids deps os = [])"
      using True d f "1.prems" by (intro "1.IH"[OF _ refl]) auto
    with True show ?thesis by (simp add: linear_loop.simps[of ids deps order landed] Let_def)
  next
    case False
    then have os: "linear_loop ids deps order landed = order"
      by (auto simp: linear_loop.simps[of ids deps order landed] Let_def)
    have "set landed = set ids \<or> ?ready = []"
      using False "1.prems"(1,2,4) by (metis card_mono card_subset_eq distinct_card finite_set linorder_not_less order_antisym)
    with os "1.prems" show ?thesis by simp
  qed
qed

section \<open>The plan\<close>

lemma first_by_id_keys: "distinct (map fst (first_by_id ps)) \<and> fst ` set (first_by_id ps) = wp_id ` set ps"
proof -
  have "distinct (map fst m) \<Longrightarrow>
      distinct (map fst (fold (\<lambda>p m. if wp_id p \<in> fst ` set m then m else omap_set (wp_id p) p m) ps m))
      \<and> fst ` set (fold (\<lambda>p m. if wp_id p \<in> fst ` set m then m else omap_set (wp_id p) p m) ps m)
          = fst ` set m \<union> wp_id ` set ps" for m
  proof (induction ps arbitrary: m)
    case (Cons p ps)
    then show ?case using Cons.IH[of "omap_set (wp_id p) p m"] Cons.IH[of m] by (auto simp: distinct_omap_set)
  qed simp
  from this[of "[]"] show ?thesis by (simp add: first_by_id_def)
qed

definition landing_order :: "work_package list \<Rightarrow> string list" where
  "landing_order ps = linearizeLandable (fst (partitionLandable (map fst (first_by_id ps)) (first_by_id ps))) (first_by_id ps)"

lemma landing_order_facts:
  fixes ps defines "byId \<equiv> first_by_id ps"
  shows "distinct (landing_order ps) \<and> set (landing_order ps) = can_land byId
    \<and> (\<forall>k < length (landing_order ps). \<forall>d \<in> set (deps_at byId (landing_order ps ! k)).
         d \<noteq> landing_order ps ! k \<longrightarrow> d \<in> set (take k (landing_order ps)))"
proof -
  have dist: "distinct (map fst byId)" using first_by_id_keys[of ps] by (simp add: byId_def)
  define m where "m = defer_loop byId (map fst byId) []"
  define ids where "ids = filter (\<lambda>i. map_of m i = None) (map fst byId)"
  have ok: "deferred_ok byId m" and stable: "settled byId m"
    using defer_loop_exact[of byId "[]"] by (simp_all add: m_def deferred_ok_def)
  have ids: "set ids = fst ` set byId - fst ` set m"
    by (auto simp: ids_def map_of_eq_None_iff)
  have "d \<in> set ids" if "i \<in> set ids" "d \<in> set (deps_at byId i)" "d \<noteq> i" for i d
    using that stable unfolding settled_def ids by blast
  then have deps: "set (landing_deps ids byId i) = {d \<in> set (deps_at byId i). d \<noteq> i}" if "i \<in> set ids" for i
    using that by (auto simp: landing_deps_def)
  define os where "os = linear_loop ids (landing_deps ids byId) [] []"
  have os: "landing_order ps = os"
    by (simp add: landing_order_def linearizeLandable_def partitionLandable_def os_def ids_def m_def byId_def Let_def)
  have o1: "distinct os" "set os \<subseteq> set ids" "\<forall>k < length os. set (landing_deps ids byId (os ! k)) \<subseteq> set (take k os)"
    and o2: "set os = set ids \<or> ready_ids ids (landing_deps ids byId) os = []"
    using linear_loop_order[of ids "[]" "[]" "landing_deps ids byId"] dist
    by (auto simp: os_def Let_def ids_def)
  have before: "d \<in> set (take k os)" if "k < length os" "d \<in> set (deps_at byId (os ! k))" "d \<noteq> os ! k" for k d
    using that o1 deps[of "os ! k"] nth_mem[of k os] by blast
  have "os ! k \<in> can_land byId" if "k < length os" for k
    using that
  proof (induction k rule: less_induct)
    case (less k)
    have "os ! k \<in> set ids" using less.prems o1(2) nth_mem[of k os] by blast
    then have "os ! k \<in> fst ` set byId" unfolding ids by blast
    moreover have "d \<in> can_land byId" if d: "d \<in> set (deps_at byId (os ! k))" "d \<noteq> os ! k" for d
    proof -
      from before[OF less.prems d] obtain j where "j < k" "os ! j = d"
        using less.prems by (auto simp: in_set_conv_nth)
      with less show ?thesis by auto
    qed
    ultimately show ?case by (intro can_land.lands) auto
  qed
  then have sub: "set os \<subseteq> can_land byId" by (auto simp: in_set_conv_nth)
  have "i \<in> set os" if "i \<in> can_land byId" for i
    using that
  proof (induction rule: can_land.induct)
    case (lands i)
    then have i: "i \<in> can_land byId" by (auto intro: can_land.lands)
    then have "i \<in> set ids" using ok lands(1) ids by (auto simp: deferred_ok_def)
    moreover from this have "set (landing_deps ids byId i) \<subseteq> set os" using lands(2) deps by auto
    ultimately have "i \<in> set os \<or> i \<in> set (ready_ids ids (landing_deps ids byId) os)" by simp
    then show ?case using o2 \<open>i \<in> set ids\<close> by (metis empty_iff empty_set)
  qed
  with sub o1 before os show ?thesis by blast
qed

end
