(* ===== verification/WorkProperties.thy ===== *)
theory WorkProperties
  imports IntegrationOrder
begin

text \<open>
  Properties of the work-package planners: which package sets are dispatched and how, and which
  completed packages are merged in which order.
\<close>

section \<open>Dispatch\<close>

definition pkg :: "string \<Rightarrow> string list \<Rightarrow> string list \<Rightarrow> work_package" where
  "pkg i scope deps = \<lparr>wp_id = i, writeScope = scope, forbiddenScope = None, wp_dependsOn = Some deps\<rparr>"

definition sample_packages :: "work_package list" where
  "sample_packages = [pkg ''c'' [''./src/a.ts'', ''package.json''] [''a''], pkg ''a'' [''src//a.ts''] [],
     pkg ''b'' [''src/b.ts''] [], pkg ''d'' [''docs/x.md'', ''Package.json''] [''a'']]"

lemma sample_plan:
  "dp_waves (planParallelDispatch sample_packages) = [[[''a'', ''b'']], [[''c''], [''d'']]]"
  "dp_ok (planParallelDispatch sample_packages)"
  by code_simp+

text \<open>
  C24. A package set is dispatched exactly when it is well formed: its ids are unique, every scope stays
  inside its root and every package can write something, every prerequisite is a package of the set,
  and no chain of prerequisites leads back to its start. The coloured search decides the last; the
  error the planner keeps for a graph it cannot resolve is never produced.
\<close>

theorem dispatch_exactly_well_formed:
  "(dp_ok (planParallelDispatch ps) \<longleftrightarrow> well_formed_set ps)
   \<and> (validateWorkPackages ps = [] \<longleftrightarrow> dp_errors (planParallelDispatch ps) = [])"
  using validate_iff[of ps] resolve_well_formed[of ps] by (auto simp: planParallelDispatch_def)

text \<open>A schedule: the groups of each wave, with the packages of the earlier waves behind it.\<close>

fun safe_schedule :: "work_package list \<Rightarrow> string set \<Rightarrow> string list list list \<Rightarrow> bool" where
  "safe_schedule ps done [] \<longleftrightarrow> done = wp_id ` set ps"
| "safe_schedule ps done (w # ws) \<longleftrightarrow>
     w \<noteq> [] \<and> distinct (concat w) \<and> set (concat w) \<inter> done = {}
     \<and> (\<forall>p \<in> set ps. wp_id p \<in> set (concat w) \<longrightarrow> set (prereqs p) \<subseteq> done)
     \<and> (\<forall>g \<in> set w. g \<noteq> [] \<and> (\<forall>p \<in> set ps. \<forall>q \<in> set ps. wp_id p \<in> set g \<and> wp_id q \<in> set g \<and> p \<noteq> q
          \<longrightarrow> conflictClass (classifyPackagePairConflict p q) = Green))
     \<and> safe_schedule ps (done \<union> set (concat w)) ws"

lemma by_id_of: "distinct (map wp_id ps) \<Longrightarrow> p \<in> set ps \<Longrightarrow> map_of (by_id ps) (wp_id p) = Some p"
  by (simp add: by_id_def comp_def map_of_is_SomeI)

lemma side_by_side_green:
  assumes d: "distinct (map wp_id ps)" and g: "side_by_side (by_id ps) g" "distinct g"
    and p: "p \<in> set ps" "wp_id p \<in> set g" and q: "q \<in> set ps" "wp_id q \<in> set g" and ne: "p \<noteq> q"
  shows "conflictClass (classifyPackagePairConflict p q) = Green"
proof -
  have ids: "wp_id p \<noteq> wp_id q" using d p(1) q(1) ne by (metis distinct_map inj_onD)
  obtain i j where ij: "i < length g" "g ! i = wp_id p" "j < length g" "g ! j = wp_id q"
    using p(2) q(2) by (auto simp: in_set_conv_nth)
  have later: "conflictClass (classifyPackagePairConflict b a) = Green"
    if "k < l" "l < length g" "g ! k = wp_id a" "g ! l = wp_id b" "a \<in> set ps" "b \<in> set ps" for k l a b
  proof -
    have "\<forall>p. map_of (by_id ps) (g ! l) = Some p \<longrightarrow> \<not> clashes_with (by_id ps) p (g ! k)"
      using g(1) that(1,2) unfolding side_by_side_def sorted_wrt_iff_nth_less by blast
    then have "\<not> clashes_with (by_id ps) b (wp_id a)" using that(3,4) by_id_of[OF d that(6)] by simp
    then show ?thesis using by_id_of[OF d that(5)] by (simp add: clashes_with_def)
  qed
  from ids ij have "i < j \<or> j < i" by (metis linorder_neqE_nat)
  then show ?thesis using later[of i j p q] later[of j i q p] ij p(1) q(1) conflict_symmetric[of p q] by auto
qed


lemma wave_schedule:
  assumes wf: "well_formed_set ps"
  shows "wave_order (known_prereqs ps) done ws \<Longrightarrow> done \<union> set (concat ws) = wp_id ` set ps \<Longrightarrow>
    safe_schedule ps done (map (\<lambda>w. partitionWaveIntoParallelGroups w (by_id ps)) ws)"
proof (induction ws arbitrary: "done")
  case (Cons w ws)
  let ?g = "partitionWaveIntoParallelGroups w (by_id ps)"
  have d: "distinct (map wp_id ps)" using wf by (simp add: well_formed_set_def)
  have "fst ` set (by_id ps) = wp_id ` set ps" using d by (simp add: by_id_def comp_def image_image)
  then have "set w \<subseteq> fst ` set (by_id ps)" using Cons.prems(2) by auto
  note g = groups_ok[OF this]
  have m: "mset (concat ?g) = mset w" using g by blast
  then have sw: "set (concat ?g) = set w" by (metis set_mset_mset)
  have dw: "distinct (concat ?g)" using Cons.prems(1) m by (metis mset_eq_imp_distinct_iff wave_order.simps(2))
  have ne: "?g \<noteq> []" using Cons.prems(1) m by auto
  have pre: "set (prereqs p) \<subseteq> done" if p: "p \<in> set ps" "wp_id p \<in> set w" for p
  proof
    fix x assume x: "x \<in> set (prereqs p)"
    have "x \<noteq> wp_id p"
    proof
      assume "x = wp_id p"
      then have "(wp_id p, wp_id p) \<in> prereq_edges ps" using x p(1) by (auto simp: prereq_edges_def)
      with wf show False by (auto simp: well_formed_set_def acyclic_def)
    qed
    then have "x \<in> set (known_prereqs ps (wp_id p))" using known_prereqs_of[OF d p(1)] x by simp
    with Cons.prems(1) p(2) show "x \<in> done" by auto
  qed
  have grp: "distinct gr" "side_by_side (by_id ps) gr" "gr \<noteq> []" if "gr \<in> set ?g" for gr
    using that g dw by (auto simp: distinct_concat_iff)
  have green: "conflictClass (classifyPackagePairConflict p q) = Green"
    if "gr \<in> set ?g" "p \<in> set ps" "q \<in> set ps" "wp_id p \<in> set gr" "wp_id q \<in> set gr" "p \<noteq> q" for gr p q
    using side_by_side_green[OF d grp(2)[OF that(1)] grp(1)[OF that(1)]] that by blast
  have "safe_schedule ps (done \<union> set w) (map (\<lambda>w. partitionWaveIntoParallelGroups w (by_id ps)) ws)"
    using Cons by (intro Cons.IH) (auto simp: Un_assoc)
  then show ?case using Cons.prems(1) ne dw sw pre grp(3) green by (simp del: set_concat)
qed simp

text \<open>
  C25. What a dispatched set's schedule guarantees: every package runs exactly once, in a wave whose
  earlier waves hold all of its prerequisites, and in a group with none of whose other members it
  shares a write path or touches a forbidden scope.
\<close>

theorem dispatch_schedule_safe:
  assumes "dp_ok (planParallelDispatch ps)"
  shows "safe_schedule ps {} (dp_waves (planParallelDispatch ps))"
proof -
  have wf: "well_formed_set ps"
    using assms validate_iff[of ps] by (auto simp: planParallelDispatch_def Let_def split: if_splits)
  then obtain ws where "resolveDispatchWaves ps = Some ws" "wave_order (known_prereqs ps) {} ws"
    "set (concat ws) = wp_id ` set ps" using resolve_well_formed by blast
  with wave_schedule[OF wf, of "{}" ws] wf show ?thesis by (simp add: planParallelDispatch_def validate_iff)
qed

theorem dispatch_schedule_safe_witness:
  "safe_schedule sample_packages {} [[[''a'', ''b'']], [[''c''], [''d'']]]"
  using dispatch_schedule_safe[OF sample_plan(2)] by (simp add: sample_plan(1))

section \<open>Integration\<close>

lemma merge_order_is: "integrationMergeOrder ps = landing_order ps"
  by (simp add: integrationMergeOrder_def planIntegrationOrder_def landing_order_def case_prod_beta Let_def comp_def
      step_at_def map_nth)

lemma sequence_nth:
  "k < length (landing_order ps) \<Longrightarrow>
     ip_sequence (planIntegrationOrder ps) ! k = step_at (first_by_id ps) (landing_order ps) k"
  by (simp add: planIntegrationOrder_def landing_order_def case_prod_beta Let_def)

lemma set_insert_by [simp]: "set (insert_by key xs) = set xs"
  by (simp add: insert_by_def)

lemma set_difference_split: "L \<subseteq> I \<Longrightarrow> I \<subseteq> D \<Longrightarrow> (D - I) \<union> (I - L) = D - L"
  by auto

lemma deferred_packages:
  "di_package ` set (ip_deferred (planIntegrationOrder ps)) = wp_id ` set ps - set (landing_order ps)"
proof -
  define byId where "byId = first_by_id ps"
  define m where "m = defer_loop byId (map fst byId) []"
  define ids where "ids = filter (\<lambda>i. map_of m i = None) (map fst byId)"
  define defs where "defs = concat (map (\<lambda>i. case map_of m i of None \<Rightarrow> [] | Some b \<Rightarrow> [deferred_entry (i, b)]) (map fst byId))"
  have part: "partitionLandable (map fst byId) byId = (ids, insert_by di_package defs)"
    by (simp add: partitionLandable_def m_def ids_def defs_def Let_def)
  have lo: "landing_order ps = linearizeLandable ids byId"
    using part by (simp add: landing_order_def byId_def)
  have "di_package ` set (ip_deferred (planIntegrationOrder ps)) = di_package ` set defs \<union> (set ids - set (landing_order ps))"
    using part by (force simp: planIntegrationOrder_def byId_def[symmetric] Let_def lo image_Un)
  moreover have "di_package ` set defs = fst ` set byId - set ids"
    by (force simp: defs_def ids_def deferred_entry_def split: option.splits)
  moreover have "set (landing_order ps) \<subseteq> set ids"
  proof -
    have "distinct ids" using first_by_id_keys[of ps] by (simp add: ids_def byId_def)
    then show ?thesis using linear_loop_order[of ids "[]" "[]" "landing_deps ids byId"]
      by (simp add: lo linearizeLandable_def Let_def)
  qed
  moreover have "set ids \<subseteq> fst ` set byId" by (auto simp: ids_def)
  moreover have "fst ` set byId = wp_id ` set ps" using first_by_id_keys[of ps] by (simp add: byId_def)
  ultimately show ?thesis by (simp add: set_difference_split)
qed

lemma overlaps_exact:
  "landedId ` set (rebaseOverlapsFor p landed byId) =
     {l \<in> set landed. \<exists>q. map_of byId l = Some q \<and> conflictClass (classifyPackagePairConflict p q) \<noteq> Green}"
  by (force simp: rebaseOverlapsFor_def map_filter_def overlap_def Let_def split: option.splits if_splits)

text \<open>
  The merge order: a completed package is merged exactly when it can land, that is when each of
  its other prerequisites is completed and can land, once, after those prerequisites; the others are
  the deferred ones. Each landing lists exactly the earlier landings it has a conflict with.
\<close>

theorem merge_order_exact:
  "distinct (integrationMergeOrder ps)
   \<and> set (integrationMergeOrder ps) = can_land (first_by_id ps)
   \<and> di_package ` set (ip_deferred (planIntegrationOrder ps)) = wp_id ` set ps - can_land (first_by_id ps)
   \<and> (\<forall>k < length (integrationMergeOrder ps). let i = integrationMergeOrder ps ! k; before = set (take k (integrationMergeOrder ps)) in
        set (deps_at (first_by_id ps) i) - {i} \<subseteq> before
        \<and> landedId ` set (rebaseAgainst (ip_sequence (planIntegrationOrder ps) ! k)) =
            {l \<in> before. \<exists>p q. map_of (first_by_id ps) i = Some p \<and> map_of (first_by_id ps) l = Some q
               \<and> conflictClass (classifyPackagePairConflict p q) \<noteq> Green})"
proof -
  note facts = landing_order_facts[of ps]
  have over: "landedId ` set (rebaseAgainst (ip_sequence (planIntegrationOrder ps) ! k)) =
      {l \<in> set (take k (landing_order ps)). \<exists>p q. map_of (first_by_id ps) (landing_order ps ! k) = Some p
         \<and> map_of (first_by_id ps) l = Some q \<and> conflictClass (classifyPackagePairConflict p q) \<noteq> Green}"
    if "k < length (landing_order ps)" for k
    by (cases "map_of (first_by_id ps) (landing_order ps ! k)")
       (simp_all add: sequence_nth[OF that] step_at_def overlaps_exact)
  have before: "set (deps_at (first_by_id ps) (landing_order ps ! k)) - {landing_order ps ! k} \<subseteq> set (take k (landing_order ps))"
    if "k < length (landing_order ps)" for k
    using facts that by blast
  from facts over before show ?thesis unfolding merge_order_is deferred_packages Let_def by simp
qed

text \<open>A merge of three packages of which one waits for a package that is not completed.\<close>

definition completed_packages :: "work_package list" where
  "completed_packages = [pkg ''b'' [''src/x.ts''] [''a''], pkg ''a'' [''src/x.ts''] [], pkg ''c'' [''src/c.ts''] [''missing'', ''e''],
     pkg ''e'' [''src/e.ts''] [''gone'']]"

lemma completed_plan:
  "integrationMergeOrder completed_packages = [''a'', ''b'']"
  "map (\<lambda>d. (di_package d, di_blockedBy d)) (ip_deferred (planIntegrationOrder completed_packages)) =
     [(''c'', [''missing'']), (''e'', [''gone''])]"
  by code_simp+

theorem merge_order_exact_witness: "can_land (first_by_id completed_packages) = {''a'', ''b''}"
  using merge_order_exact[of completed_packages] by (simp add: completed_plan(1))

text \<open>
  The blockers a deferral lists depend on the order of the batch: \<^verbatim>\<open>c\<close> waits for \<^verbatim>\<open>e\<close>, which is
  deferred too, but \<^verbatim>\<open>e\<close> comes later in the batch and is not listed; put first, it is.
\<close>

lemma blockers_depend_on_order:
  "map (\<lambda>d. (di_package d, di_blockedBy d)) (ip_deferred (planIntegrationOrder (rev completed_packages))) =
     [(''c'', [''e'', ''missing'']), (''e'', [''gone''])]"
  by code_simp

end
