(* ===== verification/ReviewLoop.thy ===== *)
theory ReviewLoop
  imports TextParts JsValue
begin

text \<open>
  The second-opinion review: the loop's decision (\<^verbatim>\<open>src/core/review-loop.ts\<close>), the mapping of a
  verdict to a board transition with its record and its brief
  (\<^verbatim>\<open>src/core/review-orchestration.ts\<close>), and the combination of a panel's verdicts
  (\<^verbatim>\<open>src/core/review-panel-verdict.ts\<close>). SHA-256 in hexadecimal is the argument \<open>digest\<close>. The seed
  prompt of the reviewer is not modelled: its session's answer is arbitrary.
\<close>

section \<open>The decision\<close>

datatype review_verdict = Approve | RequestChanges

record round_record =
  rr_round :: nat
  rr_verdict :: review_verdict
  rr_feedbackFp :: "string option"
  rr_workFp :: "string option"
  rr_summary :: "string option"
  rr_feedback :: "string option"

datatype loop_action = DeliverIt | BounceToWorker | EscalateWorker | ParkIt

record loop_decision =
  ld_action :: loop_action
  ld_reason :: string

definition DEFAULT_MAX_REVIEW_ROUNDS :: int where
  "DEFAULT_MAX_REVIEW_ROUNDS = 20"

definition stuck :: "bool option \<Rightarrow> bool option \<Rightarrow> string \<Rightarrow> loop_decision" where
  "stuck available already reason =
     (if available = Some True \<and> already \<noteq> Some True
      then \<lparr>ld_action = EscalateWorker,
             ld_reason = reason @ '' Escalating to a stronger/different-lineage worker before parking.''\<rparr>
      else \<lparr>ld_action = ParkIt, ld_reason = reason @ '' Parking for a human.''\<rparr>)"

definition same_request :: "string option \<Rightarrow> round_record \<Rightarrow> bool" where
  "same_request feed r \<longleftrightarrow> rr_verdict r = RequestChanges \<and> rr_feedbackFp r = feed"

definition identical_round :: "string option \<Rightarrow> string option \<Rightarrow> round_record list \<Rightarrow> bool" where
  "identical_round feed work h \<longleftrightarrow> list_ex (\<lambda>r. same_request feed r \<and> rr_workFp r = work) h"

definition recurring_feedback :: "string option \<Rightarrow> round_record list \<Rightarrow> nat" where
  "recurring_feedback feed h = length (filter (same_request feed) h)"

definition unchanged_work :: "string option \<Rightarrow> round_record list \<Rightarrow> bool" where
  "unchanged_work work h \<longleftrightarrow> h \<noteq> [] \<and> work \<noteq> None \<and> rr_workFp (last h) = work"

definition decideReviewLoopAction ::
  "review_verdict \<Rightarrow> nat \<Rightarrow> int option \<Rightarrow> string option \<Rightarrow> string option \<Rightarrow> round_record list
    \<Rightarrow> bool option \<Rightarrow> bool option \<Rightarrow> loop_decision" where
  "decideReviewLoopAction v n maxRounds feed work h available already =
     (if v = Approve then \<lparr>ld_action = DeliverIt, ld_reason = ''Reviewer approved the work.''\<rparr>
      else (let limit = (case maxRounds of None \<Rightarrow> DEFAULT_MAX_REVIEW_ROUNDS | Some m \<Rightarrow> m) in
        if work \<noteq> None \<and> feed \<noteq> None \<and> identical_round feed work h
        then stuck available already ''Review is looping: the same change request on unchanged work.''
        else if work \<noteq> None \<and> feed \<noteq> None \<and> recurring_feedback feed h \<ge> 2
        then stuck available already
          ''Review is not progressing: the same change request has recurred across churning diffs.''
        else if unchanged_work work h
        then stuck available already ''Review stalled: the worker made no changes after the last review.''
        else if int n \<ge> limit
        then stuck available already
          (''Reached the review round limit ('' @ int_str limit @ '') without approval.'')
        else \<lparr>ld_action = BounceToWorker,
               ld_reason = ''Reviewer requested changes; sending the card back to the worker with the feedback.''\<rparr>))"

section \<open>Records and concerns\<close>

definition fingerprintReviewArtifact :: "(string \<Rightarrow> string) \<Rightarrow> string option \<Rightarrow> string option" where
  "fingerprintReviewArtifact digest v =
     (case v of None \<Rightarrow> None
      | Some s \<Rightarrow> (let t = trim s in if t = [] then None else Some (take 16 (digest t))))"

definition ellipsis :: string where
  "ellipsis = [CHR 0x85]"

definition clampReviewRecordText :: "string option \<Rightarrow> string option" where
  "clampReviewRecordText v =
     (case v of None \<Rightarrow> None
      | Some s \<Rightarrow> (let t = trim s in
          if t = [] then None else if length t \<le> 1500 then Some t else Some (take 1500 t @ ellipsis)))"

record concern =
  co_round :: nat
  co_times :: nat
  co_feedback :: string

text \<open>\<^verbatim>\<open>!x?.trim()\<close>\<close>

definition blank :: "string option \<Rightarrow> bool" where
  "blank v \<longleftrightarrow> (case v of None \<Rightarrow> True | Some s \<Rightarrow> trim s = [])"

definition text_of :: "string option \<Rightarrow> string" where
  "text_of v = (case v of None \<Rightarrow> [] | Some s \<Rightarrow> trim s)"

definition collect_concern ::
  "(string \<Rightarrow> string) \<Rightarrow> string option \<Rightarrow> round_record \<Rightarrow> (string, concern) omap \<Rightarrow> (string, concern) omap" where
  "collect_concern digest current r m =
     (if rr_verdict r \<noteq> RequestChanges \<or> blank (rr_feedback r) then m
      else (case (case rr_feedbackFp r of Some f \<Rightarrow> Some f | None \<Rightarrow> fingerprintReviewArtifact digest (rr_feedback r)) of
          None \<Rightarrow> m
        | Some f \<Rightarrow>
            (if f = [] \<or> Some f = current then m
             else (case map_of m f of
                 Some c \<Rightarrow> omap_set f (c\<lparr>co_times := Suc (co_times c)\<rparr>) m
               | None \<Rightarrow> omap_set f \<lparr>co_round = rr_round r, co_times = 1, co_feedback = text_of (rr_feedback r)\<rparr> m))))"

definition collectPriorReviewConcerns :: "(string \<Rightarrow> string) \<Rightarrow> round_record list \<Rightarrow> string option \<Rightarrow> concern list" where
  "collectPriorReviewConcerns digest h current = map snd (fold (collect_concern digest current) h [])"

section \<open>The worker's brief\<close>

definition REWORK_PRIOR_CONCERN_LIMIT :: nat where
  "REWORK_PRIOR_CONCERN_LIMIT = 5"

definition REWORK_OBJECTIVE_BUDGET :: nat where
  "REWORK_OBJECTIVE_BUDGET = 2000"

definition last_few :: "nat \<Rightarrow> 'a list \<Rightarrow> 'a list" where
  "last_few n xs = drop (length xs - n) xs"

definition concern_line :: "concern \<Rightarrow> string" where
  "concern_line c = ''- (round '' @ nat_str (co_round c)
     @ (if co_times c > 1 then '', raised '' @ nat_str (co_times c) @ [CHR 0xD7] else []) @ '') '' @ co_feedback c"

datatype artifact_status = ChangedArtifact | NoChangesArtifact

record bounce_input =
  bi_round :: nat
  bi_summary :: string
  bi_feedback :: string
  bi_title :: "string option"
  bi_objective :: "string option"
  bi_concerns :: "concern list"
  bi_artifact :: "artifact_status option"
  bi_acceptance :: "string option"

definition rework_call :: string where
  "rework_call =
     ''Address this by EDITING the relevant file(s) now: a prose-only reply leaves the code unchanged, so the reviewer ''
     @ ''will raise the same concern and the card will be parked without an edit. Make the change, then finish as usual ''
     @ ''so the card can be re-reviewed. Only if the request is genuinely mistaken and no code change is warranted ''
     @ ''should you instead make the smallest safe change that resolves the concern, or explain precisely why the ''
     @ ''current code is already correct in your final message.''"

definition buildReviewBouncePrompt :: "bounce_input \<Rightarrow> string" where
  "buildReviewBouncePrompt b =
     (let concerns = last_few REWORK_PRIOR_CONCERN_LIMIT (bi_concerns b); objective = text_of (bi_objective b) in
      join_with [CHR 10] (
        [''The second-opinion reviewer requested changes (review round '' @ nat_str (bi_round b) @ '')''
           @ (if blank (bi_title b) then [] else '' on the card '' @ quote_str (text_of (bi_title b))) @ ''.'',
         [],
         ''## Requested changes (address ALL of these now)'',
         (if trim (bi_feedback b) = []
          then dashed ''(the reviewer gave no detailed feedback'' ''judge against the objective below)''
          else trim (bi_feedback b)),
         [],
         ''## Reviewer summary'',
         trim (bi_summary b)]
        @ (if concerns = [] then []
           else [[], ''## Still-open concerns from earlier rounds (fix these too unless already resolved)'']
             @ map concern_line concerns)
        @ (if bi_artifact b = Some NoChangesArtifact
           then [[], ''## Your previous attempt made NO file changes'',
                ''The reviewer judged an empty result. Prose is not work: this round must produce actual edits that ''
                @ ''implement the objective.'']
           else [])
        @ (if objective = [] then []
           else [[], ''## The card'' @ apostrophe
                  @ dashed ''s objective (unchanged'' ''your work must satisfy this, not just the feedback)'',
                (if length objective \<le> REWORK_OBJECTIVE_BUDGET then objective
                 else take REWORK_OBJECTIVE_BUDGET objective @ ellipsis)])
        @ (if blank (bi_acceptance b) then []
           else [[], ''## Acceptance check (must pass before the card can deliver)'', text_of (bi_acceptance b)])
        @ [[], rework_call]))"

section \<open>The transition\<close>

datatype candidate_pick = PrimaryPick | SpeculativePick

record submission =
  sb_verdict :: review_verdict
  sb_summary :: string
  sb_feedback :: "string option"
  sb_insight :: "string option"
  sb_preferred :: "candidate_pick option"
  sb_blocking :: "bool option"

definition buildReviewSignOff :: "string \<Rightarrow> string option \<Rightarrow> string" where
  "buildReviewSignOff summary insight =
     (if blank insight then trim summary
      else trim summary @ [CHR 10, CHR 10] @ ''Insight: '' @ text_of insight)"

text \<open>A transition: its action and reason, the record of the round, the sign-off or the brief.\<close>

record transition =
  tn_action :: loop_action
  tn_reason :: string
  tn_record :: round_record
  tn_signOff :: "string option"
  tn_prompt :: "string option"

record transition_input =
  ti_submission :: submission
  ti_round :: nat
  ti_workFp :: "string option"
  ti_history :: "round_record list"
  ti_maxRounds :: "int option"
  ti_available :: "bool option"
  ti_already :: "bool option"
  ti_title :: "string option"
  ti_objective :: "string option"
  ti_acceptance :: "string option"
  ti_artifact :: "artifact_status option"

definition feedback_fingerprint :: "(string \<Rightarrow> string) \<Rightarrow> submission \<Rightarrow> string option" where
  "feedback_fingerprint digest s =
     (if sb_verdict s = RequestChanges then fingerprintReviewArtifact digest (sb_feedback s) else None)"

definition round_record_of :: "(string \<Rightarrow> string) \<Rightarrow> transition_input \<Rightarrow> round_record" where
  "round_record_of digest t =
     (let s = ti_submission t in
      \<lparr>rr_round = ti_round t, rr_verdict = sb_verdict s, rr_feedbackFp = feedback_fingerprint digest s,
       rr_workFp = ti_workFp t, rr_summary = clampReviewRecordText (Some (sb_summary s)),
       rr_feedback = (if sb_verdict s = RequestChanges then clampReviewRecordText (sb_feedback s) else None)\<rparr>)"

definition resolveReviewTransition :: "(string \<Rightarrow> string) \<Rightarrow> transition_input \<Rightarrow> transition" where
  "resolveReviewTransition digest t =
     (let s = ti_submission t; feed = feedback_fingerprint digest s; r = round_record_of digest t;
          limit = (case ti_maxRounds t of None \<Rightarrow> DEFAULT_MAX_REVIEW_ROUNDS | Some m \<Rightarrow> m);
          d = decideReviewLoopAction (sb_verdict s) (ti_round t) (Some limit) feed (ti_workFp t) (ti_history t)
                (ti_available t) (ti_already t)
      in \<lparr>tn_action = ld_action d, tn_reason = ld_reason d, tn_record = r,
          tn_signOff = (if ld_action d = DeliverIt then Some (buildReviewSignOff (sb_summary s) (sb_insight s)) else None),
          tn_prompt = (if ld_action d = BounceToWorker \<or> ld_action d = EscalateWorker
            then Some (buildReviewBouncePrompt
              \<lparr>bi_round = ti_round t, bi_summary = sb_summary s,
               bi_feedback = (case sb_feedback s of None \<Rightarrow> [] | Some f \<Rightarrow> f),
               bi_title = ti_title t, bi_objective = ti_objective t,
               bi_concerns = collectPriorReviewConcerns digest (ti_history t) feed,
               bi_artifact = ti_artifact t, bi_acceptance = ti_acceptance t\<rparr>)
            else None)\<rparr>)"

definition REVIEW_HISTORY_HEAD_KEEP :: nat where
  "REVIEW_HISTORY_HEAD_KEEP = 5"

definition REVIEW_HISTORY_TAIL_KEEP :: nat where
  "REVIEW_HISTORY_TAIL_KEEP = 55"

definition capReviewHistory :: "'a list \<Rightarrow> 'a list" where
  "capReviewHistory h =
     (if length h \<le> REVIEW_HISTORY_HEAD_KEEP + REVIEW_HISTORY_TAIL_KEEP then h
      else take REVIEW_HISTORY_HEAD_KEEP h @ drop (length h - REVIEW_HISTORY_TAIL_KEEP) h)"

record should_review =
  sr_enabled :: bool
  sr_columnId :: string
  sr_isReviewerCard :: bool
  sr_isPlanningCard :: bool

definition shouldReviewCard :: "should_review \<Rightarrow> bool" where
  "shouldReviewCard i \<longleftrightarrow> sr_enabled i \<and> sr_columnId i = ''review'' \<and> \<not> sr_isReviewerCard i \<and> \<not> sr_isPlanningCard i"

section \<open>A panel of judges\<close>

datatype panel_severity = LowSeverity | MediumSeverity | HighSeverity | CriticalSeverity

record judge_finding =
  jf_severity :: panel_severity
  jf_category :: "string option"

record judge_verdict =
  jv_model :: string
  jv_pass :: bool
  jv_findings :: "judge_finding list"

datatype panel_decision = MergeDecision | BlockDecision

record panel_result =
  pv_decision :: panel_decision
  pv_passes :: nat
  pv_total :: nat
  pv_vetoedBy :: "string option"
  pv_reason :: string

fun severity_str :: "panel_severity \<Rightarrow> string" where
  "severity_str LowSeverity = ''low''"
| "severity_str MediumSeverity = ''medium''"
| "severity_str HighSeverity = ''high''"
| "severity_str CriticalSeverity = ''critical''"

definition mapReviewSubmissionToPanelVerdict :: "string \<Rightarrow> submission \<Rightarrow> judge_verdict" where
  "mapReviewSubmissionToPanelVerdict k s =
     (if sb_verdict s = Approve then \<lparr>jv_model = k, jv_pass = True, jv_findings = []\<rparr>
      else \<lparr>jv_model = k, jv_pass = False,
             jv_findings = [\<lparr>jf_severity = (if sb_blocking s = Some True then HighSeverity else MediumSeverity),
               jf_category = Some ''correctness''\<rparr>]\<rparr>)"

definition DEFAULT_VETO_CATEGORIES :: "string list" where
  "DEFAULT_VETO_CATEGORIES = [''security'', ''correctness'']"

definition vetoes :: "string list \<Rightarrow> judge_finding \<Rightarrow> bool" where
  "vetoes cats f \<longleftrightarrow> (jf_severity f = HighSeverity \<or> jf_severity f = CriticalSeverity)
     \<and> (case jf_category f of None \<Rightarrow> True | Some c \<Rightarrow> to_lower c \<in> set cats)"

definition vetoingFinding :: "string list \<Rightarrow> judge_verdict \<Rightarrow> judge_finding option" where
  "vetoingFinding cats v = find (vetoes cats) (jv_findings v)"

definition combinePanelVerdicts :: "judge_verdict list \<Rightarrow> bool option \<Rightarrow> string list option \<Rightarrow> panel_result" where
  "combinePanelVerdicts vs securityVeto categories =
     (let total = length vs; passes = length (filter jv_pass vs);
          ratio = nat_str passes @ ''/'' @ nat_str total;
          cats = map to_lower (case categories of None \<Rightarrow> DEFAULT_VETO_CATEGORIES | Some cs \<Rightarrow> cs);
          result = (\<lambda>d veto reason. \<lparr>pv_decision = d, pv_passes = passes, pv_total = total, pv_vetoedBy = veto, pv_reason = reason\<rparr>)
      in if total = 0
         then result BlockDecision None (dashed ''No judge verdicts'' ''a merge is never auto-approved without judgment.'')
         else (case (if securityVeto = Some False then None else find (\<lambda>v. vetoingFinding cats v \<noteq> None) vs) of
             Some v \<Rightarrow>
               (let f = the (vetoingFinding cats v) in
                result BlockDecision (Some (jv_model v))
                  (dashed (''Blocked by '' @ jv_model v @ '': a '' @ severity_str (jf_severity f) @ '' ''
                     @ (case jf_category f of None \<Rightarrow> ''severity'' | Some c \<Rightarrow> c) @ '' finding vetoes the merge'')
                   (''any single judge'' @ apostrophe @ ''s high-severity concern blocks, even against a '' @ ratio
                     @ '' passing majority.'')))
           | None \<Rightarrow>
               (if passes * 2 > total
                then result MergeDecision None (''Approved: '' @ ratio @ '' judges passed (majority), no vetoing finding.'')
                else result BlockDecision None
                  (dashed (''Blocked: only '' @ ratio @ '' judges passed'') ''no majority.''))))"

end
