(* ===== verification/ReviewRounds.thy ===== *)
theory ReviewRounds
  imports ReviewLoop
begin

text \<open>
  One resolution of a card's second-opinion review
  (\<^verbatim>\<open>src/nklein-agent/nklein-second-opinion-review.ts\<close>): the reuse of an approval, the reviewer
  sessions with their bounded retries, the fallback verdict from acceptance evidence, the transition,
  the review state that is persisted and the callback that is called with it. The state of the module
  is the map of no-verdict streaks. What the environment answers (the card, its diff, each session) is
  part of the request; the seed prompt, the phase stamps and the telemetry are not modelled.
\<close>

datatype review_status = InReview | ChangesRequested | ApprovedReview | ParkedReview

record card_review =
  rv_status :: review_status
  rv_round :: nat
  rv_history :: "round_record list"
  rv_lastVerdict :: "review_verdict option"
  rv_lastSummary :: "string option"
  rv_lastFeedback :: "string option"
  rv_lastInsight :: "string option"
  rv_signOff :: "string option"
  rv_parkedReason :: "string option"
  rv_escalated :: "bool option"
  rv_preferred :: "candidate_pick option"
  rv_resultArtifact :: "jsval option"
  rv_updatedAt :: jsnum

record review_card =
  rc_title :: string
  rc_prompt :: string
  rc_review :: "card_review option"

datatype evidence_state = GreenEvidence | RedEvidence

record acceptance_evidence =
  ae_state :: evidence_state
  ae_detail :: string

datatype session_answer = Submitted submission | NoSubmission | SessionThrew

text \<open>The input with the answers of its dependencies; \<open>rq_session k\<close> is the answer of the \<open>k\<close>th session.\<close>

record review_request =
  rq_streakKey :: string
  rq_columnId :: string
  rq_enabled :: bool
  rq_maxRounds :: int
  rq_escalationAvailable :: "bool option"
  rq_alreadyEscalated :: "bool option"
  rq_isReviewerCard :: "bool option"
  rq_isPlanningCard :: "bool option"
  rq_acceptanceSummary :: "string option"
  rq_preReviewVerdict :: "submission option"
  rq_evidence :: "acceptance_evidence option"
  rq_now :: jsnum
  rq_card :: "review_card option"
  rq_diff :: "string option"
  rq_speculativeDiff :: "string option"
  rq_session :: "nat \<Rightarrow> session_answer"
  rq_lastShape :: "string option"
  rq_hasEscalate :: bool

datatype skip_reason = ReviewDisabled | NotReviewable | CardNotFound | NoVerdictSkip

datatype review_outcome =
    Skipped skip_reason
  | Delivered nat string "candidate_pick option" bool
  | Bounced nat
  | Escalated nat
  | ParkedOut nat string
  | Rejected

datatype park_kind = ReviewStuck | NoVerdictPark

datatype review_effect =
    RanSession nat "nat option"
  | OnDeliver card_review
  | OnBounce card_review string
  | OnEscalate card_review string
  | OnPark card_review string park_kind

type_synonym streaks = "(string, string \<times> nat) omap"

definition NO_VERDICT_PARK_STREAK :: nat where
  "NO_VERDICT_PARK_STREAK = 3"

section \<open>The next review state\<close>

definition buildNextReview ::
  "nat \<Rightarrow> round_record list \<Rightarrow> round_record \<Rightarrow> submission \<Rightarrow> review_status \<Rightarrow> string option \<Rightarrow> string option
    \<Rightarrow> string option \<Rightarrow> jsnum \<Rightarrow> bool option \<Rightarrow> candidate_pick option \<Rightarrow> card_review" where
  "buildNextReview n h r s status signOff parkedReason previousSignOff now escalated preferred =
     \<lparr>rv_status = status, rv_round = n, rv_history = capReviewHistory (h @ [r]),
      rv_lastVerdict = Some (sb_verdict s), rv_lastSummary = Some (sb_summary s), rv_lastFeedback = sb_feedback s,
      rv_lastInsight = sb_insight s,
      rv_signOff = (case signOff of Some x \<Rightarrow> Some x | None \<Rightarrow> previousSignOff),
      rv_parkedReason = parkedReason, rv_escalated = escalated, rv_preferred = preferred, rv_resultArtifact = None,
      rv_updatedAt = now\<rparr>"

text \<open>An approval of exactly this work is reused; everything the record says must agree.\<close>

definition reusable_approval :: "review_request \<Rightarrow> string option \<Rightarrow> card_review \<Rightarrow> bool" where
  "reusable_approval q work rv \<longleftrightarrow>
     rq_preReviewVerdict q = None \<and> rv_status rv = ApprovedReview \<and> rv_lastVerdict rv = Some Approve
     \<and> \<not> blank (rv_signOff rv) \<and> rv_history rv \<noteq> [] \<and> rv_round rv = rr_round (last (rv_history rv))
     \<and> rr_verdict (last (rv_history rv)) = Approve \<and> rr_workFp (last (rv_history rv)) = work"

section \<open>Getting a verdict\<close>

text \<open>
  The retry loop: sessions from the \<open>k\<close>th on while the count \<open>cnt\<close> is below the cap. It returns the
  submission, the count, the sessions run and whether a session threw.
\<close>

function retry_sessions ::
  "(nat \<Rightarrow> session_answer) \<Rightarrow> nat \<Rightarrow> nat \<Rightarrow> nat \<Rightarrow> submission option \<times> nat \<times> review_effect list \<times> bool" where
  "retry_sessions session n k cnt =
     (if cnt < NO_VERDICT_PARK_STREAK
      then (case session k of
          Submitted s \<Rightarrow> (Some s, cnt, [RanSession n (Some cnt)], False)
        | SessionThrew \<Rightarrow> (None, cnt, [RanSession n (Some cnt)], True)
        | NoSubmission \<Rightarrow>
            (case retry_sessions session n (Suc k) (Suc cnt) of
               (s, c, es, threw) \<Rightarrow> (s, c, RanSession n (Some cnt) # es, threw)))
      else (None, cnt, [], False))"
  by pat_completeness auto
termination
  by (relation "measure (\<lambda>(session, n, k, cnt). NO_VERDICT_PARK_STREAK - cnt)") auto

declare retry_sessions.simps [simp del]

definition session_suffix :: "review_request \<Rightarrow> string" where
  "session_suffix q =
     (case rq_lastShape q of None \<Rightarrow> [] | Some s \<Rightarrow> if s = [] then [] else '' Last reviewer session: '' @ s @ ''.'')"

definition fallback_submission :: "review_request \<Rightarrow> nat \<Rightarrow> acceptance_evidence \<Rightarrow> submission" where
  "fallback_submission q cnt e =
     (let start = ''Fallback verdict (no reviewer submission in '' @ nat_str cnt @ '' sessions): the card''
            @ apostrophe @ ''s acceptance command ''
      in if ae_state e = GreenEvidence
         then \<lparr>sb_verdict = Approve,
                sb_summary = trim (start @ ''passed on the delivered tree.'' @ session_suffix q @ '' '' @ ae_detail e),
                sb_feedback = None, sb_insight = None, sb_preferred = None, sb_blocking = Some False\<rparr>
         else \<lparr>sb_verdict = RequestChanges,
                sb_summary = start @ ''FAILS on the delivered tree.'' @ session_suffix q,
                sb_feedback = Some (take 4000 (''Fix the acceptance failure, then redeliver. Acceptance output:''
                  @ [CHR 10] @ ae_detail e)),
                sb_insight = None, sb_preferred = None, sb_blocking = Some False\<rparr>)"

definition no_verdict_reason :: "review_request \<Rightarrow> nat \<Rightarrow> string" where
  "no_verdict_reason q cnt =
     dashed (''The reviewer ended '' @ nat_str cnt
       @ '' consecutive sessions without a verdict on the same unchanged work'')
     (''parking for a human decision (reviewer cannot produce a verdict on this artifact, and no objective ''
       @ ''acceptance evidence exists to gate a fallback).'') @ session_suffix q"

text \<open>The review of a card parked without a verdict: everything else is kept.\<close>

definition no_verdict_review :: "card_review option \<Rightarrow> string \<Rightarrow> jsnum \<Rightarrow> card_review" where
  "no_verdict_review rv reason now =
     (case rv of
        None \<Rightarrow> \<lparr>rv_status = ParkedReview, rv_round = 0, rv_history = [], rv_lastVerdict = None, rv_lastSummary = None,
          rv_lastFeedback = None, rv_lastInsight = None, rv_signOff = None, rv_parkedReason = Some reason,
          rv_escalated = None, rv_preferred = None, rv_resultArtifact = None, rv_updatedAt = now\<rparr>
      | Some r \<Rightarrow> r\<lparr>rv_status := ParkedReview, rv_parkedReason := Some reason, rv_updatedAt := now\<rparr>)"

datatype verdict_result = GotVerdict submission | GaveUp nat | ThrewAway | NothingSaid

text \<open>The first count: one more than the streak on the same work, else one.\<close>

definition first_count :: "streaks \<Rightarrow> string \<Rightarrow> string \<Rightarrow> nat" where
  "first_count st key work =
     (case map_of st key of Some (f, c) \<Rightarrow> if f = work then Suc c else 1 | None \<Rightarrow> 1)"

definition obtain_verdict ::
  "review_request \<Rightarrow> nat \<Rightarrow> string \<Rightarrow> streaks \<Rightarrow> verdict_result \<times> review_effect list \<times> streaks" where
  "obtain_verdict q n work st =
     (let key = rq_streakKey q in
      case rq_preReviewVerdict q of
        Some s \<Rightarrow> (GotVerdict s, [], omap_delete key st)
      | None \<Rightarrow>
          (case rq_session q 0 of
             SessionThrew \<Rightarrow> (ThrewAway, [RanSession n None], st)
           | Submitted s \<Rightarrow> (GotVerdict s, [RanSession n None], omap_delete key st)
           | NoSubmission \<Rightarrow>
               (case retry_sessions (rq_session q) n 1 (first_count st key work) of
                  (s, cnt, es, threw) \<Rightarrow>
                    (let run = RanSession n None # es; st1 = omap_set key (work, cnt) st in
                     if threw then (ThrewAway, run, st1)
                     else (case s of
                         Some sub \<Rightarrow> (GotVerdict sub, run, omap_delete key st1)
                       | None \<Rightarrow>
                           (if cnt \<ge> NO_VERDICT_PARK_STREAK
                            then (case rq_evidence q of
                                Some e \<Rightarrow> (GotVerdict (fallback_submission q cnt e), run, omap_delete key st1)
                              | None \<Rightarrow> (GaveUp cnt, run, omap_delete key st1))
                            else (NothingSaid, run, st1)))))))"

section \<open>The resolution\<close>

definition reviewed_diff :: "review_request \<Rightarrow> string" where
  "reviewed_diff q = text_of (rq_diff q)"

definition work_text :: "review_request \<Rightarrow> string" where
  "work_text q = (if reviewed_diff q = [] then ''(no file changes)'' else reviewed_diff q)"

definition next_round :: "card_review option \<Rightarrow> nat" where
  "next_round rv = Suc (case rv of None \<Rightarrow> 0 | Some r \<Rightarrow> rv_round r)"

definition history_of :: "card_review option \<Rightarrow> round_record list" where
  "history_of rv = (case rv of None \<Rightarrow> [] | Some r \<Rightarrow> rv_history r)"

definition transition_of :: "(string \<Rightarrow> string) \<Rightarrow> review_request \<Rightarrow> review_card \<Rightarrow> string option \<Rightarrow> submission \<Rightarrow> transition" where
  "transition_of digest q cd work s =
     resolveReviewTransition digest
       \<lparr>ti_submission = s, ti_round = next_round (rc_review cd), ti_workFp = work,
        ti_history = history_of (rc_review cd), ti_maxRounds = Some (rq_maxRounds q),
        ti_available = Some (rq_escalationAvailable q = Some True \<and> rq_hasEscalate q),
        ti_already = rq_alreadyEscalated q, ti_title = Some (rc_title cd), ti_objective = Some (rc_prompt cd),
        ti_acceptance = rq_acceptanceSummary q,
        ti_artifact = Some (if reviewed_diff q = [] then NoChangesArtifact else ChangedArtifact)\<rparr>"

definition speculative_text :: "review_request \<Rightarrow> string" where
  "speculative_text q = (if reviewed_diff q = [] then [] else text_of (rq_speculativeDiff q))"

definition apply_verdict ::
  "(string \<Rightarrow> string) \<Rightarrow> review_request \<Rightarrow> review_card \<Rightarrow> string option \<Rightarrow> submission \<Rightarrow> review_outcome \<times> review_effect list" where
  "apply_verdict digest q cd work s =
     (let n = next_round (rc_review cd); h = history_of (rc_review cd); t = transition_of digest q cd work s;
          previous = (case rc_review cd of None \<Rightarrow> None | Some r \<Rightarrow> rv_signOff r);
          escalated = (case rc_review cd of None \<Rightarrow> None | Some r \<Rightarrow> rv_escalated r);
          prompt = (case tn_prompt t of None \<Rightarrow> [] | Some p \<Rightarrow> p);
          signOff = (case tn_signOff t of None \<Rightarrow> [] | Some x \<Rightarrow> x)
      in if tn_action t = DeliverIt
         then (let preferred = (if speculative_text q = [] then None
                  else (case sb_preferred s of None \<Rightarrow> Some PrimaryPick | Some p \<Rightarrow> Some p))
               in (Delivered n signOff preferred False,
                   [OnDeliver (buildNextReview n h (tn_record t) s ApprovedReview (Some signOff) None previous (rq_now q)
                      escalated preferred)]))
         else if tn_action t = BounceToWorker
         then (Bounced n, [OnBounce (buildNextReview n h (tn_record t) s ChangesRequested None None previous (rq_now q)
                 escalated None) prompt])
         else if tn_action t = EscalateWorker \<and> rq_hasEscalate q
         then (Escalated n, [OnEscalate (buildNextReview n h (tn_record t) s ChangesRequested None None previous (rq_now q)
                 escalated None) prompt])
         else (ParkedOut n (tn_reason t),
               [OnPark (buildNextReview n h (tn_record t) s ParkedReview None (Some (tn_reason t)) previous (rq_now q)
                  escalated None) (tn_reason t) ReviewStuck]))"

definition runNKleinSecondOpinionReview ::
  "(string \<Rightarrow> string) \<Rightarrow> review_request \<Rightarrow> streaks \<Rightarrow> review_outcome \<times> review_effect list \<times> streaks" where
  "runNKleinSecondOpinionReview digest q st =
     (case rq_card q of
        None \<Rightarrow> (Skipped CardNotFound, [], st)
      | Some cd \<Rightarrow>
          (if \<not> shouldReviewCard \<lparr>sr_enabled = rq_enabled q, sr_columnId = rq_columnId q,
                 sr_isReviewerCard = (rq_isReviewerCard q = Some True), sr_isPlanningCard = (rq_isPlanningCard q = Some True)\<rparr>
           then (Skipped (if rq_enabled q then NotReviewable else ReviewDisabled), [], st)
           else (let work = fingerprintReviewArtifact digest (Some (work_text q)) in
             case (case rc_review cd of Some rv \<Rightarrow> if reusable_approval q work rv then Some rv else None | None \<Rightarrow> None) of
               Some rv \<Rightarrow> (Delivered (rv_round rv) (case rv_signOff rv of None \<Rightarrow> [] | Some x \<Rightarrow> x) (rv_preferred rv) True, [], st)
             | None \<Rightarrow>
                 (let n = next_round (rc_review cd) in
                  case obtain_verdict q n (case work of None \<Rightarrow> ''(unfingerprinted)'' | Some w \<Rightarrow> w) st of
                    (ThrewAway, run, st1) \<Rightarrow> (Rejected, run, st1)
                  | (NothingSaid, run, st1) \<Rightarrow> (Skipped NoVerdictSkip, run, st1)
                  | (GaveUp cnt, run, st1) \<Rightarrow>
                      (let reason = no_verdict_reason q cnt in
                       (ParkedOut (n - 1) reason,
                        run @ [OnPark (no_verdict_review (rc_review cd) reason (rq_now q)) reason NoVerdictPark], st1))
                  | (GotVerdict s, run, st1) \<Rightarrow>
                      (case apply_verdict digest q cd work s of (out, es) \<Rightarrow> (out, run @ es, st1))))))"

section \<open>What the host persists\<close>

text \<open>
  The callbacks of the runner persist the review they are given; the escalation marks it as spent, and
  so does a bounce of an attempt whose captured patch is empty when another worker is available, the
  argument \<open>empty_patch\<close> (\<^verbatim>\<open>src/server/second-opinion-review-runner.ts\<close>).
\<close>

fun persist_effect :: "bool \<Rightarrow> review_effect \<Rightarrow> card_review option \<Rightarrow> card_review option" where
  "persist_effect empty_patch (RanSession n b) rv = rv"
| "persist_effect empty_patch (OnDeliver r) rv = Some r"
| "persist_effect empty_patch (OnBounce r p) rv = Some (if empty_patch then r\<lparr>rv_escalated := Some True\<rparr> else r)"
| "persist_effect empty_patch (OnEscalate r p) rv = Some (r\<lparr>rv_escalated := Some True\<rparr>)"
| "persist_effect empty_patch (OnPark r reason k) rv = Some r"

end
