(* ===== verification/ReviewProperties.thy ===== *)
theory ReviewProperties
  imports ReviewRounds
begin

text \<open>
  Properties of the second-opinion review: one resolution is bounded and always decides, an approval is
  reused for the same work, and over the life of a card the review cannot go on for ever.
\<close>

section \<open>One resolution\<close>

definition is_session :: "review_effect \<Rightarrow> bool" where
  "is_session e \<longleftrightarrow> (case e of RanSession n b \<Rightarrow> True | _ \<Rightarrow> False)"

lemma is_session_simps [simp]:
  "is_session (RanSession n b)" "\<not> is_session (OnDeliver r)" "\<not> is_session (OnBounce r p)"
  "\<not> is_session (OnEscalate r p)" "\<not> is_session (OnPark r t k)"
  by (simp_all add: is_session_def)

lemma retry_sessions_only:
  assumes "retry_sessions session n k cnt = (s, c, es, threw)"
  shows "(\<forall>e \<in> set es. is_session e) \<and> length es \<le> NO_VERDICT_PARK_STREAK - cnt \<and> cnt \<le> c
    \<and> (s = None \<and> \<not> threw \<longrightarrow> NO_VERDICT_PARK_STREAK \<le> c)"
  using assms
proof (induction session n k cnt arbitrary: s c es threw rule: retry_sessions.induct)
  case (1 session n k cnt)
  show ?case
  proof (cases "cnt < NO_VERDICT_PARK_STREAK")
    case True
    show ?thesis
    proof (cases "session k")
      case NoSubmission
      obtain s' c' es' threw' where r: "retry_sessions session n (Suc k) (Suc cnt) = (s', c', es', threw')"
        by (cases "retry_sessions session n (Suc k) (Suc cnt)")
      with True NoSubmission "1.prems" have "s = s'" "c = c'" "es = RanSession n (Some cnt) # es'" "threw = threw'"
        by (simp_all add: retry_sessions.simps[of session n k cnt])
      with "1.IH"[OF True NoSubmission r] True show ?thesis by auto
    qed (use True "1.prems" in \<open>auto simp: retry_sessions.simps[of session n k cnt]\<close>)
  next
    case False
    with "1.prems" show ?thesis by (auto simp: retry_sessions.simps[of session n k cnt])
  qed
qed

lemma first_count_pos: "1 \<le> first_count st key work"
  by (auto simp: first_count_def split: option.splits)

lemma obtain_verdict_bounded:
  assumes "obtain_verdict q n w st = (v, run, st')"
  shows "(\<forall>e \<in> set run. is_session e) \<and> length run \<le> 3 \<and> v \<noteq> NothingSaid
    \<and> (v \<noteq> ThrewAway \<longrightarrow> map_of st' (rq_streakKey q) = None)"
proof (cases "rq_preReviewVerdict q")
  case (Some s)
  with assms show ?thesis by (auto simp: obtain_verdict_def)
next
  case pre: None
  show ?thesis
  proof (cases "rq_session q 0")
    case NoSubmission
    obtain s c es threw where r: "retry_sessions (rq_session q) n 1 (first_count st (rq_streakKey q) w) = (s, c, es, threw)"
      by (cases "retry_sessions (rq_session q) n 1 (first_count st (rq_streakKey q) w)")
    note only = retry_sessions_only[OF r]
    have "length es \<le> 2" using only first_count_pos[of st "rq_streakKey q" w] unfolding NO_VERDICT_PARK_STREAK_def by linarith
    with only pre NoSubmission r assms show ?thesis
      by (auto simp: obtain_verdict_def Let_def split: if_splits option.splits)
  qed (use pre assms in \<open>auto simp: obtain_verdict_def\<close>)
qed

lemma apply_verdict_once:
  assumes "apply_verdict digest q cd work s = (out, es)"
  shows "length es = 1 \<and> \<not> is_session (hd es) \<and> out \<notin> range Skipped \<union> {Rejected}"
  using assms by (auto simp: apply_verdict_def Let_def split: if_splits)

text \<open>
  C26. A resolution ends and decides: it runs at most three reviewer sessions and calls at most one
  callback, after all of its sessions; a reviewer that never submits is answered by the acceptance
  evidence or parked, never left without a verdict; and unless a session threw, no streak of the card is
  left behind once a session has run.
\<close>

theorem review_resolution_decides:
  "case runNKleinSecondOpinionReview digest q st of (out, es, st') \<Rightarrow>
     length (filter is_session es) \<le> 3 \<and> length (filter (\<lambda>e. \<not> is_session e) es) \<le> 1
     \<and> sorted_wrt (\<lambda>a b. is_session a) es \<and> out \<noteq> Skipped NoVerdictSkip
     \<and> (es = [] \<or> out = Rejected \<or> map_of st' (rq_streakKey q) = None)
     \<and> (es \<noteq> [] \<and> out \<noteq> Rejected \<longleftrightarrow> (\<exists>e \<in> set es. \<not> is_session e))"
proof -
  have sorted: "sorted_wrt (\<lambda>a b. is_session a) (run @ es)" if "\<forall>e \<in> set run. is_session e" "length es \<le> 1" for run es
  proof -
    have "sorted_wrt (\<lambda>a b. is_session a) run" using that(1) by (simp add: sorted_wrt_iff_nth_less)
    with that show ?thesis by (cases es) (auto simp: sorted_wrt_append)
  qed
  have sess: "filter is_session run = run" "filter (\<lambda>e. \<not> is_session e) run = []" if "\<forall>e \<in> set run. is_session e" for run
    using that by (auto simp: filter_id_conv filter_empty_conv)
  show ?thesis
  proof (cases "rq_card q")
    case None
    then show ?thesis by (simp add: runNKleinSecondOpinionReview_def)
  next
    case (Some cd)
    define work where "work = fingerprintReviewArtifact digest (Some (work_text q))"
    define w where "w = (case work of None \<Rightarrow> ''(unfingerprinted)'' | Some w \<Rightarrow> w)"
    obtain v run st' where v: "obtain_verdict q (next_round (rc_review cd)) w st = (v, run, st')"
      by (cases "obtain_verdict q (next_round (rc_review cd)) w st")
    note b = obtain_verdict_bounded[OF v]
    show ?thesis
    proof (cases v)
      case (GotVerdict s)
      obtain out es where a: "apply_verdict digest q cd work s = (out, es)" by (cases "apply_verdict digest q cd work s")
      from apply_verdict_once[OF a] obtain e where es: "es = [e]" "\<not> is_session e" by (cases es) auto
      show ?thesis using Some v GotVerdict a es b apply_verdict_once[OF a] sess[of run] sorted[of run es]
        by (auto simp: runNKleinSecondOpinionReview_def work_def[symmetric] w_def[symmetric] Let_def split: option.splits if_splits)
    next
      case (GaveUp c)
      show ?thesis using Some v GaveUp b sess[of run] sorted[of run "[OnPark (no_verdict_review (rc_review cd) (no_verdict_reason q c) (rq_now q)) (no_verdict_reason q c) NoVerdictPark]"]
        by (auto simp: runNKleinSecondOpinionReview_def work_def[symmetric] w_def[symmetric] Let_def split: option.splits if_splits)
    next
      case ThrewAway
      show ?thesis using Some v ThrewAway b sess[of run] sorted[of run "[]"]
        by (auto simp: runNKleinSecondOpinionReview_def work_def[symmetric] w_def[symmetric] Let_def split: option.splits if_splits)
    next
      case NothingSaid
      with b show ?thesis by simp
    qed
  qed
qed


section \<open>The life of a card\<close>

text \<open>
  The review state that the host keeps of one card, and one resolution against it: the request says
  everything else, \<open>ep\<close> whether the captured patch was empty and another worker available. The outcomes are
  kept with \<open>ep\<close>: a bounce of such a patch hands the card to that other worker.
\<close>

definition review_step ::
  "(string \<Rightarrow> string) \<Rightarrow> review_request \<times> bool \<Rightarrow> (bool \<times> review_outcome) list \<times> card_review option \<times> streaks
    \<Rightarrow> (bool \<times> review_outcome) list \<times> card_review option \<times> streaks" where
  "review_step digest e s =
     (case e of (q, ep) \<Rightarrow> case s of (outs, rv, st) \<Rightarrow>
        (let q1 = q\<lparr>rq_card := map_option (\<lambda>cd. cd\<lparr>rc_review := rv\<rparr>) (rq_card q),
                    rq_alreadyEscalated := Some (case rv of None \<Rightarrow> False | Some r \<Rightarrow> rv_escalated r = Some True)\<rparr>
         in case runNKleinSecondOpinionReview digest q1 st of
              (out, es, st1) \<Rightarrow> (outs @ [(ep, out)], fold (persist_effect ep) es rv, st1)))"

definition review_life :: "(string \<Rightarrow> string) \<Rightarrow> (review_request \<times> bool) list \<Rightarrow> (bool \<times> review_outcome) list" where
  "review_life digest qs = fst (fold (review_step digest) qs ([], None, []))"

definition bounces :: "(bool \<times> review_outcome) list \<Rightarrow> nat" where
  "bounces outs = length (filter (\<lambda>(ep, out). case out of Bounced n \<Rightarrow> True | _ \<Rightarrow> False) outs)"

fun escalated :: "bool \<times> review_outcome \<Rightarrow> bool" where
  "escalated (ep, Escalated n) = True"
| "escalated _ = False"

text \<open>Another worker takes the card over: by an escalation, or by the bounce of an empty patch.\<close>

fun takes_over :: "bool \<times> review_outcome \<Rightarrow> bool" where
  "takes_over (ep, Escalated n) = True"
| "takes_over (ep, Bounced n) = ep"
| "takes_over _ = False"

lemma bounces_snoc [simp]:
  "bounces (outs @ [(ep, out)]) = bounces outs + (case out of Bounced n \<Rightarrow> 1 | _ \<Rightarrow> 0)"
  by (cases out) (simp_all add: bounces_def)

lemma takeover_kinds: "length (filter takes_over outs) \<le> bounces outs + length (filter escalated outs)"
proof (induction outs)
  case (Cons o' outs)
  obtain ep out where o: "o' = (ep, out)" by fastforce
  show ?case using Cons by (cases out) (auto simp: bounces_def o)
qed (simp add: bounces_def)

text \<open>An escalation is the first takeover.\<close>

definition escalated_first :: "(bool \<times> review_outcome) list \<Rightarrow> bool" where
  "escalated_first outs \<longleftrightarrow> (\<forall>i < length outs. escalated (outs ! i) \<longrightarrow> (\<forall>j < i. \<not> takes_over (outs ! j)))"

lemma escalated_first_snoc: "escalated_first (outs @ [x]) \<longleftrightarrow> escalated_first outs \<and> (escalated x \<longrightarrow> list_all (\<lambda>y. \<not> takes_over y) outs)"
  by (auto simp: escalated_first_def nth_append less_Suc_eq list_all_length)

lemma escalated_takes_over: "escalated x \<Longrightarrow> takes_over x"
  by (cases x rule: escalated.cases) simp_all

lemma escalated_once: "escalated_first outs \<Longrightarrow> length (filter escalated outs) \<le> 1"
proof (induction outs rule: rev_induct)
  case (snoc x outs)
  then have "escalated x \<longrightarrow> filter escalated outs = []"
    using escalated_takes_over by (auto simp: escalated_first_snoc list_all_iff filter_empty_conv)
  then show ?case using snoc by (auto simp: escalated_first_snoc)
qed simp

definition life_round :: "card_review option \<Rightarrow> nat" where
  "life_round rv = (case rv of None \<Rightarrow> 0 | Some r \<Rightarrow> rv_round r)"

definition spent :: "card_review option \<Rightarrow> bool" where
  "spent rv \<longleftrightarrow> (case rv of None \<Rightarrow> False | Some r \<Rightarrow> rv_escalated r = Some True)"

definition life_inv :: "int \<Rightarrow> (bool \<times> review_outcome) list \<times> card_review option \<times> streaks \<Rightarrow> bool" where
  "life_inv m s \<longleftrightarrow> (case s of (outs, rv, st) \<Rightarrow>
     bounces outs \<le> life_round rv \<and> (bounces outs = 0 \<or> int (bounces outs) < m)
     \<and> escalated_first outs \<and> (\<not> spent rv \<longrightarrow> list_all (\<lambda>x. \<not> takes_over x) outs))"

text \<open>What a verdict does to the round and the escalation flag.\<close>

lemma bounce_below_limit:
  assumes "tn_action (transition_of digest q cd work s) = BounceToWorker"
  shows "int (next_round (rc_review cd)) < rq_maxRounds q"
  using assms
  by (auto simp: transition_of_def resolveReviewTransition_def decideReviewLoopAction_def stuck_def Let_def split: if_splits)

lemma escalation_unspent:
  assumes "tn_action (transition_of digest q cd work s) = EscalateWorker"
  shows "rq_alreadyEscalated q \<noteq> Some True"
  using assms
  by (auto simp: transition_of_def resolveReviewTransition_def decideReviewLoopAction_def stuck_def Let_def split: if_splits)

lemma next_round_life: "next_round rv = Suc (life_round rv)"
  by (simp add: next_round_def life_round_def)

lemma verdict_life:
  assumes "apply_verdict digest q cd work s = (out, es)" "rc_review cd = rv"
  shows "\<exists>r. fold (persist_effect ep) es rv = Some r \<and> rv_round r = Suc (life_round rv)
    \<and> (spent rv \<longrightarrow> rv_escalated r = Some True)
    \<and> (\<forall>n. out = Bounced n \<longrightarrow> int (Suc (life_round rv)) < rq_maxRounds q \<and> (ep \<longrightarrow> rv_escalated r = Some True))
    \<and> (\<forall>n. out = Escalated n \<longrightarrow> rq_alreadyEscalated q \<noteq> Some True \<and> rv_escalated r = Some True)"
  using assms bounce_below_limit[of digest q cd work s] escalation_unspent[of digest q cd work s]
  by (cases "tn_action (transition_of digest q cd work s)"; cases "rq_hasEscalate q"; cases rv)
     (auto simp: apply_verdict_def Let_def buildNextReview_def next_round_life spent_def)

lemma fold_sessions: "\<forall>e \<in> set es. is_session e \<Longrightarrow> fold (persist_effect ep) es rv = rv"
  by (induction es) (auto simp: is_session_def split: review_effect.splits)

lemma resolution_life:
  assumes run: "runNKleinSecondOpinionReview digest q st = (out, es, st')"
    and rv: "\<forall>cd. rq_card q = Some cd \<longrightarrow> rc_review cd = rv"
  shows "(\<forall>n. out \<noteq> Bounced n) \<and> (\<forall>n. out \<noteq> Escalated n)
      \<and> life_round (fold (persist_effect ep) es rv) \<ge> life_round rv \<and> (spent rv \<longrightarrow> spent (fold (persist_effect ep) es rv))
    \<or> (\<exists>cd s es1. rq_card q = Some cd \<and> rc_review cd = rv \<and>
        apply_verdict digest q cd (fingerprintReviewArtifact digest (Some (work_text q))) s = (out, es1)
        \<and> fold (persist_effect ep) es rv = fold (persist_effect ep) es1 rv)"
proof (cases "rq_card q")
  case None
  with run show ?thesis by (auto simp: runNKleinSecondOpinionReview_def)
next
  case (Some cd)
  define work where "work = fingerprintReviewArtifact digest (Some (work_text q))"
  define w where "w = (case work of None \<Rightarrow> ''(unfingerprinted)'' | Some w \<Rightarrow> w)"
  obtain v es0 st1 where v: "obtain_verdict q (next_round (rc_review cd)) w st = (v, es0, st1)"
    by (cases "obtain_verdict q (next_round (rc_review cd)) w st")
  have f: "fold (persist_effect ep) es0 rv = rv"
    using obtain_verdict_bounded[OF v] fold_sessions by blast
  note defs = runNKleinSecondOpinionReview_def work_def[symmetric] w_def[symmetric] Let_def
  show ?thesis
  proof (cases v)
    case (GotVerdict s)
    obtain out1 es1 where a: "apply_verdict digest q cd work s = (out1, es1)" by (cases "apply_verdict digest q cd work s")
    have "(out, es) = (out1, es0 @ es1) \<or> es = [] \<and> (\<forall>n. out \<noteq> Bounced n) \<and> (\<forall>n. out \<noteq> Escalated n)"
      using run Some v GotVerdict a by (auto simp: defs split: option.splits if_splits)
    then show ?thesis
    proof
      assume o: "(out, es) = (out1, es0 @ es1)"
      have "fold (persist_effect ep) es rv = fold (persist_effect ep) es1 rv" using o f by simp
      moreover have "apply_verdict digest q cd (fingerprintReviewArtifact digest (Some (work_text q))) s = (out, es1)"
        using a o by (simp add: work_def)
      moreover have "rc_review cd = rv" using rv Some by simp
      ultimately show ?thesis using Some by blast
    qed simp
  next
    case (GaveUp c)
    have "es = [] \<and> (\<forall>n. out \<noteq> Bounced n) \<and> (\<forall>n. out \<noteq> Escalated n)
      \<or> (\<exists>reason. es = es0 @ [OnPark (no_verdict_review rv reason (rq_now q)) reason NoVerdictPark]
           \<and> (\<forall>n. out \<noteq> Bounced n) \<and> (\<forall>n. out \<noteq> Escalated n))"
      using run Some v GaveUp rv by (auto simp: defs split: option.splits if_splits)
    with f show ?thesis by (auto simp: no_verdict_review_def life_round_def spent_def split: option.splits)
  next
    case ThrewAway
    have "(es = [] \<or> es = es0) \<and> (\<forall>n. out \<noteq> Bounced n) \<and> (\<forall>n. out \<noteq> Escalated n)"
      using run Some v ThrewAway by (auto simp: defs split: option.splits if_splits)
    with f show ?thesis by auto
  next
    case NothingSaid
    with obtain_verdict_bounded[OF v] show ?thesis by simp
  qed
qed

lemma review_step_inv:
  assumes inv: "life_inv m s" and le: "rq_maxRounds (fst e) \<le> m"
  shows "life_inv m (review_step digest e s)"
proof -
  obtain q ep where e: "e = (q, ep)" by (cases e)
  obtain outs rv st where s: "s = (outs, rv, st)" by (cases s)
  define q1 where "q1 = q\<lparr>rq_card := map_option (\<lambda>cd. cd\<lparr>rc_review := rv\<rparr>) (rq_card q),
    rq_alreadyEscalated := Some (case rv of None \<Rightarrow> False | Some r \<Rightarrow> rv_escalated r = Some True)\<rparr>"
  obtain out es st1 where run: "runNKleinSecondOpinionReview digest q1 st = (out, es, st1)"
    by (cases "runNKleinSecondOpinionReview digest q1 st")
  have step: "review_step digest e s = (outs @ [(ep, out)], fold (persist_effect ep) es rv, st1)"
    using run by (simp add: review_step_def e s q1_def Let_def)
  have q1: "rq_maxRounds q1 \<le> m" "rq_alreadyEscalated q1 = Some (spent rv)"
    using le by (simp_all add: q1_def e spent_def)
  have "\<forall>cd. rq_card q1 = Some cd \<longrightarrow> rc_review cd = rv" by (auto simp: q1_def)
  from resolution_life[OF run this, of ep] show ?thesis
  proof (elim disjE exE conjE)
    assume "\<forall>n. out \<noteq> Bounced n" "\<forall>n. out \<noteq> Escalated n"
      "life_round rv \<le> life_round (fold (persist_effect ep) es rv)" "spent rv \<longrightarrow> spent (fold (persist_effect ep) es rv)"
    with inv show ?thesis
      unfolding step by (cases out) (auto simp: life_inv_def s escalated_first_snoc)
  next
    fix cd sub es1
    assume a: "apply_verdict digest q1 cd (fingerprintReviewArtifact digest (Some (work_text q1))) sub = (out, es1)"
      and cd: "rc_review cd = rv" and f: "fold (persist_effect ep) es rv = fold (persist_effect ep) es1 rv"
    from verdict_life[OF a cd, of ep] obtain r where r: "fold (persist_effect ep) es rv = Some r"
      "rv_round r = Suc (life_round rv)" "spent rv \<longrightarrow> rv_escalated r = Some True"
      "\<forall>n. out = Bounced n \<longrightarrow> int (Suc (life_round rv)) < rq_maxRounds q1 \<and> (ep \<longrightarrow> rv_escalated r = Some True)"
      "\<forall>n. out = Escalated n \<longrightarrow> rq_alreadyEscalated q1 \<noteq> Some True \<and> rv_escalated r = Some True"
      using f by metis
    show ?thesis
    proof (cases out)
      case (Bounced n)
      with inv r q1 show ?thesis unfolding step
        by (auto simp: life_inv_def s life_round_def[of "Some r"] spent_def[of "Some r"] escalated_first_snoc)
    next
      case (Escalated n)
      with inv r q1 show ?thesis unfolding step
        by (auto simp: life_inv_def s life_round_def[of "Some r"] spent_def[of "Some r"] escalated_first_snoc)
    qed (unfold step, use inv r in \<open>auto simp: life_inv_def s life_round_def[of "Some r"] spent_def[of "Some r"] escalated_first_snoc\<close>)
  qed
qed

interpretation review_lives: invariant_system "review_step digest" "\<lambda>e s. rq_maxRounds (fst e) \<le> m" "life_inv m" for digest m
  by unfold_locales (rule review_step_inv)


text \<open>
  C27. A card cannot be reviewed for ever: however the reviewer sessions, the acceptance evidence and the
  diffs of its resolutions turn out, the card is bounced back less often than the round limit says. The
  escalation hands it to a stronger worker at most once, and only while no other worker has taken it over, also not
  by the bounce of an empty patch, because the spent rung survives every later rewrite of the review state. In all,
  other workers take it over at most once more than it was bounced.
\<close>

theorem review_life_bounded:
  assumes "\<forall>e \<in> set qs. rq_maxRounds (fst e) \<le> m"
  shows "(bounces (review_life digest qs) = 0 \<or> int (bounces (review_life digest qs)) < m)
    \<and> length (filter escalated (review_life digest qs)) \<le> 1 \<and> escalated_first (review_life digest qs)
    \<and> length (filter takes_over (review_life digest qs)) \<le> Suc (bounces (review_life digest qs))"
proof -
  have "life_inv m (fold (review_step digest) qs ([], None, []))"
    using assms by (intro review_lives.fold_inv) (simp_all add: life_inv_def bounces_def escalated_first_def spent_def)
  then have i: "bounces (review_life digest qs) = 0 \<or> int (bounces (review_life digest qs)) < m"
    "escalated_first (review_life digest qs)" by (auto simp: review_life_def life_inv_def split: prod.splits)
  then show ?thesis using escalated_once[OF i(2)] takeover_kinds[of "review_life digest qs"] by linarith
qed

definition stubborn_request :: review_request where
  "stubborn_request =
     \<lparr>rq_streakKey = ''ws::a'', rq_columnId = ''review'', rq_enabled = True, rq_maxRounds = 2, rq_escalationAvailable = Some True,
      rq_alreadyEscalated = None, rq_isReviewerCard = None, rq_isPlanningCard = None, rq_acceptanceSummary = None,
      rq_preReviewVerdict = None, rq_evidence = None, rq_now = Fin 0,
      rq_card = Some \<lparr>rc_title = ''A'', rc_prompt = ''do it'', rc_review = None\<rparr>, rq_diff = Some ''+x'',
      rq_speculativeDiff = None,
      rq_session = (\<lambda>k. Submitted \<lparr>sb_verdict = RequestChanges, sb_summary = ''no'', sb_feedback = Some ''fix'',
        sb_insight = None, sb_preferred = None, sb_blocking = None\<rparr>),
      rq_lastShape = None, rq_hasEscalate = True\<rparr>"

theorem review_life_bounded_witness:
  "(bounces (review_life id [(stubborn_request, False), (stubborn_request, True)]) = 0
      \<or> int (bounces (review_life id [(stubborn_request, False), (stubborn_request, True)])) < 2)
    \<and> length (filter escalated (review_life id [(stubborn_request, False), (stubborn_request, True)])) \<le> 1
    \<and> escalated_first (review_life id [(stubborn_request, False), (stubborn_request, True)])
    \<and> length (filter takes_over (review_life id [(stubborn_request, False), (stubborn_request, True)]))
        \<le> Suc (bounces (review_life id [(stubborn_request, False), (stubborn_request, True)]))"
  by (rule review_life_bounded) (simp add: stubborn_request_def)

section \<open>Takeovers after the rung is spent\<close>

text \<open>
  The bounce of an empty patch marks the escalation rung as spent, but does not ask whether it is: with a limit of
  four rounds, two empty patches whose reviews ask for different things are handed to the other worker twice.
\<close>

definition empty_patch_request :: "string \<Rightarrow> review_request" where
  "empty_patch_request ask = stubborn_request\<lparr>rq_maxRounds := 4, rq_diff := Some ask,
     rq_session := (\<lambda>k. Submitted \<lparr>sb_verdict = RequestChanges, sb_summary = ask, sb_feedback = Some ask,
        sb_insight = None, sb_preferred = None, sb_blocking = None\<rparr>)\<rparr>"

lemma empty_patch_takes_over_again:
  "map takes_over (review_life id [(empty_patch_request ''one'', True), (empty_patch_request ''two'', True)]) = [True, True]"
  by code_simp

section \<open>A capped history\<close>

text \<open>
  The identical-loop guard reads the whole persisted history, and the cap drops its middle: a change
  request seen in round six is forgotten once the history is longer than the kept rounds.
\<close>

definition long_record :: "nat \<Rightarrow> round_record" where
  "long_record k = \<lparr>rr_round = k, rr_verdict = RequestChanges, rr_feedbackFp = Some (nat_str k), rr_workFp = Some (nat_str k),
     rr_summary = None, rr_feedback = None\<rparr>"

lemma capped_history_forgets:
  "ld_action (decideReviewLoopAction RequestChanges 62 (Some 100) (Some ''6'') (Some ''6'') (map long_record [1..<62]) None None)
     = ParkIt
   \<and> ld_action (decideReviewLoopAction RequestChanges 62 (Some 100) (Some ''6'') (Some ''6'')
        (capReviewHistory (map long_record [1..<62])) None None) = BounceToWorker"
  by code_simp

section \<open>A panel\<close>

lemma panel_merges_iff:
  "pv_decision (combinePanelVerdicts vs None cats) = MergeDecision
     \<longleftrightarrow> length vs < 2 * length (filter jv_pass vs)
       \<and> (\<forall>v \<in> set vs. \<forall>f \<in> set (jv_findings v).
            \<not> vetoes (map to_lower (case cats of None \<Rightarrow> DEFAULT_VETO_CATEGORIES | Some cs \<Rightarrow> cs)) f)"
  by (auto simp: combinePanelVerdicts_def Let_def vetoingFinding_def find_None_iff split: option.splits dest!: find_hit)

end
