(* ===== verification/Reservations.thy ===== *)
theory Reservations
  imports Admission
begin

text \<open>
  The dispatch reservations (\<^verbatim>\<open>src/core/dispatch-reservations.ts\<close>): counters of reserved resources, the holds
  of the tasks and the time each was taken, with expiry. Every operation takes the readings of the clock it
  makes, and returns the ledger it leaves. The admission planner sees the endpoint holds through
  \<open>reservationAwarePools\<close>.
\<close>

section \<open>The ledger\<close>

datatype reservation_kind = EndpointSlot | SandboxSlot | KvBytes | DiskBytes

fun kind_str :: "reservation_kind \<Rightarrow> string" where
  "kind_str EndpointSlot = ''endpoint_slot''"
| "kind_str SandboxSlot = ''sandbox_slot''"
| "kind_str KvBytes = ''kv_bytes''"
| "kind_str DiskBytes = ''disk_bytes''"

record reservation_request =
  res_kind :: reservation_kind
  res_key :: string
  res_amount :: jsnum

record reservation_capacity =
  cap_kind :: reservation_kind
  cap_key :: string
  cap_capacity :: jsnum

datatype reserve_outcome =
    Reserved
  | Shortfall reservation_kind string jsnum jsnum

type_synonym counters = "(string, jsnum) omap"

record ledger =
  led_holds :: "(string, reservation_request list) omap"
  led_reserved :: counters
  led_taken :: "(string, jsnum) omap"

definition DEFAULT_RESERVATION_HOLD_TTL_MS :: jsnum where
  "DEFAULT_RESERVATION_HOLD_TTL_MS = Fin 120000"

definition counterKey :: "reservation_kind \<Rightarrow> string \<Rightarrow> string" where
  "counterKey k key = kind_str k @ CHR 0x00 # key"

definition capacity_by_counter :: "reservation_capacity list \<Rightarrow> counters" where
  "capacity_by_counter cs = omap_of (map (\<lambda>c. (counterKey (cap_kind c) (cap_key c), cap_capacity c)) cs)"

definition empty_ledger :: ledger where
  "empty_ledger = \<lparr>led_holds = [], led_reserved = [], led_taken = []\<rparr>"

definition counter_at :: "counters \<Rightarrow> string \<Rightarrow> jsnum" where
  "counter_at m k = (case map_of m k of None \<Rightarrow> Fin 0 | Some v \<Rightarrow> v)"

definition counter_of :: "reservation_request \<Rightarrow> string" where
  "counter_of r = counterKey (res_kind r) (res_key r)"

text \<open>\<open>add\<close> is the sign: reserve or give back.\<close>

definition apply_one :: "bool \<Rightarrow> reservation_request \<Rightarrow> counters \<Rightarrow> counters" where
  "apply_one add r m =
     (let k = counter_of r;
          new = (if add then js_add (counter_at m k) (res_amount r) else js_sub (counter_at m k) (res_amount r))
      in if js_le new (Fin 0) then omap_delete k m else omap_set k new m)"

definition applyDelta :: "bool \<Rightarrow> reservation_request list \<Rightarrow> counters \<Rightarrow> counters" where
  "applyDelta add rs m = fold (apply_one add) rs m"

definition expire_one :: "jsnum \<Rightarrow> string \<times> jsnum \<Rightarrow> ledger \<Rightarrow> ledger" where
  "expire_one cutoff e L =
     (case e of (task, takenAt) \<Rightarrow>
        (if js_gt takenAt cutoff then L
         else L\<lparr>led_reserved := (case map_of (led_holds L) task of
                  None \<Rightarrow> led_reserved L | Some held \<Rightarrow> applyDelta False held (led_reserved L)),
                led_holds := omap_delete task (led_holds L),
                led_taken := omap_delete task (led_taken L)\<rparr>))"

definition expireLeakedHolds :: "jsnum \<Rightarrow> jsnum \<Rightarrow> ledger \<Rightarrow> ledger" where
  "expireLeakedHolds ttl now L = fold (expire_one (js_sub now ttl)) (led_taken L) L"

section \<open>The operations\<close>

fun js_isInteger :: "jsnum \<Rightarrow> bool" where
  "js_isInteger (Fin q) = (q = of_int \<lfloor>q\<rfloor>)"
| "js_isInteger _ = False"

definition bad_amount :: "reservation_request \<Rightarrow> bool" where
  "bad_amount r \<longleftrightarrow> \<not> js_isInteger (res_amount r) \<or> js_le (res_amount r) (Fin 0)"

text \<open>The first request that does not fit, with what is available for it.\<close>

fun first_shortfall :: "counters \<Rightarrow> counters \<Rightarrow> reservation_request list \<Rightarrow> (reservation_request \<times> jsnum) option" where
  "first_shortfall caps m [] = None"
| "first_shortfall caps m (r # rs) =
     (case map_of caps (counter_of r) of
        None \<Rightarrow> first_shortfall caps m rs
      | Some c \<Rightarrow>
          (let available = js_sub c (counter_at m (counter_of r)) in
           if js_gt (res_amount r) available then Some (r, available) else first_shortfall caps m rs))"

text \<open>\<open>t0\<close> is the clock of the expiry and \<open>t1\<close> that of the new hold.\<close>

definition tryReserve ::
  "counters \<Rightarrow> jsnum \<Rightarrow> jsnum \<Rightarrow> jsnum \<Rightarrow> string \<Rightarrow> reservation_request list \<Rightarrow> ledger \<Rightarrow> reserve_outcome \<times> ledger" where
  "tryReserve caps ttl t0 t1 task reqs L0 =
     (let L = expireLeakedHolds ttl t0 L0 in
      case find bad_amount reqs of
        Some r \<Rightarrow> (Shortfall (res_kind r) (res_key r) (res_amount r) NaN, L)
      | None \<Rightarrow>
          (let existing = map_of (led_holds L) task;
               m = (case existing of None \<Rightarrow> led_reserved L | Some h \<Rightarrow> applyDelta False h (led_reserved L))
           in case first_shortfall caps m reqs of
                Some (r, available) \<Rightarrow>
                  (Shortfall (res_kind r) (res_key r) (res_amount r) available,
                   L\<lparr>led_reserved := (case existing of None \<Rightarrow> m | Some h \<Rightarrow> applyDelta True h m)\<rparr>)
              | None \<Rightarrow>
                  (Reserved,
                   L\<lparr>led_reserved := applyDelta True reqs m, led_holds := omap_set task reqs (led_holds L),
                     led_taken := omap_set task t1 (led_taken L)\<rparr>)))"

definition release :: "string \<Rightarrow> ledger \<Rightarrow> ledger" where
  "release task L =
     (let L1 = L\<lparr>led_taken := omap_delete task (led_taken L)\<rparr> in
      case map_of (led_holds L1) task of
        None \<Rightarrow> L1
      | Some holds \<Rightarrow> L1\<lparr>led_holds := omap_delete task (led_holds L1), led_reserved := applyDelta False holds (led_reserved L1)\<rparr>)"

definition reserved :: "jsnum \<Rightarrow> jsnum \<Rightarrow> reservation_kind \<Rightarrow> string \<Rightarrow> ledger \<Rightarrow> jsnum \<times> ledger" where
  "reserved ttl now kind key L =
     (let L1 = expireLeakedHolds ttl now L in (counter_at (led_reserved L1) (counterKey kind key), L1))"

definition holders :: "jsnum \<Rightarrow> jsnum \<Rightarrow> ledger \<Rightarrow> string list \<times> ledger" where
  "holders ttl now L = (let L1 = expireLeakedHolds ttl now L in (map fst (led_holds L1), L1))"

definition snapshot :: "jsnum \<Rightarrow> jsnum \<Rightarrow> ledger \<Rightarrow> (string \<times> reservation_request list) list \<times> ledger" where
  "snapshot ttl now L = (let L1 = expireLeakedHolds ttl now L in (led_holds L1, L1))"

text \<open>A pool's occupancy with the endpoint slots reserved; the reserved amounts are whole numbers.\<close>

definition reserved_slots :: "jsnum \<Rightarrow> int" where
  "reserved_slots v = (case v of Fin q \<Rightarrow> \<lfloor>q\<rfloor> | _ \<Rightarrow> 0)"

fun reservationAwarePools ::
  "jsnum \<Rightarrow> jsnum \<Rightarrow> admission_pool list \<Rightarrow> ledger \<Rightarrow> admission_pool list \<times> ledger" where
  "reservationAwarePools ttl now [] L = ([], L)"
| "reservationAwarePools ttl now (p # ps) L =
     (case reserved ttl now EndpointSlot (poolKey p) L of
        (v, L1) \<Rightarrow> (case reservationAwarePools ttl now ps L1 of
           (qs, L2) \<Rightarrow> (p\<lparr>inUse := inUse p + reserved_slots v\<rparr> # qs, L2)))"

section \<open>What a ledger holds\<close>

definition amount_int :: "reservation_request \<Rightarrow> int" where
  "amount_int r = reserved_slots (res_amount r)"

definition demand :: "string \<Rightarrow> reservation_request list \<Rightarrow> int" where
  "demand k rs = sum_list (map (\<lambda>r. if counter_of r = k then amount_int r else 0) rs)"

definition held_total :: "string \<Rightarrow> (string \<times> reservation_request list) list \<Rightarrow> int" where
  "held_total k hs = sum_list (map (\<lambda>(t, rs). demand k rs) hs)"

definition usable :: "reservation_request list \<Rightarrow> bool" where
  "usable rs \<longleftrightarrow> (\<forall>r \<in> set rs. \<exists>n. 0 < n \<and> res_amount r = Fin (of_int n))"

definition counts :: "counters \<Rightarrow> (string \<Rightarrow> int) \<Rightarrow> bool" where
  "counts m c \<longleftrightarrow> (\<forall>k. counter_at m k = Fin (of_int (c k)))"

lemma bad_amount_iff: "\<not> bad_amount r \<longleftrightarrow> (\<exists>n. 0 < n \<and> res_amount r = Fin (of_int n))"
proof (cases "res_amount r")
  case (Fin q)
  show ?thesis
  proof
    assume "\<not> bad_amount r"
    then have "q = of_int \<lfloor>q\<rfloor>" "0 < q" using Fin by (auto simp: bad_amount_def)
    then have "res_amount r = Fin (of_int \<lfloor>q\<rfloor>)" "0 < \<lfloor>q\<rfloor>" using Fin by (simp, linarith)
    then show "\<exists>n. 0 < n \<and> res_amount r = Fin (of_int n)" by blast
  qed (use Fin in \<open>auto simp: bad_amount_def\<close>)
qed (auto simp: bad_amount_def)

lemma usable_iff: "usable rs \<longleftrightarrow> find bad_amount rs = None"
  by (auto simp: usable_def find_None_iff bad_amount_iff)

lemma usable_simps [simp]:
  "usable []" "usable (r # rs) \<longleftrightarrow> (\<exists>n. 0 < n \<and> res_amount r = Fin (of_int n)) \<and> usable rs"
  by (auto simp: usable_def)

lemma demand_simps [simp]:
  "demand k [] = 0" "demand k (r # rs) = (if counter_of r = k then amount_int r else 0) + demand k rs"
  by (simp_all add: demand_def)

lemma demand_nonneg: "usable rs \<Longrightarrow> 0 \<le> demand k rs"
  by (induction rs) (auto simp: amount_int_def reserved_slots_def)

lemma counter_at_set [simp]: "counter_at (omap_set k v m) k' = (if k' = k then v else counter_at m k')"
  by (simp add: counter_at_def)

lemma counter_at_delete [simp]: "counter_at (omap_delete k m) k' = (if k' = k then Fin 0 else counter_at m k')"
  by (simp add: counter_at_def)

lemma apply_plus:
  assumes "counts m c" "usable rs" "\<And>k. 0 \<le> c k"
  shows "counts (applyDelta True rs m) (\<lambda>k. c k + demand k rs)"
  using assms
proof (induction rs arbitrary: m c)
  case (Cons r rs)
  obtain n where n: "0 < n" "res_amount r = Fin (of_int n)" using Cons.prems by auto
  then have [simp]: "amount_int r = n" by (simp add: amount_int_def reserved_slots_def)
  let ?c = "\<lambda>k. c k + (if counter_of r = k then n else 0)"
  have "counts (apply_one True r m) ?c"
    using Cons.prems(1) n Cons.prems(3)[of "counter_of r"] by (auto simp: counts_def apply_one_def Let_def)
  then have "counts (applyDelta True rs (apply_one True r m)) (\<lambda>k. ?c k + demand k rs)"
    using Cons.prems n by (intro Cons.IH) auto
  then show ?case by (simp add: applyDelta_def add.assoc cong: if_cong)
qed (simp add: applyDelta_def)

lemma apply_minus:
  assumes "counts m c" "usable rs" "\<And>k. demand k rs \<le> c k"
  shows "counts (applyDelta False rs m) (\<lambda>k. c k - demand k rs)"
  using assms
proof (induction rs arbitrary: m c)
  case (Cons r rs)
  obtain n where n: "0 < n" "res_amount r = Fin (of_int n)" using Cons.prems by auto
  then have [simp]: "amount_int r = n" by (simp add: amount_int_def reserved_slots_def)
  let ?c = "\<lambda>k. c k - (if counter_of r = k then n else 0)"
  have le: "demand k rs \<le> ?c k" for k
    using Cons.prems(3)[of k] n by (auto simp: amount_int_def reserved_slots_def)
  have "0 \<le> ?c (counter_of r)" using le[of "counter_of r"] demand_nonneg[of rs "counter_of r"] Cons.prems(2) by auto
  then have "counts (apply_one False r m) ?c"
    using Cons.prems(1) n by (auto simp: counts_def apply_one_def Let_def)
  then have "counts (applyDelta False rs (apply_one False r m)) (\<lambda>k. ?c k - demand k rs)"
    using Cons.prems le by (intro Cons.IH) auto
  then show ?case by (simp add: applyDelta_def algebra_simps cong: if_cong)
qed (simp add: applyDelta_def)


lemma held_total_simps [simp]:
  "held_total k [] = 0" "held_total k ((t, rs) # hs) = demand k rs + held_total k hs"
  by (simp_all add: held_total_def)

lemma held_total_delete:
  "distinct (map fst hs) \<Longrightarrow> map_of hs t = Some rs \<Longrightarrow> held_total k hs = held_total k (omap_delete t hs) + demand k rs"
proof (induction hs)
  case (Cons h hs)
  then show ?case by (cases h) (auto simp: omap_delete_absent split: if_splits)
qed simp

lemma held_total_set:
  "distinct (map fst hs) \<Longrightarrow> held_total k (omap_set t rs hs) = held_total k (omap_delete t hs) + demand k rs"
proof (induction hs)
  case (Cons h hs)
  then show ?case by (cases h) (auto simp: omap_delete_absent)
qed simp

definition ledger_inv :: "ledger \<Rightarrow> bool" where
  "ledger_inv L \<longleftrightarrow> distinct (map fst (led_holds L)) \<and> distinct (map fst (led_taken L))
     \<and> fst ` set (led_holds L) = fst ` set (led_taken L)
     \<and> (\<forall>rs \<in> snd ` set (led_holds L). usable rs)
     \<and> counts (led_reserved L) (\<lambda>k. held_total k (led_holds L))"

lemma held_total_nonneg: "\<forall>rs \<in> snd ` set hs. usable rs \<Longrightarrow> 0 \<le> held_total k hs"
  by (induction hs) (auto simp: demand_nonneg add_nonneg_nonneg)

lemma counts_without:
  assumes "ledger_inv L" "map_of (led_holds L) t = Some rs"
  shows "counts (applyDelta False rs (led_reserved L)) (\<lambda>k. held_total k (omap_delete t (led_holds L)))"
proof -
  have u: "usable rs" using assms map_of_SomeD[OF assms(2)] by (force simp: ledger_inv_def)
  have split: "held_total k (led_holds L) = held_total k (omap_delete t (led_holds L)) + demand k rs" for k
    using assms by (intro held_total_delete) (auto simp: ledger_inv_def)
  have "0 \<le> held_total k (omap_delete t (led_holds L))" for k
    using assms(1) by (intro held_total_nonneg) (auto simp: ledger_inv_def omap_delete_def)
  then have "demand k rs \<le> held_total k (led_holds L)" for k using split[of k] by simp
  then have "counts (applyDelta False rs (led_reserved L)) (\<lambda>k. held_total k (led_holds L) - demand k rs)"
    using assms(1) u by (intro apply_minus) (auto simp: ledger_inv_def)
  then show ?thesis by (simp add: split)
qed

text \<open>The ledger without the hold of a task.\<close>

definition drop_hold :: "string \<Rightarrow> ledger \<Rightarrow> ledger" where
  "drop_hold t L = L\<lparr>led_reserved := (case map_of (led_holds L) t of None \<Rightarrow> led_reserved L
       | Some rs \<Rightarrow> applyDelta False rs (led_reserved L)),
     led_holds := omap_delete t (led_holds L), led_taken := omap_delete t (led_taken L)\<rparr>"

lemma drop_hold_inv:
  assumes inv: "ledger_inv L"
  shows "ledger_inv (drop_hold t L)"
proof (cases "map_of (led_holds L) t")
  case None
  then have "t \<notin> fst ` set (led_holds L)" by (simp add: map_of_eq_None_iff)
  with inv have "drop_hold t L = L"
    by (simp add: drop_hold_def None omap_delete_absent ledger_inv_def)
  with inv show ?thesis by simp
next
  case (Some rs)
  have keys: "fst ` set (omap_delete t m) = fst ` set m - {t}" for m :: "(string \<times> 'z) list"
    by (auto simp: set_omap_delete)
  have "\<forall>rs \<in> snd ` set (omap_delete t (led_holds L)). usable rs"
    using inv by (auto simp: set_omap_delete ledger_inv_def)
  with inv counts_without[OF inv Some] show ?thesis
    by (simp add: drop_hold_def Some ledger_inv_def distinct_omap_delete keys)
qed

lemma expire_one_drop: "expire_one cutoff (t, a) L = (if js_gt a cutoff then L else drop_hold t L)"
  by (simp add: expire_one_def drop_hold_def)

lemma release_drop: "ledger_inv L \<Longrightarrow> release t L = drop_hold t L"
  by (cases "map_of (led_holds L) t")
     (simp_all add: release_def drop_hold_def omap_delete_absent map_of_eq_None_iff[THEN iffD1])

lemma expire_inv: "ledger_inv L \<Longrightarrow> ledger_inv (fold (expire_one cutoff) es L)"
proof (induction es arbitrary: L)
  case (Cons e es)
  then show ?case by (cases e) (auto simp: expire_one_drop drop_hold_inv)
qed simp

lemma expireLeakedHolds_inv: "ledger_inv L \<Longrightarrow> ledger_inv (expireLeakedHolds ttl now L)"
  by (simp add: expireLeakedHolds_def expire_inv)

section \<open>The ledger refines the list of live holds\<close>

text \<open>
  The specification keeps the live holds with their times and nothing else: what is reserved of a
  counter is the sum over the holds.
\<close>

type_synonym live_holds = "(string \<times> reservation_request list \<times> jsnum) list"

definition live_total :: "string \<Rightarrow> live_holds \<Rightarrow> int" where
  "live_total k H = sum_list (map (\<lambda>(t, rs, a). demand k rs) H)"

definition unexpired :: "jsnum \<Rightarrow> jsnum \<Rightarrow> live_holds \<Rightarrow> live_holds" where
  "unexpired ttl now H = filter (\<lambda>(t, rs, a). js_gt a (js_sub now ttl)) H"

definition short_of :: "counters \<Rightarrow> live_holds \<Rightarrow> reservation_request \<Rightarrow> bool" where
  "short_of caps H r \<longleftrightarrow> (case map_of caps (counter_of r) of None \<Rightarrow> False
     | Some c \<Rightarrow> js_gt (res_amount r) (js_sub c (Fin (of_int (live_total (counter_of r) H)))))"

datatype ledger_op =
    TryReserve jsnum jsnum string "reservation_request list"
  | Release string
  | ReadReserved jsnum reservation_kind string
  | ReadHolders jsnum
  | ReadSnapshot jsnum

datatype ledger_out =
    Outcome reserve_outcome
  | Released
  | AmountReserved jsnum
  | HolderList "string list"
  | HoldList "(string \<times> reservation_request list) list"

definition ledger_step :: "counters \<Rightarrow> jsnum \<Rightarrow> ledger_op \<Rightarrow> ledger \<Rightarrow> ledger_out \<times> ledger" where
  "ledger_step caps ttl op L =
     (case op of
        TryReserve t0 t1 task reqs \<Rightarrow> apfst Outcome (tryReserve caps ttl t0 t1 task reqs L)
      | Release task \<Rightarrow> (Released, release task L)
      | ReadReserved now kind key \<Rightarrow> apfst AmountReserved (reserved ttl now kind key L)
      | ReadHolders now \<Rightarrow> apfst HolderList (holders ttl now L)
      | ReadSnapshot now \<Rightarrow> apfst HoldList (snapshot ttl now L))"

definition holds_step :: "counters \<Rightarrow> jsnum \<Rightarrow> ledger_op \<Rightarrow> live_holds \<Rightarrow> ledger_out \<times> live_holds" where
  "holds_step caps ttl op H =
     (case op of
        TryReserve t0 t1 task reqs \<Rightarrow>
          (let H1 = unexpired ttl t0 H; others = omap_delete task H1 in
           case find bad_amount reqs of
             Some r \<Rightarrow> (Outcome (Shortfall (res_kind r) (res_key r) (res_amount r) NaN), H1)
           | None \<Rightarrow>
               (case find (short_of caps others) reqs of
                  Some r \<Rightarrow> (Outcome (Shortfall (res_kind r) (res_key r) (res_amount r)
                      (js_sub (the (map_of caps (counter_of r))) (Fin (of_int (live_total (counter_of r) others))))), H1)
                | None \<Rightarrow> (Outcome Reserved, omap_set task (reqs, t1) H1)))
      | Release task \<Rightarrow> (Released, omap_delete task H)
      | ReadReserved now kind key \<Rightarrow>
          (AmountReserved (Fin (of_int (live_total (counterKey kind key) (unexpired ttl now H)))), unexpired ttl now H)
      | ReadHolders now \<Rightarrow> (HolderList (map fst (unexpired ttl now H)), unexpired ttl now H)
      | ReadSnapshot now \<Rightarrow> (HoldList (map (\<lambda>(t, rs, a). (t, rs)) (unexpired ttl now H)), unexpired ttl now H))"

fun outputs :: "('op \<Rightarrow> 's \<Rightarrow> 'out \<times> 's) \<Rightarrow> 'op list \<Rightarrow> 's \<Rightarrow> 'out list \<times> 's" where
  "outputs step [] s = ([], s)"
| "outputs step (op # ops) s = (case step op s of (x, s1) \<Rightarrow> apfst ((#) x) (outputs step ops s1))"

definition live :: "ledger \<Rightarrow> live_holds" where
  "live L = map (\<lambda>(t, rs). (t, rs, the (map_of (led_taken L) t))) (led_holds L)"

definition expired :: "jsnum \<Rightarrow> (string \<times> jsnum) list \<Rightarrow> string \<Rightarrow> bool" where
  "expired c es t \<longleftrightarrow> (\<exists>a. (t, a) \<in> set es \<and> \<not> js_gt a c)"

lemma fold_expire:
  "led_holds (fold (expire_one c) es L) = filter (\<lambda>h. \<not> expired c es (fst h)) (led_holds L)
   \<and> led_taken (fold (expire_one c) es L) = filter (\<lambda>h. \<not> expired c es (fst h)) (led_taken L)"
proof (induction es arbitrary: L)
  case (Cons e es)
  obtain t a where e: "e = (t, a)" by (cases e)
  have "expired c (e # es) x \<longleftrightarrow> x = t \<and> \<not> js_gt a c \<or> expired c es x" for x by (auto simp: expired_def e)
  then show ?case
    by (cases "js_gt a c")
       (simp_all add: Cons.IH e expire_one_drop drop_hold_def omap_delete_def)
qed (simp add: expired_def)

lemma live_expire:
  assumes "ledger_inv L"
  shows "live (expireLeakedHolds ttl now L) = unexpired ttl now (live L)"
proof -
  have d: "distinct (map fst (led_taken L))" using assms by (simp add: ledger_inv_def)
  let ?c = "js_sub now ttl"
  have at: "expired ?c (led_taken L) t \<longleftrightarrow> \<not> js_gt (the (map_of (led_taken L) t)) ?c" if "(t, rs) \<in> set (led_holds L)" for t rs
  proof -
    have "t \<in> fst ` set (led_taken L)" using that assms by (force simp: ledger_inv_def)
    then obtain a where "map_of (led_taken L) t = Some a" by (metis domD dom_map_of_conv_image_fst)
    with map_of_is_SomeI[OF d] show ?thesis by (auto simp: expired_def dest: map_of_SomeD)
  qed
  have keep: "map_of (filter (\<lambda>h. \<not> expired ?c (led_taken L) (fst h)) (led_taken L)) t = map_of (led_taken L) t"
    if "\<not> expired ?c (led_taken L) t" for t
    using that by (rule map_of_filter_key)
  show ?thesis
    unfolding live_def expireLeakedHolds_def unexpired_def fold_expire[THEN conjunct1] fold_expire[THEN conjunct2]
    by (auto simp: filter_map comp_def case_prod_unfold at keep intro!: map_cong filter_cong)
qed

lemma live_keys [simp]: "map fst (live L) = map fst (led_holds L)"
  by (simp add: live_def comp_def case_prod_unfold)

lemma live_pairs [simp]: "map (\<lambda>(t, rs, a). (t, rs)) (live L) = led_holds L"
  by (simp add: live_def comp_def case_prod_unfold)

lemma live_total_live: "live_total k (live L) = held_total k (led_holds L)"
  by (simp add: live_total_def live_def held_total_def comp_def case_prod_unfold)

lemma live_delete: "live_total k (omap_delete t (live L)) = held_total k (omap_delete t (led_holds L))"
  by (simp add: live_total_def live_def held_total_def omap_delete_def filter_map comp_def case_prod_unfold)

lemma live_drop:
  "ledger_inv L \<Longrightarrow> live (drop_hold t L) = omap_delete t (live L)"
  by (auto simp: live_def drop_hold_def omap_delete_def filter_map comp_def case_prod_unfold
      map_of_filter_key[of "\<lambda>x. x \<noteq> t"] intro!: map_cong)

lemma first_shortfall_find:
  assumes "counts m (\<lambda>k. live_total k H)"
  shows "first_shortfall caps m rs = map_option
    (\<lambda>r. (r, js_sub (the (map_of caps (counter_of r))) (Fin (of_int (live_total (counter_of r) H))))) (find (short_of caps H) rs)"
  using assms by (induction rs) (auto simp: short_of_def counts_def Let_def split: option.splits)

lemma live_set:
  assumes "ledger_inv L"
  shows "live (L\<lparr>led_reserved := m, led_holds := omap_set t rs (led_holds L), led_taken := omap_set t a (led_taken L)\<rparr>)
    = omap_set t (rs, a) (live L)"
proof -
  have "map (\<lambda>(x, rs). (x, rs, the (((map_of T)(t \<mapsto> a)) x))) (omap_set t rs hs)
      = omap_set t (rs, a) (map (\<lambda>(x, rs). (x, rs, the (map_of T x))) hs)" if "distinct (map fst hs)" for T hs
    using that by (induction hs) (force split: if_splits)+
  then show ?thesis using assms by (simp add: live_def ledger_inv_def)
qed

text \<open>One call keeps the invariant, answers as the specification and leaves its holds.\<close>

lemma tryReserve_refines:
  assumes inv0: "ledger_inv L0"
  shows "case tryReserve caps ttl t0 t1 task reqs L0 of (out, L1) \<Rightarrow>
    ledger_inv L1 \<and> (Outcome out, live L1) = holds_step caps ttl (TryReserve t0 t1 task reqs) (live L0)"
proof -
  define L where "L = expireLeakedHolds ttl t0 L0"
  have inv: "ledger_inv L" using expireLeakedHolds_inv[OF inv0] by (simp add: L_def)
  have live: "unexpired ttl t0 (live L0) = live L" using live_expire[OF inv0] by (simp add: L_def)
  define m where "m = (case map_of (led_holds L) task of None \<Rightarrow> led_reserved L | Some h \<Rightarrow> applyDelta False h (led_reserved L))"
  have m: "counts m (\<lambda>k. held_total k (omap_delete task (led_holds L)))"
  proof (cases "map_of (led_holds L) task")
    case None
    then have "task \<notin> fst ` set (led_holds L)" by (simp add: map_of_eq_None_iff)
    with None inv show ?thesis by (simp add: m_def ledger_inv_def omap_delete_absent)
  next
    case (Some h)
    with counts_without[OF inv Some] show ?thesis by (simp add: m_def)
  qed
  have nonneg: "0 \<le> held_total k (omap_delete task (led_holds L))" for k
    using inv by (intro held_total_nonneg) (auto simp: ledger_inv_def set_omap_delete)
  have short: "first_shortfall caps m reqs = map_option
    (\<lambda>r. (r, js_sub (the (map_of caps (counter_of r))) (Fin (of_int (live_total (counter_of r) (omap_delete task (live L)))))))
      (find (short_of caps (omap_delete task (live L))) reqs)"
    using m by (intro first_shortfall_find) (simp add: live_delete)
  note defs = tryReserve_def L_def[symmetric] m_def[symmetric] Let_def holds_step_def live
  show ?thesis
  proof (cases "find bad_amount reqs")
    case (Some r)
    then show ?thesis using inv by (simp add: defs)
  next
    case usable: None
    show ?thesis
    proof (cases "find (short_of caps (omap_delete task (live L))) reqs")
      case (Some r)
      define m' where "m' = (case map_of (led_holds L) task of None \<Rightarrow> m | Some h \<Rightarrow> applyDelta True h m)"
      have "counts m' (\<lambda>k. held_total k (led_holds L))"
      proof (cases "map_of (led_holds L) task")
        case None
        with inv show ?thesis by (simp add: m'_def m_def ledger_inv_def)
      next
        case (Some h)
        have u: "usable h" using inv map_of_SomeD[OF Some] by (force simp: ledger_inv_def)
        have "counts m' (\<lambda>k. held_total k (omap_delete task (led_holds L)) + demand k h)"
          using apply_plus[OF m u nonneg] by (simp add: m'_def Some)
        moreover have "held_total k (led_holds L) = held_total k (omap_delete task (led_holds L)) + demand k h" for k
          using inv Some by (intro held_total_delete) (auto simp: ledger_inv_def)
        ultimately show ?thesis by simp
      qed
      then have "ledger_inv (L\<lparr>led_reserved := m'\<rparr>)" using inv by (simp add: ledger_inv_def)
      moreover have "tryReserve caps ttl t0 t1 task reqs L0 = (Shortfall (res_kind r) (res_key r) (res_amount r)
          (js_sub (the (map_of caps (counter_of r))) (Fin (of_int (live_total (counter_of r) (omap_delete task (live L)))))),
          L\<lparr>led_reserved := m'\<rparr>)"
        using usable Some short unfolding m'_def m_def by (simp add: tryReserve_def L_def[symmetric] Let_def)
      moreover have "live (L\<lparr>led_reserved := m'\<rparr>) = live L" by (simp add: live_def)
      ultimately show ?thesis using usable Some by (simp add: holds_step_def live Let_def)
    next
      case None
      define L1 where "L1 = L\<lparr>led_reserved := applyDelta True reqs m, led_holds := omap_set task reqs (led_holds L),
        led_taken := omap_set task t1 (led_taken L)\<rparr>"
      have u: "usable reqs" using usable by (simp add: usable_iff)
      have "counts (applyDelta True reqs m) (\<lambda>k. held_total k (omap_set task reqs (led_holds L)))"
        using apply_plus[OF m u nonneg] inv by (simp add: held_total_set ledger_inv_def)
      then have "ledger_inv L1"
        using inv u set_omap_set[of task reqs "led_holds L"] by (auto simp: ledger_inv_def L1_def distinct_omap_set)
      then show ?thesis using usable None short live_set[OF inv] by (simp add: defs L1_def)
    qed
  qed
qed

lemma ledger_step_refines:
  assumes inv: "ledger_inv L"
  shows "ledger_inv (snd (ledger_step caps ttl op L))
    \<and> apsnd live (ledger_step caps ttl op L) = holds_step caps ttl op (live L)"
proof -
  have counter: "counter_at (led_reserved L) k = Fin (of_int (live_total k (live L)))" if "ledger_inv L" for L k
    using that by (simp add: ledger_inv_def counts_def live_total_live)
  note e = expireLeakedHolds_inv[OF inv] live_expire[OF inv]
  show ?thesis
  proof (cases op)
    case (TryReserve t0 t1 task reqs)
    then show ?thesis using tryReserve_refines[OF inv, of caps ttl t0 t1 task reqs]
      by (cases "tryReserve caps ttl t0 t1 task reqs L") (auto simp: ledger_step_def)
  next
    case (Release task)
    then show ?thesis using drop_hold_inv[OF inv] by (simp add: ledger_step_def holds_step_def release_drop[OF inv] live_drop[OF inv])
  next
    case (ReadReserved now kind key)
    then show ?thesis using e counter[OF e(1)] by (simp add: ledger_step_def holds_step_def reserved_def Let_def)
  next
    case (ReadHolders now)
    then show ?thesis using e
      by (simp add: ledger_step_def holds_step_def holders_def Let_def flip: e(2))
  next
    case (ReadSnapshot now)
    then show ?thesis using e
      by (simp add: ledger_step_def holds_step_def snapshot_def Let_def flip: e(2))
  qed
qed

lemma empty_ledger_inv: "ledger_inv empty_ledger" "live empty_ledger = []"
  by (simp_all add: ledger_inv_def empty_ledger_def live_def counts_def counter_at_def)

lemma outputs_refine:
  "ledger_inv L \<Longrightarrow> ledger_inv (snd (outputs (ledger_step caps ttl) ops L))
    \<and> apsnd live (outputs (ledger_step caps ttl) ops L) = outputs (holds_step caps ttl) ops (live L)"
proof (induction ops arbitrary: L)
  case (Cons op ops)
  obtain x L1 where s: "ledger_step caps ttl op L = (x, L1)" by (cases "ledger_step caps ttl op L")
  from ledger_step_refines[OF Cons.prems, of caps ttl op] s
  have "ledger_inv L1" "holds_step caps ttl op (live L) = (x, live L1)" by simp_all
  with Cons.IH[of L1] s show ?case
    by (cases "outputs (ledger_step caps ttl) ops L1"; cases "outputs (holds_step caps ttl) ops (live L1)") auto
qed simp

section \<open>Capacities\<close>

text \<open>A call is plain when it names every counter at most once.\<close>

definition plain_call :: "ledger_op \<Rightarrow> bool" where
  "plain_call op \<longleftrightarrow> (case op of TryReserve t0 t1 task reqs \<Rightarrow> distinct (map counter_of reqs) | _ \<Rightarrow> True)"

definition within_caps :: "counters \<Rightarrow> live_holds \<Rightarrow> bool" where
  "within_caps caps H \<longleftrightarrow> distinct (map fst H) \<and> (\<forall>h \<in> set H. usable (fst (snd h)))
     \<and> (\<forall>k c. map_of caps k = Some c \<longrightarrow> live_total k H = 0 \<or> \<not> js_gt (Fin (of_int (live_total k H))) c)"

lemma demand_absent: "k \<notin> counter_of ` set reqs \<Longrightarrow> demand k reqs = 0"
  by (induction reqs) auto

lemma demand_plain:
  "distinct (map counter_of reqs) \<Longrightarrow> r \<in> set reqs \<Longrightarrow> demand (counter_of r) reqs = amount_int r"
  by (induction reqs) (auto simp: demand_absent image_iff)

lemma live_total_simps [simp]:
  "live_total k [] = 0" "live_total k (h # H) = demand k (fst (snd h)) + live_total k H"
  by (simp_all add: live_total_def case_prod_unfold)

lemma live_total_nonneg: "\<forall>h \<in> set H. usable (fst (snd h)) \<Longrightarrow> 0 \<le> live_total k H"
  by (induction H) (auto simp: demand_nonneg add_nonneg_nonneg)

lemma live_total_filter: "\<forall>h \<in> set H. usable (fst (snd h)) \<Longrightarrow> live_total k (filter P H) \<le> live_total k H"
  by (induction H) (auto simp: demand_nonneg add_increasing)

lemma live_total_put:
  "distinct (map fst H) \<Longrightarrow> live_total k (omap_set t (rs, a) H) = live_total k (omap_delete t H) + demand k rs"
proof (induction H)
  case (Cons h H)
  then show ?case by (cases h) (auto simp: omap_delete_absent)
qed simp

lemma smaller_fits: "\<not> js_gt (Fin (of_int n)) c \<Longrightarrow> m \<le> n \<Longrightarrow> \<not> js_gt (Fin (of_int m)) c"
  by (cases c) (auto simp: js_order_defs)

lemma within_caps_filter:
  assumes "within_caps caps H"
  shows "within_caps caps (filter P H)"
proof -
  have le: "live_total k (filter P H) \<le> live_total k H" "0 \<le> live_total k (filter P H)" for k
    using assms live_total_filter[of H k P] live_total_nonneg[of "filter P H" k] by (auto simp: within_caps_def)
  have "live_total k (filter P H) = 0 \<or> \<not> js_gt (Fin (of_int (live_total k (filter P H)))) c"
    if "map_of caps k = Some c" for k c
    using that assms le[of k] smaller_fits[OF _ le(1)[of k], of c] by (force simp: within_caps_def)
  then show ?thesis using assms by (auto simp: within_caps_def distinct_map_filter)
qed

lemma within_caps_put:
  assumes w: "within_caps caps H" and plain: "distinct (map counter_of reqs)" and u: "usable reqs"
    and fits: "find (short_of caps (omap_delete t H)) reqs = None"
  shows "within_caps caps (omap_set t (reqs, a) H)"
proof -
  let ?O = "omap_delete t H"
  have wO: "within_caps caps ?O" unfolding omap_delete_def by (rule within_caps_filter[OF w])
  have nonneg: "0 \<le> live_total k ?O" for k using wO by (intro live_total_nonneg) (simp add: within_caps_def)
  have total: "live_total k (omap_set t (reqs, a) H) = live_total k ?O + demand k reqs" for k
    using w by (intro live_total_put) (simp add: within_caps_def)
  have "live_total k (omap_set t (reqs, a) H) = 0 \<or> \<not> js_gt (Fin (of_int (live_total k (omap_set t (reqs, a) H)))) c"
    if c: "map_of caps k = Some c" for k c
  proof (cases "k \<in> counter_of ` set reqs")
    case False
    then show ?thesis using wO c by (simp add: total demand_absent within_caps_def)
  next
    case True
    then obtain r where r: "r \<in> set reqs" "k = counter_of r" by blast
    obtain n where n: "0 < n" "res_amount r = Fin (of_int n)" using u r by (auto simp: usable_def)
    have d: "demand k reqs = n" using demand_plain[OF plain r(1)] n by (simp add: r amount_int_def reserved_slots_def)
    have "\<not> js_gt (Fin (of_int n)) (js_sub c (Fin (of_int (live_total k ?O))))"
      using fits r c n by (auto simp: find_None_iff short_of_def)
    then show ?thesis unfolding total d by (cases c) (auto simp: js_order_defs js_sub_def)
  qed
  then show ?thesis
    using w u set_omap_set[of t "(reqs, a)" H] by (auto simp: within_caps_def distinct_omap_set)
qed

lemma holds_step_within:
  assumes "within_caps caps H" "plain_call op"
  shows "within_caps caps (snd (holds_step caps ttl op H))"
proof -
  have u: "within_caps caps (unexpired ttl now H)" for now
    unfolding unexpired_def by (rule within_caps_filter[OF assms(1)])
  have d: "within_caps caps (omap_delete t H)" for t unfolding omap_delete_def by (rule within_caps_filter[OF assms(1)])
  show ?thesis
    using assms(2) u d
    by (auto simp: holds_step_def plain_call_def Let_def usable_iff intro!: within_caps_put
        split: ledger_op.splits option.splits)
qed

lemma outputs_fold: "snd (outputs step ops s) = fold (\<lambda>op s. snd (step op s)) ops s"
  by (induction ops arbitrary: s) (simp_all add: case_prod_unfold)

interpretation live_runs: invariant_system "\<lambda>op H. snd (holds_step caps ttl op H)" "\<lambda>op H. plain_call op" "within_caps caps"
  for caps ttl by unfold_locales (rule holds_step_within)

lemma run_within_caps:
  "list_all plain_call ops \<Longrightarrow> within_caps caps (snd (outputs (holds_step caps ttl) ops []))"
  unfolding outputs_fold by (rule live_runs.fold_inv) (auto simp: list_all_iff within_caps_def)

section \<open>The pools the planner sees\<close>

lemma unexpired_twice [simp]: "unexpired ttl now (unexpired ttl now H) = unexpired ttl now H"
  by (simp add: unexpired_def)

lemma reservationAwarePools_live:
  "ledger_inv L \<Longrightarrow> fst (reservationAwarePools ttl now ps L)
     = map (\<lambda>p. p\<lparr>inUse := inUse p + live_total (counterKey EndpointSlot (poolKey p)) (unexpired ttl now (live L))\<rparr>) ps"
proof (induction ps arbitrary: L)
  case (Cons p ps)
  note e = expireLeakedHolds_inv[OF Cons.prems, of ttl now] live_expire[OF Cons.prems, of ttl now]
  have "counter_at (led_reserved (expireLeakedHolds ttl now L)) k
      = Fin (of_int (live_total k (unexpired ttl now (live L))))" for k
    using e(1) unfolding e(2)[symmetric] by (simp add: ledger_inv_def counts_def live_total_live)
  with Cons.IH[OF e(1)] show ?case
    by (simp add: reserved_def Let_def e(2) reserved_slots_def case_prod_unfold)
qed simp

end
