(* ===== verification/ReservationProperties.thy ===== *)
theory ReservationProperties
  imports Reservations
begin

text \<open>
  Properties of the dispatch reservations: the ledger is a cache of the live holds, a capacity is never
  exceeded by plain calls, and the admission planner sees what is reserved.
\<close>

text \<open>
  C28. The ledger refines the list of live holds: over any sequence of calls with any clock readings, every
  answer (granted or refused with the shortfall, the amount reserved, the holders, the snapshot) is the one
  computed from the holds that are neither released nor expired, a repeated reservation replacing the
  former one and a refused one changing nothing. So a counter never drifts and a leaked hold counts until
  it expires and no longer.
\<close>

theorem ledger_refines_holds:
  "fst (outputs (ledger_step caps ttl) ops empty_ledger) = fst (outputs (holds_step caps ttl) ops [])"
  using outputs_refine[of empty_ledger caps ttl ops] empty_ledger_inv
  by (cases "outputs (ledger_step caps ttl) ops empty_ledger"; cases "outputs (holds_step caps ttl) ops []") simp

text \<open>
  No counter is reserved beyond its declared capacity, whatever is reserved, re-reserved, released or
  expired in whatever order, as long as each call names a counter at most once.
\<close>

theorem capacity_never_exceeded:
  assumes "list_all plain_call ops" and "map_of (capacity_by_counter caps) k = Some c"
  shows "\<not> (counter_at (led_reserved (snd (outputs (ledger_step (capacity_by_counter caps) ttl) ops empty_ledger))) k \<noteq> Fin 0
    \<and> js_gt (counter_at (led_reserved (snd (outputs (ledger_step (capacity_by_counter caps) ttl) ops empty_ledger))) k) c)"
proof -
  let ?L = "snd (outputs (ledger_step (capacity_by_counter caps) ttl) ops empty_ledger)"
  let ?out = "outputs (holds_step (capacity_by_counter caps) ttl) ops []"
  have "ledger_inv ?L" "live ?L = snd ?out"
    using outputs_refine[of empty_ledger "capacity_by_counter caps" ttl ops] empty_ledger_inv
    by (cases "outputs (ledger_step (capacity_by_counter caps) ttl) ops empty_ledger"; cases ?out; simp)+
  then have "counter_at (led_reserved ?L) k = Fin (of_int (live_total k (snd ?out)))"
    by (metis counts_def ledger_inv_def live_total_live)
  with run_within_caps[OF assms(1), of "capacity_by_counter caps" ttl] assms(2) show ?thesis
    by (auto simp: within_caps_def)
qed

definition slot_request :: "int \<Rightarrow> reservation_request" where
  "slot_request n = \<lparr>res_kind = EndpointSlot, res_key = ''p'', res_amount = Fin (of_int n)\<rparr>"

definition two_slots :: "reservation_capacity list" where
  "two_slots = [\<lparr>cap_kind = EndpointSlot, cap_key = ''p'', cap_capacity = Fin 2\<rparr>]"

definition busy_calls :: "ledger_op list" where
  "busy_calls = [TryReserve (Fin 0) (Fin 0) ''a'' [slot_request 1], TryReserve (Fin 1) (Fin 1) ''b'' [slot_request 2],
     TryReserve (Fin 2) (Fin 2) ''b'' [slot_request 1], Release ''a'']"

theorem capacity_never_exceeded_witness:
  "\<not> (counter_at (led_reserved (snd (outputs (ledger_step (capacity_by_counter two_slots) (Fin 100)) busy_calls empty_ledger)))
      (counterKey EndpointSlot ''p'') \<noteq> Fin 0
    \<and> js_gt (counter_at (led_reserved (snd (outputs (ledger_step (capacity_by_counter two_slots) (Fin 100)) busy_calls
        empty_ledger))) (counterKey EndpointSlot ''p'')) (Fin 2))"
  by (rule capacity_never_exceeded)
     (simp_all add: busy_calls_def plain_call_def two_slots_def capacity_by_counter_def omap_of_def)

text \<open>
  A call that names a counter twice is checked one request at a time against the ledger before the call, so
  the two together may exceed the capacity.
\<close>

lemma repeated_counter_overbooks:
  "tryReserve (capacity_by_counter two_slots) (Fin 100) (Fin 0) (Fin 0) ''a'' [slot_request 2, slot_request 2] empty_ledger
     = (Reserved, \<lparr>led_holds = [(''a'', [slot_request 2, slot_request 2])],
          led_reserved = [(counterKey EndpointSlot ''p'', Fin 4)], led_taken = [(''a'', Fin 0)]\<rparr>)"
  by code_simp

text \<open>
  C29. The admission planner never plans a dispatch into a slot that an earlier dispatch has reserved: of
  every pool it admits as many candidates as the capacity leaves after the sessions in use and the live
  endpoint reservations, or all that ask when there are fewer.
\<close>

theorem admission_sees_reservations:
  assumes "distinct (map poolKey pools)" and "p \<in> set pools"
  shows "\<exists>adm. adm_readyOrder (planDurableAdmission cands
        (fst (reservationAwarePools ttl now pools (snd (outputs (ledger_step caps ttl) ops empty_ledger)))) now bound)
      = map cand_jobId adm \<and> set adm \<subseteq> set cands
    \<and> int (in_pool (poolKey p) adm) = min (max 0 (capacity p - inUse p
         - live_total (counterKey EndpointSlot (poolKey p))
             (unexpired ttl now (snd (outputs (holds_step caps ttl) ops [])))))
        (int (in_pool (poolKey p) cands))"
proof -
  let ?L = "snd (outputs (ledger_step caps ttl) ops empty_ledger)"
  let ?f = "\<lambda>p. p\<lparr>inUse := inUse p + live_total (counterKey EndpointSlot (poolKey p)) (unexpired ttl now (live ?L))\<rparr>"
  have inv: "ledger_inv ?L" and live: "live ?L = snd (outputs (holds_step caps ttl) ops [])"
    using outputs_refine[of empty_ledger caps ttl ops] empty_ledger_inv
    by (cases "outputs (ledger_step caps ttl) ops empty_ledger"; cases "outputs (holds_step caps ttl) ops []"; simp)+
  have pools: "fst (reservationAwarePools ttl now pools ?L) = map ?f pools"
    by (rule reservationAwarePools_live[OF inv])
  have "map_of (free_by_pool (map ?f pools)) (poolKey p) = Some (max 0 (capacity (?f p) - inUse (?f p)))"
    using assms unfolding free_by_pool_def by (subst omap_of_distinct) (auto simp: comp_def intro!: map_of_is_SomeI)
  with planDurableAdmission_admits[of cands "map ?f pools" now bound] show ?thesis
    unfolding pools by (auto simp: live algebra_simps)
qed

definition one_pool :: "admission_pool list" where
  "one_pool = [\<lparr>poolKey = ''p'', capacity = 3, inUse = 1\<rparr>]"

definition two_candidates :: "admission_candidate list" where
  "two_candidates = [\<lparr>cand_jobId = ''x'', cand_pool = Some ''p'', readySinceMs = Fin 0\<rparr>,
     \<lparr>cand_jobId = ''y'', cand_pool = Some ''p'', readySinceMs = Fin 0\<rparr>]"

theorem admission_sees_reservations_witness:
  "\<exists>adm. adm_readyOrder (planDurableAdmission two_candidates (fst (reservationAwarePools (Fin 100) (Fin 5) one_pool
        (snd (outputs (ledger_step [] (Fin 100)) busy_calls empty_ledger)))) (Fin 5) None) = map cand_jobId adm
    \<and> set adm \<subseteq> set two_candidates
    \<and> int (in_pool ''p'' adm) = min (max 0 (3 - 1 - live_total (counterKey EndpointSlot ''p'')
        (unexpired (Fin 100) (Fin 5) (snd (outputs (holds_step [] (Fin 100)) busy_calls [])))))
        (int (in_pool ''p'' two_candidates))"
  using admission_sees_reservations[of one_pool "hd one_pool"] by (simp add: one_pool_def)

end
