(* ===== verification/ModelBehavior.thy ===== *)
theory ModelBehavior
  imports TextParts JsNumber
begin

text \<open>
  What is learned of a model from the outcomes of its attempts (\<^verbatim>\<open>src/core/model-behavior-profile.ts\<close>) and the
  order in which the wire protocols of its server are tried (\<^verbatim>\<open>src/core/local-model-endpoint-strategy.ts\<close>).
  The averages are exact rationals. The keys of the count tables are names, no array indices, so a table lists
  them in the order of their insertion.
\<close>

section \<open>Outcomes and profiles\<close>

datatype model_outcome_kind =
    SuccessOutcome | NoToolCall | Narrated | LoopOutcome | TimeoutOutcome | Malformed | AbortedOutcome | OtherFailure

fun outcome_str :: "model_outcome_kind \<Rightarrow> string" where
  "outcome_str SuccessOutcome = ''success''"
| "outcome_str NoToolCall = ''no_tool_call''"
| "outcome_str Narrated = ''narrated''"
| "outcome_str LoopOutcome = ''loop''"
| "outcome_str TimeoutOutcome = ''timeout''"
| "outcome_str Malformed = ''malformed''"
| "outcome_str AbortedOutcome = ''aborted''"
| "outcome_str OtherFailure = ''other_failure''"

definition MODEL_FAILURE_KINDS :: "model_outcome_kind list" where
  "MODEL_FAILURE_KINDS = [NoToolCall, Narrated, LoopOutcome, TimeoutOutcome, Malformed, AbortedOutcome, OtherFailure]"

record attempt_outcome =
  ao_kind :: model_outcome_kind
  ao_retries :: "jsnum option"
  ao_contextTokens :: "jsnum option"
  ao_qualityOk :: "bool option"
  ao_toolCallFormat :: "string option"
  ao_toolCount :: "jsnum option"
  ao_promptVariantFamily :: "string option"
  ao_winningEndpointKind :: "string option"

type_synonym name_counts = "(string, nat) omap"

record behavior_profile =
  bp_modelId :: string
  bp_samples :: nat
  bp_successes :: nat
  bp_successRate :: rat
  bp_avgRetries :: rat
  bp_failureModes :: "model_outcome_kind \<Rightarrow> nat"
  bp_formatCounts :: name_counts
  bp_variantCounts :: name_counts
  bp_endpointCounts :: name_counts
  bp_consistencySamples :: nat
  bp_consistencyEwma :: "rat option"
  bp_complexityCeiling :: "rat option"
  bp_qualityEffective :: "rat option"
  bp_qualityDegraded :: "rat option"
  bp_updatedAt :: jsnum

definition DEFAULT_ALPHA :: rat where
  "DEFAULT_ALPHA = 3 / 10"

definition emptyModelBehaviorProfile :: "string \<Rightarrow> jsnum \<Rightarrow> behavior_profile" where
  "emptyModelBehaviorProfile modelId now =
     \<lparr>bp_modelId = modelId, bp_samples = 0, bp_successes = 0, bp_successRate = 0, bp_avgRetries = 0,
      bp_failureModes = (\<lambda>k. 0), bp_formatCounts = [], bp_variantCounts = [], bp_endpointCounts = [],
      bp_consistencySamples = 0, bp_consistencyEwma = None, bp_complexityCeiling = None,
      bp_qualityEffective = None, bp_qualityDegraded = None, bp_updatedAt = now\<rparr>"

definition ewma :: "rat \<Rightarrow> rat \<Rightarrow> rat \<Rightarrow> bool \<Rightarrow> rat" where
  "ewma previous new alpha isFirst = (if isFirst then new else previous * (1 - alpha) + new * alpha)"

definition recordConsistencyAgreement :: "behavior_profile \<Rightarrow> rat \<Rightarrow> jsnum \<Rightarrow> behavior_profile" where
  "recordConsistencyAgreement p agreement now =
     p\<lparr>bp_consistencySamples := Suc (bp_consistencySamples p),
       bp_consistencyEwma := Some (ewma (case bp_consistencyEwma p of None \<Rightarrow> 0 | Some e \<Rightarrow> e)
         (max 0 (min 1 agreement)) (3 / 10) (bp_consistencySamples p = 0)),
       bp_updatedAt := now\<rparr>"

text \<open>A positive finite number, whole or not.\<close>

definition isPositiveInt :: "jsnum option \<Rightarrow> rat option" where
  "isPositiveInt v = (case v of Some (Fin q) \<Rightarrow> if q > 0 then Some q else None | _ \<Rightarrow> None)"

text \<open>Counting a name on success; an empty or missing name is not counted.\<close>

definition count_name :: "bool \<Rightarrow> string option \<Rightarrow> name_counts \<Rightarrow> name_counts" where
  "count_name success name m =
     (case name of
        None \<Rightarrow> m
      | Some s \<Rightarrow> (if success \<and> s \<noteq> [] then omap_set s (Suc (case map_of m s of None \<Rightarrow> 0 | Some n \<Rightarrow> n)) m else m))"

definition next_ceiling :: "bool \<Rightarrow> attempt_outcome \<Rightarrow> rat option \<Rightarrow> rat option" where
  "next_ceiling success o1 c =
     (case isPositiveInt (ao_toolCount o1) of
        None \<Rightarrow> c
      | Some n \<Rightarrow> (if success then Some (max (case c of None \<Rightarrow> 0 | Some x \<Rightarrow> x) n) else c))"

definition next_effective :: "attempt_outcome \<Rightarrow> rat option \<Rightarrow> rat option" where
  "next_effective o1 c =
     (case isPositiveInt (ao_contextTokens o1) of
        None \<Rightarrow> c
      | Some n \<Rightarrow> (if ao_qualityOk o1 = Some True then Some (max (case c of None \<Rightarrow> 0 | Some x \<Rightarrow> x) n) else c))"

definition next_degraded :: "attempt_outcome \<Rightarrow> rat option \<Rightarrow> rat option" where
  "next_degraded o1 c =
     (case isPositiveInt (ao_contextTokens o1) of
        None \<Rightarrow> c
      | Some n \<Rightarrow> (if ao_qualityOk o1 = Some False then Some (case c of None \<Rightarrow> n | Some x \<Rightarrow> min x n) else c))"

definition recordModelBehaviorOutcome ::
  "behavior_profile \<Rightarrow> attempt_outcome \<Rightarrow> rat option \<Rightarrow> jsnum option \<Rightarrow> behavior_profile" where
  "recordModelBehaviorOutcome p o1 alpha now =
     (let a = (case alpha of None \<Rightarrow> DEFAULT_ALPHA | Some x \<Rightarrow> x); isFirst = (bp_samples p = 0);
          success = (ao_kind o1 = SuccessOutcome);
          retries = (case isPositiveInt (ao_retries o1) of None \<Rightarrow> 0 | Some r \<Rightarrow> r)
      in \<lparr>bp_modelId = bp_modelId p, bp_samples = Suc (bp_samples p),
          bp_successes = bp_successes p + (if success then 1 else 0),
          bp_successRate = ewma (bp_successRate p) (if success then 1 else 0) a isFirst,
          bp_avgRetries = ewma (bp_avgRetries p) retries a isFirst,
          bp_failureModes = (if success then bp_failureModes p
            else (bp_failureModes p)(ao_kind o1 := Suc (bp_failureModes p (ao_kind o1)))),
          bp_formatCounts = count_name success (ao_toolCallFormat o1) (bp_formatCounts p),
          bp_variantCounts = count_name success (ao_promptVariantFamily o1) (bp_variantCounts p),
          bp_endpointCounts = count_name success (ao_winningEndpointKind o1) (bp_endpointCounts p),
          bp_consistencySamples = 0, bp_consistencyEwma = None,
          bp_complexityCeiling = next_ceiling success o1 (bp_complexityCeiling p),
          bp_qualityEffective = next_effective o1 (bp_qualityEffective p),
          bp_qualityDegraded = next_degraded o1 (bp_qualityDegraded p),
          bp_updatedAt = (case now of None \<Rightarrow> bp_updatedAt p | Some t \<Rightarrow> t)\<rparr>)"

section \<open>What is read from a profile\<close>

text \<open>The name with the largest count, the first of them on a tie; \<open>ok\<close> says which names qualify.\<close>

definition best_entry :: "('a \<Rightarrow> bool) \<Rightarrow> ('a \<times> nat) list \<Rightarrow> 'a option" where
  "best_entry ok es = fst (fold (\<lambda>(k, n) (best, most). if most < n \<and> ok k then (Some k, n) else (best, most)) es (None, 0))"

definition preferredToolCallFormat :: "behavior_profile \<Rightarrow> string option" where
  "preferredToolCallFormat p = best_entry (\<lambda>k. True) (bp_formatCounts p)"

definition preferredPromptVariantFamily :: "behavior_profile \<Rightarrow> string option" where
  "preferredPromptVariantFamily p = best_entry (\<lambda>k. True) (bp_variantCounts p)"

definition dominantFailureMode :: "behavior_profile \<Rightarrow> model_outcome_kind option" where
  "dominantFailureMode p = best_entry (\<lambda>k. True) (map (\<lambda>k. (k, bp_failureModes p k)) MODEL_FAILURE_KINDS)"

definition clamp01 :: "rat \<Rightarrow> rat" where
  "clamp01 v = max 0 (min 1 v)"

definition learnedRetryBudget :: "behavior_profile \<Rightarrow> jsnum option \<Rightarrow> jsnum option \<Rightarrow> jsnum" where
  "learnedRetryBudget p minOpt maxOpt =
     (let minBudget = (case minOpt of None \<Rightarrow> Fin 1 | Some b \<Rightarrow> b);
          maxBudget = (case maxOpt of None \<Rightarrow> Fin 6 | Some b \<Rightarrow> b)
      in if bp_samples p = 0 then minBudget
         else (let margin = js_mul (Fin (1 - clamp01 (bp_successRate p))) maxBudget;
                   budget = js_ceil (js_add (Fin (bp_avgRetries p)) margin)
               in js_max minBudget (js_min maxBudget budget)))"

definition learnedQualityEffectiveBudget :: "behavior_profile \<Rightarrow> rat option \<Rightarrow> rat option" where
  "learnedQualityEffectiveBudget p floorOpt =
     (let least = (case floorOpt of None \<Rightarrow> 32000 | Some f \<Rightarrow> f)
      in case bp_qualityDegraded p of
           Some d \<Rightarrow> Some (max least (of_int \<lfloor>d * (9 / 10)\<rfloor>))
         | None \<Rightarrow> (case bp_qualityEffective p of Some g \<Rightarrow> Some (max least g) | None \<Rightarrow> None))"

section \<open>The wire protocols of a server\<close>

datatype endpoint_kind = OpenaiEndpoint | NativeChatEndpoint | AnthropicEndpoint

fun endpoint_str :: "endpoint_kind \<Rightarrow> string" where
  "endpoint_str OpenaiEndpoint = ''openai''"
| "endpoint_str NativeChatEndpoint = ''native_v1_chat''"
| "endpoint_str AnthropicEndpoint = ''anthropic_messages''"

definition LOCAL_MODEL_ENDPOINT_LADDER :: "endpoint_kind list" where
  "LOCAL_MODEL_ENDPOINT_LADDER = [OpenaiEndpoint, NativeChatEndpoint, AnthropicEndpoint]"

definition orderEndpointStrategies :: "endpoint_kind list option \<Rightarrow> endpoint_kind option \<Rightarrow> endpoint_kind list" where
  "orderEndpointStrategies availableKinds preferred =
     (let available = (case availableKinds of None \<Rightarrow> LOCAL_MODEL_ENDPOINT_LADDER | Some ks \<Rightarrow> ks);
          canonical = filter (\<lambda>k. k \<in> set available) LOCAL_MODEL_ENDPOINT_LADDER;
          start = (case preferred of Some k \<Rightarrow> if k \<in> set available then [k] else [] | None \<Rightarrow> [])
      in fold oset_add canonical start)"

definition nextEndpointStrategy ::
  "endpoint_kind list \<Rightarrow> endpoint_kind list option \<Rightarrow> endpoint_kind option \<Rightarrow> endpoint_kind option" where
  "nextEndpointStrategy attempted availableKinds preferred =
     find (\<lambda>k. k \<notin> set attempted) (orderEndpointStrategies availableKinds preferred)"

definition preferredEndpointKind :: "behavior_profile \<Rightarrow> endpoint_kind option" where
  "preferredEndpointKind p =
     (case best_entry (\<lambda>k. k \<in> set (map endpoint_str LOCAL_MODEL_ENDPOINT_LADDER)) (bp_endpointCounts p) of
        None \<Rightarrow> None
      | Some s \<Rightarrow> find (\<lambda>k. endpoint_str k = s) LOCAL_MODEL_ENDPOINT_LADDER)"

section \<open>The log of outcomes\<close>

text \<open>
  The store (\<^verbatim>\<open>src/telemetry/model-behavior-profile-store.ts\<close>) keeps one entry per observation and folds
  the entries, oldest first, when a profile is read. The files, their parsing and the outcomes taken from
  the attempt ledger are not modelled: the entries are given, in the order they are read.
\<close>

record behavior_entry =
  be_modelId :: string
  be_recordedAt :: rat
  be_outcome :: "attempt_outcome option"
  be_agreement :: "rat option"

definition fold_entry :: "rat option \<Rightarrow> behavior_entry \<Rightarrow> behavior_profile \<Rightarrow> behavior_profile" where
  "fold_entry alpha e p =
     (let p1 = (case be_outcome e of None \<Rightarrow> p
                | Some o1 \<Rightarrow> recordModelBehaviorOutcome p o1 alpha (Some (Fin (be_recordedAt e))))
      in case be_agreement e of None \<Rightarrow> p1
         | Some a \<Rightarrow> recordConsistencyAgreement p1 a (Fin (be_recordedAt e)))"

definition oldest_first :: "behavior_entry list \<Rightarrow> behavior_entry list" where
  "oldest_first es = js_sort (\<lambda>a b. be_recordedAt a \<le> be_recordedAt b) es"

definition readModelBehaviorProfile :: "string \<Rightarrow> rat option \<Rightarrow> behavior_entry list \<Rightarrow> behavior_profile" where
  "readModelBehaviorProfile modelId alpha es =
     fold (fold_entry alpha) (filter (\<lambda>e. be_modelId e = modelId) (oldest_first es)) (emptyModelBehaviorProfile modelId (Fin 0))"

text \<open>The profile of every model; \<open>identOf\<close> is the identity under which a model is learned.\<close>

definition fold_into ::
  "(string \<Rightarrow> string) \<Rightarrow> rat option \<Rightarrow> behavior_entry \<Rightarrow> (string, behavior_profile) omap \<Rightarrow> (string, behavior_profile) omap" where
  "fold_into identOf alpha e m =
     (let k = identOf (be_modelId e);
          p = (case map_of m k of None \<Rightarrow> emptyModelBehaviorProfile k (Fin 0) | Some p \<Rightarrow> p)
      in omap_set k (fold_entry alpha e p) m)"

definition readAllModelBehaviorProfiles :: "rat option \<Rightarrow> behavior_entry list \<Rightarrow> (string, behavior_profile) omap" where
  "readAllModelBehaviorProfiles alpha es = fold (fold_into id alpha) (oldest_first es) []"

definition stable_identity :: "(string \<Rightarrow> string) \<Rightarrow> string \<Rightarrow> string" where
  "stable_identity resolve modelId = (let s = trim (resolve modelId) in if s = [] then modelId else s)"

definition readAllCombinedModelBehaviorProfiles ::
  "(string \<Rightarrow> string) \<Rightarrow> rat option \<Rightarrow> behavior_entry list \<Rightarrow> behavior_entry list \<Rightarrow> (string, behavior_profile) omap" where
  "readAllCombinedModelBehaviorProfiles resolve alpha persisted fromLedger =
     fold (fold_into (stable_identity resolve) alpha) (oldest_first (persisted @ fromLedger)) []"

section \<open>Facts\<close>

text \<open>A profile counts every attempt once, and its rates are rates.\<close>

definition profile_inv :: "behavior_profile \<Rightarrow> bool" where
  "profile_inv p \<longleftrightarrow> bp_samples p = bp_successes p + sum_list (map (bp_failureModes p) MODEL_FAILURE_KINDS)
     \<and> 0 \<le> bp_successRate p \<and> bp_successRate p \<le> 1 \<and> 0 \<le> bp_avgRetries p
     \<and> (\<forall>e. bp_consistencyEwma p = Some e \<longrightarrow> 0 \<le> e \<and> e \<le> 1)"

lemma ewma_between:
  assumes "0 \<le> a" "a \<le> 1" "lo \<le> x" "lo \<le> y"
  shows "lo \<le> ewma x y a b" and "x \<le> hi \<Longrightarrow> y \<le> hi \<Longrightarrow> ewma x y a b \<le> hi"
proof -
  have "lo * (1 - a) + lo * a \<le> x * (1 - a) + y * a" using assms by (intro add_mono mult_right_mono) auto
  then show "lo \<le> ewma x y a b" using assms by (simp add: ewma_def algebra_simps)
  assume "x \<le> hi" "y \<le> hi"
  then have "x * (1 - a) + y * a \<le> hi * (1 - a) + hi * a" using assms by (intro add_mono mult_right_mono) auto
  then show "ewma x y a b \<le> hi" using \<open>y \<le> hi\<close> by (simp add: ewma_def algebra_simps)
qed

lemma failures_total_upd:
  "k \<noteq> SuccessOutcome \<Longrightarrow>
     sum_list (map (f(k := Suc (f k))) MODEL_FAILURE_KINDS) = Suc (sum_list (map f MODEL_FAILURE_KINDS))"
  by (cases k) (simp_all add: MODEL_FAILURE_KINDS_def)

lemma isPositiveInt_pos: "isPositiveInt v = Some q \<Longrightarrow> 0 < q"
  by (auto simp: isPositiveInt_def split: option.splits jsnum.splits if_splits)

lemma recordModelBehaviorOutcome_inv:
  assumes inv: "profile_inv p" and a: "\<forall>x. alpha = Some x \<longrightarrow> 0 \<le> x \<and> x \<le> 1"
  shows "profile_inv (recordModelBehaviorOutcome p o1 alpha now)"
proof -
  let ?a = "case alpha of None \<Rightarrow> DEFAULT_ALPHA | Some x \<Rightarrow> x"
  have a1: "0 \<le> ?a" "?a \<le> 1" using a by (auto simp: DEFAULT_ALPHA_def split: option.splits)
  have "0 \<le> (case isPositiveInt (ao_retries o1) of None \<Rightarrow> 0 | Some r \<Rightarrow> r)"
    using isPositiveInt_pos[of "ao_retries o1"] by (auto simp: less_imp_le split: option.splits)
  then show ?thesis
    using inv ewma_between[OF a1] failures_total_upd[of "ao_kind o1" "bp_failureModes p"]
    by (auto simp: profile_inv_def recordModelBehaviorOutcome_def Let_def)
qed

lemma recordConsistencyAgreement_inv: "profile_inv p \<Longrightarrow> profile_inv (recordConsistencyAgreement p a now)"
  using ewma_between[of "3 / 10" 0 "case bp_consistencyEwma p of None \<Rightarrow> 0 | Some e \<Rightarrow> e" "max 0 (min 1 a)"]
    ewma_between(2)[of "3 / 10" 0 "case bp_consistencyEwma p of None \<Rightarrow> 0 | Some e \<Rightarrow> e" "max 0 (min 1 a)" 1]
  by (auto simp: profile_inv_def recordConsistencyAgreement_def split: option.splits)

lemma fold_entry_inv:
  "profile_inv p \<Longrightarrow> \<forall>x. alpha = Some x \<longrightarrow> 0 \<le> x \<and> x \<le> 1 \<Longrightarrow> profile_inv (fold_entry alpha e p)"
  by (auto simp: fold_entry_def Let_def recordModelBehaviorOutcome_inv recordConsistencyAgreement_inv split: option.splits)

lemma empty_profile_inv: "profile_inv (emptyModelBehaviorProfile m now)"
  by (simp add: profile_inv_def emptyModelBehaviorProfile_def MODEL_FAILURE_KINDS_def)

interpretation profiles: invariant_system "fold_entry alpha" "\<lambda>e p. \<forall>x. alpha = Some x \<longrightarrow> 0 \<le> x \<and> x \<le> 1" profile_inv for alpha
  by unfold_locales (rule fold_entry_inv)

text \<open>Folding all models at once is folding each model's entries.\<close>

lemma fold_into_each:
  "map_of (fold (fold_into identOf alpha) es m) k =
     (case filter (\<lambda>e. identOf (be_modelId e) = k) es of
        [] \<Rightarrow> map_of m k
      | es' \<Rightarrow> Some (fold (fold_entry alpha) es'
          (case map_of m k of None \<Rightarrow> emptyModelBehaviorProfile k (Fin 0) | Some p \<Rightarrow> p)))"
proof (induction es arbitrary: m)
  case (Cons e es)
  then show ?case by (auto simp: fold_into_def Let_def split: list.splits)
qed simp

text \<open>A profile has one sample for each outcome folded in.\<close>

lemma samples_fold:
  "bp_samples (fold (fold_entry alpha) es p) = bp_samples p + length (filter (\<lambda>e. be_outcome e \<noteq> None) es)"
  by (induction es arbitrary: p)
     (auto simp: fold_entry_def Let_def recordModelBehaviorOutcome_def recordConsistencyAgreement_def split: option.splits)

text \<open>An outcome folded in drops what was measured of the model's consistency.\<close>

lemma outcome_drops_consistency:
  "bp_consistencySamples (recordModelBehaviorOutcome p o1 alpha now) = 0
   \<and> bp_consistencyEwma (recordModelBehaviorOutcome p o1 alpha now) = None"
  by (simp add: recordModelBehaviorOutcome_def Let_def)

end
