(* ===== verification/RetryPolicy.thy ===== *)
theory RetryPolicy
  imports ModelBehavior
begin

text \<open>
  The retry ladder: which rung is tried next (\<^verbatim>\<open>src/core/retry-policy.ts\<close>), the capsules that record what
  was tried (\<^verbatim>\<open>src/core/failure-capsule.ts\<close>), the learned order of the rungs
  (\<^verbatim>\<open>src/core/strategy-effectiveness-ledger.ts\<close>) and the cursor of the chat.
\<close>

section \<open>The ladder\<close>

datatype retry_strategy =
    SameModelRetry | RaiseTokenBudget | ThinkingDisable | ReducedToolSet | ConstrainedSchema | AlternateEndpoint
  | PromptVariant | ContextShrink | BestOfN | CrossModelCarry | Decompose | ParkStrategy

definition RETRY_STRATEGIES :: "retry_strategy list" where
  "RETRY_STRATEGIES = [SameModelRetry, RaiseTokenBudget, ThinkingDisable, ReducedToolSet, ConstrainedSchema,
     AlternateEndpoint, PromptVariant, ContextShrink, BestOfN, CrossModelCarry, Decompose, ParkStrategy]"

fun strategy_str :: "retry_strategy \<Rightarrow> string" where
  "strategy_str SameModelRetry = ''same_model_retry''"
| "strategy_str RaiseTokenBudget = ''raise_token_budget''"
| "strategy_str ThinkingDisable = ''thinking_disable''"
| "strategy_str ReducedToolSet = ''reduced_tool_set''"
| "strategy_str ConstrainedSchema = ''constrained_schema''"
| "strategy_str AlternateEndpoint = ''alternate_endpoint''"
| "strategy_str PromptVariant = ''prompt_variant''"
| "strategy_str ContextShrink = ''context_shrink''"
| "strategy_str BestOfN = ''best_of_n''"
| "strategy_str CrossModelCarry = ''cross_model_carry''"
| "strategy_str Decompose = ''decompose''"
| "strategy_str ParkStrategy = ''park''"

fun retryLadderForOutcome :: "model_outcome_kind \<Rightarrow> retry_strategy list" where
  "retryLadderForOutcome SuccessOutcome = []"
| "retryLadderForOutcome NoToolCall =
     [RaiseTokenBudget, ThinkingDisable, ReducedToolSet, PromptVariant, ConstrainedSchema, AlternateEndpoint, CrossModelCarry]"
| "retryLadderForOutcome Narrated = [ConstrainedSchema, AlternateEndpoint, SameModelRetry, CrossModelCarry]"
| "retryLadderForOutcome LoopOutcome = [SameModelRetry, ContextShrink, CrossModelCarry]"
| "retryLadderForOutcome TimeoutOutcome = [ContextShrink, ReducedToolSet, Decompose, CrossModelCarry]"
| "retryLadderForOutcome AbortedOutcome =
     [RaiseTokenBudget, ThinkingDisable, SameModelRetry, AlternateEndpoint, ContextShrink, CrossModelCarry]"
| "retryLadderForOutcome Malformed = [ConstrainedSchema, PromptVariant, BestOfN, AlternateEndpoint, CrossModelCarry]"
| "retryLadderForOutcome OtherFailure = [SameModelRetry, BestOfN, AlternateEndpoint, CrossModelCarry, Decompose]"

record retry_input =
  ri_lastOutcome :: model_outcome_kind
  ri_attemptsSoFar :: nat
  ri_retryBudget :: jsnum
  ri_tried :: "retry_strategy list"
  ri_thinking :: "bool option"
  ri_available :: "retry_strategy list option"
  ri_ordered :: "retry_strategy list option"

record retry_decision =
  rd_strategy :: retry_strategy
  rd_reason :: string

text \<open>A number in a message; the ones written here are whole or not finite.\<close>

fun js_num_str :: "jsnum \<Rightarrow> string" where
  "js_num_str (Fin q) = int_str \<lfloor>q\<rfloor>"
| "js_num_str PosInf = ''Infinity''"
| "js_num_str NegInf = ''-Infinity''"
| "js_num_str NaN = ''NaN''"

definition effective_budget :: "jsnum \<Rightarrow> jsnum" where
  "effective_budget b = js_max (Fin 1) (js_trunc b)"

text \<open>The rungs in the order they are considered: a learned order first, restricted to the curated rungs.\<close>

definition considered :: "retry_input \<Rightarrow> retry_strategy list" where
  "considered i =
     (let curated = retryLadderForOutcome (ri_lastOutcome i) in
      oset_of (case ri_ordered i of
        None \<Rightarrow> curated
      | Some l \<Rightarrow> filter (\<lambda>s. s \<in> set curated) l @ filter (\<lambda>s. s \<notin> set l) curated))"

definition triable :: "retry_input \<Rightarrow> retry_strategy \<Rightarrow> bool" where
  "triable i s \<longleftrightarrow> (case ri_available i of None \<Rightarrow> True | Some av \<Rightarrow> s \<in> set av)
     \<and> (s = ThinkingDisable \<longrightarrow> ri_thinking i = Some True) \<and> s \<notin> set (ri_tried i)"

definition decideNextRetryStrategy :: "retry_input \<Rightarrow> retry_decision" where
  "decideNextRetryStrategy i =
     (if ri_lastOutcome i = SuccessOutcome
      then \<lparr>rd_strategy = ParkStrategy, rd_reason = dashed ''Last attempt succeeded'' ''no retry needed.''\<rparr>
      else (let budget = effective_budget (ri_retryBudget i); n = ri_attemptsSoFar i in
        if js_ge (js_of_nat n) budget
        then \<lparr>rd_strategy = ParkStrategy, rd_reason = dashed (''Learned retry budget ('' @ js_num_str budget
                @ '') exhausted after '' @ nat_str n @ '' attempt(s)'') ''escalate.''\<rparr>
        else (case find (triable i) (considered i) of
            Some s \<Rightarrow> \<lparr>rd_strategy = s, rd_reason = ''Next ladder rung for a '' @ quote_str (outcome_str (ri_lastOutcome i))
                @ '' outcome (attempt '' @ nat_str (Suc n) @ ''/'' @ js_num_str budget @ '').''\<rparr>
          | None \<Rightarrow> \<lparr>rd_strategy = ParkStrategy, rd_reason = dashed (''No untried ladder rung remains for a ''
                @ quote_str (outcome_str (ri_lastOutcome i)) @ '' outcome'') ''escalate.''\<rparr>)))"

section \<open>The cursor\<close>

record retry_cursor =
  rc_outcome :: model_outcome_kind
  rc_availableRungs :: "retry_strategy list"
  rc_thinkingControl :: "bool option"
  rc_budget :: jsnum
  rc_tried :: "retry_strategy list"

definition createRetryStrategyCursor ::
  "model_outcome_kind \<Rightarrow> retry_strategy list \<Rightarrow> bool option \<Rightarrow> jsnum option \<Rightarrow> retry_cursor" where
  "createRetryStrategyCursor out1 av thinking budget =
     \<lparr>rc_outcome = out1, rc_availableRungs = av, rc_thinkingControl = thinking,
      rc_budget = (case budget of None \<Rightarrow> js_max (Fin 1) (js_of_nat (length av)) | Some b \<Rightarrow> b), rc_tried = []\<rparr>"

definition claim :: "retry_strategy \<Rightarrow> retry_cursor \<Rightarrow> bool \<times> retry_cursor" where
  "claim s c =
     (let d = decideNextRetryStrategy \<lparr>ri_lastOutcome = rc_outcome c, ri_attemptsSoFar = length (rc_tried c),
                ri_retryBudget = rc_budget c, ri_tried = rc_tried c, ri_thinking = rc_thinkingControl c,
                ri_available = Some (rc_availableRungs c), ri_ordered = None\<rparr>
      in if rd_strategy d \<noteq> s then (False, c) else (True, c\<lparr>rc_tried := rc_tried c @ [s]\<rparr>))"

definition recordCoalesced :: "retry_strategy \<Rightarrow> retry_cursor \<Rightarrow> retry_cursor" where
  "recordCoalesced s c =
     (if s \<in> set (rc_availableRungs c) \<and> s \<notin> set (rc_tried c) then c\<lparr>rc_tried := rc_tried c @ [s]\<rparr> else c)"

section \<open>Capsules\<close>

record failure_capsule =
  fc_strategy :: retry_strategy
  fc_outcome :: model_outcome_kind
  fc_evidence :: string
  fc_whyFailed :: string

fun defaultWhyFailed :: "model_outcome_kind \<Rightarrow> string" where
  "defaultWhyFailed NoToolCall = ''the model emitted no tool call''"
| "defaultWhyFailed Narrated = ''the model narrated the call as prose instead of emitting it''"
| "defaultWhyFailed LoopOutcome = ''the model looped without progressing''"
| "defaultWhyFailed TimeoutOutcome = ''the attempt exceeded its time/horizon budget''"
| "defaultWhyFailed AbortedOutcome = ''the attempt was aborted before producing output''"
| "defaultWhyFailed Malformed = ''the model produced malformed tool arguments/output''"
| "defaultWhyFailed SuccessOutcome = ''succeeded''"
| "defaultWhyFailed OtherFailure = ''the attempt did not produce the intended effect''"

text \<open>\<^verbatim>\<open>x?.trim() || d\<close>\<close>

definition trimmed_or :: "string \<Rightarrow> string option \<Rightarrow> string" where
  "trimmed_or d v = (case v of None \<Rightarrow> d | Some s \<Rightarrow> if trim s = [] then d else trim s)"

definition buildFailureCapsule ::
  "retry_strategy \<Rightarrow> model_outcome_kind \<Rightarrow> string option \<Rightarrow> string option \<Rightarrow> failure_capsule" where
  "buildFailureCapsule s out1 evidence why =
     \<lparr>fc_strategy = s, fc_outcome = out1, fc_evidence = trimmed_or ''(no evidence captured)'' evidence,
      fc_whyFailed = trimmed_or (defaultWhyFailed out1) why\<rparr>"

definition capsule_line :: "nat \<Rightarrow> failure_capsule \<Rightarrow> string" where
  "capsule_line i c = nat_str (Suc i) @ ''. tried '' @ strategy_str (fc_strategy c) @ '' -> '' @ outcome_str (fc_outcome c)
     @ '' ('' @ fc_whyFailed c @ ''); evidence: '' @ fc_evidence c"

definition summarizeFailureCapsules :: "failure_capsule list \<Rightarrow> string" where
  "summarizeFailureCapsules cs =
     (if cs = [] then []
      else dashed ''Already attempted this task (do NOT repeat these'' ''try something different):'' @ [CHR 10]
        @ join_with [CHR 10] (map2 capsule_line [0..<length cs] cs))"

definition untriedStrategies :: "failure_capsule list \<Rightarrow> retry_strategy list \<Rightarrow> retry_strategy list" where
  "untriedStrategies cs ladder = filter (\<lambda>s. s \<notin> fc_strategy ` set cs) ladder"

section \<open>The plan of the next attempt\<close>

record attempt_plan =
  ap_strategy :: retry_strategy
  ap_parked :: bool
  ap_retryBudget :: jsnum
  ap_attemptsSoFar :: nat
  ap_note :: string
  ap_reason :: string

record plan_input =
  pi_lastOutcome :: model_outcome_kind
  pi_attemptsSoFar :: nat
  pi_profile :: behavior_profile
  pi_capsules :: "failure_capsule list"
  pi_thinking :: "bool option"
  pi_available :: "retry_strategy list option"
  pi_ordered :: "retry_strategy list option"
  pi_minBudget :: "jsnum option"
  pi_maxBudget :: "jsnum option"

definition planNextAttempt :: "plan_input \<Rightarrow> attempt_plan" where
  "planNextAttempt p =
     (let budget = learnedRetryBudget (pi_profile p) (pi_minBudget p) (pi_maxBudget p);
          d = decideNextRetryStrategy \<lparr>ri_lastOutcome = pi_lastOutcome p, ri_attemptsSoFar = pi_attemptsSoFar p,
                ri_retryBudget = budget, ri_tried = map fc_strategy (pi_capsules p), ri_thinking = pi_thinking p,
                ri_available = pi_available p, ri_ordered = pi_ordered p\<rparr>
      in \<lparr>ap_strategy = rd_strategy d, ap_parked = (rd_strategy d = ParkStrategy), ap_retryBudget = budget,
          ap_attemptsSoFar = pi_attemptsSoFar p, ap_note = summarizeFailureCapsules (pi_capsules p), ap_reason = rd_reason d\<rparr>)"

text \<open>\<^verbatim>\<open>2 ** n\<close> of a positive number that is whole or infinite.\<close>

fun js_pow2 :: "jsnum \<Rightarrow> jsnum" where
  "js_pow2 (Fin q) = Fin (2 ^ nat \<lfloor>q\<rfloor>)"
| "js_pow2 PosInf = PosInf"
| "js_pow2 NegInf = Fin 0"
| "js_pow2 NaN = NaN"

definition raisedTokenBudget :: "jsnum \<Rightarrow> jsnum \<Rightarrow> jsnum option \<Rightarrow> jsnum" where
  "raisedTokenBudget current attempt ceil1 =
     (let base = js_max (Fin 1) (js_trunc current);
          n = js_max (Fin 1) (js_trunc attempt);
          raised = js_mul base (js_pow2 (js_min n (Fin 10)));
          limit = (case ceil1 of None \<Rightarrow> PosInf | Some c \<Rightarrow> js_max base (js_trunc c))
      in js_min raised limit)"

section \<open>Facts\<close>

lemma distinct_ladder [simp]: "distinct (retryLadderForOutcome out1)"
  by (cases out1) simp_all

lemma ladder_no_park [simp]: "ParkStrategy \<notin> set (retryLadderForOutcome out1)"
  by (cases out1) simp_all

text \<open>A learned order neither adds nor drops a rung.\<close>

lemma set_considered: "set (considered i) = set (retryLadderForOutcome (ri_lastOutcome i))"
  by (auto simp: considered_def Let_def split: option.splits)

lemma considered_order:
  "ri_ordered i = None \<Longrightarrow> considered i = retryLadderForOutcome (ri_lastOutcome i)"
  by (cases "ri_lastOutcome i") (simp_all add: considered_def oset_of_def oset_add_def)

lemma decide_not_park:
  assumes "rd_strategy (decideNextRetryStrategy i) = s" "s \<noteq> ParkStrategy"
  shows "s \<in> set (retryLadderForOutcome (ri_lastOutcome i)) \<and> triable i s
    \<and> \<not> js_ge (js_of_nat (ri_attemptsSoFar i)) (effective_budget (ri_retryBudget i)) \<and> ri_lastOutcome i \<noteq> SuccessOutcome"
proof -
  have "find (triable i) (considered i) = Some s" "ri_lastOutcome i \<noteq> SuccessOutcome"
    "\<not> js_ge (js_of_nat (ri_attemptsSoFar i)) (effective_budget (ri_retryBudget i))"
    using assms by (auto simp: decideNextRetryStrategy_def Let_def split: option.splits if_splits)
  then show ?thesis using set_considered[of i] by (auto dest: find_hit)
qed

lemma decide_park_iff:
  "rd_strategy (decideNextRetryStrategy i) = ParkStrategy \<longleftrightarrow>
     js_ge (js_of_nat (ri_attemptsSoFar i)) (effective_budget (ri_retryBudget i))
     \<or> (\<forall>s \<in> set (retryLadderForOutcome (ri_lastOutcome i)). \<not> triable i s)"
proof -
  have "s \<noteq> ParkStrategy \<and> triable i s \<and> s \<in> set (retryLadderForOutcome (ri_lastOutcome i))"
    if "find (triable i) (considered i) = Some s" for s
    using that find_hit[OF that] set_considered[of i] ladder_no_park by metis
  then show ?thesis
    by (auto simp: decideNextRetryStrategy_def Let_def find_None_iff set_considered split: option.splits)
qed

text \<open>A cursor never grants a rung twice, and grants no more rungs than its budget.\<close>

definition cursor_inv :: "retry_cursor \<Rightarrow> bool" where
  "cursor_inv c \<longleftrightarrow> distinct (filter (\<lambda>s. s \<noteq> ParkStrategy) (rc_tried c))
     \<and> set (rc_tried c) \<subseteq> insert ParkStrategy (set (rc_availableRungs c))"

lemma claim_granted:
  assumes "claim s c = (True, c1)" "s \<noteq> ParkStrategy"
  shows "s \<in> set (rc_availableRungs c) \<and> s \<notin> set (rc_tried c) \<and> s \<in> set (retryLadderForOutcome (rc_outcome c))
    \<and> \<not> js_ge (js_of_nat (length (rc_tried c))) (effective_budget (rc_budget c))"
proof -
  let ?i = "\<lparr>ri_lastOutcome = rc_outcome c, ri_attemptsSoFar = length (rc_tried c), ri_retryBudget = rc_budget c,
    ri_tried = rc_tried c, ri_thinking = rc_thinkingControl c, ri_available = Some (rc_availableRungs c), ri_ordered = None\<rparr>"
  have "rd_strategy (decideNextRetryStrategy ?i) = s" using assms(1) by (auto simp: claim_def Let_def split: if_splits)
  from decide_not_park[OF this assms(2)] show ?thesis by (simp add: triable_def)
qed

lemma claim_inv: "cursor_inv c \<Longrightarrow> cursor_inv (snd (claim s c))"
  using claim_granted[of s c "snd (claim s c)"]
  by (cases "s = ParkStrategy") (auto simp: cursor_inv_def claim_def Let_def split: if_splits)

lemma recordCoalesced_inv: "cursor_inv c \<Longrightarrow> cursor_inv (recordCoalesced s c)"
  by (auto simp: cursor_inv_def recordCoalesced_def)

end
