(* ===== verification/StrategyLedger.thy ===== *)
theory StrategyLedger
  imports RetryPolicy
begin

text \<open>
  Which rung of the retry ladder has recovered a model, and the order learned from it
  (\<^verbatim>\<open>src/core/strategy-effectiveness-ledger.ts\<close>). Rates and costs are exact rationals.
\<close>

record strategy_cell =
  sc_outcome :: model_outcome_kind
  sc_strategy :: retry_strategy
  sc_attempts :: nat
  sc_successes :: nat
  sc_durationSamples :: nat
  sc_totalDurationMs :: rat
  sc_tokenSamples :: nat
  sc_totalTokens :: rat

record strategy_ledger =
  sl_modelId :: string
  sl_taskKind :: string
  sl_cells :: "(string, strategy_cell) omap"
  sl_updatedAt :: jsnum

record strategy_observation =
  so_outcome :: model_outcome_kind
  so_strategy :: retry_strategy
  so_recovered :: bool
  so_durationMs :: "jsnum option"
  so_totalTokens :: "jsnum option"

definition isLearnableStrategy :: "retry_strategy \<Rightarrow> bool" where
  "isLearnableStrategy s \<longleftrightarrow> s \<noteq> CrossModelCarry \<and> s \<noteq> Decompose \<and> s \<noteq> ParkStrategy"

definition cellKey :: "model_outcome_kind \<Rightarrow> retry_strategy \<Rightarrow> string" where
  "cellKey out1 s = outcome_str out1 @ ''::'' @ strategy_str s"

definition emptyStrategyEffectivenessLedger :: "string \<Rightarrow> jsnum \<Rightarrow> string \<Rightarrow> strategy_ledger" where
  "emptyStrategyEffectivenessLedger modelId now kind =
     \<lparr>sl_modelId = modelId, sl_taskKind = kind, sl_cells = [], sl_updatedAt = now\<rparr>"

definition finiteNonNegative :: "jsnum option \<Rightarrow> rat option" where
  "finiteNonNegative v = (case v of Some (Fin q) \<Rightarrow> if q \<ge> 0 then Some q else None | _ \<Rightarrow> None)"

definition empty_cell :: "model_outcome_kind \<Rightarrow> retry_strategy \<Rightarrow> strategy_cell" where
  "empty_cell out1 s = \<lparr>sc_outcome = out1, sc_strategy = s, sc_attempts = 0, sc_successes = 0, sc_durationSamples = 0,
     sc_totalDurationMs = 0, sc_tokenSamples = 0, sc_totalTokens = 0\<rparr>"

definition sampled :: "rat option \<Rightarrow> nat" where
  "sampled v = (case v of None \<Rightarrow> 0 | Some q \<Rightarrow> 1)"

definition or_zero :: "rat option \<Rightarrow> rat" where
  "or_zero v = (case v of None \<Rightarrow> 0 | Some q \<Rightarrow> q)"

definition recordStrategyOutcome :: "strategy_ledger \<Rightarrow> strategy_observation \<Rightarrow> jsnum option \<Rightarrow> strategy_ledger" where
  "recordStrategyOutcome l ob now =
     (let t = (case now of None \<Rightarrow> sl_updatedAt l | Some t \<Rightarrow> t) in
      if \<not> isLearnableStrategy (so_strategy ob) \<or> so_outcome ob = SuccessOutcome then l\<lparr>sl_updatedAt := t\<rparr>
      else (let key = cellKey (so_outcome ob) (so_strategy ob);
                prior = (case map_of (sl_cells l) key of None \<Rightarrow> empty_cell (so_outcome ob) (so_strategy ob) | Some c \<Rightarrow> c);
                d = finiteNonNegative (so_durationMs ob); k = finiteNonNegative (so_totalTokens ob)
            in l\<lparr>sl_cells := omap_set key
                   \<lparr>sc_outcome = so_outcome ob, sc_strategy = so_strategy ob, sc_attempts = Suc (sc_attempts prior),
                    sc_successes = sc_successes prior + (if so_recovered ob then 1 else 0),
                    sc_durationSamples = sc_durationSamples prior + sampled d,
                    sc_totalDurationMs = sc_totalDurationMs prior + or_zero d,
                    sc_tokenSamples = sc_tokenSamples prior + sampled k,
                    sc_totalTokens = sc_totalTokens prior + or_zero k\<rparr> (sl_cells l),
                 sl_updatedAt := t\<rparr>))"

record order_options =
  oo_priorSuccesses :: "rat option"
  oo_priorFailures :: "rat option"
  oo_reorderMargin :: "rat option"
  oo_minObservations :: "rat option"
  oo_costMargin :: "rat option"

definition default_order :: order_options where
  "default_order = \<lparr>oo_priorSuccesses = None, oo_priorFailures = None, oo_reorderMargin = None,
     oo_minObservations = None, oo_costMargin = None\<rparr>"

definition or_else :: "'a \<Rightarrow> 'a option \<Rightarrow> 'a" where
  "or_else d v = (case v of None \<Rightarrow> d | Some x \<Rightarrow> x)"

definition strategyEffectiveness ::
  "strategy_ledger \<Rightarrow> model_outcome_kind \<Rightarrow> retry_strategy \<Rightarrow> order_options \<Rightarrow> rat" where
  "strategyEffectiveness l out1 s opts =
     (let ps = max 0 (or_else 1 (oo_priorSuccesses opts)); pf = max 0 (or_else 1 (oo_priorFailures opts));
          c = map_of (sl_cells l) (cellKey out1 s);
          successes = (case c of None \<Rightarrow> 0 | Some x \<Rightarrow> of_nat (sc_successes x));
          attempts = (case c of None \<Rightarrow> 0 | Some x \<Rightarrow> of_nat (sc_attempts x));
          denominator = attempts + ps + pf
      in if denominator \<le> 0 then 1 / 2 else (successes + ps) / denominator)"

definition strategyObservationCount :: "strategy_ledger \<Rightarrow> model_outcome_kind \<Rightarrow> retry_strategy \<Rightarrow> nat" where
  "strategyObservationCount l out1 s = (case map_of (sl_cells l) (cellKey out1 s) of None \<Rightarrow> 0 | Some c \<Rightarrow> sc_attempts c)"

definition strategyAverageCost :: "strategy_ledger \<Rightarrow> model_outcome_kind \<Rightarrow> retry_strategy \<Rightarrow> rat option \<times> rat option" where
  "strategyAverageCost l out1 s =
     (case map_of (sl_cells l) (cellKey out1 s) of
        None \<Rightarrow> (None, None)
      | Some c \<Rightarrow> (if sc_durationSamples c > 0 then Some (sc_totalDurationMs c / of_nat (sc_durationSamples c)) else None,
                   if sc_tokenSamples c > 0 then Some (sc_totalTokens c / of_nat (sc_tokenSamples c)) else None))"

definition compareCost :: "rat option \<Rightarrow> rat option \<Rightarrow> rat \<Rightarrow> rat" where
  "compareCost left right margin =
     (case (left, right) of
        (Some a, Some b) \<Rightarrow>
          (if a = b then 0
           else if \<bar>a - b\<bar> / max (max a b) 1 < margin then 0 else a - b)
      | _ \<Rightarrow> 0)"

definition trusted :: "strategy_ledger \<Rightarrow> model_outcome_kind \<Rightarrow> order_options \<Rightarrow> retry_strategy \<Rightarrow> bool" where
  "trusted l out1 opts s \<longleftrightarrow>
     max 1 (rat_trunc (or_else 4 (oo_minObservations opts))) \<le> int (strategyObservationCount l out1 s)"

definition trusted_rate :: "strategy_ledger \<Rightarrow> model_outcome_kind \<Rightarrow> order_options \<Rightarrow> retry_strategy \<Rightarrow> rat" where
  "trusted_rate l out1 opts s = (if trusted l out1 opts s then strategyEffectiveness l out1 s opts else 1 / 2)"

definition bucketKey :: "strategy_ledger \<Rightarrow> model_outcome_kind \<Rightarrow> order_options \<Rightarrow> retry_strategy \<Rightarrow> rat" where
  "bucketKey l out1 opts s =
     (let margin = max 0 (or_else (5 / 100) (oo_reorderMargin opts)); r = trusted_rate l out1 opts s
      in if margin > 0 then of_int \<lfloor>r / margin\<rfloor> else r)"

definition curated_index :: "model_outcome_kind \<Rightarrow> retry_strategy \<Rightarrow> rat" where
  "curated_index out1 s = (case find_index (\<lambda>x. x = s) (retryLadderForOutcome out1) of None \<Rightarrow> 0 | Some i \<Rightarrow> of_nat i)"

text \<open>The comparator of the sort.\<close>

definition compare_rungs ::
  "strategy_ledger \<Rightarrow> model_outcome_kind \<Rightarrow> order_options \<Rightarrow> retry_strategy \<Rightarrow> retry_strategy \<Rightarrow> rat" where
  "compare_rungs l out1 opts a b =
     (let bucketDelta = bucketKey l out1 opts b - bucketKey l out1 opts a;
          costMargin = max 0 (or_else (1 / 10) (oo_costMargin opts));
          costA = strategyAverageCost l out1 a; costB = strategyAverageCost l out1 b;
          durationOrder = compareCost (fst costA) (fst costB) costMargin;
          tokenOrder = compareCost (snd costA) (snd costB) costMargin
      in if bucketDelta \<noteq> 0 then bucketDelta
         else if trusted l out1 opts a \<and> trusted l out1 opts b \<and> durationOrder \<noteq> 0 then durationOrder
         else if trusted l out1 opts a \<and> trusted l out1 opts b \<and> tokenOrder \<noteq> 0 then tokenOrder
         else curated_index out1 a - curated_index out1 b)"

text \<open>
  The learned order. Where the comparator is no order the language leaves the result open (every result is
  a permutation); the model then fixes one.
\<close>

definition orderLadderByEffectiveness ::
  "strategy_ledger \<Rightarrow> model_outcome_kind \<Rightarrow> order_options \<Rightarrow> retry_strategy list" where
  "orderLadderByEffectiveness l out1 opts =
     js_sort (\<lambda>a b. compare_rungs l out1 opts a b \<le> 0) (retryLadderForOutcome out1)"

definition bestStrategyForOutcome ::
  "strategy_ledger \<Rightarrow> model_outcome_kind \<Rightarrow> order_options \<Rightarrow> retry_strategy option" where
  "bestStrategyForOutcome l out1 opts =
     (case orderLadderByEffectiveness l out1 opts of [] \<Rightarrow> None | s # ss \<Rightarrow> Some s)"

section \<open>Facts\<close>

lemma set_orderLadder [simp]: "set (orderLadderByEffectiveness l out1 opts) = set (retryLadderForOutcome out1)"
  by (simp add: orderLadderByEffectiveness_def)

lemma distinct_orderLadder [simp]: "distinct (orderLadderByEffectiveness l out1 opts)"
  by (simp add: orderLadderByEffectiveness_def)

text \<open>Every cell counts no more recoveries than attempts, so a rate is a rate.\<close>

definition ledger_ok :: "strategy_ledger \<Rightarrow> bool" where
  "ledger_ok l \<longleftrightarrow> (\<forall>c \<in> snd ` set (sl_cells l). sc_successes c \<le> sc_attempts c)"

lemma recordStrategyOutcome_ok: "ledger_ok l \<Longrightarrow> ledger_ok (recordStrategyOutcome l ob now)"
  using set_omap_set[of "cellKey (so_outcome ob) (so_strategy ob)" _ "sl_cells l"]
  by (fastforce simp: ledger_ok_def recordStrategyOutcome_def Let_def empty_cell_def
      dest: map_of_SomeD split: option.splits)

lemma effectiveness_rate:
  assumes "ledger_ok l"
  shows "0 \<le> strategyEffectiveness l out1 s opts \<and> strategyEffectiveness l out1 s opts \<le> 1"
proof -
  let ?ps = "max 0 (or_else 1 (oo_priorSuccesses opts))" and ?pf = "max 0 (or_else 1 (oo_priorFailures opts))"
  let ?s = "case map_of (sl_cells l) (cellKey out1 s) of None \<Rightarrow> (0 :: rat) | Some x \<Rightarrow> of_nat (sc_successes x)"
  let ?a = "case map_of (sl_cells l) (cellKey out1 s) of None \<Rightarrow> (0 :: rat) | Some x \<Rightarrow> of_nat (sc_attempts x)"
  have "0 \<le> ?s" "?s \<le> ?a" using assms by (force simp: ledger_ok_def dest: map_of_SomeD split: option.splits)+
  then have "0 \<le> (?s + ?ps) / (?a + ?ps + ?pf) \<and> (?s + ?ps) / (?a + ?ps + ?pf) \<le> 1" if "0 < ?a + ?ps + ?pf"
    using that by (auto simp: divide_le_eq)
  then show ?thesis by (auto simp: strategyEffectiveness_def Let_def)
qed

end
