(* ===== verification/AttemptLoop.thy ===== *)
theory AttemptLoop
  imports StrategyLedger
begin

text \<open>
  The loop that runs the retry ladder (\<^verbatim>\<open>src/core/adaptive-attempt-loop.ts\<close>): classify the turn, ask for the
  next rung, run it, record what failed. An attempt is the argument \<open>run\<close>: its answer may depend on the number
  of the attempt and on everything it is given.
\<close>

record turn_signals =
  ts_toolCallsEmitted :: jsnum
  ts_toolExpected :: bool
  ts_looped :: "bool option"
  ts_malformed :: "bool option"
  ts_timedOut :: "bool option"
  ts_truncated :: "bool option"
  ts_narratedCall :: "bool option"

definition classifyTurnOutcome :: "turn_signals \<Rightarrow> model_outcome_kind" where
  "classifyTurnOutcome s =
     (if js_gt (ts_toolCallsEmitted s) (Fin 0) then SuccessOutcome
      else if ts_timedOut s = Some True then TimeoutOutcome
      else if ts_truncated s = Some True then AbortedOutcome
      else if ts_looped s = Some True then LoopOutcome
      else if ts_malformed s = Some True then Malformed
      else if ts_narratedCall s = Some True then Narrated
      else if ts_toolExpected s then NoToolCall
      else SuccessOutcome)"

record 'r attempt_result =
  ar_result :: 'r
  ar_outcome :: model_outcome_kind
  ar_evidence :: "string option"
  ar_whyFailed :: "string option"
  ar_available :: "retry_strategy list option"

record loop_input =
  li_profile :: behavior_profile
  li_minBudget :: "jsnum option"
  li_maxBudget :: "jsnum option"
  li_thinking :: "bool option"
  li_ledger :: "strategy_ledger option"
  li_maxAttempts :: "jsnum option"

record 'r loop_outcome =
  lo_result :: 'r
  lo_outcome :: model_outcome_kind
  lo_attempts :: nat
  lo_tried :: "retry_strategy list"
  lo_capsules :: "failure_capsule list"
  lo_parkedReason :: "string option"

type_synonym 'r attempt_runner =
  "nat \<Rightarrow> retry_strategy option \<Rightarrow> string \<Rightarrow> model_outcome_kind option \<Rightarrow> 'r attempt_result"

definition max_attempts :: "loop_input \<Rightarrow> jsnum" where
  "max_attempts i = js_max (Fin 1) (js_trunc (case li_maxAttempts i of None \<Rightarrow> Fin 8 | Some m \<Rightarrow> m))"

definition loop_plan :: "loop_input \<Rightarrow> 'r attempt_result \<Rightarrow> retry_strategy list \<Rightarrow> failure_capsule list \<Rightarrow> attempt_plan" where
  "loop_plan i cur tried caps =
     planNextAttempt \<lparr>pi_lastOutcome = ar_outcome cur, pi_attemptsSoFar = length tried, pi_profile = li_profile i,
       pi_capsules = caps, pi_thinking = li_thinking i, pi_available = ar_available cur,
       pi_ordered = map_option (\<lambda>l. orderLadderByEffectiveness l (ar_outcome cur) default_order) (li_ledger i),
       pi_minBudget = li_minBudget i, pi_maxBudget = li_maxBudget i\<rparr>"

lemma loop_plan_rung:
  assumes "\<not> ap_parked (loop_plan i cur tried caps)"
  shows "ap_strategy (loop_plan i cur tried caps) \<in> set (retryLadderForOutcome (ar_outcome cur))
    \<and> ap_strategy (loop_plan i cur tried caps) \<notin> fc_strategy ` set caps
    \<and> (\<forall>av. ar_available cur = Some av \<longrightarrow> ap_strategy (loop_plan i cur tried caps) \<in> set av)
    \<and> \<not> js_ge (js_of_nat (length tried)) (effective_budget (learnedRetryBudget (li_profile i) (li_minBudget i) (li_maxBudget i)))"
proof -
  let ?i = "\<lparr>ri_lastOutcome = ar_outcome cur, ri_attemptsSoFar = length tried,
    ri_retryBudget = learnedRetryBudget (li_profile i) (li_minBudget i) (li_maxBudget i),
    ri_tried = map fc_strategy caps, ri_thinking = li_thinking i, ri_available = ar_available cur,
    ri_ordered = map_option (\<lambda>l. orderLadderByEffectiveness l (ar_outcome cur) default_order) (li_ledger i)\<rparr>"
  have s: "ap_strategy (loop_plan i cur tried caps) = rd_strategy (decideNextRetryStrategy ?i)"
    and "rd_strategy (decideNextRetryStrategy ?i) \<noteq> ParkStrategy"
    using assms by (simp_all add: loop_plan_def planNextAttempt_def Let_def)
  from decide_not_park[OF refl this(2)] show ?thesis unfolding s by (simp add: triable_def split: option.splits)
qed

definition untried_rungs :: "failure_capsule list \<Rightarrow> nat" where
  "untried_rungs caps = length (untriedStrategies caps RETRY_STRATEGIES)"

lemma all_strategies: "s \<in> set RETRY_STRATEGIES"
  by (cases s) (simp_all add: RETRY_STRATEGIES_def)

lemma untried_rungs_less:
  assumes "fc_strategy c \<notin> fc_strategy ` set caps"
  shows "untried_rungs (caps @ [c]) < untried_rungs caps"
proof -
  have "untriedStrategies (caps @ [c]) xs = filter (\<lambda>s. s \<noteq> fc_strategy c) (untriedStrategies caps xs)" for xs
    by (auto simp: untriedStrategies_def intro: filter_cong)
  moreover have "fc_strategy c \<in> set (untriedStrategies caps RETRY_STRATEGIES)"
    using assms all_strategies by (simp add: untriedStrategies_def)
  ultimately show ?thesis unfolding untried_rungs_def by (metis (mono_tags, lifting) length_filter_less)
qed

definition capsules_after :: "retry_strategy \<Rightarrow> 'r attempt_result \<Rightarrow> failure_capsule list \<Rightarrow> failure_capsule list" where
  "capsules_after s new caps =
     (if ar_outcome new \<noteq> SuccessOutcome
      then caps @ [buildFailureCapsule s (ar_outcome new) (ar_evidence new) (ar_whyFailed new)] else caps)"

lemma capsules_after_measure:
  assumes "s \<notin> fc_strategy ` set caps" "ar_outcome new \<noteq> SuccessOutcome"
  shows "untried_rungs (capsules_after s new caps) < untried_rungs caps"
  using assms untried_rungs_less[of "buildFailureCapsule s (ar_outcome new) (ar_evidence new) (ar_whyFailed new)" caps]
  by (simp add: capsules_after_def buildFailureCapsule_def)

text \<open>The loop, from the \<open>n\<close> attempts already run: a rung is never repeated, so it ends.\<close>

function attempt_loop ::
  "loop_input \<Rightarrow> 'r attempt_runner \<Rightarrow> 'r attempt_result \<Rightarrow> nat \<Rightarrow> retry_strategy list \<Rightarrow> failure_capsule list \<Rightarrow> 'r loop_outcome" where
  "attempt_loop i run cur n tried caps =
     (if ar_outcome cur = SuccessOutcome
      then \<lparr>lo_result = ar_result cur, lo_outcome = SuccessOutcome, lo_attempts = n, lo_tried = tried,
             lo_capsules = caps, lo_parkedReason = None\<rparr>
      else (let plan = loop_plan i cur tried caps in
        if ap_parked plan \<or> js_ge (js_of_nat n) (max_attempts i)
        then \<lparr>lo_result = ar_result cur, lo_outcome = ar_outcome cur, lo_attempts = n, lo_tried = tried,
               lo_capsules = caps,
               lo_parkedReason = Some (if ap_parked plan then ap_reason plan
                 else dashed (''Hard attempt cap ('' @ js_num_str (max_attempts i) @ '') reached after '' @ nat_str n
                   @ '' attempt(s)'') ''escalate.'')\<rparr>
        else (let s = ap_strategy plan; new = run n (Some s) (ap_note plan) (Some (ar_outcome cur))
              in attempt_loop i run new (Suc n) (tried @ [s]) (capsules_after s new caps))))"
  by pat_completeness auto
termination
  by (relation "measure (\<lambda>(i, run, cur, n, tried, caps).
        if ar_outcome cur = SuccessOutcome then 0 else Suc (untried_rungs caps))")
     (auto intro: capsules_after_measure dest: loop_plan_rung)

declare attempt_loop.simps [simp del]

definition runAdaptiveAttemptLoop :: "loop_input \<Rightarrow> 'r attempt_runner \<Rightarrow> 'r loop_outcome" where
  "runAdaptiveAttemptLoop i run = attempt_loop i run (run 0 None [] None) 1 [] []"

section \<open>What the loop guarantees\<close>

abbreviation loop_budget :: "loop_input \<Rightarrow> jsnum" where
  "loop_budget i \<equiv> effective_budget (learnedRetryBudget (li_profile i) (li_minBudget i) (li_maxBudget i))"

text \<open>No rung of the ladder of the last failure is available, supported and untried.\<close>

definition no_rung_left :: "loop_input \<Rightarrow> 'r attempt_result \<Rightarrow> retry_strategy list \<Rightarrow> bool" where
  "no_rung_left i ended tried \<longleftrightarrow>
     filter (\<lambda>s. (case ar_available ended of None \<Rightarrow> True | Some av \<Rightarrow> s \<in> set av)
         \<and> (s = ThinkingDisable \<longrightarrow> li_thinking i = Some True) \<and> s \<notin> set tried)
       (retryLadderForOutcome (ar_outcome ended)) = []"

lemma budget_step:
  "\<not> js_ge (js_of_nat k) (js_max (Fin 1) (js_trunc b)) \<Longrightarrow> \<not> js_gt (js_of_nat (Suc k)) (js_max (Fin 1) (js_trunc b))"
proof (cases b)
  case (Fin q)
  assume "\<not> js_ge (js_of_nat k) (js_max (Fin 1) (js_trunc b))"
  then have "(of_nat k :: rat) < of_int (max 1 (rat_trunc q))" using Fin by (auto simp: not_le max_def split: if_splits)
  then have "int k < max 1 (rat_trunc q)" by (metis of_int_less_iff of_int_of_nat_eq)
  then have "int (Suc k) \<le> max 1 (rat_trunc q)" by simp
  then have "(of_int (int (Suc k)) :: rat) \<le> of_int (max 1 (rat_trunc q))" by (rule of_int_le_iff[THEN iffD2])
  then show ?thesis using Fin by (auto simp: max_def split: if_splits)
qed (simp_all add: js_max_def js_order_defs)

lemma budget_least: "k \<le> 1 \<Longrightarrow> \<not> js_gt (js_of_nat k) (js_max (Fin 1) (js_trunc b))"
  by (cases b) (auto simp: js_max_def js_order_defs max_def le_Suc_eq)

definition loop_ok ::
  "loop_input \<Rightarrow> 'r attempt_runner \<Rightarrow> 'r attempt_result \<Rightarrow> nat \<Rightarrow> retry_strategy list \<Rightarrow> failure_capsule list \<Rightarrow> bool" where
  "loop_ok i run cur n tried caps \<longleftrightarrow>
     distinct tried \<and> ParkStrategy \<notin> set tried \<and> n = Suc (length tried)
     \<and> map fc_strategy caps = (if ar_outcome cur = SuccessOutcome then butlast tried else tried)
     \<and> (\<exists>s note trigger. cur = run (length tried) s note trigger)
     \<and> \<not> js_gt (js_of_nat (length tried)) (loop_budget i) \<and> \<not> js_gt (js_of_nat n) (max_attempts i)"

lemma loop_ok_start: "loop_ok i run (run 0 None [] None) 1 [] []"
  using budget_least[of 0] budget_least[of 1] by (auto simp: loop_ok_def effective_budget_def max_attempts_def)

lemma loop_ok_step:
  assumes ok: "loop_ok i run cur n tried caps" and f: "ar_outcome cur \<noteq> SuccessOutcome"
    and p: "\<not> ap_parked (loop_plan i cur tried caps)" and m: "\<not> js_ge (js_of_nat n) (max_attempts i)"
    and s: "s = ap_strategy (loop_plan i cur tried caps)" and new: "new = run n (Some s) note trigger"
  shows "loop_ok i run new (Suc n) (tried @ [s]) (capsules_after s new caps)"
proof -
  note rung = loop_plan_rung[OF p, folded s]
  have caps: "map fc_strategy caps = tried" using ok f by (simp add: loop_ok_def)
  then have "s \<notin> set tried" using rung by (metis list.set_map)
  moreover have "s \<noteq> ParkStrategy" using rung ladder_no_park by metis
  moreover have "\<not> js_gt (js_of_nat (Suc (length tried))) (loop_budget i)"
    using rung budget_step unfolding effective_budget_def by blast
  moreover have "\<not> js_gt (js_of_nat (Suc n)) (max_attempts i)" using m budget_step unfolding max_attempts_def by blast
  ultimately show ?thesis
    using ok caps new by (auto simp: loop_ok_def capsules_after_def buildFailureCapsule_def)
qed

lemma attempt_loop_ok:
  assumes "loop_ok i run cur n tried caps"
  shows "\<exists>cur'. loop_ok i run cur' (lo_attempts (attempt_loop i run cur n tried caps))
      (lo_tried (attempt_loop i run cur n tried caps)) (lo_capsules (attempt_loop i run cur n tried caps))
    \<and> lo_result (attempt_loop i run cur n tried caps) = ar_result cur'
    \<and> lo_outcome (attempt_loop i run cur n tried caps) = ar_outcome cur'
    \<and> (if ar_outcome cur' = SuccessOutcome then lo_parkedReason (attempt_loop i run cur n tried caps) = None
       else lo_parkedReason (attempt_loop i run cur n tried caps) \<noteq> None
         \<and> (ap_parked (loop_plan i cur' (lo_tried (attempt_loop i run cur n tried caps))
               (lo_capsules (attempt_loop i run cur n tried caps)))
            \<or> js_ge (js_of_nat (lo_attempts (attempt_loop i run cur n tried caps))) (max_attempts i)))"
    (is "?claim cur n tried caps")
  using assms
proof (induction i run cur n tried caps rule: attempt_loop.induct)
  case (1 i run cur n tried caps)
  show ?case
  proof (cases "ar_outcome cur = SuccessOutcome \<or> ap_parked (loop_plan i cur tried caps) \<or> js_ge (js_of_nat n) (max_attempts i)")
    case True
    then show ?thesis using "1.prems"
      by (intro exI[of _ cur]) (auto simp: attempt_loop.simps[of i run cur n tried caps] Let_def)
  next
    case False
    define s where "s = ap_strategy (loop_plan i cur tried caps)"
    define new where "new = run n (Some s) (ap_note (loop_plan i cur tried caps)) (Some (ar_outcome cur))"
    have unfold: "attempt_loop i run cur n tried caps = attempt_loop i run new (Suc n) (tried @ [s]) (capsules_after s new caps)"
      using False by (simp add: attempt_loop.simps[of i run cur n tried caps] Let_def s_def new_def)
    have "loop_ok i run new (Suc n) (tried @ [s]) (capsules_after s new caps)"
      unfolding new_def by (rule loop_ok_step[OF "1.prems" _ _ _ s_def refl]) (use False in auto)
    with "1.IH"[OF _ refl _ s_def new_def] False show ?thesis unfolding unfold by blast
  qed
qed

end
