(* ===== verification/RetryProperties.thy ===== *)
theory RetryProperties
  imports AttemptLoop
begin

text \<open>
  Properties of the adaptive retry: the loop ends within its budgets without repeating a rung, the learned
  profiles are consistent, and the learned order only reorders.
\<close>

section \<open>The loop\<close>

text \<open>
  C30. Whatever its attempts answer, the retry loop returns the answer of an attempt that was run: it runs no
  more attempts than its cap and no more retries than the learned budget, repeats no rung, records a
  capsule for each failed rung in order, and gives up only when the cap is reached, the budget is spent or
  the ladder of the last failure has no rung left that is available, supported and untried.
\<close>

theorem attempt_loop_contract:
  fixes run :: "'r attempt_runner" and i :: loop_input
  defines "out \<equiv> runAdaptiveAttemptLoop i run"
  shows "lo_attempts out = Suc (length (lo_tried out)) \<and> distinct (lo_tried out) \<and> ParkStrategy \<notin> set (lo_tried out)
    \<and> \<not> js_gt (js_of_nat (length (lo_tried out))) (loop_budget i) \<and> \<not> js_gt (js_of_nat (lo_attempts out)) (max_attempts i)
    \<and> map fc_strategy (lo_capsules out) = (if lo_outcome out = SuccessOutcome then butlast (lo_tried out) else lo_tried out)
    \<and> (\<exists>s told trigger. let last = run (length (lo_tried out)) s told trigger in
        lo_result out = ar_result last \<and> lo_outcome out = ar_outcome last
        \<and> (if lo_outcome out = SuccessOutcome then lo_parkedReason out = None
           else lo_parkedReason out \<noteq> None
             \<and> (js_ge (js_of_nat (lo_attempts out)) (max_attempts i)
                \<or> js_ge (js_of_nat (length (lo_tried out))) (loop_budget i)
                \<or> no_rung_left i last (lo_tried out))))"
proof -
  obtain cur where ok: "loop_ok i run cur (lo_attempts out) (lo_tried out) (lo_capsules out)"
    and res: "lo_result out = ar_result cur" "lo_outcome out = ar_outcome cur"
    and stop: "if ar_outcome cur = SuccessOutcome then lo_parkedReason out = None
       else lo_parkedReason out \<noteq> None \<and> (ap_parked (loop_plan i cur (lo_tried out) (lo_capsules out))
         \<or> js_ge (js_of_nat (lo_attempts out)) (max_attempts i))"
    using attempt_loop_ok[OF loop_ok_start, of i run] unfolding out_def runAdaptiveAttemptLoop_def by blast
  have parked: "js_ge (js_of_nat (length (lo_tried out))) (loop_budget i)
      \<or> no_rung_left i cur (lo_tried out)"
    if "ap_parked (loop_plan i cur (lo_tried out) (lo_capsules out))" "ar_outcome cur \<noteq> SuccessOutcome"
  proof -
    let ?i = "\<lparr>ri_lastOutcome = ar_outcome cur, ri_attemptsSoFar = length (lo_tried out),
      ri_retryBudget = learnedRetryBudget (li_profile i) (li_minBudget i) (li_maxBudget i), ri_tried = lo_tried out,
      ri_thinking = li_thinking i, ri_available = ar_available cur,
      ri_ordered = map_option (\<lambda>l. orderLadderByEffectiveness l (ar_outcome cur) default_order) (li_ledger i)\<rparr>"
    have "map fc_strategy (lo_capsules out) = lo_tried out" using ok that(2) by (simp add: loop_ok_def)
    then have "rd_strategy (decideNextRetryStrategy ?i) = ParkStrategy"
      using that(1) by (simp add: loop_plan_def planNextAttempt_def Let_def)
    then have "js_ge (js_of_nat (length (lo_tried out))) (loop_budget i)
      \<or> (\<forall>x \<in> set (retryLadderForOutcome (lo_outcome out)). \<not> triable ?i x)"
      unfolding decide_park_iff res(2) by simp
    then show ?thesis by (cases "ar_available cur") (auto simp: no_rung_left_def filter_empty_conv triable_def res)
  qed
  obtain s told trigger where cur: "run (length (lo_tried out)) s told trigger = cur"
    using ok by (auto simp: loop_ok_def)
  show ?thesis
  proof (intro conjI exI[of _ s] exI[of _ told] exI[of _ trigger])
    show "let last = run (length (lo_tried out)) s told trigger in
        lo_result out = ar_result last \<and> lo_outcome out = ar_outcome last
        \<and> (if lo_outcome out = SuccessOutcome then lo_parkedReason out = None
           else lo_parkedReason out \<noteq> None
             \<and> (js_ge (js_of_nat (lo_attempts out)) (max_attempts i)
                \<or> js_ge (js_of_nat (length (lo_tried out))) (loop_budget i)
                \<or> no_rung_left i last (lo_tried out)))"
    proof (cases "lo_outcome out = SuccessOutcome")
      case True
      then show ?thesis unfolding cur Let_def using res stop by simp
    next
      case False
      then have "lo_parkedReason out \<noteq> None" "ar_outcome cur \<noteq> SuccessOutcome"
        "ap_parked (loop_plan i cur (lo_tried out) (lo_capsules out)) \<or> js_ge (js_of_nat (lo_attempts out)) (max_attempts i)"
        using res stop by simp_all
      then show ?thesis unfolding cur Let_def if_not_P[OF False] using res parked by blast
    qed
  qed (use ok res in \<open>auto simp: loop_ok_def simp del: of_nat_Suc\<close>)
qed

section \<open>What is learned\<close>

text \<open>
  C31. Reading the profiles of all models at once gives each model the profile that reading it alone
  gives, and every profile counts each of its attempts exactly once, with a success rate between zero
  and one: the order and the interleaving of the models' entries do not matter beyond their times.
\<close>

theorem profiles_read_consistently:
  assumes "\<forall>x. alpha = Some x \<longrightarrow> 0 \<le> x \<and> x \<le> 1"
  shows "map_of (readAllModelBehaviorProfiles alpha es) m =
      (if m \<in> be_modelId ` set es then Some (readModelBehaviorProfile m alpha es) else None)
    \<and> profile_inv (readModelBehaviorProfile m alpha es)
    \<and> bp_samples (readModelBehaviorProfile m alpha es)
        = length (filter (\<lambda>e. be_modelId e = m \<and> be_outcome e \<noteq> None) es)"
proof -
  let ?mine = "filter (\<lambda>e. be_modelId e = m) (oldest_first es)"
  have none: "?mine = [] \<longleftrightarrow> m \<notin> be_modelId ` set es" by (auto simp: oldest_first_def filter_empty_conv)
  have "map_of (readAllModelBehaviorProfiles alpha es) m =
      (if m \<in> be_modelId ` set es then Some (readModelBehaviorProfile m alpha es) else None)"
    using none unfolding readAllModelBehaviorProfiles_def readModelBehaviorProfile_def fold_into_each
    by (cases ?mine) auto
  moreover have "profile_inv (readModelBehaviorProfile m alpha es)"
    using assms empty_profile_inv unfolding readModelBehaviorProfile_def by (intro profiles.fold_inv) auto
  moreover have "bp_samples (readModelBehaviorProfile m alpha es)
      = length (filter (\<lambda>e. be_modelId e = m \<and> be_outcome e \<noteq> None) es)"
    by (simp add: readModelBehaviorProfile_def samples_fold oldest_first_def length_filter_js_sort conj_commute
        emptyModelBehaviorProfile_def)
  ultimately show ?thesis by blast
qed

definition seen_entries :: "behavior_entry list" where
  "seen_entries =
     (let oc = \<lparr>ao_kind = SuccessOutcome, ao_retries = None, ao_contextTokens = None, ao_qualityOk = None,
        ao_toolCallFormat = None, ao_toolCount = None, ao_promptVariantFamily = None, ao_winningEndpointKind = None\<rparr>
      in [\<lparr>be_modelId = ''m'', be_recordedAt = 2, be_outcome = Some oc, be_agreement = None\<rparr>,
          \<lparr>be_modelId = ''n'', be_recordedAt = 1, be_outcome = Some (oc\<lparr>ao_kind := LoopOutcome\<rparr>), be_agreement = None\<rparr>,
          \<lparr>be_modelId = ''m'', be_recordedAt = 1, be_outcome = None, be_agreement = Some (1 / 2)\<rparr>])"

theorem profiles_read_consistently_witness:
  "map_of (readAllModelBehaviorProfiles (Some (1 / 2)) seen_entries) ''m'' =
      (if ''m'' \<in> be_modelId ` set seen_entries then Some (readModelBehaviorProfile ''m'' (Some (1 / 2)) seen_entries) else None)
    \<and> profile_inv (readModelBehaviorProfile ''m'' (Some (1 / 2)) seen_entries)
    \<and> bp_samples (readModelBehaviorProfile ''m'' (Some (1 / 2)) seen_entries)
        = length (filter (\<lambda>e. be_modelId e = ''m'' \<and> be_outcome e \<noteq> None) seen_entries)"
  by (rule profiles_read_consistently) simp

section \<open>The learned order\<close>

text \<open>
  The comparator of the learned order is not transitive: of three rungs that recover equally often, with costs
  118, 109 and 100, the first goes before the second and the second before the third by the curated order (the
  differences are below the margin), but the third before the first by its cost.
\<close>

definition costly_cell :: "retry_strategy \<Rightarrow> rat \<Rightarrow> string \<times> strategy_cell" where
  "costly_cell s c = (cellKey Malformed s, \<lparr>sc_outcome = Malformed, sc_strategy = s, sc_attempts = 4, sc_successes = 4,
     sc_durationSamples = 1, sc_totalDurationMs = c, sc_tokenSamples = 0, sc_totalTokens = 0\<rparr>)"

definition costly_ledger :: strategy_ledger where
  "costly_ledger = \<lparr>sl_modelId = ''m'', sl_taskKind = ''worker'', sl_cells = [costly_cell ConstrainedSchema 118,
     costly_cell PromptVariant 109, costly_cell BestOfN 100], sl_updatedAt = Fin 0\<rparr>"

lemma learned_order_cyclic:
  "compare_rungs costly_ledger Malformed default_order ConstrainedSchema PromptVariant < 0
   \<and> compare_rungs costly_ledger Malformed default_order PromptVariant BestOfN < 0
   \<and> compare_rungs costly_ledger Malformed default_order BestOfN ConstrainedSchema < 0"
  by code_simp

end
