(* ===== verification/SubtaskDag.thy ===== *)
theory SubtaskDag
  imports ColouredSearch TextParts "HOL-Library.Char_ord" "HOL-Library.List_Lexorder"
begin

text \<open>
  The structural validator of a decomposition (\<^verbatim>\<open>src/core/decomposition-subtask-dag.ts\<close>): ids, edges, cycles
  with their paths, weak connectivity by union-find, and the longest chain. A loop over pointers that need not end
  for every input is a partial function: \<open>None\<close> is not returning.
\<close>

section \<open>Subtasks and reports\<close>

record subtask =
  st_id :: string
  st_dependsOn :: "string list option"
  st_title :: "string option"

datatype dag_defect_kind = DuplicateId | UnknownDependency | SelfDependency | DependencyCycle | DisconnectedSubtask

record dag_defect =
  dd_kind :: dag_defect_kind
  dd_message :: string
  dd_subtaskId :: string
  dd_relatedIds :: "string list"

record dag_report =
  dr_ok :: bool
  dr_defects :: "dag_defect list"
  dr_subtaskCount :: nat
  dr_dependencyCount :: nat
  dr_cycles :: "string list list"
  dr_rootIds :: "string list"
  dr_sourceIds :: "string list"
  dr_disconnectedIds :: "string list"
  dr_componentCount :: nat
  dr_maxDepth :: nat

definition dependenciesOf :: "subtask \<Rightarrow> string list" where
  "dependenciesOf t = (case st_dependsOn t of None \<Rightarrow> [] | Some ds \<Rightarrow> ds)"

type_synonym titles = "(string, string option) omap"

definition labelOf :: "string \<Rightarrow> titles \<Rightarrow> string" where
  "labelOf i titles =
     (case map_of titles i of
        Some (Some t) \<Rightarrow> (if trim t \<noteq> [] then i @ '' ('' @ quote_str (trim t) @ '')'' else i)
      | _ \<Rightarrow> i)"

section \<open>Ids and edges\<close>

definition duplicate_defect :: "string \<Rightarrow> dag_defect" where
  "duplicate_defect i = \<lparr>dd_kind = DuplicateId,
     dd_message = ''Duplicate subtask id '' @ quote_str i
       @ ''; ids must be unique so dependency edges resolve unambiguously.'', dd_subtaskId = i, dd_relatedIds = []\<rparr>"

definition identity_step :: "subtask \<Rightarrow> string list \<times> titles \<times> dag_defect list \<Rightarrow> string list \<times> titles \<times> dag_defect list" where
  "identity_step t s =
     (case s of (known, titles, ds) \<Rightarrow>
        (if st_id t \<in> set known then (known, titles, ds @ [duplicate_defect (st_id t)])
         else (known @ [st_id t], omap_set (st_id t) (st_title t) titles, ds)))"

definition self_defect :: "titles \<Rightarrow> string \<Rightarrow> dag_defect" where
  "self_defect titles i = \<lparr>dd_kind = SelfDependency,
     dd_message = ''Subtask '' @ labelOf i titles
       @ '' depends on itself; remove the self-edge (a subtask cannot be its own prerequisite).'',
     dd_subtaskId = i, dd_relatedIds = []\<rparr>"

definition unknown_defect :: "titles \<Rightarrow> string \<Rightarrow> string \<Rightarrow> dag_defect" where
  "unknown_defect titles i d = \<lparr>dd_kind = UnknownDependency,
     dd_message = ''Subtask '' @ labelOf i titles @ '' depends on unknown subtask '' @ quote_str d
       @ ''; add that subtask or fix the id.'', dd_subtaskId = i, dd_relatedIds = [d]\<rparr>"

definition edge_step :: "string list \<Rightarrow> titles \<Rightarrow> string \<Rightarrow> string \<Rightarrow> string list \<times> dag_defect list \<Rightarrow> string list \<times> dag_defect list" where
  "edge_step known titles i d s =
     (case s of (deps, ds) \<Rightarrow>
        (if d = i then (deps, ds @ [self_defect titles i])
         else if d \<notin> set known then (deps, ds @ [unknown_defect titles i d])
         else if d \<in> set deps then (deps, ds)
         else (deps @ [d], ds)))"

definition subtask_step ::
  "string list \<Rightarrow> titles \<Rightarrow> subtask \<Rightarrow> string list \<times> adjacency \<times> nat \<times> dag_defect list
    \<Rightarrow> string list \<times> adjacency \<times> nat \<times> dag_defect list" where
  "subtask_step known titles t s =
     (case s of (ordered, adj, n, ds) \<Rightarrow>
        (if st_id t \<in> set ordered then s
         else (case fold (edge_step known titles (st_id t)) (dependenciesOf t) ([], ds) of
            (deps, ds1) \<Rightarrow> (ordered @ [st_id t], omap_set (st_id t) deps adj, n + length deps, ds1))))"

section \<open>Cycles\<close>

text \<open>\<^verbatim>\<open>lastIndexOf\<close>\<close>

definition last_index :: "string list \<Rightarrow> string \<Rightarrow> nat option" where
  "last_index xs x = (case find_index (\<lambda>y. y = x) (rev xs) of None \<Rightarrow> None | Some i \<Rightarrow> Some (length xs - Suc i))"

definition min_index :: "string list \<Rightarrow> nat" where
  "min_index nodes = fold (\<lambda>i k. if nodes ! i < nodes ! k then i else k) [1..<length nodes] 0"

definition normaliseCycleKey :: "string list \<Rightarrow> string" where
  "normaliseCycleKey loop =
     (let nodes = butlast loop; k = min_index nodes in
      if nodes = [] then [] else join_with [CHR 0x00] (drop k nodes @ take k nodes))"

definition report_loop :: "string list \<Rightarrow> string \<Rightarrow> string list list \<times> string list \<Rightarrow> string list list \<times> string list" where
  "report_loop path m s =
     (case s of (cycles, keys) \<Rightarrow>
        (case last_index path m of
           None \<Rightarrow> s
         | Some k \<Rightarrow>
             (let loop = drop k path @ [m]; key = normaliseCycleKey loop
              in if key \<in> set keys then s else (cycles @ [loop], keys @ [key]))))"

definition detectCycles :: "string list \<Rightarrow> adjacency \<Rightarrow> string list list" where
  "detectCycles ids adj = fst (found (search_all adj report_loop ids ([], [])))"

definition cycle_defect :: "string list \<Rightarrow> dag_defect" where
  "cycle_defect path = \<lparr>dd_kind = DependencyCycle,
     dd_message = ''Dependency cycle among subtasks: '' @ join_with '' -> '' path
       @ ''. These block each other and none can start; break the cycle by removing an edge.'',
     dd_subtaskId = (if path = [] then [] else last path), dd_relatedIds = path\<rparr>"

section \<open>Weak connectivity\<close>

type_synonym parents = "(string, string) omap"

partial_function (option) find_root :: "parents \<Rightarrow> string \<Rightarrow> string option" where
  "find_root p x =
     (case map_of p x of
        None \<Rightarrow> Some x
      | Some y \<Rightarrow> (if y = x then Some x else find_root p y))"

partial_function (option) compress :: "string \<Rightarrow> parents \<Rightarrow> string \<Rightarrow> parents option" where
  "compress rt p node =
     (case map_of p node of
        None \<Rightarrow> Some p
      | Some up \<Rightarrow> (if up = rt then Some p else compress rt (omap_set node rt p) up))"

definition uf_find :: "string \<Rightarrow> parents \<Rightarrow> (string \<times> parents) option" where
  "uf_find x p = Option.bind (find_root p x) (\<lambda>r. Option.bind (compress r p x) (\<lambda>p1. Some (r, p1)))"

definition uf_union :: "string \<Rightarrow> string \<Rightarrow> parents \<Rightarrow> parents option" where
  "uf_union a b p =
     Option.bind (uf_find a p) (\<lambda>(ra, p1).
       Option.bind (uf_find b p1) (\<lambda>(rb, p2). Some (if ra \<noteq> rb then omap_set ra rb p2 else p2)))"

fun uf_unions :: "(string \<times> string) list \<Rightarrow> parents \<Rightarrow> parents option" where
  "uf_unions [] p = Some p"
| "uf_unions ((a, b) # es) p = Option.bind (uf_union a b p) (uf_unions es)"

fun uf_roots :: "string list \<Rightarrow> parents \<Rightarrow> string list \<Rightarrow> string list option" where
  "uf_roots [] p roots = Some roots"
| "uf_roots (x # xs) p roots = Option.bind (uf_find x p) (\<lambda>(r, p1). uf_roots xs p1 (oset_add r roots))"

definition edge_list :: "string list \<Rightarrow> adjacency \<Rightarrow> (string \<times> string) list" where
  "edge_list ids adj = concat (map (\<lambda>i. map (\<lambda>d. (i, d)) (neighbours adj i)) ids)"

definition computeWeakConnectivity :: "string list \<Rightarrow> adjacency \<Rightarrow> (nat \<times> string list) option" where
  "computeWeakConnectivity ids adj =
     (let es = edge_list ids adj in
      Option.bind (uf_unions es (omap_of (map (\<lambda>i. (i, i)) ids))) (\<lambda>p.
        Option.bind (uf_roots ids p []) (\<lambda>roots.
          Some (length roots, filter (\<lambda>i. i \<notin> set (map fst es) \<union> set (map snd es)) ids))))"

section \<open>The longest chain\<close>

text \<open>\<open>DepthFrom\<close> is a call of the memoised recursion, \<open>OverTargets\<close> its loop over the rest of the targets.\<close>

datatype chain_call = DepthFrom string | OverTargets "string list" nat

type_synonym memo = "(string, nat) omap"

partial_function (option) chain_go :: "adjacency \<Rightarrow> chain_call \<Rightarrow> memo \<Rightarrow> (nat \<times> memo) option" where
  "chain_go adj c memo =
     (case c of
        DepthFrom i \<Rightarrow>
          (case map_of memo i of
             Some d \<Rightarrow> Some (d, memo)
           | None \<Rightarrow> Option.bind (chain_go adj (OverTargets (neighbours adj i) 1) memo)
               (\<lambda>(best, memo1). Some (best, omap_set i best memo1)))
      | OverTargets ts best \<Rightarrow>
          (case ts of
             [] \<Rightarrow> Some (best, memo)
           | t # rest \<Rightarrow> Option.bind (chain_go adj (DepthFrom t) memo)
               (\<lambda>(d, memo1). chain_go adj (OverTargets rest (max best (Suc d))) memo1)))"

fun longest_from :: "adjacency \<Rightarrow> string list \<Rightarrow> nat \<Rightarrow> memo \<Rightarrow> nat option" where
  "longest_from adj [] most memo = Some most"
| "longest_from adj (i # ids) most memo =
     Option.bind (chain_go adj (DepthFrom i) memo) (\<lambda>(d, memo1). longest_from adj ids (max most d) memo1)"

definition longestChainLength :: "string list \<Rightarrow> adjacency \<Rightarrow> nat option" where
  "longestChainLength ids adj = longest_from adj ids 0 []"

section \<open>The report\<close>

definition disconnected_defect :: "titles \<Rightarrow> string \<Rightarrow> dag_defect" where
  "disconnected_defect titles i = \<lparr>dd_kind = DisconnectedSubtask,
     dd_message = ''Subtask '' @ labelOf i titles
       @ '' has no dependency edge in either direction; connect it to the work it needs or that needs it, or ''
       @ ''confirm it is genuinely standalone.'', dd_subtaskId = i, dd_relatedIds = []\<rparr>"

definition validateSubtaskDag :: "subtask list \<Rightarrow> dag_report option" where
  "validateSubtaskDag ts =
     (case fold identity_step ts ([], [], []) of (known, titles, ds1) \<Rightarrow>
      case fold (subtask_step known titles) ts ([], [], 0, ds1) of (ids, adj, edgeCount, ds2) \<Rightarrow>
        (let cycles = detectCycles ids adj;
             targets = concat (map (neighbours adj) ids);
             roots = filter (\<lambda>i. i \<notin> set targets) ids;
             sources = filter (\<lambda>i. neighbours adj i = []) ids
         in Option.bind (computeWeakConnectivity ids adj) (\<lambda>(components, lone).
            Option.bind (if cycles \<noteq> [] then Some 0 else longestChainLength ids adj) (\<lambda>depth.
              (let ds = ds2 @ map cycle_defect cycles @ (if length ids > 1 then map (disconnected_defect titles) lone else [])
               in Some \<lparr>dr_ok = (ds = []), dr_defects = ds, dr_subtaskCount = length ts,
                        dr_dependencyCount = edgeCount, dr_cycles = cycles, dr_rootIds = js_sort (\<le>) roots,
                        dr_sourceIds = js_sort (\<le>) sources,
                        dr_disconnectedIds = (if length ids > 1 then js_sort (\<le>) lone else []),
                        dr_componentCount = components, dr_maxDepth = depth\<rparr>)))))"

end
