(* ===== verification/SubtaskForest.thy ===== *)
theory SubtaskForest
  imports SubtaskDag
begin

text \<open>
  Facts of the subtask graph's two measures: the union-find of \<open>computeWeakConnectivity\<close> returns and counts the
  islands exactly, and the memoised recursion of \<open>longestChainLength\<close> returns the longest chain of an acyclic graph.
\<close>

section \<open>Union-find\<close>

text \<open>The pointer chain of a node, with its length, and the root it ends in.\<close>

inductive hops :: "parents \<Rightarrow> nat \<Rightarrow> string \<Rightarrow> string \<Rightarrow> bool" for p where
  hops_root: "map_of p x = Some x \<Longrightarrow> hops p 0 x x"
| hops_up: "map_of p x = Some y \<Longrightarrow> y \<noteq> x \<Longrightarrow> hops p n y r \<Longrightarrow> hops p (Suc n) x r"

definition root_of :: "parents \<Rightarrow> string \<Rightarrow> string \<Rightarrow> bool" where
  "root_of p x r \<longleftrightarrow> (\<exists>n. hops p n x r)"

inductive_cases hops_cases: "hops p n x r"

lemma find_root_hops: "hops p n x r \<Longrightarrow> find_root p x = Some r"
  by (induction rule: hops.induct) (simp_all add: find_root.simps)

lemma find_root_eq: "root_of p x r \<Longrightarrow> find_root p x = Some r"
  by (auto simp: root_of_def find_root_hops)

lemma root_of_det: "root_of p x r \<Longrightarrow> root_of p x s \<Longrightarrow> r = s"
  by (metis find_root_eq option.inject)

lemma hops_root_fixed: "hops p n x r \<Longrightarrow> map_of p r = Some r"
  by (induction rule: hops.induct)

lemma root_of_root: "root_of p x r \<Longrightarrow> map_of p r = Some r"
  by (auto simp: root_of_def hops_root_fixed)

lemma hops_in: "hops p n x r \<Longrightarrow> x \<in> dom (map_of p) \<and> r \<in> dom (map_of p)"
  by (induction rule: hops.induct) auto

lemma root_of_in: "root_of p x r \<Longrightarrow> x \<in> dom (map_of p) \<and> r \<in> dom (map_of p)"
  using hops_in unfolding root_of_def by blast

lemma root_of_up: "map_of p x = Some y \<Longrightarrow> y \<noteq> x \<Longrightarrow> root_of p y r \<Longrightarrow> root_of p x r"
  using hops_up unfolding root_of_def by blast

text \<open>Pointing a node at its own root changes no root and lengthens no chain.\<close>

lemma shortcut_hops:
  assumes x: "root_of p x r"
  shows "hops p n y s \<Longrightarrow> \<exists>m \<le> n. hops (omap_set x r p) m y s"
proof (induction rule: hops.induct)
  case (hops_root y)
  then have "y = x \<Longrightarrow> r = y" using root_of_det[OF x] hops.hops_root by (auto simp: root_of_def)
  with hops_root have "hops (omap_set x r p) 0 y y" by (intro hops.hops_root) auto
  then show ?case by blast
next
  case (hops_up y z n s)
  then obtain m where m: "m \<le> n" "hops (omap_set x r p) m z s" by blast
  show ?case
  proof (cases "y = x")
    case True
    then have s: "s = r" using root_of_det[OF x] hops.hops_up[OF hops_up.hyps] by (auto simp: root_of_def)
    have r: "hops (omap_set x r p) 0 r r" using root_of_root[OF x] by (intro hops.hops_root) auto
    show ?thesis
    proof (cases "r = x")
      case True
      with r s \<open>y = x\<close> show ?thesis by blast
    next
      case False
      then have "hops (omap_set x r p) (Suc 0) x r" using r by (intro hops.hops_up) auto
      with s \<open>y = x\<close> show ?thesis by (intro exI[of _ "Suc 0"]) auto
    qed
  next
    case False
    then have "hops (omap_set x r p) (Suc m) y s" using hops_up.hyps m by (intro hops.hops_up) auto
    with m show ?thesis by (intro exI[of _ "Suc m"]) auto
  qed
qed

text \<open>The parents form a forest over the ids: every chain ends.\<close>

definition forest :: "string set \<Rightarrow> parents \<Rightarrow> bool" where
  "forest X p \<longleftrightarrow> dom (map_of p) = X \<and> (\<forall>x \<in> X. \<exists>r. root_of p x r)"

definition same_roots :: "parents \<Rightarrow> parents \<Rightarrow> bool" where
  "same_roots p q \<longleftrightarrow> (\<forall>x r. root_of p x r \<longrightarrow> root_of q x r)"

lemma same_roots_trans: "same_roots p q \<Longrightarrow> same_roots q s \<Longrightarrow> same_roots p s"
  by (simp add: same_roots_def)

lemma shortcut_forest:
  assumes f: "forest X p" and x: "root_of p x r"
  shows "forest X (omap_set x r p) \<and> same_roots p (omap_set x r p)"
proof -
  have "same_roots p (omap_set x r p)"
    using shortcut_hops[OF x] unfolding same_roots_def root_of_def by blast
  moreover have "dom (map_of (omap_set x r p)) = X" using f root_of_in[OF x] by (auto simp: forest_def)
  ultimately show ?thesis using f unfolding forest_def same_roots_def by blast
qed

lemma compress_returns:
  "hops p n x r \<Longrightarrow> forest X p \<Longrightarrow> \<exists>q. compress r p x = Some q \<and> forest X q \<and> same_roots p q"
proof (induction n arbitrary: p x rule: less_induct)
  case (less n)
  have x: "root_of p x r" using less.prems by (auto simp: root_of_def)
  obtain up where up: "map_of p x = Some up" using hops_in[OF less.prems(1)] by auto
  show ?case
  proof (cases "up = r")
    case True
    with up less.prems show ?thesis by (simp add: compress.simps same_roots_def)
  next
    case False
    let ?p = "omap_set x r p"
    from less.prems(1) obtain m where m: "n = Suc m" "hops p m up r"
      using up False by (auto elim: hops_cases)
    then obtain k where k: "k \<le> m" "hops ?p k up r" using shortcut_hops[OF x] by blast
    obtain q where q: "compress r ?p up = Some q" "forest X q" "same_roots ?p q"
      using less.IH[of k ?p up] k m shortcut_forest[OF less.prems(2) x] by auto
    with False up show ?thesis
      using shortcut_forest[OF less.prems(2) x] same_roots_trans by (auto simp: compress.simps[of r p x])
  qed
qed

lemma uf_find_returns:
  assumes "forest X p" "x \<in> X"
  shows "\<exists>r q. uf_find x p = Some (r, q) \<and> root_of p x r \<and> forest X q \<and> same_roots p q"
proof -
  obtain r n where r: "root_of p x r" "hops p n x r" using assms unfolding forest_def root_of_def by blast
  from compress_returns[OF r(2) assms(1)] r find_root_eq[OF r(1)] show ?thesis by (auto simp: uf_find_def)
qed

text \<open>Two ids are together when their chains end in the same root.\<close>

definition together :: "parents \<Rightarrow> string \<Rightarrow> string \<Rightarrow> bool" where
  "together p x y \<longleftrightarrow> (\<exists>r. root_of p x r \<and> root_of p y r)"

lemma together_same:
  assumes "forest X p" "same_roots p q" "x \<in> X" "y \<in> X"
  shows "together q x y \<longleftrightarrow> together p x y"
  using assms root_of_det unfolding together_def forest_def same_roots_def by metis

lemma link_hops:
  assumes ra: "map_of p ra = Some ra" and rb: "map_of p rb = Some rb" "ra \<noteq> rb"
  shows "hops p n y s \<Longrightarrow> root_of (omap_set ra rb p) y (if s = ra then rb else s)"
proof (induction rule: hops.induct)
  case (hops_root y)
  have b: "hops (omap_set ra rb p) 0 rb rb" using rb by (intro hops.hops_root) auto
  show ?case
  proof (cases "y = ra")
    case True
    have "hops (omap_set ra rb p) (Suc 0) ra rb" using rb b by (intro hops.hops_up) auto
    with True show ?thesis by (auto simp: root_of_def)
  next
    case False
    with hops_root have "hops (omap_set ra rb p) 0 y y" by (intro hops.hops_root) auto
    with False show ?thesis by (auto simp: root_of_def)
  qed
next
  case (hops_up y z n s)
  then have "y \<noteq> ra" using ra by auto
  with hops_up show ?case by (auto intro: root_of_up)
qed

definition Together :: "string set \<Rightarrow> parents \<Rightarrow> (string \<times> string) set" where
  "Together X p = {(x, y). x \<in> X \<and> y \<in> X \<and> together p x y}"

lemma together_refl: "forest X p \<Longrightarrow> x \<in> X \<Longrightarrow> together p x x"
  by (auto simp: together_def forest_def)

lemma together_sym: "together p x y \<Longrightarrow> together p y x"
  by (auto simp: together_def)

lemma together_trans: "together p x y \<Longrightarrow> together p y z \<Longrightarrow> together p x z"
  using root_of_det unfolding together_def by metis

lemma link_roots:
  assumes f: "forest X p" and r: "root_of p a ra" "root_of p b rb" "ra \<noteq> rb"
  shows "forest X (omap_set ra rb p)"
    and "x \<in> X \<Longrightarrow> y \<in> X \<Longrightarrow> together (omap_set ra rb p) x y \<longleftrightarrow>
      together p x y \<or> together p x a \<and> together p b y \<or> together p x b \<and> together p a y"
proof -
  have link: "root_of (omap_set ra rb p) y (if s = ra then rb else s)" if "root_of p y s" for y s
    using that link_hops[OF root_of_root[OF r(1)] root_of_root[OF r(2)] r(3)] unfolding root_of_def by blast
  have "dom (map_of (omap_set ra rb p)) = X" using f root_of_in[OF r(1)] by (auto simp: forest_def)
  then show "forest X (omap_set ra rb p)" using f link unfolding forest_def by blast
  assume "x \<in> X" "y \<in> X"
  then obtain rx ry where xy: "root_of p x rx" "root_of p y ry" using f unfolding forest_def by blast
  have t: "together q u v \<longleftrightarrow> ru = rv" if "root_of q u ru" "root_of q v rv" for q u v ru rv
    using that root_of_det unfolding together_def by metis
  note t' = t[OF link[OF xy(1)] link[OF xy(2)]]
  show "together (omap_set ra rb p) x y \<longleftrightarrow>
      together p x y \<or> together p x a \<and> together p b y \<or> together p x b \<and> together p a y"
    unfolding t' t[OF xy] t[OF xy(1) r(1)] t[OF r(2) xy(2)] t[OF xy(1) r(2)] t[OF r(1) xy(2)] using r(3) by auto
qed

lemma uf_union_returns:
  assumes f: "forest X p" and ab: "a \<in> X" "b \<in> X"
  shows "\<exists>q. uf_union a b p = Some q \<and> forest X q \<and> (\<forall>x \<in> X. \<forall>y \<in> X. together q x y \<longleftrightarrow>
      together p x y \<or> together p x a \<and> together p b y \<or> together p x b \<and> together p a y)"
proof -
  obtain ra p1 where u1: "uf_find a p = Some (ra, p1)" "root_of p a ra" "forest X p1" "same_roots p p1"
    using uf_find_returns[OF f ab(1)] by blast
  obtain rb p2 where u2: "uf_find b p1 = Some (rb, p2)" "root_of p1 b rb" "forest X p2" "same_roots p1 p2"
    using uf_find_returns[OF u1(3) ab(2)] by blast
  have s: "same_roots p p2" using u1 u2 same_roots_trans by blast
  have roots: "root_of p2 a ra" "root_of p2 b rb" using u1 u2 s by (auto simp: same_roots_def)
  have t: "together p2 x y \<longleftrightarrow> together p x y" if "x \<in> X" "y \<in> X" for x y
    using together_same[OF f s that] .
  show ?thesis
  proof (cases "ra = rb")
    case True
    then have "together p a b" using roots t ab unfolding together_def by blast
    have 1: "together p x y" if "together p x a" "together p b y" for x y
      using together_trans[OF together_trans[OF that(1) \<open>together p a b\<close>] that(2)] .
    have 2: "together p x y" if "together p x b" "together p a y" for x y
      using together_trans[OF together_trans[OF that(1) together_sym[OF \<open>together p a b\<close>]] that(2)] .
    have eq: "together p2 x y \<longleftrightarrow> together p x y \<or> together p x a \<and> together p b y \<or> together p x b \<and> together p a y"
      if "x \<in> X" "y \<in> X" for x y
      using t[OF that] 1[of x y] 2[of x y] by blast
    have "uf_union a b p = Some p2" using True u1(1) u2(1) by (simp add: uf_union_def)
    with eq u2(3) show ?thesis by blast
  next
    case False
    then show ?thesis using link_roots[OF u2(3) roots] u1 u2 t ab by (simp add: uf_union_def)
  qed
qed

lemma uf_unions_returns:
  "forest X p \<Longrightarrow> set es \<subseteq> X \<times> X \<Longrightarrow>
     \<exists>q. uf_unions es p = Some q \<and> forest X q \<and> (Together X q)\<^sup>* = (Together X p \<union> set es \<union> (set es)\<inverse>)\<^sup>*"
proof (induction es arbitrary: p)
  case (Cons e es)
  obtain a b where e: "e = (a, b)" by (cases e)
  have ab: "a \<in> X" "b \<in> X" using Cons.prems e by auto
  obtain p1 where p1: "uf_union a b p = Some p1" "forest X p1"
    and t: "\<And>x y. x \<in> X \<Longrightarrow> y \<in> X \<Longrightarrow> together p1 x y \<longleftrightarrow>
      together p x y \<or> together p x a \<and> together p b y \<or> together p x b \<and> together p a y"
    using uf_union_returns[OF Cons.prems(1) ab] by blast
  obtain q where q: "uf_unions es p1 = Some q" "forest X q" "(Together X q)\<^sup>* = (Together X p1 \<union> set es \<union> (set es)\<inverse>)\<^sup>*"
    using Cons.IH[OF p1(2)] Cons.prems by auto
  let ?R = "Together X p \<union> set (e # es) \<union> (set (e # es))\<inverse>"
  have refl: "together p x x" if "x \<in> X" for x using together_refl[OF Cons.prems(1) that] .
  have ab': "(a, b) \<in> Together X p1" "(b, a) \<in> Together X p1"
    using ab t refl by (auto simp: Together_def)
  have "Together X p1 \<subseteq> ?R\<^sup>*"
  proof (rule subrelI)
    fix x y assume "(x, y) \<in> Together X p1"
    then have xy: "x \<in> X" "y \<in> X" "together p1 x y" by (simp_all add: Together_def)
    have step: "(u, v) \<in> ?R\<^sup>*" if "u \<in> X" "v \<in> X" "together p u v" for u v using that by (auto simp: Together_def)
    have "(a, b) \<in> ?R\<^sup>*" "(b, a) \<in> ?R\<^sup>*" by (auto simp: e)
    with xy t[OF xy(1,2)] step ab show "(x, y) \<in> ?R\<^sup>*" by (meson rtrancl_trans)
  qed
  then have "(Together X p1 \<union> set es \<union> (set es)\<inverse>)\<^sup>* \<subseteq> ?R\<^sup>*"
    by (intro rtrancl_subset_rtrancl) auto
  moreover have "?R\<^sup>* \<subseteq> (Together X p1 \<union> set es \<union> (set es)\<inverse>)\<^sup>*"
    using ab' t by (intro rtrancl_mono) (auto simp: e Together_def)
  ultimately show ?case using p1 q by (auto simp: e)
qed simp

lemma Together_rtrancl:
  assumes "forest X p" "x \<in> X"
  shows "(x, y) \<in> (Together X p)\<^sup>* \<longleftrightarrow> y \<in> X \<and> together p x y"
proof
  assume "(x, y) \<in> (Together X p)\<^sup>*"
  then show "y \<in> X \<and> together p x y"
    by (induction rule: rtrancl_induct) (use assms together_refl together_trans in \<open>auto simp: Together_def\<close>)
qed (use assms in \<open>auto simp: Together_def\<close>)

lemma uf_roots_returns:
  "forest X p \<Longrightarrow> set xs \<subseteq> X \<Longrightarrow> distinct roots \<Longrightarrow>
     \<exists>rs. uf_roots xs p roots = Some rs \<and> distinct rs \<and> set rs = set roots \<union> {r. \<exists>x \<in> set xs. root_of p x r}"
proof (induction xs arbitrary: p roots)
  case (Cons x xs)
  obtain r q where q: "uf_find x p = Some (r, q)" "root_of p x r" "forest X q" "same_roots p q"
    using uf_find_returns[OF Cons.prems(1), of x] Cons.prems(2) by auto
  have d: "distinct (oset_add r roots)" using Cons.prems(3) by (simp add: oset_add_def)
  obtain rs where rs: "uf_roots xs q (oset_add r roots) = Some rs" "distinct rs"
    "set rs = set (oset_add r roots) \<union> {r. \<exists>x \<in> set xs. root_of q x r}"
    using Cons.IH[OF q(3) _ d] Cons.prems(2) by auto
  have "root_of q y s \<longleftrightarrow> root_of p y s" if "y \<in> X" for y s
    using that q(4) Cons.prems(1) root_of_det unfolding same_roots_def forest_def by metis
  then have "{r. \<exists>x \<in> set xs. root_of q x r} = {r. \<exists>x \<in> set xs. root_of p x r}" using Cons.prems(2) by auto
  moreover have "{s. root_of p x s} = {r}" using q(2) root_of_det by blast
  ultimately show ?case using q rs by (auto simp: oset_add_def)
qed simp


text \<open>\<open>linked es x y\<close>: a chain of edges, each taken in either direction, leads from \<open>x\<close> to \<open>y\<close>.\<close>

definition linked :: "(string \<times> string) list \<Rightarrow> string \<Rightarrow> string \<Rightarrow> bool" where
  "linked es x y \<longleftrightarrow> (x, y) \<in> (set es \<union> (set es)\<inverse>)\<^sup>*"

text \<open>The islands of the graph: the classes of \<open>linked\<close>.\<close>

definition islands :: "string list \<Rightarrow> (string \<times> string) list \<Rightarrow> string set set" where
  "islands ids es = (\<lambda>x. {y \<in> set ids. linked es x y}) ` set ids"

lemma start_forest: "forest (set ids) (omap_of (map (\<lambda>i. (i, i)) ids))"
  and start_together: "Together (set ids) (omap_of (map (\<lambda>i. (i, i)) ids)) \<subseteq> Id"
proof -
  let ?p = "omap_of (map (\<lambda>i. (i, i)) ids)"
  have p: "map_of ?p x = (if x \<in> set ids then Some x else None)" for x
    using map_of_map_restrict[of "\<lambda>i. i" "rev ids"] by (simp add: map_of_omap_of rev_map restrict_map_def)
  have r: "root_of ?p x r \<longleftrightarrow> x \<in> set ids \<and> r = x" for x r
  proof
    assume "root_of ?p x r"
    moreover from this have "x \<in> set ids" using root_of_in[of ?p x r] p by (auto split: if_splits)
    moreover from this have "root_of ?p x x" using p hops_root[of ?p x] by (auto simp: root_of_def)
    ultimately show "x \<in> set ids \<and> r = x" using root_of_det by blast
  next
    assume "x \<in> set ids \<and> r = x"
    then show "root_of ?p x r" using p hops_root[of ?p x] by (auto simp: root_of_def)
  qed
  show "forest (set ids) ?p" using r p by (auto simp: forest_def dom_def split: if_splits)
  show "Together (set ids) ?p \<subseteq> Id" using r by (auto simp: Together_def together_def)
qed

lemma together_image_card:
  assumes f: "forest X q"
  shows "card {r. \<exists>x \<in> X. root_of q x r} = card ((\<lambda>x. {y \<in> X. together q x y}) ` X)"
proof -
  define rt where "rt x = (THE r. root_of q x r)" for x
  have rt: "root_of q x r \<longleftrightarrow> r = rt x" if "x \<in> X" for x r
    using f that root_of_det unfolding forest_def rt_def by (metis the_equality)
  have A: "{r. \<exists>x \<in> X. root_of q x r} = rt ` X" using rt by auto
  have B: "{y \<in> X. together q x y} = {y \<in> X. rt y = rt x}" if "x \<in> X" for x
    using that rt by (auto simp: together_def)
  then have C: "(\<lambda>x. {y \<in> X. together q x y}) ` X = (\<lambda>r. {y \<in> X. rt y = r}) ` (rt ` X)" by auto
  have "inj_on (\<lambda>r. {y \<in> X. rt y = r}) (rt ` X)" by (rule inj_onI) auto
  then show ?thesis unfolding A C by (simp add: card_image)
qed

lemma computeWeakConnectivity_exact:
  assumes "set (edge_list ids adj) \<subseteq> set ids \<times> set ids"
  shows "computeWeakConnectivity ids adj = Some (card (islands ids (edge_list ids adj)),
     filter (\<lambda>i. \<forall>j. (i, j) \<notin> set (edge_list ids adj) \<and> (j, i) \<notin> set (edge_list ids adj)) ids)"
proof -
  let ?es = "edge_list ids adj" and ?X = "set ids" and ?p = "omap_of (map (\<lambda>i. (i, i)) ids)"
  obtain q where q: "uf_unions ?es ?p = Some q" "forest ?X q"
    "(Together ?X q)\<^sup>* = (Together ?X ?p \<union> set ?es \<union> (set ?es)\<inverse>)\<^sup>*"
    using uf_unions_returns[OF start_forest assms] by blast
  have "(Together ?X ?p \<union> set ?es \<union> (set ?es)\<inverse>)\<^sup>* = (set ?es \<union> (set ?es)\<inverse>)\<^sup>*"
  proof
    show "(Together ?X ?p \<union> set ?es \<union> (set ?es)\<inverse>)\<^sup>* \<subseteq> (set ?es \<union> (set ?es)\<inverse>)\<^sup>*"
      using start_together by (intro rtrancl_subset_rtrancl) auto
  qed (intro rtrancl_mono, auto)
  with q(3) have eq: "(Together ?X q)\<^sup>* = (set ?es \<union> (set ?es)\<inverse>)\<^sup>*" by simp
  have tog: "together q x y \<longleftrightarrow> linked ?es x y" if "x \<in> ?X" "y \<in> ?X" for x y
    using Together_rtrancl[OF q(2) that(1), of y] that eq by (simp add: linked_def)
  obtain rs where rs: "uf_roots ids q [] = Some rs" "distinct rs" "set rs = {r. \<exists>x \<in> ?X. root_of q x r}"
    using uf_roots_returns[OF q(2), of ids "[]"] by auto
  have "length rs = card ((\<lambda>x. {y \<in> ?X. together q x y}) ` ?X)"
    using together_image_card[OF q(2)] rs distinct_card[OF rs(2)] by simp
  also have "(\<lambda>x. {y \<in> ?X. together q x y}) ` ?X = islands ids ?es"
    unfolding islands_def using tog by (intro image_cong) auto
  finally have l: "length rs = card (islands ids ?es)" .
  have "filter (\<lambda>i. i \<notin> set (map fst ?es) \<union> set (map snd ?es)) ids =
      filter (\<lambda>i. \<forall>j. (i, j) \<notin> set ?es \<and> (j, i) \<notin> set ?es) ids"
    by (rule filter_cong) (auto simp: image_iff)
  with q(1) rs(1) l show ?thesis unfolding computeWeakConnectivity_def Let_def by simp
qed

section \<open>Longest chains\<close>

definition chain_from :: "adjacency \<Rightarrow> string \<Rightarrow> string list \<Rightarrow> bool" where
  "chain_from adj n xs \<longleftrightarrow> xs \<noteq> [] \<and> hd xs = n \<and> successively (\<lambda>a b. (a, b) \<in> edges adj) xs"

definition longest_is :: "adjacency \<Rightarrow> string \<Rightarrow> nat \<Rightarrow> bool" where
  "longest_is adj n d \<longleftrightarrow> (\<exists>xs. chain_from adj n xs \<and> length xs = d) \<and> (\<forall>xs. chain_from adj n xs \<longrightarrow> length xs \<le> d)"

definition memo_right :: "adjacency \<Rightarrow> memo \<Rightarrow> bool" where
  "memo_right adj memo \<longleftrightarrow> (\<forall>n d. map_of memo n = Some d \<longrightarrow> longest_is adj n d)"

lemma chain_from_Cons: "chain_from adj n xs \<longleftrightarrow>
    xs = [n] \<or> (\<exists>t \<in> set (neighbours adj n). \<exists>ys. chain_from adj t ys \<and> xs = n # ys)"
proof (cases xs)
  case (Cons a ys)
  then show ?thesis by (cases ys) (auto simp: chain_from_def edges_def)
qed (simp add: chain_from_def)

lemma longest_is_det: "longest_is adj n d \<Longrightarrow> longest_is adj n e \<Longrightarrow> d = e"
  unfolding longest_is_def by (metis le_antisym)

text \<open>What the loop over the targets makes of its maximum.\<close>

definition best_of :: "adjacency \<Rightarrow> string list \<Rightarrow> nat \<Rightarrow> nat \<Rightarrow> bool" where
  "best_of adj ts b0 b \<longleftrightarrow> b0 \<le> b \<and> (\<forall>t \<in> set ts. \<forall>d. longest_is adj t d \<longrightarrow> Suc d \<le> b)
     \<and> (b = b0 \<or> (\<exists>t \<in> set ts. \<exists>d. longest_is adj t d \<and> b = Suc d))"

lemma best_of_longest:
  assumes ts: "\<forall>t \<in> set (neighbours adj n). \<exists>d. longest_is adj t d" and b: "best_of adj (neighbours adj n) 1 b"
  shows "longest_is adj n b"
  unfolding longest_is_def
proof
  from b consider "b = 1" | t d where "t \<in> set (neighbours adj n)" "longest_is adj t d" "b = Suc d"
    unfolding best_of_def by blast
  then show "\<exists>xs. chain_from adj n xs \<and> length xs = b"
  proof cases
    case 1
    then show ?thesis using chain_from_Cons[of adj n "[n]"] by (intro exI[of _ "[n]"]) auto
  next
    case 2
    then obtain ys where "chain_from adj t ys" "length ys = d" unfolding longest_is_def by blast
    with 2 show ?thesis using chain_from_Cons[of adj n "n # ys"] by (intro exI[of _ "n # ys"]) auto
  qed
  show "\<forall>xs. chain_from adj n xs \<longrightarrow> length xs \<le> b"
  proof (intro allI impI)
    fix xs assume "chain_from adj n xs"
    then consider "xs = [n]" | t ys where "t \<in> set (neighbours adj n)" "chain_from adj t ys" "xs = n # ys"
      unfolding chain_from_Cons[of adj n xs] by blast
    then show "length xs \<le> b"
    proof cases
      case 1
      then show ?thesis using b by (simp add: best_of_def)
    next
      case 2
      then obtain d where d: "longest_is adj t d" using ts by blast
      with 2 b have "Suc d \<le> b" unfolding best_of_def by blast
      moreover have "length ys \<le> d" using d 2(2) unfolding longest_is_def by blast
      ultimately show ?thesis using 2(3) by simp
    qed
  qed
qed

definition chain_returns :: "adjacency \<Rightarrow> string \<Rightarrow> bool" where
  "chain_returns adj n \<longleftrightarrow> (\<forall>memo. memo_right adj memo \<longrightarrow>
     (\<exists>d memo1. chain_go adj (DepthFrom n) memo = Some (d, memo1) \<and> longest_is adj n d \<and> memo_right adj memo1))"

lemma over_targets_returns:
  "\<forall>t \<in> set ts. chain_returns adj t \<Longrightarrow> memo_right adj memo \<Longrightarrow>
     \<exists>b memo1. chain_go adj (OverTargets ts b0) memo = Some (b, memo1) \<and> best_of adj ts b0 b \<and> memo_right adj memo1"
proof (induction ts arbitrary: b0 memo)
  case Nil
  then show ?case by (simp add: chain_go.simps[of adj "OverTargets [] b0"] best_of_def)
next
  case (Cons t ts)
  have "chain_returns adj t" using Cons.prems(1) by simp
  then obtain d memo1 where d: "chain_go adj (DepthFrom t) memo = Some (d, memo1)" "longest_is adj t d" "memo_right adj memo1"
    using Cons.prems(2) unfolding chain_returns_def by blast
  obtain b memo2 where b: "chain_go adj (OverTargets ts (max b0 (Suc d))) memo1 = Some (b, memo2)"
    "best_of adj ts (max b0 (Suc d)) b" "memo_right adj memo2"
    using Cons.IH[OF _ d(3)] Cons.prems(1) by (metis list.set_intros(2))
  have t: "e = d" if "longest_is adj t e" for e using longest_is_det[OF that d(2)] .
  have "best_of adj (t # ts) b0 b"
    unfolding best_of_def
  proof (intro conjI)
    show "b0 \<le> b" using b(2) by (simp add: best_of_def)
    show "\<forall>u \<in> set (t # ts). \<forall>e. longest_is adj u e \<longrightarrow> Suc e \<le> b"
      using b(2) t by (auto simp: best_of_def)
    have "b = b0 \<or> b = Suc d \<or> (\<exists>u \<in> set ts. \<exists>e. longest_is adj u e \<and> b = Suc e)"
      using b(2) unfolding best_of_def by (metis max_def)
    then show "b = b0 \<or> (\<exists>u \<in> set (t # ts). \<exists>e. longest_is adj u e \<and> b = Suc e)" using d(2) by auto
  qed
  with d b show ?case by (auto simp: chain_go.simps[of adj "OverTargets (t # ts) b0"])
qed

lemma edges_finite: "finite (edges adj)"
proof (rule finite_subset)
  show "edges adj \<subseteq> fst ` set adj \<times> adjacent_nodes adj"
    using edges_source neighbours_adjacent by (fastforce simp: edges_def)
qed simp

lemma chain_go_returns:
  assumes "acyclic (edges adj)"
  shows "chain_returns adj n"
proof -
  have "wf ((edges adj)\<inverse>)" using finite_acyclic_wf_converse[OF edges_finite assms] .
  then show ?thesis
  proof (induction n rule: wf_induct_rule)
    case (less n)
    then have ts: "\<forall>t \<in> set (neighbours adj n). chain_returns adj t" by (simp add: edges_def)
    have right0: "memo_right adj []" by (simp add: memo_right_def)
    then have long: "\<forall>t \<in> set (neighbours adj n). \<exists>d. longest_is adj t d"
      using ts unfolding chain_returns_def by blast
    show ?case
      unfolding chain_returns_def
    proof (intro allI impI)
      fix memo assume m: "memo_right adj memo"
      show "\<exists>d memo1. chain_go adj (DepthFrom n) memo = Some (d, memo1) \<and> longest_is adj n d \<and> memo_right adj memo1"
      proof (cases "map_of memo n")
        case (Some d)
        with m show ?thesis unfolding memo_right_def by (auto simp: chain_go.simps[of adj "DepthFrom n"])
      next
        case None
        obtain b memo1 where b: "chain_go adj (OverTargets (neighbours adj n) 1) memo = Some (b, memo1)"
          "best_of adj (neighbours adj n) 1 b" "memo_right adj memo1"
          using over_targets_returns[OF ts m] by blast
        have l: "longest_is adj n b" using best_of_longest[OF long b(2)] .
        then have "memo_right adj (omap_set n b memo1)" using b(3) by (simp add: memo_right_def)
        with None b l show ?thesis by (auto simp: chain_go.simps[of adj "DepthFrom n"])
      qed
    qed
  qed
qed

lemma longest_from_returns:
  assumes ac: "acyclic (edges adj)"
  shows "memo_right adj memo \<Longrightarrow> \<exists>d. longest_from adj ids most memo = Some d \<and> most \<le> d
     \<and> (\<forall>i \<in> set ids. \<forall>e. longest_is adj i e \<longrightarrow> e \<le> d) \<and> (d = most \<or> (\<exists>i \<in> set ids. longest_is adj i d))"
proof (induction ids arbitrary: most memo)
  case (Cons i ids)
  obtain d memo1 where d: "chain_go adj (DepthFrom i) memo = Some (d, memo1)" "longest_is adj i d" "memo_right adj memo1"
    using chain_go_returns[OF ac, of i] Cons.prems unfolding chain_returns_def by blast
  obtain e where e: "longest_from adj ids (max most d) memo1 = Some e" "max most d \<le> e"
    "\<forall>i \<in> set ids. \<forall>k. longest_is adj i k \<longrightarrow> k \<le> e" "e = max most d \<or> (\<exists>i \<in> set ids. longest_is adj i e)"
    using Cons.IH[OF d(3)] by blast
  have "e = most \<or> e = d \<or> (\<exists>i \<in> set ids. longest_is adj i e)" using e(4) by (cases "most \<le> d") (auto simp: max_def)
  then have 1: "e = most \<or> (\<exists>j \<in> set (i # ids). longest_is adj j e)" using d(2) by auto
  have "k = d" if "longest_is adj i k" for k using longest_is_det[OF that d(2)] .
  then have 2: "\<forall>j \<in> set (i # ids). \<forall>k. longest_is adj j k \<longrightarrow> k \<le> e" using e(2,3) by auto
  have "longest_from adj (i # ids) most memo = Some e" using d(1) e(1) by simp
  then show ?case using 1 2 e(2) by (intro exI[of _ e]) simp
qed simp

end
