(* ===== verification/SubtaskDagProperties.thy ===== *)
theory SubtaskDagProperties
  imports SubtaskForest
begin

text \<open>
  The report of \<^verbatim>\<open>validateSubtaskDag\<close>: it is returned for every input, it is clean exactly for a well-formed
  decomposition, and its cycles, islands and depth are those of the dependency graph.
\<close>

section \<open>The two passes\<close>

definition ids_of :: "subtask list \<Rightarrow> string list" where
  "ids_of ts = oset_of (map st_id ts)"

definition deps_of :: "subtask list \<Rightarrow> string \<Rightarrow> string list" where
  "deps_of ts i = (case find (\<lambda>t. st_id t = i) ts of None \<Rightarrow> [] | Some t \<Rightarrow> dependenciesOf t)"

lemma set_ids_of: "set (ids_of ts) = st_id ` set ts"
  by (simp add: ids_of_def oset_of_def set_oset_fold)

lemma ids_of_snoc: "ids_of (ts @ [t]) = oset_add (st_id t) (ids_of ts)"
  by (simp add: ids_of_def oset_of_def)

lemma distinct_ids_of: "distinct (ids_of ts)"
  by (simp add: ids_of_def oset_of_def distinct_oset_fold)

lemma deps_of_snoc: "deps_of (ts @ [t]) i =
    (if i \<in> set (ids_of ts) then deps_of ts i else if i = st_id t then dependenciesOf t else [])"
  by (induction ts) (auto simp: deps_of_def set_ids_of)

lemma deps_of_distinct: "distinct (map st_id ts) \<Longrightarrow> t \<in> set ts \<Longrightarrow> deps_of ts (st_id t) = dependenciesOf t"
  by (induction ts) (auto simp: deps_of_def image_iff)

lemma identity_pass:
  "case fold identity_step ts ([], [], []) of (known, titles, ds) \<Rightarrow>
     known = ids_of ts \<and> (ds = [] \<longleftrightarrow> distinct (map st_id ts)) \<and> (\<forall>d \<in> set ds. dd_kind d = DuplicateId)"
proof (induction ts rule: rev_induct)
  case Nil
  then show ?case by (simp add: ids_of_def oset_of_def)
next
  case (snoc t ts)
  then show ?case
    by (auto simp: identity_step_def ids_of_snoc oset_add_def set_ids_of duplicate_defect_def image_iff
        split: prod.splits if_splits)
qed

definition kept_edge :: "string list \<Rightarrow> string \<Rightarrow> string \<Rightarrow> bool" where
  "kept_edge known i d \<longleftrightarrow> d \<noteq> i \<and> d \<in> set known"

lemma edge_pass:
  "fold (edge_step known titles i) es (deps, ds) = (deps', ds') \<Longrightarrow>
     set deps' = set deps \<union> {d \<in> set es. kept_edge known i d}
     \<and> (ds' = [] \<longleftrightarrow> ds = [] \<and> (\<forall>d \<in> set es. kept_edge known i d))"
proof (induction es arbitrary: deps ds)
  case (Cons e es)
  obtain deps1 ds1 where s: "edge_step known titles i e (deps, ds) = (deps1, ds1)" by fastforce
  have 1: "set deps1 = set deps \<union> {d. d = e \<and> kept_edge known i d}" "ds1 = [] \<longleftrightarrow> ds = [] \<and> kept_edge known i e"
    using s by (auto simp: edge_step_def kept_edge_def split: if_splits)
  from Cons.prems s have "fold (edge_step known titles i) es (deps1, ds1) = (deps', ds')" by simp
  from Cons.IH[OF this] 1 show ?case by auto
qed simp

definition graph_inv :: "string list \<Rightarrow> subtask list \<Rightarrow> dag_defect list \<Rightarrow> string list \<times> adjacency \<times> nat \<times> dag_defect list \<Rightarrow> bool" where
  "graph_inv known ts ds0 s \<longleftrightarrow> (case s of (ordered, adj, n, ds) \<Rightarrow>
     ordered = ids_of ts \<and> fst ` set adj = set ordered
     \<and> (\<forall>i \<in> set ordered. set (neighbours adj i) = {d \<in> set (deps_of ts i). kept_edge known i d})
     \<and> (ds = [] \<longleftrightarrow> ds0 = [] \<and> (\<forall>i \<in> set ordered. \<forall>d \<in> set (deps_of ts i). kept_edge known i d)))"

lemma graph_pass: "graph_inv known ts ds0 (fold (subtask_step known titles) ts ([], [], 0, ds0))"
proof (induction ts rule: rev_induct)
  case Nil
  then show ?case by (simp add: graph_inv_def ids_of_def oset_of_def)
next
  case (snoc t ts)
  obtain ordered adj n ds where s: "fold (subtask_step known titles) ts ([], [], 0, ds0) = (ordered, adj, n, ds)"
    by (metis prod_cases4)
  have inv: "ordered = ids_of ts" "fst ` set adj = set ordered"
    "\<forall>i \<in> set ordered. set (neighbours adj i) = {d \<in> set (deps_of ts i). kept_edge known i d}"
    "ds = [] \<longleftrightarrow> ds0 = [] \<and> (\<forall>i \<in> set ordered. \<forall>d \<in> set (deps_of ts i). kept_edge known i d)"
    using snoc unfolding s graph_inv_def by simp_all
  show ?case
  proof (cases "st_id t \<in> set ordered")
    case True
    then have "subtask_step known titles t (ordered, adj, n, ds) = (ordered, adj, n, ds)" by (simp add: subtask_step_def)
    with True s inv show ?thesis by (simp add: graph_inv_def ids_of_snoc deps_of_snoc oset_add_def)
  next
    case False
    obtain deps ds1 where e: "fold (edge_step known titles (st_id t)) (dependenciesOf t) ([], ds) = (deps, ds1)" by fastforce
    have 1: "set deps = {d \<in> set (dependenciesOf t). kept_edge known (st_id t) d}"
      "ds1 = [] \<longleftrightarrow> ds = [] \<and> (\<forall>d \<in> set (dependenciesOf t). kept_edge known (st_id t) d)"
      using edge_pass[OF e] by simp_all
    have step: "subtask_step known titles t (ordered, adj, n, ds)
        = (ordered @ [st_id t], omap_set (st_id t) deps adj, n + length deps, ds1)"
      using False e by (simp add: subtask_step_def)
    have ids: "ids_of (ts @ [t]) = ordered @ [st_id t]" using False inv(1) by (simp add: ids_of_snoc oset_add_def)
    have nb: "neighbours (omap_set (st_id t) deps adj) i = (if i = st_id t then deps else neighbours adj i)" for i
      by (simp add: neighbours_def)
    have old: "deps_of (ts @ [t]) i = deps_of ts i" if "i \<in> set ordered" for i using that inv(1) by (simp add: deps_of_snoc)
    have new: "deps_of (ts @ [t]) (st_id t) = dependenciesOf t" using False inv(1) by (simp add: deps_of_snoc)
    have "fst ` set (omap_set (st_id t) deps adj) = set (ordered @ [st_id t])"
      using inv(2) by (simp add: dom_map_of_conv_image_fst[symmetric])
    moreover have "set (neighbours (omap_set (st_id t) deps adj) i) = {d \<in> set (deps_of (ts @ [t]) i). kept_edge known i d}"
      if "i \<in> set (ordered @ [st_id t])" for i
      using that 1(1) inv(3) old new nb by auto
    moreover have "ds1 = [] \<longleftrightarrow> ds0 = [] \<and> (\<forall>i \<in> set (ordered @ [st_id t]). \<forall>d \<in> set (deps_of (ts @ [t]) i). kept_edge known i d)"
      using 1(2) inv(4) old new by auto
    ultimately show ?thesis using s step ids by (simp add: graph_inv_def)
  qed
qed

section \<open>Cycles\<close>

text \<open>A closed walk without another repetition: the reported path repeats its entry id at the end.\<close>

definition cycle_path :: "adjacency \<Rightarrow> string list \<Rightarrow> bool" where
  "cycle_path adj c \<longleftrightarrow> length c \<ge> 2 \<and> hd c = last c \<and> distinct (butlast c)
     \<and> successively (\<lambda>a b. (a, b) \<in> edges adj) c"

lemma last_index_hit: "m \<in> set p \<Longrightarrow> \<exists>k. last_index p m = Some k \<and> k < length p \<and> p ! k = m"
proof -
  assume m: "m \<in> set p"
  then obtain i where i: "find_index (\<lambda>y. y = m) (rev p) = Some i"
    by (cases "find_index (\<lambda>y. y = m) (rev p)") auto
  then have "i < length p" "rev p ! i = m" using find_index_Some[OF i] by auto
  then show ?thesis using i by (auto simp: last_index_def rev_nth)
qed

lemma closed_loop:
  assumes "closes_cycle adj p m" "k < length p" "p ! k = m"
  shows "cycle_path adj (drop k p @ [m])"
proof -
  have p: "p \<noteq> []" "distinct p" "(last p, m) \<in> edges adj" "successively (\<lambda>a b. (a, b) \<in> edges adj) p"
    using assms(1) by (auto simp: closes_cycle_def successively_nth)
  have "successively (\<lambda>a b. (a, b) \<in> edges adj) (drop k p)"
    using p(4) by (metis append_take_drop_id successively_append_iff)
  then have "successively (\<lambda>a b. (a, b) \<in> edges adj) (drop k p @ [m])"
    using p assms(2) by (simp add: successively_append_iff last_drop)
  moreover have "hd (drop k p @ [m]) = m" using assms by (simp add: hd_drop_conv_nth hd_append)
  ultimately show ?thesis using p(2) assms(2) by (simp add: cycle_path_def)
qed

definition cycles_right :: "adjacency \<Rightarrow> string list list \<times> string list \<Rightarrow> bool" where
  "cycles_right adj s \<longleftrightarrow> (\<forall>c \<in> set (fst s). cycle_path adj c) \<and> map normaliseCycleKey (fst s) = snd s \<and> distinct (snd s)"

lemma report_right:
  assumes "closes_cycle adj p m" "cycles_right adj s"
  shows "cycles_right adj (report_loop p m s) \<and> fst (report_loop p m s) \<noteq> []"
proof -
  obtain cs keys where s: "s = (cs, keys)" by fastforce
  obtain k where k: "last_index p m = Some k" "k < length p" "p ! k = m"
    using last_index_hit assms(1) unfolding closes_cycle_def by blast
  have "cycle_path adj (drop k p @ [m])" using closed_loop[OF assms(1) k(2,3)] .
  with k(1) assms(2) s show ?thesis by (auto simp: report_loop_def cycles_right_def Let_def)
qed

lemma detectCycles_right:
  shows "\<forall>c \<in> set (detectCycles ids adj). cycle_path adj c"
    and "distinct (map normaliseCycleKey (detectCycles ids adj))"
    and "detectCycles ids adj = [] \<longleftrightarrow> back_edges adj ids = []"
proof -
  have fold: "\<forall>(p, m) \<in> set es. closes_cycle adj p m \<Longrightarrow> cycles_right adj s \<Longrightarrow>
      cycles_right adj (fold (\<lambda>(p, m). report_loop p m) es s)
      \<and> (es \<noteq> [] \<or> fst s \<noteq> [] \<longrightarrow> fst (fold (\<lambda>(p, m). report_loop p m) es s) \<noteq> [])" for es s
  proof (induction es arbitrary: s)
    case (Cons e es)
    obtain p m where e: "e = (p, m)" by (cases e)
    then have "closes_cycle adj p m" using Cons.prems(1) by simp
    from report_right[OF this Cons.prems(2)] Cons.IH[of "report_loop p m s"] Cons.prems(1) e show ?case by simp
  qed simp
  have "\<forall>(p, m) \<in> set (back_edges adj ids). closes_cycle adj p m" using back_edges_close by blast
  from fold[OF this, of "([], [])"] have
    r: "cycles_right adj (found (search_all adj report_loop ids ([], [])))"
    "back_edges adj ids \<noteq> [] \<longrightarrow> detectCycles ids adj \<noteq> []"
    unfolding detectCycles_def found_search_all by (simp_all add: cycles_right_def)
  show "\<forall>c \<in> set (detectCycles ids adj). cycle_path adj c"
    using r(1) by (simp add: cycles_right_def detectCycles_def)
  show "distinct (map normaliseCycleKey (detectCycles ids adj))"
    using r(1) by (simp add: cycles_right_def detectCycles_def)
  show "detectCycles ids adj = [] \<longleftrightarrow> back_edges adj ids = []"
    using r(2) by (auto simp: detectCycles_def found_search_all)
qed


section \<open>The report\<close>

text \<open>The edges the report is about: of the first subtask with an id, to another known id.\<close>

definition known_edges :: "subtask list \<Rightarrow> (string \<times> string) set" where
  "known_edges ts = {(i, d). i \<in> st_id ` set ts \<and> d \<in> set (deps_of ts i) \<and> kept_edge (ids_of ts) i d}"

text \<open>The report in terms of them, for the titles, the adjacency, the edge count and the defects the passes leave.\<close>

definition lone_ids :: "subtask list \<Rightarrow> string list" where
  "lone_ids ts = filter (\<lambda>i. \<forall>j. (i, j) \<notin> known_edges ts \<and> (j, i) \<notin> known_edges ts) (ids_of ts)"

definition report_of :: "subtask list \<Rightarrow> titles \<Rightarrow> adjacency \<Rightarrow> nat \<Rightarrow> dag_defect list \<Rightarrow> nat \<Rightarrow> dag_report" where
  "report_of ts titles adj n ds depth =
     (let cycles = detectCycles (ids_of ts) adj; lone = (if length (ids_of ts) > 1 then lone_ids ts else []);
          defects = ds @ map cycle_defect cycles @ map (disconnected_defect titles) lone
      in \<lparr>dr_ok = (defects = []), dr_defects = defects, dr_subtaskCount = length ts, dr_dependencyCount = n, dr_cycles = cycles,
          dr_rootIds = js_sort (\<le>) (filter (\<lambda>i. \<forall>j. (j, i) \<notin> known_edges ts) (ids_of ts)),
          dr_sourceIds = js_sort (\<le>) (filter (\<lambda>i. \<forall>j. (i, j) \<notin> known_edges ts) (ids_of ts)),
          dr_disconnectedIds = js_sort (\<le>) lone,
          dr_componentCount = card (islands (ids_of ts) (edge_list (ids_of ts) adj)), dr_maxDepth = depth\<rparr>)"

lemma report_parts:
  obtains titles adj n ds where
    "validateSubtaskDag ts = map_option (report_of ts titles adj n ds)
       (if detectCycles (ids_of ts) adj \<noteq> [] then Some 0 else longestChainLength (ids_of ts) adj)"
    and "edges adj = known_edges ts" "set (edge_list (ids_of ts) adj) = known_edges ts" "fst ` set adj = set (ids_of ts)"
    and "ds = [] \<longleftrightarrow> distinct (map st_id ts)
       \<and> (\<forall>i \<in> set (ids_of ts). \<forall>d \<in> set (deps_of ts i). kept_edge (ids_of ts) i d)"
proof -
  obtain known titles ds1 where s1: "fold identity_step ts ([], [], []) = (known, titles, ds1)" by (metis prod_cases3)
  then have i: "known = ids_of ts" "ds1 = [] \<longleftrightarrow> distinct (map st_id ts)" using identity_pass[of ts] by simp_all
  obtain ordered adj n ds where s2: "fold (subtask_step known titles) ts ([], [], 0, ds1) = (ordered, adj, n, ds)"
    by (metis prod_cases4)
  have g: "ordered = ids_of ts" "fst ` set adj = set (ids_of ts)"
    "\<forall>i \<in> set (ids_of ts). set (neighbours adj i) = {d \<in> set (deps_of ts i). kept_edge known i d}"
    "ds = [] \<longleftrightarrow> ds1 = [] \<and> (\<forall>i \<in> set (ids_of ts). \<forall>d \<in> set (deps_of ts i). kept_edge known i d)"
    using graph_pass[of known ts ds1 titles] unfolding s2 graph_inv_def by auto
  have src: "a \<in> set (ids_of ts)" if "(a, b) \<in> edges adj" for a b using edges_source[OF that] g(2) by simp
  have e: "edges adj = known_edges ts"
  proof (rule set_eqI)
    fix x :: "string \<times> string" obtain a b where x: "x = (a, b)" by (cases x)
    show "x \<in> edges adj \<longleftrightarrow> x \<in> known_edges ts"
      using src[of a b] g(3) i(1) set_ids_of unfolding x by (auto simp: known_edges_def edges_def)
  qed
  have l: "set (edge_list (ids_of ts) adj) = known_edges ts"
    unfolding e[symmetric] using src by (auto simp: edge_list_def edges_def)
  have sub: "known_edges ts \<subseteq> set (ids_of ts) \<times> set (ids_of ts)"
    by (auto simp: known_edges_def kept_edge_def set_ids_of)
  have w: "computeWeakConnectivity (ids_of ts) adj = Some (card (islands (ids_of ts) (edge_list (ids_of ts) adj)),
      lone_ids ts)"
    using computeWeakConnectivity_exact[of "ids_of ts" adj] sub l by (simp add: lone_ids_def)
  have roots: "filter (\<lambda>i. i \<notin> set (concat (map (neighbours adj) (ids_of ts)))) (ids_of ts)
      = filter (\<lambda>i. \<forall>j. (j, i) \<notin> known_edges ts) (ids_of ts)"
    by (rule filter_cong) (use src in \<open>auto simp: e[symmetric] edges_def\<close>)
  have sources: "filter (\<lambda>i. neighbours adj i = []) (ids_of ts)
      = filter (\<lambda>i. \<forall>j. (i, j) \<notin> known_edges ts) (ids_of ts)"
    by (rule filter_cong) (auto simp: e[symmetric] edges_def)
  show thesis
  proof (rule that[of titles adj n ds])
    show "ds = [] \<longleftrightarrow> distinct (map st_id ts)
        \<and> (\<forall>i \<in> set (ids_of ts). \<forall>d \<in> set (deps_of ts i). kept_edge (ids_of ts) i d)" using g(4) i by simp
  next
    show "validateSubtaskDag ts = map_option (report_of ts titles adj n ds)
       (if detectCycles (ids_of ts) adj \<noteq> [] then Some 0 else longestChainLength (ids_of ts) adj)"
      unfolding validateSubtaskDag_def s1 prod.case s2 g(1) Let_def w roots sources bind.bind_lunit report_of_def
      by (cases "longestChainLength (ids_of ts) adj") auto
  qed (fact e l g(2))+
qed


text \<open>The recursion for the depth is entered only for an acyclic graph, where it returns.\<close>

lemma report_returns:
  obtains titles adj n ds depth where
    "validateSubtaskDag ts = Some (report_of ts titles adj n ds depth)"
    "edges adj = known_edges ts" "set (edge_list (ids_of ts) adj) = known_edges ts"
    "detectCycles (ids_of ts) adj = [] \<longleftrightarrow> acyclic (known_edges ts)"
    "ds = [] \<longleftrightarrow> distinct (map st_id ts)
       \<and> (\<forall>i \<in> set (ids_of ts). \<forall>d \<in> set (deps_of ts i). kept_edge (ids_of ts) i d)"
    "if acyclic (known_edges ts) then longest_from adj (ids_of ts) 0 [] = Some depth else depth = 0"
proof -
  obtain titles adj n ds where
    v: "validateSubtaskDag ts = map_option (report_of ts titles adj n ds)
       (if detectCycles (ids_of ts) adj \<noteq> [] then Some 0 else longestChainLength (ids_of ts) adj)"
    and e: "edges adj = known_edges ts" "set (edge_list (ids_of ts) adj) = known_edges ts" "fst ` set adj = set (ids_of ts)"
    and d: "ds = [] \<longleftrightarrow> distinct (map st_id ts)
       \<and> (\<forall>i \<in> set (ids_of ts). \<forall>d \<in> set (deps_of ts i). kept_edge (ids_of ts) i d)"
    by (rule report_parts)
  have ac: "detectCycles (ids_of ts) adj = [] \<longleftrightarrow> acyclic (known_edges ts)"
    using detectCycles_right(3)[of "ids_of ts" adj] back_edges_iff[of adj "ids_of ts"] e(1,3) by simp
  show thesis
  proof (cases "acyclic (known_edges ts)")
    case True
    then obtain k where k: "longest_from adj (ids_of ts) 0 [] = Some k"
      using longest_from_returns[of adj "[]" "ids_of ts" 0] e(1) by (auto simp: memo_right_def)
    with v ac True have "validateSubtaskDag ts = Some (report_of ts titles adj n ds k)"
      by (simp add: longestChainLength_def)
    from that[OF this e(1,2) ac d] True k show thesis by simp
  next
    case False
    with v ac have "validateSubtaskDag ts = Some (report_of ts titles adj n ds 0)" by simp
    from that[OF this e(1,2) ac d] False show thesis by simp
  qed
qed

section \<open>The verdict\<close>

text \<open>A decomposition as it should be, said of its subtasks alone.\<close>

definition prerequisites :: "subtask list \<Rightarrow> (string \<times> string) set" where
  "prerequisites ts = {(i, d). \<exists>t \<in> set ts. i = st_id t \<and> d \<in> set (dependenciesOf t)}"

definition well_formed :: "subtask list \<Rightarrow> bool" where
  "well_formed ts \<longleftrightarrow> distinct (map st_id ts)
     \<and> (\<forall>t \<in> set ts. \<forall>d \<in> set (dependenciesOf t). d \<in> st_id ` set ts)
     \<and> acyclic (prerequisites ts)
     \<and> (length ts > 1 \<longrightarrow> (\<forall>t \<in> set ts. \<exists>j. (st_id t, j) \<in> prerequisites ts \<or> (j, st_id t) \<in> prerequisites ts))"

lemma known_prerequisites:
  assumes "distinct (map st_id ts)" "\<forall>i \<in> set (ids_of ts). \<forall>d \<in> set (deps_of ts i). kept_edge (ids_of ts) i d"
  shows "known_edges ts = prerequisites ts"
  using assms(2) by (auto simp: known_edges_def prerequisites_def set_ids_of deps_of_distinct[OF assms(1)])

lemma length_ids_of: "distinct (map st_id ts) \<Longrightarrow> length (ids_of ts) = length ts"
  using distinct_card[OF distinct_ids_of[of ts]] distinct_card[of "map st_id ts"] by (simp add: set_ids_of)

text \<open>C32. \<^verbatim>\<open>validateSubtaskDag\<close> returns for every list of subtasks, a malformed one too (its pointer chases and its
  recursion end), and the report is ok exactly when the ids are distinct, every dependency is a subtask, no
  chain of dependencies leads back to its start (a self-dependency included), and, in a decomposition of more than
  one subtask, every subtask has an edge in some direction.\<close>

theorem dag_verdict_exact:
  "\<exists>r. validateSubtaskDag ts = Some r \<and> (dr_ok r \<longleftrightarrow> well_formed ts)"
proof -
  obtain titles adj n ds depth where
    v: "validateSubtaskDag ts = Some (report_of ts titles adj n ds depth)"
    and ac: "detectCycles (ids_of ts) adj = [] \<longleftrightarrow> acyclic (known_edges ts)"
    and ds: "ds = [] \<longleftrightarrow> distinct (map st_id ts)
       \<and> (\<forall>i \<in> set (ids_of ts). \<forall>d \<in> set (deps_of ts i). kept_edge (ids_of ts) i d)"
    by (rule report_returns)
  have lone: "(length (ids_of ts) > 1 \<longrightarrow> lone_ids ts = []) \<longleftrightarrow> (length ts > 1 \<longrightarrow>
      (\<forall>t \<in> set ts. \<exists>j. (st_id t, j) \<in> prerequisites ts \<or> (j, st_id t) \<in> prerequisites ts))"
    if "ds = []"
    using that ds known_prerequisites[of ts] length_ids_of[of ts]
    by (auto simp: lone_ids_def filter_empty_conv set_ids_of)
  have clean: "ds = [] \<longleftrightarrow> distinct (map st_id ts) \<and> (\<forall>t \<in> set ts. \<forall>d \<in> set (dependenciesOf t). d \<in> st_id ` set ts)"
    if "acyclic (prerequisites ts)"
  proof -
    have "\<forall>t \<in> set ts. st_id t \<notin> set (dependenciesOf t)"
      using \<open>acyclic (prerequisites ts)\<close> by (auto simp: acyclic_def prerequisites_def)
    then show ?thesis
      unfolding ds by (fastforce simp: kept_edge_def set_ids_of deps_of_distinct)
  qed
  have self: "acyclic (known_edges ts) \<longleftrightarrow> acyclic (prerequisites ts)" if "ds = []"
    using that ds known_prerequisites[of ts] by simp
  have "dr_ok (report_of ts titles adj n ds depth) \<longleftrightarrow> ds = [] \<and> detectCycles (ids_of ts) adj = []
      \<and> (length (ids_of ts) > 1 \<longrightarrow> lone_ids ts = [])"
    by (auto simp: report_of_def Let_def)
  also have "\<dots> \<longleftrightarrow> well_formed ts"
    unfolding well_formed_def using ac lone clean self by blast
  finally show ?thesis using v by blast
qed

section \<open>The shape\<close>

definition is_chain :: "subtask list \<Rightarrow> string list \<Rightarrow> bool" where
  "is_chain ts xs \<longleftrightarrow> xs \<noteq> [] \<and> hd xs \<in> st_id ` set ts \<and> successively (\<lambda>a b. (a, b) \<in> known_edges ts) xs"

definition depth_is :: "subtask list \<Rightarrow> nat \<Rightarrow> bool" where
  "depth_is ts d \<longleftrightarrow> (\<forall>xs. is_chain ts xs \<longrightarrow> length xs \<le> d)
     \<and> (if ts = [] then d = 0 else \<exists>xs. is_chain ts xs \<and> length xs = d)"

definition island_of :: "subtask list \<Rightarrow> string \<Rightarrow> string set" where
  "island_of ts x = {y \<in> st_id ` set ts. (x, y) \<in> (known_edges ts \<union> (known_edges ts)\<inverse>)\<^sup>*}"

definition shape_right :: "subtask list \<Rightarrow> dag_report \<Rightarrow> bool" where
  "shape_right ts r \<longleftrightarrow>
     (\<forall>c \<in> set (dr_cycles r). length c \<ge> 2 \<and> hd c = last c \<and> distinct (butlast c)
        \<and> successively (\<lambda>a b. (a, b) \<in> known_edges ts) c)
     \<and> distinct (map normaliseCycleKey (dr_cycles r)) \<and> (dr_cycles r = [] \<longleftrightarrow> acyclic (known_edges ts))
     \<and> dr_componentCount r = card (island_of ts ` st_id ` set ts)
     \<and> set (dr_rootIds r) = {i \<in> st_id ` set ts. \<forall>j. (j, i) \<notin> known_edges ts}
     \<and> set (dr_sourceIds r) = {i \<in> st_id ` set ts. \<forall>j. (i, j) \<notin> known_edges ts}
     \<and> (if acyclic (known_edges ts) then depth_is ts (dr_maxDepth r) else dr_maxDepth r = 0)"

lemma depth_found:
  assumes ac: "acyclic (edges adj)" and e: "edges adj = known_edges ts"
    and l: "longest_from adj (ids_of ts) 0 [] = Some d"
  shows "depth_is ts d"
proof -
  have right: "memo_right adj []" by (simp add: memo_right_def)
  have ch: "is_chain ts xs \<longleftrightarrow> (\<exists>i \<in> st_id ` set ts. chain_from adj i xs)" for xs
    by (auto simp: is_chain_def chain_from_def e)
  have d: "\<forall>i \<in> st_id ` set ts. \<forall>k. longest_is adj i k \<longrightarrow> k \<le> d" "d = 0 \<or> (\<exists>i \<in> st_id ` set ts. longest_is adj i d)"
    using longest_from_returns[OF ac right, of "ids_of ts" 0] l by (auto simp: set_ids_of)
  have ex: "\<exists>k. longest_is adj i k" for i using chain_go_returns[OF ac, of i] right unfolding chain_returns_def by blast
  have bound: "length xs \<le> d" if "is_chain ts xs" for xs
  proof -
    from iffD1[OF ch that] obtain i where i: "i \<in> st_id ` set ts" "chain_from adj i xs" by (rule bexE)
    obtain k where k: "longest_is adj i k" using ex by blast
    then have "length xs \<le> k" using i(2) by (simp add: longest_is_def)
    with d(1) i(1) k show ?thesis by (meson le_trans)
  qed
  moreover have "\<exists>xs. is_chain ts xs \<and> length xs = d" if "ts \<noteq> []"
  proof -
    from that obtain t where t: "t \<in> set ts" by (meson last_in_set)
    then have "is_chain ts [st_id t]" by (simp add: is_chain_def)
    from bound[OF this] have "d \<noteq> 0" by simp
    with d(2) obtain i where "i \<in> st_id ` set ts" "longest_is adj i d" by blast
    moreover from this(2) obtain xs where "chain_from adj i xs" "length xs = d" unfolding longest_is_def by blast
    ultimately show ?thesis using iffD2[OF ch bexI[of "\<lambda>i. chain_from adj i xs" i]] by blast
  qed
  moreover have "d = 0" if "ts = []" using d(2) that by simp
  ultimately show ?thesis unfolding depth_is_def by auto
qed

text \<open>C33. The shape summary is that of the graph of known edges, defects or not: every reported cycle is a closed path
  with no other repetition, no two have the same rotation key, and none is missed altogether; the component count is the
  number of islands, the roots are the ids nobody depends on and the sources those without a dependency; the depth is the
  number of nodes of the longest chain, and 0 for a cyclic graph.\<close>

theorem dag_shape_exact:
  "\<exists>r. validateSubtaskDag ts = Some r \<and> shape_right ts r"
proof -
  obtain titles adj n ds depth where
    v: "validateSubtaskDag ts = Some (report_of ts titles adj n ds depth)"
    and e: "edges adj = known_edges ts" "set (edge_list (ids_of ts) adj) = known_edges ts"
    and ac: "detectCycles (ids_of ts) adj = [] \<longleftrightarrow> acyclic (known_edges ts)"
    and dp: "if acyclic (known_edges ts) then longest_from adj (ids_of ts) 0 [] = Some depth else depth = 0"
    by (rule report_returns)
  let ?r = "report_of ts titles adj n ds depth"
  have "islands (ids_of ts) (edge_list (ids_of ts) adj) = island_of ts ` st_id ` set ts"
    unfolding islands_def set_ids_of by (intro image_cong refl) (simp add: island_of_def linked_def e(2))
  then have comp: "dr_componentCount ?r = card (island_of ts ` st_id ` set ts)" by (simp add: report_of_def Let_def)
  have cyc: "dr_cycles ?r = detectCycles (ids_of ts) adj" by (simp add: report_of_def Let_def)
  have depth: "if acyclic (known_edges ts) then depth_is ts (dr_maxDepth ?r) else dr_maxDepth ?r = 0"
    using dp depth_found[of adj ts depth] e(1) by (simp add: report_of_def Let_def)
  have ends: "set (dr_rootIds ?r) = {i \<in> st_id ` set ts. \<forall>j. (j, i) \<notin> known_edges ts}"
    "set (dr_sourceIds ?r) = {i \<in> st_id ` set ts. \<forall>j. (i, j) \<notin> known_edges ts}"
    by (simp_all add: report_of_def Let_def set_ids_of)
  have "\<forall>c \<in> set (dr_cycles ?r). cycle_path adj c" using detectCycles_right(1) cyc by simp
  then have "\<forall>c \<in> set (dr_cycles ?r). length c \<ge> 2 \<and> hd c = last c \<and> distinct (butlast c)
      \<and> successively (\<lambda>a b. (a, b) \<in> known_edges ts) c" by (simp add: cycle_path_def e(1))
  then have "shape_right ts ?r"
    unfolding shape_right_def using detectCycles_right(2)[of "ids_of ts" adj] ac cyc comp depth ends by simp
  with v show ?thesis by blast
qed

end
