(* ===== verification/ModelIdentity.thy ===== *)
theory ModelIdentity
  imports TextParts JsNumber
begin

text \<open>
  The identity of a model (\<^verbatim>\<open>src/core/model-identity.ts\<close>), the local-only policy
  (\<^verbatim>\<open>src/nklein-agent/nklein-local-only-policy.ts\<close>) over the local runtimes
  (\<^verbatim>\<open>local-runtime-capability-registry.ts\<close>), and the keys built of both (\<^verbatim>\<open>nklein-model-registry-key.ts\<close>). The
  platform's URL parser is the argument \<open>parse\<close>: the parts of a URL, or nothing when \<^verbatim>\<open>new URL\<close> throws.
\<close>

section \<open>Canonical coordinates\<close>

record url =
  protocol :: string
  hostname :: string
  port :: string
  pathname :: string
  search :: string

type_synonym url_platform = "string \<Rightarrow> url option"

text \<open>\<^verbatim>\<open>s || null\<close> on a string\<close>

definition or_null :: "string \<Rightarrow> string option" where
  "or_null s = (if s = [] then None else Some s)"

definition LOOPBACK_HOSTS :: "string list" where
  "LOOPBACK_HOSTS = [''127.0.0.1'', ''0.0.0.0'', ''::1'', ''[::1]'']"

definition UNRESOLVED_IDENTITY_SEGMENT :: string where
  "UNRESOLVED_IDENTITY_SEGMENT = ''unknown''"

definition normalizeProviderId :: "string \<Rightarrow> string" where
  "normalizeProviderId p =
     (let normalized = to_lower (trim p) in if normalized \<noteq> [] then normalized else UNRESOLVED_IDENTITY_SEGMENT)"

definition normalizeModelId :: "string \<Rightarrow> string" where
  "normalizeModelId m = (let normalized = trim m in if normalized \<noteq> [] then normalized else UNRESOLVED_IDENTITY_SEGMENT)"

definition isAttributableModelKey :: "string \<Rightarrow> bool" where
  "isAttributableModelKey k =
     (case split_on (CHR '':'') k of _ # m # _ \<Rightarrow> m \<noteq> UNRESOLVED_IDENTITY_SEGMENT | _ \<Rightarrow> True)"

text \<open>\<^verbatim>\<open>url.host\<close>, and setting \<^verbatim>\<open>url.hostname\<close> to \<^verbatim>\<open>localhost\<close>, which a file URL writes as the empty host.\<close>

definition url_host :: "url \<Rightarrow> string" where
  "url_host u = hostname u @ (if port u = [] then [] else '':'' @ port u)"

definition to_localhost :: "url \<Rightarrow> url" where
  "to_localhost u = u\<lparr>hostname := (if protocol u = ''file:'' then [] else ''localhost'')\<rparr>"

definition drop_trailing :: "char \<Rightarrow> string \<Rightarrow> string" where
  "drop_trailing c s = rev (dropWhile (\<lambda>x. x = c) (rev s))"

definition normalizeEndpoint :: "url_platform \<Rightarrow> string option \<Rightarrow> string option" where
  "normalizeEndpoint parse endpoint =
     (case endpoint of
        None \<Rightarrow> None
      | Some s \<Rightarrow>
          (if trim s = [] then None
           else (case parse (trim s) of
                   None \<Rightarrow> Some (trim s)
                 | Some u \<Rightarrow>
                     (let v = (if to_lower (hostname u) \<in> set LOOPBACK_HOSTS then to_localhost u else u)
                      in Some (protocol v @ ''//'' @ url_host v @ drop_trailing (CHR ''/'') (pathname v) @ search v)))))"

section \<open>Local runtimes\<close>

datatype context_honesty = Verified | SilentlyTruncated | Unverified

record runtime_capability =
  rt_providerId :: string
  rt_aliases :: "string list"
  liveDiscoveryOnly :: bool
  mergesLmsRoster :: bool
  supportsLoad :: bool
  persistsKvCacheAcrossUnload :: bool
  servedContextHonesty :: context_honesty

definition LOCAL_RUNTIME_CAPABILITIES :: "runtime_capability list" where
  "LOCAL_RUNTIME_CAPABILITIES =
     [\<lparr>rt_providerId = ''lmstudio'', rt_aliases = [''lm-studio''], liveDiscoveryOnly = True, mergesLmsRoster = True,
       supportsLoad = True, persistsKvCacheAcrossUnload = False, servedContextHonesty = Verified\<rparr>,
      \<lparr>rt_providerId = ''ollama'', rt_aliases = [], liveDiscoveryOnly = False, mergesLmsRoster = False,
       supportsLoad = False, persistsKvCacheAcrossUnload = False, servedContextHonesty = Unverified\<rparr>,
      \<lparr>rt_providerId = ''mlxserve'', rt_aliases = [''mlx-serve''], liveDiscoveryOnly = True, mergesLmsRoster = False,
       supportsLoad = False, persistsKvCacheAcrossUnload = False, servedContextHonesty = Unverified\<rparr>]"

definition CAPABILITY_BY_ID :: "(string, runtime_capability) omap" where
  "CAPABILITY_BY_ID = omap_of (concat (map
     (\<lambda>c. (rt_providerId c, c) # map (\<lambda>a. (a, c)) (rt_aliases c)) LOCAL_RUNTIME_CAPABILITIES))"

definition findLocalRuntimeCapability :: "string option \<Rightarrow> runtime_capability option" where
  "findLocalRuntimeCapability p =
     Option.bind (Option.bind p (\<lambda>s. or_null (to_lower (trim s)))) (map_of CAPABILITY_BY_ID)"

definition localRuntimeProviderIds :: "string list" where
  "localRuntimeProviderIds = oset_of (map fst CAPABILITY_BY_ID)"

section \<open>Local only\<close>

definition CLOUD_ENABLED :: bool where
  "CLOUD_ENABLED = False"

definition MANAGED_CLOUD_PROVIDER_IDS :: "string list" where
  "MANAGED_CLOUD_PROVIDER_IDS = [''nklein'', ''oca'', ''openai-codex'']"

text \<open>\<^verbatim>\<open>replace(/^\[|\]$/g, "")\<close>\<close>

definition unbracket :: "string \<Rightarrow> string" where
  "unbracket s =
     (let t = (if s \<noteq> [] \<and> hd s = CHR ''['' then tl s else s)
      in if t \<noteq> [] \<and> last t = CHR '']'' then butlast t else t)"

definition normalizeHost :: "url_platform \<Rightarrow> string option \<Rightarrow> string option" where
  "normalizeHost parse baseUrl =
     (case baseUrl of
        None \<Rightarrow> None
      | Some s \<Rightarrow>
          (let v = trim s in
           if v = [] then None
           else map_option (\<lambda>u. unbracket (to_lower (hostname u)))
                  (parse (if str_includes v ''://'' then v else ''http://'' @ v))))"

definition octet_digits :: "string \<Rightarrow> bool" where
  "octet_digits p \<longleftrightarrow> 1 \<le> length p \<and> length p \<le> 3 \<and> list_all is_digit p"

definition private_ipv4 :: "string \<Rightarrow> bool" where
  "private_ipv4 host =
     (case split_on (CHR ''.'') host of
        [a, b, c, d] \<Rightarrow>
          list_all octet_digits [a, b, c, d]
          \<and> (let n = digits_val a; k = digits_val b in
               n = 10 \<or> n = 127 \<or> n = 192 \<and> k = 168 \<or> n = 172 \<and> 16 \<le> k \<and> k \<le> 31
               \<or> n = 169 \<and> k = 254 \<or> n = 100 \<and> 64 \<le> k \<and> k \<le> 127)
      | _ \<Rightarrow> False)"

definition local_host :: "string \<Rightarrow> bool" where
  "local_host host =
     (if host = ''localhost'' \<or> host = ''127.0.0.1'' \<or> host = ''::1'' \<or> host = ''0.0.0.0'' then True
      else if suffix ''.local'' host \<or> suffix ''.localhost'' host then True
      else if CHR '':'' \<in> set host \<and> (host = ''::'' \<or> prefix ''fe80'' host \<or> prefix ''fc'' host \<or> prefix ''fd'' host) then True
      else private_ipv4 host)"

definition isLocalBaseUrl :: "url_platform \<Rightarrow> string option \<Rightarrow> bool" where
  "isLocalBaseUrl parse baseUrl =
     (case normalizeHost parse baseUrl of None \<Rightarrow> False | Some host \<Rightarrow> host \<noteq> [] \<and> local_host host)"

definition isLocalProvider :: "url_platform \<Rightarrow> string \<Rightarrow> string option \<Rightarrow> bool" where
  "isLocalProvider parse p baseUrl =
     (let i = to_lower (trim p) in
      if i = [] then False
      else if i \<in> set MANAGED_CLOUD_PROVIDER_IDS then False
      else if i \<in> set localRuntimeProviderIds then True
      else isLocalBaseUrl parse baseUrl)"

text \<open>The error carries the provider's id.\<close>

datatype cloud_error = CloudProviderDisabled string

definition assertLocalProviderAllowed :: "url_platform \<Rightarrow> string \<Rightarrow> string option \<Rightarrow> cloud_error + unit" where
  "assertLocalProviderAllowed parse p baseUrl =
     (if CLOUD_ENABLED then Inr ()
      else if isLocalProvider parse p baseUrl then Inr ()
      else Inl (CloudProviderDisabled (if trim p = [] then ''unconfigured'' else trim p)))"

section \<open>Keys\<close>

record model_key =
  mk_providerId :: string
  mk_modelId :: string
  mk_endpoint :: "string option"

definition buildSharedLocalEndpointId :: "url_platform \<Rightarrow> 'a model_key_scheme \<Rightarrow> string option" where
  "buildSharedLocalEndpointId parse k =
     (if \<not> isLocalProvider parse (mk_providerId k) (mk_endpoint k) then None
      else (let endpoint = (case mk_endpoint k of None \<Rightarrow> mk_providerId k @ '':default'' | Some e \<Rightarrow> e);
                m = trim (mk_modelId k)
            in Some (if m \<noteq> [] then endpoint @ ''#'' @ m else endpoint)))"

definition buildNKleinModelRegistryKey :: "url_platform \<Rightarrow> 'a model_key_scheme \<Rightarrow> string" where
  "buildNKleinModelRegistryKey parse k =
     normalizeProviderId (mk_providerId k) @ '':'' @ normalizeModelId (mk_modelId k) @ '':''
       @ (case normalizeEndpoint parse (mk_endpoint k) of None \<Rightarrow> ''default'' | Some e \<Rightarrow> e)"

section \<open>Facts\<close>

lemma of_lower_char: "of_char (lower_char c) =
    (let n = of_char c :: nat in if 65 \<le> n \<and> n \<le> 90 \<or> 192 \<le> n \<and> n \<le> 222 \<and> n \<noteq> 215 then n + 32 else n)"
  by (auto simp: lower_char_def Let_def)

lemma lower_char_idem [simp]: "lower_char (lower_char c) = lower_char c"
  by (rule of_char_eq_iff[where ?'a = nat, THEN iffD1]) (auto simp: of_lower_char Let_def)

lemma lower_char_ws [simp]: "is_ws (lower_char c) = is_ws c"
  by (auto simp: is_ws_def of_lower_char Let_def)

lemma to_lower_idem [simp]: "to_lower (to_lower s) = to_lower s"
  by (simp add: to_lower_def)

lemma dropWhile_ws_lower: "dropWhile is_ws (map lower_char s) = map lower_char (dropWhile is_ws s)"
  by (induction s) auto

lemma trim_lower: "trim (to_lower s) = to_lower (trim s)"
  by (simp add: to_lower_def trim_def trim_start_def trim_end_def dropWhile_ws_lower rev_map)

lemma to_lower_Nil [simp]: "to_lower s = [] \<longleftrightarrow> s = []" "to_lower [] = []"
  by (simp_all add: to_lower_def)

lemma normalizeProviderId_idem [simp]: "normalizeProviderId (normalizeProviderId p) = normalizeProviderId p"
proof (cases "trim p = []")
  case True
  then show ?thesis by (simp add: normalizeProviderId_def UNRESOLVED_IDENTITY_SEGMENT_def) code_simp
next
  case False
  then show ?thesis by (simp add: normalizeProviderId_def trim_lower)
qed

lemma normalizeModelId_idem [simp]: "normalizeModelId (normalizeModelId m) = normalizeModelId m"
proof (cases "trim m = []")
  case True
  then show ?thesis by (simp add: normalizeModelId_def UNRESOLVED_IDENTITY_SEGMENT_def) code_simp
next
  case False
  then show ?thesis by (simp add: normalizeModelId_def)
qed

text \<open>Of the link-local range \<^verbatim>\<open>fe80::/10\<close> only the addresses written with the prefix \<^verbatim>\<open>fe80\<close> are local.\<close>

lemma link_local_part_refused: "local_host ''fe80::1'' \<and> \<not> local_host ''fe90::1'' \<and> \<not> local_host ''febf::1''"
  by code_simp

end
