(* ===== verification/EndpointScheduler.thy ===== *)
theory EndpointScheduler
  imports ModelIdentity DurableRegistry
begin

text \<open>
  The endpoint scheduler (\<^verbatim>\<open>src/nklein-agent/nklein-endpoint-scheduler.ts\<close>): whether a task may start a session on its
  model now. Five gates are asked in turn, for the provider, the endpoint, the host, the machine and the shared
  model endpoint. The clock, the locale's number text and the environment's cap are arguments (\<open>sched_env\<close>).
\<close>

section \<open>Requests\<close>

record endpoint_session = model_key +
  es_taskId :: string
  es_state :: session_state
  es_startedAt :: "jsnum option"
  es_hostId :: "string option"

record registry_entry =
  re_sharedEndpointId :: "string option"
  re_maxConcurrentRequests :: "jsnum option"
  re_wallTimeMsEwma :: "jsnum option"
  re_lastWallTimeMs :: "jsnum option"

type_synonym model_registry = "(string, registry_entry) omap"

record sched_request = model_key +
  rq_taskId :: string
  rq_runningSessions :: "endpoint_session list"
  rq_modelRegistry :: model_registry
  rq_now :: "jsnum option"
  rq_hostId :: "string option"
  rq_providerConcurrencyCap :: "jsnum option"
  rq_modelConcurrencyCap :: "jsnum option"
  rq_endpointConcurrencyCap :: "jsnum option"
  rq_hostConcurrencyCap :: "jsnum option"
  rq_perMachineCap :: "jsnum option"
  rq_machineByModelId :: "(string, string) omap option"

record sched_env =
  url_of :: url_platform
  clock :: jsnum
  sharedEndpointEnv :: "string option"
  localeString :: "jsnum \<Rightarrow> string"

datatype sched_decision = Admit
  | Hold (blockedByTaskId: string) (sharedEndpointId: string) (estimatedWaitMs: "jsnum option") (reason: string)

section \<open>The resource a model shares\<close>

definition hasRealModelIdentity :: "'a model_key_scheme \<Rightarrow> bool" where
  "hasRealModelIdentity i \<longleftrightarrow> trim (mk_providerId i) \<noteq> [] \<and> trim (mk_modelId i) \<noteq> []"

definition local_coordinates :: "sched_env \<Rightarrow> 'a model_key_scheme \<Rightarrow> bool" where
  "local_coordinates env i =
     isLocalProvider (url_of env) (normalizeProviderId (mk_providerId i)) (normalizeEndpoint (url_of env) (mk_endpoint i))"

definition getLegacySharedEndpointId :: "sched_env \<Rightarrow> 'a model_key_scheme \<Rightarrow> string option" where
  "getLegacySharedEndpointId env i =
     (if \<not> local_coordinates env i then None
      else (case normalizeEndpoint (url_of env) (mk_endpoint i) of
              None \<Rightarrow> Some (normalizeProviderId (mk_providerId i) @ '':default'')
            | Some e \<Rightarrow> Some e))"

definition getFallbackSharedEndpointId :: "sched_env \<Rightarrow> 'a model_key_scheme \<Rightarrow> string option" where
  "getFallbackSharedEndpointId env i =
     (case getLegacySharedEndpointId env i of
        None \<Rightarrow> None
      | Some legacy \<Rightarrow>
          (if legacy = [] \<or> normalizeModelId (mk_modelId i) = [] then Some legacy
           else Some (legacy @ ''#'' @ normalizeModelId (mk_modelId i))))"

text \<open>The registry's entry of a model, looked up by its normalised coordinates.\<close>

definition registry_key :: "sched_env \<Rightarrow> 'a model_key_scheme \<Rightarrow> string" where
  "registry_key env i = buildNKleinModelRegistryKey (url_of env)
     \<lparr>mk_providerId = normalizeProviderId (mk_providerId i), mk_modelId = normalizeModelId (mk_modelId i),
      mk_endpoint = normalizeEndpoint (url_of env) (mk_endpoint i)\<rparr>"

definition getSharedEndpointId :: "sched_env \<Rightarrow> model_registry \<Rightarrow> 'a model_key_scheme \<Rightarrow> string option" where
  "getSharedEndpointId env reg i =
     (if \<not> hasRealModelIdentity i then None
      else if \<not> local_coordinates env i then None
      else (let shared = (case Option.bind (map_of reg (registry_key env i)) re_sharedEndpointId of
                            None \<Rightarrow> [] | Some s \<Rightarrow> trim s)
            in if shared \<noteq> [] \<and> Some shared \<noteq> getLegacySharedEndpointId env i then Some shared
               else getFallbackSharedEndpointId env i))"

section \<open>Caps and hosts\<close>

definition normalizePositiveCap :: "jsnum option \<Rightarrow> jsnum option" where
  "normalizePositiveCap v =
     (case v of None \<Rightarrow> None | Some n \<Rightarrow> (if js_isFinite n \<and> js_ge n (Fin 1) then Some (js_trunc n) else None))"

text \<open>\<^verbatim>\<open>Number.parseInt(s, 10)\<close>\<close>

definition js_parseInt :: "string \<Rightarrow> jsnum" where
  "js_parseInt s =
     (let t = trim_start s; neg = (t \<noteq> [] \<and> hd t = CHR ''-'');
          u = (if t \<noteq> [] \<and> (hd t = CHR ''-'' \<or> hd t = CHR ''+'') then tl t else t); ds = takeWhile is_digit u
      in if ds = [] then NaN
         else Fin (if neg then - of_nat (digits_val ds) else of_nat (digits_val ds)))"

definition resolveRequestHostId :: "sched_request \<Rightarrow> string option" where
  "resolveRequestHostId rq =
     (case Option.bind (rq_hostId rq) (\<lambda>h. or_null (trim h)) of
        Some h \<Rightarrow> Some h
      | None \<Rightarrow> Option.bind (Option.bind (rq_machineByModelId rq) (\<lambda>m. map_of m (mk_modelId rq))) (\<lambda>h. or_null (trim h)))"

definition resolveSessionHostId :: "(string, string) omap \<Rightarrow> endpoint_session \<Rightarrow> string option" where
  "resolveSessionHostId machines s =
     (case Option.bind (es_hostId s) (\<lambda>h. or_null (trim h)) of
        Some h \<Rightarrow> Some h
      | None \<Rightarrow> Option.bind (map_of machines (mk_modelId s)) (\<lambda>h. or_null (trim h)))"

text \<open>The waiter queue speaks of a resource by these ids.\<close>

definition opt_resource :: "string option \<Rightarrow> string list \<Rightarrow> string list" where
  "opt_resource r rs = (case r of None \<Rightarrow> rs | Some x \<Rightarrow> oset_add x rs)"

definition getNKleinEndpointSchedulingResourceIds :: "sched_env \<Rightarrow> sched_request \<Rightarrow> string list" where
  "getNKleinEndpointSchedulingResourceIds env rq =
     (let p = normalizeProviderId (mk_providerId rq);
          endpoint = Option.bind (normalizeEndpoint (url_of env) (mk_endpoint rq)) or_null;
          is_local = local_coordinates env rq; host = resolveRequestHostId rq;
          mapped = rq_machineByModelId rq \<noteq> None;
          r1 = opt_resource (if is_local \<and> normalizePositiveCap (rq_providerConcurrencyCap rq) \<noteq> None
                             then Some (''provider:'' @ p) else None) [];
          r2 = opt_resource (case endpoint of None \<Rightarrow> None
                 | Some e \<Rightarrow> if is_local \<and> normalizePositiveCap (rq_endpointConcurrencyCap rq) \<noteq> None
                            then Some (''pool:'' @ e) else None) r1;
          r3 = opt_resource (case host of None \<Rightarrow> None
                 | Some h \<Rightarrow> if mapped \<and> normalizePositiveCap (rq_hostConcurrencyCap rq) \<noteq> None
                            then Some (''host:'' @ h) else None) r2;
          r4 = opt_resource (case host of None \<Rightarrow> None
                 | Some h \<Rightarrow> if mapped \<and> normalizePositiveCap (rq_perMachineCap rq) \<noteq> None
                            then Some (''machine:'' @ h) else None) r3
      in opt_resource (Option.bind (getSharedEndpointId env (rq_modelRegistry rq) rq) or_null) r4)"

definition registry_limit :: "sched_env \<Rightarrow> model_registry \<Rightarrow> 'a model_key_scheme \<Rightarrow> jsnum option" where
  "registry_limit env reg i = Option.bind (map_of reg (registry_key env i)) re_maxConcurrentRequests"

definition getMaxConcurrentRequests :: "sched_env \<Rightarrow> model_registry \<Rightarrow> 'a model_key_scheme \<Rightarrow> jsnum" where
  "getMaxConcurrentRequests env reg i =
     (if \<not> hasRealModelIdentity i then Fin 1
      else (case registry_limit env reg i of
              Some n \<Rightarrow> (if js_isFinite n \<and> js_gt n (Fin 0) then js_trunc n else Fin 1)
            | None \<Rightarrow> Fin 1))"

section \<open>Waiting times\<close>

definition getObservedWallTimeMs :: "sched_env \<Rightarrow> model_registry \<Rightarrow> 'a model_key_scheme \<Rightarrow> jsnum option" where
  "getObservedWallTimeMs env reg i =
     (if \<not> hasRealModelIdentity i then None
      else (let e = map_of reg (registry_key env i);
                wall = (case Option.bind e re_wallTimeMsEwma of Some w \<Rightarrow> Some w | None \<Rightarrow> Option.bind e re_lastWallTimeMs)
            in (case wall of
                  Some w \<Rightarrow> (if js_isFinite w \<and> js_gt w (Fin 0) then Some (js_trunc w) else None)
                | None \<Rightarrow> None)))"

definition positive_start :: "endpoint_session \<Rightarrow> jsnum option" where
  "positive_start s = (case es_startedAt s of
     Some t \<Rightarrow> (if js_isFinite t \<and> js_gt t (Fin 0) then Some t else None) | None \<Rightarrow> None)"

definition estimateRemainingEndpointWaitMs :: "sched_env \<Rightarrow> model_registry \<Rightarrow> endpoint_session \<Rightarrow> jsnum \<Rightarrow> jsnum option" where
  "estimateRemainingEndpointWaitMs env reg s now =
     (case getObservedWallTimeMs env reg s of
        None \<Rightarrow> None
      | Some observed \<Rightarrow>
          (case positive_start s of
             None \<Rightarrow> Some observed
           | Some t \<Rightarrow> Some (js_max (Fin 0) (js_sub observed (js_max (Fin 0) (js_sub now t))))))"

definition formatEstimatedWait :: "sched_env \<Rightarrow> jsnum option \<Rightarrow> string" where
  "formatEstimatedWait env w =
     (case w of
        None \<Rightarrow> []
      | Some ms \<Rightarrow> '' Estimated wait from observed model speed: about ''
          @ localeString env (js_max (Fin 1) (js_ceil (js_mul ms (Fin (1 / 1000))))) @ ''s.'')"

section \<open>The gates\<close>

definition other_running :: "sched_request \<Rightarrow> endpoint_session list" where
  "other_running rq = filter (\<lambda>s. es_taskId s \<noteq> rq_taskId rq \<and> es_state s = Running) (rq_runningSessions rq)"

definition evaluateProviderConcurrencyGate :: "sched_env \<Rightarrow> sched_request \<Rightarrow> sched_decision option" where
  "evaluateProviderConcurrencyGate env rq =
     (case normalizePositiveCap (rq_providerConcurrencyCap rq) of
        None \<Rightarrow> None
      | Some cap \<Rightarrow>
          (let p = normalizeProviderId (mk_providerId rq) in
           if \<not> local_coordinates env rq then None
           else (let ss = filter (\<lambda>s. normalizeProviderId (mk_providerId s) = p) (other_running rq) in
                 if js_lt (js_of_nat (length ss)) cap \<or> ss = [] then None
                 else Some (Hold (es_taskId (hd ss)) (''provider:'' @ p) None
                   (''Provider '' @ quote_str p @ '' is at its '' @ num_str cap
                    @ '' concurrent-session cap; another !Klein task on this provider must finish first.'')))))"

definition evaluateEndpointPoolConcurrencyGate :: "sched_env \<Rightarrow> sched_request \<Rightarrow> sched_decision option" where
  "evaluateEndpointPoolConcurrencyGate env rq =
     (case normalizePositiveCap (rq_endpointConcurrencyCap rq) of
        None \<Rightarrow> None
      | Some cap \<Rightarrow>
          (case Option.bind (normalizeEndpoint (url_of env) (mk_endpoint rq)) or_null of
             None \<Rightarrow> None
           | Some e \<Rightarrow>
               (if \<not> local_coordinates env rq then None
                else (let ss = filter (\<lambda>s. normalizeEndpoint (url_of env) (mk_endpoint s) = Some e) (other_running rq) in
                      if js_lt (js_of_nat (length ss)) cap \<or> ss = [] then None
                      else Some (Hold (es_taskId (hd ss)) (''pool:'' @ e) None
                        (''Machine pool '' @ quote_str e @ '' is at its '' @ num_str cap
                         @ '' concurrent-session cap; another !Klein task on this machine must finish first.''))))))"

definition on_host :: "sched_request \<Rightarrow> string \<Rightarrow> endpoint_session \<Rightarrow> bool" where
  "on_host rq h s \<longleftrightarrow>
     resolveSessionHostId (case rq_machineByModelId rq of None \<Rightarrow> [] | Some m \<Rightarrow> m) s = Some h"

definition evaluateMachinePoolConcurrencyGate :: "sched_request \<Rightarrow> sched_decision option" where
  "evaluateMachinePoolConcurrencyGate rq =
     (case normalizePositiveCap (rq_perMachineCap rq) of
        None \<Rightarrow> None
      | Some cap \<Rightarrow>
          (if rq_machineByModelId rq = None then None
           else (case resolveRequestHostId rq of
                   None \<Rightarrow> None
                 | Some h \<Rightarrow>
                     (let ss = filter (on_host rq h) (other_running rq) in
                      if js_lt (js_of_nat (length ss)) cap then None
                      else Some (Hold (case ss of [] \<Rightarrow> rq_taskId rq | s # _ \<Rightarrow> es_taskId s) (''machine:'' @ h) None
                        (''Machine '' @ quote_str h @ '' is at its '' @ num_str cap
                         @ '' concurrent-session cap; another !Klein task on this machine must finish first.''))))))"

definition evaluateHostConcurrencyGate :: "sched_request \<Rightarrow> sched_decision option" where
  "evaluateHostConcurrencyGate rq =
     (case normalizePositiveCap (rq_hostConcurrencyCap rq) of
        None \<Rightarrow> None
      | Some cap \<Rightarrow>
          (if rq_machineByModelId rq = None then None
           else (case resolveRequestHostId rq of
                   None \<Rightarrow> None
                 | Some h \<Rightarrow>
                     (let ss = filter (on_host rq h) (other_running rq) in
                      if js_lt (js_of_nat (length ss)) cap \<or> ss = [] then None
                      else Some (Hold (es_taskId (hd ss)) (''host:'' @ h) None
                        (''LM Studio host '' @ quote_str h @ '' is at its '' @ num_str cap
                         @ '' concurrent-session cap; another !Klein task on this host must finish first.''))))))"

section \<open>The decision\<close>

definition EXTERNAL_LMS_HOLDER_PREFIX :: string where
  "EXTERNAL_LMS_HOLDER_PREFIX = ''external-lms:''"

definition reusable_phantom :: "sched_request \<Rightarrow> endpoint_session \<Rightarrow> bool" where
  "reusable_phantom rq s \<longleftrightarrow>
     prefix EXTERNAL_LMS_HOLDER_PREFIX (es_taskId s) \<and> normalizeModelId (mk_modelId s) = normalizeModelId (mk_modelId rq)"

definition withoutSameModelExternalLmsReuse :: "sched_request \<Rightarrow> sched_request" where
  "withoutSameModelExternalLmsReuse rq =
     (if \<not> list_ex (reusable_phantom rq) (rq_runningSessions rq) then rq
      else rq\<lparr>rq_runningSessions := filter (\<lambda>s. \<not> reusable_phantom rq s) (rq_runningSessions rq)\<rparr>)"

definition first_some :: "'a option list \<Rightarrow> 'a option" where
  "first_some xs = (case List.map_filter (\<lambda>x. x) xs of [] \<Rightarrow> None | x # _ \<Rightarrow> Some x)"

definition model_limit :: "sched_env \<Rightarrow> sched_request \<Rightarrow> jsnum" where
  "model_limit env rq =
     (case first_some [normalizePositiveCap (rq_modelConcurrencyCap rq),
                       normalizePositiveCap (Some (js_parseInt (case sharedEndpointEnv env of None \<Rightarrow> [] | Some s \<Rightarrow> s)))] of
        Some n \<Rightarrow> n
      | None \<Rightarrow> getMaxConcurrentRequests env (rq_modelRegistry rq) rq)"

text \<open>The session expected to free up soonest.\<close>

definition sooner :: "sched_env \<Rightarrow> model_registry \<Rightarrow> jsnum \<Rightarrow> endpoint_session \<Rightarrow> endpoint_session \<times> jsnum option
    \<Rightarrow> endpoint_session \<times> jsnum option" where
  "sooner env reg now s e =
     (let w = estimateRemainingEndpointWaitMs env reg s now in
      case snd e of
        None \<Rightarrow> (s, w)
      | Some ew \<Rightarrow> (case w of None \<Rightarrow> e | Some sw \<Rightarrow> if js_lt sw ew then (s, w) else e))"

text \<open>Reading a property of \<^verbatim>\<open>undefined\<close> throws.\<close>

datatype sched_error = TypeError

definition scheduleNKleinEndpointStart :: "sched_env \<Rightarrow> sched_request \<Rightarrow> sched_error + sched_decision" where
  "scheduleNKleinEndpointStart env raw =
     (let rq = withoutSameModelExternalLmsReuse raw in
      case first_some [evaluateProviderConcurrencyGate env rq, evaluateEndpointPoolConcurrencyGate env rq,
                       evaluateHostConcurrencyGate rq, evaluateMachinePoolConcurrencyGate rq] of
        Some d \<Rightarrow> Inr d
      | None \<Rightarrow>
          (case Option.bind (getSharedEndpointId env (rq_modelRegistry rq) rq) or_null of
             None \<Rightarrow> Inr Admit
           | Some e \<Rightarrow>
               (let now = (case rq_now rq of None \<Rightarrow> clock env | Some t \<Rightarrow> t); limit = model_limit env rq;
                    ss = filter (\<lambda>s. getSharedEndpointId env (rq_modelRegistry rq) s = Some e) (other_running rq)
                in if js_lt (js_of_nat (length ss)) limit then Inr Admit
                   else (case ss of
                           [] \<Rightarrow> Inl TypeError
                         | s # rest \<Rightarrow>
                             (case fold (sooner env (rq_modelRegistry rq) now) rest
                                     (s, estimateRemainingEndpointWaitMs env (rq_modelRegistry rq) s now) of
                                (holder, wait) \<Rightarrow> Inr (Hold (es_taskId holder) e wait
                                  (''Another !Klein task is already running on shared endpoint '' @ quote_str e @ ''.''
                                   @ (if js_gt limit (Fin 1)
                                      then '' Shared endpoint is at its '' @ num_str limit @ '' concurrent-request capacity.''
                                      else []) @ formatEstimatedWait env wait)))))))"

end
