(* ===== verification/EndpointGates.thy ===== *)
theory EndpointGates
  imports EndpointScheduler
begin

text \<open>
  The five gates of the scheduler, said as one list of constraints: a resource, its cap and the sessions that
  occupy it. A start is admitted when every constraint has room, and a denial names one that has none.
\<close>

section \<open>Constraints\<close>

type_synonym gate = "string \<times> jsnum \<times> (endpoint_session \<Rightarrow> bool)"

definition full :: "sched_request \<Rightarrow> gate \<Rightarrow> bool" where
  "full rq g \<longleftrightarrow> \<not> js_lt (js_of_nat (length (filter (snd (snd g)) (other_running rq)))) (fst (snd g))"

definition provider_gate :: "sched_env \<Rightarrow> sched_request \<Rightarrow> gate option" where
  "provider_gate env rq = (case normalizePositiveCap (rq_providerConcurrencyCap rq) of
     None \<Rightarrow> None
   | Some cap \<Rightarrow> (if local_coordinates env rq
       then Some (''provider:'' @ normalizeProviderId (mk_providerId rq), cap,
                  \<lambda>s. normalizeProviderId (mk_providerId s) = normalizeProviderId (mk_providerId rq)) else None))"

definition pool_gate :: "sched_env \<Rightarrow> sched_request \<Rightarrow> gate option" where
  "pool_gate env rq = (case (normalizePositiveCap (rq_endpointConcurrencyCap rq),
      Option.bind (normalizeEndpoint (url_of env) (mk_endpoint rq)) or_null) of
     (Some cap, Some e) \<Rightarrow> (if local_coordinates env rq
       then Some (''pool:'' @ e, cap, \<lambda>s. normalizeEndpoint (url_of env) (mk_endpoint s) = Some e) else None)
   | _ \<Rightarrow> None)"

definition machine_like_gate :: "string \<Rightarrow> jsnum option \<Rightarrow> sched_request \<Rightarrow> gate option" where
  "machine_like_gate name cap rq = (case (normalizePositiveCap cap, resolveRequestHostId rq) of
     (Some c, Some h) \<Rightarrow> (if rq_machineByModelId rq \<noteq> None then Some (name @ h, c, on_host rq h) else None)
   | _ \<Rightarrow> None)"

definition model_gate :: "sched_env \<Rightarrow> sched_request \<Rightarrow> gate option" where
  "model_gate env rq = (case Option.bind (getSharedEndpointId env (rq_modelRegistry rq) rq) or_null of
     None \<Rightarrow> None
   | Some e \<Rightarrow> Some (e, model_limit env rq, \<lambda>s. getSharedEndpointId env (rq_modelRegistry rq) s = Some e))"

definition gates :: "sched_env \<Rightarrow> sched_request \<Rightarrow> gate list" where
  "gates env rq = List.map_filter (\<lambda>g. g)
     [provider_gate env rq, pool_gate env rq, machine_like_gate ''host:'' (rq_hostConcurrencyCap rq) rq,
      machine_like_gate ''machine:'' (rq_perMachineCap rq) rq, model_gate env rq]"

text \<open>The resources named for the waiter queue are those of the constraints.\<close>

lemma set_opt_resource [simp]: "set (opt_resource r rs) = set_option r \<union> set rs"
  by (auto simp: opt_resource_def oset_add_def split: option.splits)

lemma set_map_filter_id: "set (List.map_filter (\<lambda>x. x) xs) = \<Union> (set_option ` set xs)"
  by (induction xs) (auto simp: map_filter_simps split: option.splits)

definition gate_options :: "sched_env \<Rightarrow> sched_request \<Rightarrow> gate option list" where
  "gate_options env rq = [provider_gate env rq, pool_gate env rq, machine_like_gate ''host:'' (rq_hostConcurrencyCap rq) rq,
     machine_like_gate ''machine:'' (rq_perMachineCap rq) rq, model_gate env rq]"

lemma gates_mem: "x \<in> set (gates env rq) \<longleftrightarrow> Some x \<in> set (gate_options env rq)"
  unfolding gates_def gate_options_def[symmetric] set_map_filter_id by (simp add: elem_set)

lemma model_gate_option: "model_gate env rq \<in> set (gate_options env rq)"
  by (simp add: gate_options_def)

lemma gate_resources:
  "(if local_coordinates env rq \<and> normalizePositiveCap (rq_providerConcurrencyCap rq) \<noteq> None
      then Some (''provider:'' @ normalizeProviderId (mk_providerId rq)) else None) = map_option fst (provider_gate env rq)"
  "(case Option.bind (normalizeEndpoint (url_of env) (mk_endpoint rq)) or_null of None \<Rightarrow> None
      | Some e \<Rightarrow> if local_coordinates env rq \<and> normalizePositiveCap (rq_endpointConcurrencyCap rq) \<noteq> None
          then Some (''pool:'' @ e) else None) = map_option fst (pool_gate env rq)"
  "(case resolveRequestHostId rq of None \<Rightarrow> None
      | Some h \<Rightarrow> if rq_machineByModelId rq \<noteq> None \<and> normalizePositiveCap cap \<noteq> None
          then Some (name @ h) else None) = map_option fst (machine_like_gate name cap rq)"
  "Option.bind (getSharedEndpointId env (rq_modelRegistry rq) rq) or_null = map_option fst (model_gate env rq)"
  by (auto simp: provider_gate_def pool_gate_def machine_like_gate_def model_gate_def split: option.split)

lemma resource_ids_gates: "set (getNKleinEndpointSchedulingResourceIds env rq) = fst ` set (gates env rq)"
  unfolding getNKleinEndpointSchedulingResourceIds_def Let_def set_opt_resource gate_resources gates_def
    set_map_filter_id option.set_map image_Union
  by auto

section \<open>One gate\<close>

definition holds_for :: "sched_request \<Rightarrow> gate option \<Rightarrow> sched_decision option \<Rightarrow> bool" where
  "holds_for rq g d \<longleftrightarrow> (case g of
     None \<Rightarrow> d = None
   | Some g \<Rightarrow> (if full rq g
       then (\<exists>s w r. s \<in> set (other_running rq) \<and> snd (snd g) s \<and> d = Some (Hold (es_taskId s) (fst g) w r))
       else d = None))"

lemma cap_positive: "normalizePositiveCap v = Some c \<Longrightarrow> \<exists>k. c = js_of_nat (Suc k)"
proof -
  assume a: "normalizePositiveCap v = Some c"
  then obtain q where q: "v = Some (Fin q)" "1 \<le> q" "c = Fin (of_int (rat_trunc q))"
    by (auto simp: normalizePositiveCap_def js_finite_cases split: option.splits if_splits)
  then have "1 \<le> rat_trunc q" by (simp add: rat_trunc_def)
  then have "c = js_of_nat (Suc (nat (rat_trunc q) - 1))"
    using q(3) by (simp add: Suc_diff_Suc of_nat_diff flip: of_nat_Suc)
  then show ?thesis by blast
qed

lemma full_occupied:
  assumes "full rq (r, c, occ)" "normalizePositiveCap v = Some c"
  shows "filter occ (other_running rq) \<noteq> []"
  using assms cap_positive[OF assms(2)] by (auto simp: full_def simp del: of_nat_Suc)

lemma hd_filter: "filter P xs \<noteq> [] \<Longrightarrow> hd (filter P xs) \<in> set xs \<and> P (hd (filter P xs))"
  using hd_in_set[of "filter P xs"] by simp

lemma gate_case:
  assumes "normalizePositiveCap v = Some c"
  shows "holds_for rq (Some (r, c, occ))
    (if js_lt (js_of_nat (length (filter occ (other_running rq)))) c \<or> filter occ (other_running rq) = [] then None
     else Some (Hold (es_taskId (hd (filter occ (other_running rq)))) r w msg))"
  using full_occupied[of rq r c occ, OF _ assms] hd_filter[of occ "other_running rq"]
  by (auto simp: holds_for_def full_def)

lemmas gate_unfold = Let_def option.case prod.case if_True if_False not_True_eq_False not_False_eq_True option.distinct
  simp_thms

lemma holds_for_None: "holds_for rq None None"
  by (simp add: holds_for_def)

lemma provider_holds: "holds_for rq (provider_gate env rq) (evaluateProviderConcurrencyGate env rq)"
proof (cases "normalizePositiveCap (rq_providerConcurrencyCap rq)")
  case (Some c)
  show ?thesis
    by (cases "local_coordinates env rq")
       (simp_all only: evaluateProviderConcurrencyGate_def provider_gate_def Some gate_unfold gate_case[OF Some] holds_for_None)
qed (simp add: evaluateProviderConcurrencyGate_def provider_gate_def holds_for_def)

lemma pool_holds: "holds_for rq (pool_gate env rq) (evaluateEndpointPoolConcurrencyGate env rq)"
proof (cases "normalizePositiveCap (rq_endpointConcurrencyCap rq)")
  case (Some c)
  show ?thesis
    by (cases "Option.bind (normalizeEndpoint (url_of env) (mk_endpoint rq)) or_null"; cases "local_coordinates env rq")
       (simp_all only: evaluateEndpointPoolConcurrencyGate_def pool_gate_def Some gate_unfold gate_case[OF Some] holds_for_None)
qed (simp add: evaluateEndpointPoolConcurrencyGate_def pool_gate_def holds_for_def)

lemma host_holds: "holds_for rq (machine_like_gate ''host:'' (rq_hostConcurrencyCap rq) rq) (evaluateHostConcurrencyGate rq)"
proof (cases "normalizePositiveCap (rq_hostConcurrencyCap rq)")
  case (Some c)
  show ?thesis
    by (cases "resolveRequestHostId rq"; cases "rq_machineByModelId rq")
       (simp_all only: evaluateHostConcurrencyGate_def machine_like_gate_def Some gate_unfold gate_case[OF Some] holds_for_None)
qed (simp add: evaluateHostConcurrencyGate_def machine_like_gate_def holds_for_def)

lemma machine_holds: "holds_for rq (machine_like_gate ''machine:'' (rq_perMachineCap rq) rq) (evaluateMachinePoolConcurrencyGate rq)"
proof (cases "normalizePositiveCap (rq_perMachineCap rq)")
  case (Some c)
  show ?thesis
  proof (cases "resolveRequestHostId rq")
    case h: (Some h)
    have "filter (on_host rq h) (other_running rq) \<noteq> []" if "full rq (''machine:'' @ h, c, on_host rq h)"
      using full_occupied[OF that Some] .
    then show ?thesis using Some h hd_filter[of "on_host rq h" "other_running rq"]
      by (cases "rq_machineByModelId rq"; cases "filter (on_host rq h) (other_running rq)")
         (auto simp: evaluateMachinePoolConcurrencyGate_def machine_like_gate_def Let_def holds_for_def full_def)
  qed (use Some in \<open>simp add: evaluateMachinePoolConcurrencyGate_def machine_like_gate_def holds_for_def\<close>)
qed (simp add: evaluateMachinePoolConcurrencyGate_def machine_like_gate_def holds_for_def)

section \<open>The reported holder\<close>

text \<open>An estimate is a number, unless the clock is not.\<close>

lemma estimate_number:
  assumes "now \<noteq> NaN" "estimateRemainingEndpointWaitMs env reg s now = Some x"
  shows "x \<noteq> NaN"
proof -
  obtain q where o1: "getObservedWallTimeMs env reg s = Some (Fin q)"
    using assms(2) by (cases "getObservedWallTimeMs env reg s")
      (auto simp: estimateRemainingEndpointWaitMs_def getObservedWallTimeMs_def Let_def js_finite_cases
        split: option.splits if_splits)
  show ?thesis
  proof (cases "positive_start s")
    case None
    with assms(2) o1 show ?thesis by (auto simp: estimateRemainingEndpointWaitMs_def)
  next
    case (Some t)
    then obtain r where "t = Fin r" by (auto simp: positive_start_def js_finite_cases split: option.splits if_splits)
    with Some o1 assms show ?thesis
      by (cases now) (auto simp: estimateRemainingEndpointWaitMs_def js_sub_def js_max_def split: if_splits)
  qed
qed

lemma sooner_fold:
  assumes now: "now \<noteq> NaN"
  shows "\<lbrakk>e = (h0, estimateRemainingEndpointWaitMs env reg h0 now); fold (sooner env reg now) ss e = (h, w)\<rbrakk> \<Longrightarrow>
     h \<in> insert h0 (set ss) \<and> w = estimateRemainingEndpointWaitMs env reg h now
     \<and> (\<forall>s \<in> insert h0 (set ss). \<forall>x. estimateRemainingEndpointWaitMs env reg s now = Some x \<longrightarrow>
          (\<exists>y. w = Some y \<and> \<not> js_lt x y))"
proof (induction ss arbitrary: e h0)
  case Nil
  then show ?case by auto
next
  case (Cons s ss)
  let ?est = "\<lambda>s. estimateRemainingEndpointWaitMs env reg s now"
  obtain h1 where h1: "sooner env reg now s e = (h1, ?est h1)" "h1 = h0 \<or> h1 = s"
    and better: "\<And>u x. u \<in> {h0, s} \<Longrightarrow> ?est u = Some x \<Longrightarrow> \<exists>y. ?est h1 = Some y \<and> \<not> js_lt x y"
  proof (cases "?est h0")
    case None
    with Cons.prems(1) show thesis by (intro that[of s]) (auto simp: sooner_def)
  next
    case (Some w0)
    show thesis
    proof (cases "?est s")
      case None
      with Some Cons.prems(1) show thesis by (intro that[of h0]) (auto simp: sooner_def)
    next
      case (Some ws)
      note both = \<open>?est h0 = Some w0\<close> Some
      show thesis
      proof (cases "js_lt ws w0")
        case True
        then have "\<not> js_lt w0 ws" using js_lt_trans[of w0 ws w0] by auto
        with True both Cons.prems(1) show thesis by (intro that[of s]) (auto simp: sooner_def)
      next
        case False
        with both Cons.prems(1) show thesis by (intro that[of h0]) (auto simp: sooner_def)
      qed
    qed
  qed
  from Cons.prems(2) h1(1) have f: "fold (sooner env reg now) ss (h1, ?est h1) = (h, w)" by simp
  have ih: "h \<in> insert h1 (set ss)" "w = ?est h"
    "\<forall>u \<in> insert h1 (set ss). \<forall>x. ?est u = Some x \<longrightarrow> (\<exists>y. w = Some y \<and> \<not> js_lt x y)"
    using Cons.IH[OF refl f] by blast+
  have "\<exists>y. w = Some y \<and> \<not> js_lt x y" if "u \<in> insert h0 (set (s # ss))" "?est u = Some x" for u x
  proof (cases "u \<in> set ss")
    case True
    with ih(3) that(2) show ?thesis by blast
  next
    case False
    with that(1) have "u \<in> {h0, s}" by auto
    with better that(2) obtain y where y: "?est h1 = Some y" "\<not> js_lt x y" by blast
    from y(1) obtain z where z: "w = Some z" "\<not> js_lt y z" using ih(3) by blast
    have "\<not> js_lt x z"
    proof
      assume "js_lt x z"
      moreover have "y \<noteq> NaN" using estimate_number[OF now y(1)] .
      ultimately show False using y(2) z(2) by (cases x; cases y; cases z) auto
    qed
    with z show ?thesis by blast
  qed
  with ih h1(2) show ?case by auto
qed


lemma sooner_member: "fold (sooner env reg now) ss e = (h, w) \<Longrightarrow> h \<in> insert (fst e) (set ss)"
proof (induction ss arbitrary: e)
  case (Cons s ss)
  have "fst (sooner env reg now s e) \<in> {s, fst e}" by (auto simp: sooner_def Let_def split: option.splits)
  with Cons.IH[of "sooner env reg now s e"] Cons.prems show ?case by auto
qed simp

section \<open>The decision\<close>

text \<open>The registry holds positive integers, as its own normaliser writes them.\<close>

definition sound_registry :: "model_registry \<Rightarrow> bool" where
  "sound_registry reg \<longleftrightarrow>
     list_all (\<lambda>e. case re_maxConcurrentRequests (snd e) of None \<Rightarrow> True | Some n \<Rightarrow> js_isFinite n \<and> js_ge n (Fin 1)) reg"

lemma normalizePositiveCap_self: "js_isFinite n \<Longrightarrow> js_ge n (Fin 1) \<Longrightarrow> normalizePositiveCap (Some n) = Some (js_trunc n)"
  by (simp add: normalizePositiveCap_def)

lemma model_limit_positive:
  assumes "sound_registry (rq_modelRegistry rq)"
  shows "\<exists>k. model_limit env rq = js_of_nat (Suc k)"
proof -
  have one: "\<exists>k. Fin 1 = js_of_nat (Suc k)" by (rule exI[of _ 0]) simp
  have reg: "\<exists>k. getMaxConcurrentRequests env (rq_modelRegistry rq) rq = js_of_nat (Suc k)"
  proof (cases "hasRealModelIdentity rq \<and> registry_limit env (rq_modelRegistry rq) rq \<noteq> None")
    case True
    then obtain e n where e: "map_of (rq_modelRegistry rq) (registry_key env rq) = Some e" "re_maxConcurrentRequests e = Some n"
      by (auto simp: registry_limit_def bind_eq_Some_conv)
    then have "js_isFinite n \<and> js_ge n (Fin 1)"
      using assms map_of_SomeD[OF e(1)] by (auto simp: sound_registry_def list_all_iff)
    then show ?thesis
      using cap_positive[OF normalizePositiveCap_self[of n]] True e
      by (cases n) (auto simp: getMaxConcurrentRequests_def registry_limit_def)
  next
    case False
    with one show ?thesis by (auto simp: getMaxConcurrentRequests_def)
  qed
  show ?thesis
    using reg cap_positive
    by (auto simp: model_limit_def first_some_def map_filter_simps simp del: of_nat_Suc split: option.splits)
qed

definition unshadowed :: "sched_request \<Rightarrow> sched_request" where
  "unshadowed rq = withoutSameModelExternalLmsReuse rq"

lemma sessions_frame [simp]:
  "local_coordinates env (rq\<lparr>rq_runningSessions := x\<rparr>) = local_coordinates env rq"
  "hasRealModelIdentity (rq\<lparr>rq_runningSessions := x\<rparr>) = hasRealModelIdentity rq"
  "registry_key env (rq\<lparr>rq_runningSessions := x\<rparr>) = registry_key env rq"
  "resolveRequestHostId (rq\<lparr>rq_runningSessions := x\<rparr>) = resolveRequestHostId rq"
  "on_host (rq\<lparr>rq_runningSessions := x\<rparr>) = on_host rq"
  for rq :: sched_request
  by (simp_all add: local_coordinates_def hasRealModelIdentity_def registry_key_def resolveRequestHostId_def on_host_def fun_eq_iff
      cong: option.case_cong Option.bind_cong if_cong)

lemma sessions_frame2 [simp]:
  "getSharedEndpointId env reg (rq\<lparr>rq_runningSessions := x\<rparr>) = getSharedEndpointId env reg rq"
  "getMaxConcurrentRequests env reg (rq\<lparr>rq_runningSessions := x\<rparr>) = getMaxConcurrentRequests env reg rq"
  for rq :: sched_request
  by (simp_all add: getSharedEndpointId_def getFallbackSharedEndpointId_def getLegacySharedEndpointId_def
      getMaxConcurrentRequests_def registry_limit_def Let_def cong: option.case_cong Option.bind_cong if_cong)

lemma gate_frame [simp]:
  "provider_gate env (rq\<lparr>rq_runningSessions := x\<rparr>) = provider_gate env rq"
  "pool_gate env (rq\<lparr>rq_runningSessions := x\<rparr>) = pool_gate env rq"
  "machine_like_gate name cap (rq\<lparr>rq_runningSessions := x\<rparr>) = machine_like_gate name cap rq"
  "model_gate env (rq\<lparr>rq_runningSessions := x\<rparr>) = model_gate env rq"
  by (simp_all add: provider_gate_def pool_gate_def machine_like_gate_def model_gate_def model_limit_def
      cong: option.case_cong if_cong)

lemma gates_unshadowed: "gates env (unshadowed rq) = gates env rq"
  by (simp add: unshadowed_def withoutSameModelExternalLmsReuse_def gates_def del: map_filter_simps)

text \<open>A denial is for a constraint that is full, and names one of its occupants.\<close>

definition justified :: "sched_env \<Rightarrow> sched_request \<Rightarrow> sched_decision \<Rightarrow> bool" where
  "justified env rq d \<longleftrightarrow> (case d of
     Admit \<Rightarrow> \<not> list_ex (full rq) (gates env rq)
   | Hold b r w msg \<Rightarrow> list_ex (\<lambda>g. fst g = r \<and> full rq g
       \<and> list_ex (\<lambda>s. es_taskId s = b \<and> snd (snd g) s) (other_running rq)) (gates env rq))"

lemma holds_cases:
  assumes "holds_for rq g d"
  shows "d = None \<and> (\<forall>x. g = Some x \<longrightarrow> \<not> full rq x)
    \<or> (\<exists>x s w r. g = Some x \<and> full rq x \<and> s \<in> set (other_running rq) \<and> snd (snd x) s \<and> d = Some (Hold (es_taskId s) (fst x) w r))"
  using assms by (auto simp: holds_for_def split: option.splits if_splits)

lemma held_justified:
  assumes "holds_for rq g (Some d)" "g \<in> set (gate_options env rq)"
  shows "justified env rq d"
proof -
  obtain x s w r where x: "g = Some x" "full rq x" "s \<in> set (other_running rq)" "snd (snd x) s" "d = Hold (es_taskId s) (fst x) w r"
    using holds_cases[OF assms(1)] by auto
  have "x \<in> set (gates env rq)" using assms(2) x(1) by (simp add: gates_mem)
  with x show ?thesis by (auto simp: justified_def list_ex_iff)
qed

lemma first_some_cases:
  "first_some xs = None \<Longrightarrow> x \<in> set xs \<Longrightarrow> x = None"
  "first_some xs = Some y \<Longrightarrow> Some y \<in> set xs"
  by (induction xs) (auto simp: first_some_def map_filter_simps split: option.splits)

lemma schedule_justified:
  assumes "sound_registry (rq_modelRegistry raw)"
  shows "\<exists>d. scheduleNKleinEndpointStart env raw = Inr d \<and> justified env (unshadowed raw) d"
proof -
  define rq where "rq = unshadowed raw"
  have reg: "sound_registry (rq_modelRegistry rq)"
    using assms by (simp add: rq_def unshadowed_def withoutSameModelExternalLmsReuse_def)
  let ?ds = "[evaluateProviderConcurrencyGate env rq, evaluateEndpointPoolConcurrencyGate env rq,
      evaluateHostConcurrencyGate rq, evaluateMachinePoolConcurrencyGate rq]"
  have sched: "scheduleNKleinEndpointStart env raw = (case first_some ?ds of Some d \<Rightarrow> Inr d | None \<Rightarrow> scheduleNKleinEndpointStart env raw)"
    by (simp add: scheduleNKleinEndpointStart_def rq_def unshadowed_def Let_def split: option.splits)
  show ?thesis
  proof (cases "first_some ?ds")
    case (Some d)
    then have "Some d \<in> set ?ds" by (rule first_some_cases(2))
    then have "justified env rq d"
      using held_justified[of rq _ d env] provider_holds[of rq env] pool_holds[of rq env] host_holds[of rq] machine_holds[of rq]
      by (auto simp: gate_options_def)
    with sched Some show ?thesis by (simp add: rq_def)
  next
    case None
    then have none: "evaluateProviderConcurrencyGate env rq = None" "evaluateEndpointPoolConcurrencyGate env rq = None"
      "evaluateHostConcurrencyGate rq = None" "evaluateMachinePoolConcurrencyGate rq = None"
      using first_some_cases(1)[OF None] by simp_all
    have four: "\<forall>g \<in> set [provider_gate env rq, pool_gate env rq, machine_like_gate ''host:'' (rq_hostConcurrencyCap rq) rq,
        machine_like_gate ''machine:'' (rq_perMachineCap rq) rq]. holds_for rq g None"
      using provider_holds[of rq env, unfolded none(1)] pool_holds[of rq env, unfolded none(2)]
        host_holds[of rq, unfolded none(3)] machine_holds[of rq, unfolded none(4)] by (simp only: list.set ball_simps simp_thms)
    have room: "\<not> full rq x" if "Some x \<in> set (gate_options env rq)" "Some x \<noteq> model_gate env rq" for x
    proof -
      have "holds_for rq (Some x) None" using that four by (simp only: gate_options_def list.set insert_iff empty_iff ball_simps simp_thms) metis
      then show ?thesis by (simp add: holds_for_def split: if_splits)
    qed
    show ?thesis
    proof (cases "model_gate env rq")
      case no: None
      then have "scheduleNKleinEndpointStart env raw = Inr Admit"
        using None by (auto simp: scheduleNKleinEndpointStart_def rq_def unshadowed_def model_gate_def Let_def split: option.splits)
      moreover have "justified env rq Admit"
        unfolding justified_def list_ex_iff using room no by (auto simp: gates_mem)
      ultimately show ?thesis by (auto simp: rq_def)
    next
      case yes: (Some g)
      then obtain e where e: "Option.bind (getSharedEndpointId env (rq_modelRegistry rq) rq) or_null = Some e"
        and g: "g = (e, model_limit env rq, \<lambda>s. getSharedEndpointId env (rq_modelRegistry rq) s = Some e)"
        by (auto simp: model_gate_def split: option.splits)
      let ?ss = "filter (\<lambda>s. getSharedEndpointId env (rq_modelRegistry rq) s = Some e) (other_running rq)"
      let ?now = "case rq_now rq of None \<Rightarrow> clock env | Some t \<Rightarrow> t"
      show ?thesis
      proof (cases "full rq g")
        case False
        then have "scheduleNKleinEndpointStart env raw = Inr Admit"
          using None e by (auto simp: scheduleNKleinEndpointStart_def rq_def unshadowed_def full_def g Let_def split: option.splits)
        moreover have "\<not> full rq x" if "x \<in> set (gates env rq)" for x
          using that room[of x] yes False unfolding gates_mem by (cases "x = g") simp_all
        then have "justified env rq Admit" by (auto simp: justified_def list_ex_iff)
        ultimately show ?thesis by (auto simp: rq_def)
      next
        case True
        obtain k where k: "model_limit env rq = js_of_nat (Suc k)" using model_limit_positive[OF reg] by blast
        with True have "?ss \<noteq> []" by (auto simp: full_def g simp del: of_nat_Suc)
        then obtain s rest where ss: "?ss = s # rest" by (cases ?ss) auto
        obtain h w where f: "fold (sooner env (rq_modelRegistry rq) ?now) rest
            (s, estimateRemainingEndpointWaitMs env (rq_modelRegistry rq) s ?now) = (h, w)" by fastforce
        have h: "h \<in> set ?ss" using sooner_member[OF f] unfolding ss by auto
        have "\<exists>msg. scheduleNKleinEndpointStart env raw = Inr (Hold (es_taskId h) e w msg)"
          using None e True ss f
          by (auto simp: scheduleNKleinEndpointStart_def rq_def[symmetric] unshadowed_def[symmetric] full_def g Let_def)
        moreover have "justified env rq (Hold (es_taskId h) e w msg)" for msg
          using h True yes model_gate_option[of env rq] unfolding justified_def list_ex_iff by (auto simp: gates_mem g intro!: bexI[of _ g])
        ultimately show ?thesis by (auto simp: rq_def)
      qed
    qed
  qed
qed

end
