(* ===== verification/HostMap.thy ===== *)
theory HostMap
  imports ModelIdentity
begin

text \<open>
  Which machine serves a model (\<^verbatim>\<open>src/nklein-agent/nklein-lmstudio-host-map.ts\<close>): the map from every name a model
  is known by, and from its registry keys, to the machine of the instance that \<^verbatim>\<open>lms ps\<close> reports.
\<close>

section \<open>The map\<close>

record ps_model =
  ps_identifier :: string
  ps_modelKey :: string
  ps_indexedModelIdentifier :: "string option"
  ps_path :: "string option"
  ps_machineId :: string
  ps_status :: "string option"
  ps_queued :: jsnum

definition LOCAL_MACHINE_ID :: string where
  "LOCAL_MACHINE_ID = ''local''"

type_synonym machines = "(string, string) omap"

definition addAlias :: "string \<Rightarrow> string \<Rightarrow> machines \<Rightarrow> machines" where
  "addAlias alias machine m = (if trim alias \<noteq> [] then omap_set (trim alias) machine m else m)"

definition map_providers :: "string option list \<Rightarrow> string list" where
  "map_providers ps = oset_of (filter (\<lambda>p. p \<noteq> ''unknown'')
     (''lmstudio'' # map normalizeProviderId (List.map_filter (\<lambda>p. Option.bind p (\<lambda>s. or_null (trim s))) ps)))"

definition map_endpoints :: "url_platform \<Rightarrow> string option list \<Rightarrow> string option list" where
  "map_endpoints parse es =
     map (\<lambda>e. if e = ''default'' then None else Some e)
       (oset_of (map (\<lambda>e. case Option.bind e (\<lambda>s. or_null (trim s)) of None \<Rightarrow> ''default'' | Some t \<Rightarrow> t)
          (None # es @ map (normalizeEndpoint parse) es)))"

definition claim_identifier :: "ps_model \<Rightarrow> machines \<Rightarrow> machines" where
  "claim_identifier p m =
     (if trim (ps_identifier p) \<noteq> [] then omap_set (trim (ps_identifier p)) (ps_machineId p) m else m)"

definition claim_secondary :: "machines \<Rightarrow> string \<Rightarrow> string \<Rightarrow> machines \<Rightarrow> machines" where
  "claim_secondary claimed machine alias m =
     (let key = trim alias in
      if key = [] \<or> map_of claimed key \<noteq> None then m
      else (case map_of m key of
              None \<Rightarrow> omap_set key machine m
            | Some existing \<Rightarrow>
                (if existing \<noteq> LOCAL_MACHINE_ID \<and> machine = LOCAL_MACHINE_ID then omap_set key machine m else m)))"

definition secondary_aliases :: "ps_model \<Rightarrow> string list" where
  "secondary_aliases p =
     List.map_filter (\<lambda>a. a) [Some (ps_modelKey p), ps_indexedModelIdentifier p, ps_path p]"

definition claim_aliases :: "machines \<Rightarrow> ps_model \<Rightarrow> machines \<Rightarrow> machines" where
  "claim_aliases claimed p m = fold (claim_secondary claimed (ps_machineId p)) (secondary_aliases p) m"

definition add_keys :: "url_platform \<Rightarrow> string list \<Rightarrow> string option list \<Rightarrow> string \<times> string \<Rightarrow> machines \<Rightarrow> machines" where
  "add_keys parse providers endpoints e m =
     fold (\<lambda>p. fold (\<lambda>ep. addAlias (buildNKleinModelRegistryKey parse
         \<lparr>mk_providerId = p, mk_modelId = fst e, mk_endpoint = ep\<rparr>) (snd e)) endpoints)
       providers (addAlias (fst e) (snd e) m)"

definition claimed_identifiers :: "ps_model list \<Rightarrow> machines" where
  "claimed_identifiers ps = fold claim_identifier ps []"

definition buildLmStudioMachineByModelId :: "url_platform \<Rightarrow> ps_model list \<Rightarrow> string option list \<Rightarrow> string option list \<Rightarrow> machines" where
  "buildLmStudioMachineByModelId parse ps providerIds endpoints =
     (let claimed = claimed_identifiers ps; secondary = fold (claim_aliases claimed) ps [] in
      fold (add_keys parse (map_providers providerIds) (map_endpoints parse endpoints)) (secondary @ claimed) [])"

section \<open>Who owns a name\<close>

text \<open>A registry key contains a colon, a plain name does not; so the keys never take a plain name over.\<close>

definition plain :: "string \<Rightarrow> bool" where
  "plain k \<longleftrightarrow> trim k = k \<and> k \<noteq> [] \<and> CHR '':'' \<notin> set k"

lemma colon_not_ws: "\<not> is_ws (CHR '':'')"
  by (simp add: is_ws_def)

lemma set_dropWhile_keep: "\<not> P x \<Longrightarrow> x \<in> set s \<Longrightarrow> x \<in> set (dropWhile P s)"
  by (induction s) auto

lemma set_trim_keep: "\<not> is_ws x \<Longrightarrow> x \<in> set s \<Longrightarrow> x \<in> set (trim s)"
  by (simp add: trim_def trim_start_def trim_end_def set_dropWhile_keep)

lemma registry_key_colon: "CHR '':'' \<in> set (trim (buildNKleinModelRegistryKey parse k))"
  by (intro set_trim_keep colon_not_ws) (simp add: buildNKleinModelRegistryKey_def)

lemma map_of_addAlias [simp]: "map_of (addAlias a w m) k = (if trim a = k \<and> k \<noteq> [] then Some w else map_of m k)"
  by (auto simp: addAlias_def)

lemma add_keys_plain:
  assumes "plain k"
  shows "map_of (add_keys parse ps es (n, w) m) k = (if trim n = k then Some w else map_of m k)"
proof -
  have key: "trim (buildNKleinModelRegistryKey parse key) \<noteq> k" for key
    using registry_key_colon[of parse key] assms by (auto simp: plain_def)
  have e: "map_of (fold (\<lambda>ep. addAlias (buildNKleinModelRegistryKey parse
      \<lparr>mk_providerId = p, mk_modelId = n, mk_endpoint = ep\<rparr>) w) es m) k = map_of m k" for p m
    by (induction es arbitrary: m) (simp_all add: key)
  have "map_of (fold (\<lambda>p. fold (\<lambda>ep. addAlias (buildNKleinModelRegistryKey parse
      \<lparr>mk_providerId = p, mk_modelId = n, mk_endpoint = ep\<rparr>) w) es) ps m) k = map_of m k" for m
    by (induction ps arbitrary: m) (simp_all add: e)
  with assms show ?thesis by (auto simp: add_keys_def plain_def)
qed

definition trimmed_keys :: "machines \<Rightarrow> bool" where
  "trimmed_keys m \<longleftrightarrow> distinct (map fst m) \<and> set (map fst m) \<subseteq> {k. trim k = k}"

lemma trimmed_set: "trimmed_keys m \<Longrightarrow> trim k = k \<Longrightarrow> trimmed_keys (omap_set k v m)"
  unfolding trimmed_keys_def using distinct_omap_set[of m k v] by (simp add: keys_omap_set)

lemma fold_add_keys_plain:
  assumes "plain k" "trimmed_keys entries"
  shows "map_of (fold (add_keys parse ps es) entries m) k =
    (case map_of entries k of Some w \<Rightarrow> Some w | None \<Rightarrow> map_of m k)"
  using assms(2)
proof (induction entries arbitrary: m)
  case (Cons e entries)
  obtain n w where e: "e = (n, w)" by (cases e)
  with Cons have "trim n = n" "n \<notin> fst ` set entries" "trimmed_keys entries" by (auto simp: trimmed_keys_def)
  then have none: "map_of entries k = None" if "n = k" using that by (simp add: map_of_eq_None_iff)
  have "map_of (fold (add_keys parse ps es) (e # entries) m) k =
      (case map_of entries k of Some v \<Rightarrow> Some v | None \<Rightarrow> if n = k then Some w else map_of m k)"
    using Cons.IH[OF \<open>trimmed_keys entries\<close>] \<open>trim n = n\<close>
    by (cases "map_of entries k") (simp_all add: e add_keys_plain[OF assms(1)])
  then show ?case using none by (simp add: e)
qed simp

lemma claimed_trimmed: "trimmed_keys m \<Longrightarrow> trimmed_keys (fold claim_identifier ps m)"
proof (induction ps arbitrary: m)
  case (Cons p ps)
  then have "trimmed_keys (claim_identifier p m)"
    by (auto simp: claim_identifier_def intro: trimmed_set)
  with Cons.IH show ?case by simp
qed simp

lemma secondary_step:
  assumes "trimmed_keys m" "fst ` set m \<inter> fst ` set claimed = {}"
  shows "trimmed_keys (claim_secondary claimed w a m) \<and> fst ` set (claim_secondary claimed w a m) \<inter> fst ` set claimed = {}"
  using assms
  by (auto simp: claim_secondary_def Let_def map_of_eq_None_iff intro: trimmed_set split: option.splits)

lemma secondary_disjoint:
  assumes "trimmed_keys m" "fst ` set m \<inter> fst ` set claimed = {}"
  shows "trimmed_keys (fold (claim_aliases claimed) ps m) \<and> fst ` set (fold (claim_aliases claimed) ps m) \<inter> fst ` set claimed = {}"
proof -
  have 1: "trimmed_keys (fold (claim_secondary claimed w) as m) \<and> fst ` set (fold (claim_secondary claimed w) as m) \<inter> fst ` set claimed = {}"
    if "trimmed_keys m" "fst ` set m \<inter> fst ` set claimed = {}" for w as m
    using that by (induction as arbitrary: m) (use secondary_step in auto)
  show ?thesis using assms by (induction ps arbitrary: m) (use 1 in \<open>auto simp: claim_aliases_def\<close>)
qed

lemma trimmed_append: "trimmed_keys a \<Longrightarrow> trimmed_keys b \<Longrightarrow> fst ` set a \<inter> fst ` set b = {} \<Longrightarrow> trimmed_keys (a @ b)"
  by (auto simp: trimmed_keys_def)

text \<open>What a plain name maps to: the last instance of that identifier, else what the secondary aliases make of it.\<close>

lemma machine_of_plain:
  assumes "plain k"
  shows "map_of (buildLmStudioMachineByModelId parse ps pids es) k =
    (case map_of (claimed_identifiers ps) k of
       Some w \<Rightarrow> Some w
     | None \<Rightarrow> map_of (fold (claim_aliases (claimed_identifiers ps)) ps []) k)"
proof -
  have c: "trimmed_keys (claimed_identifiers ps)"
    unfolding claimed_identifiers_def by (rule claimed_trimmed) (simp add: trimmed_keys_def)
  have s: "trimmed_keys (fold (claim_aliases (claimed_identifiers ps)) ps [])"
    "fst ` set (fold (claim_aliases (claimed_identifiers ps)) ps []) \<inter> fst ` set (claimed_identifiers ps) = {}"
    using secondary_disjoint[of "[]" "claimed_identifiers ps" ps] by (simp_all add: trimmed_keys_def)
  have "k \<notin> fst ` set (fold (claim_aliases (claimed_identifiers ps)) ps [])" if "map_of (claimed_identifiers ps) k = Some w" for w
    using s(2) that map_of_SomeD[OF that] by (force simp: image_iff)
  then show ?thesis
    unfolding buildLmStudioMachineByModelId_def Let_def fold_add_keys_plain[OF assms trimmed_append[OF s(1) c s(2)]]
    by (auto simp: map_add_def map_of_eq_None_iff[symmetric] simp del: map_of_eq_None_iff split: option.splits)
qed

lemma claimed_owner:
  "map_of (fold claim_identifier ps m) k =
     (case find (\<lambda>p. trim (ps_identifier p) = k) (rev ps) of
        Some p \<Rightarrow> (if k = [] then map_of m k else Some (ps_machineId p))
      | None \<Rightarrow> map_of m k)"
proof (induction ps rule: rev_induct)
  case (snoc p ps)
  then show ?case by (auto simp: claim_identifier_def split: option.splits)
qed simp

text \<open>An unclaimed alias that a local instance carries is local, whichever machine was listed first.\<close>

lemma secondary_keeps_local:
  "map_of m k = Some LOCAL_MACHINE_ID \<Longrightarrow> map_of (claim_secondary claimed w a m) k = Some LOCAL_MACHINE_ID"
  by (cases "trim a = k") (auto simp: claim_secondary_def Let_def split: option.splits)

lemma secondary_stays_local:
  "map_of m k = Some LOCAL_MACHINE_ID \<Longrightarrow> map_of (fold (claim_secondary claimed w) as m) k = Some LOCAL_MACHINE_ID"
  by (induction as arbitrary: m) (simp_all add: secondary_keeps_local)

lemma secondary_becomes_local:
  assumes "k \<noteq> []" "map_of claimed k = None" "k \<in> trim ` set as"
  shows "map_of (fold (claim_secondary claimed LOCAL_MACHINE_ID) as m) k = Some LOCAL_MACHINE_ID"
  using assms(3)
proof (induction as arbitrary: m)
  case (Cons a as)
  show ?case
  proof (cases "trim a = k")
    case True
    then have "map_of (claim_secondary claimed LOCAL_MACHINE_ID a m) k = Some LOCAL_MACHINE_ID"
      using assms by (auto simp: claim_secondary_def Let_def split: option.splits)
    then show ?thesis by (simp add: secondary_stays_local)
  next
    case False
    with Cons show ?thesis by auto
  qed
qed simp

lemma aliases_stay_local:
  "map_of m k = Some LOCAL_MACHINE_ID \<Longrightarrow> map_of (fold (claim_aliases claimed) ps m) k = Some LOCAL_MACHINE_ID"
  by (induction ps arbitrary: m) (auto simp: claim_aliases_def secondary_stays_local)

lemma local_alias_wins:
  assumes "k \<noteq> []" "map_of claimed k = None" "p \<in> set ps" "ps_machineId p = LOCAL_MACHINE_ID" "k \<in> trim ` set (secondary_aliases p)"
  shows "map_of (fold (claim_aliases claimed) ps m) k = Some LOCAL_MACHINE_ID"
  using assms(3)
proof (induction ps arbitrary: m)
  case (Cons q ps)
  show ?case
  proof (cases "q = p")
    case True
    then have "map_of (claim_aliases claimed q m) k = Some LOCAL_MACHINE_ID"
      using secondary_becomes_local[OF assms(1,2,5)] assms(4) by (simp add: claim_aliases_def)
    then show ?thesis by (simp add: aliases_stay_local)
  next
    case False
    with Cons show ?thesis by simp
  qed
qed simp

end
