(* ===== verification/ConcurrencyConfig.thy ===== *)
theory ConcurrencyConfig
  imports JsValue TextParts "HOL-Library.Char_ord" "HOL-Library.List_Lexorder"
begin

text \<open>
  The concurrency caps of the settings (\<^verbatim>\<open>src/core/concurrency-config.ts\<close>): normalisation of the stored maps, equality
  of configurations, and the effective caps of a session. An object is a map in insertion order; the order in
  which an engine lists integer-like keys first is not modelled, only look-ups and key sets are used. Reading a key of
  the object's prototype never gives a number, so it is a missing key.
\<close>

section \<open>Configurations\<close>

type_synonym conc_map = "(string, jsnum) omap"

record conc_config =
  cc_perProvider :: conc_map
  cc_perModel :: conc_map
  cc_perHost :: "conc_map option"
  cc_perEndpoint :: "conc_map option"

record conc_override =
  co_perProvider :: "conc_map option"
  co_perModel :: "conc_map option"
  co_perHost :: "conc_map option"
  co_perEndpoint :: "conc_map option"

definition MIN_CONCURRENCY :: jsnum where
  "MIN_CONCURRENCY = Fin 1"

definition MAX_CONCURRENCY :: jsnum where
  "MAX_CONCURRENCY = Fin 256"

text \<open>\<^verbatim>\<open>normalizeCap\<close> of a value that is a number, and of any value.\<close>

definition clamp_cap :: "jsnum \<Rightarrow> jsnum option" where
  "clamp_cap n =
     (if \<not> js_isFinite n then None
      else if js_lt (js_trunc n) MIN_CONCURRENCY then None
      else Some (js_min MAX_CONCURRENCY (js_trunc n)))"

definition normalizeCap :: "jsval \<Rightarrow> jsnum option" where
  "normalizeCap v = (case v of JNum n \<Rightarrow> clamp_cap n | _ \<Rightarrow> None)"

section \<open>Normalisation\<close>

text \<open>Assigning a number to \<^verbatim>\<open>__proto__\<close> of a plain object does nothing.\<close>

definition assign_cap :: "obj \<Rightarrow> string \<Rightarrow> conc_map \<Rightarrow> conc_map" where
  "assign_cap v key out =
     (let trimmed = trim key in
      if trimmed = [] then out
      else (case normalizeCap (obj_get v key) of
              None \<Rightarrow> out
            | Some cap \<Rightarrow> (if trimmed = ''__proto__'' then out else omap_set trimmed cap out)))"

definition normalizeConcurrencyMap :: "jsval \<Rightarrow> conc_map" where
  "normalizeConcurrencyMap v =
     (case v of JObj c \<Rightarrow> fold (assign_cap c) (js_sort (\<le>) (map fst c)) [] | _ \<Rightarrow> [])"

definition sparse :: "conc_map \<Rightarrow> conc_map option" where
  "sparse m = (if m = [] then None else Some m)"

text \<open>A member of a value that may be absent.\<close>

definition grain :: "obj option \<Rightarrow> string \<Rightarrow> conc_map" where
  "grain v k = (case v of None \<Rightarrow> [] | Some c \<Rightarrow> normalizeConcurrencyMap (obj_get c k))"

definition normalizeConcurrencyConfig :: "obj option \<Rightarrow> conc_config" where
  "normalizeConcurrencyConfig v =
     \<lparr>cc_perProvider = grain v ''perProvider'', cc_perModel = grain v ''perModel'',
      cc_perHost = sparse (grain v ''perHost''), cc_perEndpoint = sparse (grain v ''perEndpoint'')\<rparr>"

definition normalizeConcurrencyOverride :: "obj option \<Rightarrow> conc_override option" where
  "normalizeConcurrencyOverride v =
     (if v = None then None
      else (let o1 = \<lparr>co_perProvider = sparse (grain v ''perProvider''), co_perModel = sparse (grain v ''perModel''),
                      co_perHost = sparse (grain v ''perHost''), co_perEndpoint = sparse (grain v ''perEndpoint'')\<rparr>
            in if co_perProvider o1 = None \<and> co_perModel o1 = None \<and> co_perHost o1 = None \<and> co_perEndpoint o1 = None
               then None else Some o1))"

section \<open>Equality\<close>

definition orEmpty :: "conc_map option \<Rightarrow> conc_map" where
  "orEmpty m = (case m of None \<Rightarrow> [] | Some c \<Rightarrow> c)"

definition same_member :: "conc_map \<Rightarrow> conc_map \<Rightarrow> string \<Rightarrow> bool" where
  "same_member a b k =
     (case map_of a k of
        None \<Rightarrow> map_of b k = None
      | Some x \<Rightarrow> (case map_of b k of None \<Rightarrow> False | Some y \<Rightarrow> js_eq x y))"

definition areConcurrencyMapsEqual :: "conc_map option \<Rightarrow> conc_map option \<Rightarrow> bool" where
  "areConcurrencyMapsEqual l r =
     (let a = orEmpty l; b = orEmpty r in
      if length a \<noteq> length b then False else list_all (same_member a b) (map fst a))"

definition areConcurrencyConfigsEqual :: "conc_config \<Rightarrow> conc_config \<Rightarrow> bool" where
  "areConcurrencyConfigsEqual l r \<longleftrightarrow>
     areConcurrencyMapsEqual (Some (cc_perProvider l)) (Some (cc_perProvider r))
     \<and> areConcurrencyMapsEqual (Some (cc_perModel l)) (Some (cc_perModel r))
     \<and> areConcurrencyMapsEqual (cc_perHost l) (cc_perHost r)
     \<and> areConcurrencyMapsEqual (cc_perEndpoint l) (cc_perEndpoint r)"

definition areConcurrencyOverridesEqual :: "conc_override option \<Rightarrow> conc_override option \<Rightarrow> bool" where
  "areConcurrencyOverridesEqual left right =
     (case (left, right) of
        (Some l, Some r) \<Rightarrow>
          areConcurrencyMapsEqual (co_perProvider l) (co_perProvider r)
          \<and> areConcurrencyMapsEqual (co_perModel l) (co_perModel r)
          \<and> areConcurrencyMapsEqual (co_perHost l) (co_perHost r)
          \<and> areConcurrencyMapsEqual (co_perEndpoint l) (co_perEndpoint r)
      | (None, None) \<Rightarrow> True
      | _ \<Rightarrow> False)"

section \<open>Effective caps\<close>

definition layer_cap :: "conc_map option \<Rightarrow> string \<Rightarrow> jsnum option" where
  "layer_cap m k = (case m of None \<Rightarrow> None | Some c \<Rightarrow> map_of c k)"

definition resolveKeyCap :: "string \<Rightarrow> conc_map option \<Rightarrow> conc_map option \<Rightarrow> jsnum option \<Rightarrow> jsnum option" where
  "resolveKeyCap k override global fallback =
     (case layer_cap override k of
        Some n \<Rightarrow> Some n
      | None \<Rightarrow>
          (case layer_cap global k of
             Some n \<Rightarrow> Some n
           | None \<Rightarrow> Option.bind fallback clamp_cap))"

type_synonym layers = "conc_config option \<times> conc_override option"

definition resolveEffectiveProviderConcurrency :: "string \<Rightarrow> layers \<Rightarrow> jsnum option" where
  "resolveEffectiveProviderConcurrency k i =
     resolveKeyCap k (Option.bind (snd i) co_perProvider) (map_option cc_perProvider (fst i)) None"

definition resolveEffectiveEndpointConcurrency :: "string \<Rightarrow> layers \<Rightarrow> jsnum option" where
  "resolveEffectiveEndpointConcurrency k i =
     resolveKeyCap k (Option.bind (snd i) co_perEndpoint) (Option.bind (fst i) cc_perEndpoint) None"

definition DEFAULT_HOST_CONCURRENCY_CAP :: jsnum where
  "DEFAULT_HOST_CONCURRENCY_CAP = Fin 1"

definition or_else :: "'a option \<Rightarrow> 'a \<Rightarrow> 'a" where
  "or_else o1 d = (case o1 of None \<Rightarrow> d | Some x \<Rightarrow> x)"

definition resolveEffectiveHostConcurrency :: "string \<Rightarrow> layers \<Rightarrow> jsnum option \<Rightarrow> jsnum option" where
  "resolveEffectiveHostConcurrency k i fallback =
     resolveKeyCap k (Option.bind (snd i) co_perHost) (Option.bind (fst i) cc_perHost)
       (Some (or_else fallback DEFAULT_HOST_CONCURRENCY_CAP))"

definition resolveExplicitHostConcurrency :: "string \<Rightarrow> layers \<Rightarrow> jsnum option \<Rightarrow> jsnum option" where
  "resolveExplicitHostConcurrency k i fallback =
     resolveKeyCap k (Option.bind (snd i) co_perHost) (Option.bind (fst i) cc_perHost) fallback"

definition resolveEffectiveModelConcurrency :: "string \<Rightarrow> layers \<Rightarrow> jsnum option \<Rightarrow> jsnum option" where
  "resolveEffectiveModelConcurrency k i fallback =
     resolveKeyCap k (Option.bind (snd i) co_perModel) (map_option cc_perModel (fst i)) fallback"

record session_caps =
  providerCap :: "jsnum option"
  modelCap :: "jsnum option"
  hostCap :: "jsnum option"
  endpointCap :: "jsnum option"

record caps_input =
  ci_providerId :: string
  ci_modelId :: string
  ci_endpoint :: "string option"
  ci_hostId :: "string option"
  ci_layers :: layers
  ci_registryModelFallback :: "jsnum option"
  ci_hostFallback :: "jsnum option"

definition not_blank :: "string option \<Rightarrow> string option" where
  "not_blank s = (case s of None \<Rightarrow> None | Some t \<Rightarrow> (if t \<noteq> [] \<and> trim t \<noteq> [] then Some t else None))"

definition resolveSessionConcurrencyCaps :: "caps_input \<Rightarrow> session_caps" where
  "resolveSessionConcurrencyCaps i =
     \<lparr>providerCap = resolveEffectiveProviderConcurrency (ci_providerId i) (ci_layers i),
      modelCap = resolveEffectiveModelConcurrency (ci_modelId i) (ci_layers i) (ci_registryModelFallback i),
      hostCap = Option.bind (not_blank (ci_hostId i))
        (\<lambda>h. resolveEffectiveHostConcurrency h (ci_layers i) (ci_hostFallback i)),
      endpointCap = Option.bind (not_blank (ci_endpoint i))
        (\<lambda>e. resolveEffectiveEndpointConcurrency e (ci_layers i))\<rparr>"

section \<open>Facts\<close>

text \<open>A cap the settings may hold: an integer from 1 to 256.\<close>

definition legal_cap :: "jsnum \<Rightarrow> bool" where
  "legal_cap n \<longleftrightarrow> (\<exists>k::nat. n = js_of_nat k \<and> 1 \<le> k \<and> k \<le> 256)"

lemma clamp_cap_legal: "clamp_cap n = Some c \<Longrightarrow> legal_cap c"
proof -
  assume c: "clamp_cap n = Some c"
  then obtain q where q: "n = Fin q" by (cases n) (auto simp: clamp_cap_def)
  then have 1: "1 \<le> rat_trunc q" "c = Fin (min 256 (of_int (rat_trunc q)))"
    using c by (auto simp: clamp_cap_def MIN_CONCURRENCY_def MAX_CONCURRENCY_def split: if_splits)
  then have "c = js_of_nat (nat (min 256 (rat_trunc q)))" by (simp add: min_def of_nat_nat)
  with 1(1) show ?thesis unfolding legal_cap_def by (intro exI[of _ "nat (min 256 (rat_trunc q))"]) auto
qed

lemma clamp_cap_id: "legal_cap n \<Longrightarrow> clamp_cap n = Some n"
  by (auto simp: legal_cap_def clamp_cap_def MIN_CONCURRENCY_def MAX_CONCURRENCY_def min_def)

lemma clamp_cap_None: "clamp_cap n = None \<longleftrightarrow> \<not> js_isFinite n \<or> js_lt n (Fin 1)"
  by (cases n) (auto simp: clamp_cap_def MIN_CONCURRENCY_def rat_trunc_def floor_less_iff le_floor_iff less_floor_iff)

definition legal_map :: "conc_map \<Rightarrow> bool" where
  "legal_map m \<longleftrightarrow> distinct (map fst m)
     \<and> (\<forall>(k, c) \<in> set m. trim k = k \<and> k \<noteq> [] \<and> k \<noteq> ''__proto__'' \<and> legal_cap c)"


lemma legal_assign: "legal_map out \<Longrightarrow> legal_map (assign_cap v key out)"
proof -
  assume l: "legal_map out"
  show ?thesis
  proof (cases "trim key = [] \<or> normalizeCap (obj_get v key) = None \<or> trim key = ''__proto__''")
    case True
    with l show ?thesis by (auto simp: assign_cap_def Let_def split: option.splits)
  next
    case False
    then obtain c where c: "normalizeCap (obj_get v key) = Some c" by auto
    then have "legal_cap c" using clamp_cap_legal by (auto simp: normalizeCap_def split: jsval.splits)
    with False c l show ?thesis
      using set_omap_set[of "trim key" c out]
      by (auto simp: assign_cap_def legal_map_def distinct_omap_set)
  qed
qed

lemma normalizeConcurrencyMap_legal: "legal_map (normalizeConcurrencyMap v)"
proof (cases v)
  case (JObj c)
  have "legal_map (fold (assign_cap c) ks out)" if "legal_map out" for ks out
    using that by (induction ks arbitrary: out) (auto intro: legal_assign)
  from this[of "[]"] JObj show ?thesis by (simp add: normalizeConcurrencyMap_def legal_map_def)
qed (simp_all add: normalizeConcurrencyMap_def legal_map_def)

text \<open>Normalising again the object of a legal map changes no look-up.\<close>

definition as_object :: "conc_map \<Rightarrow> jsval" where
  "as_object m = JObj (map (\<lambda>(k, c). (k, JNum c)) m)"

lemma normalize_again:
  assumes l: "legal_map m"
  shows "map_of (normalizeConcurrencyMap (as_object m)) = map_of m"
proof
  fix k
  let ?o = "map (\<lambda>(k, c). (k, JNum c)) m"
  have keys: "map fst ?o = map fst m" by (induction m) auto
  have get: "obj_get ?o k = JNum c" if "map_of m k = Some c" for k c
    using that by (induction m) (auto simp: obj_get_def)
  have step: "assign_cap ?o k' out = omap_set k' c out" if "map_of m k' = Some c" for k' c out
    using that get[OF that] l map_of_SomeD[OF that] clamp_cap_id[of c]
    by (fastforce simp: assign_cap_def normalizeCap_def legal_map_def)
  have f: "set ks \<subseteq> fst ` set m \<Longrightarrow>
      map_of (fold (assign_cap ?o) ks out) k = (if k \<in> set ks then map_of m k else map_of out k)" for ks out
  proof (induction ks arbitrary: out)
    case (Cons k' ks)
    then obtain c where "map_of m k' = Some c" by (metis domIff dom_map_of_conv_image_fst insert_subset list.simps(15) option.exhaust)
    with Cons step[OF this] show ?case by auto
  qed simp
  from f[of "js_sort (\<le>) (map fst ?o)" "[]"] keys
  have "map_of (normalizeConcurrencyMap (as_object m)) k = (if k \<in> fst ` set m then map_of m k else None)"
    by (simp add: normalizeConcurrencyMap_def as_object_def)
  then show "map_of (normalizeConcurrencyMap (as_object m)) k = map_of m k"
    using map_of_eq_None_iff[of m k] by metis
qed

text \<open>Change detection on maps of finite caps is equality of the look-ups.\<close>

definition finite_caps :: "conc_map \<Rightarrow> bool" where
  "finite_caps m \<longleftrightarrow> distinct (map fst m) \<and> (\<forall>c \<in> snd ` set m. c \<noteq> NaN)"

lemma legal_finite: "legal_map m \<Longrightarrow> finite_caps m"
  by (auto simp: legal_map_def finite_caps_def legal_cap_def)

lemma same_member_eq:
  assumes "finite_caps a"
  shows "same_member a b k \<longleftrightarrow> map_of a k = map_of b k"
proof (cases "map_of a k")
  case (Some c)
  then have "c \<noteq> NaN" using assms map_of_SomeD[OF Some] by (force simp: finite_caps_def)
  with Some show ?thesis by (auto simp: same_member_def js_eq_def split: option.splits)
qed (auto simp: same_member_def)

lemma maps_equal_iff:
  assumes "finite_caps (orEmpty l)" "finite_caps (orEmpty r)"
  shows "areConcurrencyMapsEqual l r \<longleftrightarrow> map_of (orEmpty l) = map_of (orEmpty r)"
proof -
  let ?a = "orEmpty l" and ?b = "orEmpty r"
  have d: "distinct (map fst ?a)" "distinct (map fst ?b)" using assms by (simp_all add: finite_caps_def)
  have len: "length m = card (dom (map_of m))" if "distinct (map fst m)" for m :: conc_map
    using distinct_card[OF that] by (simp add: dom_map_of_conv_image_fst)
  show ?thesis
  proof
    assume eq: "areConcurrencyMapsEqual l r"
    then have l: "length ?a = length ?b" and m: "\<forall>k \<in> dom (map_of ?a). map_of ?a k = map_of ?b k"
      by (auto simp: areConcurrencyMapsEqual_def Let_def list_all_iff same_member_eq[OF assms(1)]
          dom_map_of_conv_image_fst split: if_splits)
    then have sub: "dom (map_of ?a) \<subseteq> dom (map_of ?b)" by (metis domIff subsetI)
    have "card (dom (map_of ?a)) = card (dom (map_of ?b))" using l len d by simp
    with sub have dom: "dom (map_of ?a) = dom (map_of ?b)" by (intro card_subset_eq) (simp_all add: finite_dom_map_of)
    show "map_of ?a = map_of ?b"
    proof
      fix k show "map_of ?a k = map_of ?b k" using m dom by (cases "k \<in> dom (map_of ?a)") (auto simp: domIff)
    qed
  next
    assume eq: "map_of ?a = map_of ?b"
    then have "length ?a = length ?b" using len d by metis
    then show "areConcurrencyMapsEqual l r"
      using eq by (simp add: areConcurrencyMapsEqual_def list_all_iff same_member_eq[OF assms(1)])
  qed
qed

text \<open>Caps resolved from normalised settings, with legal fallbacks, are legal; a known host always has one.\<close>

definition normal_layers :: "obj option \<Rightarrow> obj option \<Rightarrow> layers" where
  "normal_layers g v = (Some (normalizeConcurrencyConfig g), normalizeConcurrencyOverride v)"

lemma legal_grain: "legal_map (grain v k)"
  by (auto simp: grain_def normalizeConcurrencyMap_legal legal_map_def[of "[]"] split: option.splits)

lemma legal_lookup: "legal_map m \<Longrightarrow> map_of m k = Some c \<Longrightarrow> legal_cap c"
  by (auto simp: legal_map_def dest: map_of_SomeD)

definition legal_layer :: "conc_map option \<Rightarrow> bool" where
  "legal_layer m \<longleftrightarrow> (case m of None \<Rightarrow> True | Some c \<Rightarrow> legal_map c)"

lemma legal_sparse: "legal_layer (sparse (grain v k))"
  using legal_grain[of v k] by (simp add: legal_layer_def sparse_def)

lemma resolve_legal:
  assumes "legal_layer o1" "legal_layer g" "resolveKeyCap k o1 g fb = Some c"
  shows "legal_cap c"
  using assms legal_lookup clamp_cap_legal
  by (auto simp: resolveKeyCap_def layer_cap_def legal_layer_def bind_eq_Some_conv split: option.splits)

lemma normal_layers_legal:
  "legal_layer (map_option cc_perProvider (fst (normal_layers g v)))"
  "legal_layer (map_option cc_perModel (fst (normal_layers g v)))"
  "legal_layer (Option.bind (fst (normal_layers g v)) cc_perHost)"
  "legal_layer (Option.bind (fst (normal_layers g v)) cc_perEndpoint)"
  "legal_layer (Option.bind (snd (normal_layers g v)) co_perProvider)"
  "legal_layer (Option.bind (snd (normal_layers g v)) co_perModel)"
  "legal_layer (Option.bind (snd (normal_layers g v)) co_perHost)"
  "legal_layer (Option.bind (snd (normal_layers g v)) co_perEndpoint)"
  using legal_sparse legal_grain[of g]
  by (simp_all add: normal_layers_def normalizeConcurrencyConfig_def normalizeConcurrencyOverride_def Let_def
      legal_layer_def)

lemma session_caps_legal:
  assumes "ci_layers i = normal_layers g v"
  shows "providerCap (resolveSessionConcurrencyCaps i) = Some c \<Longrightarrow> legal_cap c"
    and "modelCap (resolveSessionConcurrencyCaps i) = Some c \<Longrightarrow> legal_cap c"
    and "hostCap (resolveSessionConcurrencyCaps i) = Some c \<Longrightarrow> legal_cap c"
    and "endpointCap (resolveSessionConcurrencyCaps i) = Some c \<Longrightarrow> legal_cap c"
  using resolve_legal[OF normal_layers_legal(5,1)] resolve_legal[OF normal_layers_legal(6,2)]
    resolve_legal[OF normal_layers_legal(7,3)] resolve_legal[OF normal_layers_legal(8,4)] assms
  by (auto simp: resolveSessionConcurrencyCaps_def resolveEffectiveProviderConcurrency_def
      resolveEffectiveModelConcurrency_def resolveEffectiveHostConcurrency_def resolveEffectiveEndpointConcurrency_def
      bind_eq_Some_conv)

lemma host_cap_present:
  assumes "not_blank (ci_hostId i) \<noteq> None" "\<And>n. ci_hostFallback i = Some n \<Longrightarrow> legal_cap n"
  shows "hostCap (resolveSessionConcurrencyCaps i) \<noteq> None"
proof -
  have "clamp_cap (or_else (ci_hostFallback i) DEFAULT_HOST_CONCURRENCY_CAP) \<noteq> None"
    using assms(2) clamp_cap_id
    by (cases "ci_hostFallback i") (auto simp: or_else_def DEFAULT_HOST_CONCURRENCY_CAP_def clamp_cap_None)
  with assms(1) show ?thesis
    by (auto simp: resolveSessionConcurrencyCaps_def resolveEffectiveHostConcurrency_def resolveKeyCap_def split: option.splits)
qed

end
