(* ===== verification/TurnAdmission.thy ===== *)
theory TurnAdmission
  imports EndpointGates HostMap ConcurrencyConfig
begin

text \<open>
  The admission of model turns (\<^verbatim>\<open>evaluateModelTurnAdmission\<close> and the operations around it in
  \<^verbatim>\<open>src/server/runtime-server.ts\<close>, with \<^verbatim>\<open>model-turn-admission-wait-queue.ts\<close>, \<^verbatim>\<open>model-turn-admission.ts\<close>,
  \<^verbatim>\<open>admission-phase-memo.ts\<close> and \<^verbatim>\<open>trashed-card-sessions.ts\<close> of \<^verbatim>\<open>src/core\<close>). After its last wait for the outside
  world an evaluation runs without interruption, so it is one step; what it waited for (settings, the list of loaded
  models, the registry) and the clock are its inputs. Warnings are not modelled.
\<close>

section \<open>Waiters\<close>

record waiter =
  wt_resourceId :: string
  wt_sequence :: nat
  wt_lastSeenAt :: jsnum

record wait_queue =
  wq_nextSequence :: nat
  wq_byTaskId :: "(string, waiter) omap"

definition RESERVATION_STALE_MS :: jsnum where
  "RESERVATION_STALE_MS = Fin 60000"

definition enqueue :: "string \<Rightarrow> string \<Rightarrow> jsnum \<Rightarrow> wait_queue \<Rightarrow> wait_queue" where
  "enqueue t r now q =
     (case map_of (wq_byTaskId q) t of
        Some w \<Rightarrow>
          (if wt_resourceId w = r then q\<lparr>wq_byTaskId := omap_set t (w\<lparr>wt_lastSeenAt := now\<rparr>) (wq_byTaskId q)\<rparr>
           else q\<lparr>wq_byTaskId := omap_set t \<lparr>wt_resourceId = r, wt_sequence = wq_nextSequence q, wt_lastSeenAt = now\<rparr> (wq_byTaskId q),
                  wq_nextSequence := Suc (wq_nextSequence q)\<rparr>)
      | None \<Rightarrow>
          q\<lparr>wq_byTaskId := omap_set t \<lparr>wt_resourceId = r, wt_sequence = wq_nextSequence q, wt_lastSeenAt = now\<rparr> (wq_byTaskId q),
            wq_nextSequence := Suc (wq_nextSequence q)\<rparr>)"

definition remove_waiter :: "string \<Rightarrow> wait_queue \<Rightarrow> wait_queue" where
  "remove_waiter t q = q\<lparr>wq_byTaskId := omap_delete t (wq_byTaskId q)\<rparr>"

definition stale :: "jsnum \<Rightarrow> waiter \<Rightarrow> bool" where
  "stale now w \<longleftrightarrow> js_gt (js_sub now (wt_lastSeenAt w)) RESERVATION_STALE_MS"

text \<open>The loop of \<^verbatim>\<open>reservedFor\<close> over the entries: the first waiter so far and the map, from which stale entries are deleted.\<close>

fun scan_waiters :: "string list \<Rightarrow> jsnum \<Rightarrow> (string \<times> waiter) list \<Rightarrow> (string \<times> nat) option \<times> (string, waiter) omap
    \<Rightarrow> (string \<times> nat) option \<times> (string, waiter) omap" where
  "scan_waiters ids now [] s = s"
| "scan_waiters ids now ((t, w) # es) (front, m) =
     scan_waiters ids now es
       (if stale now w then (front, omap_delete t m)
        else if wt_resourceId w \<notin> set ids then (front, m)
        else (case front of
                None \<Rightarrow> (Some (t, wt_sequence w), m)
              | Some (t', n) \<Rightarrow> (if wt_sequence w < n then (Some (t, wt_sequence w), m) else (front, m))))"

definition reservedFor :: "string list \<Rightarrow> jsnum \<Rightarrow> wait_queue \<Rightarrow> string option \<times> wait_queue" where
  "reservedFor ids now q =
     (case scan_waiters ids now (wq_byTaskId q) (None, wq_byTaskId q) of
        (front, m) \<Rightarrow> (map_option fst front, q\<lparr>wq_byTaskId := m\<rparr>))"

definition resourceFor :: "string \<Rightarrow> wait_queue \<Rightarrow> string option" where
  "resourceFor t q = map_option wt_resourceId (map_of (wq_byTaskId q) t)"

section \<open>Turns\<close>

text \<open>A reservation is an object: its release compares identities, which \<open>rs_serial\<close> stands for.\<close>

record reservation =
  rs_serial :: nat
  rs_session :: endpoint_session

record turn_request = model_key +
  tr_taskId :: string
  tr_admissionParentTaskId :: "string option"
  tr_freshSessionStart :: bool
  tr_parentReacquire :: bool

record admission =
  ad_active :: "(string, reservation list) omap"
  ad_queue :: wait_queue
  ad_lastConfig :: "(string, layers) omap"
  ad_lastPs :: "ps_model list"
  ad_serial :: nat

definition active_of :: "admission \<Rightarrow> string \<Rightarrow> reservation list" where
  "active_of s ws = (case map_of (ad_active s) ws of None \<Rightarrow> [] | Some rs \<Rightarrow> rs)"

text \<open>An emptied list is deleted.\<close>

definition set_active :: "string \<Rightarrow> reservation list \<Rightarrow> admission \<Rightarrow> admission" where
  "set_active ws rs s = s\<lparr>ad_active := (if rs \<noteq> [] then omap_set ws rs (ad_active s) else omap_delete ws (ad_active s))\<rparr>"

definition task_of :: "reservation \<Rightarrow> string" where
  "task_of r = es_taskId (rs_session r)"

text \<open>\<^verbatim>\<open>lms ps\<close>: what is busy and what is idle\<close>

definition ps_state :: "ps_model \<Rightarrow> string" where
  "ps_state p = (case ps_status p of None \<Rightarrow> [] | Some s \<Rightarrow> to_lower (trim s))"

definition status_busy :: "ps_model \<Rightarrow> bool" where
  "status_busy p \<longleftrightarrow> ps_state p \<noteq> [] \<and> ps_state p \<noteq> ''idle''"

definition view_key :: "string \<Rightarrow> string \<Rightarrow> string \<Rightarrow> string" where
  "view_key ws ws' t = (if ws' = ws then t else ws' @ '':'' @ t)"

definition collect_turn :: "string \<Rightarrow> string \<Rightarrow> reservation \<Rightarrow> (string, endpoint_session) omap \<Rightarrow> (string, endpoint_session) omap" where
  "collect_turn ws ws' r m =
     (let k = view_key ws ws' (task_of r) in omap_set k ((rs_session r)\<lparr>es_taskId := k\<rparr>) m)"

definition external_id :: "ps_model \<Rightarrow> string" where
  "external_id p = EXTERNAL_LMS_HOLDER_PREFIX @ ps_machineId p @ '':'' @ ps_identifier p"

definition collect_external :: "turn_request \<Rightarrow> string list \<Rightarrow> ps_model \<Rightarrow> (string, endpoint_session) omap \<Rightarrow> (string, endpoint_session) omap" where
  "collect_external rq tracked p m =
     (if \<not> (js_gt (ps_queued p) (Fin 0) \<or> status_busy p) \<or> ps_identifier p \<in> set tracked then m
      else omap_set (external_id p)
        \<lparr>mk_providerId = mk_providerId rq, mk_modelId = ps_identifier p,
         mk_endpoint = (if ps_identifier p = mk_modelId rq then mk_endpoint rq else None),
         es_taskId = external_id p, es_state = Running, es_startedAt = None, es_hostId = Some (ps_machineId p)\<rparr> m)"

definition by_start :: "endpoint_session \<Rightarrow> endpoint_session \<Rightarrow> bool" where
  "by_start a b = js_le (or_else (es_startedAt a) (Fin 0)) (or_else (es_startedAt b) (Fin 0))"

definition tracked_turns :: "string \<Rightarrow> admission \<Rightarrow> (string, endpoint_session) omap" where
  "tracked_turns ws s = fold (\<lambda>(ws', rs). fold (collect_turn ws ws') rs) (ad_active s) []"

definition collectModelTurnSchedulingSessions :: "string \<Rightarrow> turn_request \<Rightarrow> ps_model list \<Rightarrow> admission \<Rightarrow> endpoint_session list" where
  "collectModelTurnSchedulingSessions ws rq ps s =
     (let tracked = tracked_turns ws s
      in js_sort by_start (map snd (fold (collect_external rq (map (\<lambda>e. mk_modelId (snd e)) tracked)) ps tracked)))"

definition session_host :: "(string, string) omap \<Rightarrow> endpoint_session \<Rightarrow> string option" where
  "session_host machines s =
     (case Option.bind (es_hostId s) (\<lambda>h. or_null (trim h)) of
        Some h \<Rightarrow> Some h | None \<Rightarrow> Option.bind (map_of machines (mk_modelId s)) (\<lambda>h. or_null (trim h)))"

definition findExternalLmsHostBlock :: "turn_request \<Rightarrow> ps_model list \<Rightarrow> string option \<Rightarrow> endpoint_session list
    \<Rightarrow> (string, string) omap \<Rightarrow> string option" where
  "findExternalLmsHostBlock rq ps hostId running machines =
     (case Option.bind hostId or_null of
        None \<Rightarrow> None
      | Some h \<Rightarrow>
          (let runningOnHost = list_ex (\<lambda>s. es_taskId s \<noteq> tr_taskId rq \<and> \<not> prefix ''external-lms:'' (es_taskId s)
                 \<and> session_host machines s = Some h) running;
               contending = filter (\<lambda>p. ps_machineId p = h \<and> ps_identifier p \<noteq> mk_modelId rq) ps
           in (case find (\<lambda>p. js_gt (ps_queued p) (Fin 0)) contending of
                 Some p \<Rightarrow> Some (''LM Studio host '' @ quote_str h @ '' already has '' @ num_str (ps_queued p)
                   @ '' queued request(s) on '' @ ps_identifier p @ ''.'')
               | None \<Rightarrow>
                   (case find status_busy contending of
                      Some p \<Rightarrow> (if \<not> runningOnHost
                        then Some (''LM Studio host '' @ quote_str h @ '' is busy outside !Klein on '' @ ps_identifier p
                          @ '' (status '' @ or_else (ps_status p) ''unknown'' @ '').'')
                        else None)
                    | None \<Rightarrow> None))))"

definition findActiveSameTaskModelTurn :: "string \<Rightarrow> endpoint_session list \<Rightarrow> endpoint_session option" where
  "findActiveSameTaskModelTurn t ss = find (\<lambda>s. es_taskId s = t \<and> es_state s = Running) ss"

section \<open>Purges\<close>

definition STALE_TURN_MS :: jsnum where
  "STALE_TURN_MS = Fin (20 * 60000)"

definition purge_reacquire :: "string \<Rightarrow> turn_request \<Rightarrow> admission \<Rightarrow> admission" where
  "purge_reacquire ws rq s =
     (if tr_parentReacquire rq \<and> list_ex (\<lambda>r. task_of r = tr_taskId rq) (active_of s ws)
      then set_active ws (filter (\<lambda>r. task_of r \<noteq> tr_taskId rq) (active_of s ws)) s else s)"

definition leaked :: "turn_request \<Rightarrow> ps_model list \<Rightarrow> jsnum \<Rightarrow> reservation \<Rightarrow> bool" where
  "leaked rq ps now r \<longleftrightarrow>
     task_of r \<noteq> tr_taskId rq
     \<and> (case es_startedAt (rs_session r) of None \<Rightarrow> False | Some t \<Rightarrow> js_gt (js_sub now t) STALE_TURN_MS)
     \<and> mk_modelId (rs_session r) \<noteq> []
     \<and> mk_modelId (rs_session r) \<in> set (map ps_identifier (filter (\<lambda>p. js_eq (ps_queued p) (Fin 0)
          \<and> (case ps_status p of None \<Rightarrow> True | Some st \<Rightarrow> to_lower (trim st) = ''idle'')) ps))"

definition purge_leaked :: "string \<Rightarrow> turn_request \<Rightarrow> ps_model list \<Rightarrow> jsnum \<Rightarrow> admission \<Rightarrow> admission" where
  "purge_leaked ws rq ps now s =
     (let gone = map task_of (filter (leaked rq ps now) (active_of s ws))
      in if gone = [] then s else set_active ws (filter (\<lambda>r. task_of r \<notin> set gone) (active_of s ws)) s)"

definition releaseModelTurnAdmission :: "string \<Rightarrow> reservation \<Rightarrow> admission \<Rightarrow> admission" where
  "releaseModelTurnAdmission ws r s = set_active ws (filter (\<lambda>x. rs_serial x \<noteq> rs_serial r) (active_of s ws)) s"

definition purgeModelTurnReservationsForDeadTask :: "string \<Rightarrow> string \<Rightarrow> admission \<Rightarrow> admission" where
  "purgeModelTurnReservationsForDeadTask ws t s =
     (let ghost = (\<lambda>r. task_of r = t \<or> prefix (t @ ''::'') (task_of r))
      in if \<not> list_ex ghost (active_of s ws) then s else set_active ws (filter (\<lambda>r. \<not> ghost r) (active_of s ws)) s)"

text \<open>Sessions of cards in a terminal lane; a lane is its id with its card ids.\<close>

definition parentCardIdOf :: "string \<Rightarrow> string \<times> bool" where
  "parentCardIdOf t =
     (case find (\<lambda>i. prefix ''::'' (drop i t)) [0..<length t] of None \<Rightarrow> (t, False) | Some i \<Rightarrow> (take i t, True))"

definition TERMINAL_LANES :: "string list" where
  "TERMINAL_LANES = [''trash'', ''completed'']"

type_synonym lanes = "(string \<times> string list) list"

definition terminal_lane :: "lanes \<Rightarrow> string \<Rightarrow> bool \<Rightarrow> string option" where
  "terminal_lane b cid derived =
     (case map_of (omap_of (concat (map (\<lambda>(c, cards). if c \<in> set TERMINAL_LANES then map (\<lambda>i. (i, c)) cards else []) b))) cid of
        Some c \<Rightarrow> Some c
      | None \<Rightarrow> (if \<not> derived \<and> b \<noteq> [] then Some ''absent'' else None))"

definition on_live_lane :: "lanes \<Rightarrow> string \<Rightarrow> bool" where
  "on_live_lane b cid \<longleftrightarrow> list_ex (\<lambda>(c, cards). c \<notin> set TERMINAL_LANES \<and> cid \<in> set cards) b"

definition trashed_step :: "lanes \<Rightarrow> string \<Rightarrow> string list \<times> (string \<times> string) list \<Rightarrow> string list \<times> (string \<times> string) list" where
  "trashed_step b t s =
     (case s of (seen, stops) \<Rightarrow>
        (case parentCardIdOf t of (cid, derived) \<Rightarrow>
           (if t \<in> set seen \<or> on_live_lane b cid then s
            else (case terminal_lane b cid derived of
                    None \<Rightarrow> s
                  | Some c \<Rightarrow> (oset_add t seen, stops @ [(t, c)])))))"

definition selectTrashedCardSessions :: "lanes \<Rightarrow> string list \<Rightarrow> (string \<times> string) list" where
  "selectTrashedCardSessions b ts = snd (fold (trashed_step b) ts ([], []))"

definition purgeModelTurnReservationsForTerminalLaneCards :: "string \<Rightarrow> lanes \<Rightarrow> admission \<Rightarrow> admission" where
  "purgeModelTurnReservationsForTerminalLaneCards ws b s =
     (let doomed = map fst (selectTrashedCardSessions b (map task_of (active_of s ws)))
      in if active_of s ws = [] \<or> \<not> list_ex (\<lambda>r. task_of r \<in> set doomed) (active_of s ws) then s
         else set_active ws (filter (\<lambda>r. task_of r \<notin> set doomed) (active_of s ws)) s)"

section \<open>One evaluation\<close>

record inputs =
  ev_config :: "layers option"
  ev_ps :: "ps_model list"
  ev_registry :: model_registry
  ev_now :: jsnum
  ev_hostFallback :: "jsnum option"

datatype admission_result = Granted reservation | Waiting string "jsnum option" | Crashed

definition POLL_MS :: jsnum where
  "POLL_MS = Fin 3000"

definition ad_machines :: "sched_env \<Rightarrow> turn_request \<Rightarrow> ps_model list \<Rightarrow> (string, string) omap" where
  "ad_machines env rq ps = buildLmStudioMachineByModelId (url_of env) ps [Some (mk_providerId rq)] [mk_endpoint rq]"

definition ad_host :: "(string, string) omap \<Rightarrow> turn_request \<Rightarrow> string option" where
  "ad_host machines rq = Option.bind (map_of machines (mk_modelId rq)) (\<lambda>h. or_null (trim h))"

definition ad_caps :: "sched_env \<Rightarrow> layers \<Rightarrow> inputs \<Rightarrow> turn_request \<Rightarrow> string option \<Rightarrow> session_caps" where
  "ad_caps env cfg i rq host = resolveSessionConcurrencyCaps
     \<lparr>ci_providerId = mk_providerId rq, ci_modelId = buildNKleinModelRegistryKey (url_of env) rq,
      ci_endpoint = mk_endpoint rq, ci_hostId = host, ci_layers = cfg,
      ci_registryModelFallback = None, ci_hostFallback = ev_hostFallback i\<rparr>"

definition ad_parent :: "turn_request \<Rightarrow> string option" where
  "ad_parent rq = Option.bind (tr_admissionParentTaskId rq) (\<lambda>p. or_null (trim p))"

definition ad_running :: "string \<Rightarrow> turn_request \<Rightarrow> ps_model list \<Rightarrow> admission \<Rightarrow> endpoint_session list" where
  "ad_running ws rq ps s = filter (\<lambda>e. ad_parent rq \<noteq> Some (es_taskId e)
       \<and> (\<not> tr_freshSessionStart rq \<and> \<not> tr_parentReacquire rq \<or> es_taskId e \<noteq> tr_taskId rq))
     (collectModelTurnSchedulingSessions ws rq ps s)"

definition ad_request :: "turn_request \<Rightarrow> inputs \<Rightarrow> endpoint_session list \<Rightarrow> session_caps \<Rightarrow> (string, string) omap
    \<Rightarrow> string option \<Rightarrow> sched_request" where
  "ad_request rq i running caps machines host =
     \<lparr>mk_providerId = mk_providerId rq, mk_modelId = mk_modelId rq, mk_endpoint = mk_endpoint rq,
      rq_taskId = tr_taskId rq, rq_runningSessions = running, rq_modelRegistry = ev_registry i, rq_now = Some (ev_now i),
      rq_hostId = host, rq_providerConcurrencyCap = providerCap caps, rq_modelConcurrencyCap = modelCap caps,
      rq_endpointConcurrencyCap = endpointCap caps, rq_hostConcurrencyCap = hostCap caps, rq_perMachineCap = None,
      rq_machineByModelId = Some machines\<rparr>"

definition new_reservation :: "turn_request \<Rightarrow> jsnum \<Rightarrow> string option \<Rightarrow> nat \<Rightarrow> reservation" where
  "new_reservation rq now host n = \<lparr>rs_serial = n, rs_session =
     \<lparr>mk_providerId = mk_providerId rq, mk_modelId = mk_modelId rq, mk_endpoint = mk_endpoint rq,
      es_taskId = tr_taskId rq, es_state = Running, es_startedAt = Some now, es_hostId = host\<rparr>\<rparr>"

definition grant :: "string \<Rightarrow> turn_request \<Rightarrow> jsnum \<Rightarrow> string option \<Rightarrow> admission \<Rightarrow> admission_result \<times> admission" where
  "grant ws rq now host s =
     (let r = new_reservation rq now host (ad_serial s)
      in (Granted r, set_active ws (active_of s ws @ [r])
            (s\<lparr>ad_queue := remove_waiter (tr_taskId rq) (ad_queue s), ad_serial := Suc (ad_serial s)\<rparr>)))"

definition same_task_reason :: "turn_request \<Rightarrow> string" where
  "same_task_reason rq = ''Task '' @ quote_str (tr_taskId rq)
     @ '' already has an active model turn; waiting before starting another turn for the same session.''"

definition behind_reason :: "string \<Rightarrow> string \<Rightarrow> string" where
  "behind_reason r holder = ''Model-turn resource '' @ quote_str r @ '' is reserved for earlier waiter '' @ quote_str holder
     @ ''; waiting fairly behind it.''"

text \<open>What follows the purges: the same-task hold, the waiters, the scheduler, contention outside, the grant.\<close>

definition decide_turn :: "sched_env \<Rightarrow> string \<Rightarrow> turn_request \<Rightarrow> inputs \<Rightarrow> session_caps \<Rightarrow> (string, string) omap \<Rightarrow> string option
    \<Rightarrow> admission \<Rightarrow> admission_result \<times> admission" where
  "decide_turn env ws rq i caps machines host s =
     (let running = ad_running ws rq (ev_ps i) s; sr = ad_request rq i running caps machines host in
      case findActiveSameTaskModelTurn (tr_taskId rq) running of
        Some _ \<Rightarrow> (Waiting (same_task_reason rq) None, s)
      | None \<Rightarrow>
          (case reservedFor (getNKleinEndpointSchedulingResourceIds env sr) (ev_now i) (ad_queue s) of (holder, q) \<Rightarrow>
             (case (case Option.bind holder or_null of Some h \<Rightarrow> if h \<noteq> tr_taskId rq then Some h else None | None \<Rightarrow> None) of
                Some h \<Rightarrow>
                  (let r = or_else (resourceFor h q) ''model capacity''
                   in (Waiting (behind_reason r h) None, s\<lparr>ad_queue := enqueue (tr_taskId rq) r (ev_now i) q\<rparr>))
              | None \<Rightarrow>
                  (case scheduleNKleinEndpointStart env sr of
                     Inl _ \<Rightarrow> (Crashed, s\<lparr>ad_queue := q\<rparr>)
                   | Inr (Hold b r w msg) \<Rightarrow>
                       (Waiting msg w, s\<lparr>ad_queue := enqueue (tr_taskId rq) r (ev_now i) q\<rparr>)
                   | Inr Admit \<Rightarrow>
                       (case Option.bind (findExternalLmsHostBlock rq (ev_ps i) host running machines) or_null of
                          Some msg \<Rightarrow> (Waiting msg None, s\<lparr>ad_queue := q\<rparr>)
                        | None \<Rightarrow> grant ws rq (ev_now i) host (s\<lparr>ad_queue := q\<rparr>))))))"

definition evaluateModelTurnAdmission :: "sched_env \<Rightarrow> string \<Rightarrow> turn_request \<Rightarrow> inputs \<Rightarrow> admission \<Rightarrow> admission_result \<times> admission" where
  "evaluateModelTurnAdmission env ws rq i s =
     (let s1 = (case ev_config i of None \<Rightarrow> s | Some c \<Rightarrow> s\<lparr>ad_lastConfig := omap_set ws c (ad_lastConfig s)\<rparr>) in
      case map_of (ad_lastConfig s1) ws of
        None \<Rightarrow> (Waiting (''runtime config unavailable for admission (load timed out with no cached copy) '' @ em_dash @ '' re-polling'') (Some POLL_MS), s1)
      | Some cfg \<Rightarrow>
          (let s2 = (if ev_ps i \<noteq> [] then s1\<lparr>ad_lastPs := ev_ps i\<rparr> else s1);
               machines = ad_machines env rq (ad_lastPs s2); host = ad_host machines rq;
               caps = ad_caps env cfg i rq host
           in decide_turn env ws rq i caps machines host
                (purge_leaked ws rq (ev_ps i) (ev_now i) (purge_reacquire ws rq s2))))"

section \<open>Waiting and telling\<close>

text \<open>How long a refused turn sleeps before it is evaluated again, and whether it tells its caller that it waits.\<close>

definition retry_sleep :: "jsnum option \<Rightarrow> jsnum" where
  "retry_sleep w =
     (let retryAfter = (case w of Some n \<Rightarrow> if js_isFinite n then n else POLL_MS | None \<Rightarrow> POLL_MS)
      in js_min (js_max POLL_MS retryAfter) (Fin 30000))"

definition WARN_MS :: jsnum where
  "WARN_MS = Fin 30000"

definition warn_step :: "jsnum \<Rightarrow> jsnum \<Rightarrow> bool \<times> jsnum" where
  "warn_step now nextWarnAt = (if js_ge now nextWarnAt then (True, js_add now WARN_MS) else (False, nextWarnAt))"

type_synonym phase_memo = "(string, string list) omap"

definition memo_stamp :: "string \<Rightarrow> string \<Rightarrow> phase_memo \<Rightarrow> bool \<times> phase_memo" where
  "memo_stamp t ph m =
     (let phases = (case map_of m t of None \<Rightarrow> [] | Some ps \<Rightarrow> ps)
      in if ph \<in> set phases then (False, m) else (True, omap_set t (oset_add ph phases) m))"

definition memo_settle :: "string \<Rightarrow> phase_memo \<Rightarrow> phase_memo" where
  "memo_settle t m = omap_delete t m"

definition memo_stamped :: "string \<Rightarrow> phase_memo \<Rightarrow> string list" where
  "memo_stamped t m = (case map_of m t of None \<Rightarrow> [] | Some ps \<Rightarrow> ps)"

end
