(* ===== verification/TurnQueueFacts.thy ===== *)
theory TurnQueueFacts
  imports TurnAdmission
begin

text \<open>
  The waiters of the turn admission: \<^verbatim>\<open>reservedFor\<close> drops the waiters that stopped polling and returns the one that
  has waited longest for a wanted resource; polling again keeps a waiter's place.
\<close>

section \<open>The queue\<close>

definition queue_ok :: "wait_queue \<Rightarrow> bool" where
  "queue_ok q \<longleftrightarrow> distinct (map fst (wq_byTaskId q)) \<and> distinct (map (\<lambda>e. wt_sequence (snd e)) (wq_byTaskId q))
     \<and> (\<forall>e \<in> set (wq_byTaskId q). wt_sequence (snd e) < wq_nextSequence q)"

definition live_for :: "string list \<Rightarrow> jsnum \<Rightarrow> wait_queue \<Rightarrow> (string \<times> waiter) list" where
  "live_for ids now q = filter (\<lambda>e. \<not> stale now (snd e) \<and> wt_resourceId (snd e) \<in> set ids) (wq_byTaskId q)"

text \<open>The front of a scan: a minimum of what has been seen.\<close>

definition front_of :: "(string \<times> nat) option \<Rightarrow> (string \<times> waiter) list \<Rightarrow> bool" where
  "front_of f es \<longleftrightarrow> (case f of
     None \<Rightarrow> es = []
   | Some (t, n) \<Rightarrow> (\<exists>w. (t, w) \<in> set es \<and> wt_sequence w = n) \<and> (\<forall>e \<in> set es. n \<le> wt_sequence (snd e)))"

lemma scan_front:
  "scan_waiters ids now es (front, m) = (front', m') \<Longrightarrow> front_of front seen \<Longrightarrow>
     front_of front' (seen @ filter (\<lambda>e. \<not> stale now (snd e) \<and> wt_resourceId (snd e) \<in> set ids) es)"
proof (induction es arbitrary: front m seen)
  case (Cons e es)
  obtain t w where e: "e = (t, w)" by (cases e)
  consider "stale now w \<or> wt_resourceId w \<notin> set ids" | "\<not> stale now w" "wt_resourceId w \<in> set ids" by blast
  then show ?case
  proof cases
    case 1
    then obtain m1 where "scan_waiters ids now es (front, m1) = (front', m')" using Cons.prems(1) e by (auto split: if_splits)
    from Cons.IH[OF this Cons.prems(2)] 1 e show ?thesis by auto
  next
    case 2
    then obtain f1 where f: "scan_waiters ids now es (f1, m) = (front', m')"
      "f1 = (case front of None \<Rightarrow> Some (t, wt_sequence w)
         | Some (t', n) \<Rightarrow> if wt_sequence w < n then Some (t, wt_sequence w) else front)"
      using Cons.prems(1) e by (cases front) (auto split: if_splits)
    have "front_of f1 (seen @ [(t, w)])"
      using f(2) Cons.prems(2) by (cases front) (fastforce simp: front_of_def)+
    from Cons.IH[OF f(1) this] 2 e show ?thesis by simp
  qed
qed simp

lemma scan_map:
  "scan_waiters ids now es (front, m) = (front', m') \<Longrightarrow>
     m' = filter (\<lambda>e. fst e \<notin> {t. \<exists>w. (t, w) \<in> set es \<and> stale now w}) m"
proof (induction es arbitrary: front m)
  case (Cons e es)
  obtain t w where e: "e = (t, w)" by (cases e)
  have "\<exists>f1. scan_waiters ids now es (f1, if stale now w then omap_delete t m else m) = (front', m')"
    using Cons.prems e by (cases front) (auto split: if_splits)
  then have "m' = filter (\<lambda>e. fst e \<notin> {t. \<exists>w. (t, w) \<in> set es \<and> stale now w}) (if stale now w then omap_delete t m else m)"
    using Cons.IH by blast
  then show ?case by (auto simp: e omap_delete_def intro!: filter_cong)
qed simp

lemma set_omap_set_exact: "distinct (map fst m) \<Longrightarrow> set (omap_set k v m) = insert (k, v) {e \<in> set m. fst e \<noteq> k}"
  by (induction k v m rule: omap_set.induct) (auto simp: image_iff)

lemma reservedFor_spec:
  assumes q: "queue_ok q" and r: "reservedFor ids now q = (holder, q')"
  shows "wq_byTaskId q' = filter (\<lambda>e. \<not> stale now (snd e)) (wq_byTaskId q)" "wq_nextSequence q' = wq_nextSequence q" "queue_ok q'"
    and "case holder of None \<Rightarrow> live_for ids now q = []
      | Some t \<Rightarrow> \<exists>w. (t, w) \<in> set (live_for ids now q) \<and> (\<forall>e \<in> set (live_for ids now q). wt_sequence w \<le> wt_sequence (snd e))"
proof -
  obtain front m where s: "scan_waiters ids now (wq_byTaskId q) (None, wq_byTaskId q) = (front, m)" by fastforce
  have h: "holder = map_option fst front" "q' = q\<lparr>wq_byTaskId := m\<rparr>" using r s by (simp_all add: reservedFor_def)
  have "fst e \<notin> {t. \<exists>w. (t, w) \<in> set (wq_byTaskId q) \<and> stale now w} \<longleftrightarrow> \<not> stale now (snd e)"
    if "e \<in> set (wq_byTaskId q)" for e
    using q that unfolding queue_ok_def by (cases e) (auto dest: eq_key_imp_eq_value)
  then show m: "wq_byTaskId q' = filter (\<lambda>e. \<not> stale now (snd e)) (wq_byTaskId q)"
    using scan_map[OF s] h(2) by (auto intro!: filter_cong)
  show n: "wq_nextSequence q' = wq_nextSequence q" by (simp add: h(2))
  show "queue_ok q'" using q unfolding queue_ok_def m n by (auto simp: distinct_map inj_on_def)
  have "front_of front (live_for ids now q)"
    using scan_front[OF s, of "[]"] by (simp add: live_for_def front_of_def)
  then show "case holder of None \<Rightarrow> live_for ids now q = []
      | Some t \<Rightarrow> \<exists>w. (t, w) \<in> set (live_for ids now q) \<and> (\<forall>e \<in> set (live_for ids now q). wt_sequence w \<le> wt_sequence (snd e))"
    unfolding h(1) front_of_def by (cases front) auto
qed

lemma queue_set:
  assumes "queue_ok q" "wt_sequence w < n" "wq_nextSequence q \<le> n"
    and "\<And>t' w'. (t', w') \<in> set (wq_byTaskId q) \<Longrightarrow> t' \<noteq> t \<Longrightarrow> wt_sequence w' \<noteq> wt_sequence w"
  shows "queue_ok \<lparr>wq_nextSequence = n, wq_byTaskId = omap_set t w (wq_byTaskId q)\<rparr>"
proof -
  let ?m = "omap_set t w (wq_byTaskId q)"
  have d: "distinct (map fst ?m)" using assms(1) distinct_omap_set by (auto simp: queue_ok_def)
  have mem: "e = (t, w) \<or> e \<in> set (wq_byTaskId q) \<and> fst e \<noteq> t" if "e \<in> set ?m" for e
    using that assms(1) by (auto simp: queue_ok_def set_omap_set_exact)
  have "inj_on (\<lambda>e. wt_sequence (snd e)) (set (wq_byTaskId q))" using assms(1) by (simp add: queue_ok_def distinct_map)
  then have "inj_on (\<lambda>e. wt_sequence (snd e)) (set ?m)"
    using mem assms(4) unfolding inj_on_def by (metis prod.collapse snd_conv)
  moreover have "distinct ?m" using d by (simp add: distinct_map)
  ultimately have "distinct (map (\<lambda>e. wt_sequence (snd e)) ?m)" by (simp add: distinct_map)
  moreover have "wt_sequence (snd e) < n" if "e \<in> set ?m" for e
    using mem[OF that] assms(1-3) by (auto simp: queue_ok_def)
  ultimately show ?thesis using d by (simp add: queue_ok_def)
qed

lemma enqueue_ok:
  assumes q: "queue_ok q"
  shows "queue_ok (enqueue t r now q)"
proof -
  have new: "queue_ok (q\<lparr>wq_byTaskId := omap_set t \<lparr>wt_resourceId = r, wt_sequence = wq_nextSequence q, wt_lastSeenAt = now\<rparr> (wq_byTaskId q),
      wq_nextSequence := Suc (wq_nextSequence q)\<rparr>)"
    using queue_set[OF q, of "\<lparr>wt_resourceId = r, wt_sequence = wq_nextSequence q, wt_lastSeenAt = now\<rparr>" "Suc (wq_nextSequence q)" t] q
    by (cases q) (force simp: queue_ok_def)
  show ?thesis
  proof (cases "map_of (wq_byTaskId q) t")
    case (Some w)
    then have m: "(t, w) \<in> set (wq_byTaskId q)" by (rule map_of_SomeD)
    have inj: "inj_on (\<lambda>e. wt_sequence (snd e)) (set (wq_byTaskId q))" using q by (simp add: queue_ok_def distinct_map)
    have "wt_sequence w' \<noteq> wt_sequence (w\<lparr>wt_lastSeenAt := now\<rparr>)" if "(t', w') \<in> set (wq_byTaskId q)" "t' \<noteq> t" for t' w'
      using inj_onD[OF inj, of "(t', w')" "(t, w)"] that m by auto
    moreover have "wt_sequence (w\<lparr>wt_lastSeenAt := now\<rparr>) < wq_nextSequence q" using q m by (force simp: queue_ok_def)
    ultimately have "queue_ok (q\<lparr>wq_byTaskId := omap_set t (w\<lparr>wt_lastSeenAt := now\<rparr>) (wq_byTaskId q)\<rparr>)"
      using queue_set[OF q, of "w\<lparr>wt_lastSeenAt := now\<rparr>" "wq_nextSequence q" t] by (cases q) auto
    with Some new show ?thesis by (simp add: enqueue_def)
  qed (use new in \<open>simp add: enqueue_def\<close>)
qed

lemma remove_ok: "queue_ok q \<Longrightarrow> queue_ok (remove_waiter t q)"
  by (auto simp: queue_ok_def remove_waiter_def set_omap_delete distinct_omap_delete distinct_map omap_delete_def inj_on_def)

text \<open>Polling again for the same resource keeps the place; another resource means the end of the queue.\<close>

lemma enqueue_keeps_place:
  assumes "map_of (wq_byTaskId q) t = Some w" "wt_resourceId w = r"
  shows "map_of (wq_byTaskId (enqueue t r now q)) t = Some (w\<lparr>wt_lastSeenAt := now\<rparr>)" "wq_nextSequence (enqueue t r now q) = wq_nextSequence q"
  using assms by (simp_all add: enqueue_def)

lemma enqueue_others: "t' \<noteq> t \<Longrightarrow> map_of (wq_byTaskId (enqueue t r now q)) t' = map_of (wq_byTaskId q) t'"
  by (simp add: enqueue_def split: option.splits)

end
