(* ===== verification/TurnLoadFacts.thy ===== *)
theory TurnLoadFacts
  imports TurnQueueFacts
begin

text \<open>
  What the evaluation of a turn sees and leaves: the view of the active turns of all workspaces, the load of a host,
  and the state that ordinary turns keep, in which a host never carries more turns than its cap.
\<close>

section \<open>Totals over the workspaces\<close>

definition total :: "('a \<Rightarrow> nat) \<Rightarrow> ('k, 'a) omap \<Rightarrow> nat" where
  "total f m = sum_list (map (\<lambda>e. f (snd e)) m)"

lemma total_set: "distinct (map fst m) \<Longrightarrow>
    total f (omap_set k v m) + (case map_of m k of None \<Rightarrow> 0 | Some x \<Rightarrow> f x) = total f m + f v"
  by (induction k v m rule: omap_set.induct) (auto simp: total_def split: option.splits)

lemma total_delete: "distinct (map fst m) \<Longrightarrow>
    total f (omap_delete k m) + (case map_of m k of None \<Rightarrow> 0 | Some x \<Rightarrow> f x) = total f m"
proof (induction m)
  case (Cons e m)
  then show ?case
    by (cases e) (auto simp: total_def omap_delete_absent map_of_eq_None_iff split: option.splits)
qed (simp add: total_def)

definition on_load :: "string \<Rightarrow> reservation list \<Rightarrow> nat" where
  "on_load h rs = length (filter (\<lambda>r. es_hostId (rs_session r) = Some h) rs)"

definition host_load :: "admission \<Rightarrow> string \<Rightarrow> nat" where
  "host_load s h = total (on_load h) (ad_active s)"

lemma load_set_active:
  assumes "distinct (map fst (ad_active s))"
  shows "host_load (set_active ws rs s) h + on_load h (active_of s ws) = host_load s h + on_load h rs"
  using total_set[OF assms, of "on_load h" ws rs] total_delete[OF assms, of "on_load h" ws]
  by (cases "rs = []"; cases "map_of (ad_active s) ws")
     (simp_all add: host_load_def set_active_def active_of_def on_load_def[of h "[]"])

lemma on_load_filter: "on_load h (filter P rs) \<le> on_load h rs"
  unfolding on_load_def filter_filter by (induction rs) auto

section \<open>The invariant\<close>

text \<open>Names that keep the prefixed ids of a view apart: a workspace has no colon, a task id at most a doubled one first.\<close>

definition clean_task :: "string \<Rightarrow> bool" where
  "clean_task t \<longleftrightarrow> (t = [] \<or> hd t \<noteq> CHR '':'') \<and> \<not> prefix EXTERNAL_LMS_HOLDER_PREFIX t
     \<and> (case dropWhile (\<lambda>c. c \<noteq> CHR '':'') t of [] \<Rightarrow> True | _ # rest \<Rightarrow> rest \<noteq> [] \<and> hd rest = CHR '':'')"

definition clean_workspace :: "string \<Rightarrow> bool" where
  "clean_workspace ws \<longleftrightarrow> CHR '':'' \<notin> set ws \<and> ws \<noteq> ''external-lms''"

definition ordinary_turn :: "reservation \<Rightarrow> bool" where
  "ordinary_turn r \<longleftrightarrow> clean_task (task_of r) \<and> es_state (rs_session r) = Running
     \<and> (case es_hostId (rs_session r) of None \<Rightarrow> True | Some h \<Rightarrow> h \<noteq> [] \<and> trim h = h)"

definition turns_ok :: "admission \<Rightarrow> bool" where
  "turns_ok s \<longleftrightarrow> distinct (map fst (ad_active s))
     \<and> (\<forall>e \<in> set (ad_active s). clean_workspace (fst e) \<and> distinct (map task_of (snd e)) \<and> (\<forall>r \<in> set (snd e). ordinary_turn r))"

lemma active_of_mem: "turns_ok s \<Longrightarrow> (ws, rs) \<in> set (ad_active s) \<Longrightarrow> active_of s ws = rs"
  by (auto simp: turns_ok_def active_of_def)

lemma turns_ok_active:
  "turns_ok s \<Longrightarrow> distinct (map task_of (active_of s ws))" "turns_ok s \<Longrightarrow> r \<in> set (active_of s ws) \<Longrightarrow> ordinary_turn r"
  by (auto simp: turns_ok_def active_of_def dest!: map_of_SomeD split: option.splits)

lemma turns_ok_set:
  assumes "turns_ok s" "clean_workspace ws" "distinct (map task_of rs)" "\<And>r. r \<in> set rs \<Longrightarrow> ordinary_turn r"
  shows "turns_ok (set_active ws rs s)"
  using assms
  by (auto simp: turns_ok_def set_active_def distinct_omap_set distinct_omap_delete set_omap_delete set_omap_set_exact)

lemma turns_ok_filter:
  assumes "turns_ok s"
  shows "turns_ok (set_active ws (filter P (active_of s ws)) s)"
proof (cases "map_of (ad_active s) ws")
  case None
  then show ?thesis using assms
    by (auto simp: active_of_def set_active_def turns_ok_def distinct_omap_delete set_omap_delete)
next
  case (Some rs)
  then have "clean_workspace ws" using assms map_of_SomeD[OF Some] by (auto simp: turns_ok_def)
  then show ?thesis using assms turns_ok_active[OF assms] by (intro turns_ok_set) (auto simp: distinct_map_filter)
qed

lemma load_filter:
  assumes "turns_ok s"
  shows "host_load (set_active ws (filter P (active_of s ws)) s) h \<le> host_load s h"
  using load_set_active[of s ws "filter P (active_of s ws)" h] on_load_filter[of h P "active_of s ws"] assms
  by (auto simp: turns_ok_def)

text \<open>Releases and purges only take turns away.\<close>

definition fewer :: "admission \<Rightarrow> admission \<Rightarrow> bool" where
  "fewer s s' \<longleftrightarrow> turns_ok s' \<and> (\<forall>h. host_load s' h \<le> host_load s h)"

lemma fewer_refl: "turns_ok s \<Longrightarrow> fewer s s"
  by (simp add: fewer_def)

lemma fewer_trans: "fewer s t \<Longrightarrow> fewer t u \<Longrightarrow> fewer s u"
  by (auto simp: fewer_def intro: order_trans)

lemma fewer_filter: "turns_ok s \<Longrightarrow> fewer s (set_active ws (filter P (active_of s ws)) s)"
  by (simp add: fewer_def turns_ok_filter load_filter)

lemma fewer_release: "turns_ok s \<Longrightarrow> fewer s (releaseModelTurnAdmission ws r s)"
  by (simp add: releaseModelTurnAdmission_def fewer_filter)

lemma fewer_dead: "turns_ok s \<Longrightarrow> fewer s (purgeModelTurnReservationsForDeadTask ws t s)"
  using fewer_filter[of s ws "\<lambda>r. \<not> (task_of r = t \<or> prefix (t @ ''::'') (task_of r))"]
  by (simp add: purgeModelTurnReservationsForDeadTask_def Let_def fewer_refl)

lemma fewer_lanes: "turns_ok s \<Longrightarrow> fewer s (purgeModelTurnReservationsForTerminalLaneCards ws b s)"
  by (simp add: purgeModelTurnReservationsForTerminalLaneCards_def Let_def fewer_refl fewer_filter)

lemma fewer_reacquire: "turns_ok s \<Longrightarrow> fewer s (purge_reacquire ws rq s)"
  by (simp add: purge_reacquire_def fewer_refl fewer_filter)

lemma fewer_leaked: "turns_ok s \<Longrightarrow> fewer s (purge_leaked ws rq ps now s)"
  by (simp add: purge_leaked_def Let_def fewer_refl fewer_filter)

lemma ad_active_frame:
  "turns_ok (s\<lparr>ad_queue := q\<rparr>) = turns_ok s" "turns_ok (s\<lparr>ad_serial := n\<rparr>) = turns_ok s"
  "turns_ok (s\<lparr>ad_lastConfig := c\<rparr>) = turns_ok s" "turns_ok (s\<lparr>ad_lastPs := p\<rparr>) = turns_ok s"
  "host_load (s\<lparr>ad_queue := q\<rparr>) = host_load s" "host_load (s\<lparr>ad_serial := n\<rparr>) = host_load s"
  "host_load (s\<lparr>ad_lastConfig := c\<rparr>) = host_load s" "host_load (s\<lparr>ad_lastPs := p\<rparr>) = host_load s"
  "active_of (s\<lparr>ad_queue := q\<rparr>) = active_of s" "active_of (s\<lparr>ad_serial := n\<rparr>) = active_of s"
  "active_of (s\<lparr>ad_lastConfig := c\<rparr>) = active_of s" "active_of (s\<lparr>ad_lastPs := p\<rparr>) = active_of s"
  by (simp_all add: turns_ok_def host_load_def active_of_def fun_eq_iff)

section \<open>The view\<close>

definition view_entry :: "string \<Rightarrow> string \<Rightarrow> reservation \<Rightarrow> string \<times> endpoint_session" where
  "view_entry ws ws' r = (let k = view_key ws ws' (task_of r) in (k, (rs_session r)\<lparr>es_taskId := k\<rparr>))"

definition view_entries :: "string \<Rightarrow> admission \<Rightarrow> (string \<times> endpoint_session) list" where
  "view_entries ws s = concat (map (\<lambda>(ws', rs). map (view_entry ws ws') rs) (ad_active s))"

lemma fold_collect: "fold (collect_turn ws ws') rs m = fold (\<lambda>(k, v) m. omap_set k v m) (map (view_entry ws ws') rs) m"
  by (induction rs arbitrary: m) (simp_all add: collect_turn_def view_entry_def Let_def)

lemma tracked_turns_eq: "tracked_turns ws s = omap_of (view_entries ws s)"
proof -
  have "fold (\<lambda>(ws', rs). fold (collect_turn ws ws') rs) es m
      = fold (\<lambda>(k, v) m. omap_set k v m) (concat (map (\<lambda>(ws', rs). map (view_entry ws ws') rs) es)) m" for es m
    by (induction es arbitrary: m) (auto simp: fold_collect)
  then show ?thesis by (simp add: tracked_turns_def omap_of_def view_entries_def)
qed

lemma split_at_colon: "CHR '':'' \<notin> set w \<Longrightarrow> dropWhile (\<lambda>c. c \<noteq> CHR '':'') (w @ '':'' @ t) = '':'' @ t"
  by (induction w) auto

lemma colon_prefix_inj:
  assumes "CHR '':'' \<notin> set w" "CHR '':'' \<notin> set w'" "w @ '':'' @ t = w' @ '':'' @ t'"
  shows "w = w' \<and> t = t'"
proof -
  have "takeWhile (\<lambda>c. c \<noteq> CHR '':'') (v @ '':'' @ u) = v" if "CHR '':'' \<notin> set v" for v u
    using that by (induction v) auto
  from this[OF assms(1), of t] this[OF assms(2), of t'] assms(3) have "w = w'" by simp
  with assms(3) show ?thesis by simp
qed

lemma clean_not_prefixed: "clean_task t \<Longrightarrow> clean_task t' \<Longrightarrow> CHR '':'' \<notin> set w \<Longrightarrow> t \<noteq> w @ '':'' @ t'"
proof
  assume c: "clean_task t" "clean_task t'" "CHR '':'' \<notin> set w" and t: "t = w @ '':'' @ t'"
  have "dropWhile (\<lambda>c. c \<noteq> CHR '':'') t = CHR '':'' # t'" unfolding t using split_at_colon[OF c(3), of t'] by simp
  with c(1) have "t' \<noteq> [] \<and> hd t' = CHR '':''" by (simp add: clean_task_def)
  with c(2) show False by (simp add: clean_task_def)
qed

lemma view_key_inj:
  assumes "clean_task t" "clean_task t'" "clean_workspace w" "clean_workspace w'" "view_key ws w t = view_key ws w' t'"
  shows "w = w' \<and> t = t'"
proof -
  have c: "CHR '':'' \<notin> set w" "CHR '':'' \<notin> set w'" using assms(3,4) by (simp_all add: clean_workspace_def)
  have n1: "t \<noteq> w' @ '':'' @ t'" using clean_not_prefixed[OF assms(1,2) c(2)] .
  have n2: "t' \<noteq> w @ '':'' @ t" using clean_not_prefixed[OF assms(2,1) c(1)] .
  show ?thesis
  proof (cases "w = ws \<or> w' = ws")
    case True
    with assms(5) n1 n2 show ?thesis unfolding view_key_def by (metis)
  next
    case False
    with assms(5) have "w @ '':'' @ t = w' @ '':'' @ t'" by (simp add: view_key_def)
    from colon_prefix_inj[OF c this] show ?thesis .
  qed
qed

lemma view_key_not_external:
  assumes "clean_task t" "clean_workspace w"
  shows "\<not> prefix EXTERNAL_LMS_HOLDER_PREFIX (view_key ws w t)"
proof (cases "w = ws")
  case True
  with assms show ?thesis by (simp add: view_key_def clean_task_def)
next
  case False
  have "w = ''external-lms''" if "w @ '':'' @ t = ''external-lms'' @ '':'' @ u" for u
    using colon_prefix_inj[of w "''external-lms''" t u] that assms(2) by (simp add: clean_workspace_def)
  with False assms(2) show ?thesis
    by (auto simp: view_key_def prefix_def EXTERNAL_LMS_HOLDER_PREFIX_def clean_workspace_def)
qed

lemma view_distinct:
  assumes "turns_ok s"
  shows "distinct (map fst (view_entries ws s))"
proof -
  have "distinct (concat (map (\<lambda>e. map (\<lambda>r. view_key ws (fst e) (task_of r)) (snd e)) es))"
    if "distinct (map fst es)" "\<forall>e \<in> set es. clean_workspace (fst e) \<and> distinct (map task_of (snd e)) \<and> (\<forall>r \<in> set (snd e). ordinary_turn r)"
    for es :: "(string \<times> reservation list) list"
    using that
  proof (induction es)
    case (Cons e es)
    obtain w rs where e: "e = (w, rs)" by (cases e)
    have rs: "clean_workspace w" "distinct (map task_of rs)" "\<And>r. r \<in> set rs \<Longrightarrow> clean_task (task_of r)"
      using Cons.prems(2) e by (auto simp: ordinary_turn_def)
    have "inj_on (\<lambda>t. view_key ws w t) (task_of ` set rs)"
      using rs view_key_inj by (fastforce simp: inj_on_def)
    then have d: "distinct (map (\<lambda>r. view_key ws w (task_of r)) rs)"
      using rs(2) by (auto simp: distinct_map intro: comp_inj_on[unfolded comp_def])
    have "view_key ws w (task_of r) \<noteq> view_key ws w' (task_of r')"
      if "r \<in> set rs" "(w', rs') \<in> set es" "r' \<in> set rs'" for r w' rs' r'
    proof
      assume eq: "view_key ws w (task_of r) = view_key ws w' (task_of r')"
      have "clean_task (task_of r')" "clean_workspace w'" using Cons.prems(2) that by (auto simp: ordinary_turn_def)
      from view_key_inj[OF rs(3)[OF that(1)] this(1) rs(1) this(2) eq] have "w = w'" by simp
      moreover have "w' \<in> fst ` set es" using that(2) by force
      ultimately show False using Cons.prems(1) e by simp
    qed
    then show ?case using d Cons e by fastforce
  qed simp
  from this[of "ad_active s"] assms show ?thesis
    by (simp add: turns_ok_def view_entries_def map_concat comp_def view_entry_def Let_def case_prod_beta)
qed

lemma view_not_external: "turns_ok s \<Longrightarrow> k \<in> fst ` set (view_entries ws s) \<Longrightarrow> \<not> prefix EXTERNAL_LMS_HOLDER_PREFIX k"
  by (auto simp: view_entries_def view_entry_def Let_def turns_ok_def ordinary_turn_def view_key_not_external dest!: bspec)

text \<open>The sessions of a view begin, before they are sorted, with the tracked turns.\<close>

lemma omap_set_append: "k \<notin> fst ` set a \<Longrightarrow> omap_set k v (a @ b) = a @ omap_set k v b"
  by (induction a) auto

lemma external_keeps:
  assumes "\<And>k. k \<in> fst ` set a \<Longrightarrow> \<not> prefix EXTERNAL_LMS_HOLDER_PREFIX k"
  shows "\<exists>b'. fold (collect_external rq tr) ps (a @ b) = a @ b'"
proof (induction ps arbitrary: b)
  case (Cons p ps)
  have "prefix EXTERNAL_LMS_HOLDER_PREFIX (external_id p)" by (simp add: external_id_def)
  then have "external_id p \<notin> fst ` set a" using assms by blast
  then have "\<exists>b1. collect_external rq tr p (a @ b) = a @ b1" by (simp add: collect_external_def omap_set_append)
  then obtain b1 where "collect_external rq tr p (a @ b) = a @ b1" by blast
  with Cons.IH show ?case by simp
qed simp

lemma collected_view:
  assumes "turns_ok s"
  shows "\<exists>ext. collectModelTurnSchedulingSessions ws rq ps s = js_sort by_start (map snd (view_entries ws s) @ ext)"
proof -
  have t: "tracked_turns ws s = view_entries ws s"
    using view_distinct[OF assms] by (simp add: tracked_turns_eq)
  obtain b where "fold (collect_external rq (map (\<lambda>e. mk_modelId (snd e)) (view_entries ws s))) ps (view_entries ws s @ []) = view_entries ws s @ b"
    using external_keeps[of "view_entries ws s"] view_not_external[OF assms] by metis
  then show ?thesis by (auto simp: collectModelTurnSchedulingSessions_def t Let_def)
qed


lemma view_load: "length (filter (\<lambda>e. es_hostId (snd e) = Some h) (view_entries ws s)) = host_load s h"
proof -
  have r: "length (filter (\<lambda>e. es_hostId (snd e) = Some h) (map (view_entry ws w) rs)) = on_load h rs" for w rs
    by (induction rs) (auto simp: on_load_def view_entry_def Let_def)
  have "length (filter (\<lambda>e. es_hostId (snd e) = Some h) (concat (map (\<lambda>(w, rs). map (view_entry ws w) rs) es))) = total (on_load h) es" for es
    using r by (induction es) (auto simp: total_def)
  then show ?thesis by (simp add: view_entries_def host_load_def)
qed

text \<open>What is known of an entry: it is a running turn of another task, no phantom, on its host.\<close>

lemma view_entry_facts:
  assumes s: "turns_ok s" and e: "e \<in> set (view_entries ws s)"
    and own: "clean_task t" "t \<notin> task_of ` set (active_of s ws)" and host: "es_hostId (snd e) = Some h"
  shows "es_taskId (snd e) \<noteq> t" "es_state (snd e) = Running" "\<not> prefix EXTERNAL_LMS_HOLDER_PREFIX (es_taskId (snd e))"
    and "resolveSessionHostId m (snd e) = Some h"
proof -
  from e obtain w rs r where r: "(w, rs) \<in> set (ad_active s)" "r \<in> set rs" "e = view_entry ws w r"
    by (auto simp: view_entries_def)
  have o1: "ordinary_turn r" "clean_workspace w" using s r by (auto simp: turns_ok_def)
  have k: "es_taskId (snd e) = view_key ws w (task_of r)" "fst e = view_key ws w (task_of r)"
    using r(3) by (simp_all add: view_entry_def Let_def)
  show "es_taskId (snd e) \<noteq> t"
  proof (cases "w = ws")
    case True
    then have "r \<in> set (active_of s ws)" using r active_of_mem[OF s] by auto
    with True k own(2) show ?thesis by (auto simp: view_key_def)
  next
    case False
    then show ?thesis using k clean_not_prefixed[OF own(1), of "task_of r" w] o1
      by (auto simp: view_key_def ordinary_turn_def clean_workspace_def)
  qed
  show "es_state (snd e) = Running" using o1 r(3) by (simp add: view_entry_def Let_def ordinary_turn_def)
  show "\<not> prefix EXTERNAL_LMS_HOLDER_PREFIX (es_taskId (snd e))"
    unfolding k using view_key_not_external o1 by (simp add: ordinary_turn_def)
  have "es_hostId (rs_session r) = Some h" using host r(3) by (simp add: view_entry_def Let_def)
  then have "h \<noteq> [] \<and> trim h = h" using o1(1) by (simp add: ordinary_turn_def)
  then show "resolveSessionHostId m (snd e) = Some h" using host by (simp add: resolveSessionHostId_def or_null_def)
qed

lemma filter_count_mono: "(\<And>x. x \<in> set xs \<Longrightarrow> P x \<Longrightarrow> Q x) \<Longrightarrow> length (filter P xs) \<le> length (filter Q xs)"
  by (induction xs) auto

lemma unshadowed_sessions:
  "rq_runningSessions (unshadowed rq) = filter (\<lambda>s. \<not> reusable_phantom rq s) (rq_runningSessions rq)"
  "rq_taskId (unshadowed rq) = rq_taskId rq" "rq_machineByModelId (unshadowed rq) = rq_machineByModelId rq"
  by (auto simp: unshadowed_def withoutSameModelExternalLmsReuse_def list_ex_iff filter_id_conv)

text \<open>Every turn on a host is seen by the evaluation of another turn.\<close>

lemma load_seen:
  assumes s: "turns_ok s" and own: "clean_task (tr_taskId rq)" "tr_taskId rq \<notin> task_of ` set (active_of s ws)"
    and parent: "ad_parent rq = None"
  shows "host_load s h \<le> length (filter (on_host (unshadowed (ad_request rq i (ad_running ws rq ps s) caps m host)) h)
           (other_running (unshadowed (ad_request rq i (ad_running ws rq ps s) caps m host))))"
proof -
  let ?sr = "ad_request rq i (ad_running ws rq ps s) caps m host"
  obtain ext where c: "collectModelTurnSchedulingSessions ws rq ps s = js_sort by_start (map snd (view_entries ws s) @ ext)"
    using collected_view[OF s] by blast
  define Q where "Q x \<longleftrightarrow> on_host ?sr h x \<and> es_taskId x \<noteq> tr_taskId rq \<and> es_state x = Running \<and> \<not> reusable_phantom ?sr x
      \<and> (ad_parent rq \<noteq> Some (es_taskId x) \<and> (\<not> tr_freshSessionStart rq \<and> \<not> tr_parentReacquire rq \<or> es_taskId x \<noteq> tr_taskId rq))" for x
  have oh: "on_host (unshadowed ?sr) h = on_host ?sr h" by (simp add: fun_eq_iff on_host_def unshadowed_sessions)
  have run: "filter (on_host (unshadowed ?sr) h) (other_running (unshadowed ?sr))
      = filter Q (collectModelTurnSchedulingSessions ws rq ps s)"
    unfolding oh other_running_def unshadowed_sessions filter_filter
    by (auto simp: ad_request_def ad_running_def Q_def intro!: filter_cong)
  have "host_load s h = length (filter (\<lambda>e. es_hostId (snd e) = Some h) (view_entries ws s))" by (simp add: view_load)
  also have "\<dots> \<le> length (filter (\<lambda>e. Q (snd e)) (view_entries ws s))"
  proof (rule filter_count_mono)
    fix e assume e: "e \<in> set (view_entries ws s)" "es_hostId (snd e) = Some h"
    note f = view_entry_facts[OF s e(1) own e(2)]
    have "on_host ?sr h (snd e)" using f(4) by (simp add: on_host_def ad_request_def)
    with f parent show "Q (snd e)" by (simp add: Q_def reusable_phantom_def)
  qed
  also have "\<dots> = length (filter Q (map snd (view_entries ws s)))" by (simp add: filter_map comp_def)
  also have "\<dots> \<le> length (filter Q (map snd (view_entries ws s) @ ext))" by simp
  also have "\<dots> = length (filter Q (collectModelTurnSchedulingSessions ws rq ps s))"
    unfolding c by (simp only: length_filter_js_sort)
  finally show ?thesis unfolding run .
qed

text \<open>A turn with an active turn of its own in view waits.\<close>

lemma own_turn_seen:
  assumes s: "turns_ok s" and r: "r \<in> set (active_of s ws)" "task_of r = tr_taskId rq" and parent: "ad_parent rq = None"
    and plain: "\<not> tr_freshSessionStart rq" "\<not> tr_parentReacquire rq"
  shows "findActiveSameTaskModelTurn (tr_taskId rq) (ad_running ws rq ps s) \<noteq> None"
proof -
  obtain ext where c: "collectModelTurnSchedulingSessions ws rq ps s = js_sort by_start (map snd (view_entries ws s) @ ext)"
    using collected_view[OF s] by blast
  from r(1) have "(ws, active_of s ws) \<in> set (ad_active s)"
    by (auto simp: active_of_def dest: map_of_SomeD split: option.splits)
  then have "view_entry ws ws r \<in> set (view_entries ws s)" using r(1) by (force simp: view_entries_def)
  then have "snd (view_entry ws ws r) \<in> set (ad_running ws rq ps s)"
    using parent plain unfolding ad_running_def c by auto
  moreover have "es_taskId (snd (view_entry ws ws r)) = tr_taskId rq \<and> es_state (snd (view_entry ws ws r)) = Running"
    using r turns_ok_active(2)[OF s r(1)] by (simp add: view_entry_def Let_def view_key_def ordinary_turn_def)
  ultimately show ?thesis by (auto simp: findActiveSameTaskModelTurn_def find_None_iff)
qed

section \<open>One evaluation\<close>

lemma decide_cases:
  assumes "decide_turn env ws rq i caps m host s = (res, s')"
  obtains (granted) r q where "res = Granted r" "r = new_reservation rq (ev_now i) host (ad_serial s)"
      "findActiveSameTaskModelTurn (tr_taskId rq) (ad_running ws rq (ev_ps i) s) = None"
      "scheduleNKleinEndpointStart env (ad_request rq i (ad_running ws rq (ev_ps i) s) caps m host) = Inr Admit"
      "reservedFor (getNKleinEndpointSchedulingResourceIds env (ad_request rq i (ad_running ws rq (ev_ps i) s) caps m host))
         (ev_now i) (ad_queue s) = (None, q)
       \<or> reservedFor (getNKleinEndpointSchedulingResourceIds env (ad_request rq i (ad_running ws rq (ev_ps i) s) caps m host))
         (ev_now i) (ad_queue s) = (Some (tr_taskId rq), q)
       \<or> reservedFor (getNKleinEndpointSchedulingResourceIds env (ad_request rq i (ad_running ws rq (ev_ps i) s) caps m host))
         (ev_now i) (ad_queue s) = (Some [], q)"
      "s' = set_active ws (active_of s ws @ [r]) (s\<lparr>ad_queue := remove_waiter (tr_taskId rq) q, ad_serial := Suc (ad_serial s)\<rparr>)"
  | (kept) q where "\<And>r. res \<noteq> Granted r" "s' = s\<lparr>ad_queue := q\<rparr>"
proof -
  let ?running = "ad_running ws rq (ev_ps i) s"
  let ?sr = "ad_request rq i ?running caps m host"
  obtain holder q where rf: "reservedFor (getNKleinEndpointSchedulingResourceIds env ?sr) (ev_now i) (ad_queue s) = (holder, q)" by fastforce
  have self: "s = s\<lparr>ad_queue := ad_queue s\<rparr>" by simp
  consider (same) x where "findActiveSameTaskModelTurn (tr_taskId rq) ?running = Some x"
    | (behind) h where "findActiveSameTaskModelTurn (tr_taskId rq) ?running = None" "Option.bind holder or_null = Some h" "h \<noteq> tr_taskId rq"
    | (ask) "findActiveSameTaskModelTurn (tr_taskId rq) ?running = None" "Option.bind holder or_null = None \<or> Option.bind holder or_null = Some (tr_taskId rq)"
    by (cases "findActiveSameTaskModelTurn (tr_taskId rq) ?running"; cases "Option.bind holder or_null") auto
  then show thesis
  proof cases
    case same
    with assms show thesis by (intro kept[of "ad_queue s"]) (auto simp: decide_turn_def Let_def)
  next
    case behind
    with assms rf show thesis by (auto simp: decide_turn_def Let_def intro: kept)
  next
    case ask
    then have mid: "(case Option.bind holder or_null of Some h \<Rightarrow> if h \<noteq> tr_taskId rq then Some h else None | None \<Rightarrow> None) = None" by auto
    have h: "holder = None \<or> holder = Some (tr_taskId rq) \<or> holder = Some []"
      using ask(2) by (cases holder) (auto simp: or_null_def split: if_splits)
    show thesis
    proof (cases "scheduleNKleinEndpointStart env ?sr")
      case (Inl e)
      with assms rf ask mid show thesis by (auto simp: decide_turn_def Let_def intro: kept)
    next
      case (Inr d)
      show thesis
      proof (cases d)
        case (Hold b r w msg)
        with Inr assms rf ask mid show thesis by (auto simp: decide_turn_def Let_def intro: kept)
      next
        case Admit
        show thesis
        proof (cases "Option.bind (findExternalLmsHostBlock rq (ev_ps i) host ?running m) or_null")
          case (Some msg)
          with Admit Inr assms rf ask mid show thesis by (auto simp: decide_turn_def Let_def intro: kept)
        next
          case None
          with Admit Inr assms rf ask mid have "grant ws rq (ev_now i) host (s\<lparr>ad_queue := q\<rparr>) = (res, s')"
            by (simp add: decide_turn_def Let_def)
          then show thesis
            using granted[of "new_reservation rq (ev_now i) host (ad_serial s)" q] ask(1) Inr Admit rf h
            by (auto simp: grant_def Let_def ad_active_frame)
        qed
      qed
    qed
  qed
qed

end
