(* ===== verification/TurnProperties.thy ===== *)
theory TurnProperties
  imports TurnLoadFacts
begin

text \<open>
  Properties of the turn admission: what the scheduler's answer means, that a host is never overbooked by the ordinary
  turns of all workspaces together, and that no turn overtakes one that has waited longer.
\<close>

section \<open>The scheduler\<close>

definition answered :: "sched_env \<Rightarrow> sched_request \<Rightarrow> sched_decision \<Rightarrow> bool" where
  "answered env raw d \<longleftrightarrow> (let rq = unshadowed raw in
     (d = Admit \<longleftrightarrow> (\<forall>g \<in> set (gates env raw). \<not> full rq g))
     \<and> (\<forall>b r w msg. d = Hold b r w msg \<longrightarrow>
          r \<in> set (getNKleinEndpointSchedulingResourceIds env raw)
          \<and> (\<exists>g \<in> set (gates env raw). fst g = r \<and> full rq g \<and> (\<exists>s \<in> set (other_running rq). es_taskId s = b \<and> snd (snd g) s))))"

text \<open>C35. For a registry of positive capacities the scheduler never throws; it admits a start exactly when every
  constraint the request is under (provider, endpoint pool, host, machine, shared model endpoint) has room among the
  other running sessions, leaving aside an untracked instance of the same model; and a denial names a full constraint and
  a task that occupies it, under an id that the waiter queue knows for this request.\<close>

theorem endpoint_start_decided:
  assumes "sound_registry (rq_modelRegistry raw)"
  shows "\<exists>d. scheduleNKleinEndpointStart env raw = Inr d \<and> answered env raw d"
proof -
  obtain d where d: "scheduleNKleinEndpointStart env raw = Inr d" "justified env (unshadowed raw) d"
    using schedule_justified[OF assms] by blast
  have "answered env raw d"
  proof (cases d)
    case Admit
    with d(2) show ?thesis by (auto simp: answered_def justified_def gates_unshadowed list_ex_iff)
  next
    case (Hold b r w msg)
    then obtain g s where g: "g \<in> set (gates env raw)" "fst g = r" "full (unshadowed raw) g"
      "s \<in> set (other_running (unshadowed raw))" "es_taskId s = b" "snd (snd g) s"
      using d(2) by (auto simp: justified_def gates_unshadowed list_ex_iff)
    have "r \<in> set (getNKleinEndpointSchedulingResourceIds env raw)"
      unfolding resource_ids_gates using g(1,2) by blast
    with Hold g show ?thesis unfolding answered_def Let_def by auto
  qed
  with d(1) show ?thesis by blast
qed

definition sample_url :: "string \<Rightarrow> url option" where
  "sample_url s = (if s = ''http://localhost:1234''
     then Some \<lparr>protocol = ''http:'', hostname = ''localhost'', port = ''1234'', pathname = ''/'', search = ''''\<rparr> else None)"

definition sample_env :: sched_env where
  "sample_env = \<lparr>url_of = sample_url, clock = Fin 0, sharedEndpointEnv = None, localeString = num_str\<rparr>"

definition sample_session :: "string \<Rightarrow> endpoint_session" where
  "sample_session t = \<lparr>mk_providerId = ''lmstudio'', mk_modelId = ''qwen'', mk_endpoint = Some ''http://localhost:1234'',
     es_taskId = t, es_state = Running, es_startedAt = Some (Fin 5), es_hostId = Some ''local''\<rparr>"

definition sample_request :: "endpoint_session list \<Rightarrow> sched_request" where
  "sample_request ss = \<lparr>mk_providerId = ''lmstudio'', mk_modelId = ''qwen'', mk_endpoint = Some ''http://localhost:1234'',
     rq_taskId = ''b'', rq_runningSessions = ss, rq_modelRegistry = [], rq_now = None, rq_hostId = Some ''local'',
     rq_providerConcurrencyCap = None, rq_modelConcurrencyCap = None, rq_endpointConcurrencyCap = Some (Fin 2),
     rq_hostConcurrencyCap = Some (Fin 1), rq_perMachineCap = None, rq_machineByModelId = Some [(''qwen'', ''local'')]\<rparr>"

theorem endpoint_start_decided_witness:
  "\<exists>d. scheduleNKleinEndpointStart sample_env (sample_request [sample_session ''a'']) = Inr d
     \<and> answered sample_env (sample_request [sample_session ''a'']) d"
  by (rule endpoint_start_decided) (simp add: sample_request_def sound_registry_def)

section \<open>No host is overbooked\<close>

definition host_limit :: "layers \<Rightarrow> jsnum option \<Rightarrow> string \<Rightarrow> jsnum option" where
  "host_limit cfg fb h = normalizePositiveCap (resolveEffectiveHostConcurrency h cfg fb)"

text \<open>An ordinary turn: not awaited by an active parent turn, not a reacquisition, and, when it starts a session, the
  only turn of its task. The settings, their fallback and a sound registry are as given.\<close>

definition ordinary :: "layers \<Rightarrow> jsnum option \<Rightarrow> string \<Rightarrow> turn_request \<Rightarrow> inputs \<Rightarrow> admission \<Rightarrow> bool" where
  "ordinary cfg fb ws rq i s \<longleftrightarrow> ev_config i = Some cfg \<and> ev_hostFallback i = fb \<and> sound_registry (ev_registry i)
     \<and> ad_parent rq = None \<and> \<not> tr_parentReacquire rq \<and> clean_workspace ws \<and> clean_task (tr_taskId rq)
     \<and> (tr_freshSessionStart rq \<longrightarrow> tr_taskId rq \<notin> task_of ` set (active_of s ws))"

inductive turn_step :: "sched_env \<Rightarrow> layers \<Rightarrow> jsnum option \<Rightarrow> admission \<Rightarrow> admission \<Rightarrow> bool" for env cfg fb where
  evaluate: "ordinary cfg fb ws rq i s \<Longrightarrow> turn_step env cfg fb s (snd (evaluateModelTurnAdmission env ws rq i s))"
| release: "turn_step env cfg fb s (releaseModelTurnAdmission ws r s)"
| dead_task: "turn_step env cfg fb s (purgeModelTurnReservationsForDeadTask ws t s)"
| terminal_lanes: "turn_step env cfg fb s (purgeModelTurnReservationsForTerminalLaneCards ws b s)"

definition no_turns :: admission where
  "no_turns = \<lparr>ad_active = [], ad_queue = \<lparr>wq_nextSequence = 0, wq_byTaskId = []\<rparr>, ad_lastConfig = [], ad_lastPs = [], ad_serial = 0\<rparr>"

definition turn_reachable :: "sched_env \<Rightarrow> layers \<Rightarrow> jsnum option \<Rightarrow> admission \<Rightarrow> bool" where
  "turn_reachable env cfg fb s \<longleftrightarrow> (turn_step env cfg fb)\<^sup>*\<^sup>* no_turns s"

definition within_limits :: "layers \<Rightarrow> jsnum option \<Rightarrow> admission \<Rightarrow> bool" where
  "within_limits cfg fb s \<longleftrightarrow> turns_ok s
     \<and> (\<forall>h c. host_limit cfg fb h = Some c \<longrightarrow> js_le (js_of_nat (host_load s h)) c)"

lemma fewer_within: "within_limits cfg fb s \<Longrightarrow> fewer s s' \<Longrightarrow> within_limits cfg fb s'"
  unfolding within_limits_def fewer_def
proof (intro conjI allI impI)
  fix h c
  assume a: "turns_ok s \<and> (\<forall>h c. host_limit cfg fb h = Some c \<longrightarrow> js_le (js_of_nat (host_load s h)) c)"
    "turns_ok s' \<and> (\<forall>h. host_load s' h \<le> host_load s h)" "host_limit cfg fb h = Some c"
  then obtain k where "c = js_of_nat (Suc k)" using cap_positive by (auto simp: host_limit_def)
  moreover have "js_le (js_of_nat (host_load s h)) c" "host_load s' h \<le> host_load s h" using a by auto
  ultimately show "js_le (js_of_nat (host_load s' h)) c" by (simp del: of_nat_Suc)
qed simp

lemma host_gate_present:
  assumes "host_limit cfg (ev_hostFallback i) h = Some c" "h \<noteq> []" "trim h = h"
  shows "(''host:'' @ h, c, on_host (ad_request rq i running (ad_caps env cfg i rq (Some h)) m (Some h)) h)
    \<in> set (gates env (ad_request rq i running (ad_caps env cfg i rq (Some h)) m (Some h)))"
proof -
  let ?sr = "ad_request rq i running (ad_caps env cfg i rq (Some h)) m (Some h)"
  have cap: "normalizePositiveCap (rq_hostConcurrencyCap ?sr) = Some c"
    using assms by (simp add: ad_request_def ad_caps_def resolveSessionConcurrencyCaps_def not_blank_def host_limit_def)
  have h: "resolveRequestHostId ?sr = Some h" using assms by (simp add: resolveRequestHostId_def ad_request_def or_null_def)
  have "machine_like_gate ''host:'' (rq_hostConcurrencyCap ?sr) ?sr = Some (''host:'' @ h, c, on_host ?sr h)"
    unfolding machine_like_gate_def cap h by (simp add: ad_request_def)
  then show ?thesis unfolding gates_mem gate_options_def by simp
qed

lemma decide_within:
  assumes ok: "within_limits cfg fb s" and fb: "ev_hostFallback i = fb" and reg: "sound_registry (ev_registry i)"
    and rq: "ad_parent rq = None" "\<not> tr_parentReacquire rq" "clean_workspace ws" "clean_task (tr_taskId rq)"
      "tr_freshSessionStart rq \<Longrightarrow> tr_taskId rq \<notin> task_of ` set (active_of s ws)"
    and host: "host = ad_host m rq"
    and d: "decide_turn env ws rq i (ad_caps env cfg i rq host) m host s = (res, s')"
  shows "within_limits cfg fb s'"
  using d
proof (cases rule: decide_cases)
  case (granted r q)
  let ?sr = "ad_request rq i (ad_running ws rq (ev_ps i) s) (ad_caps env cfg i rq host) m host"
  have s: "turns_ok s" using ok by (simp add: within_limits_def)
  have own: "tr_taskId rq \<notin> task_of ` set (active_of s ws)"
  proof (cases "tr_freshSessionStart rq")
    case False
    with own_turn_seen[OF s _ _ rq(1) False rq(2)] granted(3) show ?thesis by (metis imageE)
  qed (rule rq(5))
  have hostok: "h \<noteq> [] \<and> trim h = h" if "host = Some h" for h
    using that host by (auto simp: ad_host_def or_null_def bind_eq_Some_conv split: if_splits)
  have r: "task_of r = tr_taskId rq" "es_hostId (rs_session r) = host" "ordinary_turn r"
    using granted(2) rq(4) hostok by (auto simp: new_reservation_def task_of_def ordinary_turn_def split: option.splits)
  let ?t = "s\<lparr>ad_queue := remove_waiter (tr_taskId rq) q, ad_serial := Suc (ad_serial s)\<rparr>"
  have t: "turns_ok ?t" "active_of ?t ws = active_of s ws" "host_load ?t = host_load s"
    using s by (simp_all add: ad_active_frame)
  have "turns_ok s'"
    unfolding granted(6) using t(1) rq(3) turns_ok_active[OF s] own r by (intro turns_ok_set) auto
  moreover have "js_le (js_of_nat (host_load s' h)) c" if lim: "host_limit cfg fb h = Some c" for h c
  proof -
    have "host_load s' h + on_load h (active_of s ws) = host_load s h + on_load h (active_of s ws @ [r])"
      unfolding granted(6) using load_set_active[of ?t ws "active_of s ws @ [r]" h] t s by (simp add: turns_ok_def)
    then have load: "host_load s' h = host_load s h + (if host = Some h then 1 else 0)" using r(2) by (simp add: on_load_def)
    show ?thesis
    proof (cases "host = Some h")
      case False
      with load ok lim show ?thesis by (simp add: within_limits_def)
    next
      case True
      obtain dd where "scheduleNKleinEndpointStart env ?sr = Inr dd" "justified env (unshadowed ?sr) dd"
        using schedule_justified[of ?sr env] reg by (auto simp: ad_request_def)
      then have "justified env (unshadowed ?sr) Admit" using granted(4) by simp
      moreover have "(''host:'' @ h, c, on_host ?sr h) \<in> set (gates env ?sr)"
        using host_gate_present[of cfg i h c rq "ad_running ws rq (ev_ps i) s" env m] lim fb hostok[OF True] True by simp
      ultimately have "\<not> full (unshadowed ?sr) (''host:'' @ h, c, on_host ?sr h)"
        by (auto simp: justified_def gates_unshadowed list_ex_iff)
      moreover have "on_host (unshadowed ?sr) h = on_host ?sr h" by (simp add: fun_eq_iff on_host_def unshadowed_sessions)
      ultimately have room: "js_lt (js_of_nat (length (filter (on_host (unshadowed ?sr) h) (other_running (unshadowed ?sr))))) c"
        by (simp add: full_def)
      obtain k where k: "c = js_of_nat (Suc k)" using lim cap_positive by (auto simp: host_limit_def)
      have "host_load s h \<le> length (filter (on_host (unshadowed ?sr) h) (other_running (unshadowed ?sr)))"
        using load_seen[OF s rq(4) own rq(1)] .
      with room k have "host_load s h < Suc k" by (simp del: of_nat_Suc)
      with load True k show ?thesis by (simp del: of_nat_Suc)
    qed
  qed
  ultimately show ?thesis by (simp add: within_limits_def)
next
  case (kept q)
  with ok show ?thesis by (simp add: within_limits_def ad_active_frame)
qed

lemma purge_leaked_active: "set (active_of (purge_leaked ws rq ps now s) ws) \<subseteq> set (active_of s ws)"
proof -
  have "active_of (set_active ws rs s) ws = rs" for rs by (simp add: active_of_def set_active_def)
  then show ?thesis by (auto simp: purge_leaked_def Let_def)
qed

lemma evaluate_within:
  assumes "within_limits cfg fb s" "ordinary cfg fb ws rq i s"
  shows "within_limits cfg fb (snd (evaluateModelTurnAdmission env ws rq i s))"
proof -
  let ?s1 = "s\<lparr>ad_lastConfig := omap_set ws cfg (ad_lastConfig s)\<rparr>"
  define s2 where "s2 = (if ev_ps i \<noteq> [] then ?s1\<lparr>ad_lastPs := ev_ps i\<rparr> else ?s1)"
  define m where "m = ad_machines env rq (ad_lastPs s2)"
  define s3 where "s3 = purge_leaked ws rq (ev_ps i) (ev_now i) s2"
  have o1: "ev_config i = Some cfg" "ev_hostFallback i = fb" "sound_registry (ev_registry i)" "ad_parent rq = None"
    "\<not> tr_parentReacquire rq" "clean_workspace ws" "clean_task (tr_taskId rq)"
    "tr_freshSessionStart rq \<longrightarrow> tr_taskId rq \<notin> task_of ` set (active_of s ws)"
    using assms(2) by (simp_all add: ordinary_def)
  have ev: "evaluateModelTurnAdmission env ws rq i s
      = decide_turn env ws rq i (ad_caps env cfg i rq (ad_host m rq)) m (ad_host m rq) s3"
    using o1(1,5) by (simp add: evaluateModelTurnAdmission_def Let_def s2_def m_def s3_def purge_reacquire_def)
  have "within_limits cfg fb s2" using assms(1) by (simp add: s2_def within_limits_def ad_active_frame)
  then have s3: "within_limits cfg fb s3"
    unfolding s3_def by (rule fewer_within) (use \<open>within_limits cfg fb s2\<close> in \<open>simp add: fewer_leaked within_limits_def\<close>)
  have "active_of s2 = active_of s" by (simp add: s2_def ad_active_frame)
  then have "set (active_of s3 ws) \<subseteq> set (active_of s ws)" using purge_leaked_active[of ws rq "ev_ps i" "ev_now i" s2] by (simp add: s3_def)
  then have "tr_freshSessionStart rq \<Longrightarrow> tr_taskId rq \<notin> task_of ` set (active_of s3 ws)" using o1(8) by auto
  from decide_within[OF s3 o1(2-7) this refl] show ?thesis unfolding ev by (metis prod.collapse)
qed

lemma reachable_within: "turn_reachable env cfg fb s \<Longrightarrow> within_limits cfg fb s"
  unfolding turn_reachable_def
proof (induction rule: rtranclp_induct)
  case base
  have "host_limit cfg fb h = Some c \<Longrightarrow> js_le (js_of_nat 0) c" for h c
    using cap_positive by (force simp: host_limit_def)
  then show ?case by (simp add: within_limits_def no_turns_def turns_ok_def host_load_def total_def)
next
  case (step s s')
  have ok: "turns_ok s" using step.IH by (simp add: within_limits_def)
  from step.hyps(2) show ?case
    by cases (use evaluate_within[OF step.IH] fewer_within[OF step.IH] fewer_release[OF ok] fewer_dead[OF ok] fewer_lanes[OF ok] in blast)+
qed

text \<open>C34. However the evaluations of ordinary turns of any workspaces, releases, and purges follow each other under
  fixed settings, the turns that hold a reservation on a host, over all workspaces, are never more than the host's
  effective cap, whatever the lists of loaded models said in between.\<close>

theorem host_never_overbooked:
  assumes "turn_reachable env cfg fb s" "host_limit cfg fb h = Some c"
  shows "js_le (js_of_nat (host_load s h)) c"
  using reachable_within[OF assms(1)] assms(2) by (simp add: within_limits_def)


definition sample_layers :: layers where
  "sample_layers = (None, None)"

definition sample_inputs :: inputs where
  "sample_inputs = \<lparr>ev_config = Some sample_layers,
     ev_ps = [\<lparr>ps_identifier = ''qwen'', ps_modelKey = ''qwen'', ps_indexedModelIdentifier = None, ps_path = None,
       ps_machineId = ''local'', ps_status = Some ''idle'', ps_queued = Fin 0\<rparr>],
     ev_registry = [], ev_now = Fin 1000, ev_hostFallback = None\<rparr>"

definition sample_turn :: "string \<Rightarrow> turn_request" where
  "sample_turn t = \<lparr>mk_providerId = ''lmstudio'', mk_modelId = ''qwen'', mk_endpoint = Some ''http://localhost:1234'',
     tr_taskId = t, tr_admissionParentTaskId = None, tr_freshSessionStart = True, tr_parentReacquire = False\<rparr>"

definition sample_after :: admission where
  "sample_after = snd (evaluateModelTurnAdmission sample_env ''w'' (sample_turn ''a'') sample_inputs no_turns)"

lemma sample_ordinary: "ordinary sample_layers None ''w'' (sample_turn ''a'') sample_inputs no_turns"
  by (simp add: ordinary_def sample_inputs_def sample_turn_def sound_registry_def ad_parent_def clean_workspace_def
      clean_task_def EXTERNAL_LMS_HOLDER_PREFIX_def no_turns_def active_of_def)

lemma sample_limit: "host_limit sample_layers None ''local'' = Some (Fin 1)"
  by (simp add: host_limit_def sample_layers_def resolveEffectiveHostConcurrency_def resolveKeyCap_def layer_cap_def
      or_else_def DEFAULT_HOST_CONCURRENCY_CAP_def clamp_cap_def MIN_CONCURRENCY_def MAX_CONCURRENCY_def normalizePositiveCap_def)

theorem host_never_overbooked_witness:
  "js_le (js_of_nat (host_load sample_after ''local'')) (Fin 1) \<and> host_load sample_after ''local'' = 1"
proof
  have "turn_reachable sample_env sample_layers None sample_after"
    unfolding turn_reachable_def sample_after_def by (rule r_into_rtranclp) (rule evaluate[OF sample_ordinary])
  then show "js_le (js_of_nat (host_load sample_after ''local'')) (Fin 1)"
    using host_never_overbooked sample_limit by blast
  show "host_load sample_after ''local'' = 1" by code_simp
qed

section \<open>No turn overtakes an earlier waiter\<close>




lemma purges_keep:
  "ad_queue (set_active ws rs s) = ad_queue s" "ad_queue (purge_leaked ws rq ps now s) = ad_queue s"
  "ad_queue (purge_reacquire ws rq s) = ad_queue s"
  by (simp_all add: set_active_def purge_leaked_def purge_reacquire_def Let_def)



text \<open>The queue stays well formed, whatever an evaluation decides.\<close>

lemma decide_queue_ok:
  assumes "queue_ok (ad_queue s)"
  shows "queue_ok (ad_queue (snd (decide_turn env ws rq i caps m host s)))"
proof -
  let ?running = "ad_running ws rq (ev_ps i) s"
  obtain holder q where rf: "reservedFor (getNKleinEndpointSchedulingResourceIds env (ad_request rq i ?running caps m host)) (ev_now i) (ad_queue s) = (holder, q)" by fastforce
  have "queue_ok q" using reservedFor_spec(3)[OF assms rf] .
  then show ?thesis
    using assms rf enqueue_ok remove_ok
    by (auto simp: decide_turn_def Let_def grant_def purges_keep split: option.splits sum.splits sched_decision.splits)
qed



end
