(* ===== verification/NestedTurns.thy ===== *)
theory NestedTurns
  imports TurnAdmission "HOL-Library.Multiset"
begin

text \<open>
  The nested gate around the turn admission (\<^verbatim>\<open>src/core/nested-model-turn-admission.ts\<close>): a turn that awaits an
  auxiliary turn yields its reservation to it and takes a new one when the last auxiliary turn has settled. A call of
  the gate is suspended at three places (for its reservation, for its turn, for its parent's new reservation); between
  them it runs without interruption, and other calls run in between in any order.
\<close>

section \<open>Leases and calls\<close>

record lease =
  ln_request :: turn_request
  ln_reservation :: "reservation option"
  ln_nestedTurnCount :: nat
  ln_closed :: bool

text \<open>A lease is an object, named by its position in the list of all leases.\<close>

datatype gate_call = Acquiring turn_request "nat option" | InTurn nat "nat option" | Reacquiring nat | Ended

text \<open>What the gate does outside: a reservation is taken or given back, capacity is announced.\<close>

datatype gate_effect = Take reservation | Give reservation | Freed

record nest =
  ns_leases :: "lease list"
  ns_activeByTaskId :: "(string, nat) omap"
  ns_calls :: "gate_call list"
  ns_trace :: "gate_effect list"

definition emit :: "gate_effect list \<Rightarrow> nest \<Rightarrow> nest" where
  "emit es g = g\<lparr>ns_trace := ns_trace g @ es\<rparr>"

definition set_lease :: "nat \<Rightarrow> lease \<Rightarrow> nest \<Rightarrow> nest" where
  "set_lease l x g = g\<lparr>ns_leases := (ns_leases g)[l := x]\<rparr>"

definition set_call :: "nat \<Rightarrow> gate_call \<Rightarrow> nest \<Rightarrow> nest" where
  "set_call c x g = g\<lparr>ns_calls := (ns_calls g)[c := x]\<rparr>"

definition releaseLease :: "nat \<Rightarrow> bool \<Rightarrow> nest \<Rightarrow> nest" where
  "releaseLease l notify g =
     (case ln_reservation (ns_leases g ! l) of
        None \<Rightarrow> g
      | Some r \<Rightarrow> emit (Give r # (if notify then [Freed] else []))
          (set_lease l ((ns_leases g ! l)\<lparr>ln_reservation := None\<rparr>) g))"

definition parent_lease :: "turn_request \<Rightarrow> nest \<Rightarrow> nat option" where
  "parent_lease rq g =
     (case Option.bind (tr_admissionParentTaskId rq) (\<lambda>p. or_null (trim p)) of
        None \<Rightarrow> None
      | Some p \<Rightarrow> (if p \<noteq> tr_taskId rq then map_of (ns_activeByTaskId g) p else None))"

section \<open>The pieces between the suspensions\<close>

definition enter_turn :: "turn_request \<Rightarrow> nest \<Rightarrow> nest" where
  "enter_turn rq g =
     (let parent = parent_lease rq g;
          g1 = (case parent of
                  None \<Rightarrow> g
                | Some p \<Rightarrow>
                    (if ln_closed (ns_leases g ! p) then g
                     else releaseLease p False (set_lease p
                       ((ns_leases g ! p)\<lparr>ln_nestedTurnCount := Suc (ln_nestedTurnCount (ns_leases g ! p))\<rparr>) g)))
      in g1\<lparr>ns_calls := ns_calls g1 @ [Acquiring rq parent]\<rparr>)"

definition turn_acquired :: "nat \<Rightarrow> turn_request \<Rightarrow> nat option \<Rightarrow> reservation \<Rightarrow> nest \<Rightarrow> nest" where
  "turn_acquired c rq parent r g =
     emit [Take r] (set_call c (InTurn (length (ns_leases g)) parent)
       (g\<lparr>ns_leases := ns_leases g @
            [\<lparr>ln_request = rq, ln_reservation = Some r, ln_nestedTurnCount = 0, ln_closed = False\<rparr>],
          ns_activeByTaskId := omap_set (tr_taskId rq) (length (ns_leases g)) (ns_activeByTaskId g)\<rparr>))"

definition settle_parent :: "nat \<Rightarrow> nat option \<Rightarrow> nest \<Rightarrow> nest" where
  "settle_parent c parent g =
     (case parent of
        None \<Rightarrow> set_call c Ended g
      | Some p \<Rightarrow>
          (let n = ln_nestedTurnCount (ns_leases g ! p) - 1;
               g1 = set_lease p ((ns_leases g ! p)\<lparr>ln_nestedTurnCount := n\<rparr>) g
           in if n = 0 \<and> \<not> ln_closed (ns_leases g ! p) then set_call c (Reacquiring p) g1
              else set_call c Ended (if n > 0 then emit [Freed] g1 else g1)))"

definition close_lease :: "nat \<Rightarrow> nest \<Rightarrow> nest" where
  "close_lease l g =
     (let t = tr_taskId (ln_request (ns_leases g ! l)); g1 = set_lease l ((ns_leases g ! l)\<lparr>ln_closed := True\<rparr>) g
      in if map_of (ns_activeByTaskId g) t = Some l then g1\<lparr>ns_activeByTaskId := omap_delete t (ns_activeByTaskId g)\<rparr> else g1)"

definition turn_ended :: "nat \<Rightarrow> nat \<Rightarrow> nat option \<Rightarrow> nest \<Rightarrow> nest" where
  "turn_ended c l parent g = settle_parent c parent (releaseLease l (parent = None) (close_lease l g))"

definition parent_reacquired :: "nat \<Rightarrow> nat \<Rightarrow> reservation \<Rightarrow> nest \<Rightarrow> nest" where
  "parent_reacquired c p r g =
     set_call c Ended
       (let x = ns_leases g ! p in
        if ln_closed x \<or> ln_nestedTurnCount x > 0 \<or> ln_reservation x \<noteq> None then emit [Take r, Give r, Freed] g
        else emit [Take r] (set_lease p (x\<lparr>ln_reservation := Some r\<rparr>) g))"

text \<open>One resumption of a call: a new call enters, an acquisition is granted, an acquisition rejects (which runs the
  same last part as an ended turn), a turn ends. A call that waits for something else is left alone.\<close>

datatype gate_op = Enter turn_request | Obtain nat reservation | Reject nat | Finish nat

definition call_of :: "nest \<Rightarrow> nat \<Rightarrow> gate_call" where
  "call_of g c = (if c < length (ns_calls g) then ns_calls g ! c else Ended)"

definition gate_do :: "gate_op \<Rightarrow> nest \<Rightarrow> nest" where
  "gate_do e g =
     (case e of
        Enter rq \<Rightarrow> enter_turn rq g
      | Obtain c r \<Rightarrow>
          (case call_of g c of
             Acquiring rq parent \<Rightarrow> turn_acquired c rq parent r g
           | Reacquiring p \<Rightarrow> parent_reacquired c p r g
           | _ \<Rightarrow> g)
      | Reject c \<Rightarrow>
          (case call_of g c of
             Acquiring rq parent \<Rightarrow> settle_parent c parent g
           | Reacquiring p \<Rightarrow> set_call c Ended g
           | _ \<Rightarrow> g)
      | Finish c \<Rightarrow> (case call_of g c of InTurn l parent \<Rightarrow> turn_ended c l parent g | _ \<Rightarrow> g))"

definition no_leases :: nest where
  "no_leases = \<lparr>ns_leases = [], ns_activeByTaskId = [], ns_calls = [], ns_trace = []\<rparr>"

section \<open>The invariant\<close>

lemma sum_list_update':
  "i < length xs \<Longrightarrow> sum_list (map f (xs[i := y])) + f (xs ! i) = sum_list (map f xs) + (f y :: 'b :: comm_monoid_add)"
  by (induction xs arbitrary: i) (auto simp: ac_simps nth_Cons' split: nat.splits)

lemma sum_list_zero: "(\<And>x. x \<in> set xs \<Longrightarrow> f x = (0 :: 'b :: comm_monoid_add)) \<Longrightarrow> sum_list (map f xs) = 0"
  by (induction xs) auto

fun waits_on :: "nat \<Rightarrow> gate_call \<Rightarrow> nat" where
  "waits_on p (Acquiring _ q) = (if q = Some p then 1 else 0)"
| "waits_on p (InTurn _ q) = (if q = Some p then 1 else 0)"
| "waits_on p _ = 0"

fun runs_on :: "nat \<Rightarrow> gate_call \<Rightarrow> nat" where
  "runs_on l (InTurn k _) = (if k = l then 1 else 0)"
| "runs_on l _ = 0"

fun refers :: "nat \<Rightarrow> gate_call \<Rightarrow> bool" where
  "refers n (Acquiring _ q) \<longleftrightarrow> (case q of None \<Rightarrow> True | Some p \<Rightarrow> p < n)"
| "refers n (InTurn l q) \<longleftrightarrow> l < n \<and> (case q of None \<Rightarrow> True | Some p \<Rightarrow> p < n)"
| "refers n (Reacquiring p) \<longleftrightarrow> p < n"
| "refers n Ended \<longleftrightarrow> True"

definition run_count :: "nat \<Rightarrow> gate_call list \<Rightarrow> nat" where
  "run_count l cs = sum_list (map (runs_on l) cs)"

definition wait_count :: "nat \<Rightarrow> gate_call list \<Rightarrow> nat" where
  "wait_count l cs = sum_list (map (waits_on l) cs)"

lemma count_append [simp]:
  "run_count l (cs @ [a]) = run_count l cs + runs_on l a" "wait_count l (cs @ [a]) = wait_count l cs + waits_on l a"
  by (simp_all add: run_count_def wait_count_def)

lemma count_update:
  assumes "c < length cs"
  shows "run_count l (cs[c := a]) + runs_on l (cs ! c) = run_count l cs + runs_on l a"
    "wait_count l (cs[c := a]) + waits_on l (cs ! c) = wait_count l cs + waits_on l a"
  unfolding run_count_def wait_count_def by (rule sum_list_update'[OF assms])+

definition held :: "lease list \<Rightarrow> reservation multiset" where
  "held ls = sum_list (map (\<lambda>x. case ln_reservation x of None \<Rightarrow> {#} | Some r \<Rightarrow> {#r#}) ls)"

definition takes :: "gate_effect list \<Rightarrow> reservation multiset" where
  "takes es = mset (List.map_filter (\<lambda>e. case e of Take r \<Rightarrow> Some r | _ \<Rightarrow> None) es)"

definition gives :: "gate_effect list \<Rightarrow> reservation multiset" where
  "gives es = mset (List.map_filter (\<lambda>e. case e of Give r \<Rightarrow> Some r | _ \<Rightarrow> None) es)"

lemma map_filter_append: "List.map_filter f (xs @ ys) = List.map_filter f xs @ List.map_filter f ys"
  by (simp add: List.map_filter_def)

lemma trace_simps [simp]:
  "takes (es @ fs) = takes es + takes fs" "gives (es @ fs) = gives es + gives fs"
  "takes [] = {#}" "gives [] = {#}"
  "takes (Take r # es) = add_mset r (takes es)" "takes (Give r # es) = takes es" "takes (Freed # es) = takes es"
  "gives (Take r # es) = gives es" "gives (Give r # es) = add_mset r (gives es)" "gives (Freed # es) = gives es"
  by (simp_all add: takes_def gives_def map_filter_append map_filter_simps)

text \<open>The bookkeeping of one list of leases and calls, and of the trace.\<close>

definition lease_ok :: "gate_call list \<Rightarrow> nat \<Rightarrow> lease \<Rightarrow> bool" where
  "lease_ok cs l x \<longleftrightarrow> run_count l cs = (if ln_closed x then 0 else 1)
     \<and> wait_count l cs = ln_nestedTurnCount x
     \<and> (ln_closed x \<or> ln_nestedTurnCount x > 0 \<longrightarrow> ln_reservation x = None)"

definition nest_inv :: "nest \<Rightarrow> bool" where
  "nest_inv g \<longleftrightarrow> list_all (refers (length (ns_leases g))) (ns_calls g)
     \<and> (\<forall>t l. map_of (ns_activeByTaskId g) t = Some l \<longrightarrow> l < length (ns_leases g) \<and> \<not> ln_closed (ns_leases g ! l)
           \<and> tr_taskId (ln_request (ns_leases g ! l)) = t)
     \<and> (\<forall>l < length (ns_leases g). lease_ok (ns_calls g) l (ns_leases g ! l))
     \<and> takes (ns_trace g) = gives (ns_trace g) + held (ns_leases g)"


lemma nest_invD:
  assumes "nest_inv g"
  shows "c < length (ns_calls g) \<Longrightarrow> refers (length (ns_leases g)) (ns_calls g ! c)"
    and "map_of (ns_activeByTaskId g) t = Some l \<Longrightarrow> l < length (ns_leases g) \<and> \<not> ln_closed (ns_leases g ! l)
           \<and> tr_taskId (ln_request (ns_leases g ! l)) = t"
    and "l < length (ns_leases g) \<Longrightarrow> lease_ok (ns_calls g) l (ns_leases g ! l)"
    and "takes (ns_trace g) = gives (ns_trace g) + held (ns_leases g)"
  using assms by (auto simp: nest_inv_def list_all_length)

definition holds :: "lease \<Rightarrow> reservation multiset" where
  "holds x = (case ln_reservation x of None \<Rightarrow> {#} | Some r \<Rightarrow> {#r#})"

lemma held_holds: "held ls = sum_list (map holds ls)"
  by (simp add: held_def holds_def[abs_def])

lemma held_update: "l < length ls \<Longrightarrow> held (ls[l := x]) + holds (ls ! l) = held ls + holds x"
  unfolding held_holds by (rule sum_list_update')

lemma held_same: "l < length ls \<Longrightarrow> holds x = holds (ls ! l) \<Longrightarrow> held (ls[l := x]) = held ls"
  using held_update[of l ls x] by simp

lemma held_append [simp]: "held (ls @ [x]) = held ls + holds x"
  by (simp add: held_holds)

text \<open>No call refers to a lease that does not exist yet.\<close>

lemma sums_new:
  "list_all (refers n) cs \<Longrightarrow> run_count n cs = 0 \<and> wait_count n cs = 0"
  unfolding run_count_def wait_count_def
proof (induction cs)
  case (Cons a cs)
  then show ?case by (cases a) (auto split: option.splits)
qed simp

lemma refers_more: "refers n a \<Longrightarrow> refers (Suc n) a"
  by (cases a) (auto split: option.splits)

lemma parent_leaseD:
  assumes "nest_inv g" "parent_lease rq g = Some p"
  shows "p < length (ns_leases g)" "\<not> ln_closed (ns_leases g ! p)"
  using assms nest_invD(2)[OF assms(1)] by (auto simp: parent_lease_def bind_eq_Some_conv split: option.splits if_splits)


section \<open>Every piece keeps it\<close>

lemma frame_simps [simp]:
  "ns_leases (emit es g) = ns_leases g" "ns_calls (emit es g) = ns_calls g"
  "ns_activeByTaskId (emit es g) = ns_activeByTaskId g" "ns_trace (emit es g) = ns_trace g @ es"
  "ns_leases (set_lease l x g) = (ns_leases g)[l := x]" "ns_calls (set_lease l x g) = ns_calls g"
  "ns_activeByTaskId (set_lease l x g) = ns_activeByTaskId g" "ns_trace (set_lease l x g) = ns_trace g"
  "ns_leases (set_call c y g) = ns_leases g" "ns_calls (set_call c y g) = (ns_calls g)[c := y]"
  "ns_activeByTaskId (set_call c y g) = ns_activeByTaskId g" "ns_trace (set_call c y g) = ns_trace g"
  by (simp_all add: emit_def set_lease_def set_call_def)

lemma no_reservation: "ln_reservation x = None \<Longrightarrow> x\<lparr>ln_reservation := None\<rparr> = x"
  by (cases x) simp

lemma release_simps [simp]:
  "ns_calls (releaseLease l b g) = ns_calls g" "ns_activeByTaskId (releaseLease l b g) = ns_activeByTaskId g"
  "takes (ns_trace (releaseLease l b g)) = takes (ns_trace g)"
  "gives (ns_trace (releaseLease l b g)) = gives (ns_trace g) + holds (ns_leases g ! l)"
  "ns_leases (releaseLease l b g) = (ns_leases g)[l := (ns_leases g ! l)\<lparr>ln_reservation := None\<rparr>]"
  by (auto simp: releaseLease_def holds_def no_reservation split: option.splits)

text \<open>Only lease \<open>l\<close> and the calls about it change.\<close>

lemma leases_ok_update:
  assumes "\<forall>k < length ls. lease_ok cs k (ls ! k)"
    and "\<And>k. k \<noteq> l \<Longrightarrow> k < length ls \<Longrightarrow> run_count k cs' = run_count k cs
           \<and> wait_count k cs' = wait_count k cs"
    and "l < length ls \<Longrightarrow> lease_ok cs' l x"
  shows "\<forall>k < length ls. lease_ok cs' k (ls[l := x] ! k)"
  proof (intro allI impI)
  fix k
  assume "k < length ls"
  with assms show "lease_ok cs' k (ls[l := x] ! k)" by (cases "k = l") (simp_all add: lease_ok_def)
qed

lemma enter_inv: "nest_inv g \<Longrightarrow> nest_inv (enter_turn rq g)"
proof -
  assume g: "nest_inv g"
  show ?thesis
  proof (cases "parent_lease rq g")
    case None
    with g show ?thesis by (auto simp: enter_turn_def nest_inv_def lease_ok_def)
  next
    case (Some p)
    note p = parent_leaseD[OF g Some]
    let ?x = "ns_leases g ! p" and ?n = "Suc (ln_nestedTurnCount (ns_leases g ! p))"
    let ?y = "?x\<lparr>ln_nestedTurnCount := ?n, ln_reservation := None\<rparr>"
    have e: "enter_turn rq g = (let h = releaseLease p False (set_lease p (?x\<lparr>ln_nestedTurnCount := ?n\<rparr>) g)
        in h\<lparr>ns_calls := ns_calls h @ [Acquiring rq (Some p)]\<rparr>)"
      using p Some by (simp add: enter_turn_def)
    have ls: "ns_leases (enter_turn rq g) = (ns_leases g)[p := ?y]" using p by (simp add: e Let_def)
    have cs: "ns_calls (enter_turn rq g) = ns_calls g @ [Acquiring rq (Some p)]" by (simp add: e Let_def)
    have "lease_ok (ns_calls g) p ?x" using nest_invD(3)[OF g p(1)] .
    then have ok: "\<forall>k < length (ns_leases g). lease_ok (ns_calls g @ [Acquiring rq (Some p)]) k ((ns_leases g)[p := ?y] ! k)"
      using nest_invD(3)[OF g] p by (intro leases_ok_update[where cs = "ns_calls g"]) (auto simp: lease_ok_def)
    have tr: "takes (ns_trace (enter_turn rq g)) = takes (ns_trace g)"
      "gives (ns_trace (enter_turn rq g)) = gives (ns_trace g) + holds ?x"
      using p by (simp_all add: e Let_def holds_def)
    have "holds ?y = {#}" by (simp add: holds_def)
    then have "held (ns_leases (enter_turn rq g)) + holds ?x = held (ns_leases g)"
      using held_update[OF p(1), of ?y] by (simp add: ls)
    then have bal: "takes (ns_trace (enter_turn rq g)) = gives (ns_trace (enter_turn rq g)) + held (ns_leases (enter_turn rq g))"
      using nest_invD(4)[OF g] by (simp add: tr ac_simps)
    have act: "ns_activeByTaskId (enter_turn rq g) = ns_activeByTaskId g" by (simp add: e Let_def)
    have "list_all (refers (length (ns_leases g))) (ns_calls g @ [Acquiring rq (Some p)])" using g p by (simp add: nest_inv_def)
    then show ?thesis unfolding nest_inv_def using ok bal nest_invD(2)[OF g]
      by (auto simp: ls cs act nth_list_update)
  qed
qed

lemma acquired_inv:
  assumes g: "nest_inv g" and c: "c < length (ns_calls g)" "ns_calls g ! c = Acquiring rq parent"
  shows "nest_inv (turn_acquired c rq parent r g)"
proof -
  let ?n = "length (ns_leases g)" and ?x = "\<lparr>ln_request = rq, ln_reservation = Some r, ln_nestedTurnCount = 0, ln_closed = False\<rparr>"
  let ?cs = "(ns_calls g)[c := InTurn ?n parent]"
  have new: "run_count ?n (ns_calls g) = 0" "wait_count ?n (ns_calls g) = 0"
    using sums_new[of ?n "ns_calls g"] g by (auto simp: nest_inv_def)
  have parent: "parent \<noteq> Some ?n" using nest_invD(1)[OF g c(1)] c(2) by auto
  have R: "run_count k ?cs = run_count k (ns_calls g) + (if k = ?n then 1 else 0)" for k
    using count_update(1)[OF c(1), of k "InTurn ?n parent"] c(2) by (auto split: if_splits)
  have W: "wait_count k ?cs = wait_count k (ns_calls g)" for k
    using count_update(2)[OF c(1), of k "InTurn ?n parent"] c(2) by (auto split: if_splits)
  have "lease_ok ?cs k ((ns_leases g @ [?x]) ! k)" if "k < Suc ?n" for k
    using that nest_invD(3)[OF g, of k] new R[of k] W[of k] by (cases "k = ?n") (auto simp: lease_ok_def nth_append)
  moreover have "list_all (refers (Suc ?n)) ?cs"
    using g c nest_invD(1)[OF g c(1)] unfolding nest_inv_def
    by (auto simp: list_all_length nth_list_update intro: refers_more split: option.splits)
  moreover have "takes (ns_trace g @ [Take r]) = gives (ns_trace g @ [Take r]) + held (ns_leases g @ [?x])"
    using nest_invD(4)[OF g] by (simp add: holds_def)
  moreover have "(map_of (omap_set (tr_taskId rq) ?n (ns_activeByTaskId g)) t = Some l) \<longrightarrow> l < Suc ?n
      \<and> \<not> ln_closed ((ns_leases g @ [?x]) ! l) \<and> tr_taskId (ln_request ((ns_leases g @ [?x]) ! l)) = t" for t l
    using nest_invD(2)[OF g, of t l] by (auto simp: nth_append)
  ultimately show ?thesis by (simp add: nest_inv_def turn_acquired_def)
qed


lemma settle_inv:
  assumes g: "nest_inv g" and c: "c < length (ns_calls g)" "ns_calls g ! c = Acquiring rq parent"
  shows "nest_inv (settle_parent c parent g)"
proof (cases parent)
  case None
  have "run_count k ((ns_calls g)[c := Ended]) = run_count k (ns_calls g)"
    "wait_count k ((ns_calls g)[c := Ended]) = wait_count k (ns_calls g)" for k
    using count_update[OF c(1), of k Ended] c(2) None by auto
  then show ?thesis using g c(1) None
    by (auto simp: settle_parent_def nest_inv_def lease_ok_def list_all_length nth_list_update)
next
  case (Some p)
  let ?x = "ns_leases g ! p" and ?h = "settle_parent c parent g"
  let ?y = "?x\<lparr>ln_nestedTurnCount := ln_nestedTurnCount ?x - 1\<rparr>"
  obtain a es where h: "ns_calls ?h = (ns_calls g)[c := a]" "ns_leases ?h = (ns_leases g)[p := ?y]"
    "ns_activeByTaskId ?h = ns_activeByTaskId g" "ns_trace ?h = ns_trace g @ es" "takes es = {#}" "gives es = {#}"
    "a = Ended \<or> a = Reacquiring p"
  proof -
    have e: "takes [Freed] = {#}" "gives [Freed] = {#}" by simp_all
    show thesis
      by (rule that[of "if ln_nestedTurnCount ?x - 1 = 0 \<and> \<not> ln_closed ?x then Reacquiring p else Ended"
            "if ln_nestedTurnCount ?x - 1 > 0 then [Freed] else []"])
        (use Some e in \<open>auto simp: settle_parent_def Let_def\<close>)
  qed
  have p: "p < length (ns_leases g)" using nest_invD(1)[OF g c(1)] c(2) Some by simp
  have R: "run_count k (ns_calls ?h) = run_count k (ns_calls g)" for k
    using count_update(1)[OF c(1), of k a] c(2) h(1,7) by auto
  have W: "wait_count k (ns_calls ?h) + (if k = p then 1 else 0) = wait_count k (ns_calls g)" for k
    using count_update(2)[OF c(1), of k a] c(2) h(1,7) Some by (auto split: if_splits)
  have x: "lease_ok (ns_calls g) p ?x" using nest_invD(3)[OF g p] .
  then have "lease_ok (ns_calls ?h) p ?y" using R[of p] W[of p] by (auto simp: lease_ok_def)
  then have "\<forall>k < length (ns_leases g). lease_ok (ns_calls ?h) k ((ns_leases g)[p := ?y] ! k)"
    using nest_invD(3)[OF g] R W by (intro leases_ok_update[where cs = "ns_calls g"]) (metis add.right_neutral)+
  moreover have "held ((ns_leases g)[p := ?y]) = held (ns_leases g)"
    using held_same[OF p, of ?y] by (simp add: holds_def)
  moreover have "list_all (refers (length (ns_leases g))) ((ns_calls g)[c := a])"
    using g c(1) h(7) p unfolding nest_inv_def by (auto simp: list_all_length nth_list_update)
  ultimately show ?thesis using nest_invD(2,4)[OF g] p unfolding nest_inv_def h(1-4)
    by (auto simp: h(1,5,6) nth_list_update)
qed

lemma settle_overwrites: "settle_parent c parent (set_call c a g) = settle_parent c parent g"
  by (auto simp: settle_parent_def set_call_def set_lease_def emit_def Let_def split: option.splits)

text \<open>The part of an ended turn before its parent is settled.\<close>

lemma closed_inv:
  assumes g: "nest_inv g" and c: "c < length (ns_calls g)" "ns_calls g ! c = InTurn l parent"
  shows "nest_inv (set_call c (Acquiring rq parent) (releaseLease l b (close_lease l g)))"
proof -
  let ?x = "ns_leases g ! l" and ?h = "set_call c (Acquiring rq parent) (releaseLease l b (close_lease l g))"
  let ?y = "?x\<lparr>ln_closed := True, ln_reservation := None\<rparr>"
  have l: "l < length (ns_leases g)" using nest_invD(1)[OF g c(1)] c(2) by simp
  have cl: "ns_leases (close_lease l g) = (ns_leases g)[l := ?x\<lparr>ln_closed := True\<rparr>]" "ns_calls (close_lease l g) = ns_calls g"
    "ns_trace (close_lease l g) = ns_trace g"
    by (simp_all add: close_lease_def Let_def)
  have act: "map_of (ns_activeByTaskId (close_lease l g)) t = Some k \<Longrightarrow> k \<noteq> l \<and> map_of (ns_activeByTaskId g) t = Some k" for t k
    using nest_invD(2)[OF g, of t k] by (auto simp: close_lease_def Let_def split: if_splits)
  have h: "ns_calls ?h = (ns_calls g)[c := Acquiring rq parent]" "ns_leases ?h = (ns_leases g)[l := ?y]"
    "ns_activeByTaskId ?h = ns_activeByTaskId (close_lease l g)" "takes (ns_trace ?h) = takes (ns_trace g)"
    "gives (ns_trace ?h) = gives (ns_trace g) + holds ?x"
    using l by (simp_all add: cl holds_def)
  have R: "run_count k (ns_calls ?h) + (if k = l then 1 else 0) = run_count k (ns_calls g)" for k
    using count_update(1)[OF c(1), of k "Acquiring rq parent"] c(2) h(1) by (auto split: if_splits)
  have W: "wait_count k (ns_calls ?h) = wait_count k (ns_calls g)" for k
    using count_update(2)[OF c(1), of k "Acquiring rq parent"] c(2) h(1) by (auto split: if_splits)
  have "lease_ok (ns_calls ?h) l ?y" using nest_invD(3)[OF g l] R[of l] W[of l] by (auto simp: lease_ok_def split: if_splits)
  then have ok: "\<forall>k < length (ns_leases g). lease_ok (ns_calls ?h) k ((ns_leases g)[l := ?y] ! k)"
    using nest_invD(3)[OF g] R W by (intro leases_ok_update[where cs = "ns_calls g"]) (metis add.right_neutral)+
  have "held ((ns_leases g)[l := ?y]) + holds ?x = held (ns_leases g)"
    using held_update[OF l, of ?y] by (simp add: holds_def)
  then have bal: "takes (ns_trace ?h) = gives (ns_trace ?h) + held (ns_leases ?h)"
    unfolding h(2,4,5) nest_invD(4)[OF g] by (simp add: ac_simps)
  have "list_all (refers (length (ns_leases g))) (ns_calls ?h)"
    using g c nest_invD(1)[OF g c(1)] unfolding nest_inv_def h(1) by (auto simp: list_all_length nth_list_update)
  moreover have "k < length (ns_leases g) \<and> \<not> ln_closed (ns_leases ?h ! k) \<and> tr_taskId (ln_request (ns_leases ?h ! k)) = t"
    if "map_of (ns_activeByTaskId ?h) t = Some k" for t k
    using act[of t k] nest_invD(2)[OF g, of t k] that unfolding h(2,3) by simp
  ultimately show ?thesis using ok bal h(2) unfolding nest_inv_def by simp
qed

lemma ended_inv:
  assumes "nest_inv g" "c < length (ns_calls g)" "ns_calls g ! c = InTurn l parent"
  shows "nest_inv (turn_ended c l parent g)"
proof -
  fix rq
  let ?h = "set_call c (Acquiring rq parent) (releaseLease l (parent = None) (close_lease l g))"
  have "c < length (ns_calls ?h)" "ns_calls ?h ! c = Acquiring rq parent"
    using assms(2) by (simp_all add: close_lease_def Let_def)
  from settle_inv[OF closed_inv[OF assms] this] show ?thesis unfolding turn_ended_def settle_overwrites .
qed

lemma reacquire_end:
  assumes g: "nest_inv g" and c: "c < length (ns_calls g)" "ns_calls g ! c = Reacquiring p"
  shows "nest_inv (set_call c Ended g)"
proof -
  have "run_count k ((ns_calls g)[c := Ended]) = run_count k (ns_calls g)"
    "wait_count k ((ns_calls g)[c := Ended]) = wait_count k (ns_calls g)" for k
    using count_update[OF c(1), of k Ended] c(2) by auto
  with g c(1) show ?thesis by (auto simp: nest_inv_def lease_ok_def list_all_length nth_list_update)
qed

lemma reacquired_inv:
  assumes g: "nest_inv g" and c: "c < length (ns_calls g)" "ns_calls g ! c = Reacquiring p"
  shows "nest_inv (parent_reacquired c p r g)"
proof -
  let ?x = "ns_leases g ! p"
  have p: "p < length (ns_leases g)" using nest_invD(1)[OF g c(1)] c(2) by simp
  have e: "nest_inv (set_call c Ended g)" using reacquire_end[OF g c] .
  show ?thesis
  proof (cases "ln_closed ?x \<or> ln_nestedTurnCount ?x > 0 \<or> ln_reservation ?x \<noteq> None")
    case True
    with e show ?thesis by (simp add: parent_reacquired_def nest_inv_def lease_ok_def)
  next
    case False
    have "held ((ns_leases g)[p := ?x\<lparr>ln_reservation := Some r\<rparr>]) = add_mset r (held (ns_leases g))"
      using held_update[OF p, of "?x\<lparr>ln_reservation := Some r\<rparr>"] False by (simp add: holds_def)
    with e False p show ?thesis
      by (auto simp: parent_reacquired_def nest_inv_def lease_ok_def nth_list_update)
  qed
qed

lemma gate_do_inv: "nest_inv g \<Longrightarrow> nest_inv (gate_do e g)"
  by (auto simp: gate_do_def call_of_def enter_inv acquired_inv settle_inv ended_inv reacquired_inv reacquire_end
      split: gate_op.splits gate_call.splits if_splits)

lemma initial_inv: "nest_inv no_leases"
  by (simp add: nest_inv_def no_leases_def held_def)

interpretation nested: invariant_system gate_do "\<lambda>e g. True" nest_inv
  by unfold_locales (rule gate_do_inv)

lemma reachable_nest_inv: "nest_inv (fold gate_do es no_leases)"
  using initial_inv by (rule nested.fold_inv[rotated]) simp

text \<open>When all calls have ended, all leases are closed.\<close>

lemma all_ended:
  assumes "nest_inv g" "\<forall>c \<in> set (ns_calls g). c = Ended"
  shows "held (ns_leases g) = {#}"
proof -
  have r: "run_count l (ns_calls g) = 0" for l
    unfolding run_count_def using assms(2) by (intro sum_list_zero) auto
  have "ln_reservation x = None" if x: "x \<in> set (ns_leases g)" for x
  proof -
    obtain l where "l < length (ns_leases g)" "x = ns_leases g ! l" using x unfolding in_set_conv_nth by blast
    then have "lease_ok (ns_calls g) l x" using nest_invD(3)[OF assms(1)] by simp
    then show ?thesis using r by (simp add: lease_ok_def split: if_splits)
  qed
  then show ?thesis unfolding held_holds by (intro sum_list_zero) (simp add: holds_def)
qed

text \<open>A child that ends after its parent was closed gives its reservation back, but announces no capacity: nobody
  takes the slot over, and nobody is woken.\<close>

lemma orphan_end_wakes_nobody:
  assumes "l < length (ns_leases g)" "p < length (ns_leases g)" "l \<noteq> p"
    and "ln_reservation (ns_leases g ! l) = Some r" "ln_closed (ns_leases g ! p)" "ln_nestedTurnCount (ns_leases g ! p) = 1"
  shows "ns_trace (turn_ended c l (Some p) g) = ns_trace g @ [Give r]"
  using assms by (simp add: turn_ended_def close_lease_def settle_parent_def releaseLease_def set_lease_def set_call_def
      emit_def Let_def)

section \<open>The gate over the admission\<close>

text \<open>The gate of a workspace, with the admission behind it: what a waiting call asks for, what the gate gives back.\<close>

record gated =
  gd_nest :: nest
  gd_admission :: admission

datatype turn_op = Start turn_request | Poll nat inputs | Abort nat | Done nat

definition request_of :: "nest \<Rightarrow> nat \<Rightarrow> turn_request option" where
  "request_of g c =
     (case call_of g c of
        Acquiring rq _ \<Rightarrow> Some rq
      | Reacquiring p \<Rightarrow> Some ((ln_request (ns_leases g ! p))\<lparr>tr_parentReacquire := True\<rparr>)
      | _ \<Rightarrow> None)"

definition deliver :: "string \<Rightarrow> gate_effect list \<Rightarrow> admission \<Rightarrow> admission" where
  "deliver ws es a = fold (\<lambda>e a. case e of Give r \<Rightarrow> releaseModelTurnAdmission ws r a | _ \<Rightarrow> a) es a"

definition apply_gate :: "string \<Rightarrow> gate_op \<Rightarrow> gated \<Rightarrow> gated" where
  "apply_gate ws e s =
     (let g = gate_do e (gd_nest s)
      in \<lparr>gd_nest = g, gd_admission = deliver ws (drop (length (ns_trace (gd_nest s))) (ns_trace g)) (gd_admission s)\<rparr>)"

definition turn_do :: "sched_env \<Rightarrow> string \<Rightarrow> turn_op \<Rightarrow> gated \<Rightarrow> gated" where
  "turn_do env ws op s =
     (case op of
        Start rq \<Rightarrow> apply_gate ws (Enter rq) s
      | Poll c i \<Rightarrow>
          (case request_of (gd_nest s) c of
             None \<Rightarrow> s
           | Some rq \<Rightarrow>
               (case evaluateModelTurnAdmission env ws rq i (gd_admission s) of (res, a) \<Rightarrow>
                  (case res of
                     Granted r \<Rightarrow> apply_gate ws (Obtain c r) (s\<lparr>gd_admission := a\<rparr>)
                   | _ \<Rightarrow> s\<lparr>gd_admission := a\<rparr>)))
      | Abort c \<Rightarrow> apply_gate ws (Reject c) s
      | Done c \<Rightarrow> apply_gate ws (Finish c) s)"

end
