(* ===== verification/NestedProperties.thy ===== *)
theory NestedProperties
  imports NestedTurns TurnProperties
begin

text \<open>
  Properties of the nested gate: what it holds is what it took and has not given back; an awaited turn and its parent
  share one slot without waiting for each other; and two reacquisitions of one parent lose the parent's slot.
\<close>

definition quiet_start :: gated where
  "quiet_start = \<lparr>gd_nest = no_leases, gd_admission = no_turns\<rparr>"

definition child_of :: "string \<Rightarrow> string \<Rightarrow> turn_request" where
  "child_of p t = (sample_turn t)\<lparr>tr_admissionParentTaskId := Some p\<rparr>"

section \<open>With nothing in the way a turn is granted\<close>

text \<open>The settings are known, the registry is sound, and no loaded model is busy or has requests queued.\<close>

definition quiet :: "inputs \<Rightarrow> bool" where
  "quiet i \<longleftrightarrow> ev_config i \<noteq> None \<and> sound_registry (ev_registry i)
     \<and> list_all (\<lambda>p. \<not> js_gt (ps_queued p) (Fin 0) \<and> \<not> status_busy p) (ev_ps i)"

lemma quiet_externals: "list_all (\<lambda>p. \<not> js_gt (ps_queued p) (Fin 0) \<and> \<not> status_busy p) ps \<Longrightarrow> fold (collect_external rq tracked) ps m = m"
  by (induction ps) (simp_all add: collect_external_def)

lemma quiet_host:
  assumes "list_all (\<lambda>p. \<not> js_gt (ps_queued p) (Fin 0) \<and> \<not> status_busy p) ps"
  shows "findExternalLmsHostBlock rq ps h running machines = None"
proof -
  have "find (\<lambda>p. js_gt (ps_queued p) (Fin 0)) (filter Q ps) = None" "find status_busy (filter Q ps) = None" for Q
    using assms by (auto simp: find_None_iff list_all_iff)
  then show ?thesis by (simp add: findExternalLmsHostBlock_def Let_def split: option.splits)
qed

lemma empty_schedule:
  assumes "sound_registry (rq_modelRegistry raw)" "rq_runningSessions raw = []"
  shows "scheduleNKleinEndpointStart env raw = Inr Admit"
proof -
  obtain d where d: "scheduleNKleinEndpointStart env raw = Inr d" "justified env (unshadowed raw) d"
    using schedule_justified[OF assms(1)] by blast
  have "other_running (unshadowed raw) = []" using assms(2) by (simp add: unshadowed_def other_running_def withoutSameModelExternalLmsReuse_def)
  with d show ?thesis by (cases d) (auto simp: justified_def list_ex_iff)
qed

lemma empty_decision:
  assumes "sound_registry (ev_registry i)" "list_all (\<lambda>p. \<not> js_gt (ps_queued p) (Fin 0) \<and> \<not> status_busy p) (ev_ps i)"
    and "ad_active s = []" "wq_byTaskId (ad_queue s) = []"
  shows "decide_turn env ws rq i caps machines host s = grant ws rq (ev_now i) host s"
proof -
  have run: "ad_running ws rq (ev_ps i) s = []"
    using assms(2,3) by (simp add: ad_running_def collectModelTurnSchedulingSessions_def tracked_turns_def Let_def quiet_externals js_sort_def)
  have q: "(ad_queue s)\<lparr>wq_byTaskId := []\<rparr> = ad_queue s" using assms(4) by (cases "ad_queue s") simp
  have sch: "scheduleNKleinEndpointStart env (ad_request rq i [] caps machines host) = Inr Admit"
    using assms(1) by (intro empty_schedule) (simp_all add: ad_request_def)
  show ?thesis
    by (simp add: decide_turn_def Let_def run findActiveSameTaskModelTurn_def reservedFor_def assms(4) q sch quiet_host[OF assms(2)])
qed

lemma quiet_granted:
  assumes "quiet i" "ad_active (purge_reacquire ws rq s) = []" "wq_byTaskId (ad_queue s) = []"
  shows "\<exists>r a. evaluateModelTurnAdmission env ws rq i s = (Granted r, a) \<and> task_of r = tr_taskId rq
    \<and> ad_active a = [(ws, [r])] \<and> wq_byTaskId (ad_queue a) = []"
proof -
  obtain cfg where cfg: "ev_config i = Some cfg" using assms(1) by (auto simp: quiet_def)
  let ?s1 = "s\<lparr>ad_lastConfig := omap_set ws cfg (ad_lastConfig s)\<rparr>"
  define s2 where "s2 = (if ev_ps i \<noteq> [] then ?s1\<lparr>ad_lastPs := ev_ps i\<rparr> else ?s1)"
  define t where "t = purge_reacquire ws rq s2"
  define m where "m = ad_machines env rq (ad_lastPs s2)"
  have "active_of s2 = active_of s" "ad_active s2 = ad_active s" "ad_queue s2 = ad_queue s" by (simp_all add: s2_def ad_active_frame)
  then have t: "ad_active t = []" "wq_byTaskId (ad_queue t) = []"
    using assms(2,3) by (auto simp: t_def purge_reacquire_def set_active_def split: if_splits)
  have "purge_leaked ws rq (ev_ps i) (ev_now i) t = t" using t(1) by (simp add: purge_leaked_def active_of_def Let_def)
  then have "evaluateModelTurnAdmission env ws rq i s
      = decide_turn env ws rq i (ad_caps env cfg i rq (ad_host m rq)) m (ad_host m rq) t"
    by (simp add: evaluateModelTurnAdmission_def Let_def cfg s2_def m_def t_def)
  also have "... = grant ws rq (ev_now i) (ad_host m rq) t"
    using assms(1) t by (intro empty_decision) (simp_all add: quiet_def)
  finally show ?thesis using t by (simp add: grant_def Let_def set_active_def active_of_def task_of_def new_reservation_def remove_waiter_def)
qed

text \<open>A gate over an admission: which tasks hold a slot.\<close>

definition turns_held :: "gated \<Rightarrow> string list" where
  "turns_held s = concat (map (\<lambda>e. map task_of (snd e)) (ad_active (gd_admission s)))"

lemma poll_granted:
  assumes "quiet i" "request_of g c = Some rq" "ad_active (purge_reacquire ws rq b) = []" "wq_byTaskId (ad_queue b) = []"
  shows "\<exists>r a. turn_do env ws (Poll c i) \<lparr>gd_nest = g, gd_admission = b\<rparr> = apply_gate ws (Obtain c r) \<lparr>gd_nest = g, gd_admission = a\<rparr>
    \<and> task_of r = tr_taskId rq \<and> ad_active a = [(ws, [r])] \<and> wq_byTaskId (ad_queue a) = []"
proof -
  obtain r a where "evaluateModelTurnAdmission env ws rq i b = (Granted r, a)" "task_of r = tr_taskId rq"
    "ad_active a = [(ws, [r])]" "wq_byTaskId (ad_queue a) = []"
    using quiet_granted[OF assms(1,3,4)] by blast
  then show ?thesis using assms(2) by (auto simp: turn_do_def)
qed

lemma purge_nothing: "ad_active s = [] \<Longrightarrow> ad_active (purge_reacquire ws rq s) = []"
  by (simp add: purge_reacquire_def active_of_def)

lemma release_only:
  "ad_active a = [(ws, [r])] \<Longrightarrow> ad_active (releaseModelTurnAdmission ws r a) = []
     \<and> ad_queue (releaseModelTurnAdmission ws r a) = ad_queue a"
  by (simp add: releaseModelTurnAdmission_def active_of_def set_active_def)

definition handoff :: "turn_request \<Rightarrow> turn_request \<Rightarrow> inputs \<Rightarrow> inputs \<Rightarrow> inputs \<Rightarrow> turn_op list" where
  "handoff p c i j k = [Start p, Poll 0 i, Start c, Poll 1 j, Done 1, Poll 1 k]"

definition awaited_by :: "turn_request \<Rightarrow> turn_request \<Rightarrow> bool" where
  "awaited_by c p \<longleftrightarrow> Option.bind (tr_admissionParentTaskId c) (\<lambda>t. or_null (trim t)) = Some (tr_taskId p) \<and> tr_taskId c \<noteq> tr_taskId p"

lemma first_turn:
  assumes "quiet i"
  shows "\<exists>r a. fold (turn_do env ws) [Start p, Poll 0 i] quiet_start
     = \<lparr>gd_nest = \<lparr>ns_leases = [\<lparr>ln_request = p, ln_reservation = Some r, ln_nestedTurnCount = 0, ln_closed = False\<rparr>],
          ns_activeByTaskId = [(tr_taskId p, 0)], ns_calls = [InTurn 0 None], ns_trace = [Take r]\<rparr>, gd_admission = a\<rparr>
     \<and> task_of r = tr_taskId p \<and> ad_active a = [(ws, [r])] \<and> wq_byTaskId (ad_queue a) = []"
proof -
  let ?g = "\<lparr>ns_leases = [], ns_activeByTaskId = [], ns_calls = [Acquiring p None], ns_trace = []\<rparr>"
  have s: "turn_do env ws (Start p) quiet_start = \<lparr>gd_nest = ?g, gd_admission = no_turns\<rparr>"
    by (simp add: turn_do_def apply_gate_def gate_do_def enter_turn_def parent_lease_def quiet_start_def no_leases_def deliver_def
        Let_def split: option.splits)
  obtain r a where "turn_do env ws (Poll 0 i) \<lparr>gd_nest = ?g, gd_admission = no_turns\<rparr>
      = apply_gate ws (Obtain 0 r) \<lparr>gd_nest = ?g, gd_admission = a\<rparr>"
    "task_of r = tr_taskId p" "ad_active a = [(ws, [r])]" "wq_byTaskId (ad_queue a) = []"
    using poll_granted[OF assms, of ?g 0 p ws no_turns env] by (auto simp: request_of_def call_of_def no_turns_def purge_nothing)
  then show ?thesis
    by (simp add: s apply_gate_def gate_do_def call_of_def turn_acquired_def emit_def set_call_def deliver_def Let_def)
qed

lemma child_turn:
  assumes "quiet j" "awaited_by c p" "ad_active a = [(ws, [r])]" "wq_byTaskId (ad_queue a) = []"
  shows "\<exists>r' a'. fold (turn_do env ws) [Start c, Poll 1 j]
     \<lparr>gd_nest = \<lparr>ns_leases = [\<lparr>ln_request = p, ln_reservation = Some r, ln_nestedTurnCount = 0, ln_closed = False\<rparr>],
          ns_activeByTaskId = [(tr_taskId p, 0)], ns_calls = [InTurn 0 None], ns_trace = tr\<rparr>, gd_admission = a\<rparr>
     = \<lparr>gd_nest = \<lparr>ns_leases = [\<lparr>ln_request = p, ln_reservation = None, ln_nestedTurnCount = 1, ln_closed = False\<rparr>,
            \<lparr>ln_request = c, ln_reservation = Some r', ln_nestedTurnCount = 0, ln_closed = False\<rparr>],
          ns_activeByTaskId = [(tr_taskId p, 0), (tr_taskId c, 1)], ns_calls = [InTurn 0 None, InTurn 1 (Some 0)],
          ns_trace = tr @ [Give r, Take r']\<rparr>, gd_admission = a'\<rparr>
     \<and> task_of r' = tr_taskId c \<and> ad_active a' = [(ws, [r'])] \<and> wq_byTaskId (ad_queue a') = []"
proof -
  let ?g = "\<lparr>ns_leases = [\<lparr>ln_request = p, ln_reservation = None, ln_nestedTurnCount = 1, ln_closed = False\<rparr>],
     ns_activeByTaskId = [(tr_taskId p, 0)], ns_calls = [InTurn 0 None, Acquiring c (Some 0)], ns_trace = tr @ [Give r]\<rparr>"
  let ?b = "releaseModelTurnAdmission ws r a"
  have "tr_taskId c \<noteq> tr_taskId p" using assms(2) unfolding awaited_by_def by blast
  note ne = this not_sym[OF this]
  have s: "turn_do env ws (Start c) \<lparr>gd_nest = \<lparr>ns_leases = [\<lparr>ln_request = p, ln_reservation = Some r, ln_nestedTurnCount = 0, ln_closed = False\<rparr>],
      ns_activeByTaskId = [(tr_taskId p, 0)], ns_calls = [InTurn 0 None], ns_trace = tr\<rparr>, gd_admission = a\<rparr>
    = \<lparr>gd_nest = ?g, gd_admission = ?b\<rparr>"
    using assms(2) ne by (simp add: turn_do_def apply_gate_def gate_do_def enter_turn_def parent_lease_def awaited_by_def
        releaseLease_def set_lease_def emit_def deliver_def Let_def)
  obtain r' a' where "turn_do env ws (Poll 1 j) \<lparr>gd_nest = ?g, gd_admission = ?b\<rparr>
      = apply_gate ws (Obtain 1 r') \<lparr>gd_nest = ?g, gd_admission = a'\<rparr>"
    "task_of r' = tr_taskId c" "ad_active a' = [(ws, [r'])]" "wq_byTaskId (ad_queue a') = []"
    using poll_granted[OF assms(1), of ?g 1 c ws ?b env] release_only[OF assms(3)] assms(4)
    by (auto simp: request_of_def call_of_def purge_nothing)
  then show ?thesis using ne
    by (simp add: s apply_gate_def gate_do_def call_of_def turn_acquired_def emit_def set_call_def deliver_def Let_def)
qed

lemma parent_again:
  assumes "quiet k" "ad_active a = [(ws, [r])]" "wq_byTaskId (ad_queue a) = []" "tr_taskId c \<noteq> tr_taskId p"
  shows "\<exists>r' a'. fold (turn_do env ws) [Done 1, Poll 1 k]
     \<lparr>gd_nest = \<lparr>ns_leases = [\<lparr>ln_request = p, ln_reservation = None, ln_nestedTurnCount = 1, ln_closed = False\<rparr>,
            \<lparr>ln_request = c, ln_reservation = Some r, ln_nestedTurnCount = 0, ln_closed = False\<rparr>],
          ns_activeByTaskId = [(tr_taskId p, 0), (tr_taskId c, 1)], ns_calls = [InTurn 0 None, InTurn 1 (Some 0)],
          ns_trace = tr\<rparr>, gd_admission = a\<rparr>
     = \<lparr>gd_nest = \<lparr>ns_leases = [\<lparr>ln_request = p, ln_reservation = Some r', ln_nestedTurnCount = 0, ln_closed = False\<rparr>,
            \<lparr>ln_request = c, ln_reservation = None, ln_nestedTurnCount = 0, ln_closed = True\<rparr>],
          ns_activeByTaskId = [(tr_taskId p, 0)], ns_calls = [InTurn 0 None, Ended],
          ns_trace = tr @ [Give r, Take r']\<rparr>, gd_admission = a'\<rparr>
     \<and> task_of r' = tr_taskId p \<and> ad_active a' = [(ws, [r'])] \<and> wq_byTaskId (ad_queue a') = []"
proof -
  let ?g = "\<lparr>ns_leases = [\<lparr>ln_request = p, ln_reservation = None, ln_nestedTurnCount = 0, ln_closed = False\<rparr>,
       \<lparr>ln_request = c, ln_reservation = None, ln_nestedTurnCount = 0, ln_closed = True\<rparr>],
     ns_activeByTaskId = [(tr_taskId p, 0)], ns_calls = [InTurn 0 None, Reacquiring 0], ns_trace = tr @ [Give r]\<rparr>"
  let ?b = "releaseModelTurnAdmission ws r a"
  note ne = assms(4) not_sym[OF assms(4)]
  have s: "turn_do env ws (Done 1) \<lparr>gd_nest = \<lparr>ns_leases = [\<lparr>ln_request = p, ln_reservation = None, ln_nestedTurnCount = 1, ln_closed = False\<rparr>,
            \<lparr>ln_request = c, ln_reservation = Some r, ln_nestedTurnCount = 0, ln_closed = False\<rparr>],
          ns_activeByTaskId = [(tr_taskId p, 0), (tr_taskId c, 1)], ns_calls = [InTurn 0 None, InTurn 1 (Some 0)],
          ns_trace = tr\<rparr>, gd_admission = a\<rparr> = \<lparr>gd_nest = ?g, gd_admission = ?b\<rparr>"
    using ne by (simp add: turn_do_def apply_gate_def gate_do_def call_of_def turn_ended_def close_lease_def settle_parent_def
        set_call_def releaseLease_def set_lease_def emit_def deliver_def Let_def)
  obtain r' a' where "turn_do env ws (Poll 1 k) \<lparr>gd_nest = ?g, gd_admission = ?b\<rparr>
      = apply_gate ws (Obtain 1 r') \<lparr>gd_nest = ?g, gd_admission = a'\<rparr>"
    "task_of r' = tr_taskId p" "ad_active a' = [(ws, [r'])]" "wq_byTaskId (ad_queue a') = []"
    using poll_granted[OF assms(1), of ?g 1 "p\<lparr>tr_parentReacquire := True\<rparr>" ws ?b env] release_only[OF assms(2)] assms(3)
    by (auto simp: request_of_def call_of_def purge_nothing)
  then show ?thesis using ne
    by (simp add: s[unfolded One_nat_def] apply_gate_def gate_do_def call_of_def parent_reacquired_def set_lease_def emit_def set_call_def deliver_def Let_def)
qed

section \<open>Properties\<close>

text \<open>What the gate holds, and when nothing is left.\<close>

definition conserved :: "nest \<Rightarrow> bool" where
  "conserved g \<longleftrightarrow> takes (ns_trace g) = gives (ns_trace g) + held (ns_leases g)
     \<and> (\<forall>x \<in> set (ns_leases g). ln_reservation x \<noteq> None \<longrightarrow> \<not> ln_closed x \<and> ln_nestedTurnCount x = 0)
     \<and> ((\<forall>c \<in> set (ns_calls g). c = Ended) \<longrightarrow> takes (ns_trace g) = gives (ns_trace g))"

text \<open>C37. In whatever order turns enter the nested gate, obtain reservations, are rejected, and end, every reservation
  the gate took is either given back or held by exactly one open lease that awaits no child; and when all calls have
  ended, everything taken has been given back.\<close>

theorem nested_turns_conserve: "conserved (fold gate_do es no_leases)"
proof -
  have g: "nest_inv (fold gate_do es no_leases)" by (rule reachable_nest_inv)
  have "\<not> ln_closed x \<and> ln_nestedTurnCount x = 0" if x: "x \<in> set (ns_leases (fold gate_do es no_leases))" "ln_reservation x \<noteq> None" for x
  proof -
    obtain l where "lease_ok (ns_calls (fold gate_do es no_leases)) l x"
      using nest_invD(3)[OF g] x(1) unfolding in_set_conv_nth by blast
    with x(2) show ?thesis by (auto simp: lease_ok_def)
  qed
  then show ?thesis unfolding conserved_def using nest_invD(4)[OF g] all_ended[OF g] by auto
qed

text \<open>C38. A turn and the turn it awaits share one slot without waiting for each other, under any caps: when nothing else
  contends, the parent's turn is granted, the child's turn is granted in its place, and when the child has ended the
  parent is granted its slot again; at each point one slot is taken.\<close>

theorem awaited_turn_shares_slot:
  assumes "quiet i" "quiet j" "quiet k" "awaited_by c p"
  shows "\<exists>s1 s2 s3. s1 = fold (turn_do env ws) [Start p, Poll 0 i] quiet_start
    \<and> s2 = fold (turn_do env ws) [Start c, Poll 1 j] s1 \<and> s3 = fold (turn_do env ws) [Done 1, Poll 1 k] s2
    \<and> turns_held s1 = [tr_taskId p] \<and> ns_calls (gd_nest s1) = [InTurn 0 None]
    \<and> turns_held s2 = [tr_taskId c] \<and> ns_calls (gd_nest s2) = [InTurn 0 None, InTurn 1 (Some 0)]
    \<and> turns_held s3 = [tr_taskId p] \<and> ns_calls (gd_nest s3) = [InTurn 0 None, Ended]"
proof -
  have ne: "tr_taskId c \<noteq> tr_taskId p" using assms(4) unfolding awaited_by_def by blast
  define s1 where "s1 = fold (turn_do env ws) [Start p, Poll 0 i] quiet_start"
  define s2 where "s2 = fold (turn_do env ws) [Start c, Poll 1 j] s1"
  define s3 where "s3 = fold (turn_do env ws) [Done 1, Poll 1 k] s2"
  obtain r a where 1: "s1
     = \<lparr>gd_nest = \<lparr>ns_leases = [\<lparr>ln_request = p, ln_reservation = Some r, ln_nestedTurnCount = 0, ln_closed = False\<rparr>],
          ns_activeByTaskId = [(tr_taskId p, 0)], ns_calls = [InTurn 0 None], ns_trace = [Take r]\<rparr>, gd_admission = a\<rparr>"
     "task_of r = tr_taskId p" "ad_active a = [(ws, [r])]" "wq_byTaskId (ad_queue a) = []"
    using first_turn[OF assms(1)] unfolding s1_def by blast
  obtain r' a' where 2: "s2
     = \<lparr>gd_nest = \<lparr>ns_leases = [\<lparr>ln_request = p, ln_reservation = None, ln_nestedTurnCount = 1, ln_closed = False\<rparr>,
            \<lparr>ln_request = c, ln_reservation = Some r', ln_nestedTurnCount = 0, ln_closed = False\<rparr>],
          ns_activeByTaskId = [(tr_taskId p, 0), (tr_taskId c, 1)], ns_calls = [InTurn 0 None, InTurn 1 (Some 0)],
          ns_trace = [Take r] @ [Give r, Take r']\<rparr>, gd_admission = a'\<rparr>"
     "task_of r' = tr_taskId c" "ad_active a' = [(ws, [r'])]" "wq_byTaskId (ad_queue a') = []"
    using child_turn[OF assms(2,4) 1(3,4), of env "[Take r]"] unfolding s2_def 1(1) by blast
  obtain r'' a'' where 3: "s3
     = \<lparr>gd_nest = \<lparr>ns_leases = [\<lparr>ln_request = p, ln_reservation = Some r'', ln_nestedTurnCount = 0, ln_closed = False\<rparr>,
            \<lparr>ln_request = c, ln_reservation = None, ln_nestedTurnCount = 0, ln_closed = True\<rparr>],
          ns_activeByTaskId = [(tr_taskId p, 0)], ns_calls = [InTurn 0 None, Ended],
          ns_trace = ([Take r] @ [Give r, Take r']) @ [Give r', Take r'']\<rparr>, gd_admission = a''\<rparr>"
     "task_of r'' = tr_taskId p" "ad_active a'' = [(ws, [r''])]"
    using parent_again[OF assms(3) 2(3,4) ne, of env "[Take r] @ [Give r, Take r']"] unfolding s3_def 2(1) by blast
  have "turns_held s1 = [tr_taskId p]" "ns_calls (gd_nest s1) = [InTurn 0 None]" using 1(2,3) by (simp_all add: 1(1) turns_held_def)
  moreover have "turns_held s2 = [tr_taskId c]" "ns_calls (gd_nest s2) = [InTurn 0 None, InTurn 1 (Some 0)]"
    using 2(2,3) by (simp_all add: 2(1) turns_held_def)
  moreover have "turns_held s3 = [tr_taskId p]" "ns_calls (gd_nest s3) = [InTurn 0 None, Ended]"
    using 3(2,3) by (simp_all add: 3(1) turns_held_def)
  ultimately show ?thesis using s1_def s2_def s3_def by blast
qed

lemma sample_quiet: "quiet sample_inputs"
  by (simp add: quiet_def sample_inputs_def sound_registry_def status_busy_def ps_state_def) code_simp

theorem awaited_turn_shares_slot_witness:
  "turns_held (fold (turn_do sample_env ''w'') [Start (sample_turn ''p''), Poll 0 sample_inputs, Start (child_of ''p'' ''c''),
     Poll 1 sample_inputs] quiet_start) = [''c'']"
proof -
  have "awaited_by (child_of ''p'' ''c'') (sample_turn ''p'')" by code_simp
  from awaited_turn_shares_slot[OF sample_quiet sample_quiet sample_quiet this, of sample_env "''w''"] show ?thesis
    by (auto simp: child_of_def sample_turn_def)
qed

section \<open>A parent that is asked for twice\<close>

text \<open>A child ends and its parent waits for a new slot; a second child runs meanwhile and ends, so that the parent is
  asked for twice. The requests are granted one after the other, and then another task polls.\<close>

definition double_reacquire :: "turn_op list" where
  "double_reacquire =
     [Done 1, Start (child_of ''p'' ''d''), Poll 2 sample_inputs, Done 2,
      Poll 1 sample_inputs, Poll 2 sample_inputs, Start (sample_turn ''q''), Poll 3 sample_inputs]"

lemma sample_tasks [simp]:
  "tr_taskId (sample_turn t) = t" "tr_taskId (child_of p t) = t"
  "tr_admissionParentTaskId (sample_turn t) = None" "tr_admissionParentTaskId (child_of p t) = Some p"
  "tr_parentReacquire (sample_turn t) = False" "tr_parentReacquire (child_of p t) = False"
  by (simp_all add: sample_turn_def child_of_def)

lemmas piece_simps = turn_do_def apply_gate_def gate_do_def call_of_def enter_turn_def parent_lease_def releaseLease_def
  turn_ended_def close_lease_def settle_parent_def turn_acquired_def parent_reacquired_def
  set_lease_def set_call_def emit_def deliver_def or_null_def

lemma trim_p: "trim ''p'' = ''p''" by code_simp

text \<open>The second time the admission takes the reservation that the parent has just got back for the ghost of a dead turn,
  and the gate gives the new one back: the parent runs without a slot, and another turn is granted its host.\<close>

lemma double_reacquire_from:
  fixes s
  assumes "s = \<lparr>gd_nest = \<lparr>ns_leases = [\<lparr>ln_request = sample_turn ''p'', ln_reservation = None, ln_nestedTurnCount = 1, ln_closed = False\<rparr>,
            \<lparr>ln_request = child_of ''p'' ''c'', ln_reservation = Some r, ln_nestedTurnCount = 0, ln_closed = False\<rparr>],
          ns_activeByTaskId = [(''p'', 0), (''c'', 1)], ns_calls = [InTurn 0 None, InTurn 1 (Some 0)],
          ns_trace = tr\<rparr>, gd_admission = a\<rparr>"
    and "ad_active a = [(ws, [r])]" "wq_byTaskId (ad_queue a) = []"
  shows "let t = fold (turn_do env ws) double_reacquire s in
     turns_held t = [''q''] \<and> ns_calls (gd_nest t) = [InTurn 0 None, Ended, Ended, InTurn 3 None]
     \<and> map (map_option task_of \<circ> ln_reservation) (ns_leases (gd_nest t)) = [Some ''p'', None, None, Some ''q'']"
proof -
  let ?p = "sample_turn ''p''" and ?c = "child_of ''p'' ''c''" and ?d = "child_of ''p'' ''d''" and ?q = "sample_turn ''q''"
  let ?P = "\<lambda>x n. \<lparr>ln_request = ?p, ln_reservation = x, ln_nestedTurnCount = n, ln_closed = False\<rparr>"
  let ?C = "\<lambda>z. \<lparr>ln_request = z, ln_reservation = None, ln_nestedTurnCount = 0, ln_closed = True\<rparr>"
  let ?b = "releaseModelTurnAdmission ws r a"
  let ?g1 = "\<lparr>ns_leases = [?P None 1, ?C ?c], ns_activeByTaskId = [(''p'', 0)],
      ns_calls = [InTurn 0 None, Reacquiring 0, Acquiring ?d (Some 0)], ns_trace = tr @ [Give r]\<rparr>"
  have 1: "fold (turn_do env ws) [Done 1, Start ?d] s = \<lparr>gd_nest = ?g1, gd_admission = ?b\<rparr>"
    by (simp add: assms(1) piece_simps trim_p Let_def)
  obtain r2 a2 where 2: "turn_do env ws (Poll 2 sample_inputs) \<lparr>gd_nest = ?g1, gd_admission = ?b\<rparr>
      = apply_gate ws (Obtain 2 r2) \<lparr>gd_nest = ?g1, gd_admission = a2\<rparr>"
    "ad_active a2 = [(ws, [r2])]" "wq_byTaskId (ad_queue a2) = []"
    using poll_granted[OF sample_quiet, of ?g1 2 ?d ws ?b env] release_only[OF assms(2)] assms(3)
    by (auto simp: request_of_def call_of_def purge_nothing)
  let ?b2 = "releaseModelTurnAdmission ws r2 a2"
  let ?g2 = "\<lparr>ns_leases = [?P None 0, ?C ?c, ?C ?d], ns_activeByTaskId = [(''p'', 0)],
      ns_calls = [InTurn 0 None, Reacquiring 0, Reacquiring 0], ns_trace = tr @ [Give r, Take r2, Give r2]\<rparr>"
  have 3: "turn_do env ws (Done 2) (apply_gate ws (Obtain 2 r2) \<lparr>gd_nest = ?g1, gd_admission = a2\<rparr>)
      = \<lparr>gd_nest = ?g2, gd_admission = ?b2\<rparr>"
    by (simp add: piece_simps trim_p Let_def)
  obtain r3 a3 where 4: "turn_do env ws (Poll 1 sample_inputs) \<lparr>gd_nest = ?g2, gd_admission = ?b2\<rparr>
      = apply_gate ws (Obtain 1 r3) \<lparr>gd_nest = ?g2, gd_admission = a3\<rparr>" "task_of r3 = ''p''"
    "ad_active a3 = [(ws, [r3])]" "wq_byTaskId (ad_queue a3) = []"
    using poll_granted[OF sample_quiet, of ?g2 1 "?p\<lparr>tr_parentReacquire := True\<rparr>" ws ?b2 env] release_only[OF 2(2)] 2(3)
    by (auto simp: request_of_def call_of_def purge_nothing)
  let ?g3 = "\<lparr>ns_leases = [?P (Some r3) 0, ?C ?c, ?C ?d], ns_activeByTaskId = [(''p'', 0)],
      ns_calls = [InTurn 0 None, Ended, Reacquiring 0], ns_trace = tr @ [Give r, Take r2, Give r2, Take r3]\<rparr>"
  have 5: "apply_gate ws (Obtain 1 r3) \<lparr>gd_nest = ?g2, gd_admission = a3\<rparr> = \<lparr>gd_nest = ?g3, gd_admission = a3\<rparr>"
    by (simp add: piece_simps Let_def)
  have "ad_active (purge_reacquire ws (?p\<lparr>tr_parentReacquire := True\<rparr>) a3) = []"
    using 4(2,3) by (simp add: purge_reacquire_def active_of_def set_active_def)
  then obtain r4 a4 where 6: "turn_do env ws (Poll 2 sample_inputs) \<lparr>gd_nest = ?g3, gd_admission = a3\<rparr>
      = apply_gate ws (Obtain 2 r4) \<lparr>gd_nest = ?g3, gd_admission = a4\<rparr>"
    "ad_active a4 = [(ws, [r4])]" "wq_byTaskId (ad_queue a4) = []"
    using poll_granted[OF sample_quiet, of ?g3 2 "?p\<lparr>tr_parentReacquire := True\<rparr>" ws a3 env] 4(4)
    by (auto simp: request_of_def call_of_def)
  let ?b4 = "releaseModelTurnAdmission ws r4 a4"
  let ?g4 = "\<lparr>ns_leases = [?P (Some r3) 0, ?C ?c, ?C ?d], ns_activeByTaskId = [(''p'', 0)],
      ns_calls = [InTurn 0 None, Ended, Ended, Acquiring ?q None],
      ns_trace = tr @ [Give r, Take r2, Give r2, Take r3, Take r4, Give r4, Freed]\<rparr>"
  have 7: "turn_do env ws (Start ?q) (apply_gate ws (Obtain 2 r4) \<lparr>gd_nest = ?g3, gd_admission = a4\<rparr>)
      = \<lparr>gd_nest = ?g4, gd_admission = ?b4\<rparr>"
    by (simp add: piece_simps Let_def)
  obtain r5 a5 where 8: "turn_do env ws (Poll 3 sample_inputs) \<lparr>gd_nest = ?g4, gd_admission = ?b4\<rparr>
      = apply_gate ws (Obtain 3 r5) \<lparr>gd_nest = ?g4, gd_admission = a5\<rparr>" "task_of r5 = ''q''" "ad_active a5 = [(ws, [r5])]"
    using poll_granted[OF sample_quiet, of ?g4 3 ?q ws ?b4 env] release_only[OF 6(2)] 6(3)
    by (auto simp: request_of_def call_of_def purge_nothing)
  have "fold (turn_do env ws) double_reacquire s = apply_gate ws (Obtain 3 r5) \<lparr>gd_nest = ?g4, gd_admission = a5\<rparr>"
    using 1 unfolding double_reacquire_def by (simp only: fold.simps comp_apply id_apply 2(1) 3 4(1) 5 6(1) 7 8(1))
  then show ?thesis using 4(2) 8(2,3) by (simp add: turns_held_def piece_simps Let_def)
qed

lemma double_reacquire_overbooks:
  "let t = fold (turn_do env ws) ([Start (sample_turn ''p''), Poll 0 sample_inputs, Start (child_of ''p'' ''c''),
       Poll 1 sample_inputs] @ double_reacquire) quiet_start in
     turns_held t = [''q''] \<and> ns_calls (gd_nest t) = [InTurn 0 None, Ended, Ended, InTurn 3 None]
     \<and> map (map_option task_of \<circ> ln_reservation) (ns_leases (gd_nest t)) = [Some ''p'', None, None, Some ''q'']"
proof -
  have c: "awaited_by (child_of ''p'' ''c'') (sample_turn ''p'')" by (simp add: awaited_by_def trim_p or_null_def)
  obtain r a where 1: "fold (turn_do env ws) [Start (sample_turn ''p''), Poll 0 sample_inputs] quiet_start
     = \<lparr>gd_nest = \<lparr>ns_leases = [\<lparr>ln_request = sample_turn ''p'', ln_reservation = Some r, ln_nestedTurnCount = 0, ln_closed = False\<rparr>],
          ns_activeByTaskId = [(''p'', 0)], ns_calls = [InTurn 0 None], ns_trace = [Take r]\<rparr>, gd_admission = a\<rparr>"
     "ad_active a = [(ws, [r])]" "wq_byTaskId (ad_queue a) = []"
    using first_turn[OF sample_quiet, of env ws "sample_turn ''p''"] unfolding sample_tasks by blast
  have f: "fold f (xs @ ys @ zs) x = fold f zs (fold f ys (fold f xs x))" for f xs ys zs and x :: gated by simp
  have l: "[Start (sample_turn ''p''), Poll 0 sample_inputs, Start (child_of ''p'' ''c''), Poll 1 sample_inputs] @ double_reacquire
    = [Start (sample_turn ''p''), Poll 0 sample_inputs] @ [Start (child_of ''p'' ''c''), Poll 1 sample_inputs] @ double_reacquire" by simp
  from child_turn[OF sample_quiet c 1(2,3), of env "[Take r]", unfolded sample_tasks] show ?thesis
    unfolding l f 1(1) using double_reacquire_from by blast
qed

end
