(* ===== verification/StartQueue.thy ===== *)
theory StartQueue
  imports ReadyOrder ConcurrencyConfig ModelIdentity
begin

text \<open>
  The queue of task starts that wait for a busy endpoint (\<^verbatim>\<open>src/trpc/runtime-task-start-queue.ts\<close>) and the drains that
  take them out again (\<^verbatim>\<open>drainQueuedTaskStarts\<close>, \<^verbatim>\<open>scheduleQueuedTaskStartDrain\<close> and \<^verbatim>\<open>scheduledTaskStartQueue\<close> of
  \<^verbatim>\<open>src/server/runtime-server.ts\<close>). The members of a start request that the queue only carries are the type
  parameter; copying them is the identity. The snapshots handed to \<^verbatim>\<open>onChange\<close>, which are written to disk, are kept in
  a list. \<^verbatim>\<open>localeCompare\<close> is the argument \<open>lc\<close>; the text of the stored file is not modelled.
\<close>

section \<open>Entries\<close>

record workspace_scope =
  sc_workspaceId :: string
  sc_workspacePath :: string

record 'r start_request =
  sr_taskId :: string
  sr_queueOnEndpointBusy :: "bool option"
  sr_members :: 'r

record 'r queued_start =
  qs_workspaceScope :: workspace_scope
  qs_input :: "'r start_request"
  qs_queuedAt :: jsnum
  qs_nextAttemptAt :: jsnum
  qs_attempts :: nat
  qs_lastError :: "string option"
  qs_exhausted :: "bool option"

record 'r start_queue =
  tq_maxAttempts :: jsnum
  tq_byKey :: "(string, 'r queued_start) omap"
  tq_saved :: "'r queued_start list list"

definition DEFAULT_MAX_QUEUED_START_ATTEMPTS :: jsnum where
  "DEFAULT_MAX_QUEUED_START_ATTEMPTS = Fin 50"

definition cloneQueuedRequest :: "'r start_request \<Rightarrow> 'r start_request" where
  "cloneQueuedRequest rq = rq\<lparr>sr_queueOnEndpointBusy := Some True\<rparr>"

definition createQueueKey :: "string \<Rightarrow> string \<Rightarrow> string" where
  "createQueueKey ws t = ws @ [CHR 0x00] @ t"

definition createRuntimeTaskStartQueue :: "jsnum option \<Rightarrow> 'r start_queue" where
  "createRuntimeTaskStartQueue maxAttempts =
     \<lparr>tq_maxAttempts = js_max (Fin 1) (js_trunc (or_else maxAttempts DEFAULT_MAX_QUEUED_START_ATTEMPTS)),
      tq_byKey = [], tq_saved = []\<rparr>"

text \<open>A copy of an entry; \<^verbatim>\<open>exhausted\<close> is never copied.\<close>

definition copy_entry :: "'r queued_start \<Rightarrow> 'r queued_start" where
  "copy_entry e = e\<lparr>qs_input := cloneQueuedRequest (qs_input e), qs_exhausted := None\<rparr>"

definition buildSnapshot :: "'r start_queue \<Rightarrow> 'r queued_start list" where
  "buildSnapshot q = map (\<lambda>e. copy_entry (snd e)) (tq_byKey q)"

definition emitChange :: "'r start_queue \<Rightarrow> 'r start_queue" where
  "emitChange q = q\<lparr>tq_saved := tq_saved q @ [buildSnapshot q]\<rparr>"

definition delete_start :: "string \<Rightarrow> 'r start_queue \<Rightarrow> 'r start_queue" where
  "delete_start k q =
     (if map_of (tq_byKey q) k \<noteq> None then emitChange (q\<lparr>tq_byKey := omap_delete k (tq_byKey q)\<rparr>) else q)"

section \<open>Operations\<close>

record 'r enqueue_input =
  ei_workspaceScope :: workspace_scope
  ei_request :: "'r start_request"
  ei_delayMs :: "jsnum option"
  ei_error :: "string option"

definition fallbackDelayMs :: "nat \<Rightarrow> jsnum" where
  "fallbackDelayMs attemptsSoFar = js_min (js_of_nat (2000 * 2 ^ attemptsSoFar)) (Fin 30000)"

definition start_delay :: "jsnum option \<Rightarrow> nat \<Rightarrow> jsnum" where
  "start_delay d attemptsSoFar =
     (case d of
        Some n \<Rightarrow> (if js_isFinite n \<and> js_gt n (Fin 0) then js_trunc n else fallbackDelayMs attemptsSoFar)
      | None \<Rightarrow> fallbackDelayMs attemptsSoFar)"

definition enqueue_start :: "jsnum \<Rightarrow> 'r enqueue_input \<Rightarrow> 'r start_queue \<Rightarrow> 'r queued_start \<times> 'r start_queue" where
  "enqueue_start now i q =
     (let key = createQueueKey (sc_workspaceId (ei_workspaceScope i)) (sr_taskId (ei_request i));
          existing = map_of (tq_byKey q) key;
          attemptsSoFar = (case existing of None \<Rightarrow> 0 | Some e \<Rightarrow> qs_attempts e);
          queuedAt = (case existing of None \<Rightarrow> now | Some e \<Rightarrow> qs_queuedAt e);
          lastError = (case ei_error i of Some err \<Rightarrow> Some err | None \<Rightarrow> Option.bind existing qs_lastError)
      in if js_gt (js_of_nat (attemptsSoFar + 1)) (tq_maxAttempts q)
         then (\<lparr>qs_workspaceScope = ei_workspaceScope i, qs_input = cloneQueuedRequest (ei_request i), qs_queuedAt = queuedAt,
                qs_nextAttemptAt = now, qs_attempts = attemptsSoFar + 1, qs_lastError = lastError, qs_exhausted = Some True\<rparr>,
               delete_start key q)
         else (let e = \<lparr>qs_workspaceScope = ei_workspaceScope i, qs_input = cloneQueuedRequest (ei_request i),
                        qs_queuedAt = queuedAt, qs_nextAttemptAt = js_add now (start_delay (ei_delayMs i) attemptsSoFar),
                        qs_attempts = attemptsSoFar + 1, qs_lastError = lastError, qs_exhausted = None\<rparr>
               in (e, emitChange (q\<lparr>tq_byKey := omap_set key e (tq_byKey q)\<rparr>))))"

definition remove_start :: "string \<Rightarrow> string \<Rightarrow> 'r start_queue \<Rightarrow> 'r start_queue" where
  "remove_start ws t q = delete_start (createQueueKey ws t) q"

definition of_workspace :: "string \<Rightarrow> 'r queued_start \<Rightarrow> bool" where
  "of_workspace ws e \<longleftrightarrow> sc_workspaceId (qs_workspaceScope e) = ws"

definition is_due :: "bool \<Rightarrow> jsnum \<Rightarrow> 'r queued_start \<Rightarrow> bool" where
  "is_due force now e \<longleftrightarrow> force \<or> \<not> js_gt (qs_nextAttemptAt e) now"

definition oldest_first :: "(string \<Rightarrow> string \<Rightarrow> int) \<Rightarrow> 'r queued_start \<Rightarrow> 'r queued_start \<Rightarrow> bool" where
  "oldest_first lc a b =
     (let d = js_sub (qs_queuedAt a) (qs_queuedAt b) in
      if js_eq d (Fin 0) \<or> d = NaN then lc (sr_taskId (qs_input a)) (sr_taskId (qs_input b)) \<le> 0 else js_lt d (Fin 0))"

definition takeReady :: "(string \<Rightarrow> string \<Rightarrow> int) \<Rightarrow> string \<Rightarrow> bool \<Rightarrow> jsnum \<Rightarrow> 'r start_queue \<Rightarrow> 'r queued_start list \<times> 'r start_queue" where
  "takeReady lc ws force now q =
     (let taken = (\<lambda>e. of_workspace ws (snd e) \<and> is_due force now (snd e));
          ready = map snd (filter taken (tq_byKey q));
          q' = q\<lparr>tq_byKey := filter (\<lambda>e. \<not> taken e) (tq_byKey q)\<rparr>
      in (js_sort (oldest_first lc) ready, if ready \<noteq> [] then emitChange q' else q'))"

definition clearWorkspace :: "string \<Rightarrow> 'r start_queue \<Rightarrow> 'r start_queue" where
  "clearWorkspace ws q =
     (let q' = q\<lparr>tq_byKey := filter (\<lambda>e. \<not> of_workspace ws (snd e)) (tq_byKey q)\<rparr>
      in if list_ex (\<lambda>e. of_workspace ws (snd e)) (tq_byKey q) then emitChange q' else q)"

definition start_count :: "string option \<Rightarrow> 'r start_queue \<Rightarrow> nat" where
  "start_count ws q =
     (case Option.bind ws or_null of
        None \<Rightarrow> length (tq_byKey q) | Some w \<Rightarrow> length (filter (\<lambda>e. of_workspace w (snd e)) (tq_byKey q)))"

definition hydrate :: "'r queued_start list \<Rightarrow> 'r start_queue \<Rightarrow> 'r start_queue" where
  "hydrate es q = q\<lparr>tq_byKey := omap_of (map (\<lambda>e. (createQueueKey (sc_workspaceId (qs_workspaceScope e)) (sr_taskId (qs_input e)), copy_entry e)) es)\<rparr>"

section \<open>Drains\<close>

text \<open>A drain of a workspace waits for its microtask, or starts what it took, one after the other.\<close>

datatype 'r drain_work = Begin bool | Starting "'r queued_start list"

record 'r drains =
  dr_queue :: "'r start_queue"
  dr_timers :: "(string, jsnum) omap"
  dr_rerun :: "(string, bool) omap"
  dr_work :: "(string, 'r drain_work) omap"

text \<open>The set of workspaces with a drain in flight is the key set of \<open>dr_work\<close>.\<close>

definition drainQueuedTaskStarts :: "string \<Rightarrow> bool \<Rightarrow> 'r drains \<Rightarrow> 'r drains" where
  "drainQueuedTaskStarts ws force d =
     (if map_of (dr_work d) ws \<noteq> None
      then d\<lparr>dr_rerun := omap_set ws (force \<or> map_of (dr_rerun d) ws = Some True) (dr_rerun d)\<rparr>
      else d\<lparr>dr_timers := omap_delete ws (dr_timers d), dr_work := omap_set ws (Begin force) (dr_work d)\<rparr>)"

definition scheduleQueuedTaskStartDrain :: "jsnum \<Rightarrow> string \<Rightarrow> jsnum \<Rightarrow> 'r drains \<Rightarrow> 'r drains" where
  "scheduleQueuedTaskStartDrain now ws delayMs d =
     (let dueAt = js_add now (js_max (Fin 0) (js_trunc delayMs)) in
      case map_of (dr_timers d) ws of
        Some due \<Rightarrow> (if js_le due dueAt then d else d\<lparr>dr_timers := omap_set ws dueAt (dr_timers d)\<rparr>)
      | None \<Rightarrow> d\<lparr>dr_timers := omap_set ws dueAt (dr_timers d)\<rparr>)"

definition scheduled_enqueue :: "jsnum \<Rightarrow> 'r enqueue_input \<Rightarrow> 'r drains \<Rightarrow> 'r drains" where
  "scheduled_enqueue now i d =
     (case enqueue_start now i (dr_queue d) of (e, q) \<Rightarrow>
        (if qs_exhausted e = Some True then d\<lparr>dr_queue := q\<rparr>
         else scheduleQueuedTaskStartDrain now (sc_workspaceId (qs_workspaceScope e))
                (js_max (Fin 0) (js_sub (qs_nextAttemptAt e) now)) (d\<lparr>dr_queue := q\<rparr>)))"

text \<open>What starting one taken entry does to the queue: the endpoint is still busy (the request is queued again), the
  endpoint is free (the queue forgets the task), or the start is refused or throws before that.\<close>

datatype start_outcome = Busy "jsnum option" string | Admitted | Refused

definition start_next :: "jsnum \<Rightarrow> 'r queued_start \<Rightarrow> start_outcome \<Rightarrow> 'r drains \<Rightarrow> 'r drains" where
  "start_next now e out d =
     (case out of
        Busy delay err \<Rightarrow>
          (if sr_queueOnEndpointBusy (qs_input e) = Some True
           then scheduled_enqueue now \<lparr>ei_workspaceScope = qs_workspaceScope e, ei_request = qs_input e,
                  ei_delayMs = delay, ei_error = Some err\<rparr> d
           else d)
      | Admitted \<Rightarrow> d\<lparr>dr_queue := remove_start (sc_workspaceId (qs_workspaceScope e)) (sr_taskId (qs_input e)) (dr_queue d)\<rparr>
      | Refused \<Rightarrow> d)"

definition finish_drain :: "string \<Rightarrow> 'r drains \<Rightarrow> 'r drains" where
  "finish_drain ws d =
     (let d1 = d\<lparr>dr_work := omap_delete ws (dr_work d)\<rparr> in
      case map_of (dr_rerun d1) ws of
        None \<Rightarrow> d1
      | Some force \<Rightarrow> drainQueuedTaskStarts ws force (d1\<lparr>dr_rerun := omap_delete ws (dr_rerun d1)\<rparr>))"

text \<open>One event: a request to drain, the next piece of a drain in flight (with what its start came to), a timer, a start
  that has to wait, the removal of a task, the disposal of a workspace.\<close>

datatype 'r drain_op = Drain string bool | Piece string start_outcome | Timer string | Wait "'r enqueue_input"
  | Forget string string | Dispose string

definition drain_piece :: "(string \<Rightarrow> string \<Rightarrow> int) \<Rightarrow> jsnum \<Rightarrow> string \<Rightarrow> start_outcome \<Rightarrow> 'r drains \<Rightarrow> 'r drains" where
  "drain_piece lc now ws out d =
     (case map_of (dr_work d) ws of
        None \<Rightarrow> d
      | Some (Begin force) \<Rightarrow>
          (case takeReady lc ws force now (dr_queue d) of (es, q) \<Rightarrow>
             d\<lparr>dr_queue := q, dr_work := omap_set ws (Starting es) (dr_work d)\<rparr>)
      | Some (Starting []) \<Rightarrow> finish_drain ws d
      | Some (Starting (e # es)) \<Rightarrow> start_next now e out (d\<lparr>dr_work := omap_set ws (Starting es) (dr_work d)\<rparr>))"

definition drain_do :: "(string \<Rightarrow> string \<Rightarrow> int) \<Rightarrow> jsnum \<times> 'r drain_op \<Rightarrow> 'r drains \<Rightarrow> 'r drains" where
  "drain_do lc op d =
     (case op of (now, ev) \<Rightarrow>
        (case ev of
           Drain ws force \<Rightarrow> drainQueuedTaskStarts ws force d
         | Piece ws out \<Rightarrow> drain_piece lc now ws out d
         | Timer ws \<Rightarrow>
             (if map_of (dr_timers d) ws = None then d
              else drainQueuedTaskStarts ws False (d\<lparr>dr_timers := omap_delete ws (dr_timers d)\<rparr>))
         | Wait i \<Rightarrow> scheduled_enqueue now i d
         | Forget ws t \<Rightarrow> d\<lparr>dr_queue := remove_start ws t (dr_queue d)\<rparr>
         | Dispose ws \<Rightarrow> d\<lparr>dr_timers := omap_delete ws (dr_timers d), dr_queue := clearWorkspace ws (dr_queue d)\<rparr>))"

definition no_drains :: "'r start_queue \<Rightarrow> 'r drains" where
  "no_drains q = \<lparr>dr_queue = q, dr_timers = [], dr_rerun = [], dr_work = []\<rparr>"

definition replayPersistedQueuedTaskStarts :: "jsnum \<Rightarrow> 'r queued_start list \<Rightarrow> 'r drains \<Rightarrow> 'r drains" where
  "replayPersistedQueuedTaskStarts now es d =
     (if es = [] then d
      else fold (\<lambda>e. scheduleQueuedTaskStartDrain now (sc_workspaceId (qs_workspaceScope e))
               (js_max (Fin 0) (js_sub (qs_nextAttemptAt e) now))) es (d\<lparr>dr_queue := hydrate es (dr_queue d)\<rparr>))"

end
