(* ===== verification/StartProperties.thy ===== *)
theory StartProperties
  imports StartQueue
begin

text \<open>
  Properties of the queued task starts: the stored snapshot is the queue, a request to drain is served, and what the
  drains do to the retry budget and to starts that are not due yet.
\<close>

section \<open>The snapshot on disk\<close>

definition entry_key :: "'r queued_start \<Rightarrow> string" where
  "entry_key e = createQueueKey (sc_workspaceId (qs_workspaceScope e)) (sr_taskId (qs_input e))"

definition restored :: "'r queued_start list \<Rightarrow> (string, 'r queued_start) omap" where
  "restored es = omap_of (map (\<lambda>e. (entry_key e, copy_entry e)) es)"

lemma hydrate_restored: "hydrate es q = q\<lparr>tq_byKey := restored es\<rparr>"
  by (simp add: hydrate_def restored_def entry_key_def)

lemma copy_simps [simp]:
  "copy_entry (copy_entry e) = copy_entry e" "entry_key (copy_entry e) = entry_key e"
  by (simp_all add: copy_entry_def cloneQueuedRequest_def entry_key_def)

text \<open>Every entry stands under its key, once, in the form a snapshot gives it.\<close>

definition entries_ok :: "(string, 'r queued_start) omap \<Rightarrow> bool" where
  "entries_ok m \<longleftrightarrow> distinct (map fst m) \<and> (\<forall>e \<in> set m. fst e = entry_key (snd e) \<and> copy_entry (snd e) = snd e)"

lemma restored_snapshot: "entries_ok m \<Longrightarrow> restored (map (\<lambda>e. copy_entry (snd e)) m) = m"
proof -
  assume ok: "entries_ok m"
  have "map (\<lambda>e. (entry_key (copy_entry (snd e)), copy_entry (copy_entry (snd e)))) m = map (\<lambda>e. e) m"
    using ok by (intro map_cong) (auto simp: entries_ok_def)
  then have "restored (map (\<lambda>e. copy_entry (snd e)) m) = omap_of m" by (simp add: restored_def comp_def)
  then show ?thesis using ok by (simp add: entries_ok_def)
qed

lemma entries_ok_filter: "entries_ok m \<Longrightarrow> entries_ok (filter P m)"
  by (auto simp: entries_ok_def distinct_map_filter)

lemma entries_ok_set:
  assumes "entries_ok m" "k = entry_key e" "copy_entry e = e"
  shows "entries_ok (omap_set k e m)"
  using assms set_omap_set[of k e m] by (auto simp: entries_ok_def distinct_omap_set)

lemma entries_ok_fold:
  "entries_ok m \<Longrightarrow> entries_ok (fold (\<lambda>(k, v) m. omap_set k v m) (map (\<lambda>e. (entry_key e, copy_entry e)) es) m)"
proof (induction es arbitrary: m)
  case (Cons e es)
  have "entries_ok (omap_set (entry_key e) (copy_entry e) m)" using Cons.prems by (intro entries_ok_set) simp_all
  then show ?case using Cons.IH by simp
qed simp

lemma entries_ok_restored: "entries_ok (restored es)"
  unfolding restored_def omap_of_def by (rule entries_ok_fold) (simp add: entries_ok_def)

definition on_disk :: "'r queued_start list \<Rightarrow> 'r start_queue \<Rightarrow> 'r queued_start list" where
  "on_disk loaded q = last (loaded # tq_saved q)"

definition stored :: "'r queued_start list \<Rightarrow> 'r start_queue \<Rightarrow> bool" where
  "stored loaded q \<longleftrightarrow> entries_ok (tq_byKey q) \<and> restored (on_disk loaded q) = tq_byKey q"

lemma stored_emit: "entries_ok (tq_byKey q) \<Longrightarrow> stored loaded (emitChange q)"
  by (simp add: stored_def emitChange_def on_disk_def buildSnapshot_def restored_snapshot)

lemma stored_delete: "stored l q \<Longrightarrow> stored l (delete_start k q)"
  by (auto simp: delete_start_def omap_delete_def stored_def entries_ok_filter intro!: stored_emit[unfolded stored_def])

lemma stored_enqueue: "stored l q \<Longrightarrow> stored l (snd (enqueue_start now i q))"
proof -
  assume q: "stored l q"
  show ?thesis
    unfolding enqueue_start_def Let_def if_distrib[of snd] snd_conv
    by (simp add: stored_delete[OF q])
      (auto intro!: stored_emit entries_ok_set simp: entry_key_def copy_entry_def cloneQueuedRequest_def q[unfolded stored_def])
qed

lemma stored_take: "stored l q \<Longrightarrow> stored l (snd (takeReady lc ws force now q))"
proof -
  assume q: "stored l q"
  let ?taken = "\<lambda>e. of_workspace ws (snd e) \<and> is_due force now (snd e)"
  show ?thesis
  proof (cases "filter ?taken (tq_byKey q) = []")
    case True
    then have "filter (\<lambda>e. \<not> ?taken e) (tq_byKey q) = tq_byKey q" by (simp add: filter_empty_conv filter_id_conv)
    with True q show ?thesis by (simp add: takeReady_def Let_def)
  next
    case False
    then show ?thesis using q by (simp add: takeReady_def Let_def stored_emit entries_ok_filter stored_def[of l q])
  qed
qed

lemma stored_clear: "stored l q \<Longrightarrow> stored l (clearWorkspace ws q)"
  by (auto simp: clearWorkspace_def Let_def stored_def entries_ok_filter intro!: stored_emit[unfolded stored_def])

lemma queue_frames [simp]:
  "dr_queue (drainQueuedTaskStarts ws f d) = dr_queue d"
  "dr_queue (scheduleQueuedTaskStartDrain now ws n d) = dr_queue d"
  "dr_queue (finish_drain ws d) = dr_queue d"
  by (simp_all add: drainQueuedTaskStarts_def scheduleQueuedTaskStartDrain_def finish_drain_def Let_def split: option.splits)

lemma stored_wait: "stored l (dr_queue d) \<Longrightarrow> stored l (dr_queue (scheduled_enqueue now i d))"
  using stored_enqueue[of l "dr_queue d" now i] by (auto simp: scheduled_enqueue_def split: prod.splits)

lemma stored_do: "stored l (dr_queue d) \<Longrightarrow> stored l (dr_queue (drain_do lc op d))"
  using stored_take[of l "dr_queue d" lc]
  by (auto simp: drain_do_def drain_piece_def start_next_def remove_start_def stored_delete stored_clear stored_wait
      split: prod.splits drain_op.splits option.splits drain_work.splits list.splits start_outcome.splits)
     (metis snd_conv)+

interpretation start_store: invariant_system "drain_do lc" "\<lambda>e d. True" "\<lambda>d. stored l (dr_queue d)"
  by unfold_locales (rule stored_do)

text \<open>C39. Whatever starts wait, drains run, starts are refused, admitted or found busy, and workspaces are disposed, after
  a queue was restored from its file: the last stored snapshot restores exactly the queue, entry for entry, in order.\<close>

theorem start_queue_on_disk:
  "let fresh = createRuntimeTaskStartQueue mx;
       q = dr_queue (fold (drain_do lc) ops (replayPersistedQueuedTaskStarts now loaded (no_drains fresh)))
   in hydrate (on_disk loaded q) fresh = fresh\<lparr>tq_byKey := tq_byKey q\<rparr>"
proof -
  let ?fresh = "createRuntimeTaskStartQueue mx"
  have timers: "dr_queue (fold (\<lambda>e. scheduleQueuedTaskStartDrain now (f e) (g e)) es d) = dr_queue d" for f g es and d :: "'a drains"
    by (induction es arbitrary: d) simp_all
  have "tq_byKey (dr_queue (replayPersistedQueuedTaskStarts now loaded (no_drains ?fresh))) = restored loaded"
    "tq_saved (dr_queue (replayPersistedQueuedTaskStarts now loaded (no_drains ?fresh))) = []"
    by (simp_all add: replayPersistedQueuedTaskStarts_def timers hydrate_restored no_drains_def createRuntimeTaskStartQueue_def
        restored_def omap_of_def)
  then have "stored loaded (dr_queue (replayPersistedQueuedTaskStarts now loaded (no_drains ?fresh)))"
    by (simp add: stored_def on_disk_def entries_ok_restored)
  then have "stored loaded (dr_queue (fold (drain_do lc) ops (replayPersistedQueuedTaskStarts now loaded (no_drains ?fresh))))"
    by (rule start_store.fold_inv[rotated]) simp
  then show ?thesis unfolding Let_def hydrate_restored stored_def by simp
qed

section \<open>Requests to drain\<close>

text \<open>A drain with force is owed to a workspace: asked for during a drain in flight, or waiting for its microtask.\<close>

definition owed :: "string \<Rightarrow> 'r drains \<Rightarrow> bool" where
  "owed ws d \<longleftrightarrow> map_of (dr_rerun d) ws = Some True \<or> map_of (dr_work d) ws = Some (Begin True)"

definition waiting_starts :: "string \<Rightarrow> 'r drains \<Rightarrow> 'r queued_start list" where
  "waiting_starts ws d = map snd (filter (\<lambda>e. of_workspace ws (snd e)) (tq_byKey (dr_queue d)))"

definition all_taken :: "string \<Rightarrow> 'r drains \<Rightarrow> 'r drains \<Rightarrow> bool" where
  "all_taken ws d d' \<longleftrightarrow> waiting_starts ws d' = []
     \<and> (\<exists>es. map_of (dr_work d') ws = Some (Starting es) \<and> mset es = mset (waiting_starts ws d))"

definition request_kept :: "(string \<Rightarrow> string \<Rightarrow> int) \<Rightarrow> string \<Rightarrow> 'r drains \<Rightarrow> bool" where
  "request_kept lc ws d \<longleftrightarrow>
     (\<forall>now. owed ws (drain_do lc (now, Drain ws True) d))
     \<and> (owed ws d \<longrightarrow> (\<forall>op. owed ws (drain_do lc op d) \<or> all_taken ws d (drain_do lc op d)))
     \<and> (map_of (dr_rerun d) ws \<noteq> None \<longrightarrow> map_of (dr_work d) ws \<noteq> None)"

lemma drain_owed: "owed ws (drainQueuedTaskStarts ws True d)"
  by (simp add: drainQueuedTaskStarts_def owed_def)

lemma drain_keeps: "owed ws d \<Longrightarrow> owed ws (drainQueuedTaskStarts ws' f d)"
  by (auto simp: drainQueuedTaskStarts_def owed_def)

lemma work_frames [simp]:
  "dr_rerun (scheduled_enqueue now i d) = dr_rerun d" "dr_work (scheduled_enqueue now i d) = dr_work d"
  "dr_rerun (start_next now e out d) = dr_rerun d" "dr_work (start_next now e out d) = dr_work d"
  by (auto simp: scheduled_enqueue_def scheduleQueuedTaskStartDrain_def start_next_def Let_def
      split: prod.splits option.splits start_outcome.splits)

lemma forced_take:
  "map_of (dr_work d) ws = Some (Begin True) \<Longrightarrow> all_taken ws d (drain_piece lc now ws out d)"
  by (auto simp: drain_piece_def takeReady_def all_taken_def waiting_starts_def is_due_def emitChange_def Let_def filter_empty_conv
      cong: conj_cong)

lemma piece_keeps:
  assumes "owed ws d"
  shows "owed ws (drain_piece lc now ws' out d) \<or> all_taken ws d (drain_piece lc now ws' out d)"
proof (cases "ws' = ws")
  case True
  show ?thesis
  proof (cases "map_of (dr_work d) ws = Some (Begin True)")
    case True
    with forced_take \<open>ws' = ws\<close> show ?thesis by blast
  next
    case False
    with assms have r: "map_of (dr_rerun d) ws = Some True" by (simp add: owed_def)
    then have "owed ws (finish_drain ws d)" using drain_owed[of ws] by (simp add: finish_drain_def Let_def)
    with r \<open>ws' = ws\<close> show ?thesis
      by (auto simp: drain_piece_def owed_def split: option.splits drain_work.splits list.splits prod.splits)
  qed
next
  case False
  then have "owed ws (finish_drain ws' d)"
    using assms drain_keeps[of ws "d\<lparr>dr_work := omap_delete ws' (dr_work d), dr_rerun := omap_delete ws' (dr_rerun d)\<rparr>"]
    by (auto simp: finish_drain_def owed_def Let_def split: option.splits)
  with False assms show ?thesis
    by (auto simp: drain_piece_def owed_def split: option.splits drain_work.splits list.splits prod.splits)
qed

lemma op_keeps:
  assumes "owed ws d"
  shows "owed ws (drain_do lc op d) \<or> all_taken ws d (drain_do lc op d)"
proof -
  have "owed ws (d\<lparr>dr_timers := t\<rparr>)" "owed ws (d\<lparr>dr_queue := q\<rparr>)" "owed ws (d\<lparr>dr_timers := t, dr_queue := q\<rparr>)" for t q
    using assms by (simp_all add: owed_def)
  moreover have "owed ws (scheduled_enqueue now i d)" for now i using assms by (simp add: owed_def)
  ultimately show ?thesis
    using assms piece_keeps[OF assms] by (auto simp: drain_do_def drain_keeps split: prod.splits drain_op.splits)
qed

definition reruns_ok :: "'r drains \<Rightarrow> bool" where
  "reruns_ok d \<longleftrightarrow> (\<forall>ws. map_of (dr_rerun d) ws \<noteq> None \<longrightarrow> map_of (dr_work d) ws \<noteq> None)"

lemma reruns_drain: "reruns_ok d \<Longrightarrow> reruns_ok (drainQueuedTaskStarts ws f d)"
  by (auto simp: reruns_ok_def drainQueuedTaskStarts_def)

lemma reruns_finish: "reruns_ok d \<Longrightarrow> reruns_ok (finish_drain ws d)"
  by (auto simp: finish_drain_def Let_def reruns_ok_def drainQueuedTaskStarts_def split: option.splits)

lemma reruns_do: "reruns_ok d \<Longrightarrow> reruns_ok (drain_do lc op d)"
proof -
  assume d: "reruns_ok d"
  have f: "reruns_ok (d\<lparr>dr_timers := t\<rparr>)" "reruns_ok (d\<lparr>dr_queue := q\<rparr>)" "reruns_ok (d\<lparr>dr_timers := t, dr_queue := q\<rparr>)"
    "reruns_ok (scheduled_enqueue now i d)" for t q now i
    using d by (simp_all add: reruns_ok_def)
  have "reruns_ok (drain_piece lc now ws out d)" for now ws out
    using d reruns_finish[OF d] by (auto simp: drain_piece_def reruns_ok_def split: option.splits drain_work.splits list.splits prod.splits)
  with f d show ?thesis by (auto simp: drain_do_def reruns_drain split: prod.splits drain_op.splits)
qed

interpretation drain_runs: invariant_system "drain_do lc" "\<lambda>e d. True" reruns_ok
  by unfold_locales (rule reruns_do)

text \<open>C40. In every state that any events lead to: a request for a forced drain is owed from then on, whatever happens,
  until a drain has taken all starts that the workspace has waiting; and a request that waits does so behind a drain that
  is in flight.\<close>

theorem forced_drain_kept:
  "request_kept lc ws (fold (drain_do lc) ops (no_drains q))"
proof -
  have "reruns_ok (fold (drain_do lc) ops (no_drains q))"
    by (rule drain_runs.fold_inv) (simp_all add: reruns_ok_def no_drains_def)
  moreover have "owed ws (drain_do lc (now, Drain ws True) d)" for now d by (simp add: drain_do_def drain_owed)
  ultimately show ?thesis
    unfolding request_kept_def reruns_ok_def using op_keeps by blast
qed

section \<open>What the drains do to a start\<close>

text \<open>A drain takes an entry out of the queue before it starts it; if the endpoint is still busy, the entry is made anew,
  with its first attempt and its shortest delay.\<close>

definition busy_round :: "string \<Rightarrow> string \<Rightarrow> jsnum \<Rightarrow> (jsnum \<times> 'r drain_op) list" where
  "busy_round ws err now = [(now, Drain ws True), (now, Piece ws Refused), (now, Piece ws (Busy None err)), (now, Piece ws Refused)]"

definition one_start :: "string \<Rightarrow> 'r queued_start \<Rightarrow> 'r drains \<Rightarrow> bool" where
  "one_start ws e d \<longleftrightarrow> of_workspace ws e \<and> sr_queueOnEndpointBusy (qs_input e) = Some True
     \<and> tq_byKey (dr_queue d) = [(entry_key e, e)] \<and> js_ge (tq_maxAttempts (dr_queue d)) (Fin 1)
     \<and> dr_work d = [] \<and> dr_rerun d = []"

lemma busy_round_restarts:
  assumes "one_start ws e d"
  shows "\<exists>e'. one_start ws e' (fold (drain_do lc) (busy_round ws err now) d)
    \<and> qs_attempts e' = 1 \<and> qs_nextAttemptAt e' = js_add now (Fin 2000) \<and> qs_queuedAt e' = now"
proof -
  let ?e = "\<lparr>qs_workspaceScope = qs_workspaceScope e, qs_input = cloneQueuedRequest (qs_input e), qs_queuedAt = now,
     qs_nextAttemptAt = js_add now (Fin 2000), qs_attempts = 1, qs_lastError = Some err, qs_exhausted = None\<rparr>"
  have max: "\<not> js_gt (js_of_nat (0 + 1)) (tq_maxAttempts (dr_queue d))"
    using assms by (cases "tq_maxAttempts (dr_queue d)") (auto simp: one_start_def js_order_defs)
  have delay: "start_delay None 0 = Fin 2000" by (simp add: start_delay_def fallbackDelayMs_def)
  show ?thesis
    by (rule exI[of _ ?e])
      (use assms max in \<open>simp add: one_start_def busy_round_def drain_do_def drainQueuedTaskStarts_def drain_piece_def takeReady_def
        is_due_def of_workspace_def start_next_def scheduled_enqueue_def enqueue_start_def emitChange_def finish_drain_def
        scheduleQueuedTaskStartDrain_def entry_key_def cloneQueuedRequest_def delay Let_def split: option.splits\<close>)
qed

lemma retry_budget_never_spent:
  assumes "one_start ws e d" "nows \<noteq> []"
  shows "\<exists>e'. one_start ws e' (fold (drain_do lc) (concat (map (busy_round ws err) nows)) d)
    \<and> qs_attempts e' = 1 \<and> qs_nextAttemptAt e' = js_add (last nows) (Fin 2000)"
  using assms(2,1)
proof (induction nows arbitrary: d e rule: list_nonempty_induct)
  case (single t)
  then show ?case using busy_round_restarts[of ws e d lc err t] by auto
next
  case (cons t ts)
  obtain e' where "one_start ws e' (fold (drain_do lc) (busy_round ws err t) d)"
    using busy_round_restarts[OF cons.prems, of lc err t] by blast
  from cons.IH[OF this] cons.hyps show ?case by simp
qed

definition late_start :: "string \<Rightarrow> rat \<Rightarrow> unit queued_start" where
  "late_start t due = \<lparr>qs_workspaceScope = \<lparr>sc_workspaceId = ''w'', sc_workspacePath = ''/w''\<rparr>,
     qs_input = \<lparr>sr_taskId = t, sr_queueOnEndpointBusy = Some True, sr_members = ()\<rparr>, qs_queuedAt = Fin 0,
     qs_nextAttemptAt = Fin due, qs_attempts = 1, qs_lastError = None, qs_exhausted = None\<rparr>"

text \<open>Two starts are restored at boot. One timer is armed, for the first; its drain takes what is due and arms no other,
  so the second start waits with no timer, no drain in flight and no request.\<close>

definition restored_pair :: "unit drains" where
  "restored_pair = replayPersistedQueuedTaskStarts (Fin 0) [late_start ''a'' 2000, late_start ''b'' 10000]
     (no_drains (createRuntimeTaskStartQueue None))"

lemma delayed_start_stranded:
  "let d = fold (drain_do code_unit_compare) [(Fin 2000, Timer ''w''), (Fin 2000, Piece ''w'' Refused),
       (Fin 2000, Piece ''w'' Admitted), (Fin 2000, Piece ''w'' Refused)] restored_pair
   in map (\<lambda>e. sr_taskId (qs_input e)) (waiting_starts ''w'' d) = [''b''] \<and> dr_timers d = [] \<and> dr_work d = [] \<and> dr_rerun d = []"
  by code_simp

text \<open>While a taken start is being tried, the stored snapshot no longer has it; when its start throws, nothing has.\<close>

lemma taken_start_not_stored:
  "let d = fold (drain_do code_unit_compare) [(Fin 2000, Timer ''w''), (Fin 2000, Piece ''w'' Refused)] restored_pair
   in dr_work d = [(''w'', Starting [late_start ''a'' 2000])]
      \<and> map (\<lambda>e. sr_taskId (qs_input e)) (on_disk [] (dr_queue d)) = [''b'']"
  by code_simp

end
