(* ===== verification/Spec2Isabelle.thy ===== *)
theory Spec2Isabelle
  imports DurableProperties2 DurableProperties3 BoardProperties PortableProperties GateProperties
    ControlProperties WorkProperties ReviewProperties ReservationProperties RetryProperties
    SubtaskDagProperties TurnProperties NestedProperties StartProperties
begin

text \<open>
  \<^bold>\<open>A verification development for the orchestration core.\<close>

  \<^bold>\<open>The program.\<close> The repository is an agent workspace: a kanban board of task cards, a runtime that
  decomposes work into cards, runs worker and reviewer sessions on local models, and delivers their
  results. The development covers the decisions of that runtime: what is started, when, in which order,
  what is refused, and what survives a crash or a merge. It is a shallow embedding: every operation is a
  HOL function over an explicit state, an effect is an entry of a trace, an error is a value.

  \<^bold>\<open>How the parts interact.\<close>
  \<^item> A \<^emph>\<open>durable run\<close> turns the cards of a workspace into a job graph. The scheduler decides the actions of
    a tick, the controller appends them to a log before it dispatches them and applies worker reports; the
    registry maps session states to reports, the ledger bridge stores and replays the log, the admission
    planner decides which ready jobs a wake may lease, and the wiring composes all of them.
  \<^item> The \<^emph>\<open>board\<close> holds the cards in lanes with dependency edges; its mutations keep the graph acyclic and
    release the dependents of a finished card. The \<^emph>\<open>portable board\<close> replicates it between machines.
  \<^item> The \<^emph>\<open>tool gates\<close> decide what a chat call may do: the manifest of a tool, the mode gate, the taint of the
    context, the egress rule, the broker over all of these, the grants an operator has given, and the
    executor that runs a call through them.
  \<^item> The \<^emph>\<open>controllers\<close> decide what happens next to one card: the phase ladder of a run, the workflow kernel
    and the command queue that persists its transitions.
  \<^item> The \<^emph>\<open>decomposition validator\<close> checks the dependency graph of a plan and measures its shape; the
    \<^emph>\<open>work-package planners\<close> decide which packages run side by side and in which order the results are merged.
  \<^item> The \<^emph>\<open>second-opinion review\<close> drives the reviewer sessions of a finished card and turns a verdict into a
    delivery, a bounce to the worker, an escalation or a park.
  \<^item> The \<^emph>\<open>dispatch reservations\<close> hold what a dispatched card will consume until its session shows, and the
    admission planner sees them. The \<^emph>\<open>adaptive retry\<close> learns from every attempt of a model how often and with
    which remedy a failed turn is run again.
  \<^item> The \<^emph>\<open>turn admission\<close> decides when a model turn of any session may run: the settings give the caps, the host map
    the machine of a model, the endpoint scheduler asks five gates, a queue keeps waiting turns in order, and the
    nested gate hands the slot of a turn to the turns it awaits. A task start that finds its endpoint busy waits in
    the \<^emph>\<open>start queue\<close>, which is stored on every change, until a drain of its workspace tries it again.

  \<^bold>\<open>Theories and sources\<close> (files under \<^verbatim>\<open>src/src/core\<close> where no directory is named).
  \<^item> \<open>Prelude\<close>, \<open>JsNumber\<close>, \<open>JsValue\<close>, \<open>Text\<close>, \<open>RuntimeText\<close>, \<open>TextParts\<close>: the parts of the language's library the
    source uses (maps and sets in insertion order, stable sort, numbers with infinities and \<^verbatim>\<open>NaN\<close>, JSON
    values, decimal and JSON text, splitting and joining), and the interfaces \<open>keyed_store\<close> and
    \<open>invariant_system\<close>. \<open>RuntimeText\<close> also models \<^verbatim>\<open>env-flag.ts\<close> and \<^verbatim>\<open>transient-error.ts\<close>.
  \<^item> \<open>DurableJobs\<close>, \<open>DurableScheduler\<close>, \<open>DurableGraph\<close>: \<^verbatim>\<open>durable-scheduler.ts\<close>. \<open>ReadyOrder\<close>:
    \<^verbatim>\<open>durable-scheduler-ready-order.ts\<close>. \<open>AttemptKey\<close>: \<^verbatim>\<open>attempt-idempotency-key.ts\<close>,
    \<^verbatim>\<open>durable-lease-idempotency.ts\<close>. \<open>DurableController\<close>: \<^verbatim>\<open>durable-run-controller.ts\<close>. \<open>DurableLedger\<close>:
    \<^verbatim>\<open>durable-scheduler-ledger.ts\<close>. \<open>DurableRegistry\<close>: \<^verbatim>\<open>durable-run-registry.ts\<close>, \<^verbatim>\<open>durable-run-reaction.ts\<close>,
    \<^verbatim>\<open>durable-lease-heartbeat.ts\<close>. \<open>Admission\<close>: \<^verbatim>\<open>durable-admission.ts\<close>. \<open>DurableWiring\<close>:
    \<^verbatim>\<open>src/server/durable-run-wiring.ts\<close>. \<open>DurableInvariants\<close>, \<open>DurableRuns\<close>, \<open>DurableReplay\<close>, \<open>DurableProgress\<close> hold the
    lemmas: the job invariant, runs of the controller, replay of the log, progress of a tick.
  \<^item> \<open>BoardData\<close>: the card, column and dependency records and the normalisers of their fields
    (\<^verbatim>\<open>board-api-contract.ts\<close>, \<^verbatim>\<open>task-field-normalization.ts\<close>, \<^verbatim>\<open>task-title.ts\<close>, \<^verbatim>\<open>task-id.ts\<close>). \<open>BoardDeps\<close>,
    \<open>BoardOps\<close>: \<^verbatim>\<open>task-board-mutations.ts\<close>. \<open>BoardInvariants\<close>, \<open>BoardRelease\<close>: the board invariant and what
    moving and finishing do. \<open>PortableCrdt\<close>: \<^verbatim>\<open>src/state/portable-board-crdt.ts\<close>, \<open>PortableStore\<close>:
    \<^verbatim>\<open>src/state/portable-board-store.ts\<close>; \<open>PortableConvergence\<close>, \<open>PortableContent\<close>: the merge as a semilattice.
  \<^item> \<open>ToolManifest\<close>: \<^verbatim>\<open>tool-capability-manifest.ts\<close>, \<^verbatim>\<open>taint-labels.ts\<close>, \<^verbatim>\<open>src/chat/chat-execution-mode.ts\<close>.
    \<open>EgressPolicy\<close>: \<^verbatim>\<open>egress-policy-decision.ts\<close>. \<open>CapabilityBroker\<close>: \<^verbatim>\<open>capability-escalation.ts\<close>,
    \<^verbatim>\<open>capability-broker.ts\<close>, \<^verbatim>\<open>capability-broker-gate.ts\<close>. \<open>CapabilityGrants\<close>: \<^verbatim>\<open>capability-grants.ts\<close>,
    \<^verbatim>\<open>src/chat/chat-session-taint.ts\<close>. \<open>ToolExecutor\<close>: \<^verbatim>\<open>src/chat/chat-tool-executor.ts\<close>; \<open>ExecutorRuns\<close>: its runs.
  \<^item> \<open>RunPhases\<close>: \<^verbatim>\<open>run-state-machine.ts\<close>, \<^verbatim>\<open>manifest-phase-gate.ts\<close>, \<^verbatim>\<open>src/chat/chat-phase-tool-plan.ts\<close>;
    \<open>RunLadder\<close>: the runs of its driver. \<open>WorkflowKernel\<close>: \<^verbatim>\<open>workflow-kernel.ts\<close>, \<^verbatim>\<open>workflow-board-bridge.ts\<close>,
    \<^verbatim>\<open>phase-lane-divergence.ts\<close>. \<open>WorkflowQueue\<close>: \<^verbatim>\<open>workflow-command-queue.ts\<close>.
  \<^item> \<open>ColouredSearch\<close>, \<open>WorkPackages\<close>: \<^verbatim>\<open>work-package-dispatch.ts\<close>; \<open>IntegrationOrder\<close>:
    \<^verbatim>\<open>work-package-integration-order.ts\<close>; \<open>WorkPackageFacts\<close>: validation, waves and groups.
  \<^item> \<open>ReviewLoop\<close>: \<^verbatim>\<open>review-loop.ts\<close>, \<^verbatim>\<open>review-orchestration.ts\<close> (not the reviewer's seed prompt),
    \<^verbatim>\<open>review-panel-verdict.ts\<close>. \<open>ReviewRounds\<close>: \<^verbatim>\<open>src/nklein-agent/nklein-second-opinion-review.ts\<close>.
  \<^item> \<open>Reservations\<close>: \<^verbatim>\<open>dispatch-reservations.ts\<close>. \<open>ModelBehavior\<close>: \<^verbatim>\<open>model-behavior-profile.ts\<close>,
    \<^verbatim>\<open>local-model-endpoint-strategy.ts\<close>, the folds of \<^verbatim>\<open>src/telemetry/model-behavior-profile-store.ts\<close>.
    \<open>RetryPolicy\<close>: \<^verbatim>\<open>retry-policy.ts\<close>, \<^verbatim>\<open>failure-capsule.ts\<close>; \<open>StrategyLedger\<close>:
    \<^verbatim>\<open>strategy-effectiveness-ledger.ts\<close>; \<open>AttemptLoop\<close>: \<^verbatim>\<open>adaptive-attempt-loop.ts\<close>.
  \<^item> \<open>SubtaskDag\<close>: \<^verbatim>\<open>decomposition-subtask-dag.ts\<close>; \<open>SubtaskForest\<close>: its union-find and its longest chain.
  \<^item> \<open>ConcurrencyConfig\<close>: \<^verbatim>\<open>concurrency-config.ts\<close>. \<open>ModelIdentity\<close>: \<^verbatim>\<open>model-identity.ts\<close> and, of
    \<^verbatim>\<open>src/nklein-agent\<close>, \<^verbatim>\<open>nklein-local-only-policy.ts\<close>, \<^verbatim>\<open>local-runtime-capability-registry.ts\<close>,
    \<^verbatim>\<open>nklein-model-registry-key.ts\<close>. \<open>HostMap\<close>: \<^verbatim>\<open>nklein-lmstudio-host-map.ts\<close>. \<open>EndpointScheduler\<close>:
    \<^verbatim>\<open>nklein-endpoint-scheduler.ts\<close>; \<open>EndpointGates\<close>: its gates as one list of constraints. \<open>TurnAdmission\<close>: the
    admission of \<^verbatim>\<open>src/server/runtime-server.ts\<close> with \<^verbatim>\<open>model-turn-admission-wait-queue.ts\<close>,
    \<^verbatim>\<open>model-turn-admission.ts\<close>, \<^verbatim>\<open>trashed-card-sessions.ts\<close>, \<^verbatim>\<open>admission-phase-memo.ts\<close>; \<open>TurnQueueFacts\<close>,
    \<open>TurnLoadFacts\<close>: its queue, and the load of a host over all workspaces. \<open>NestedTurns\<close>:
    \<^verbatim>\<open>nested-model-turn-admission.ts\<close> and its wiring to the admission. \<open>StartQueue\<close>:
    \<^verbatim>\<open>src/trpc/runtime-task-start-queue.ts\<close> (not the text of the stored file) and its drains in \<^verbatim>\<open>runtime-server.ts\<close>.
  \<^item> \<open>DurableProperties\<close>, \<open>DurableProperties2\<close>, \<open>DurableProperties3\<close>, \<open>BoardProperties\<close>, \<open>PortableProperties\<close>,
    \<open>GateProperties\<close>, \<open>ControlProperties\<close>, \<open>WorkProperties\<close>, \<open>ReviewProperties\<close>,
    \<open>ReservationProperties\<close>, \<open>RetryProperties\<close>, \<open>SubtaskDagProperties\<close>, \<open>TurnProperties\<close>, \<open>NestedProperties\<close>,
    \<open>StartProperties\<close>: the properties, each after a text with its
    number, and after it a witness that applies it to a concrete input.

  \<^bold>\<open>Abstract specifications.\<close> One tick of the scheduler refines a lease protocol (\<open>DurableProperties2\<close>); the merge
  of replicated boards is the join of a semilattice of what each file says (\<open>PortableContent\<close>); the broker
  decides by a declarative contract (\<open>CapabilityBroker\<close>); the cycle test of the board and the coloured search
  are equivalent to reachability and acyclicity; the merge order is compared with an inductively defined
  set of packages that can land; the reservation ledger refines the list of live holds; the endpoint scheduler
  answers by a list of constraints (\<open>EndpointGates\<close>).

  \<^bold>\<open>Bounds and termination.\<close> The retry loop and the driver of a run may run for ever for an infinite bound;
  they are \<open>partial_function (option)\<close>, and their theorems say for which bounds they return; so are the pointer
  chases of the union-find and the memoised depth of a plan, which are shown to return for every plan. Every other
  loop terminates by a measure: nodes not yet visited (the cycle test, the coloured search), ids not yet
  placed or deferred (waves, merge order), versions of the file schema still to migrate. No fuel is used.

  \<^bold>\<open>Abstractions.\<close>
  \<^item> A string is a list of code units below 256; \<open>CHR 0x85\<close> and \<open>CHR 0x97\<close> stand for the ellipsis and the em
    dash, the only larger code units the modelled code writes, but for the arrow of one message, written
    as two characters. \<^verbatim>\<open>toLowerCase\<close> and \<^verbatim>\<open>\s\<close> are those of this range.
  \<^item> A number is a rational, an infinity or \<^verbatim>\<open>NaN\<close>: comparison, \<^verbatim>\<open>Math.max\<close>, truncation and the propagation of
    \<^verbatim>\<open>NaN\<close> are those of the language; rounding of doubles is not modelled. Counters that the code only
    increments are \<open>nat\<close> or \<open>int\<close>.
  \<^item> An operation behind a promise chain is one atomic step; what happens between steps (other events, appends
    that fail, answers of an operator, outputs of a tool) is an argument, arbitrary in the theorems. A call of the
    nested gate is cut at its three suspensions, and calls interleave there in any order.
  \<^item> Parameters stand for code outside the repository or outside a component: the URL parser, SHA-256, the
    collation \<^verbatim>\<open>localeCompare\<close>, the argument check and the audit text of a tool, the ports of the
    controller. The theorems hold for every such parameter unless they state a hypothesis.

  \<^bold>\<open>Not modelled.\<close> The web user interface, the packages, scripts, benchmarks and the Python core; the HTTP and
  tRPC servers, terminals, file and process access, the model providers and their prompts, telemetry and
  configuration files: these are input and output around the decisions above or glue over external
  libraries. The zod schemas are represented by the record types only. Of \<^verbatim>\<open>src/src/core\<close>, the evaluation,
  benchmark, retrieval, memory and skill files are left out; the manifest of the development lists every
  part with its status.
\<close>

end
